(* ===== verification/Prelude.thy ===== *)
theory Prelude
  imports Main "HOL-Library.Word" "HOL-Library.Multiset"
begin

text \<open>
  Shared vocabulary of the development.

  Go statements that can panic are computations of type \<open>'a go\<close>: \<open>Inl\<close> of the panic, or
  \<open>Inr\<close> of the value.  A Go function that returns an \<open>error\<close> beside its value is modelled by
  a component's own error datatype inside that value.  Sample values (\<open>RawType\<close>, a Go
  \<open>uint16\<close>) are 16-bit words; \<open>int32\<close> and \<open>int16\<close> conversions are written out with
  \<open>to_int32\<close> and \<open>to_int16\<close>; Go's 64-bit \<open>int\<close>, \<open>FrameIndex\<close>, \<open>time.Time\<close> (nanoseconds since
  the epoch) and \<open>time.Duration\<close> (nanoseconds) are integers.
\<close>

named_theorems go_simps \<open>evaluation rules of the panic monad\<close>
named_theorems conv_simps \<open>bounds of the fixed-width conversions\<close>

subsection \<open>Panics\<close>

datatype go_panic =
    IndexOutOfRange
  | SliceBounds
  | NilDereference
  | DivideByZero
  | CloseOfClosedChannel
  | ExplicitPanic string

type_synonym 'a go = "go_panic + 'a"

definition bind_go :: "'a go \<Rightarrow> ('a \<Rightarrow> 'b go) \<Rightarrow> 'b go" where
  "bind_go m f = (case m of Inl p \<Rightarrow> Inl p | Inr x \<Rightarrow> f x)"

lemma bind_go_simps [simp, go_simps]:
  "bind_go (Inl p) f = Inl p"
  "bind_go (Inr x) f = f x"
  by (simp_all add: bind_go_def)

lemma bind_go_InrE:
  assumes "bind_go m f = Inr y"
  obtains x where "m = Inr x" "f x = Inr y"
  using assms by (cases m) (simp_all add: bind_go_def)

lemma bind_go_Inr_iff [go_simps]: "bind_go m f = Inr y \<longleftrightarrow> (\<exists>x. m = Inr x \<and> f x = Inr y)"
  by (cases m) auto

lemma bind_go_assoc: "bind_go (bind_go m f) g = bind_go m (\<lambda>x. bind_go (f x) g)"
  by (cases m) auto

lemma bind_go_cong [fundef_cong]:
  "m = m' \<Longrightarrow> (\<And>x. m' = Inr x \<Longrightarrow> f x = f' x) \<Longrightarrow> bind_go m f = bind_go m' f'"
  by (cases m') auto

text \<open>\<open>xs[i]\<close> on a slice, and \<open>xs[lo:hi]\<close> (with the capacity equal to the length).\<close>

definition idx :: "'a list \<Rightarrow> int \<Rightarrow> 'a go" where
  "idx xs i = (if 0 \<le> i \<and> i < int (length xs) then Inr (xs ! nat i) else Inl IndexOutOfRange)"

definition slice_go :: "'a list \<Rightarrow> int \<Rightarrow> int \<Rightarrow> 'a list go" where
  "slice_go xs lo hi =
     (if 0 \<le> lo \<and> lo \<le> hi \<and> hi \<le> int (length xs)
      then Inr (take (nat (hi - lo)) (drop (nat lo) xs)) else Inl SliceBounds)"

lemma idx_in [simp, go_simps]: "0 \<le> i \<Longrightarrow> i < int (length xs) \<Longrightarrow> idx xs i = Inr (xs ! nat i)"
  by (simp add: idx_def)

lemma idx_Inr_iff [go_simps]:
  "idx xs i = Inr x \<longleftrightarrow> 0 \<le> i \<and> i < int (length xs) \<and> x = xs ! nat i"
  by (auto simp: idx_def)

lemma idx_of_nat [simp]: "n < length xs \<Longrightarrow> idx xs (int n) = Inr (xs ! n)"
  by (simp add: idx_def)

lemma slice_go_in [go_simps]:
  "0 \<le> lo \<Longrightarrow> lo \<le> hi \<Longrightarrow> hi \<le> int (length xs)
   \<Longrightarrow> slice_go xs lo hi = Inr (take (nat (hi - lo)) (drop (nat lo) xs))"
  by (simp add: slice_go_def)

lemma length_slice_go: "slice_go xs lo hi = Inr ys \<Longrightarrow> int (length ys) = hi - lo"
  by (auto simp: slice_go_def split: if_splits)

text \<open>Running a step that may panic over a list, left to right (a \<open>for range\<close> loop).\<close>

fun foldM_go :: "('s \<Rightarrow> 'a \<Rightarrow> 's go) \<Rightarrow> 's \<Rightarrow> 'a list \<Rightarrow> 's go" where
  "foldM_go f s [] = Inr s"
| "foldM_go f s (x # xs) = bind_go (f s x) (\<lambda>s'. foldM_go f s' xs)"

fun mapM_go :: "('a \<Rightarrow> 'b go) \<Rightarrow> 'a list \<Rightarrow> 'b list go" where
  "mapM_go f [] = Inr []"
| "mapM_go f (x # xs) = bind_go (f x) (\<lambda>y. bind_go (mapM_go f xs) (\<lambda>ys. Inr (y # ys)))"

lemma foldM_go_append:
  "foldM_go f s (xs @ ys) = bind_go (foldM_go f s xs) (\<lambda>s'. foldM_go f s' ys)"
  by (induction xs arbitrary: s) (auto simp: bind_go_assoc)

lemma foldM_go_invariant:
  assumes "foldM_go f s xs = Inr t" and "I s"
    and "\<And>s x s'. I s \<Longrightarrow> x \<in> set xs \<Longrightarrow> f s x = Inr s' \<Longrightarrow> I s'"
  shows "I t"
  using assms
proof (induction xs arbitrary: s)
  case (Cons x xs)
  from Cons.prems(1) obtain s' where s': "f s x = Inr s'" "foldM_go f s' xs = Inr t"
    by (auto simp: bind_go_Inr_iff)
  have "I s'" using Cons.prems(2) Cons.prems(3) [of s x s'] s'(1) by simp
  then show ?case using Cons.IH [OF s'(2)] Cons.prems(3) by (metis list.set_intros(2))
qed simp

lemma foldM_go_total:
  assumes "I s" and "\<And>s x. I s \<Longrightarrow> x \<in> set xs \<Longrightarrow> \<exists>s'. f s x = Inr s' \<and> I s'"
  shows "\<exists>t. foldM_go f s xs = Inr t \<and> I t"
  using assms
proof (induction xs arbitrary: s)
  case (Cons x xs)
  then obtain s' where "f s x = Inr s'" "I s'" by fastforce
  with Cons show ?case by simp
qed simp

lemma mapM_go_Inr: "mapM_go f xs = Inr ys \<Longrightarrow> length ys = length xs"
  by (induction xs arbitrary: ys) (auto simp: bind_go_Inr_iff)

lemma mapM_go_list_all2: "mapM_go f xs = Inr ys \<Longrightarrow> list_all2 (\<lambda>x y. f x = Inr y) xs ys"
  by (induction xs arbitrary: ys) (auto simp: bind_go_Inr_iff)

lemma mapM_go_pure: "(\<And>x. x \<in> set xs \<Longrightarrow> f x = Inr (g x)) \<Longrightarrow> mapM_go f xs = Inr (map g xs)"
  by (induction xs) auto

lemma mapM_go_map: "mapM_go f (map g xs) = mapM_go (\<lambda>x. f (g x)) xs"
  by (induction xs) simp_all

lemma mapM_go_all2:
  assumes "\<And>x. x \<in> set xs \<Longrightarrow> \<exists>y. f x = Inr y \<and> P x y"
  shows "\<exists>ys. mapM_go f xs = Inr ys \<and> list_all2 P xs ys"
  using assms
proof (induction xs)
  case (Cons x xs)
  obtain y where "f x = Inr y" "P x y" using Cons.prems by (meson list.set_intros(1))
  moreover obtain ys where "mapM_go f xs = Inr ys" "list_all2 P xs ys"
    using Cons by (meson list.set_intros(2))
  ultimately show ?case by auto
qed simp

lemma mapM_go_fail:
  assumes "x \<in> set xs" "f x = Inl e" "\<And>y. f y = Inl e \<or> (\<exists>z. f y = Inr z)"
  shows "mapM_go f xs = Inl e"
  using assms(1)
proof (induction xs)
  case (Cons y ys)
  show ?case using Cons assms(2) assms(3) [of y] by (cases "y = x") auto
qed simp

text \<open>A counting loop \<open>for i := range n\<close>, described by its states \<open>A 0, ..., A n\<close>.\<close>

lemma foldM_go_range:
  assumes "\<And>i. i < n \<Longrightarrow> f (A i) (int i) = Inr (A (Suc i))"
  shows "foldM_go f (A 0) (map int [0..<n]) = Inr (A n)"
  using assms by (induction n) (auto simp: foldM_go_append)

lemma upto_int: "[0..int n - 1] = map int [0..<n]"
proof (induction n)
  case (Suc n)
  have "[0..int n] = [0..int n - 1] @ [int n]" by (intro upto_rec2) simp
  then show ?case using Suc by simp
qed simp

lemma foldM_go_upto:
  assumes "\<And>i. i < n \<Longrightarrow> f (A i) (int i) = Inr (A (Suc i))"
  shows "foldM_go f (A 0) [0..int n - 1] = Inr (A n)"
  unfolding upto_int using assms by (rule foldM_go_range)

subsection \<open>Fixed-width integers\<close>

type_synonym raw = "16 word"
type_synonym u8 = "8 word"
type_synonym frame_index = int
type_synonym go_time = int
type_synonym go_duration = int

text \<open>Go's conversions \<open>int16(x)\<close>, \<open>int32(x)\<close>, \<open>int64(x)\<close> and their unsigned partners.\<close>

definition to_int16 :: "int \<Rightarrow> int" where "to_int16 x = signed_take_bit 15 x"
definition to_int32 :: "int \<Rightarrow> int" where "to_int32 x = signed_take_bit 31 x"
definition to_int64 :: "int \<Rightarrow> int" where "to_int64 x = signed_take_bit 63 x"
definition to_uint16 :: "int \<Rightarrow> int" where "to_uint16 x = take_bit 16 x"
definition to_uint32 :: "int \<Rightarrow> int" where "to_uint32 x = take_bit 32 x"

lemma to_int32_bounds [conv_simps]: "- (2 ^ 31) \<le> to_int32 x" "to_int32 x < 2 ^ 31"
  unfolding to_int32_def
  using signed_take_bit_int_greater_eq_minus_exp signed_take_bit_int_less_exp by blast+

lemma to_int32_id [conv_simps]: "- (2 ^ 31) \<le> x \<Longrightarrow> x < 2 ^ 31 \<Longrightarrow> to_int32 x = x"
  by (simp add: to_int32_def signed_take_bit_int_eq_self)

lemma to_int16_id [conv_simps]: "- (2 ^ 15) \<le> x \<Longrightarrow> x < 2 ^ 15 \<Longrightarrow> to_int16 x = x"
  by (simp add: to_int16_def signed_take_bit_int_eq_self)

lemma to_int64_id [conv_simps]: "- (2 ^ 63) \<le> x \<Longrightarrow> x < 2 ^ 63 \<Longrightarrow> to_int64 x = x"
  by (simp add: to_int64_def signed_take_bit_int_eq_self)

lemma to_uint32_id [conv_simps]: "0 \<le> x \<Longrightarrow> x < 2 ^ 32 \<Longrightarrow> to_uint32 x = x"
  by (simp add: to_uint32_def take_bit_int_eq_self)

text \<open>Go's integer division and remainder truncate toward zero and panic on a zero divisor.\<close>

definition quot_int :: "int \<Rightarrow> int \<Rightarrow> int" where
  "quot_int a b = sgn a * sgn b * (\<bar>a\<bar> div \<bar>b\<bar>)"

definition rem_int :: "int \<Rightarrow> int \<Rightarrow> int" where
  "rem_int a b = a - b * quot_int a b"

definition div_go :: "int \<Rightarrow> int \<Rightarrow> int go" where
  "div_go a b = (if b = 0 then Inl DivideByZero else Inr (quot_int a b))"

lemma quot_int_nonneg [simp]: "0 \<le> a \<Longrightarrow> 0 < b \<Longrightarrow> quot_int a b = a div b"
  by (cases "a = 0") (simp_all add: quot_int_def)

lemma rem_int_nonneg [simp]: "0 \<le> a \<Longrightarrow> 0 < b \<Longrightarrow> rem_int a b = a mod b"
  by (simp add: rem_int_def minus_mult_div_eq_mod)

text \<open>Unsigned sample values as integers.\<close>

lemma uint_raw_bounds [simp]: "0 \<le> uint (w::raw)" "uint (w::raw) < 65536"
  using uint_lt2p [of w] by simp_all

subsection \<open>Lists\<close>

lemma sorted_wrt_less_append_last:
  assumes "sorted_wrt (<) xs" "\<And>x. x \<in> set xs \<Longrightarrow> x < (y::int)"
  shows "sorted_wrt (<) (xs @ [y])"
  using assms by (simp add: sorted_wrt_append)

lemma nth_take_drop: "n < m \<Longrightarrow> k + n < length xs \<Longrightarrow> take m (drop k xs) ! n = xs ! (k + n)"
  by simp

lemma drop_append_le: "d \<le> length xs \<Longrightarrow> drop d xs @ ys = drop d (xs @ ys)"
  by simp

text \<open>Two entries of a list whose neighbours are at least \<open>d\<close> apart.\<close>

definition spaced :: "int \<Rightarrow> int list \<Rightarrow> bool" where
  "spaced d xs = sorted_wrt (\<lambda>x y. x + d \<le> y) xs"

lemma spaced_Nil [simp]: "spaced d []"
  by (simp add: spaced_def)

lemma spaced_Cons [simp]: "spaced d (x # xs) \<longleftrightarrow> (\<forall>y\<in>set xs. x + d \<le> y) \<and> spaced d xs"
  by (simp add: spaced_def)

lemma spaced_append:
  "spaced d (xs @ ys) \<longleftrightarrow> spaced d xs \<and> spaced d ys \<and> (\<forall>x\<in>set xs. \<forall>y\<in>set ys. x + d \<le> y)"
  by (simp add: spaced_def sorted_wrt_append)

lemma spaced_mono: "spaced d xs \<Longrightarrow> d' \<le> d \<Longrightarrow> spaced d' xs"
  unfolding spaced_def by (erule sorted_wrt_mono_rel [rotated]) simp

lemma spaced_sorted: "spaced d xs \<Longrightarrow> 0 \<le> d \<Longrightarrow> sorted xs"
  unfolding spaced_def by (erule sorted_wrt_mono_rel [rotated]) simp

end
