(* ===== verification/GoFloat.thy ===== *)
theory GoFloat
  imports Prelude Complex_Main "HOL-Library.Log_Nat"
begin

text \<open>
  Go's \<open>float64\<close> and \<open>float32\<close>.  A finite value is the rational number it denotes; the
  infinities and NaN are constructors of their own.  Every arithmetic operation computes the exact
  rational result and rounds it to the nearest representable value, ties to even, with gradual
  underflow and overflow to infinity, as IEEE 754 prescribes.  The two zeros are one value: no
  operation of the modelled code tells them apart.
\<close>

subsection \<open>Rounding a rational to an integer, ties to even\<close>

definition rne :: "rat \<Rightarrow> int" where
  "rne q = (let f = \<lfloor>q\<rfloor>; d = q - of_int f in
     if d < 1 / 2 then f else if d > 1 / 2 then f + 1 else if even f then f else f + 1)"

lemma rne_of_int [simp]: "rne (of_int n) = n"
  by (simp add: rne_def)

lemma rne_bounds: "\<lfloor>q\<rfloor> \<le> rne q" "rne q \<le> \<lfloor>q\<rfloor> + 1"
  by (auto simp: rne_def Let_def)

lemma rne_mono: "x \<le> y \<Longrightarrow> rne x \<le> rne y"
proof -
  assume le: "x \<le> y"
  then have fl: "\<lfloor>x\<rfloor> \<le> \<lfloor>y\<rfloor>" by (rule floor_mono)
  show ?thesis
  proof (cases "\<lfloor>x\<rfloor> = \<lfloor>y\<rfloor>")
    case True
    with le show ?thesis by (auto simp: rne_def Let_def)
  next
    case False
    with fl have "\<lfloor>x\<rfloor> + 1 \<le> \<lfloor>y\<rfloor>" by simp
    then show ?thesis using rne_bounds(2) [of x] rne_bounds(1) [of y] by linarith
  qed
qed

subsection \<open>The binary exponent of a positive rational\<close>

definition ilog2 :: "rat \<Rightarrow> int" where
  "ilog2 q = (let (a, b) = quotient_of q; k = bitlen a - bitlen b in
     if 2 powi k \<le> q then k else k - 1)"

lemma powi2_add: "(2::rat) powi (a + b) = 2 powi a * 2 powi b"
  by (simp add: power_int_add)

lemma powi2_pos [simp]: "0 < (2::rat) powi k"
  by simp

lemma powi2_mono: "a \<le> b \<Longrightarrow> (2::rat) powi a \<le> 2 powi b"
  by (rule power_int_increasing) simp_all

lemma bitlen_powi_bounds:
  assumes "0 < (a::int)"
  shows "(2::rat) powi (bitlen a - 1) \<le> of_int a" "(of_int a :: rat) < 2 powi bitlen a"
proof -
  have len: "1 \<le> bitlen a" using assms by (simp add: bitlen_ge_iff_power)
  have b: "2 ^ nat (bitlen a - 1) \<le> a \<and> a < 2 ^ nat (bitlen a)"
    using bitlen_bounds [OF assms] .
  have e1: "(2::rat) powi (bitlen a - 1) = 2 ^ nat (bitlen a - 1)"
    and e2: "(2::rat) powi bitlen a = 2 ^ nat (bitlen a)"
    using len by (simp_all add: power_int_def)
  show "(2::rat) powi (bitlen a - 1) \<le> of_int a"
    unfolding e1 using b by (metis of_int_le_iff of_int_numeral of_int_power)
  show "(of_int a :: rat) < 2 powi bitlen a"
    unfolding e2 using b by (metis of_int_less_iff of_int_numeral of_int_power)
qed

lemma ilog2_bounds:
  assumes "0 < q"
  shows "2 powi (ilog2 q) \<le> q" "q < 2 powi (ilog2 q + 1)"
proof -
  obtain a b where ab: "quotient_of q = (a, b)" by fastforce
  have q: "q = of_int a / of_int b" and b0: "0 < b"
    using ab by (simp_all add: quotient_of_div quotient_of_denom_pos)
  have a0: "0 < a" using assms q b0 by (simp add: zero_less_divide_iff)
  let ?k = "bitlen a - bitlen b"
  note A = bitlen_powi_bounds [OF a0] and B = bitlen_powi_bounds [OF b0]
  have bpos: "(0::rat) < of_int b" using b0 by simp
  have up: "q < 2 powi (?k + 1)"
  proof -
    have "2 powi (?k + 1) * 2 powi (bitlen b - 1) = (2::rat) powi bitlen a"
      by (simp flip: powi2_add)
    moreover have "(2::rat) powi (?k + 1) * 2 powi (bitlen b - 1) \<le> 2 powi (?k + 1) * of_int b"
      using B(1) by (intro mult_left_mono) simp_all
    ultimately show ?thesis using A(2) bpos by (simp add: q divide_less_eq)
  qed
  have lo: "2 powi (?k - 1) \<le> q"
  proof -
    have "2 powi (?k - 1) * 2 powi bitlen b = (2::rat) powi (bitlen a - 1)"
      by (simp flip: powi2_add)
    moreover have "(2::rat) powi (?k - 1) * of_int b \<le> 2 powi (?k - 1) * 2 powi bitlen b"
      using B(2) by (intro mult_left_mono) simp_all
    ultimately show ?thesis using A(1) bpos by (simp add: q le_divide_eq)
  qed
  have il: "ilog2 q = (if 2 powi ?k \<le> q then ?k else ?k - 1)"
    by (simp add: ilog2_def ab)
  show "2 powi (ilog2 q) \<le> q" using lo il by simp
  show "q < 2 powi (ilog2 q + 1)" using up il by auto
qed

lemma ilog2_mono: "0 < x \<Longrightarrow> x \<le> y \<Longrightarrow> ilog2 x \<le> ilog2 y"
proof (rule ccontr)
  assume x: "0 < x" and le: "x \<le> y" and "\<not> ilog2 x \<le> ilog2 y"
  then have "(2::rat) powi (ilog2 y + 1) \<le> 2 powi ilog2 x" by (intro powi2_mono) simp
  then show False
    using ilog2_bounds(1) [OF x] ilog2_bounds(2) [of y] le x by linarith
qed

subsection \<open>Rounding to a binary format\<close>

text \<open>
  \<open>p\<close> is the precision in bits and \<open>emin\<close> the exponent of the smallest subnormal.
\<close>

definition ulp_exp :: "int \<Rightarrow> int \<Rightarrow> rat \<Rightarrow> int" where
  "ulp_exp p emin q = max (ilog2 q - (p - 1)) emin"

definition round_mag :: "int \<Rightarrow> int \<Rightarrow> rat \<Rightarrow> rat" where
  "round_mag p emin q =
     (if q = 0 then 0
      else let u = 2 powi (ulp_exp p emin q) in of_int (rne (q / u)) * u)"

definition round_bin :: "int \<Rightarrow> int \<Rightarrow> rat \<Rightarrow> rat" where
  "round_bin p emin q = (if q < 0 then - round_mag p emin (- q) else round_mag p emin q)"

lemma round_mag_nonneg: "0 \<le> q \<Longrightarrow> 0 \<le> round_mag p emin q"
proof -
  assume "0 \<le> q"
  then have "rne 0 \<le> rne (q / 2 powi ulp_exp p emin q)"
    by (intro rne_mono) simp
  then show ?thesis
    using rne_of_int [of 0] by (simp add: round_mag_def Let_def)
qed

text \<open>A multiple of the unit in the last place is its own rounding.\<close>

lemma powi2_as_int: "0 \<le> k \<Longrightarrow> (2::rat) powi k = of_int (2 ^ nat k)"
  by (simp add: power_int_def)

lemma round_mag_grid:
  assumes "q = of_int n * 2 powi e" "ulp_exp p emin q \<le> e"
  shows "round_mag p emin q = q"
proof (cases "q = 0")
  case False
  let ?u = "ulp_exp p emin q"
  have "q / 2 powi ?u = of_int n * 2 powi (e - ?u)"
    by (simp add: assms(1) power_int_diff)
  also have "\<dots> = of_int (n * 2 ^ nat (e - ?u))"
    using assms(2) by (simp add: powi2_as_int)
  finally have "of_int (rne (q / 2 powi ?u)) = q / 2 powi ?u" by (metis rne_of_int)
  then show ?thesis using False by (simp add: round_mag_def Let_def)
qed (simp add: round_mag_def)

lemma round_mag_mono:
  assumes "1 \<le> p" "0 \<le> x" "x \<le> y"
  shows "round_mag p emin x \<le> round_mag p emin y"
proof (cases "x = 0")
  case True
  then show ?thesis
    using assms round_mag_nonneg [of y p emin] by (simp add: round_mag_def [of _ _ 0])
next
  case False
  let ?ex = "ulp_exp p emin x" and ?ey = "ulp_exp p emin y"
  have x0: "0 < x" and y0: "0 < y" using False assms by auto
  have mono: "ilog2 x \<le> ilog2 y" by (rule ilog2_mono [OF x0 assms(3)])
  have rx: "round_mag p emin x = of_int (rne (x / 2 powi ?ex)) * 2 powi ?ex"
    and ry: "round_mag p emin y = of_int (rne (y / 2 powi ?ey)) * 2 powi ?ey"
    using x0 y0 by (simp_all add: round_mag_def Let_def)
  show ?thesis
  proof (cases "?ex = ?ey")
    case True
    have "rne (x / 2 powi ?ey) \<le> rne (y / 2 powi ?ey)"
      using assms(3) by (intro rne_mono divide_right_mono) simp_all
    then show ?thesis unfolding rx ry True by (intro mult_right_mono) simp_all
  next
    case neq: False
    then have lt: "?ex < ?ey" and ey: "?ey = ilog2 y - (p - 1)"
      using mono by (auto simp: ulp_exp_def)
    let ?B = "(2::rat) powi ilog2 y"
    have lx: "ilog2 x < ilog2 y" using neq mono by (auto simp: ulp_exp_def)
    have xB: "x \<le> ?B"
      using ilog2_bounds(2) [OF x0] powi2_mono [of "ilog2 x + 1" "ilog2 y"] lx by simp
    have By: "?B \<le> y" by (rule ilog2_bounds(1) [OF y0])
    have exB: "?B / 2 powi ?ex = of_int (2 ^ nat (ilog2 y - ?ex))"
      using lt ey assms(1) by (simp add: powi2_as_int flip: power_int_diff)
    have eyB: "?B / 2 powi ?ey = of_int (2 ^ nat (ilog2 y - ?ey))"
      using ey assms(1) by (simp add: powi2_as_int flip: power_int_diff)
    have "rne (x / 2 powi ?ex) \<le> rne (?B / 2 powi ?ex)"
      using xB by (intro rne_mono divide_right_mono) simp_all
    then have "rne (x / 2 powi ?ex) \<le> 2 ^ nat (ilog2 y - ?ex)"
      unfolding exB by (simp only: rne_of_int)
    then have "of_int (rne (x / 2 powi ?ex)) \<le> (of_int (2 ^ nat (ilog2 y - ?ex)) :: rat)"
      by (simp only: of_int_le_iff)
    then have 1: "round_mag p emin x \<le> ?B"
      unfolding rx exB [symmetric] by (simp add: le_divide_eq)
    have "rne (?B / 2 powi ?ey) \<le> rne (y / 2 powi ?ey)"
      using By by (intro rne_mono divide_right_mono) simp_all
    then have "2 ^ nat (ilog2 y - ?ey) \<le> rne (y / 2 powi ?ey)"
      unfolding eyB by (simp only: rne_of_int)
    then have "(of_int (2 ^ nat (ilog2 y - ?ey)) :: rat) \<le> of_int (rne (y / 2 powi ?ey))"
      by (simp only: of_int_le_iff)
    then have 2: "?B \<le> round_mag p emin y"
      unfolding ry eyB [symmetric] by (simp add: divide_le_eq)
    from 1 2 show ?thesis by simp
  qed
qed

lemma round_bin_mono: "1 \<le> p \<Longrightarrow> x \<le> y \<Longrightarrow> round_bin p emin x \<le> round_bin p emin y"
  using round_mag_mono [of p "- y" "- x" emin] round_mag_mono [of p x y emin]
    round_mag_nonneg [of "- x" p emin] round_mag_nonneg [of y p emin]
  by (auto simp: round_bin_def)

text \<open>Every integer multiple of \<open>2 powi e\<close> with at most \<open>p\<close> significant bits is representable.\<close>

lemma round_bin_int:
  assumes "\<bar>n\<bar> < 2 ^ nat p" "emin \<le> e" "1 \<le> p"
  shows "round_bin p emin (of_int n * 2 powi e) = of_int n * 2 powi e"
proof -
  have *: "round_mag p emin (of_int m * 2 powi e) = of_int m * 2 powi e"
    if m: "0 \<le> m" "m < 2 ^ nat p" for m
  proof (cases "m = 0")
    case False
    let ?q = "(of_int m :: rat) * 2 powi e"
    have q0: "0 < ?q" using m False by simp
    have "(of_int m :: rat) < of_int (2 ^ nat p)" using m(2) by (simp only: of_int_less_iff)
    then have "?q < 2 powi (p + e)"
      using assms(3) by (simp add: powi2_as_int powi2_add)
    then have "(2::rat) powi ilog2 ?q < 2 powi (p + e)"
      using ilog2_bounds(1) [OF q0] by simp
    then have "ilog2 ?q < p + e"
      by (metis not_le powi2_mono)
    then have "ulp_exp p emin ?q \<le> e" using assms(2) by (simp add: ulp_exp_def)
    then show ?thesis by (rule round_mag_grid [OF refl])
  qed (simp add: round_mag_def)
  show ?thesis
  proof (cases "n < 0")
    case True
    then have "of_int n * 2 powi e < (0::rat)" by (simp add: mult_less_0_iff)
    then show ?thesis using * [of "- n"] assms(1) True by (simp add: round_bin_def)
  next
    case False
    then have "(0::rat) \<le> of_int n * 2 powi e" by simp
    then have "\<not> of_int n * 2 powi e < (0::rat)" by (simp only: not_less)
    then show ?thesis using * [of n] assms(1) False by (simp add: round_bin_def)
  qed
qed

subsection \<open>The floating-point types and their operations\<close>

datatype go_float = Fin rat | PInf | NInf | NaN

text \<open>Overflow to infinity above the largest binade (\<open>emax\<close>).\<close>

definition pack_float :: "int \<Rightarrow> rat \<Rightarrow> go_float" where
  "pack_float emax r =
     (if 2 powi emax \<le> r then PInf else if r \<le> - (2 powi emax) then NInf else Fin r)"

definition r64 :: "rat \<Rightarrow> go_float" where
  "r64 q = pack_float 1024 (round_bin 53 (- 1074) q)"

definition r32 :: "rat \<Rightarrow> go_float" where
  "r32 q = pack_float 128 (round_bin 24 (- 149) q)"

fun fneg :: "go_float \<Rightarrow> go_float" where
  "fneg (Fin a) = Fin (- a)"
| "fneg PInf = NInf"
| "fneg NInf = PInf"
| "fneg NaN = NaN"

fun fadd :: "(rat \<Rightarrow> go_float) \<Rightarrow> go_float \<Rightarrow> go_float \<Rightarrow> go_float" where
  "fadd rnd (Fin a) (Fin b) = rnd (a + b)"
| "fadd rnd NaN y = NaN"
| "fadd rnd x NaN = NaN"
| "fadd rnd PInf NInf = NaN"
| "fadd rnd NInf PInf = NaN"
| "fadd rnd PInf y = PInf"
| "fadd rnd NInf y = NInf"
| "fadd rnd x y = y"

definition fsub :: "(rat \<Rightarrow> go_float) \<Rightarrow> go_float \<Rightarrow> go_float \<Rightarrow> go_float" where
  "fsub rnd x y = fadd rnd x (fneg y)"

definition fsgn :: "go_float \<Rightarrow> int" where
  "fsgn x = (case x of Fin a \<Rightarrow> (if a < 0 then - 1 else if a = 0 then 0 else 1)
     | PInf \<Rightarrow> 1 | NInf \<Rightarrow> - 1 | NaN \<Rightarrow> 0)"

definition finf :: "int \<Rightarrow> go_float" where
  "finf s = (if s = 0 then NaN else if s < 0 then NInf else PInf)"

fun fmul :: "(rat \<Rightarrow> go_float) \<Rightarrow> go_float \<Rightarrow> go_float \<Rightarrow> go_float" where
  "fmul rnd (Fin a) (Fin b) = rnd (a * b)"
| "fmul rnd x y = finf (fsgn x * fsgn y)"

text \<open>
  Division by a zero gives an infinity of the dividend's sign (the zeros of the modelled code are
  positive), and 0/0 is NaN.
\<close>

fun fdiv :: "(rat \<Rightarrow> go_float) \<Rightarrow> go_float \<Rightarrow> go_float \<Rightarrow> go_float" where
  "fdiv rnd (Fin a) (Fin b) = (if b = 0 then finf (fsgn (Fin a)) else rnd (a / b))"
| "fdiv rnd NaN y = NaN"
| "fdiv rnd x NaN = NaN"
| "fdiv rnd (Fin a) y = Fin 0"
| "fdiv rnd x (Fin b) = (if b < 0 then fneg x else x)"
| "fdiv rnd x y = NaN"

fun flt :: "go_float \<Rightarrow> go_float \<Rightarrow> bool" where
  "flt (Fin a) (Fin b) = (a < b)"
| "flt NaN y = False"
| "flt x NaN = False"
| "flt PInf y = False"
| "flt x PInf = True"
| "flt NInf y = (y \<noteq> NInf)"
| "flt x NInf = False"

definition feq :: "go_float \<Rightarrow> go_float \<Rightarrow> bool" where
  "feq x y = (x = y \<and> x \<noteq> NaN)"

definition fle :: "go_float \<Rightarrow> go_float \<Rightarrow> bool" where
  "fle x y = (flt x y \<or> feq x y)"

text \<open>\<open>float64(n)\<close> and \<open>float32(n)\<close> of an integer.\<close>

definition f64_of_int :: "int \<Rightarrow> go_float" where "f64_of_int n = r64 (of_int n)"
definition f32_of_int :: "int \<Rightarrow> go_float" where "f32_of_int n = r32 (of_int n)"

text \<open>
  \<open>int(x)\<close> truncates toward zero.  For a value outside the range of \<open>int64\<close> (and for NaN) the
  language leaves the result to the implementation; the model takes the value amd64 gives.
\<close>

definition trunc_rat :: "rat \<Rightarrow> int" where
  "trunc_rat q = (if q < 0 then - \<lfloor>- q\<rfloor> else \<lfloor>q\<rfloor>)"

fun int_of_f64 :: "go_float \<Rightarrow> int" where
  "int_of_f64 (Fin q) =
     (let n = trunc_rat q in if - (2 ^ 63) \<le> n \<and> n < 2 ^ 63 then n else - (2 ^ 63))"
| "int_of_f64 _ = - (2 ^ 63)"

text \<open>\<open>math.Ceil\<close> is exact.\<close>

fun fceil :: "go_float \<Rightarrow> go_float" where
  "fceil (Fin q) = Fin (of_int \<lceil>q\<rceil>)"
| "fceil x = x"

text \<open>\<open>roundint\<close> of \<open>lancero_source.go\<close>: add a half of the argument's sign, then truncate.\<close>

definition roundint :: "go_float \<Rightarrow> int" where
  "roundint x = int_of_f64 (fadd r64 x (if flt x (Fin 0) then Fin (- 1 / 2) else Fin (1 / 2)))"

lemma trunc_rat_mono: "a \<le> b \<Longrightarrow> trunc_rat a \<le> trunc_rat b"
proof -
  assume le: "a \<le> b"
  have fl: "\<lfloor>- b\<rfloor> \<le> \<lfloor>- a\<rfloor>" "\<lfloor>a\<rfloor> \<le> \<lfloor>b\<rfloor>" using le by (simp_all add: floor_mono)
  show ?thesis
  proof (cases "a < 0")
    case True
    then have na: "0 \<le> \<lfloor>- a\<rfloor>" by simp
    have "- \<lfloor>- a\<rfloor> \<le> \<lfloor>b\<rfloor>" if "\<not> b < 0"
    proof -
      have "0 \<le> \<lfloor>b\<rfloor>" using that by simp
      with na show ?thesis by linarith
    qed
    then show ?thesis using True fl(1) unfolding trunc_rat_def by auto
  next
    case False
    with le fl show ?thesis unfolding trunc_rat_def by auto
  qed
qed

lemma trunc_rat_of_int [simp]: "trunc_rat (of_int n) = n"
  by (simp add: trunc_rat_def flip: of_int_minus)

text \<open>Integers of magnitude below \<open>2 ^ 53\<close>, and their halves, are exact in \<open>float64\<close>.\<close>

lemma r64_exact:
  assumes "\<bar>n\<bar> < 2 ^ 53" "- 1074 \<le> e" "e \<le> 900"
  shows "r64 (of_int n * 2 powi e) = Fin (of_int n * 2 powi e)"
proof -
  let ?q = "(of_int n :: rat) * 2 powi e"
  have "\<bar>of_int n :: rat\<bar> < of_int (2 ^ 53)" using assms(1) by (simp flip: of_int_abs)
  then have "\<bar>?q\<bar> < of_int (2 ^ 53) * 2 powi e" by (simp add: abs_mult)
  also have "of_int (2 ^ 53) = (2::rat) powi 53" by simp
  also have "(2::rat) powi 53 * 2 powi e = 2 powi (53 + e)" by (simp add: powi2_add)
  also have "\<dots> \<le> 2 powi 1024" using assms(3) by (intro powi2_mono) simp
  finally have "\<bar>?q\<bar> < 2 powi 1024" .
  then show ?thesis
    using round_bin_int [of n 53 "- 1074" e] assms by (auto simp: r64_def pack_float_def)
qed

lemma f64_of_int_exact: "\<bar>n\<bar> < 2 ^ 53 \<Longrightarrow> f64_of_int n = Fin (of_int n)"
  using r64_exact [of n 0] by (simp add: f64_of_int_def)

lemma r64_half:
  assumes "\<bar>2 * n + 1\<bar> < 2 ^ 53"
  shows "r64 (of_int n + 1 / 2) = Fin (of_int n + 1 / 2)"
proof -
  have "(of_int n + 1 / 2 :: rat) = of_int (2 * n + 1) * 2 powi (- 1)"
    by (simp add: field_simps)
  moreover have "r64 (of_int (2 * n + 1) * 2 powi (- 1)) = Fin (of_int (2 * n + 1) * 2 powi (- 1))"
    using assms by (intro r64_exact) simp_all
  ultimately show ?thesis by (simp only:)
qed

lemma ilog2_eqI:
  assumes "0 < q" "2 powi k \<le> q" "q < 2 powi (k + 1)"
  shows "ilog2 q = k"
proof -
  have "(2::rat) powi ilog2 q < 2 powi (k + 1)" using ilog2_bounds(1) [OF assms(1)] assms(3) by simp
  then have 1: "ilog2 q < k + 1" by (metis not_le powi2_mono)
  have "(2::rat) powi k < 2 powi (ilog2 q + 1)" using ilog2_bounds(2) [OF assms(1)] assms(2) by simp
  then have "k < ilog2 q + 1" by (metis not_le powi2_mono)
  with 1 show ?thesis by simp
qed

lemma r64_mono:
  assumes "x \<le> y" "r64 x = Fin a" "r64 y = Fin b"
  shows "a \<le> b"
  using assms round_bin_mono [of 53 x y "- 1074"]
  by (auto simp: r64_def pack_float_def split: if_splits)

lemma r64_between:
  assumes "r64 lo = Fin lo" "r64 hi = Fin hi" "lo \<le> x" "x \<le> hi"
  shows "\<exists>q. r64 x = Fin q \<and> lo \<le> q \<and> q \<le> hi"
proof -
  have m: "round_bin 53 (- 1074) lo \<le> round_bin 53 (- 1074) x"
    "round_bin 53 (- 1074) x \<le> round_bin 53 (- 1074) hi"
    using assms by (simp_all add: round_bin_mono)
  have l: "round_bin 53 (- 1074) lo = lo" "- (2 powi 1024) < lo"
    and h: "round_bin 53 (- 1074) hi = hi" "hi < 2 powi 1024"
    using assms(1,2) by (auto simp: r64_def pack_float_def split: if_splits)
  show ?thesis using m l h by (auto simp: r64_def pack_float_def)
qed

end
