(* ===== verification/DataStream.thy ===== *)
theory DataStream
  imports GoFloat
begin

text \<open>
  Single-channel sample buffers (\<open>data_source.go\<close>, the types \<open>DataSegment\<close>, \<open>DataStream\<close> and
  \<open>DataRecord\<close>).  A stream holds a window of the samples of one channel and the frame number and
  time of its first sample; \<open>AppendSegment\<close> extends the window at its end and \<open>TrimKeepingN\<close>
  forgets its beginning.  The locale \<open>sample_window\<close> states what the trigger search relies on:
  after any sequence of the two operations the window is a suffix of the samples that arrived, and
  every sample keeps its frame number.
\<close>

subsection \<open>Segments, streams and records\<close>

record data_segment =
  rawData :: "raw list"
  signedData :: bool
  framesPerSample :: int
  firstFrameIndex :: frame_index
  firstTime :: go_time
  framePeriod :: go_duration
  voltsPerArb :: go_float
  processed :: bool
  droppedFrames :: int

definition NewDataSegment ::
  "raw list \<Rightarrow> int \<Rightarrow> frame_index \<Rightarrow> go_time \<Rightarrow> go_duration \<Rightarrow> data_segment" where
  "NewDataSegment data fps firstFrame firstT period =
     \<lparr>rawData = data, signedData = False, framesPerSample = fps, firstFrameIndex = firstFrame,
      firstTime = firstT, framePeriod = period, voltsPerArb = Fin 0, processed = False,
      droppedFrames = 0\<rparr>"

definition TimeOf :: "'a data_segment_scheme \<Rightarrow> int \<Rightarrow> go_time" where
  "TimeOf seg sampleNum = firstTime seg + (sampleNum * framesPerSample seg) * framePeriod seg"

record data_stream = data_segment +
  samplesSeen :: int

definition NewDataStream ::
  "raw list \<Rightarrow> int \<Rightarrow> frame_index \<Rightarrow> go_time \<Rightarrow> go_duration \<Rightarrow> data_stream" where
  "NewDataStream data fps firstFrame firstT period =
     data_segment.extend (NewDataSegment data fps firstFrame firstT period)
       (data_stream.fields (int (length data)))"

definition AppendSegment :: "data_stream \<Rightarrow> data_segment \<Rightarrow> data_stream" where
  "AppendSegment stream segment =
     (let framesNowInStream = int (length (rawData stream)) * framesPerSample segment;
          timeNowInStream = framesNowInStream * framePeriod stream
      in stream\<lparr>framesPerSample := framesPerSample segment,
                framePeriod := framePeriod segment,
                firstFrameIndex := firstFrameIndex segment - framesNowInStream,
                firstTime := firstTime segment - timeNowInStream,
                rawData := rawData stream @ rawData segment,
                signedData := signedData segment,
                samplesSeen := samplesSeen stream + int (length (rawData segment))\<rparr>)"

definition TrimKeepingN :: "data_stream \<Rightarrow> int \<Rightarrow> (data_stream \<times> int) go" where
  "TrimKeepingN stream N =
     (let L = int (length (rawData stream)) in
      if N \<ge> L then Inr (stream, L)
      else if N < 0 then Inl SliceBounds
      else let deltaFrames = (L - N) * framesPerSample stream in
        Inr (stream\<lparr>rawData := drop (nat (L - N)) (rawData stream),
                    firstFrameIndex := firstFrameIndex stream + deltaFrames,
                    firstTime := firstTime stream + deltaFrames * framePeriod stream\<rparr>, N))"

record data_record =
  recData :: "raw list"
  trigFrame :: frame_index
  trigTime :: go_time
  recSigned :: bool
  recChannelIndex :: int
  presamples :: int
  recVoltsPerArb :: go_float
  sampPeriod :: go_float
  pretrigMean :: go_float
  pretrigDelta :: go_float
  pulseAverage :: go_float
  pulseRMS :: go_float
  peakValue :: go_float
  modelCoefs :: "go_float list"
  residualStdDev :: go_float

subsection \<open>Frame numbers of the samples\<close>

text \<open>The frame number and the time of sample \<open>k\<close> of a stream.\<close>

definition frame_of :: "'a data_segment_scheme \<Rightarrow> int \<Rightarrow> frame_index" where
  "frame_of st k = firstFrameIndex st + k * framesPerSample st"

lemma rawData_AppendSegment [simp]: "rawData (AppendSegment st seg) = rawData st @ rawData seg"
  by (simp add: AppendSegment_def Let_def)

lemma firstFrameIndex_AppendSegment [simp]:
  "firstFrameIndex (AppendSegment st seg)
     = firstFrameIndex seg - int (length (rawData st)) * framesPerSample seg"
  by (simp add: AppendSegment_def Let_def)

lemma framesPerSample_AppendSegment [simp]:
  "framesPerSample (AppendSegment st seg) = framesPerSample seg"
  by (simp add: AppendSegment_def Let_def)

lemma signedData_AppendSegment [simp]: "signedData (AppendSegment st seg) = signedData seg"
  by (simp add: AppendSegment_def Let_def)

lemma frame_of_AppendSegment:
  "frame_of (AppendSegment st seg) (int (length (rawData st)) + k) = frame_of seg k"
  by (simp add: frame_of_def algebra_simps)

lemma TimeOf_AppendSegment:
  assumes "framePeriod seg = framePeriod st"
  shows "TimeOf (AppendSegment st seg) (int (length (rawData st)) + k) = TimeOf seg k"
  using assms by (simp add: TimeOf_def AppendSegment_def Let_def algebra_simps)

lemma TrimKeepingN_cases:
  assumes "TrimKeepingN st N = Inr (st', n)"
  obtains (keep) "N \<ge> int (length (rawData st))" "st' = st" "n = int (length (rawData st))"
  | (cut) "0 \<le> N" "N < int (length (rawData st))" "n = N"
      "rawData st' = drop (length (rawData st) - nat N) (rawData st)"
      "firstFrameIndex st' = frame_of st (int (length (rawData st)) - N)"
      "firstTime st' = TimeOf st (int (length (rawData st)) - N)"
      "framesPerSample st' = framesPerSample st" "framePeriod st' = framePeriod st"
      "signedData st' = signedData st" "samplesSeen st' = samplesSeen st"
proof (cases "N \<ge> int (length (rawData st))")
  case True
  with assms show ?thesis by (intro keep) (auto simp: TrimKeepingN_def Let_def)
next
  case False
  with assms have N: "0 \<le> N" "N < int (length (rawData st))" and n: "n = N"
    and st': "st' = st\<lparr>rawData := drop (nat (int (length (rawData st)) - N)) (rawData st),
      firstFrameIndex := firstFrameIndex st + (int (length (rawData st)) - N) * framesPerSample st,
      firstTime := firstTime st
        + (int (length (rawData st)) - N) * framesPerSample st * framePeriod st\<rparr>"
    by (auto simp: TrimKeepingN_def Let_def split: if_splits)
  have "nat (int (length (rawData st)) - N) = length (rawData st) - nat N" using N by linarith
  then show ?thesis using cut N n by (simp add: st' frame_of_def TimeOf_def)
qed

lemma TrimKeepingN_total: "0 \<le> N \<Longrightarrow> \<exists>st' n. TrimKeepingN st N = Inr (st', n)"
  by (simp add: TrimKeepingN_def Let_def)

lemma TrimKeepingN_length:
  "TrimKeepingN st N = Inr (st', n)
   \<Longrightarrow> n = int (length (rawData st')) \<and> length (rawData st') = min (nat N) (length (rawData st))"
  by (erule TrimKeepingN_cases) (auto simp: min_def)

text \<open>
  Trimming forgets leading samples and nothing else: every remaining sample keeps its value, its
  frame number and its time.
\<close>

lemma TrimKeepingN_sample:
  assumes "TrimKeepingN st N = Inr (st', n)" "k < length (rawData st')"
  defines "d \<equiv> length (rawData st) - length (rawData st')"
  shows "rawData st' ! k = rawData st ! (d + k)
    \<and> frame_of st' (int k) = frame_of st (int (d + k))
    \<and> TimeOf st' (int k) = TimeOf st (int (d + k))"
  using assms(1)
proof (cases rule: TrimKeepingN_cases)
  case keep
  then show ?thesis by (simp add: d_def)
next
  case cut
  then have d: "int d = int (length (rawData st)) - N" "d = length (rawData st) - nat N"
    by (simp_all add: d_def)
  then show ?thesis
    using cut assms(2) by (simp add: frame_of_def TimeOf_def algebra_simps)
qed

subsection \<open>The window contract\<close>

text \<open>
  What a client of the buffer relies on: \<open>append\<close> puts the new samples at the end and makes the
  frame numbers agree with the new segment, \<open>trim\<close> keeps a suffix and the frame number of what it
  keeps.  From these two laws every sequence of the operations yields a window of the input.
\<close>

locale sample_window =
  fixes append :: "'st \<Rightarrow> 'seg \<Rightarrow> 'st"
    and trim :: "'st \<Rightarrow> int \<Rightarrow> 'st go"
    and samples :: "'st \<Rightarrow> 'a list"
    and first_frame :: "'st \<Rightarrow> int"
    and new_samples :: "'seg \<Rightarrow> 'a list"
    and seg_frame :: "'seg \<Rightarrow> int"
    and fps :: int
    and good_seg :: "'seg \<Rightarrow> bool"
    and inv :: "'st \<Rightarrow> bool"
  assumes append_samples: "inv st \<Longrightarrow> good_seg seg \<Longrightarrow>
      samples (append st seg) = samples st @ new_samples seg"
    and append_frame: "inv st \<Longrightarrow> good_seg seg \<Longrightarrow>
      first_frame (append st seg) = seg_frame seg - int (length (samples st)) * fps"
    and append_inv: "inv st \<Longrightarrow> good_seg seg \<Longrightarrow> inv (append st seg)"
    and trim_ok: "inv st \<Longrightarrow> 0 \<le> n \<Longrightarrow> \<exists>st'. trim st n = Inr st'"
    and trim_samples: "inv st \<Longrightarrow> 0 \<le> n \<Longrightarrow> trim st n = Inr st' \<Longrightarrow>
      samples st' = drop (length (samples st) - nat n) (samples st)"
    and trim_frame: "inv st \<Longrightarrow> 0 \<le> n \<Longrightarrow> trim st n = Inr st' \<Longrightarrow>
      first_frame st' = first_frame st + int (length (samples st) - nat n) * fps"
    and trim_inv: "inv st \<Longrightarrow> 0 \<le> n \<Longrightarrow> trim st n = Inr st' \<Longrightarrow> inv st'"
begin

fun feed :: "'st \<Rightarrow> ('seg \<times> int) list \<Rightarrow> 'st go" where
  "feed st [] = Inr st"
| "feed st ((seg, n) # rest) = bind_go (trim (append st seg) n) (\<lambda>st'. feed st' rest)"

text \<open>Consecutive segments: each starts at the frame after the end of the one before.\<close>

fun contiguous :: "int \<Rightarrow> ('seg \<times> int) list \<Rightarrow> bool" where
  "contiguous f [] = True"
| "contiguous f ((seg, n) # rest) \<longleftrightarrow> good_seg seg \<and> 0 \<le> n \<and> seg_frame seg = f
     \<and> contiguous (f + int (length (new_samples seg)) * fps) rest"

definition arrived :: "('seg \<times> int) list \<Rightarrow> 'a list" where
  "arrived ops = concat (map (\<lambda>(seg, n). new_samples seg) ops)"

lemma feed_window:
  assumes "inv st" "contiguous (first_frame st + int (length (samples st)) * fps) ops"
  shows "\<exists>st' d. feed st ops = Inr st' \<and> inv st' \<and> d \<le> length (samples st @ arrived ops)
    \<and> samples st' = drop d (samples st @ arrived ops)
    \<and> first_frame st' = first_frame st + int d * fps"
  using assms
proof (induction ops arbitrary: st)
  case Nil
  then show ?case by (auto simp: arrived_def intro!: exI [of _ 0])
next
  case (Cons op rest)
  obtain seg n where op: "op = (seg, n)" by (cases op)
  let ?a = "append st seg"
  have seg: "good_seg seg" "0 \<le> n"
    "seg_frame seg = first_frame st + int (length (samples st)) * fps"
    "contiguous (first_frame st + int (length (samples st) + length (new_samples seg)) * fps) rest"
    using Cons.prems(2) by (simp_all add: op algebra_simps)
  have a: "inv ?a" "samples ?a = samples st @ new_samples seg" "first_frame ?a = first_frame st"
    using Cons.prems(1) seg by (simp_all add: append_inv append_samples append_frame)
  obtain t where t: "trim ?a n = Inr t" using trim_ok a(1) seg(2) by blast
  define d where "d = length (samples ?a) - nat n"
  have t2: "samples t = drop d (samples ?a)" "first_frame t = first_frame st + int d * fps" "inv t"
    using a seg(2) t trim_frame trim_samples trim_inv by (simp_all add: d_def)
  have dl: "d \<le> length (samples ?a)" by (simp add: d_def)
  have all: "samples st @ arrived (op # rest) = samples ?a @ arrived rest"
    by (simp add: arrived_def op a(2))
  have len: "int (length (samples t)) = int (length (samples ?a)) - int d"
    using dl by (simp add: t2(1))
  have "contiguous (first_frame t + int (length (samples t)) * fps) rest"
    using seg(4) by (simp add: len t2(2) a(2) algebra_simps)
  then obtain u e where u: "feed t rest = Inr u" "inv u" "e \<le> length (samples t @ arrived rest)"
    "samples u = drop e (samples t @ arrived rest)" "first_frame u = first_frame t + int e * fps"
    using Cons.IH [OF t2(3)] by blast
  have "samples u = drop (d + e) (samples st @ arrived (op # rest))"
    unfolding u(4) all t2(1) drop_append_le [OF dl] by (simp only: drop_drop add.commute)
  moreover have "d + e \<le> length (samples st @ arrived (op # rest))"
    unfolding all using u(3) dl by (simp add: t2(1))
  moreover have "feed st (op # rest) = Inr u" using t u(1) by (simp add: op)
  moreover have "first_frame u = first_frame st + int (d + e) * fps"
    by (simp add: u(5) t2(2) algebra_simps)
  ultimately show ?case using u(2) by blast
qed

end

definition trim_stream :: "data_stream \<Rightarrow> int \<Rightarrow> data_stream go" where
  "trim_stream st n = bind_go (TrimKeepingN st n) (\<lambda>(st', _). Inr st')"

interpretation ds_window: sample_window AppendSegment trim_stream rawData firstFrameIndex
  rawData firstFrameIndex fps "\<lambda>seg. framesPerSample seg = fps"
  "\<lambda>st. rawData st = [] \<or> framesPerSample st = fps" for fps
proof (unfold_locales, goal_cases)
  case (4 st n)
  then show ?case using TrimKeepingN_total [of n st] by (auto simp: trim_stream_def)
next
  case (5 st n st')
  then obtain m where "TrimKeepingN st n = Inr (st', m)"
    by (auto simp: trim_stream_def bind_go_Inr_iff)
  then show ?case using 5 by (cases rule: TrimKeepingN_cases) auto
next
  case (6 st n st')
  then obtain m where "TrimKeepingN st n = Inr (st', m)"
    by (auto simp: trim_stream_def bind_go_Inr_iff)
  then show ?case
    using 6 by (cases rule: TrimKeepingN_cases) (auto simp: frame_of_def of_nat_diff)
next
  case (7 st n st')
  then obtain m where "TrimKeepingN st n = Inr (st', m)"
    by (auto simp: trim_stream_def bind_go_Inr_iff)
  then show ?case using 7 by (cases rule: TrimKeepingN_cases) auto
qed auto

end
