(* ===== verification/PhaseMix.thy ===== *)
theory PhaseMix
  imports DataStream
begin

unbundle bit_operations_syntax

text \<open>
  Sample-by-sample conditioning of raw data.  \<open>PhaseUnwrapper\<close> (\<open>phase_unwrap.go\<close>) inverts
  channels, drops low bits and makes phases continuous by adding multiples of a full turn; \<open>Mix\<close>
  (\<open>mix.go\<close>) adds the scaled error signal to the feedback signal of the sample before.  Both keep
  state from one buffer to the next, so their work on a stream must not depend on how it is cut into
  buffers: this is the locale \<open>stream_filter\<close>, interpreted on both.
\<close>

subsection \<open>The phase unwrapper\<close>

record PhaseUnwrapper =
  lastVal :: raw
  offset :: raw
  fractionBits :: nat
  lowBitsToDrop :: nat
  upperStepLim :: int
  lowerStepLim :: int
  twoPi :: raw
  resetCount :: int
  resetAfter :: int
  resetOffset :: raw
  signMask :: raw
  enable :: bool
  invertData :: bool

text \<open>
  Shifts and subtractions of Go's \<open>uint\<close>: a shift by the width or more gives 0, and a subtraction
  that would be negative wraps to a shift far beyond the width.
\<close>

definition shl16 :: "nat \<Rightarrow> raw \<Rightarrow> raw" where
  "shl16 n x = (if n \<ge> 16 then 0 else push_bit n x)"

definition usub :: "nat \<Rightarrow> nat \<Rightarrow> nat" where
  "usub a b = (if b \<le> a then a - b else 2 ^ 64 + a - b)"

definition PhaseUnwrapper_zero :: PhaseUnwrapper where
  "PhaseUnwrapper_zero = \<lparr>lastVal = 0, offset = 0, fractionBits = 0, lowBitsToDrop = 0,
     upperStepLim = 0, lowerStepLim = 0, twoPi = 0, resetCount = 0, resetAfter = 0, resetOffset = 0,
     signMask = 0, enable = False, invertData = False\<rparr>"

definition NewPhaseUnwrapper ::
  "nat \<Rightarrow> nat \<Rightarrow> bool \<Rightarrow> int \<Rightarrow> int \<Rightarrow> int \<Rightarrow> bool \<Rightarrow> PhaseUnwrapper go" where
  "NewPhaseUnwrapper fbits drops en biasLevel rAfter pulseSign invd =
     (let u = PhaseUnwrapper_zero\<lparr>fractionBits := fbits, lowBitsToDrop := drops,
                signMask := NOT (shl16 fbits 0xffff), enable := en, invertData := invd\<rparr> in
      if drops > 0 \<and> en then
        let turn = shl16 (usub fbits drops) 1;
            onePi = sint (shl16 (usub (usub fbits drops) 1) 1);
            d = sint turn
        in if d = 0 then Inl DivideByZero
           else let bias = rem_int (to_int16 (biasLevel div 2 ^ drops)) d;
                    rOff = (if pulseSign > 0 then turn else word_of_int (- 2 * uint turn))
                in if rAfter \<le> 0 then Inl (ExplicitPanic ''NewPhaseUnwrapper'')
                   else Inr (u\<lparr>twoPi := turn, upperStepLim := to_int16 (bias + onePi),
                          lowerStepLim := to_int16 (bias - onePi), resetOffset := rOff,
                          offset := rOff, resetAfter := rAfter\<rparr>)
      else Inr u)"

text \<open>One sample of the unwrapping loop.\<close>

definition unwrap_step :: "PhaseUnwrapper \<Rightarrow> raw \<Rightarrow> PhaseUnwrapper \<times> raw" where
  "unwrap_step u rawVal =
     (let v = drop_bit (lowBitsToDrop u) (rawVal AND signMask u);
          thisstep = sint (v - lastVal u);
          off1 = (if thisstep > upperStepLim u then offset u - twoPi u
                  else if thisstep < lowerStepLim u then offset u + twoPi u
                  else offset u);
          (off2, cnt) =
            (if off1 = resetOffset u then (off1, 0)
             else if resetCount u + 1 > resetAfter u then (resetOffset u, 0)
             else (off1, resetCount u + 1))
      in (u\<lparr>lastVal := v, offset := off2, resetCount := cnt\<rparr>, v + off2))"

fun unwrap_loop :: "PhaseUnwrapper \<Rightarrow> raw list \<Rightarrow> PhaseUnwrapper \<times> raw list" where
  "unwrap_loop u [] = (u, [])"
| "unwrap_loop u (x # xs) =
     (let (u1, y) = unwrap_step u x; (u2, ys) = unwrap_loop u1 xs in (u2, y # ys))"

definition UnwrapInPlace :: "PhaseUnwrapper \<Rightarrow> raw list \<Rightarrow> PhaseUnwrapper \<times> raw list" where
  "UnwrapInPlace u data =
     (let data1 = (if invertData u then map (\<lambda>x. x XOR 0xffff) data else data);
          drops = lowBitsToDrop u
      in if drops = 0 then (u, data1)
         else if \<not> enable u
           then (u\<lparr>resetCount := 0\<rparr>, map (\<lambda>x. drop_bit drops (x AND signMask u)) data1)
         else unwrap_loop u data1)"

subsection \<open>Mixing feedback and error\<close>

record Mix =
  errorScale :: go_float
  lastFb :: raw

definition mask_fb :: "raw \<Rightarrow> raw" where
  "mask_fb x = x AND NOT 3"

definition mixed_value :: "go_float \<Rightarrow> raw \<Rightarrow> raw \<Rightarrow> raw" where
  "mixed_value scale fb err =
     (let mixAmount = fmul r64 (f64_of_int (sint err)) scale;
          floatMixResult = fadd r64 mixAmount (f64_of_int (uint fb))
      in if fle (Fin 65535) floatMixResult then 65535
         else if flt floatMixResult (Fin 0) then 0
         else word_of_int (roundint floatMixResult))"

text \<open>The loops of \<open>MixRetardFb\<close>; the error samples are only read when the scale is not zero.\<close>

fun retard_loop :: "Mix \<Rightarrow> raw list \<Rightarrow> Mix \<times> raw list" where
  "retard_loop m [] = (m, [])"
| "retard_loop m (x # xs) =
     (let (m', ys) = retard_loop (m\<lparr>lastFb := mask_fb x\<rparr>) xs in (m', lastFb m # ys))"

fun mix_loop :: "Mix \<Rightarrow> raw list \<Rightarrow> raw list \<Rightarrow> (Mix \<times> raw list) go" where
  "mix_loop m [] errs = Inr (m, [])"
| "mix_loop m (x # xs) [] = Inl IndexOutOfRange"
| "mix_loop m (x # xs) (e # es) =
     bind_go (mix_loop (m\<lparr>lastFb := mask_fb x\<rparr>) xs es) (\<lambda>(m', ys).
       Inr (m', mixed_value (errorScale m) (lastFb m) e # ys))"

definition MixRetardFb :: "Mix \<Rightarrow> raw list \<Rightarrow> raw list \<Rightarrow> (Mix \<times> raw list) go" where
  "MixRetardFb m fbs errs =
     (if feq (errorScale m) (Fin 0) then Inr (retard_loop m fbs) else mix_loop m fbs errs)"

subsection \<open>Filters of a stream\<close>

text \<open>
  A filter turns each buffer into a buffer of the same length and hands its state on.  If cutting a
  buffer in two makes no difference, no way of cutting the stream does.
\<close>

locale stream_filter =
  fixes filt :: "'s \<Rightarrow> 'x list \<Rightarrow> 's \<times> 'y list"
    and ok :: "'s \<Rightarrow> bool"
  assumes filt_append: "ok s \<Longrightarrow> filt s (xs @ ys) =
      (let (s1, us) = filt s xs; (s2, vs) = filt s1 ys in (s2, us @ vs))"
    and filt_length: "ok s \<Longrightarrow> length (snd (filt s xs)) = length xs"
    and filt_ok: "ok s \<Longrightarrow> ok (fst (filt s xs))"
begin

fun filt_all :: "'s \<Rightarrow> 'x list list \<Rightarrow> 's \<times> 'y list list" where
  "filt_all s [] = (s, [])"
| "filt_all s (b # bs) = (let (s1, y) = filt s b; (s2, ys) = filt_all s1 bs in (s2, y # ys))"

lemma filt_buffers:
  assumes "ok s" "bs \<noteq> []"
  shows "filt s (concat bs) = (fst (filt_all s bs), concat (snd (filt_all s bs)))
    \<and> map length (snd (filt_all s bs)) = map length bs"
  using assms
proof (induction bs arbitrary: s)
  case (Cons b bs)
  obtain s1 y where f: "filt s b = (s1, y)" by (cases "filt s b")
  have s1: "ok s1" "length y = length b" using filt_ok filt_length f Cons.prems(1) by (metis fst_conv snd_conv)+
  show ?case
  proof (cases "bs = []")
    case True
    then show ?thesis using f s1 by simp
  next
    case False
    then show ?thesis using Cons.IH [OF s1(1)] f s1 filt_append [OF Cons.prems(1), of b "concat bs"]
      by (simp add: case_prod_beta Let_def)
  qed
qed simp

end

lemma unwrap_loop_append:
  "unwrap_loop u (xs @ ys) =
    (let (u1, us) = unwrap_loop u xs; (u2, vs) = unwrap_loop u1 ys in (u2, us @ vs))"
  by (induction xs arbitrary: u) (auto simp: Let_def split: prod.splits)

lemma unwrap_step_config:
  "unwrap_step u x = (u', y) \<Longrightarrow> lowBitsToDrop u' = lowBitsToDrop u \<and> enable u' = enable u
    \<and> invertData u' = invertData u \<and> signMask u' = signMask u \<and> twoPi u' = twoPi u
    \<and> resetOffset u' = resetOffset u \<and> upperStepLim u' = upperStepLim u
    \<and> lowerStepLim u' = lowerStepLim u \<and> resetAfter u' = resetAfter u"
  by (auto simp: unwrap_step_def Let_def split: if_splits prod.splits)

lemma unwrap_loop_config:
  "unwrap_loop u xs = (u', ys) \<Longrightarrow> lowBitsToDrop u' = lowBitsToDrop u \<and> enable u' = enable u
    \<and> invertData u' = invertData u \<and> signMask u' = signMask u \<and> twoPi u' = twoPi u
    \<and> resetOffset u' = resetOffset u \<and> upperStepLim u' = upperStepLim u
    \<and> lowerStepLim u' = lowerStepLim u \<and> resetAfter u' = resetAfter u \<and> length ys = length xs"
proof (induction xs arbitrary: u u' ys)
  case (Cons x xs)
  obtain u1 y where 1: "unwrap_step u x = (u1, y)" by (cases "unwrap_step u x")
  obtain u2 zs where 2: "unwrap_loop u1 xs = (u2, zs)" by (cases "unwrap_loop u1 xs")
  have "u' = u2" "ys = y # zs" using Cons.prems 1 2 by simp_all
  then show ?case using unwrap_step_config [OF 1] Cons.IH [OF 2] by simp
qed simp

interpretation unwrapper: stream_filter UnwrapInPlace "\<lambda>_. True"
proof (unfold_locales, goal_cases)
  case (1 u xs ys)
  show ?case
  proof (cases "lowBitsToDrop u = 0 \<or> \<not> enable u")
    case True
    then show ?thesis by (auto simp: UnwrapInPlace_def Let_def)
  next
    case False
    let ?inv = "\<lambda>zs. if invertData u then map (\<lambda>x. x XOR 0xffff) zs else zs"
    obtain u1 us where 1: "unwrap_loop u (?inv xs) = (u1, us)" by (cases "unwrap_loop u (?inv xs)")
    have "?inv (xs @ ys) = ?inv xs @ ?inv ys" by simp
    then show ?thesis
      using False unwrap_loop_config [OF 1] unwrap_loop_append [of u "?inv xs" "?inv ys"] 1
      by (simp add: UnwrapInPlace_def Let_def split: prod.split)
  qed
next
  case (2 u xs)
  obtain u1 us where
    1: "unwrap_loop u (if invertData u then map (\<lambda>x. x XOR 0xffff) xs else xs) = (u1, us)"
    by (cases "unwrap_loop u (if invertData u then map (\<lambda>x. x XOR 0xffff) xs else xs)")
  then have "length us = length xs" using unwrap_loop_config [OF 1] by (simp split: if_splits)
  then show ?case using 1 by (cases "invertData u") (simp_all add: UnwrapInPlace_def Let_def)
qed simp

text \<open>The mixer as a filter of feedback samples paired with their error samples.\<close>

definition mix_filter :: "Mix \<Rightarrow> (raw \<times> raw) list \<Rightarrow> Mix \<times> raw list" where
  "mix_filter m ps = (case MixRetardFb m (map fst ps) (map snd ps) of
     Inl _ \<Rightarrow> (m, []) | Inr r \<Rightarrow> r)"

text \<open>What the mixer computes: each output combines the previous feedback sample with the present error.\<close>

definition mix_out :: "Mix \<Rightarrow> raw \<Rightarrow> raw \<Rightarrow> raw" where
  "mix_out m fb err = (if feq (errorScale m) (Fin 0) then fb else mixed_value (errorScale m) fb err)"

lemma MixRetardFb_pairs:
  "MixRetardFb m (map fst ps) (map snd ps) =
     Inr (m\<lparr>lastFb := last (lastFb m # map (\<lambda>p. mask_fb (fst p)) ps)\<rparr>,
          map2 (\<lambda>fb p. mix_out m fb (snd p)) (butlast (lastFb m # map (\<lambda>p. mask_fb (fst p)) ps)) ps)"
proof (cases "feq (errorScale m) (Fin 0)")
  case True
  have "retard_loop m (map fst ps) = (m\<lparr>lastFb := last (lastFb m # map (\<lambda>p. mask_fb (fst p)) ps)\<rparr>,
      butlast (lastFb m # map (\<lambda>p. mask_fb (fst p)) ps))"
    by (induction ps arbitrary: m) (simp_all add: Let_def)
  moreover have "map2 (\<lambda>fb p. fb) xs ps = xs" if "length xs = length ps" for xs :: "raw list"
    using that by (induction xs ps rule: list_induct2) simp_all
  ultimately show ?thesis using True by (simp add: MixRetardFb_def mix_out_def)
next
  case False
  have "mix_loop m (map fst ps) (map snd ps)
      = Inr (m\<lparr>lastFb := last (lastFb m # map (\<lambda>p. mask_fb (fst p)) ps)\<rparr>,
          map2 (\<lambda>fb p. mixed_value (errorScale m) fb (snd p))
            (butlast (lastFb m # map (\<lambda>p. mask_fb (fst p)) ps)) ps)"
    by (induction ps arbitrary: m) simp_all
  then show ?thesis using False by (simp add: MixRetardFb_def mix_out_def)
qed

lemma mix_filter_eq:
  "mix_filter m ps = (m\<lparr>lastFb := last (lastFb m # map (\<lambda>p. mask_fb (fst p)) ps)\<rparr>,
     map2 (\<lambda>fb p. mix_out m fb (snd p)) (butlast (lastFb m # map (\<lambda>p. mask_fb (fst p)) ps)) ps)"
  by (simp only: mix_filter_def MixRetardFb_pairs sum.case)

lemma butlast_append_last:
  "butlast (a # xs @ ys) = butlast (a # xs) @ butlast (last (a # xs) # ys)"
  by (induction xs arbitrary: a) auto

interpretation mixer: stream_filter mix_filter "\<lambda>_. True"
proof (unfold_locales, goal_cases)
  case (1 m xs ys)
  have "mix_out (m\<lparr>lastFb := z\<rparr>) = mix_out m" for z by (intro ext) (simp add: mix_out_def)
  then show ?case
    by (simp add: mix_filter_eq Let_def butlast_append_last last_append del: butlast.simps)
qed (simp_all add: mix_filter_eq)

subsection \<open>Unwrapping keeps the phase\<close>

text \<open>
  A configured unwrapper: a full turn is \<open>2 ^ k\<close> units, the samples entering the loop are below it,
  and the offset is a whole number of turns.
\<close>

definition unwrap_ok :: "nat \<Rightarrow> PhaseUnwrapper \<Rightarrow> bool" where
  "unwrap_ok k u \<longleftrightarrow> 1 \<le> k \<and> k + lowBitsToDrop u \<le> 16 \<and> 0 < lowBitsToDrop u
     \<and> signMask u = mask (k + lowBitsToDrop u) \<and> twoPi u = push_bit k 1
     \<and> take_bit k (offset u) = 0 \<and> take_bit k (resetOffset u) = 0 \<and> uint (lastVal u) < 2 ^ k
     \<and> 0 \<le> resetCount u \<and> resetCount u \<le> resetAfter u \<and> 0 < resetAfter u
     \<and> (resetCount u = 0 \<longleftrightarrow> offset u = resetOffset u)"

text \<open>The phase of a raw sample, in units of \<open>2 ^ k\<close> per turn.\<close>

definition phase_of :: "PhaseUnwrapper \<Rightarrow> raw \<Rightarrow> raw" where
  "phase_of u x = drop_bit (lowBitsToDrop u) (x AND signMask u)"

lemma unwrap_step_phase:
  "unwrap_step u x =
     (let v = phase_of u x;
          thisstep = sint (v - lastVal u);
          off1 = (if thisstep > upperStepLim u then offset u - twoPi u
                  else if thisstep < lowerStepLim u then offset u + twoPi u
                  else offset u);
          (off2, cnt) =
            (if off1 = resetOffset u then (off1, 0)
             else if resetCount u + 1 > resetAfter u then (resetOffset u, 0)
             else (off1, resetCount u + 1))
      in (u\<lparr>lastVal := v, offset := off2, resetCount := cnt\<rparr>, v + off2))"
  by (simp only: unwrap_step_def phase_of_def)

lemma take_bit_word_add: "take_bit k (a + b :: raw) = take_bit k (take_bit k a + take_bit k b)"
  by transfer (simp add: take_bit_add)

lemma take_bit_word_diff: "take_bit k (a - b :: raw) = take_bit k (take_bit k a - take_bit k b)"
  by transfer (simp add: take_bit_diff)

lemma take_bit_turns:
  assumes "take_bit k (a::raw) = 0"
  shows "take_bit k (v + a) = take_bit k v" "take_bit k (a - push_bit k 1) = 0"
    "take_bit k (a + push_bit k 1) = 0"
proof -
  show "take_bit k (v + a) = take_bit k v" using assms take_bit_word_add [of k v a] by simp
  have z: "take_bit k (push_bit k 1 :: raw) = 0" by (simp add: take_bit_eq_mod)
  show "take_bit k (a + push_bit k 1) = 0" using assms z take_bit_word_add [of k a "push_bit k 1"] by simp
  show "take_bit k (a - push_bit k 1) = 0" using assms z take_bit_word_diff [of k a "push_bit k 1"] by simp
qed

lemma phase_of_bound:
  assumes "unwrap_ok k u"
  shows "uint (phase_of u x) < 2 ^ k" "take_bit k (phase_of u x) = phase_of u x"
proof -
  let ?d = "lowBitsToDrop u"
  have "phase_of u x = drop_bit ?d (take_bit (k + ?d) x)"
    using assms by (simp add: phase_of_def unwrap_ok_def flip: take_bit_eq_mask)
  also have "\<dots> = take_bit k (drop_bit ?d x)" by (simp add: drop_bit_take_bit)
  finally have p: "phase_of u x = take_bit k (drop_bit ?d x)" .
  then show "take_bit k (phase_of u x) = phase_of u x" by simp
  have "uint (take_bit k (drop_bit ?d x)) = take_bit k (uint (drop_bit ?d x))"
    by (simp only: unsigned_take_bit_eq)
  then show "uint (phase_of u x) < 2 ^ k" unfolding p by simp
qed

lemma unwrap_step_ok:
  assumes "unwrap_ok k u" "unwrap_step u x = (u', y)"
  shows "unwrap_ok k u'" "take_bit k y = phase_of u x" "y = phase_of u x + offset u'"
    "lastVal u' = phase_of u x" "phase_of u' = phase_of u"
    "resetOffset u' = resetOffset u" "resetAfter u' = resetAfter u"
    "offset u' = resetOffset u \<or> resetCount u' = resetCount u + 1"
proof -
  note c = unwrap_step_config [OF assms(2)]
  let ?v = "phase_of u x"
  let ?off1 = "if sint (?v - lastVal u) > upperStepLim u then offset u - twoPi u
    else if sint (?v - lastVal u) < lowerStepLim u then offset u + twoPi u else offset u"
  have off: "take_bit k ?off1 = 0" using assms(1) take_bit_turns(2,3) [of k "offset u"]
    by (simp add: unwrap_ok_def)
  have e: "u' = u\<lparr>lastVal := ?v,
      offset := (if ?off1 = resetOffset u then ?off1
        else if resetCount u + 1 > resetAfter u then resetOffset u else ?off1),
      resetCount := (if ?off1 = resetOffset u then 0
        else if resetCount u + 1 > resetAfter u then 0 else resetCount u + 1)\<rparr>"
    and y: "y = ?v + offset u'"
    using assms(2) by (auto simp: unwrap_step_def phase_of_def Let_def split: if_splits)
  show "y = ?v + offset u'" "lastVal u' = ?v" by (simp_all add: y e)
  have o: "take_bit k (offset u') = 0" using off assms(1) by (simp add: e unwrap_ok_def)
  show "take_bit k y = ?v"
    unfolding y take_bit_turns(1) [OF o] using phase_of_bound(2) [OF assms(1)] .
  show "phase_of u' = phase_of u" by (intro ext) (simp add: phase_of_def c)
  show "resetOffset u' = resetOffset u" "resetAfter u' = resetAfter u" using c by simp_all
  show "offset u' = resetOffset u \<or> resetCount u' = resetCount u + 1" by (simp add: e)
  have rc: "0 \<le> resetCount u'" "resetCount u' \<le> resetAfter u'"
    "resetCount u' = 0 \<longleftrightarrow> offset u' = resetOffset u'"
    using assms(1) by (auto simp: e unwrap_ok_def)
  show "unwrap_ok k u'"
    using assms(1) c o rc phase_of_bound(1) [OF assms(1), of x]
    by (simp add: unwrap_ok_def e del: if_split_asm)
qed

lemma unwrap_loop_ok:
  assumes "unwrap_ok k u" "unwrap_loop u xs = (u', ys)"
  shows "unwrap_ok k u' \<and> map (take_bit k) ys = map (phase_of u) xs"
  using assms
proof (induction xs arbitrary: u u' ys)
  case (Cons x xs)
  obtain u1 y where 1: "unwrap_step u x = (u1, y)" by (cases "unwrap_step u x")
  obtain u2 zs where 2: "unwrap_loop u1 xs = (u2, zs)" by (cases "unwrap_loop u1 xs")
  note s = unwrap_step_ok [OF Cons.prems(1) 1]
  show ?case using Cons.IH [OF s(1) 2] s(2,5) Cons.prems(2) 1 2 by auto
qed simp

lemma NewPhaseUnwrapper_ok:
  assumes "NewPhaseUnwrapper fbits drops True bias rAfter sign invd = Inr u"
    and "0 < drops" "drops < fbits" "fbits \<le> 16"
  shows "unwrap_ok (fbits - drops) u" "lowBitsToDrop u = drops" "enable u" "invertData u = invd"
    "signMask u = mask fbits"
proof -
  let ?k = "fbits - drops"
  have k: "1 \<le> ?k" "?k < 16" "usub fbits drops = ?k" using assms(2-4) by (auto simp: usub_def)
  let ?turn = "push_bit ?k 1 :: raw"
  have turn: "shl16 (usub fbits drops) 1 = ?turn" using k by (simp add: shl16_def)
  have msk: "NOT (shl16 fbits 0xffff) = (mask fbits :: raw)"
  proof (cases "fbits = 16")
    case True
    then show ?thesis by (simp add: shl16_def mask_eq_exp_minus_1)
  next
    case False
    then have f: "fbits < 16" using assms(4) by simp
    have m16: "(0xffff :: raw) = mask 16" by (simp add: mask_eq_exp_minus_1)
    have "push_bit fbits (mask 16) = (NOT (mask fbits) :: raw)"
      by (rule bit_word_eqI) (auto simp: bit_push_bit_iff bit_mask_iff bit_not_iff possible_bit_word)
    then have "shl16 fbits 0xffff = NOT (mask fbits)" using f by (simp only: shl16_def m16) simp
    then show ?thesis by simp
  qed
  have off: "take_bit ?k (if sign > 0 then ?turn else word_of_int (- 2 * uint ?turn)) = 0"
  proof -
    have t: "take_bit ?k ?turn = 0" by (simp add: take_bit_eq_mod)
    have "(word_of_int (- 2 * uint ?turn) :: raw) = 0 - ?turn - ?turn"
      by (simp flip: word_of_int_uint add: wi_hom_syms)
    moreover have "take_bit ?k (0 - ?turn - ?turn) = 0"
      using take_bit_turns(2) [of ?k 0] take_bit_turns(2) [of ?k "0 - ?turn"] by simp
    ultimately show ?thesis using t by simp
  qed
  from assms(1) k turn msk have u: "lowBitsToDrop u = drops" "enable u" "invertData u = invd"
    "signMask u = mask fbits" "twoPi u = ?turn" "lastVal u = 0" "resetCount u = 0" "0 < rAfter"
    "resetAfter u = rAfter" "offset u = resetOffset u"
    "resetOffset u = (if sign > 0 then ?turn else word_of_int (- 2 * uint ?turn))"
    using assms(2) by (auto simp: NewPhaseUnwrapper_def PhaseUnwrapper_zero_def Let_def split: if_splits)
  then show "unwrap_ok ?k u" using k assms(2-4) off by (simp add: unwrap_ok_def del: push_bit_of_1)
  show "lowBitsToDrop u = drops" "enable u" "invertData u = invd" "signMask u = mask fbits"
    using u by simp_all
qed

text \<open>The buffers of a stream one after the other, each with the unwrapper as the one before has left it.\<close>

fun unwrap_buffers :: "PhaseUnwrapper \<Rightarrow> raw list list \<Rightarrow> PhaseUnwrapper \<times> raw list list" where
  "unwrap_buffers u [] = (u, [])"
| "unwrap_buffers u (b # bs) =
     (let (u1, y) = UnwrapInPlace u b; (u2, ys) = unwrap_buffers u1 bs in (u2, y # ys))"

lemma unwrap_buffers_filt: "unwrap_buffers u bs = unwrapper.filt_all u bs"
  by (induction bs arbitrary: u) (simp_all add: Let_def)

text \<open>
  C19: Unwrapping changes a sample by whole turns only.  A new unwrapper that is enabled, whose samples have at most 16
  fractional bits, of which it drops some but not all, gives for every way of cutting a stream into any number of
  buffers outputs whose phase is exactly the phase of the (possibly inverted) input sample with its low bits
  dropped, one for each sample; and the cutting has no effect, on the outputs or on the state of the
  unwrapper after them, which are those of the uncut stream.
\<close>

theorem unwrap_keeps_phase:
  assumes "NewPhaseUnwrapper fbits drops True bias rAfter sign invd = Inr u"
    and "0 < drops" "drops < fbits" "fbits \<le> 16"
    and "unwrap_buffers u bs = (u2, outs)"
  shows "map (take_bit (fbits - drops)) (concat outs)
      = map (\<lambda>x. drop_bit drops (take_bit fbits (if invd then x XOR 0xffff else x))) (concat bs)
    \<and> map length outs = map length bs
    \<and> UnwrapInPlace u (concat bs) = (u2, concat outs)"
proof -
  note new = NewPhaseUnwrapper_ok [OF assms(1-4)]
  let ?inv = "if invd then map (\<lambda>x. x XOR 0xffff) (concat bs) else concat bs"
  have cut: "UnwrapInPlace u (concat bs) = (u2, concat outs) \<and> map length outs = map length bs"
  proof (cases "bs = []")
    case True
    then show ?thesis using assms(2,5) new(2,3,4) by (auto simp: UnwrapInPlace_def Let_def)
  next
    case False
    then show ?thesis using unwrapper.filt_buffers [where s = u and bs = bs] assms(5) by (simp add: unwrap_buffers_filt)
  qed
  then have "unwrap_loop u ?inv = (u2, concat outs)"
    using assms(2) new(2,3,4) by (simp add: UnwrapInPlace_def Let_def)
  then have "map (take_bit (fbits - drops)) (concat outs) = map (phase_of u) ?inv"
    using unwrap_loop_ok [OF new(1)] by blast
  moreover have "phase_of u x = drop_bit drops (take_bit fbits x)" for x
    by (simp add: phase_of_def new take_bit_eq_mask)
  ultimately show ?thesis using cut by simp
qed

text \<open>
  The output is continuous: each step from one output to the next lies between the configured
  limits, half a turn either side of the bias, except where the offset has stayed away from its
  resting value for \<open>resetAfter\<close> samples and is put back.
\<close>

theorem unwrap_continuous_or_reset:
  assumes "unwrap_ok k u" "unwrap_step u x = (u', y)"
    and "upperStepLim u = bias + 2 ^ (k - 1)" "lowerStepLim u = bias - 2 ^ (k - 1)"
    and "\<bar>bias\<bar> \<le> 2 ^ (k - 1)" "k \<le> 14"
  shows "(lowerStepLim u \<le> sint (y - (lastVal u + offset u))
        \<and> sint (y - (lastVal u + offset u)) \<le> upperStepLim u)
    \<or> (resetCount u = resetAfter u \<and> offset u' = resetOffset u \<and> resetCount u' = 0)"
proof -
  define D where "D = uint (phase_of u x) - uint (lastVal u)"
  obtain j where j: "k = Suc j" using assms(1) by (cases k) (auto simp: unwrap_ok_def)
  have pw: "(2::int) ^ k = 2 * 2 ^ j" "(2::int) ^ j \<le> 2 ^ 13" "1 \<le> (2::int) ^ j"
    using assms(6) power_increasing [of j 13 "2::int"] by (simp_all add: j)
  have D: "- (2 ^ k) < D" "D < 2 ^ k"
    using phase_of_bound(1) [OF assms(1), of x] assms(1) uint_ge_0 [of "phase_of u x"] uint_ge_0 [of "lastVal u"]
    unfolding D_def unwrap_ok_def by linarith+
  have si: "sint (word_of_int a :: raw) = a" if "- (2 ^ 15) \<le> a" "a < 2 ^ 15" for a
    using that by (simp add: signed_take_bit_int_eq_self sint_sbintrunc')
  have w: "phase_of u x - lastVal u = word_of_int D"
    unfolding D_def by (simp add: word_of_int_hom_syms flip: wi_hom_sub)
  have tp: "twoPi u = word_of_int (2 ^ k)" using assms(1) by (simp add: unwrap_ok_def wi_hom_syms)
  define c where "c = (if D > upperStepLim u then - (2 ^ k) else if D < lowerStepLim u then 2 ^ k else 0 :: int)"
  have sD: "sint (phase_of u x - lastVal u) = D" unfolding w using D pw by (intro si) auto
  define off1 where "off1 = offset u + word_of_int c"
  have step: "unwrap_step u x = (u\<lparr>lastVal := phase_of u x,
      offset := (if off1 = resetOffset u then off1
        else if resetCount u + 1 > resetAfter u then resetOffset u else off1),
      resetCount := (if off1 = resetOffset u then 0
        else if resetCount u + 1 > resetAfter u then 0 else resetCount u + 1)\<rparr>,
      phase_of u x + (if off1 = resetOffset u then off1
        else if resetCount u + 1 > resetAfter u then resetOffset u else off1))"
    unfolding unwrap_step_phase Let_def sD using tp by (auto simp: off1_def c_def)
  show ?thesis
  proof (cases "offset u' = off1")
    case True
    then have "y = phase_of u x + off1" using step assms(2) by (auto split: if_splits)
    then have "y - (lastVal u + offset u) = word_of_int (D + c)"
      unfolding off1_def by (simp add: algebra_simps w [symmetric] flip: wi_hom_add)
    moreover have b: "lowerStepLim u \<le> D + c" "D + c \<le> upperStepLim u"
      using assms(3-5) D pw by (auto simp: c_def j)
    moreover have "sint (word_of_int (D + c) :: raw) = D + c"
      using b assms(3-5) pw by (intro si) (auto simp: j)
    ultimately show ?thesis by simp
  next
    case False
    then show ?thesis using step assms(1,2) by (auto simp: unwrap_ok_def split: if_splits)
  qed
qed

text \<open>
  The baseline returns: among any \<open>resetAfter + 1\<close> consecutive samples there is one whose output is
  its phase plus the resting offset.
\<close>

theorem unwrap_returns_to_baseline:
  assumes "unwrap_ok k u" "unwrap_loop u xs = (u', ys)" "resetAfter u < int (length xs)"
  shows "\<exists>i<length xs. ys ! i = phase_of u (xs ! i) + resetOffset u"
proof -
  have "\<exists>i<length xs. ys ! i = phase_of u (xs ! i) + resetOffset u"
    if "unwrap_ok k u" "unwrap_loop u xs = (u', ys)" "resetAfter u - resetCount u < int (length xs)"
    for u xs u' ys
    using that
  proof (induction xs arbitrary: u u' ys)
    case Nil
    then show ?case by (simp add: unwrap_ok_def)
  next
    case (Cons x xs)
    obtain u1 y where 1: "unwrap_step u x = (u1, y)" by (cases "unwrap_step u x")
    obtain u2 zs where 2: "unwrap_loop u1 xs = (u2, zs)" by (cases "unwrap_loop u1 xs")
    have ys: "ys = y # zs" using Cons.prems(2) 1 2 by simp
    note s = unwrap_step_ok [OF Cons.prems(1) 1]
    show ?case
    proof (cases "offset u1 = resetOffset u")
      case True
      then show ?thesis using s(3) by (intro exI [of _ 0]) (simp add: ys)
    next
      case False
      then have "resetAfter u1 - resetCount u1 < int (length xs)" using s(7,8) Cons.prems(3) by auto
      then obtain i where "i < length xs" "zs ! i = phase_of u1 (xs ! i) + resetOffset u1"
        using Cons.IH [OF s(1)] 2 by blast
      then show ?thesis using s(5,6) by (intro exI [of _ "Suc i"]) (simp add: ys)
    qed
  qed
  moreover have "resetAfter u - resetCount u < int (length xs)"
    using assms(1,3) by (simp add: unwrap_ok_def)
  ultimately show ?thesis using assms(1,2) by blast
qed

subsection \<open>Mixing delays the feedback by one sample and saturates\<close>

lemma map_fst_zip_eq: "length xs = length ys \<Longrightarrow> map fst (zip xs ys) = xs \<and> map snd (zip xs ys) = ys"
  by simp

text \<open>
  C20: Mixing pairs each error sample with the feedback sample before it, its two marker bits cleared,
  also across buffers: mixing two consecutive buffers one after the other gives what mixing the joined
  buffer gives.
\<close>

theorem mixing_delays_feedback:
  assumes "length fbs = length errs" "length fbs2 = length errs2"
  shows "\<exists>m1 out1 m2 out2. MixRetardFb m fbs errs = Inr (m1, out1)
    \<and> MixRetardFb m1 fbs2 errs2 = Inr (m2, out2)
    \<and> MixRetardFb m (fbs @ fbs2) (errs @ errs2) = Inr (m2, out1 @ out2)
    \<and> length out1 = length fbs
    \<and> (\<forall>i<length fbs. out1 ! i
        = mix_out m (if i = 0 then lastFb m else mask_fb (fbs ! (i - 1))) (errs ! i))"
proof -
  let ?p = "zip fbs errs" and ?q = "zip fbs2 errs2"
  note z = map_fst_zip_eq [OF assms(1)] map_fst_zip_eq [OF assms(2)]
  have f: "MixRetardFb m' (map fst ps) (map snd ps) = Inr (mix_filter m' ps)" for m' ps
    by (simp only: MixRetardFb_pairs mix_filter_eq)
  have 1: "MixRetardFb m fbs errs = Inr (mix_filter m ?p)" using f [of m ?p] z by simp
  have 2: "MixRetardFb m' fbs2 errs2 = Inr (mix_filter m' ?q)" for m' using f [of m' ?q] z by simp
  have 3: "MixRetardFb m (fbs @ fbs2) (errs @ errs2) = Inr (mix_filter m (?p @ ?q))"
    using f [of m "?p @ ?q"] z by simp
  have "snd (mix_filter m ?p) ! i
      = mix_out m (if i = 0 then lastFb m else mask_fb (fbs ! (i - 1))) (errs ! i)"
    if "i < length fbs" for i
    using that assms(1) by (cases fbs; cases errs) (auto simp: mix_filter_eq nth_butlast nth_Cons')
  moreover have "length (snd (mix_filter m ?p)) = length fbs"
    using mixer.filt_length [of m ?p] assms(1) by simp
  moreover have "mix_filter m (?p @ ?q) = (fst (mix_filter (fst (mix_filter m ?p)) ?q),
      snd (mix_filter m ?p) @ snd (mix_filter (fst (mix_filter m ?p)) ?q))"
    using mixer.filt_append [of m ?p ?q] by (simp add: Let_def case_prod_beta)
  ultimately show ?thesis unfolding 1 2 3 by (metis prod.collapse)
qed

lemma r64_int: "\<bar>n\<bar> < 2 ^ 53 \<Longrightarrow> r64 (of_int n) = Fin (of_int n)"
  using r64_exact [of n 0] by simp

lemma roundint_between:
  assumes "of_int lo \<le> x" "x \<le> of_int hi" "\<bar>lo\<bar> < 2 ^ 50" "\<bar>hi\<bar> < 2 ^ 50"
  shows "lo \<le> roundint (Fin x) \<and> roundint (Fin x) \<le> hi"
proof -
  define h where "h = (if x < 0 then - 1 / 2 else 1 / 2 :: rat)"
  have half: "r64 (of_int n + 1 / 2) = Fin (of_int n + 1 / 2)" "r64 (of_int n - 1 / 2) = Fin (of_int n - 1 / 2)"
    if "\<bar>n\<bar> < 2 ^ 50" for n
    using r64_half [of n] r64_half [of "n - 1"] that by (auto simp: field_simps)
  have e: "r64 (of_int n + h) = Fin (of_int n + h)" if "\<bar>n\<bar> < 2 ^ 50" for n
    using half [OF that] by (auto simp: h_def)
  obtain z where z: "r64 (x + h) = Fin z" "of_int lo + h \<le> z" "z \<le> of_int hi + h"
    using r64_between [OF e [OF assms(3)] e [OF assms(4)], of "x + h"] assms(1,2) by auto
  have "r64 0 = Fin 0" using r64_int [of 0] by simp
  have "lo \<le> trunc_rat z \<and> trunc_rat z \<le> hi"
  proof (cases "x < 0")
    case True
    then have "z \<le> 0"
      using r64_mono [of "x + h" 0 z 0] z(1) \<open>r64 0 = Fin 0\<close> by (simp add: h_def)
    moreover have "trunc_rat z = - \<lfloor>- z\<rfloor>" using \<open>z \<le> 0\<close> by (auto simp: trunc_rat_def)
    moreover have "- z \<le> of_int (- lo) + 1 / 2" "of_int (- hi) + 1 / 2 \<le> - z"
      using z(2,3) True by (auto simp: h_def)
    ultimately show ?thesis by (auto simp: floor_less_iff le_floor_iff) (linarith | simp add: floor_le_iff)+
  next
    case False
    then have "0 \<le> z"
      using r64_mono [of 0 "x + h" 0 z] z(1) \<open>r64 0 = Fin 0\<close> by (simp add: h_def)
    moreover have "of_int lo + 1 / 2 \<le> z" "z \<le> of_int hi + 1 / 2" using z(2,3) False by (auto simp: h_def)
    ultimately show ?thesis by (simp add: trunc_rat_def le_floor_iff floor_le_iff)
  qed
  then show ?thesis using assms(3,4) z(1)
    by (auto simp: roundint_def h_def Let_def split: if_splits)
qed

text \<open>
  The mixed value is the rounded sum clamped to the range of a sample: it never wraps around, as
  long as the scaled error is below \<open>2 ^ 40\<close>.
\<close>

theorem mixed_value_saturates:
  assumes "fadd r64 (fmul r64 (f64_of_int (sint err)) scale) (f64_of_int (uint fb)) = Fin x"
    and "\<bar>x\<bar> \<le> 2 ^ 40"
  shows "uint (mixed_value scale fb err) = max 0 (min 65535 (roundint (Fin x)))"
proof -
  consider "65535 \<le> x" | "x < 0" | "0 \<le> x" "x < 65535" by linarith
  then show ?thesis
  proof cases
    case 1
    then have "65535 \<le> roundint (Fin x)"
      using roundint_between [of 65535 x "2 ^ 40"] assms(2) by (auto simp: abs_le_iff)
    then show ?thesis using 1 by (auto simp: mixed_value_def assms(1) fle_def feq_def Let_def)
  next
    case 2
    then have "roundint (Fin x) \<le> 0"
      using roundint_between [of "- (2 ^ 40)" x 0] assms(2) by (auto simp: abs_le_iff)
    then show ?thesis using 2 by (simp add: mixed_value_def assms(1) fle_def feq_def Let_def)
  next
    case 3
    then have "0 \<le> roundint (Fin x) \<and> roundint (Fin x) \<le> 65535"
      using roundint_between [of 0 x 65535] by auto
    then show ?thesis
      using 3 by (auto simp: mixed_value_def assms(1) fle_def feq_def Let_def uint_word_of_int)
  qed
qed

subsection \<open>Examples\<close>

lemma demo_unwrapper: "\<exists>u. NewPhaseUnwrapper 16 2 True 0 100 1 False = Inr u
    \<and> upperStepLim u = 8192 \<and> lowerStepLim u = - 8192 \<and> resetAfter u = 100"
  by (simp add: NewPhaseUnwrapper_def Let_def usub_def shl16_def PhaseUnwrapper_zero_def rem_int_def
      quot_int_def to_int16_def)

theorem unwrap_keeps_phase_witness:
  "\<exists>u u2 outs. NewPhaseUnwrapper 16 2 True 0 100 1 False = Inr u
    \<and> unwrap_buffers u [[100, 50000], [3000], [], [70]] = (u2, outs)
    \<and> map (take_bit 14) (concat outs) = map (drop_bit 2) [100, 50000, 3000, 70]
    \<and> map length outs = [2, 1, 0, 1] \<and> UnwrapInPlace u [100, 50000, 3000, 70] = (u2, concat outs)"
proof -
  obtain u where u: "NewPhaseUnwrapper 16 2 True 0 100 1 False = Inr u" using demo_unwrapper by blast
  obtain u2 outs where o: "unwrap_buffers u [[100, 50000], [3000], [], [70]] = (u2, outs)" by fastforce
  have f: "map (take_bit 14) (concat outs) = map (drop_bit 2) [100, 50000, 3000, 70]"
    "map length outs = [2, 1, 0, 1]" "UnwrapInPlace u [100, 50000, 3000, 70] = (u2, concat outs)"
    using unwrap_keeps_phase [OF u _ _ _ o] by simp_all
  show ?thesis
    by (rule exI [of _ u], rule exI [of _ u2], rule exI [of _ outs]) (intro conjI u o f)
qed

theorem unwrap_continuous_or_reset_witness:
  "\<exists>u u' y. NewPhaseUnwrapper 16 2 True 0 100 1 False = Inr u \<and> unwrap_step u 50000 = (u', y)
    \<and> sint (y - (lastVal u + offset u)) \<le> 8192"
proof -
  obtain u where u: "NewPhaseUnwrapper 16 2 True 0 100 1 False = Inr u" "upperStepLim u = 8192"
    "lowerStepLim u = - 8192" "resetAfter u = 100" using demo_unwrapper by blast
  obtain u' y where st: "unwrap_step u 50000 = (u', y)" by fastforce
  have ok: "unwrap_ok 14 u" using NewPhaseUnwrapper_ok(1) [OF u(1)] by simp
  have "resetCount u = 0"
    using u(1) by (auto simp: NewPhaseUnwrapper_def PhaseUnwrapper_zero_def Let_def split: if_splits)
  then show ?thesis using unwrap_continuous_or_reset [OF ok st, of 0] u st by auto
qed

theorem unwrap_returns_to_baseline_witness:
  "\<exists>u u' ys. NewPhaseUnwrapper 16 2 True 0 100 1 False = Inr u
    \<and> unwrap_loop u (replicate 200 7) = (u', ys)
    \<and> (\<exists>i<200. ys ! i = phase_of u 7 + resetOffset u)"
proof -
  obtain u where u: "NewPhaseUnwrapper 16 2 True 0 100 1 False = Inr u" "resetAfter u = 100"
    using demo_unwrapper by blast
  obtain u' ys where st: "unwrap_loop u (replicate 200 7) = (u', ys)" by fastforce
  have "unwrap_ok 14 u" using NewPhaseUnwrapper_ok(1) [OF u(1)] by simp
  from unwrap_returns_to_baseline [OF this st]
  obtain i where i: "i < 200" "ys ! i = phase_of u (replicate 200 7 ! i) + resetOffset u"
    using u(2) by (simp only: length_replicate) auto
  have "replicate 200 (7 :: raw) ! i = 7" using i(1) by (rule nth_replicate)
  then show ?thesis using u(1) st i by auto
qed

theorem mixing_delays_feedback_witness:
  "\<exists>m1 out1. MixRetardFb \<lparr>errorScale = Fin 0, lastFb = 12\<rparr> [7, 9] [1, 2] = Inr (m1, out1)
    \<and> out1 ! 0 = 12 \<and> out1 ! 1 = 4"
proof -
  obtain m1 out1 where "MixRetardFb \<lparr>errorScale = Fin 0, lastFb = 12\<rparr> [7, 9] [1, 2] = Inr (m1, out1)"
    "\<forall>i<2. out1 ! i = mix_out \<lparr>errorScale = Fin 0, lastFb = 12\<rparr>
      (if i = 0 then 12 else mask_fb ([7, 9] ! (i - 1))) ([1, 2] ! i)"
    using mixing_delays_feedback [of "[7, 9]" "[1, 2]" "[]" "[]" "\<lparr>errorScale = Fin 0, lastFb = 12\<rparr>"]
    by auto
  then show ?thesis by (auto simp: mix_out_def feq_def mask_fb_def)
qed

theorem mixed_value_saturates_witness: "uint (mixed_value (Fin 1) 65535 10) = 65535"
proof -
  have "r64 10 = Fin 10" "r64 65535 = Fin 65535" "r64 65545 = Fin 65545"
    using r64_int [of 10] r64_int [of 65535] r64_int [of 65545] by simp_all
  then have "fadd r64 (fmul r64 (f64_of_int (sint (10 :: raw))) (Fin 1)) (f64_of_int (uint (65535 :: raw)))
      = Fin 65545" by (simp add: f64_of_int_def)
  from mixed_value_saturates [OF this] show ?thesis
    using roundint_between [of 65545 65545 65545] by simp
qed

end
