(* ===== verification/Bytes.thy ===== *)
theory Bytes
  imports GoFloat
begin

text \<open>
  Raw bytes of numbers, as \<open>internal/getbytes\<close> and \<open>publish_data_slices.go\<close> take them from memory
  of a little-endian machine: unsigned and two's complement integers of one to eight bytes and IEEE
  floats.  The contract of such an encoding, a fixed width and a decoder that undoes it, is the
  locale \<open>byte_codec\<close>; it gives the round trip of whole slices and of fields read one after the
  other from a file.
\<close>

subsection \<open>Integers\<close>

primrec le_bytes :: "nat \<Rightarrow> int \<Rightarrow> u8 list" where
  "le_bytes 0 i = []"
| "le_bytes (Suc n) i = word_of_int i # le_bytes n (i div 256)"

primrec of_le :: "u8 list \<Rightarrow> int" where
  "of_le [] = 0"
| "of_le (b # bs) = uint b + 256 * of_le bs"

lemma length_le_bytes [simp]: "length (le_bytes n i) = n"
  by (induction n arbitrary: i) simp_all

lemma of_le_bytes: "of_le (le_bytes n i) = i mod 256 ^ n"
proof (induction n arbitrary: i)
  case (Suc n)
  have "of_le (le_bytes (Suc n) i) = i mod 256 + 256 * (i div 256 mod 256 ^ n)"
    by (simp add: Suc uint_word_of_int)
  also have "\<dots> = i mod (256 * 256 ^ n)" by (simp add: zmod_zmult2_eq)
  finally show ?case by simp
qed simp

lemma of_le_bounds: "0 \<le> of_le bs" "of_le bs < 256 ^ length bs"
proof -
  show "0 \<le> of_le bs" by (induction bs) simp_all
  show "of_le bs < 256 ^ length bs"
  proof (induction bs)
    case (Cons b bs)
    have "uint b < 256" using uint_lt2p [of b] by simp
    then show ?case using Cons by simp
  qed simp
qed

text \<open>\<open>signed_of_le\<close> reads two's complement.\<close>

definition signed_of_le :: "u8 list \<Rightarrow> int" where
  "signed_of_le bs = (let n = of_le bs; m = 256 ^ length bs in if 2 * n < m then n else n - m)"

lemma signed_of_le_bytes:
  assumes "- (256 ^ n) \<le> 2 * i" "2 * i < 256 ^ n"
  shows "signed_of_le (le_bytes n i) = i"
proof (cases "0 \<le> i")
  case True
  then have "i mod 256 ^ n = i" using assms(2) by (intro mod_pos_pos_trivial) auto
  then show ?thesis using assms(2) by (simp add: signed_of_le_def of_le_bytes Let_def)
next
  case False
  have "i mod 256 ^ n = (i + 256 ^ n) mod 256 ^ n" by simp
  also have "\<dots> = i + 256 ^ n" using False assms(1) by (intro mod_pos_pos_trivial) auto
  finally show ?thesis using assms(1) by (simp add: signed_of_le_def of_le_bytes Let_def)
qed

subsection \<open>Floats\<close>

text \<open>
  The bit pattern of a float of precision \<open>p\<close> with \<open>w\<close> exponent bits and smallest exponent \<open>emin\<close>.
  The model has one zero, the positive one, and one NaN.
\<close>

definition float_bits :: "int \<Rightarrow> int \<Rightarrow> nat \<Rightarrow> go_float \<Rightarrow> int" where
  "float_bits p emin w x = (let f = 2 ^ nat (p - 1); inf = (2 ^ w - 1) * f in
     case x of
       Fin q \<Rightarrow>
         (if q = 0 then 0
          else let u = ulp_exp p emin \<bar>q\<bar>; m = \<lfloor>\<bar>q\<bar> / 2 powi u\<rfloor> in
            (u - emin) * f + m + (if q < 0 then 2 ^ w * f else 0))
     | PInf \<Rightarrow> inf
     | NInf \<Rightarrow> inf + 2 ^ w * f
     | NaN \<Rightarrow> inf + f div 2)"

definition bits_float :: "int \<Rightarrow> int \<Rightarrow> nat \<Rightarrow> int \<Rightarrow> go_float" where
  "bits_float p emin w b =
     (let f = 2 ^ nat (p - 1); neg = (b div (2 ^ w * f) = 1); e = b div f mod 2 ^ w; m = b mod f in
      if e = 2 ^ w - 1 then (if m \<noteq> 0 then NaN else if neg then NInf else PInf)
      else let q = (if e = 0 then of_int m * 2 powi emin else of_int (f + m) * 2 powi (e - 1 + emin))
           in Fin (if neg then - q else q))"

text \<open>The finite values of the format.\<close>

definition is_float :: "int \<Rightarrow> int \<Rightarrow> nat \<Rightarrow> go_float \<Rightarrow> bool" where
  "is_float p emin w x = (case x of
     Fin q \<Rightarrow> round_bin p emin q = q \<and> \<bar>q\<bar> < 2 powi (2 ^ w - 2 + emin + (p - 1))
   | _ \<Rightarrow> True)"

lemma float_parts:
  assumes "round_mag p emin q = q" "0 < q" "q < 2 powi (2 ^ w - 2 + emin + (p - 1))" "1 \<le> p" "2 \<le> w"
  defines "u \<equiv> ulp_exp p emin q"
  shows "\<exists>m. q = of_int m * 2 powi u \<and> 0 < m \<and> m < 2 * 2 ^ nat (p - 1) \<and> emin \<le> u
    \<and> (u = emin \<or> 2 ^ nat (p - 1) \<le> m) \<and> u - emin < 2 ^ w - 2"
proof -
  define m where "m = rne (q / 2 powi u)"
  have q: "q = of_int m * 2 powi u"
    using assms(1,2) by (simp add: round_mag_def Let_def m_def u_def)
  have pw: "(2::rat) powi (p - 1) = of_int (2 ^ nat (p - 1))" "(2::rat) powi p = of_int (2 * 2 ^ nat (p - 1))"
    using assms(4) powi2_add [of "p - 1" 1] by (simp_all add: powi2_as_int)
  have "0 < of_int m * (2::rat) powi u" using assms(2) q by simp
  then have "0 < (of_int m :: rat)" using powi2_pos by (rule zero_less_mult_pos2)
  then have m0: "0 < m" by simp
  have u: "emin \<le> u" "ilog2 q - (p - 1) \<le> u" "u = emin \<or> u = ilog2 q - (p - 1)"
    by (auto simp: u_def ulp_exp_def)
  have "q < 2 powi (ilog2 q + 1)" using ilog2_bounds(2) [OF assms(2)] .
  also have "\<dots> \<le> 2 powi (p + u)" using u(2) by (intro powi2_mono) simp
  also have "\<dots> = of_int (2 * 2 ^ nat (p - 1)) * 2 powi u" by (simp only: powi2_add pw)
  finally have "of_int m < (of_int (2 * 2 ^ nat (p - 1)) :: rat)"
    unfolding q by (simp only: mult_less_cancel_right_pos powi2_pos)
  then have m1: "m < 2 * 2 ^ nat (p - 1)" by (simp only: of_int_less_iff)
  have m2: "2 ^ nat (p - 1) \<le> m" if "u = ilog2 q - (p - 1)"
  proof -
    have "2 powi (p - 1 + u) \<le> q" using ilog2_bounds(1) [OF assms(2)] that by simp
    then have "of_int (2 ^ nat (p - 1)) * 2 powi u \<le> of_int m * (2::rat) powi u"
      unfolding powi2_add pw(1) using q by simp
    then have "(of_int (2 ^ nat (p - 1)) :: rat) \<le> of_int m"
      by (simp only: mult_le_cancel_right_pos powi2_pos)
    then show ?thesis by (simp only: of_int_le_iff)
  qed
  have m3: "u = emin \<or> 2 ^ nat (p - 1) \<le> m" using u(3) m2 by blast
  have "u - emin < 2 ^ w - 2"
  proof (cases "u = emin")
    case False
    then have "2 ^ nat (p - 1) \<le> m" using m3 by simp
    then have "(of_int (2 ^ nat (p - 1)) :: rat) \<le> of_int m" by (simp only: of_int_le_iff)
    then have "of_int (2 ^ nat (p - 1)) * 2 powi u \<le> of_int m * (2::rat) powi u"
      using less_imp_le [OF powi2_pos] by (rule mult_right_mono)
    then have "2 powi (p - 1 + u) \<le> q" unfolding powi2_add pw(1) using q by simp
    then have "(2::rat) powi (p - 1 + u) < 2 powi (2 ^ w - 2 + emin + (p - 1))" using assms(3) by simp
    then have "p - 1 + u < 2 ^ w - 2 + emin + (p - 1)" using powi2_mono by (meson linorder_not_less)
    then show ?thesis by simp
  next
    case True
    have "(2::int) ^ 2 \<le> 2 ^ w" using assms(5) by (intro power_increasing) simp_all
    then show ?thesis using True by simp
  qed
  then show ?thesis using q m0 m1 m3 u(1) by blast
qed

lemma bits_of_parts:
  assumes "0 \<le> m" "m < 2 * f" "f = 2 ^ nat (p - 1)" "0 \<le> k" "k < 2 ^ w - 2" "k = 0 \<or> f \<le> m"
  shows "bits_float p emin w (k * f + m + (if s then 2 ^ w * f else 0))
    = Fin ((if s then - 1 else 1) * (of_int m * 2 powi (k + emin)))"
proof -
  have f: "0 < f" by (simp add: assms(3))
  define W where "W = (2::int) ^ w"
  have W: "k + 2 < W" using assms(5) by (simp add: W_def)
  define b0 where "b0 = k * f + m"
  define b where "b = b0 + (if s then W * f else 0)"
  have "b0 < (k + 2) * f" using assms(2) by (simp add: b0_def algebra_simps)
  also have "\<dots> \<le> W * f" using W f by (intro mult_right_mono) simp_all
  finally have b0: "0 \<le> b0" "b0 < W * f" using assms(1,4) f by (simp_all add: b0_def)
  have Wf: "W * f \<noteq> 0" using W assms(4) f by simp
  have neg: "b div (W * f) = 1 \<longleftrightarrow> s"
    using b0 Wf by (auto simp: b_def div_pos_pos_trivial)
  have "b div f mod W = b0 div f mod W" "b mod f = b0 mod f" using f by (simp_all add: b_def)
  moreover have "b0 div f = k + (if f \<le> m then 1 else 0)" "b0 mod f = m - (if f \<le> m then f else 0)"
  proof -
    have "m div f = (if f \<le> m then 1 else 0)"
    proof (cases "f \<le> m")
      case True
      then have "m div f = 1" using assms(2) by (intro int_div_pos_eq [of _ _ 1 "m - f"]) simp_all
      then show ?thesis using True by simp
    qed (use assms(1) in \<open>simp add: div_pos_pos_trivial\<close>)
    moreover have "m mod f = m - f * (m div f)" by (simp add: minus_mult_div_eq_mod)
    ultimately show "b0 div f = k + (if f \<le> m then 1 else 0)" "b0 mod f = m - (if f \<le> m then f else 0)"
      using f by (auto simp: b0_def)
  qed
  ultimately have e: "b div f mod W = k + (if f \<le> m then 1 else 0)"
    and mm: "b mod f = m - (if f \<le> m then f else 0)" using W assms(4) by auto
  have "bits_float p emin w b = Fin ((if s then - 1 else 1) * (of_int m * 2 powi (k + emin)))"
    using neg W assms(4,6)
    by (auto simp: bits_float_def Let_def e mm simp flip: assms(3) W_def)
  then show ?thesis by (simp only: b_def b0_def W_def)
qed

lemma float_round_trip:
  assumes "is_float p emin w x" "1 < p" "2 \<le> w"
  shows "bits_float p emin w (float_bits p emin w x) = x"
    and "0 \<le> float_bits p emin w x \<and> float_bits p emin w x < 2 ^ (w + 1) * 2 ^ nat (p - 1)"
proof -
  define f where "f = (2::int) ^ nat (p - 1)"
  define W where "W = (2::int) ^ w"
  have "2 \<le> f" using assms(2) power_increasing [of 1 "nat (p - 1)" "2::int"] by (simp add: f_def)
  then have f: "2 \<le> f" "f div 2 < f" "0 < f div 2" by simp_all
  have "(2::int) ^ 2 \<le> 2 ^ w" using assms(3) by (intro power_increasing) simp_all
  then have W: "4 \<le> W" by (simp add: W_def)
  have "(2 * W - 1) div W = 1" using W by (intro int_div_pos_eq [of _ _ 1 "W - 1"]) simp_all
  then have w1: "(2 * W - 1) mod W = W - 1" by (simp add: minus_mult_div_eq_mod [symmetric])
  from \<open>(2 * W - 1) div W = 1\<close> have inf: "(W - 1) * f div f = W - 1" "((W - 1) * f + W * f) div f = W - 1 + W"
    "((W - 1) * f + f div 2) div f = W - 1" "((W - 1) * f + f div 2) mod f = f div 2"
    "(W - 1) * f div (W * f) = 0" "((W - 1) * f + W * f) div (W * f) = 1"
    using f W by (auto simp: distrib_right [symmetric] div_pos_pos_trivial)
  have "bits_float p emin w (float_bits p emin w x) = x
    \<and> 0 \<le> float_bits p emin w x \<and> float_bits p emin w x < 2 * W * f"
  proof (cases x)
    case (Fin q)
    show ?thesis
    proof (cases "q = 0")
      case True
      then show ?thesis using Fin f W
        by (simp add: float_bits_def bits_float_def Let_def flip: f_def W_def)
    next
      case False
      define a where "a = \<bar>q\<bar>"
      define u where "u = ulp_exp p emin a"
      have "round_mag p emin a = a" "0 < a" "a < 2 powi (2 ^ w - 2 + emin + (p - 1))"
        using assms(1) False Fin by (auto simp: is_float_def round_bin_def a_def abs_if split: if_splits)
      then obtain m where m: "a = of_int m * 2 powi u" "0 < m" "m < 2 * f" "emin \<le> u"
        "u = emin \<or> f \<le> m" "u - emin < W - 2"
        using float_parts [of p emin a w] assms(2,3) by (auto simp: u_def f_def W_def)
      have "\<lfloor>a / 2 powi u\<rfloor> = m" using m(1) by simp
      then have b: "float_bits p emin w x = (u - emin) * f + m + (if q < 0 then W * f else 0)"
        using False Fin by (simp add: float_bits_def Let_def flip: f_def W_def a_def u_def)
      have "bits_float p emin w (float_bits p emin w x) = Fin ((if q < 0 then - 1 else 1) * (of_int m * 2 powi u))"
        unfolding b W_def
        using bits_of_parts [of m f p "u - emin" w emin "q < 0"] m by (auto simp: f_def W_def)
      moreover have "(if q < 0 then - 1 else 1) * a = q" by (simp add: a_def)
      moreover have up: "(u - emin) * f + m < W * f"
      proof -
        have "(u - emin) * f + m < (u - emin + 2) * f" using m(3) by (simp add: algebra_simps)
        also have "\<dots> \<le> W * f" using m(6) f by (intro mult_right_mono) simp_all
        finally show ?thesis .
      qed
      moreover have "0 \<le> float_bits p emin w x \<and> float_bits p emin w x < 2 * W * f"
      proof -
        have "0 \<le> (u - emin) * f" "0 < W * f" "2 * W * f = W * f + W * f" using m(4) f W by simp_all
        then show ?thesis unfolding b using up m(2) by auto
      qed
      ultimately show ?thesis using m(1) Fin by simp
    qed
  next
    case PInf
    then show ?thesis using f W inf w1 zmod_minus1 [of W]
      by (simp add: float_bits_def bits_float_def Let_def flip: f_def W_def)
  next
    case NInf
    then show ?thesis using f W inf w1 zmod_minus1 [of W]
      by (simp add: float_bits_def bits_float_def Let_def flip: f_def W_def)
  next
    case NaN
    have "(W - 1) * f + f div 2 < W * f" using f by (simp add: algebra_simps)
    moreover have "W * f < 2 * W * f" using f W by simp
    ultimately have "(W - 1) * f + f div 2 < 2 * W * f" by simp
    then show ?thesis using NaN f W inf w1 zmod_minus1 [of W]
      by (simp add: float_bits_def bits_float_def Let_def flip: f_def W_def)
  qed
  then show "bits_float p emin w (float_bits p emin w x) = x"
    "0 \<le> float_bits p emin w x \<and> float_bits p emin w x < 2 ^ (w + 1) * 2 ^ nat (p - 1)"
    by (auto simp: W_def f_def)
qed

subsection \<open>Encodings and whole slices\<close>

text \<open>
  A fixed-width encoding with its decoder.  The encodings of a slice, one after the other, decode to
  the slice; a value at the front of a stream of bytes is read back together with what follows it.
\<close>

locale byte_codec =
  fixes enc :: "'a \<Rightarrow> u8 list" and dec :: "u8 list \<Rightarrow> 'a" and width :: nat and ok :: "'a \<Rightarrow> bool"
  assumes enc_length: "length (enc x) = width"
    and dec_enc: "ok x \<Longrightarrow> dec (enc x) = x"
    and width_pos: "0 < width"
begin

fun dec_all :: "nat \<Rightarrow> u8 list \<Rightarrow> 'a list" where
  "dec_all 0 bs = []"
| "dec_all (Suc n) bs = dec (take width bs) # dec_all n (drop width bs)"

lemma dec_all_enc: "\<forall>x\<in>set xs. ok x \<Longrightarrow> dec_all (length xs) (concat (map enc xs) @ rest) = xs"
  by (induction xs) (simp_all add: enc_length dec_enc)

lemma length_enc_all: "length (concat (map enc xs)) = width * length xs"
  by (induction xs) (simp_all add: enc_length)

lemma take_enc: "take width (enc x @ rest) = enc x" "drop width (enc x @ rest) = rest"
  by (simp_all add: enc_length)

lemma enc_inj: "ok x \<Longrightarrow> ok y \<Longrightarrow> enc x = enc y \<Longrightarrow> x = y"
  using dec_enc by metis

lemma enc_all_inj:
  assumes "\<forall>x\<in>set xs. ok x" "\<forall>y\<in>set ys. ok y" "concat (map enc xs) = concat (map enc ys)"
  shows "xs = ys"
proof -
  have "width * length xs = width * length ys" using assms(3) length_enc_all by metis
  then have "length xs = length ys" using width_pos by simp
  then show ?thesis using dec_all_enc [OF assms(1), of "[]"] dec_all_enc [OF assms(2), of "[]"] assms(3)
    by simp
qed

end

subsection \<open>The functions of getbytes\<close>

definition FromUint8 :: "8 word \<Rightarrow> u8 list" where "FromUint8 d = [d]"
definition FromUint16 :: "16 word \<Rightarrow> u8 list" where "FromUint16 d = le_bytes 2 (uint d)"
definition FromUint32 :: "32 word \<Rightarrow> u8 list" where "FromUint32 d = le_bytes 4 (uint d)"
definition FromUint64 :: "64 word \<Rightarrow> u8 list" where "FromUint64 d = le_bytes 8 (uint d)"

text \<open>Signed arguments are integers; a conversion such as \<open>int32(n)\<close> keeps their low bits.\<close>

definition FromInt8 :: "int \<Rightarrow> u8 list" where "FromInt8 d = le_bytes 1 d"
definition FromInt16 :: "int \<Rightarrow> u8 list" where "FromInt16 d = le_bytes 2 d"
definition FromInt32 :: "int \<Rightarrow> u8 list" where "FromInt32 d = le_bytes 4 d"
definition FromInt64 :: "int \<Rightarrow> u8 list" where "FromInt64 d = le_bytes 8 d"

definition FromFloat32 :: "go_float \<Rightarrow> u8 list" where
  "FromFloat32 d = le_bytes 4 (float_bits 24 (- 149) 8 d)"

definition FromFloat64 :: "go_float \<Rightarrow> u8 list" where
  "FromFloat64 d = le_bytes 8 (float_bits 53 (- 1074) 11 d)"

text \<open>The memory of a slice: the encodings of its elements one after the other.\<close>

definition slice_bytes :: "('a \<Rightarrow> u8 list) \<Rightarrow> 'a list \<Rightarrow> u8 list" where
  "slice_bytes enc d = (if length d = 0 then [] else concat (map enc d))"

definition FromSliceUint8 :: "8 word list \<Rightarrow> u8 list" where "FromSliceUint8 = slice_bytes FromUint8"
definition FromSliceUint16 :: "16 word list \<Rightarrow> u8 list" where "FromSliceUint16 = slice_bytes FromUint16"
definition FromSliceUint32 :: "32 word list \<Rightarrow> u8 list" where "FromSliceUint32 = slice_bytes FromUint32"
definition FromSliceUint64 :: "64 word list \<Rightarrow> u8 list" where "FromSliceUint64 = slice_bytes FromUint64"
definition FromSliceInt8 :: "int list \<Rightarrow> u8 list" where "FromSliceInt8 = slice_bytes FromInt8"
definition FromSliceInt16 :: "int list \<Rightarrow> u8 list" where "FromSliceInt16 = slice_bytes FromInt16"
definition FromSliceInt32 :: "int list \<Rightarrow> u8 list" where "FromSliceInt32 = slice_bytes FromInt32"
definition FromSliceInt64 :: "int list \<Rightarrow> u8 list" where "FromSliceInt64 = slice_bytes FromInt64"
definition FromSliceFloat32 :: "go_float list \<Rightarrow> u8 list" where "FromSliceFloat32 = slice_bytes FromFloat32"
definition FromSliceFloat64 :: "go_float list \<Rightarrow> u8 list" where "FromSliceFloat64 = slice_bytes FromFloat64"

text \<open>
  \<open>rawTypeToBytes\<close>, \<open>rawTypeToUint16\<close> and \<open>bytesToRawType\<close>, which drops an odd last byte.
\<close>

definition rawTypeToBytes :: "raw list \<Rightarrow> u8 list" where "rawTypeToBytes = slice_bytes FromUint16"

definition rawTypeToUint16 :: "raw list \<Rightarrow> 16 word list" where
  "rawTypeToUint16 slice_in = (if length slice_in = 0 then [] else slice_in)"

definition dec_u16 :: "u8 list \<Rightarrow> 16 word" where "dec_u16 bs = word_of_int (of_le bs)"
definition dec_u32 :: "u8 list \<Rightarrow> 32 word" where "dec_u32 bs = word_of_int (of_le bs)"
definition dec_u64 :: "u8 list \<Rightarrow> 64 word" where "dec_u64 bs = word_of_int (of_le bs)"
definition dec_f32 :: "u8 list \<Rightarrow> go_float" where "dec_f32 bs = bits_float 24 (- 149) 8 (of_le bs)"
definition dec_f64 :: "u8 list \<Rightarrow> go_float" where "dec_f64 bs = bits_float 53 (- 1074) 11 (of_le bs)"

definition bytesToRawType :: "u8 list \<Rightarrow> raw list" where
  "bytesToRawType slice_in =
     (if length slice_in = 0 then []
      else map (\<lambda>k. dec_u16 (take 2 (drop (2 * k) slice_in))) [0..<length slice_in div 2])"

lemma uint_le_bytes:
  assumes "(256::int) ^ n = 2 ^ LENGTH('a::len)"
  shows "(word_of_int (of_le (le_bytes n (uint (d :: 'a word)))) :: 'a word) = d"
proof -
  have "uint d mod 256 ^ n = uint d" unfolding assms using uint_lt2p [of d] by simp
  then show ?thesis by (simp add: of_le_bytes)
qed

definition int_in :: "nat \<Rightarrow> int \<Rightarrow> bool" where
  "int_in n i \<longleftrightarrow> - (256 ^ n) \<le> 2 * i \<and> 2 * i < 256 ^ n"

interpretation codec_u8: byte_codec FromUint8 hd 1 "\<lambda>_. True"
  by unfold_locales (simp_all add: FromUint8_def)

interpretation codec_u16: byte_codec FromUint16 dec_u16 2 "\<lambda>_. True"
  by unfold_locales (simp_all add: FromUint16_def dec_u16_def uint_le_bytes)

interpretation codec_u32: byte_codec FromUint32 dec_u32 4 "\<lambda>_. True"
  by unfold_locales (simp_all add: FromUint32_def dec_u32_def uint_le_bytes)

interpretation codec_u64: byte_codec FromUint64 dec_u64 8 "\<lambda>_. True"
  by unfold_locales (simp_all add: FromUint64_def dec_u64_def uint_le_bytes)

interpretation codec_i16: byte_codec FromInt16 signed_of_le 2 "int_in 2"
  by unfold_locales (simp_all add: FromInt16_def signed_of_le_bytes int_in_def)

interpretation codec_i32: byte_codec FromInt32 signed_of_le 4 "int_in 4"
  by unfold_locales (simp_all add: FromInt32_def signed_of_le_bytes int_in_def)

interpretation codec_i64: byte_codec FromInt64 signed_of_le 8 "int_in 8"
  by unfold_locales (simp_all add: FromInt64_def signed_of_le_bytes int_in_def)

lemma float_bytes:
  assumes "is_float p emin w x" "1 < p" "2 \<le> w" "2 ^ (w + 1) * 2 ^ nat (p - 1) \<le> (256::int) ^ n"
  shows "bits_float p emin w (of_le (le_bytes n (float_bits p emin w x))) = x"
proof -
  have "float_bits p emin w x mod 256 ^ n = float_bits p emin w x"
    using float_round_trip(2) [OF assms(1-3)] assms(4) by (intro mod_pos_pos_trivial) auto
  then show ?thesis using float_round_trip(1) [OF assms(1-3)] by (simp add: of_le_bytes)
qed

interpretation codec_f32: byte_codec FromFloat32 dec_f32 4 "is_float 24 (- 149) 8"
  by unfold_locales (simp_all add: FromFloat32_def dec_f32_def float_bytes)

interpretation codec_f64: byte_codec FromFloat64 dec_f64 8 "is_float 53 (- 1074) 11"
  by unfold_locales (simp_all add: FromFloat64_def dec_f64_def float_bytes)

lemma slice_bytes_eq: "slice_bytes enc d = concat (map enc d)"
  by (simp add: slice_bytes_def)

text \<open>
  The byte view of a slice loses nothing and is little-endian in fixed fields: two 16-bit slices
  with the same bytes are equal, the view has two bytes per sample, and reading it back as samples
  gives the slice.
\<close>

theorem raw_bytes_round_trip:
  shows "bytesToRawType (rawTypeToBytes d) = d
    \<and> length (rawTypeToBytes d) = 2 * length d
    \<and> (rawTypeToBytes d = rawTypeToBytes d' \<longleftrightarrow> d = d')
    \<and> rawTypeToUint16 d = d"
proof -
  have dec: "map (\<lambda>k. dec_u16 (take 2 (drop (2 * k) bs))) [0..<n] = codec_u16.dec_all n bs" for n bs
  proof (induction n arbitrary: bs)
    case (Suc n)
    have "map (\<lambda>k. dec_u16 (take 2 (drop (2 * k) bs))) [0..<Suc n]
        = dec_u16 (take 2 bs) # map (\<lambda>k. dec_u16 (take 2 (drop (2 * k) (drop 2 bs)))) [0..<n]"
      by (simp add: upt_conv_Cons map_Suc_upt [symmetric] add.commute del: upt_Suc)
    then show ?case using Suc [of "drop 2 bs"] by simp
  qed simp
  have len: "length (rawTypeToBytes d) = 2 * length d"
    by (simp only: rawTypeToBytes_def slice_bytes_eq codec_u16.length_enc_all)
  moreover have "bytesToRawType (rawTypeToBytes d) = d"
    using codec_u16.dec_all_enc [of d "[]"] len
    by (auto simp: bytesToRawType_def dec rawTypeToBytes_def slice_bytes_eq)
  moreover have "rawTypeToBytes d = rawTypeToBytes d' \<longleftrightarrow> d = d'"
    using codec_u16.enc_all_inj [of d d'] by (auto simp: rawTypeToBytes_def slice_bytes_eq)
  ultimately show ?thesis by (simp add: rawTypeToUint16_def)
qed

end
