(* ===== verification/Packets.thy ===== *)
theory Packets
  imports Bytes
begin

text \<open>
  The data packets of the microwave-multiplexer firmware (\<open>packets/packets.go\<close>): a header of fixed
  fields and type-length-value (TLV) items, then a payload of integers.  This theory models the
  building of packets, their serialisation, and the parser.  A Go \<open>io.Reader\<close> is the list of bytes
  it still has to deliver.
\<close>

subsection \<open>Types\<close>

text \<open>
  The dynamic types a value of type \<open>any\<close> can have here: integer slices, or \<open>Unsupported\<close>, a value
  of a type that neither the packet code nor \<open>encoding/binary\<close> handles.
\<close>

datatype go_slice =
    Int8s "int list" | Int16s "int list" | Int32s "int list" | Int64s "int list"
  | Uint8s "8 word list" | Uint16s "16 word list" | Uint32s "32 word list" | Uint64s "64 word list"
  | Unsupported

datatype go_kind = Invalid | Int8 | Uint8 | Int16 | Uint16 | Int32 | Uint32 | Int64 | Uint64

datatype byte_order = BigEndian | LittleEndian

record headPayloadFormat =
  endian :: "byte_order option"
  rawfmt :: "u8 list"
  wordlen :: int
  nvals :: int
  dtype :: "go_kind list"

record headPayloadShape =
  Sizes :: "int list"

record PacketTimestamp =
  tsT :: "64 word"
  tsRate :: go_float

record HeadCounter =
  counterID :: int
  counterCount :: int

datatype tlv =
    Tag "32 word"
  | Timestamp PacketTimestamp
  | Counter HeadCounter
  | Format headPayloadFormat
  | Shape headPayloadShape
  | ChannelOffset "32 word"
  | PayloadLabel "u8 list"

record Packet =
  version :: u8
  headerLength :: u8
  payloadLength :: "16 word"
  sourceID :: "32 word"
  sequenceNumber :: "32 word"
  packetLength :: int
  pktFormat :: "headPayloadFormat option"
  pktShape :: "headPayloadShape option"
  pktTimestamp :: "PacketTimestamp option"
  payloadLabel :: "u8 list"
  chanOffset :: "32 word"
  explicitOffset :: bool
  otherTLV :: "tlv list"
  Data :: "go_slice option"

definition packetMAGIC :: int where "packetMAGIC = 0x810b00ff"
definition maxPACKETLENGTH :: int where "maxPACKETLENGTH = 8192"

definition tlvTAG :: u8 where "tlvTAG = 0x09"
definition tlvTIMESTAMP :: u8 where "tlvTIMESTAMP = 0x11"
definition tlvCOUNTER :: u8 where "tlvCOUNTER = 0x12"
definition tlvTIMESTAMPUNIT :: u8 where "tlvTIMESTAMPUNIT = 0x13"
definition tlvFORMAT :: u8 where "tlvFORMAT = 0x21"
definition tlvSHAPE :: u8 where "tlvSHAPE = 0x22"
definition tlvCHANOFFSET :: u8 where "tlvCHANOFFSET = 0x23"
definition tlvPAYLOADLABEL :: u8 where "tlvPAYLOADLABEL = 0x29"

lemmas tlv_codes = tlvTAG_def tlvTIMESTAMP_def tlvCOUNTER_def tlvTIMESTAMPUNIT_def tlvFORMAT_def
  tlvSHAPE_def tlvCHANOFFSET_def tlvPAYLOADLABEL_def

datatype packet_error =
    EOF | UnexpectedEOF
  | HeaderTooShort | BadMagic | DataTypeNotHandled | PacketTooLong
  | SwapSizeNotAllowed | CannotSwapType | UnreadableType
  | TLVnotMultipleOf8 | TLVtooLong | TLVempty | TagNotZero | CounterSize
  | TimestampTooShort | TimestampBits | UnknownFormatChar | NoPositiveSizes | OffsetPadding

subsection \<open>Building a packet\<close>

definition NewPacket :: "u8 \<Rightarrow> 32 word \<Rightarrow> 32 word \<Rightarrow> int \<Rightarrow> Packet" where
  "NewPacket vers source seqnum choffset =
     \<lparr>version = vers, headerLength = 24, payloadLength = 0, sourceID = source, sequenceNumber = seqnum,
      packetLength = 0, pktFormat = None, pktShape = None, pktTimestamp = None, payloadLabel = [],
      chanOffset = word_of_int choffset, explicitOffset = False, otherTLV = [], Data = None\<rparr>"

definition ClearData :: "Packet \<Rightarrow> Packet" where
  "ClearData p = (let hl = (24 :: u8) + (if pktTimestamp p \<noteq> None then 16 else 0) in
     p\<lparr>headerLength := hl, payloadLength := 0, packetLength := uint hl,
       pktFormat := None, Data := None, pktShape := None\<rparr>)"

definition SetTimestamp :: "Packet \<Rightarrow> PacketTimestamp \<Rightarrow> Packet" where
  "SetTimestamp p ts =
     (let p = (if pktTimestamp p = None
               then p\<lparr>headerLength := headerLength p + 16, packetLength := packetLength p + 16\<rparr> else p)
      in p\<lparr>pktTimestamp := Some ts\<rparr>)"

definition ResetTimestamp :: "Packet \<Rightarrow> Packet" where
  "ResetTimestamp p =
     (let p = (if pktTimestamp p \<noteq> None
               then p\<lparr>headerLength := headerLength p - 16, packetLength := packetLength p - 16\<rparr> else p)
      in p\<lparr>pktTimestamp := None\<rparr>)"

definition MakeTimestamp :: "16 word \<Rightarrow> 32 word \<Rightarrow> go_float \<Rightarrow> PacketTimestamp" where
  "MakeTimestamp x y rate = \<lparr>tsT = word_of_int (uint x * 2 ^ 32) + word_of_int (uint y), tsRate = rate\<rparr>"

definition ascii :: "string \<Rightarrow> u8 list" where
  "ascii s = map of_char s"

text \<open>
  \<open>NewData\<close>: the type switch gives the format string, the kind and the word length; the shape has
  room for one dimension.  An error leaves the packet as far as it had been changed.
\<close>

fun data_format :: "go_slice \<Rightarrow> (string \<times> go_kind \<times> int \<times> int) option" where
  "data_format (Int16s d) = Some (''<h'', Int16, 2, int (length d))"
| "data_format (Int32s d) = Some (''<i'', Int32, 4, int (length d))"
| "data_format (Int64s d) = Some (''<q'', Int64, 8, int (length d))"
| "data_format _ = None"

definition set_sizes :: "int list \<Rightarrow> int list go" where
  "set_sizes dims = foldM_go (\<lambda>sizes i.
       if i < int (length sizes) then bind_go (idx dims i) (\<lambda>d. Inr (sizes[nat i := d]))
       else Inl IndexOutOfRange) [0] [0..int (length dims) - 1]"

definition NewData :: "Packet \<Rightarrow> go_slice \<Rightarrow> int list \<Rightarrow> (Packet \<times> packet_error option) go" where
  "NewData p data dims =
     (let ndim = int (length dims);
          p = p\<lparr>headerLength := 24 + (if pktTimestamp p \<noteq> None then 16 else 0)\<rparr> in
      case data_format data of
        None \<Rightarrow> Inr (p, Some DataTypeNotHandled)
      | Some (fmt, kind, wl, len) \<Rightarrow>
          (let p = p\<lparr>payloadLength := word_of_int (wl * len), Data := Some data,
                     pktFormat := Some \<lparr>endian = Some LittleEndian, rawfmt = ascii fmt, wordlen = wl,
                                        nvals = 1, dtype = [kind]\<rparr>,
                     headerLength := headerLength p + 8\<rparr> in
           bind_go (set_sizes dims) (\<lambda>sizes.
             let p = p\<lparr>pktShape := Some \<lparr>Sizes = sizes\<rparr>,
                       headerLength := headerLength p + 8 * word_of_int (1 + quot_int ndim 4)\<rparr>;
                 p = p\<lparr>packetLength := uint (headerLength p) + uint (payloadLength p)\<rparr> in
             if packetLength p > maxPACKETLENGTH then Inr (p, Some PacketTooLong)
             else Inr (p\<lparr>sequenceNumber := sequenceNumber p + 1\<rparr>, None))))"

subsection \<open>Reading values off a packet\<close>

definition Frames :: "Packet \<Rightarrow> int go" where
  "Frames p = (case pktShape p of
     None \<Rightarrow> Inr 0
   | Some sh \<Rightarrow>
       (let nchan = foldl (\<lambda>n s. if s > 0 then n * s else n) 1 (Sizes sh) in
        case pktFormat p of
          None \<Rightarrow> Inl NilDereference
        | Some f \<Rightarrow> div_go (uint (payloadLength p)) (wordlen f * nchan)))"

definition ChannelInfo :: "Packet \<Rightarrow> (int \<times> int) go" where
  "ChannelInfo p = (case pktShape p of
     None \<Rightarrow> Inl NilDereference
   | Some sh \<Rightarrow> Inr (foldl (\<lambda>n s. if s > 0 then n * s else n) 1 (Sizes sh), uint (chanOffset p)))"

definition IsExternalTrigger :: "Packet \<Rightarrow> bool" where
  "IsExternalTrigger p = (if explicitOffset p then False else payloadLabel p = ascii ''value,active,t'')"

definition ReadValue :: "Packet \<Rightarrow> int \<Rightarrow> int go" where
  "ReadValue p sample =
     (if sample < 0 then Inr 0
      else bind_go (Frames p) (\<lambda>frames.
        if sample \<ge> frames then Inr 0
        else (case Data p of
            Some (Int16s d) \<Rightarrow> idx d sample
          | Some (Int32s d) \<Rightarrow> idx d sample
          | Some (Int64s d) \<Rightarrow> idx d sample
          | _ \<Rightarrow> Inl (ExplicitPanic ''Type of d is not known in Packet.ReadValue()''))))"

text \<open>\<open>MakePretendPacket\<close>: the first \<open>nchan\<close> values repeated over the packet.\<close>

definition repeat_first :: "int list \<Rightarrow> int \<Rightarrow> int list go" where
  "repeat_first d nchan =
     mapM_go (\<lambda>i. if nchan = 0 then Inl DivideByZero else idx d (rem_int i nchan)) [0..int (length d) - 1]"

definition MakePretendPacket :: "Packet \<Rightarrow> 32 word \<Rightarrow> int \<Rightarrow> Packet go" where
  "MakePretendPacket p seqnum nchan =
     (let pretend = p\<lparr>sequenceNumber := seqnum\<rparr> in
      case Data p of
        Some (Int16s d) \<Rightarrow> bind_go (repeat_first d nchan) (\<lambda>x. Inr (pretend\<lparr>Data := Some (Int16s x)\<rparr>))
      | Some (Int32s d) \<Rightarrow> bind_go (repeat_first d nchan) (\<lambda>x. Inr (pretend\<lparr>Data := Some (Int32s x)\<rparr>))
      | Some (Int64s d) \<Rightarrow> bind_go (repeat_first d nchan) (\<lambda>x. Inr (pretend\<lparr>Data := Some (Int64s x)\<rparr>))
      | _ \<Rightarrow> Inr pretend)"

subsection \<open>Serialisation\<close>

definition be_bytes :: "nat \<Rightarrow> int \<Rightarrow> u8 list" where
  "be_bytes n i = rev (le_bytes n i)"

definition of_be :: "u8 list \<Rightarrow> int" where
  "of_be bs = of_le (rev bs)"

text \<open>\<open>binary.Write\<close> of a slice; it writes nothing for a value it cannot handle.\<close>

definition put_order :: "byte_order \<Rightarrow> u8 list \<Rightarrow> u8 list" where
  "put_order ord bs = (case ord of BigEndian \<Rightarrow> rev bs | LittleEndian \<Rightarrow> bs)"

fun binary_write :: "byte_order \<Rightarrow> go_slice \<Rightarrow> u8 list" where
  "binary_write ord (Int8s d) = concat (map (put_order ord \<circ> FromInt8) d)"
| "binary_write ord (Int16s d) = concat (map (put_order ord \<circ> FromInt16) d)"
| "binary_write ord (Int32s d) = concat (map (put_order ord \<circ> FromInt32) d)"
| "binary_write ord (Int64s d) = concat (map (put_order ord \<circ> FromInt64) d)"
| "binary_write ord (Uint8s d) = d"
| "binary_write ord (Uint16s d) = concat (map (put_order ord \<circ> FromUint16) d)"
| "binary_write ord (Uint32s d) = concat (map (put_order ord \<circ> FromUint32) d)"
| "binary_write ord (Uint64s d) = concat (map (put_order ord \<circ> FromUint64) d)"
| "binary_write ord Unsupported = []"

text \<open>\<open>math.Round\<close> (halves away from zero) and \<open>math.Pow10\<close> (the product of two table entries).\<close>

fun fround :: "go_float \<Rightarrow> go_float" where
  "fround (Fin q) = Fin (of_int (if q < 0 then - \<lfloor>1 / 2 - q\<rfloor> else \<lfloor>q + 1 / 2\<rfloor>))"
| "fround x = x"

definition Pow10 :: "int \<Rightarrow> go_float" where
  "Pow10 n =
     (if 0 \<le> n \<and> n \<le> 308 then fmul r64 (r64 (10 ^ (nat n div 32 * 32))) (r64 (10 ^ (nat n mod 32)))
      else if - 323 \<le> n \<and> n \<le> 0
      then fdiv r64 (r64 (1 / 10 ^ (nat (- n) div 32 * 32))) (r64 (10 ^ (nat (- n) mod 32)))
      else if n > 0 then PInf else Fin 0)"

text \<open>
  The clock period in units of \<open>10^-11\<close> seconds is halved until it fits 16 bits; \<open>None\<close> is a loop
  that does not end.
\<close>

partial_function (option) halve_period :: "go_float \<Rightarrow> 16 word \<Rightarrow> (go_float \<times> 16 word) option" where
  "halve_period period denom =
     (if flt (Fin 65535) period then halve_period (fmul r64 period (Fin (1 / 2))) (denom * 2)
      else Some (period, denom))"

definition timestamp_unit :: "go_float \<Rightarrow> (16 word \<times> 16 word) option" where
  "timestamp_unit rate = (case halve_period (fdiv r64 (Pow10 11) rate) 1 of
     None \<Rightarrow> None
   | Some (period, denom) \<Rightarrow> Some (word_of_int (int_of_f64 (fround period)), denom))"

definition timestamp_bytes :: "PacketTimestamp \<Rightarrow> u8 list option" where
  "timestamp_bytes ts = (case timestamp_unit (tsRate ts) of
     None \<Rightarrow> None
   | Some (num, denom) \<Rightarrow>
       Some ([tlvTIMESTAMPUNIT, 2, 64, word_of_int (- 11)] @ be_bytes 2 (uint num)
         @ be_bytes 2 (uint denom) @ be_bytes 8 (uint (tsT ts))))"

definition format_bytes :: "headPayloadFormat \<Rightarrow> u8 list" where
  "format_bytes f = [tlvFORMAT, 1] @ take 6 (rawfmt f) @ replicate (6 - length (rawfmt f)) 0"

definition shape_bytes :: "headPayloadShape \<Rightarrow> u8 list" where
  "shape_bytes sh = (let n = length (Sizes sh) in
     [tlvSHAPE, word_of_int (1 + int n div 4)] @ concat (map (be_bytes 2) (Sizes sh))
       @ concat (replicate (3 - n mod 4) (be_bytes 2 0)))"

text \<open>\<open>binary.Write\<close> consults the byte order (which may be nil) for each element wider than a byte.\<close>

fun needs_order :: "go_slice \<Rightarrow> bool" where
  "needs_order (Int8s d) = False"
| "needs_order (Uint8s d) = False"
| "needs_order d = (binary_write LittleEndian d \<noteq> [])"

definition data_bytes :: "headPayloadFormat \<Rightarrow> go_slice \<Rightarrow> u8 list go" where
  "data_bytes f d =
     (if endian f = Some BigEndian then Inr (binary_write BigEndian d)
      else (case d of
          Int16s x \<Rightarrow> Inr (FromSliceInt16 x)
        | _ \<Rightarrow> (case endian f of
              Some ord \<Rightarrow> Inr (binary_write ord d)
            | None \<Rightarrow> if needs_order d then Inl NilDereference else Inr (binary_write LittleEndian d))))"

definition header_bytes :: "Packet \<Rightarrow> u8 list" where
  "header_bytes p = [version p, headerLength p] @ be_bytes 2 (uint (payloadLength p))
     @ be_bytes 4 packetMAGIC @ be_bytes 4 (uint (sourceID p)) @ be_bytes 4 (uint (sequenceNumber p))
     @ [tlvCHANOFFSET, 1] @ be_bytes 2 0 @ be_bytes 4 (uint (chanOffset p))"

definition payload_bytes :: "Packet \<Rightarrow> u8 list go" where
  "payload_bytes p = (case (Data p, pktShape p, pktFormat p) of
     (Some d, Some sh, Some f) \<Rightarrow>
       bind_go (data_bytes f d) (\<lambda>bs. Inr (format_bytes f @ shape_bytes sh @ bs))
   | _ \<Rightarrow> Inr [])"

definition PacketBytes :: "Packet \<Rightarrow> u8 list go option" where
  "PacketBytes p =
     (case (case pktTimestamp p of None \<Rightarrow> Some [] | Some ts \<Rightarrow> timestamp_bytes ts) of
        None \<Rightarrow> None
      | Some tsb \<Rightarrow> Some (bind_go (payload_bytes p) (\<lambda>bs. Inr (header_bytes p @ tsb @ bs))))"

subsection \<open>Byte order\<close>

fun swap_groups :: "nat \<Rightarrow> u8 list \<Rightarrow> u8 list go" where
  "swap_groups k [] = Inr []"
| "swap_groups k (b # bs) =
     (if length (b # bs) < Suc k then Inl IndexOutOfRange
      else bind_go (swap_groups k (drop k bs)) (\<lambda>r. Inr (rev (take (Suc k) (b # bs)) @ r)))"

definition byteSwap2 :: "u8 list \<Rightarrow> int \<Rightarrow> (packet_error + u8 list) go" where
  "byteSwap2 b nb =
     (if nb = 2 \<or> nb = 4 \<or> nb = 8 then bind_go (swap_groups (nat nb - 1) b) (\<lambda>r. Inr (Inr r))
      else Inr (Inl SwapSizeNotAllowed))"

text \<open>
  The slices and their byte views share memory: swapping the bytes of the view changes the numbers.
\<close>

definition swapped :: "(u8 list \<Rightarrow> go_slice) \<Rightarrow> u8 list \<Rightarrow> int \<Rightarrow> (packet_error + go_slice) go" where
  "swapped view b nb = bind_go (byteSwap2 b nb) (\<lambda>r. Inr (map_sum id view r))"

definition view16 :: "u8 list \<Rightarrow> int list" where "view16 bs = codec_i16.dec_all (length bs div 2) bs"
definition view32 :: "u8 list \<Rightarrow> int list" where "view32 bs = codec_i32.dec_all (length bs div 4) bs"
definition view64 :: "u8 list \<Rightarrow> int list" where "view64 bs = codec_i64.dec_all (length bs div 8) bs"

fun ByteSwap :: "go_slice \<Rightarrow> (packet_error + go_slice) go" where
  "ByteSwap (Uint8s v) = Inr (Inr (Uint8s v))"
| "ByteSwap (Int8s v) = Inr (Inr (Int8s v))"
| "ByteSwap (Uint16s v) = swapped (\<lambda>b. Uint16s (codec_u16.dec_all (length b div 2) b)) (FromSliceUint16 v) 2"
| "ByteSwap (Int16s v) = swapped (\<lambda>b. Int16s (view16 b)) (FromSliceInt16 v) 2"
| "ByteSwap (Uint32s v) = swapped (\<lambda>b. Uint32s (codec_u32.dec_all (length b div 4) b)) (FromSliceUint32 v) 4"
| "ByteSwap (Int32s v) = swapped (\<lambda>b. Int32s (view32 b)) (FromSliceInt32 v) 4"
| "ByteSwap (Uint64s v) = swapped (\<lambda>b. Uint64s (codec_u64.dec_all (length b div 8) b)) (FromSliceUint64 v) 8"
| "ByteSwap (Int64s v) = swapped (\<lambda>b. Int64s (view64 b)) (FromSliceInt64 v) 8"
| "ByteSwap Unsupported = Inr (Inl CannotSwapType)"

subsection \<open>Parsing the TLV items\<close>

text \<open>\<open>binary.BigEndian.UintN(data[k:])\<close>: both the slicing and the read check the bounds.\<close>

definition get_be :: "nat \<Rightarrow> nat \<Rightarrow> u8 list \<Rightarrow> int go" where
  "get_be n k data =
     (if length data < k then Inl SliceBounds
      else if length data < k + n then Inl IndexOutOfRange
      else Inr (of_be (take n (drop k data))))"

definition addDataComponent :: "headPayloadFormat \<Rightarrow> go_kind \<Rightarrow> int \<Rightarrow> headPayloadFormat" where
  "addDataComponent h t nb = h\<lparr>dtype := dtype h @ [t], nvals := nvals h + 1, wordlen := wordlen h + nb\<rparr>"

definition format_char :: "u8 \<Rightarrow> headPayloadFormat \<Rightarrow> headPayloadFormat option" where
  "format_char c f =
     (if c \<in> set [0, of_char CHR '' ''] then Some f
      else if c \<in> set (ascii ''!>'') then Some (f\<lparr>endian := Some BigEndian\<rparr>)
      else if c \<in> set (ascii ''<'') then Some (f\<lparr>endian := Some LittleEndian\<rparr>)
      else if c \<in> set (ascii ''x'') then Some (addDataComponent f Invalid 1)
      else if c \<in> set (ascii ''b'') then Some (addDataComponent f Int8 1)
      else if c \<in> set (ascii ''B'') then Some (addDataComponent f Uint8 1)
      else if c \<in> set (ascii ''h'') then Some (addDataComponent f Int16 2)
      else if c \<in> set (ascii ''H'') then Some (addDataComponent f Uint16 2)
      else if c \<in> set (ascii ''il'') then Some (addDataComponent f Int32 4)
      else if c \<in> set (ascii ''IL'') then Some (addDataComponent f Uint32 4)
      else if c \<in> set (ascii ''q'') then Some (addDataComponent f Int64 8)
      else if c \<in> set (ascii ''Q'') then Some (addDataComponent f Uint64 8)
      else None)"

text \<open>
  The loop over the runes of the format string.  A byte from 128 on starts a rune that is in no case
  of the switch, so the loop over the bytes returns the same.
\<close>

fun format_loop :: "u8 list \<Rightarrow> headPayloadFormat \<Rightarrow> packet_error + headPayloadFormat" where
  "format_loop [] f = Inr f"
| "format_loop (c # cs) f = (case format_char c f of
     None \<Rightarrow> Inl UnknownFormatChar
   | Some g \<Rightarrow> format_loop cs g)"

definition shape_loop :: "u8 list \<Rightarrow> nat \<Rightarrow> int list go" where
  "shape_loop data tlvsize = foldM_go (\<lambda>sizes i.
     bind_go (get_be 2 i data) (\<lambda>d. let d = to_int16 d in Inr (if d > 0 then sizes @ [d] else sizes)))
     [] (map (\<lambda>k. 2 + 2 * k) [0..<(tlvsize - 2 + 1) div 2])"

definition timestamp_tlv :: "u8 list \<Rightarrow> (packet_error + PacketTimestamp) go" where
  "timestamp_tlv data =
     bind_go (idx data 2) (\<lambda>nbits.
     bind_go (idx data 3) (\<lambda>ex.
     bind_go (get_be 2 4 data) (\<lambda>num.
     bind_go (get_be 2 6 data) (\<lambda>denom.
     bind_go (get_be 8 8 data) (\<lambda>t.
       if nbits > 64 then Inr (Inl TimestampBits)
       else Inr (Inr \<lparr>tsT = (if nbits < 64 then word_of_int (t mod 2 ^ unat nbits) else word_of_int t),
              tsRate = fmul r64 (fdiv r64 (f64_of_int denom) (f64_of_int num)) (Pow10 (- sint ex))\<rparr>))))))"

definition parse_item :: "u8 list \<Rightarrow> u8 \<Rightarrow> nat \<Rightarrow> (packet_error + tlv option) go" where
  "parse_item data t tlvsize =
     (if t = tlvTAG then
        bind_go (get_be 2 2 data) (\<lambda>x. bind_go (get_be 4 4 data) (\<lambda>tag.
          if x \<noteq> 0 then Inr (Inl TagNotZero) else Inr (Inr (Some (Tag (word_of_int tag))))))
      else if t = tlvTIMESTAMP then
        bind_go (get_be 2 2 data) (\<lambda>x. bind_go (get_be 4 4 data) (\<lambda>y.
          let ts = MakeTimestamp (word_of_int x) (word_of_int y) (f64_of_int 1000000000) in
          Inr (Inr (Some (Timestamp (ts\<lparr>tsT := push_bit 16 (tsT ts)\<rparr>))))))
      else if t = tlvCOUNTER then
        (if tlvsize \<noteq> 8 then Inr (Inl CounterSize)
         else bind_go (get_be 2 2 data) (\<lambda>i. bind_go (get_be 4 4 data) (\<lambda>c.
           Inr (Inr (Some (Counter \<lparr>counterID = to_int16 i, counterCount = to_int32 c\<rparr>))))))
      else if t = tlvTIMESTAMPUNIT then
        (if tlvsize < 16 then Inr (Inl TimestampTooShort)
         else bind_go (timestamp_tlv data) (\<lambda>r. Inr (map_sum id (Some \<circ> Timestamp) r)))
      else if t = tlvFORMAT then
        bind_go (slice_go data 2 (int tlvsize)) (\<lambda>raw.
          Inr (map_sum id (Some \<circ> Format)
            (format_loop raw \<lparr>endian = None, rawfmt = raw, wordlen = 0, nvals = 0, dtype = []\<rparr>)))
      else if t = tlvSHAPE then
        bind_go (shape_loop data tlvsize) (\<lambda>sizes.
          if sizes = [] then Inr (Inl NoPositiveSizes) else Inr (Inr (Some (Shape \<lparr>Sizes = sizes\<rparr>))))
      else if t = tlvCHANOFFSET then
        bind_go (get_be 2 2 data) (\<lambda>pad. bind_go (get_be 4 4 data) (\<lambda>off.
          if pad \<noteq> 0 then Inr (Inl OffsetPadding) else Inr (Inr (Some (ChannelOffset (word_of_int off))))))
      else if t = tlvPAYLOADLABEL then
        bind_go (slice_go data 2 (int tlvsize)) (\<lambda>label. Inr (Inr (Some (PayloadLabel label))))
      else Inr (Inr None))"

function parseTLV :: "u8 list \<Rightarrow> (packet_error + tlv list) go" where
  "parseTLV data =
     (if data = [] then Inr (Inr [])
      else if length data < 8 then Inr (Inl TLVnotMultipleOf8)
      else let t = data ! 0; tlvsize = 8 * unat (data ! 1) in
        if tlvsize > length data then Inr (Inl TLVtooLong)
        else if tlvsize = 0 then Inr (Inl TLVempty)
        else bind_go (parse_item data t tlvsize) (\<lambda>r. case r of
            Inl e \<Rightarrow> Inr (Inl e)
          | Inr item \<Rightarrow> bind_go (parseTLV (drop tlvsize data)) (\<lambda>rest.
              Inr (map_sum id (\<lambda>l. (case item of None \<Rightarrow> l | Some v \<Rightarrow> v # l)) rest))))"
  by auto
termination
  by (relation "measure length") auto

declare parseTLV.simps [simp del]

subsection \<open>Reading a packet\<close>

text \<open>\<open>io.ReadFull\<close> and \<open>io.CopyN\<close> to nowhere.\<close>

definition ReadFull :: "nat \<Rightarrow> u8 list \<Rightarrow> (packet_error + u8 list) \<times> u8 list" where
  "ReadFull n rd =
     (if n \<le> length rd then (Inr (take n rd), drop n rd)
      else if rd = [] then (Inl EOF, []) else (Inl UnexpectedEOF, []))"

definition Discard :: "nat \<Rightarrow> u8 list \<Rightarrow> packet_error option \<times> u8 list" where
  "Discard n rd = (if n \<le> length rd then (None, drop n rd) else (Some EOF, []))"

definition add_item :: "Packet \<Rightarrow> tlv \<Rightarrow> Packet" where
  "add_item p item = (case item of
     ChannelOffset v \<Rightarrow> p\<lparr>chanOffset := v, explicitOffset := True\<rparr>
   | Shape v \<Rightarrow> p\<lparr>pktShape := Some v\<rparr>
   | Format v \<Rightarrow> p\<lparr>pktFormat := Some v\<rparr>
   | Timestamp v \<Rightarrow> p\<lparr>pktTimestamp := Some v\<rparr>
   | PayloadLabel v \<Rightarrow> p\<lparr>payloadLabel := v\<rparr>
   | v \<Rightarrow> p\<lparr>otherTLV := otherTLV p @ [v]\<rparr>)"

text \<open>The payload, read in the machine's byte order and swapped when the format says big-endian.\<close>

definition read_ints :: "headPayloadFormat \<Rightarrow> nat \<Rightarrow> (u8 list \<Rightarrow> go_slice) \<Rightarrow> u8 list
    \<Rightarrow> ((packet_error + go_slice) \<times> u8 list) go" where
  "read_ints f n view rd = (case ReadFull n rd of
     (Inl e, rd) \<Rightarrow> Inr (Inl e, rd)
   | (Inr bs, rd) \<Rightarrow>
       if endian f = Some BigEndian then bind_go (ByteSwap (view bs)) (\<lambda>r. Inr (r, rd))
       else Inr (Inr (view bs), rd))"

definition read_payload :: "headPayloadFormat \<Rightarrow> nat \<Rightarrow> u8 list \<Rightarrow> ((packet_error + go_slice) \<times> u8 list) go" where
  "read_payload f n rd =
     (if length (dtype f) = 1 then
        (let k = hd (dtype f) in
         if k = Int16 then read_ints f (n div 2 * 2) (\<lambda>b. Int16s (view16 b)) rd
         else if k = Int32 then read_ints f (n div 4 * 4) (\<lambda>b. Int32s (view32 b)) rd
         else if k = Int64 then read_ints f (n div 8 * 8) (\<lambda>b. Int64s (view64 b)) rd
         else Inr (Inl UnreadableType, rd))
      else (case ReadFull n rd of (r, rd) \<Rightarrow> Inr (map_sum id Uint8s r, rd)))"

definition ReadPacket :: "u8 list \<Rightarrow> ((packet_error + Packet) \<times> u8 list) go" where
  "ReadPacket rd = (case ReadFull 16 rd of
     (Inl e, rd) \<Rightarrow> Inr (Inl e, rd)
   | (Inr hdr, rd) \<Rightarrow>
       bind_go (idx hdr 0) (\<lambda>vers.
       bind_go (idx hdr 1) (\<lambda>hlen.
       bind_go (get_be 2 2 hdr) (\<lambda>plen.
         if hlen < 16 then Inr (Inl HeaderTooShort, rd)
         else bind_go (get_be 4 4 hdr) (\<lambda>magic.
         bind_go (get_be 4 8 hdr) (\<lambda>src.
         bind_go (get_be 4 12 hdr) (\<lambda>seqn.
           let p = \<lparr>version = vers, headerLength = hlen, payloadLength = word_of_int plen,
                    sourceID = word_of_int src, sequenceNumber = word_of_int seqn,
                    packetLength = uint hlen + plen, pktFormat = None, pktShape = None,
                    pktTimestamp = None, payloadLabel = [], chanOffset = 0, explicitOffset = False,
                    otherTLV = [], Data = None\<rparr> in
           if magic \<noteq> packetMAGIC then Inr (Inl BadMagic, rd)
           else (case ReadFull (unat (hlen - 16)) rd of
               (Inl e, rd) \<Rightarrow> Inr (Inl e, rd)
             | (Inr tlvdata, rd) \<Rightarrow>
                 bind_go (parseTLV tlvdata) (\<lambda>r. case r of
                     Inl e \<Rightarrow> Inr (Inl e, rd)
                   | Inr allTLV \<Rightarrow>
                       (let p = foldl add_item p allTLV in
                        case pktFormat p of
                          None \<Rightarrow> Inr (Inr p, rd)
                        | Some f \<Rightarrow>
                            if plen > 0
                            then bind_go (read_payload f (nat plen) rd) (\<lambda>(r, rd).
                                   Inr (map_sum id (\<lambda>d. p\<lparr>Data := Some d\<rparr>) r, rd))
                            else Inr (Inr p, rd)))))))))))"

definition ReadPacketPlusPad :: "u8 list \<Rightarrow> int \<Rightarrow> ((packet_error + Packet) \<times> u8 list) go" where
  "ReadPacketPlusPad rd stride =
     bind_go (ReadPacket rd) (\<lambda>(r, rd). case r of
         Inl e \<Rightarrow> Inr (Inl e, rd)
       | Inr p \<Rightarrow>
           if stride = 0 then Inl DivideByZero
           else (let overhang = rem_int (packetLength p) stride in
             if overhang > 0
             then (if stride - overhang < 0 then Inr (Inr p, rd)
                   else case Discard (nat (stride - overhang)) rd of
                     (None, rd) \<Rightarrow> Inr (Inr p, rd)
                   | (Some e, rd) \<Rightarrow> Inr (Inl e, rd))
             else Inr (Inr p, rd)))"

end
