(* ===== verification/PacketLaws.thy ===== *)
theory PacketLaws
  imports Packets "HOL-Library.Sublist"
begin

text \<open>
  Laws of the data packets: every TLV item the code writes is parsed back (locale \<open>tlv_codec\<close>,
  interpreted on the four items of \<open>Bytes\<close>), a packet built with the package's operations survives
  serialisation and parsing, the parser does not panic on any input, and the clock rate is written
  with the precision of its two 16-bit fields.
\<close>

subsection \<open>Big-endian fields\<close>

lemma length_be [simp]: "length (be_bytes n i) = n"
  by (simp add: be_bytes_def)

lemma of_be_bytes [simp]: "of_be (be_bytes n i) = i mod 256 ^ n"
  by (simp add: be_bytes_def of_be_def of_le_bytes)

lemma get_be_here: "length b = n \<Longrightarrow> get_be n 0 (b @ r) = Inr (of_be b)"
  by (simp add: get_be_def)

lemma get_be_bytes [simp]: "get_be n 0 (be_bytes n i @ r) = Inr (i mod 256 ^ n)"
  "get_be n 0 (be_bytes n i) = Inr (i mod 256 ^ n)"
  using get_be_here [of "be_bytes n i" n r] get_be_here [of "be_bytes n i" n "[]"] by simp_all

lemma get_be_Suc [simp]: "get_be n (Suc k) (x # xs) = get_be n k xs"
  by (simp add: get_be_def)

lemma get_be_numeral [simp]: "get_be n (numeral k) (x # xs) = get_be n (pred_numeral k) xs"
  by (simp add: numeral_eq_Suc)

lemma get_be_skip: "length b \<le> k \<Longrightarrow> get_be n k (b @ r) = get_be n (k - length b) r"
  by (auto simp: get_be_def)

lemma get_be_skip_be [simp]: "m \<le> k \<Longrightarrow> get_be n k (be_bytes m i @ r) = get_be n (k - m) r"
  by (simp add: get_be_skip)

lemma get_be_total: "k + n \<le> length data \<Longrightarrow> \<exists>x. get_be n k data = Inr x"
  by (simp add: get_be_def)

lemma uint_mod_self [simp]:
  "uint (w :: 16 word) mod 65536 = uint w" "uint (x :: 32 word) mod 4294967296 = uint x"
  "uint (y :: 64 word) mod 18446744073709551616 = uint y"
  using uint_lt2p [of w] uint_lt2p [of x] uint_lt2p [of y] by simp_all

lemma ReadFull_append: "length a = n \<Longrightarrow> ReadFull n (a @ b) = (Inr a, b)"
  by (simp add: ReadFull_def)

subsection \<open>Items that are parsed back\<close>

locale tlv_codec =
  fixes enc :: "'a \<Rightarrow> u8 list" and wrap :: "'a \<Rightarrow> tlv" and ok :: "'a \<Rightarrow> bool"
  assumes item_back: "ok x \<Longrightarrow> parse_item (enc x @ rest) (enc x ! 0) (length (enc x)) = Inr (Inr (Some (wrap x)))"
    and item_size: "ok x \<Longrightarrow> 8 * unat (enc x ! 1) = length (enc x)"
    and item_nonempty: "ok x \<Longrightarrow> 8 \<le> length (enc x)"
begin

lemma parse_cons:
  assumes "ok x" "parseTLV rest = Inr (Inr items)"
  shows "parseTLV (enc x @ rest) = Inr (Inr (wrap x # items))"
proof -
  have len: "8 \<le> length (enc x)" using item_nonempty [OF assms(1)] .
  then have ne: "enc x \<noteq> []" "enc x @ rest \<noteq> []" "\<not> length (enc x @ rest) < 8" by auto
  have nth: "(enc x @ rest) ! 0 = enc x ! 0" "(enc x @ rest) ! 1 = enc x ! 1"
    using less_le_trans [OF _ len, of 0] less_le_trans [OF _ len, of 1] by (simp_all only: nth_append) simp_all
  have "parseTLV (enc x @ rest)
    = bind_go (parse_item (enc x @ rest) (enc x ! 0) (length (enc x))) (\<lambda>r. case r of
            Inl e \<Rightarrow> Inr (Inl e)
          | Inr item \<Rightarrow> bind_go (parseTLV (drop (length (enc x)) (enc x @ rest))) (\<lambda>rest.
              Inr (map_sum id (\<lambda>l. (case item of None \<Rightarrow> l | Some v \<Rightarrow> v # l)) rest)))"
    using len item_size [OF assms(1)] ne
    by (subst parseTLV.simps) (simp only: nth Let_def if_False length_append, simp)
  then show ?thesis by (simp add: item_back [OF assms(1)] assms(2))
qed

lemma parse_one:
  assumes "ok x"
  shows "parseTLV (enc x) = Inr (Inr [wrap x])"
  using parse_cons [OF assms, of "[]" "[]"] by (simp add: parseTLV.simps)

end

definition offset_bytes :: "32 word \<Rightarrow> u8 list" where
  "offset_bytes v = [tlvCHANOFFSET, 1] @ be_bytes 2 0 @ be_bytes 4 (uint v)"

interpretation offset_item: tlv_codec offset_bytes ChannelOffset "\<lambda>_. True"
  by unfold_locales (simp_all add: offset_bytes_def parse_item_def tlv_codes)

text \<open>A timestamp comes back with the rate its numerator and denominator stand for.\<close>

definition written_timestamp :: "PacketTimestamp \<Rightarrow> PacketTimestamp" where
  "written_timestamp ts = (case timestamp_unit (tsRate ts) of
     Some (num, denom) \<Rightarrow>
       ts\<lparr>tsRate := fmul r64 (fdiv r64 (f64_of_int (uint denom)) (f64_of_int (uint num))) (Pow10 11)\<rparr>
   | None \<Rightarrow> ts)"

lemma timestamp_bytes_eq:
  assumes "timestamp_unit (tsRate ts) = Some (num, denom)"
  shows "timestamp_bytes ts = Some ([tlvTIMESTAMPUNIT, 2, 64, word_of_int (- 11)] @ be_bytes 2 (uint num)
         @ be_bytes 2 (uint denom) @ be_bytes 8 (uint (tsT ts)))"
  using assms by (simp add: timestamp_bytes_def)

interpretation timestamp_item: tlv_codec "\<lambda>ts. the (timestamp_bytes ts)" "\<lambda>ts. Timestamp (written_timestamp ts)"
  "\<lambda>ts. timestamp_unit (tsRate ts) \<noteq> None"
  by unfold_locales
    (auto simp: timestamp_bytes_eq written_timestamp_def parse_item_def timestamp_tlv_def tlv_codes)

definition own_format :: "headPayloadFormat \<Rightarrow> bool" where
  "own_format f \<longleftrightarrow> (\<exists>d fmt kind wl len. data_format d = Some (fmt, kind, wl, len)
     \<and> f = \<lparr>endian = Some LittleEndian, rawfmt = ascii fmt, wordlen = wl, nvals = 1, dtype = [kind]\<rparr>)"

definition own_formats :: "headPayloadFormat set" where
  "own_formats = {\<lparr>endian = Some LittleEndian, rawfmt = ascii ''<h'', wordlen = 2, nvals = 1, dtype = [Int16]\<rparr>,
     \<lparr>endian = Some LittleEndian, rawfmt = ascii ''<i'', wordlen = 4, nvals = 1, dtype = [Int32]\<rparr>,
     \<lparr>endian = Some LittleEndian, rawfmt = ascii ''<q'', wordlen = 8, nvals = 1, dtype = [Int64]\<rparr>}"

lemma own_format_in: "own_format f \<Longrightarrow> f \<in> own_formats"
proof -
  assume "own_format f"
  then obtain d fmt kind wl len where "data_format d = Some (fmt, kind, wl, len)"
    "f = \<lparr>endian = Some LittleEndian, rawfmt = ascii fmt, wordlen = wl, nvals = 1, dtype = [kind]\<rparr>"
    by (auto simp: own_format_def)
  then show ?thesis by (cases d) (auto simp: own_formats_def)
qed

lemma own_format_raw: "own_format f \<Longrightarrow> length (rawfmt f) = 2"
  by (drule own_format_in) (auto simp: own_formats_def ascii_def)

lemma ascii_values:
  "ascii ''<'' = [60]" "ascii ''!>'' = [33, 62]" "ascii ''x'' = [120]" "ascii ''b'' = [98]"
  "ascii ''B'' = [66]" "ascii ''h'' = [104]" "ascii ''H'' = [72]" "ascii ''il'' = [105, 108]"
  "ascii ''IL'' = [73, 76]" "ascii ''q'' = [113]" "ascii ''Q'' = [81]"
  "(of_char CHR '' '' :: u8) = 32"
  "ascii ''<h'' = [60, 104]" "ascii ''<i'' = [60, 105]" "ascii ''<q'' = [60, 113]"
  by (simp_all add: ascii_def)

lemma format_char_own:
  "format_char 0 f = Some f"
  "format_char 60 f = Some (f\<lparr>endian := Some LittleEndian\<rparr>)"
  "format_char 104 f = Some (addDataComponent f Int16 2)"
  "format_char 105 f = Some (addDataComponent f Int32 4)"
  "format_char 113 f = Some (addDataComponent f Int64 8)"
  by (simp_all add: format_char_def ascii_values)

lemma format_loop_own:
  assumes "own_format f"
  shows "format_loop (rawfmt f @ replicate 4 0) \<lparr>endian = None, rawfmt = r, wordlen = 0, nvals = 0, dtype = []\<rparr>
    = Inr (f\<lparr>rawfmt := r\<rparr>)"
  using own_format_in [OF assms]
  by (auto simp: own_formats_def ascii_values format_char_own addDataComponent_def numeral_eq_Suc)

definition written_format :: "headPayloadFormat \<Rightarrow> headPayloadFormat" where
  "written_format f = f\<lparr>rawfmt := rawfmt f @ replicate 4 0\<rparr>"

interpretation format_item: tlv_codec format_bytes "\<lambda>f. Format (written_format f)" own_format
proof
  fix f :: headPayloadFormat and rest
  assume own: "own_format f"
  have fb: "format_bytes f = tlvFORMAT # 1 # rawfmt f @ replicate 4 0"
    using own_format_raw [OF own] by (simp add: format_bytes_def)
  show "parse_item (format_bytes f @ rest) (format_bytes f ! 0) (length (format_bytes f))
    = Inr (Inr (Some (Format (written_format f))))"
    using own_format_raw [OF own] format_loop_own [OF own]
    by (simp add: fb parse_item_def tlv_codes slice_go_def written_format_def)
  show "8 * unat (format_bytes f ! 1) = length (format_bytes f)" "8 \<le> length (format_bytes f)"
    using own_format_raw [OF own] by (simp_all add: fb)
qed

lemma shape_bytes_one: "shape_bytes \<lparr>Sizes = [n]\<rparr> = [tlvSHAPE, 1] @ be_bytes 2 n @ be_bytes 2 0 @ be_bytes 2 0"
proof -
  have "replicate 2 x = [x, x]" for x :: "u8 list" by (simp add: numeral_2_eq_2)
  then show ?thesis by (simp add: shape_bytes_def)
qed

interpretation shape_item: tlv_codec shape_bytes Shape "\<lambda>sh. \<exists>n. sh = \<lparr>Sizes = [n]\<rparr> \<and> 0 < n \<and> n < 2 ^ 15"
proof
  fix sh rest
  assume "\<exists>n. sh = \<lparr>Sizes = [n]\<rparr> \<and> 0 < n \<and> n < 2 ^ 15"
  then obtain n where n: "sh = \<lparr>Sizes = [n]\<rparr>" "0 < n" "n < 2 ^ 15" by blast
  have "to_int16 n = n" using n by (simp add: to_int16_id)
  moreover have "to_int16 0 = 0" by (simp add: to_int16_def)
  moreover have "[0..<3] = [0, 1, 2 :: nat]" by (simp add: upt_rec)
  ultimately show "parse_item (shape_bytes sh @ rest) (shape_bytes sh ! 0) (length (shape_bytes sh)) = Inr (Inr (Some (Shape sh)))"
    using n by (simp add: shape_bytes_one parse_item_def tlv_codes shape_loop_def Let_def)
  show "8 * unat (shape_bytes sh ! 1) = length (shape_bytes sh)" "8 \<le> length (shape_bytes sh)"
    by (simp_all add: n(1) shape_bytes_one)
qed

subsection \<open>Packets built with the package's operations\<close>

datatype packet_op =
    OpClearData | OpSetTimestamp PacketTimestamp | OpResetTimestamp | OpNewData go_slice "int list"

fun packet_step :: "packet_op \<Rightarrow> Packet \<Rightarrow> Packet option" where
  "packet_step OpClearData p = Some (ClearData p)"
| "packet_step (OpSetTimestamp ts) p = Some (SetTimestamp p ts)"
| "packet_step OpResetTimestamp p = Some (ResetTimestamp p)"
| "packet_step (OpNewData d dims) p = (case NewData p d dims of Inr (q, None) \<Rightarrow> Some q | _ \<Rightarrow> None)"

text \<open>A sequence of operations, none of which panics or reports an error.\<close>

fun packet_ops :: "packet_op list \<Rightarrow> Packet \<Rightarrow> Packet option" where
  "packet_ops [] p = Some p"
| "packet_ops (e # es) p = Option.bind (packet_step e p) (packet_ops es)"

text \<open>The values have the Go types they stand for, the payload fits its 16-bit length field.\<close>

fun go_typed :: "go_slice \<Rightarrow> bool" where
  "go_typed (Int16s d) = (\<forall>x\<in>set d. int_in 2 x)"
| "go_typed (Int32s d) = (\<forall>x\<in>set d. int_in 4 x)"
| "go_typed (Int64s d) = (\<forall>x\<in>set d. int_in 8 x)"
| "go_typed _ = True"

definition payload_size :: "go_slice \<Rightarrow> int" where
  "payload_size d = (case data_format d of Some (_, _, wl, len) \<Rightarrow> wl * len | None \<Rightarrow> 0)"

fun op_fits :: "packet_op \<Rightarrow> bool" where
  "op_fits (OpNewData d dims) = (go_typed d \<and> payload_size d < 2 ^ 16
     \<and> (\<forall>n\<in>set dims. 0 < n \<and> n < 2 ^ 15) \<and> dims \<noteq> [])"
| "op_fits _ = True"

definition holds_data :: "Packet \<Rightarrow> bool" where
  "holds_data p \<longleftrightarrow> (\<exists>d f sh. Data p = Some d \<and> pktFormat p = Some f \<and> pktShape p = Some sh
     \<and> (\<exists>fmt kind wl len. data_format d = Some (fmt, kind, wl, len)
          \<and> f = \<lparr>endian = Some LittleEndian, rawfmt = ascii fmt, wordlen = wl, nvals = 1, dtype = [kind]\<rparr>
          \<and> uint (payloadLength p) = wl * len)
     \<and> (\<exists>n. sh = \<lparr>Sizes = [n]\<rparr> \<and> 0 < n \<and> n < 2 ^ 15) \<and> go_typed d)"

definition no_data :: "Packet \<Rightarrow> bool" where
  "no_data p \<longleftrightarrow> Data p = None \<and> pktFormat p = None \<and> pktShape p = None \<and> payloadLength p = 0"

definition built :: "Packet \<Rightarrow> bool" where
  "built p \<longleftrightarrow> headerLength p = 24 + (if pktTimestamp p = None then 0 else 16) + (if Data p = None then 0 else 16)
     \<and> (no_data p \<or> holds_data p)
     \<and> payloadLabel p = [] \<and> \<not> explicitOffset p \<and> otherTLV p = []"

lemma set_sizes_Inr: "set_sizes dims = Inr sizes \<Longrightarrow> dims \<noteq> [] \<Longrightarrow> \<exists>n. dims = [n] \<and> sizes = [n]"
proof -
  assume r: "set_sizes dims = Inr sizes" and ne: "dims \<noteq> []"
  obtain n rest where d: "dims = n # rest" using ne by (cases dims) auto
  show ?thesis
  proof (cases rest)
    case Nil
    then show ?thesis using r by (auto simp: d set_sizes_def)
  next
    case (Cons m ms)
    have "[0..int (length dims) - 1] = 0 # 1 # [2..int (length dims) - 1]"
      by (simp add: d Cons upto_rec1)
    then have "set_sizes dims = Inl IndexOutOfRange" by (simp add: set_sizes_def d)
    then show ?thesis using r by simp
  qed
qed

lemma data_format_size: "data_format d = Some (fmt, kind, wl, len) \<Longrightarrow> 0 \<le> wl * len"
  by (cases d) auto

lemma NewData_built:
  assumes "NewData p d dims = Inr (q, None)" "op_fits (OpNewData d dims)" "built p"
  shows "built q"
proof -
  obtain fmt kind wl len where f: "data_format d = Some (fmt, kind, wl, len)"
    using assms(1) by (auto simp: NewData_def Let_def split: option.splits)
  have size: "0 \<le> wl * len" "wl * len < 2 ^ 16"
    using data_format_size [OF f] assms(2) by (simp_all add: payload_size_def f)
  obtain sizes where s: "set_sizes dims = Inr sizes"
    using assms(1) by (cases "set_sizes dims") (auto simp: NewData_def Let_def f)
  obtain n where n: "dims = [n]" "sizes = [n]" using set_sizes_Inr [OF s] assms(2) by auto
  have q: "Data q = Some d" "pktShape q = Some \<lparr>Sizes = [n]\<rparr>" "pktTimestamp q = pktTimestamp p"
    "pktFormat q = Some \<lparr>endian = Some LittleEndian, rawfmt = ascii fmt, wordlen = wl, nvals = 1, dtype = [kind]\<rparr>"
    "payloadLength q = word_of_int (wl * len)" "payloadLabel q = payloadLabel p"
    "explicitOffset q = explicitOffset p" "otherTLV q = otherTLV p"
    "headerLength q = 24 + (if pktTimestamp p \<noteq> None then 16 else 0) + 8 + 8 * word_of_int (1 + quot_int 1 4)"
    using assms(1) s n by (auto simp: NewData_def Let_def f split: if_splits)
  have "uint (payloadLength q) = wl * len" using size unfolding q(5) by (simp add: uint_word_of_int del: of_int_mult)
  moreover have "go_typed d" "0 < n" "n < 2 ^ 15" using assms(2) n by simp_all
  ultimately have "holds_data q" unfolding holds_data_def using q(1,2,4) f by blast
  then show ?thesis using assms(3) q by (auto simp: built_def)
qed

lemma packet_step_built:
  assumes "packet_step e p = Some q" "op_fits e" "built p"
  shows "built q"
proof (cases e)
  case OpClearData
  then show ?thesis using assms by (auto simp: ClearData_def built_def no_data_def Let_def)
next
  case (OpSetTimestamp ts)
  then have q: "q = SetTimestamp p ts" using assms(1) by simp
  then have "no_data q = no_data p" "holds_data q = holds_data p"
    by (auto simp: no_data_def holds_data_def SetTimestamp_def Let_def)
  then show ?thesis using assms(3) q by (auto simp: SetTimestamp_def built_def Let_def)
next
  case OpResetTimestamp
  then have q: "q = ResetTimestamp p" using assms(1) by simp
  then have "no_data q = no_data p" "holds_data q = holds_data p"
    by (auto simp: no_data_def holds_data_def ResetTimestamp_def Let_def)
  then show ?thesis using assms(3) q by (auto simp: ResetTimestamp_def built_def Let_def)
next
  case (OpNewData d dims)
  then have "NewData p d dims = Inr (q, None)" using assms(1) by (auto split: sum.splits option.splits)
  then show ?thesis using NewData_built assms OpNewData by blast
qed

lemma built_new: "built (NewPacket v src sn off)"
  by (simp add: built_def NewPacket_def no_data_def)

lemma packet_ops_built:
  "packet_ops es p = Some q \<Longrightarrow> \<forall>e\<in>set es. op_fits e \<Longrightarrow> built p \<Longrightarrow> built q"
  by (induction es arbitrary: p) (auto simp: bind_eq_Some_conv dest: packet_step_built)

subsection \<open>Writing and reading back\<close>

lemma put_order_little [simp]: "put_order LittleEndian \<circ> enc = enc"
  by (simp add: put_order_def comp_def)

lemma views [simp]:
  "\<forall>x\<in>set d. int_in 2 x \<Longrightarrow> view16 (concat (map FromInt16 d)) = d"
  "\<forall>x\<in>set d. int_in 4 x \<Longrightarrow> view32 (concat (map FromInt32 d)) = d"
  "\<forall>x\<in>set d. int_in 8 x \<Longrightarrow> view64 (concat (map FromInt64 d)) = d"
  using codec_i16.dec_all_enc [of d "[]"] codec_i32.dec_all_enc [of d "[]"] codec_i64.dec_all_enc [of d "[]"]
  by (simp_all add: view16_def view32_def view64_def codec_i16.length_enc_all codec_i32.length_enc_all
      codec_i64.length_enc_all)

lemma data_written:
  assumes "data_format d = Some (fmt, kind, wl, len)" "go_typed d" "endian f = Some LittleEndian" "dtype f = [kind]"
  shows "\<exists>bs. data_bytes f d = Inr bs \<and> int (length bs) = wl * len
    \<and> (\<forall>rest. read_payload f (nat (wl * len)) (bs @ rest) = Inr (Inr d, rest))"
  using assms
proof (cases d)
  case (Int16s x)
  have "data_bytes f d = Inr (concat (map FromInt16 x))"
    using assms(3) by (simp add: data_bytes_def Int16s FromSliceInt16_def slice_bytes_eq)
  then show ?thesis
    using assms Int16s codec_i16.length_enc_all [of x]
    by (auto simp: read_payload_def read_ints_def ReadFull_append nat_mult_distrib)
next
  case (Int32s x)
  have "data_bytes f d = Inr (concat (map FromInt32 x))" using assms(3) by (simp add: data_bytes_def Int32s)
  then show ?thesis
    using assms Int32s codec_i32.length_enc_all [of x]
    by (auto simp: read_payload_def read_ints_def ReadFull_append nat_mult_distrib)
next
  case (Int64s x)
  have "data_bytes f d = Inr (concat (map FromInt64 x))" using assms(3) by (simp add: data_bytes_def Int64s)
  then show ?thesis
    using assms Int64s codec_i64.length_enc_all [of x]
    by (auto simp: read_payload_def read_ints_def ReadFull_append nat_mult_distrib)
qed simp_all

text \<open>What \<open>ReadPacket\<close> makes of the bytes of \<open>p\<close>.\<close>

definition received_packet :: "Packet \<Rightarrow> Packet" where
  "received_packet p = p\<lparr>explicitOffset := True, packetLength := uint (headerLength p) + uint (payloadLength p),
     pktTimestamp := map_option written_timestamp (pktTimestamp p),
     pktFormat := map_option written_format (pktFormat p),
     Data := (if payloadLength p = 0 then None else Data p)\<rparr>"

definition tlv_bytes :: "Packet \<Rightarrow> u8 list" where
  "tlv_bytes p = offset_bytes (chanOffset p)
     @ (case pktTimestamp p of None \<Rightarrow> [] | Some ts \<Rightarrow> the (timestamp_bytes ts))
     @ (if Data p = None then [] else format_bytes (the (pktFormat p)) @ shape_bytes (the (pktShape p)))"

definition tlv_items :: "Packet \<Rightarrow> tlv list" where
  "tlv_items p = [ChannelOffset (chanOffset p)]
     @ (case pktTimestamp p of None \<Rightarrow> [] | Some ts \<Rightarrow> [Timestamp (written_timestamp ts)])
     @ (if Data p = None then [] else [Format (written_format (the (pktFormat p))), Shape (the (pktShape p))])"

definition rate_written :: "Packet \<Rightarrow> bool" where
  "rate_written p \<longleftrightarrow> (\<forall>ts. pktTimestamp p = Some ts \<longrightarrow> timestamp_unit (tsRate ts) \<noteq> None)"

lemma parse_tlv_bytes:
  assumes "built p" "rate_written p"
  shows "parseTLV (tlv_bytes p) = Inr (Inr (tlv_items p))"
proof -
  have data: "parseTLV (if Data p = None then [] else format_bytes (the (pktFormat p)) @ shape_bytes (the (pktShape p)))
      = Inr (Inr (if Data p = None then [] else [Format (written_format (the (pktFormat p))), Shape (the (pktShape p))]))"
  proof (cases "Data p")
    case None
    then show ?thesis by (simp add: parseTLV.simps)
  next
    case (Some d)
    then have "holds_data p" using assms(1) by (auto simp: built_def no_data_def)
    then obtain f sh where f: "pktFormat p = Some f" "pktShape p = Some sh"
      "own_format f" "\<exists>n. sh = \<lparr>Sizes = [n]\<rparr> \<and> 0 < n \<and> n < 2 ^ 15"
      unfolding holds_data_def own_format_def by blast
    show ?thesis using format_item.parse_cons [OF f(3) shape_item.parse_one [OF f(4)]] f(1,2) Some by simp
  qed
  note offset_item.parse_cons [OF TrueI]
  then show ?thesis
  proof (cases "pktTimestamp p")
    case None
    show ?thesis using offset_item.parse_cons [OF TrueI data] by (simp add: tlv_bytes_def tlv_items_def None)
  next
    case (Some ts)
    then have "timestamp_unit (tsRate ts) \<noteq> None" using assms(2) by (simp add: rate_written_def)
    from offset_item.parse_cons [OF TrueI timestamp_item.parse_cons [OF this data]]
    show ?thesis by (simp add: tlv_bytes_def tlv_items_def Some)
  qed
qed

lemma length_tlv_bytes:
  assumes "built p" "rate_written p"
  shows "int (length (tlv_bytes p)) + 16 = uint (headerLength p)"
proof -
  have "length (offset_bytes v) = 8" for v by (simp add: offset_bytes_def)
  moreover have "length (the (timestamp_bytes ts)) = 16" if "pktTimestamp p = Some ts" for ts
    using assms(2) that by (auto simp: rate_written_def timestamp_bytes_eq)
  moreover have "length (format_bytes (the (pktFormat p)) @ shape_bytes (the (pktShape p))) = 16" if "Data p \<noteq> None"
  proof -
    have "holds_data p" using assms(1) that by (auto simp: built_def no_data_def)
    then obtain f n where f: "pktFormat p = Some f" "pktShape p = Some \<lparr>Sizes = [n]\<rparr>" "own_format f"
      unfolding holds_data_def own_format_def by blast
    then show ?thesis using own_format_raw [OF f(3)] by (simp add: format_bytes_def shape_bytes_one)
  qed
  ultimately show ?thesis
    using assms(1) by (auto simp: tlv_bytes_def built_def split: option.splits)
qed

lemma data_bytes_cong: "endian f = endian g \<Longrightarrow> data_bytes f d = data_bytes g d"
  by (simp only: data_bytes_def)

definition fixed_header :: "Packet \<Rightarrow> u8 list" where
  "fixed_header p = [version p, headerLength p] @ be_bytes 2 (uint (payloadLength p))
     @ be_bytes 4 packetMAGIC @ be_bytes 4 (uint (sourceID p)) @ be_bytes 4 (uint (sequenceNumber p))"

lemma PacketBytes_built:
  assumes "built p" "rate_written p"
  shows "\<exists>bs. PacketBytes p = Some (Inr (fixed_header p @ tlv_bytes p @ bs))
    \<and> int (length bs) = uint (payloadLength p)
    \<and> (Data p = None \<longrightarrow> bs = [])
    \<and> (\<forall>d. Data p = Some d \<longrightarrow> (\<forall>rest. read_payload (written_format (the (pktFormat p)))
         (nat (uint (payloadLength p))) (bs @ rest) = Inr (Inr d, rest)))"
proof -
  have h: "header_bytes p = fixed_header p @ offset_bytes (chanOffset p)"
    by (simp add: header_bytes_def fixed_header_def offset_bytes_def)
  have ts: "(case pktTimestamp p of None \<Rightarrow> Some [] | Some ts \<Rightarrow> timestamp_bytes ts)
    = Some (case pktTimestamp p of None \<Rightarrow> [] | Some ts \<Rightarrow> the (timestamp_bytes ts))"
    using assms(2) by (auto simp: rate_written_def timestamp_bytes_eq split: option.splits)
  show ?thesis
  proof (cases "Data p")
    case None
    then have "payloadLength p = 0" using assms(1) by (auto simp: built_def no_data_def holds_data_def)
    then show ?thesis using None h ts by (simp add: PacketBytes_def payload_bytes_def tlv_bytes_def)
  next
    case (Some d)
    then have "holds_data p" using assms(1) by (auto simp: built_def no_data_def)
    then obtain fmt kind wl len sh where f: "data_format d = Some (fmt, kind, wl, len)"
      "pktFormat p = Some \<lparr>endian = Some LittleEndian, rawfmt = ascii fmt, wordlen = wl, nvals = 1, dtype = [kind]\<rparr>"
      "uint (payloadLength p) = wl * len" "pktShape p = Some sh" "go_typed d"
      using Some unfolding holds_data_def by (auto simp del: go_typed.simps)
    let ?f = "\<lparr>endian = Some LittleEndian, rawfmt = ascii fmt, wordlen = wl, nvals = 1, dtype = [kind]\<rparr>"
    obtain bs where bs: "data_bytes (written_format ?f) d = Inr bs" "int (length bs) = wl * len"
      "\<forall>rest. read_payload (written_format ?f) (nat (wl * len)) (bs @ rest) = Inr (Inr d, rest)"
      using data_written [OF f(1,5), of "written_format ?f"] by (auto simp: written_format_def)
    have "data_bytes ?f d = data_bytes (written_format ?f) d"
      by (rule data_bytes_cong) (simp add: written_format_def)
    then show ?thesis using bs f Some h ts
      by (intro exI [of _ bs]) (simp add: PacketBytes_def payload_bytes_def tlv_bytes_def)
  qed
qed

lemma ReadPacket_header:
  assumes "int (length tlvs) + 16 = uint (headerLength p)" "parseTLV tlvs = Inr (Inr items)"
  shows "ReadPacket (fixed_header p @ tlvs @ rest)
    = (let q = foldl add_item
           \<lparr>version = version p, headerLength = headerLength p, payloadLength = payloadLength p,
                    sourceID = sourceID p, sequenceNumber = sequenceNumber p,
                    packetLength = uint (headerLength p) + uint (payloadLength p), pktFormat = None, pktShape = None,
                    pktTimestamp = None, payloadLabel = [], chanOffset = 0, explicitOffset = False,
                    otherTLV = [], Data = None\<rparr> items in
       case pktFormat q of
         None \<Rightarrow> Inr (Inr q, rest)
       | Some f \<Rightarrow>
           if uint (payloadLength p) > 0
           then bind_go (read_payload f (nat (uint (payloadLength p))) rest) (\<lambda>(r, rd).
                  Inr (map_sum id (\<lambda>d. q\<lparr>Data := Some d\<rparr>) r, rd))
           else Inr (Inr q, rest))"
proof -
  have hl: "\<not> headerLength p < 16" "length tlvs = unat (headerLength p - 16)"
  proof -
    have "16 \<le> uint (headerLength p)" using assms(1) by simp
    then have le: "(16 :: u8) \<le> headerLength p" by (simp add: word_le_def)
    then show "\<not> headerLength p < 16" by simp
    have "uint (headerLength p - 16) = uint (headerLength p) - 16"
      using le by (simp add: uint_minus_simple_alt [THEN iffD1])
    then show "length tlvs = unat (headerLength p - 16)" using assms(1) by (simp add: unat_eq_nat_uint)
  qed
  have rf: "ReadFull 16 (fixed_header p @ tlvs @ rest) = (Inr (fixed_header p), tlvs @ rest)"
    "ReadFull (unat (headerLength p - 16)) (tlvs @ rest) = (Inr tlvs, rest)"
    using hl(2) ReadFull_append [of "fixed_header p" 16] by (simp_all add: ReadFull_append fixed_header_def)
  have ix: "idx (fixed_header p) 0 = Inr (version p)" "idx (fixed_header p) 1 = Inr (headerLength p)"
    by (simp_all add: fixed_header_def)
  have gb: "get_be 2 2 (fixed_header p) = Inr (uint (payloadLength p))"
    "get_be 4 4 (fixed_header p) = Inr packetMAGIC"
    "get_be 4 8 (fixed_header p) = Inr (uint (sourceID p))"
    "get_be 4 12 (fixed_header p) = Inr (uint (sequenceNumber p))"
    by (simp_all add: fixed_header_def packetMAGIC_def)
  show ?thesis
    by (simp add: ReadPacket_def rf ix gb hl(1) assms(2) Let_def)
qed

lemma read_back:
  assumes b: "built p" and rate: "rate_written p"
  shows "\<exists>bs. PacketBytes p = Some (Inr bs)
    \<and> int (length bs) = uint (headerLength p) + uint (payloadLength p)
    \<and> (\<forall>rest. ReadPacket (bs @ rest) = Inr (Inr (received_packet p), rest))"
proof -
  obtain bs where bs: "PacketBytes p = Some (Inr (fixed_header p @ tlv_bytes p @ bs))"
    "int (length bs) = uint (payloadLength p)" "Data p = None \<longrightarrow> bs = []"
    "\<forall>d. Data p = Some d \<longrightarrow> (\<forall>rest. read_payload (written_format (the (pktFormat p)))
         (nat (uint (payloadLength p))) (bs @ rest) = Inr (Inr d, rest))"
    using PacketBytes_built [OF b rate] by (elim exE conjE) (rule that)
  have len: "int (length (fixed_header p)) = 16" by (simp add: fixed_header_def)
  define q0 where "q0 = \<lparr>version = version p, headerLength = headerLength p, payloadLength = payloadLength p,
                    sourceID = sourceID p, sequenceNumber = sequenceNumber p,
                    packetLength = uint (headerLength p) + uint (payloadLength p), pktFormat = None, pktShape = None,
                    pktTimestamp = None, payloadLabel = [], chanOffset = 0, explicitOffset = False,
                    otherTLV = [], Data = None\<rparr>"
  note rd = ReadPacket_header [OF length_tlv_bytes [OF b rate] parse_tlv_bytes [OF b rate],
      folded q0_def]
  have items: "foldl add_item q0 (tlv_items p)
    = (received_packet p)\<lparr>Data := None\<rparr>"
  proof -
    have "pktFormat p \<noteq> None \<and> pktShape p \<noteq> None" if "Data p \<noteq> None"
      using b that by (auto simp: built_def no_data_def holds_data_def)
    moreover have "pktFormat p = None \<and> pktShape p = None" if "Data p = None"
      using b that by (auto simp: built_def no_data_def holds_data_def)
    moreover have "payloadLabel p = []" "otherTLV p = []" using b by (auto simp: built_def)
    ultimately show ?thesis
      by (cases p) (auto simp: tlv_items_def received_packet_def add_item_def q0_def split: option.splits)
  qed
  have "ReadPacket (fixed_header p @ tlv_bytes p @ bs @ rest) = Inr (Inr (received_packet p), rest)" for rest
  proof (cases "Data p")
    case None
    then have "pktFormat p = None" using b by (auto simp: built_def no_data_def holds_data_def)
    then have "pktFormat (foldl add_item q0 (tlv_items p)) = None" by (simp add: items received_packet_def)
    then show ?thesis using rd [of "bs @ rest"] None bs(3) items
      by (simp add: received_packet_def Let_def)
  next
    case (Some d)
    then obtain f where f: "pktFormat p = Some f" using b by (auto simp: built_def no_data_def holds_data_def)
    then have qf: "pktFormat (foldl add_item q0 (tlv_items p)) = Some (written_format f)"
      by (simp add: items received_packet_def)
    show ?thesis
    proof (cases "payloadLength p = 0")
      case True
      then have "bs = []" using bs(2) by simp
      then show ?thesis using rd [of "bs @ rest"] f True by (simp add: items received_packet_def Let_def)
    next
      case False
      then have "uint (payloadLength p) > 0" by (metis uint_0_iff uint_ge_0 order_le_less)
      then show ?thesis using rd [of "bs @ rest"] qf f Some bs(4) False
        by (simp add: items received_packet_def Let_def)
    qed
  qed
  then show ?thesis using bs(1,2) len length_tlv_bytes [OF b rate]
    by (intro exI [of _ "fixed_header p @ tlv_bytes p @ bs"]) simp
qed

text \<open>
  C22: What is built can be sent.  Take any sequence of successful operations on a new packet, with payloads of
  fewer than 2^16 bytes and sizes between 1 and 2^15 - 1, and let a timestamp have a clock rate for which \<open>Bytes\<close>
  returns (it does not for a rate of 0).  Then \<open>Bytes\<close> returns exactly header and payload of the stated
  lengths, and \<open>ReadPacket\<close> takes these bytes off the stream and returns a packet with the same version, source,
  sequence number, header and payload lengths, channel offset, shape, time and data (none, if the payload is empty).
  It differs in four fields: the channel offset is marked as explicit; \<open>packetLength\<close> is the sum of
  the lengths; the format string has four zero bytes after it; and the clock rate is the one that was written,
  10^11 times denominator over numerator, which is the sender's rounded for rates of 1.53 MHz or more, and at least
  about four times too high for rates from 47 Hz to 1.53 MHz (\<open>slow_clock_rate_wrong\<close>).
\<close>

theorem packet_round_trip:
  assumes "packet_ops es (NewPacket v src sn off) = Some p" "\<forall>e\<in>set es. op_fits e" "rate_written p"
  shows "\<exists>bs. PacketBytes p = Some (Inr bs)
    \<and> int (length bs) = uint (headerLength p) + uint (payloadLength p)
    \<and> (\<forall>rest. ReadPacket (bs @ rest) = Inr (Inr (received_packet p), rest))"
  using read_back [OF packet_ops_built [OF assms(1,2) built_new] assms(3)] .

subsection \<open>The parser never panics\<close>

lemma swap_groups_total: "Suc k dvd length bs \<Longrightarrow> \<exists>r. swap_groups k bs = Inr r \<and> length r = length bs"
proof (induction k bs rule: swap_groups.induct)
  case (2 k b bs)
  then have le: "Suc k \<le> length (b # bs)" by (intro dvd_imp_le) simp_all
  have "length (drop k bs) = length (b # bs) - Suc k" by simp
  then have "Suc k dvd length (drop k bs)" using 2(2) le by (simp only: dvd_diff_nat dvd_refl)
  then obtain r where "swap_groups k (drop k bs) = Inr r" "length r = length (drop k bs)"
    using 2(1) le by (auto simp: not_less)
  then show ?case using le by auto
qed simp

lemma byteSwap2_total:
  assumes "nb \<in> {2, 4, 8}" "nat nb dvd length bs"
  shows "\<exists>r. byteSwap2 bs nb = Inr (Inr r) \<and> length r = length bs"
proof -
  have "Suc (nat nb - 1) = nat nb" using assms(1) by auto
  then obtain r where "swap_groups (nat nb - 1) bs = Inr r" "length r = length bs"
    using swap_groups_total [of "nat nb - 1" bs] assms(2) by auto
  then show ?thesis using assms(1) by (auto simp: byteSwap2_def)
qed

lemma ByteSwap_total: "\<exists>r. ByteSwap d = Inr r"
proof -
  have sw: "\<exists>r. swapped view b nb = Inr r" if "nb \<in> {2, 4, 8}" "nat nb dvd length b" for view b nb
    using byteSwap2_total [OF that] by (auto simp: swapped_def)
  show ?thesis
    by (cases d)
      (auto intro!: sw simp: FromSliceInt16_def FromSliceUint16_def FromSliceInt32_def FromSliceUint32_def
        FromSliceInt64_def FromSliceUint64_def slice_bytes_eq codec_i16.length_enc_all codec_u16.length_enc_all
        codec_i32.length_enc_all codec_u32.length_enc_all codec_i64.length_enc_all codec_u64.length_enc_all)
qed

lemma shape_loop_total:
  assumes "tlvsize \<le> length data" "even tlvsize"
  shows "\<exists>r. shape_loop data tlvsize = Inr r"
proof -
  have "\<exists>t. foldM_go (\<lambda>sizes i. bind_go (get_be 2 i data)
      (\<lambda>d. let d = to_int16 d in Inr (if d > 0 then sizes @ [d] else sizes))) []
      (map (\<lambda>k. 2 + 2 * k) [0..<(tlvsize - 2 + 1) div 2]) = Inr t \<and> True"
  proof (rule foldM_go_total [where I = "\<lambda>_. True"])
    fix sizes :: "int list" and i
    assume "i \<in> set (map (\<lambda>k. 2 + 2 * k) [0..<(tlvsize - 2 + 1) div 2])"
    then have "i + 2 \<le> length data" using assms by (auto elim!: evenE)
    then obtain x where "get_be 2 i data = Inr x" using get_be_total by blast
    then show "\<exists>s'. bind_go (get_be 2 i data)
      (\<lambda>d. let d = to_int16 d in Inr (if d > 0 then sizes @ [d] else sizes)) = Inr s' \<and> True"
      by (simp add: Let_def)
  qed simp
  then show ?thesis by (simp add: shape_loop_def)
qed

lemma idx_total: "0 \<le> i \<Longrightarrow> i < int (length xs) \<Longrightarrow> \<exists>x. idx xs i = Inr x"
  by simp

lemma parse_item_total:
  assumes "8 \<le> tlvsize" "tlvsize \<le> length data" "even tlvsize"
  shows "\<exists>r. parse_item data t tlvsize = Inr r"
proof -
  have g: "\<exists>x. get_be n k data = Inr x" if "k + n \<le> 8" for n k
    using get_be_total [of k n data] that assms by simp
  obtain x2 x4 y where x: "get_be 2 2 data = Inr x2" "get_be 4 4 data = Inr x4"
    using g [of 2 2] g [of 4 4] by auto
  have sl: "slice_go data 2 (int tlvsize) = Inr (take (nat (int tlvsize - 2)) (drop (nat 2) data))"
    using assms by (intro slice_go_in) simp_all
  have ts: "\<exists>r. timestamp_tlv data = Inr r" if "16 \<le> tlvsize"
  proof -
    have "8 + 8 \<le> length data" using that assms(2) by linarith
    then obtain e where e: "get_be 8 8 data = Inr e" using get_be_total by blast
    obtain a b c d where "idx data 2 = Inr a" "idx data 3 = Inr b" "get_be 2 4 data = Inr c" "get_be 2 6 data = Inr d"
      using idx_total [of 2 data] idx_total [of 3 data] g [of 4 2] g [of 6 2] that assms by auto
    note this e
    then show ?thesis by (simp add: timestamp_tlv_def)
  qed
  obtain sh where sh: "shape_loop data tlvsize = Inr sh" using shape_loop_total assms by blast
  show ?thesis using ts sl sh by (auto simp: parse_item_def x Let_def not_less)
qed

lemma parseTLV_total: "\<exists>r. parseTLV data = Inr r"
proof (induction data rule: parseTLV.induct)
  case (1 data)
  show ?case
  proof (cases "data = [] \<or> length data < 8 \<or> length data < 8 * unat (data ! 1) \<or> unat (data ! 1) = 0")
    case True
    then show ?thesis by (subst parseTLV.simps) (auto simp: Let_def)
  next
    case False
    define n where "n = 8 * unat (data ! 1)"
    have n: "8 \<le> n" "n \<le> length data" "even n" using False by (auto simp: n_def)
    obtain r where r: "parse_item data (data ! 0) n = Inr r" using parse_item_total [OF n] by blast
    have ne: "data \<noteq> []" "\<not> length data < 8" "\<not> n > length data" "n \<noteq> 0" using False n by auto
    have "parseTLV data = bind_go (parse_item data (data ! 0) n) (\<lambda>r. case r of
            Inl e \<Rightarrow> Inr (Inl e)
          | Inr item \<Rightarrow> bind_go (parseTLV (drop n data)) (\<lambda>rest.
              Inr (map_sum id (\<lambda>l. (case item of None \<Rightarrow> l | Some v \<Rightarrow> v # l)) rest)))"
      by (subst parseTLV.simps) (simp only: Let_def ne if_False n_def [symmetric])
    moreover have "\<exists>s. parseTLV (drop n data) = Inr s" if "r = Inr item" for item
      by (rule 1 [OF ne(1,2) refl n_def]) (use ne(3,4) r that in auto)
    ultimately show ?thesis by (cases r) (auto simp: r)
  qed
qed

lemma ReadFull_cases:
  obtains a b where "ReadFull n rd = (Inr a, b)" "suffix b rd" "length a = n"
  | e b where "ReadFull n rd = (Inl e, b)" "suffix b rd"
  by (cases "n \<le> length rd"; cases "rd = []") (auto simp: ReadFull_def suffix_drop)

lemma read_ints_total: "\<exists>r rest. read_ints f n view rd = Inr (r, rest) \<and> suffix rest rd"
proof (cases rule: ReadFull_cases [of n rd])
  case (1 a b)
  then show ?thesis using ByteSwap_total [of "view a"] by (auto simp: read_ints_def)
qed (auto simp: read_ints_def)

lemma read_payload_total: "\<exists>r rest. read_payload f n rd = Inr (r, rest) \<and> suffix rest rd"
proof (cases rule: ReadFull_cases [of n rd])
  case (1 a b)
  then show ?thesis using read_ints_total by (auto simp: read_payload_def Let_def)
next
  case (2 e b)
  then show ?thesis using read_ints_total by (auto simp: read_payload_def Let_def)
qed

text \<open>
  C23: No input makes the parser panic: on every byte stream \<open>ReadPacket\<close> returns a packet or an
  error, and what is left of the stream is a suffix of it.
\<close>

theorem packet_parser_total:
  "\<exists>r rest. ReadPacket stream = Inr (r, rest) \<and> suffix rest stream"
proof (cases rule: ReadFull_cases [of 16 stream])
  case (1 hdr rd)
  have g: "\<exists>x. get_be n k hdr = Inr x" if "k + n \<le> 16" for n k
    using get_be_total [of k n hdr] that 1 by simp
  obtain v h pl m sr sq where x: "idx hdr 0 = Inr v" "idx hdr 1 = Inr h" "get_be 2 2 hdr = Inr pl"
    "get_be 4 4 hdr = Inr m" "get_be 4 8 hdr = Inr sr" "get_be 4 12 hdr = Inr sq"
    using idx_total [of 0 hdr] idx_total [of 1 hdr] g [of 2 2] g [of 4 4] g [of 8 4] g [of 12 4] 1(3) by auto
  show ?thesis
  proof (cases rule: ReadFull_cases [of "unat (h - 16)" rd])
    case one: (1 tlvs rd2)
    obtain r where r: "parseTLV tlvs = Inr r" using parseTLV_total by blast
    have sf: "suffix rd2 stream" using 1(2) one(2) suffix_order.trans by blast
    show ?thesis
    proof (cases r)
      case (Inl e)
      then show ?thesis using sf 1 one by (auto simp: ReadPacket_def x r Let_def)
    next
      case (Inr items)
      have rp: "\<exists>a b. read_payload f (nat pl) rd2 = Inr (a, b) \<and> suffix b stream" for f
        using read_payload_total sf suffix_order.trans by metis
      let ?q = "foldl add_item \<lparr>version = v, headerLength = h, payloadLength = word_of_int pl,
                    sourceID = word_of_int sr, sequenceNumber = word_of_int sq,
                    packetLength = uint h + pl, pktFormat = None, pktShape = None,
                    pktTimestamp = None, payloadLabel = [], chanOffset = 0, explicitOffset = False,
                    otherTLV = [], Data = None\<rparr> items"
      have eq: "ReadPacket stream = (if h < 16 then Inr (Inl HeaderTooShort, rd)
          else if m \<noteq> packetMAGIC then Inr (Inl BadMagic, rd)
          else case pktFormat ?q of None \<Rightarrow> Inr (Inr ?q, rd2)
            | Some f \<Rightarrow> if pl > 0 then bind_go (read_payload f (nat pl) rd2) (\<lambda>(r, rd).
                                   Inr (map_sum id (\<lambda>d. ?q\<lparr>Data := Some d\<rparr>) r, rd))
                else Inr (Inr ?q, rd2))"
        by (simp only: ReadPacket_def 1(1) one(1) x r Inr Let_def bind_go_simps prod.case sum.case)
          (simp only: if_distrib)?
      show ?thesis
      proof (cases "pktFormat ?q")
        case None
        then show ?thesis using sf 1(2) by (simp add: eq)
      next
        case (Some f)
        obtain a b where "read_payload f (nat pl) rd2 = Inr (a, b)" "suffix b stream" using rp by blast
        then show ?thesis using sf 1(2) Some by (simp add: eq)
      qed
    qed
  next
    case (2 e rd2)
    then have "suffix rd2 stream" using 1(2) suffix_order.trans by blast
    then show ?thesis using 1 2 by (auto simp: ReadPacket_def x Let_def)
  qed
next
  case (2 e b)
  then show ?thesis by (auto simp: ReadPacket_def)
qed

subsection \<open>Big-endian payloads\<close>

text \<open>
  For integers every byte string of the right length is the encoding of a number.  Then the numbers
  seen through a view of any bytes give these bytes back, and swapping each group of a big-endian
  payload gives the little-endian one.
\<close>

locale full_codec = byte_codec +
  assumes enc_dec: "length bs = width \<Longrightarrow> enc (dec bs) = bs"
begin

lemma enc_all_dec: "length bs = width * n \<Longrightarrow> concat (map enc (dec_all n bs)) = bs"
  by (induction n arbitrary: bs) (simp_all add: enc_dec)

lemma swap_groups_enc: "swap_groups (width - 1) (concat (map (rev \<circ> enc) d)) = Inr (concat (map enc d))"
proof (induction d)
  case (Cons x d)
  obtain b bs where b: "rev (enc x) = b # bs"
    using enc_length [of x] width_pos by (cases "rev (enc x)") auto
  then have w: "width = Suc (length bs)" using enc_length [of x] by (metis length_Cons length_rev)
  have "enc x = rev (b # bs)" using b by (metis rev_rev_ident)
  then show ?case using Cons by (simp add: b w)
qed simp

lemma length_be_all: "length (concat (map (rev \<circ> enc) d)) = width * length d"
  by (induction d) (simp_all add: enc_length)

lemma swapped_view:
  assumes "\<forall>x\<in>set d. ok x" "width \<in> {2, 4, 8}"
  defines "be \<equiv> concat (map (rev \<circ> enc) d)"
  shows "swapped (\<lambda>b. C (dec_all (length b div width) b)) (concat (map enc (dec_all (length be div width) be))) (int width)
    = Inr (Inr (C d))"
proof -
  have "length be = width * length d" by (simp add: be_def length_be_all)
  then have "concat (map enc (dec_all (length be div width) be)) = be"
    using width_pos by (simp add: enc_all_dec)
  moreover have "byteSwap2 be (int width) = Inr (Inr (concat (map enc d)))"
    using assms(2) swap_groups_enc [of d] by (auto simp: byteSwap2_def be_def)
  moreover have "dec_all (length (concat (map enc d)) div width) (concat (map enc d)) = d"
    using dec_all_enc [OF assms(1), of "[]"] width_pos by (simp add: length_enc_all)
  ultimately show ?thesis by (simp add: swapped_def)
qed

end

lemma le_bytes_mod: "le_bytes n (i mod 256 ^ n) = le_bytes n i"
proof (induction n arbitrary: i)
  case (Suc n)
  have "i mod 256 ^ Suc n div 256 = i div 256 mod 256 ^ n"
    using zmod_zmult2_eq [of "256 ^ n" i 256] by (simp add: mult.commute)
  moreover have "(word_of_int (i mod 256 ^ Suc n) :: u8) = word_of_int i"
  proof (rule word_uint_eqI)
    have "(256 :: int) dvd 256 ^ Suc n" by simp
    then have "i mod 256 ^ Suc n mod 256 = i mod 256" by (rule mod_mod_cancel)
    then show "uint (word_of_int (i mod 256 ^ Suc n) :: u8) = uint (word_of_int i :: u8)"
      by (simp add: uint_word_of_int)
  qed
  ultimately show ?case using Suc by simp
qed simp

lemma le_bytes_of_le: "length bs = n \<Longrightarrow> le_bytes n (of_le bs) = bs"
proof (induction n arbitrary: bs)
  case (Suc n)
  then obtain b cs where b: "bs = b # cs" "length cs = n" by (cases bs) auto
  have u: "0 \<le> uint b" "uint b < 256" using uint_lt2p [of b] by simp_all
  then have "uint (word_of_int (uint b + 256 * of_le cs) :: u8) = uint b"
    by (simp add: uint_word_of_int del: of_int_add of_int_mult)
  then have "(word_of_int (uint b + 256 * of_le cs) :: u8) = b" by (rule word_uint_eqI)
  then show ?case using Suc.IH [OF b(2)] u by (simp add: b del: of_int_add of_int_mult)
qed simp

lemma le_bytes_signed: "length bs = n \<Longrightarrow> le_bytes n (signed_of_le bs) = bs"
proof -
  assume len: "length bs = n"
  have "signed_of_le bs mod 256 ^ n = of_le bs mod 256 ^ n"
    by (simp add: signed_of_le_def Let_def len)
  then have "le_bytes n (signed_of_le bs) = le_bytes n (of_le bs)" using le_bytes_mod by metis
  then show ?thesis using le_bytes_of_le [OF len] by simp
qed

interpretation full_i16: full_codec FromInt16 signed_of_le 2 "int_in 2"
  by unfold_locales (simp add: FromInt16_def le_bytes_signed)

interpretation full_i32: full_codec FromInt32 signed_of_le 4 "int_in 4"
  by unfold_locales (simp add: FromInt32_def le_bytes_signed)

interpretation full_i64: full_codec FromInt64 signed_of_le 8 "int_in 8"
  by unfold_locales (simp add: FromInt64_def le_bytes_signed)

text \<open>
  The parser's byte swapping is right: a payload of 16, 32 or 64-bit integers written in
  big-endian order (by any sender whose format item says so) is read back as these integers, and
  the stream goes on behind them.
\<close>

theorem big_endian_payload:
  assumes "endian f = Some BigEndian" "go_typed d" "dtype f = [kind]" "data_format d = Some (fmt, kind, wl, len)"
  shows "read_payload f (nat (wl * len)) (binary_write BigEndian d @ rest) = Inr (Inr d, rest)"
proof -
  have put: "put_order BigEndian \<circ> enc = rev \<circ> enc" for enc :: "int \<Rightarrow> u8 list"
    by (simp add: put_order_def comp_def)
  show ?thesis
  proof (cases d)
    case (Int16s x)
    then have "ByteSwap (Int16s (view16 (concat (map (rev \<circ> FromInt16) x)))) = Inr (Inr (Int16s x))"
      using full_i16.swapped_view [of x Int16s] assms(2)
      by (simp add: view16_def [abs_def] FromSliceInt16_def slice_bytes_eq)
    then show ?thesis using assms Int16s full_i16.length_be_all [of x]
      by (auto simp: read_payload_def read_ints_def ReadFull_append put nat_mult_distrib)
  next
    case (Int32s x)
    then have "ByteSwap (Int32s (view32 (concat (map (rev \<circ> FromInt32) x)))) = Inr (Inr (Int32s x))"
      using full_i32.swapped_view [of x Int32s] assms(2)
      by (simp add: view32_def [abs_def] FromSliceInt32_def slice_bytes_eq)
    then show ?thesis using assms Int32s full_i32.length_be_all [of x]
      by (auto simp: read_payload_def read_ints_def ReadFull_append put nat_mult_distrib)
  next
    case (Int64s x)
    then have "ByteSwap (Int64s (view64 (concat (map (rev \<circ> FromInt64) x)))) = Inr (Inr (Int64s x))"
      using full_i64.swapped_view [of x Int64s] assms(2)
      by (simp add: view64_def [abs_def] FromSliceInt64_def slice_bytes_eq)
    then show ?thesis using assms Int64s full_i64.length_be_all [of x]
      by (auto simp: read_payload_def read_ints_def ReadFull_append put nat_mult_distrib)
  qed (use assms(4) in simp_all)
qed

subsection \<open>The clock rate\<close>

lemma r64_parts:
  assumes "r64 x = Fin y" "0 < y"
  shows "\<exists>m u. y = of_int m * 2 powi u \<and> 0 < m \<and> m \<le> 2 ^ 53 \<and> (u = - 1074 \<or> 2 ^ 52 \<le> m)"
proof -
  have y: "round_bin 53 (- 1074) x = y" using assms(1) by (auto simp: r64_def pack_float_def split: if_splits)
  have x0: "0 < x"
  proof (rule ccontr)
    assume "\<not> 0 < x"
    then have "round_bin 53 (- 1074) x \<le> round_bin 53 (- 1074) 0" by (intro round_bin_mono) simp_all
    then show False using y assms(2) by (simp add: round_bin_def [of _ _ 0] round_mag_def)
  qed
  define u where "u = ulp_exp 53 (- 1074) x"
  define m where "m = rne (x / 2 powi u)"
  have ym: "y = of_int m * 2 powi u" using x0 y by (simp add: round_bin_def round_mag_def Let_def m_def u_def)
  have "0 < of_int m * (2 :: rat) powi u" using assms(2) ym by simp
  then have "0 < (of_int m :: rat)" using powi2_pos by (rule zero_less_mult_pos2)
  then have m0: "0 < m" by simp
  have "x < 2 powi (ilog2 x + 1)" using ilog2_bounds(2) [OF x0] .
  also have "\<dots> \<le> 2 powi (53 + u)" by (intro powi2_mono) (simp add: u_def ulp_exp_def)
  finally have "x / 2 powi u \<le> of_int (2 ^ 53)" by (simp add: powi2_add divide_le_eq)
  then have "rne (x / 2 powi u) \<le> rne (of_int (2 ^ 53))" by (rule rne_mono)
  then have m1: "m \<le> 2 ^ 53" unfolding rne_of_int m_def .
  have "u = - 1074 \<or> 2 ^ 52 \<le> m"
  proof (cases "u = - 1074")
    case False
    then have "u + 52 = ilog2 x" by (auto simp: u_def ulp_exp_def)
    then have "2 powi (52 + u) \<le> x" using ilog2_bounds(1) [OF x0] by (simp add: add.commute)
    then have "of_int (2 ^ 52) \<le> x / 2 powi u" by (simp add: powi2_add le_divide_eq)
    then have "rne (of_int (2 ^ 52)) \<le> m" unfolding m_def by (rule rne_mono)
    then show ?thesis unfolding rne_of_int by simp
  qed simp
  then show ?thesis using ym m0 m1 by blast
qed

lemma halve_exact:
  assumes "q = of_int m * 2 powi u" "0 < m" "m < 2 ^ 53" "int k - 1000 \<le> u" "u \<le> 900" "q \<le> 65535 * 2 ^ k"
  shows "\<exists>j\<le>k. halve_period (Fin q) d = Some (Fin (q / 2 ^ j), d * 2 ^ j) \<and> q / 2 ^ j \<le> 65535
    \<and> (j = 0 \<or> 65535 < 2 * (q / 2 ^ j))"
  using assms
proof (induction k arbitrary: q u d)
  case 0
  then show ?case by (subst halve_period.simps) simp
next
  case (Suc k)
  show ?case
  proof (cases "q \<le> 65535")
    case True
    then show ?thesis by (subst halve_period.simps) auto
  next
    case False
    have h: "q * (1 / 2) = of_int m * 2 powi (u - 1)"
      using Suc.prems(1) powi2_add [of u "- 1"] by simp
    then have r: "r64 (q * (1 / 2)) = Fin (q / 2)"
      using r64_exact [of m "u - 1"] Suc.prems(2-5) by simp
    have "\<exists>j\<le>k. halve_period (Fin (q / 2)) (d * 2) = Some (Fin (q / 2 / 2 ^ j), d * 2 * 2 ^ j)
      \<and> q / 2 / 2 ^ j \<le> 65535 \<and> (j = 0 \<or> 65535 < 2 * (q / 2 / 2 ^ j))"
      by (rule Suc.IH [of "q / 2" "u - 1"]) (use h Suc.prems in simp_all)
    then obtain j where j: "j \<le> k" "halve_period (Fin (q / 2)) (d * 2) = Some (Fin (q / 2 / 2 ^ j), d * 2 * 2 ^ j)"
      "q / 2 / 2 ^ j \<le> 65535" "j = 0 \<or> 65535 < 2 * (q / 2 / 2 ^ j)" by blast
    have "65535 < 2 * (q / 2 / 2 ^ j)" using j(4)
    proof
      assume "j = 0"
      then show ?thesis using False by simp
    qed
    moreover have "halve_period (Fin q) d = halve_period (Fin (q / 2)) (d * 2)"
      using False r by (subst halve_period.simps) simp
    ultimately show ?thesis using j(1-3) by (intro exI [of _ "Suc j"]) (simp add: mult.assoc)
  qed
qed

lemma Pow10_11: "Pow10 11 = Fin 100000000000"
  using f64_of_int_exact [of 100000000000] f64_of_int_exact [of 1]
  by (simp add: Pow10_def f64_of_int_def)

lemma round_num:
  assumes "0 \<le> q" "q \<le> 65535"
  shows "\<bar>of_int (uint (word_of_int (int_of_f64 (fround (Fin q))) :: 16 word)) - q\<bar> \<le> 1 / 2"
proof -
  define n where "n = \<lfloor>q + 1 / 2\<rfloor>"
  have n: "0 \<le> n" "n \<le> 65535" using assms by (simp_all add: n_def le_floor_iff floor_le_iff)
  have "int_of_f64 (fround (Fin q)) = n"
    using n assms(1) by (simp add: Let_def flip: n_def)
  moreover have "uint (word_of_int n :: 16 word) = n" using n by (simp add: uint_word_of_int)
  moreover have "\<bar>of_int n - q\<bar> \<le> 1 / 2" unfolding n_def by linarith
  ultimately show ?thesis by simp
qed

text \<open>
  The clock period of a timestamp (in units of 10 ps, up to 21 ms) is sent as a fraction of two
  16-bit numbers.  A period that fits 16 bits, a rate of 1.53 MHz or more, is sent rounded to the
  nearest unit over 1.  For a longer period the code halves the numerator and doubles the
  denominator at the same time, so that the fraction sent is the period divided by the square of the
  denominator: the receiver sees a clock that is at least four times too fast.
\<close>

theorem slow_clock_rate_wrong:
  assumes "fdiv r64 (Pow10 11) rate = Fin period" "0 < period" "period \<le> 65535 * 2 ^ 15"
  shows "\<exists>num denom j. timestamp_unit rate = Some (num, denom) \<and> uint denom = 2 ^ j
    \<and> (j = 0 \<longleftrightarrow> period \<le> 65535)
    \<and> \<bar>of_int (uint num) / of_int (uint denom) - period / of_int ((uint denom)\<^sup>2)\<bar> \<le> 1 / (2 * of_int (uint denom))"
proof -
  have "\<exists>j\<le>15. halve_period (Fin period) 1 = Some (Fin (period / 2 ^ j), 2 ^ j) \<and> period / 2 ^ j \<le> 65535
      \<and> (j = 0 \<longleftrightarrow> period \<le> 65535)"
  proof (cases "period \<le> 65535")
    case True
    then show ?thesis by (intro exI [of _ 0], subst halve_period.simps) simp
  next
    case False
    have "\<exists>x. r64 x = Fin period"
      using assms(1) False by (cases rate) (auto simp: Pow10_11 finf_def split: if_splits)
    then obtain m u where m: "period = of_int m * 2 powi u" "0 < m" "m \<le> 2 ^ 53" "u = - 1074 \<or> 2 ^ 52 \<le> m"
      using r64_parts assms(2) by blast
    have hi: "u \<le> - 20"
    proof (cases "u = - 1074")
      case False
      then have "of_int (2 ^ 52) * 2 powi u \<le> period" using m(1,4) by (simp only: m(1)) (intro mult_right_mono, simp_all)
      then have "(2 :: rat) powi (52 + u) < 2 powi 32" using assms(3) by (simp add: powi2_add)
      then have "52 + u < 32" by (metis not_le powi2_mono)
      then show ?thesis by simp
    qed simp
    have lo: "- 40 \<le> u"
    proof (rule ccontr)
      assume "\<not> - 40 \<le> u"
      then have "(2 :: rat) powi u \<le> 2 powi (- 40)" by (intro powi2_mono) simp
      moreover have "(of_int m :: rat) \<le> of_int (2 ^ 53)" using m(3) by (simp only: of_int_le_iff)
      ultimately have "period \<le> of_int (2 ^ 53) * 2 powi (- 40)" unfolding m(1) using m(2) by (intro mult_mono) simp_all
      then show False using False by (simp add: power_int_minus)
    qed
    have "\<exists>m' u'. period = of_int m' * 2 powi u' \<and> 0 < m' \<and> m' < 2 ^ 53 \<and> - 40 \<le> u' \<and> u' \<le> 33"
    proof (cases "m = 2 ^ 53")
      case True
      then have "period = of_int 1 * 2 powi (53 + u)" using m(1) by (simp add: powi2_add)
      then show ?thesis using hi lo by (intro exI [of _ 1] exI [of _ "53 + u"]) simp
    next
      case False
      then show ?thesis using m hi lo by (intro exI [of _ m] exI [of _ u]) simp
    qed
    then obtain m' u' where m': "period = of_int m' * 2 powi u'" "0 < m'" "m' < 2 ^ 53" "- 40 \<le> u'" "u' \<le> 33"
      by blast
    obtain j where j: "j \<le> 15" "halve_period (Fin period) 1 = Some (Fin (period / 2 ^ j), 1 * 2 ^ j)"
      "period / 2 ^ j \<le> 65535"
      using halve_exact [OF m'(1-3), of 15 1] m'(4,5) assms(3) by auto
    then have "j \<noteq> 0" using False by (auto intro: Nat.gr0I)
    then show ?thesis using j False by auto
  qed
  then obtain j where j: "j \<le> 15" "halve_period (Fin period) 1 = Some (Fin (period / 2 ^ j), 2 ^ j)"
    "period / 2 ^ j \<le> 65535" "j = 0 \<longleftrightarrow> period \<le> 65535" by blast
  define num :: "16 word" where "num = word_of_int (int_of_f64 (fround (Fin (period / 2 ^ j))))"
  have unit: "timestamp_unit rate = Some (num, 2 ^ j)"
    using j(2) by (simp add: timestamp_unit_def assms(1) num_def)
  have n: "\<bar>of_int (uint num) - period / 2 ^ j\<bar> \<le> 1 / 2"
    unfolding num_def using assms(2) j(3) by (intro round_num) simp_all
  have "(2 :: int) ^ j \<le> 2 ^ 15" using j(1) by (intro power_increasing) simp_all
  then have "(2 :: int) ^ j mod 2 ^ LENGTH(16) = 2 ^ j" by (intro mod_pos_pos_trivial) simp_all
  moreover have "(2 ^ j :: 16 word) = word_of_int (2 ^ j)" by simp
  ultimately have d: "uint (2 ^ j :: 16 word) = 2 ^ j" by (simp only: uint_word_of_int)
  have "of_int (uint num) / 2 ^ j - period / (2 ^ j)\<^sup>2 = (of_int (uint num) - period / 2 ^ j) / 2 ^ j"
    by (simp add: field_simps power2_eq_square)
  then have "\<bar>of_int (uint num) / 2 ^ j - period / (2 ^ j)\<^sup>2\<bar> \<le> 1 / (2 * 2 ^ j)"
    using n by (simp add: divide_le_eq abs_divide)
  then show ?thesis using unit d j(4) by (intro exI [of _ num] exI [of _ "2 ^ j"] exI [of _ j]) simp
qed

lemma halve_infinite:
  assumes "halve_period p d = Some y"
  shows "p \<noteq> PInf"
proof (rule halve_period.raw_induct [OF _ assms, where P = "\<lambda>p _ _. p \<noteq> PInf"])
  fix rec :: "go_float \<Rightarrow> 16 word \<Rightarrow> (go_float \<times> 16 word) option" and p d y
  assume ih: "\<And>p d y. rec p d = Some y \<Longrightarrow> p \<noteq> PInf"
    and e: "(if flt (Fin 65535) p then rec (fmul r64 p (Fin (1 / 2))) (d * 2) else Some (p, d)) = Some y"
  show "p \<noteq> PInf"
  proof
    assume "p = PInf"
    then have "rec PInf (d * 2) = Some y" using e by (simp add: finf_def fsgn_def)
    from ih [OF this] show False by simp
  qed
qed

text \<open>
  A timestamp with a zero denominator and the writer's own exponent is accepted by the parser and
  has rate 0; \<open>Bytes\<close> of any packet that carries such a timestamp never returns: the period is
  infinite and halving it changes nothing.
\<close>

theorem zero_rate_never_returns:
  assumes "timestamp_tlv data = Inr (Inr ts)" "get_be 2 6 data = Inr 0" "get_be 2 4 data = Inr num" "num \<noteq> 0"
    "idx data 3 = Inr (word_of_int (- 11))" "pktTimestamp p = Some ts"
  shows "PacketBytes p = None"
proof -
  obtain a e where "idx data 2 = Inr a" "get_be 8 8 data = Inr e"
    using assms(1,2,3,5) by (auto simp: timestamp_tlv_def bind_go_Inr_iff)
  then have "tsRate ts = fmul r64 (fdiv r64 (f64_of_int 0) (f64_of_int num)) (Pow10 11)"
    using assms(1,2,3,5) by (auto simp: timestamp_tlv_def split: if_splits)
  moreover have "0 \<le> num \<and> num < 65536"
    using assms(3) of_le_bounds [of "rev (take 2 (drop 4 data))"]
    by (auto simp: get_be_def of_be_def split: if_splits)
  moreover have "f64_of_int 0 = Fin 0" "f64_of_int num = Fin (of_int num)"
    using f64_of_int_exact [of 0] f64_of_int_exact [of num] calculation(2) by simp_all
  ultimately have "tsRate ts = Fin 0"
    using assms(4) f64_of_int_exact [of 0] by (simp add: Pow10_11 f64_of_int_def)
  then have "fdiv r64 (Pow10 11) (tsRate ts) = PInf" by (simp add: Pow10_11 finf_def fsgn_def)
  then have "timestamp_unit (tsRate ts) = None"
    using halve_infinite by (auto simp: timestamp_unit_def split: option.splits)
  then show ?thesis by (simp add: PacketBytes_def assms(6) timestamp_bytes_def)
qed

subsection \<open>Lengths, streams and values\<close>

text \<open>
  The length check of \<open>NewData\<close> can be passed by a packet that is far too long: 32768 and up to
  4048 more 16-bit values are accepted without an error, because the length field of the payload
  keeps 16 bits only and the check adds up the fields.
\<close>

theorem oversize_payload_accepted:
  assumes "length d = 32768 + k" "k \<le> 4048" "pktTimestamp p = None"
  shows "\<exists>q. NewData p (Int16s d) [n] = Inr (q, None) \<and> Data q = Some (Int16s d)
    \<and> uint (payloadLength q) = 2 * int k \<and> packetLength q \<le> maxPACKETLENGTH
    \<and> maxPACKETLENGTH < 2 * int (length d)"
proof -
  have s: "set_sizes [n] = Inr [n]" by (simp add: set_sizes_def)
  have "2 * int (length d) mod 65536 = 2 * int k" using assms(1,2) by simp
  then have w: "uint (word_of_int (2 * int (length d)) :: 16 word) = 2 * int k"
    by (simp add: uint_word_of_int del: of_int_mult)
  show ?thesis using assms w
    by (simp add: NewData_def Let_def s maxPACKETLENGTH_def del: of_int_mult)
qed

text \<open>Reading packets off a stream in which each is padded to a multiple of \<open>stride\<close> bytes.\<close>

fun read_stream :: "nat \<Rightarrow> int \<Rightarrow> u8 list \<Rightarrow> (Packet list \<times> u8 list) option" where
  "read_stream 0 stride rd = Some ([], rd)"
| "read_stream (Suc n) stride rd = (case ReadPacketPlusPad rd stride of
     Inr (Inr p, rd) \<Rightarrow> map_option (\<lambda>(ps, r). (p # ps, r)) (read_stream n stride rd)
   | _ \<Rightarrow> None)"

definition sendable :: "Packet \<Rightarrow> bool" where
  "sendable p \<longleftrightarrow> rate_written p \<and> (\<exists>es v src sn off.
     packet_ops es (NewPacket v src sn off) = Some p \<and> (\<forall>e\<in>set es. op_fits e))"

definition padded :: "nat \<Rightarrow> Packet \<Rightarrow> u8 list" where
  "padded stride p = (case PacketBytes p of
     Some (Inr bs) \<Rightarrow> bs @ replicate ((stride - length bs mod stride) mod stride) 0
   | _ \<Rightarrow> [])"

lemma padded_read:
  assumes "sendable p" "0 < stride"
  shows "ReadPacketPlusPad (padded stride p @ rest) (int stride) = Inr (Inr (received_packet p), rest)"
proof -
  obtain es v src sn off where p: "packet_ops es (NewPacket v src sn off) = Some p" "\<forall>e\<in>set es. op_fits e"
    "rate_written p" using assms(1) unfolding sendable_def by blast
  obtain bs where bs: "PacketBytes p = Some (Inr bs)"
    "int (length bs) = uint (headerLength p) + uint (payloadLength p)"
    "\<forall>rest. ReadPacket (bs @ rest) = Inr (Inr (received_packet p), rest)"
    using read_back [OF packet_ops_built [OF p(1,2) built_new] p(3)] by (elim exE conjE) (rule that)
  have pl: "packetLength (received_packet p) = int (length bs)" by (simp add: received_packet_def bs(2))
  define m where "m = length bs mod stride"
  have m: "m < stride" "rem_int (int (length bs)) (int stride) = int m"
    using assms(2) by (simp_all add: m_def zmod_int)
  show ?thesis
  proof (cases "m = 0")
    case True
    then show ?thesis using assms(2) m(2) by (simp add: ReadPacketPlusPad_def padded_def bs(1,3) pl flip: m_def)
  next
    case False
    then have "(stride - m) mod stride = stride - m" using m(1) by simp
    moreover have "nat (int stride - int m) = stride - m" using m(1) by simp
    ultimately show ?thesis using assms(2) m False
      by (simp add: ReadPacketPlusPad_def padded_def bs(1,3) pl Discard_def flip: m_def)
  qed
qed

text \<open>
  Packets padded to a common stride, as they lie in the driver's ring buffer, are read back one
  after the other with nothing lost between them.
\<close>

theorem padded_stream_read_back:
  assumes "\<forall>p\<in>set ps. sendable p" "0 < stride"
  shows "read_stream (length ps) (int stride) (concat (map (padded stride) ps) @ rest)
    = Some (map received_packet ps, rest)"
  using assms(1) by (induction ps) (simp_all add: padded_read assms(2))

text \<open>The first \<open>nchan\<close> values of a packet, repeated.\<close>

lemma repeat_first_values:
  assumes "0 < nchan"
  shows "repeat_first d nchan = Inr (map (\<lambda>i. d ! (i mod nat nchan)) [0..<length d])"
proof -
  have "mapM_go (\<lambda>i. if nchan = 0 then Inl DivideByZero else idx d (rem_int i nchan)) [0..int (length d) - 1]
    = Inr (map (\<lambda>i. d ! (nat i mod nat nchan)) [0..int (length d) - 1])"
  proof (rule mapM_go_pure)
    fix i assume i: "i \<in> set [0..int (length d) - 1]"
    then have "i mod nchan \<le> i" using assms by (simp add: zmod_le_nonneg_dividend)
    then have "0 \<le> i mod nchan" "i mod nchan < int (length d)" using i assms by simp_all
    moreover have "nat (i mod nchan) = nat i mod nat nchan" using i assms by (simp add: nat_mod_distrib)
    ultimately show "(if nchan = 0 then Inl DivideByZero else idx d (rem_int i nchan)) = Inr (d ! (nat i mod nat nchan))"
      using i assms by simp
  qed
  also have "map (\<lambda>i. d ! (nat i mod nat nchan)) [0..int (length d) - 1] = map (\<lambda>i. d ! (i mod nat nchan)) [0..<length d]"
    unfolding upto_int by simp
  finally show ?thesis by (simp add: repeat_first_def)
qed

text \<open>
  A packet made up in place of a lost one has the lost packet's sequence number, the same header
  and number of frames as its neighbour, and repeats the first frame of its neighbour in every frame.
\<close>

theorem pretend_packet_repeats_first_frame:
  assumes "Data p = Some (Int16s d)" "0 < nchan"
  shows "\<exists>q x. MakePretendPacket p seqnum nchan = Inr q \<and> sequenceNumber q = seqnum
    \<and> Data q = Some (Int16s x) \<and> length x = length d
    \<and> (\<forall>i<length d. x ! i = d ! (i mod nat nchan))
    \<and> Frames q = Frames p \<and> headerLength q = headerLength p \<and> payloadLength q = payloadLength p
    \<and> pktTimestamp q = pktTimestamp p"
  using assms
  by (simp add: MakePretendPacket_def repeat_first_values Let_def Frames_def cong: option.case_cong)

subsection \<open>Concrete packets\<close>

definition demo_ops :: "packet_op list" where
  "demo_ops = [OpNewData (Int16s [1, 2, - 3]) [3]]"

definition demo_packet :: Packet where
  "demo_packet = (NewPacket 17 68 85 4)\<lparr>headerLength := 40, payloadLength := 6, packetLength := 46,
     Data := Some (Int16s [1, 2, - 3]), sequenceNumber := 86, pktShape := Some \<lparr>Sizes = [3]\<rparr>,
     pktFormat := Some \<lparr>endian = Some LittleEndian, rawfmt = ascii ''<h'', wordlen = 2, nvals = 1, dtype = [Int16]\<rparr>\<rparr>"

lemma demo_build: "packet_ops demo_ops (NewPacket 17 68 85 4) = Some demo_packet"
  by (simp add: demo_ops_def NewData_def set_sizes_def Let_def NewPacket_def maxPACKETLENGTH_def demo_packet_def)

lemma demo_fits: "\<forall>e\<in>set demo_ops. op_fits e"
  by (simp add: demo_ops_def int_in_def payload_size_def)

lemma demo_rate: "rate_written demo_packet"
  by (simp add: rate_written_def demo_packet_def NewPacket_def)

theorem packet_round_trip_witness:
  "\<exists>bs. PacketBytes demo_packet = Some (Inr bs) \<and> length bs = 46
    \<and> ReadPacket (bs @ [7]) = Inr (Inr (received_packet demo_packet), [7])"
proof -
  have "uint (headerLength demo_packet) + uint (payloadLength demo_packet) = int 46" by (simp add: demo_packet_def)
  then show ?thesis using packet_round_trip [OF demo_build demo_fits demo_rate] by fastforce
qed

definition demo_be_format :: headPayloadFormat where
  "demo_be_format = \<lparr>endian = Some BigEndian, rawfmt = ascii ''>h'', wordlen = 2, nvals = 1, dtype = [Int16]\<rparr>"

theorem big_endian_payload_witness:
  "read_payload demo_be_format (nat (2 * 2)) (binary_write BigEndian (Int16s [1, - 2]) @ [9])
    = Inr (Inr (Int16s [1, - 2]), [9])"
  using big_endian_payload [of demo_be_format "Int16s [1, - 2]" Int16 "''<h''" 2 2 "[9]"]
  by (simp add: demo_be_format_def int_in_def)

theorem slow_clock_rate_wrong_witness:
  "\<exists>num denom j. timestamp_unit (Fin 100000) = Some (num, denom) \<and> uint denom = 2 ^ j
    \<and> (j = 0 \<longleftrightarrow> (1000000 :: rat) \<le> 65535)
    \<and> \<bar>of_int (uint num) / of_int (uint denom) - 1000000 / of_int ((uint denom)\<^sup>2)\<bar> \<le> 1 / (2 * of_int (uint denom) :: rat)"
proof -
  have "fdiv r64 (Pow10 11) (Fin 100000) = Fin 1000000"
    using f64_of_int_exact [of 1000000] by (simp add: Pow10_11 f64_of_int_def)
  from slow_clock_rate_wrong [OF this] show ?thesis by simp
qed

definition demo_tlv :: "u8 list" where
  "demo_tlv = [0x13, 2, 64, 245, 0, 1, 0, 0, 0, 0, 0, 0, 0, 0, 0, 5]"

theorem zero_rate_never_returns_witness:
  "\<exists>ts. timestamp_tlv demo_tlv = Inr (Inr ts) \<and> PacketBytes (demo_packet\<lparr>pktTimestamp := Some ts\<rparr>) = None"
proof -
  have g: "get_be 2 6 demo_tlv = Inr 0" "get_be 2 4 demo_tlv = Inr 1" "get_be 8 8 demo_tlv = Inr 5"
    "idx demo_tlv 3 = Inr (word_of_int (- 11))" "idx demo_tlv 2 = Inr 64"
    by (simp_all add: demo_tlv_def get_be_def of_be_def)
  then obtain ts where ts: "timestamp_tlv demo_tlv = Inr (Inr ts)"
    by (simp add: timestamp_tlv_def)
  show ?thesis
    using zero_rate_never_returns [OF ts g(1,2) _ g(4), of "demo_packet\<lparr>pktTimestamp := Some ts\<rparr>"] ts by simp
qed

theorem oversize_payload_accepted_witness:
  "\<exists>q. NewData (NewPacket 1 2 3 0) (Int16s (replicate (32768 + 0) 5)) [8] = Inr (q, None)
    \<and> uint (payloadLength q) = 0"
  using oversize_payload_accepted [of "replicate (32768 + 0) 5" 0 "NewPacket 1 2 3 0" 8]
  by (auto simp: NewPacket_def)

theorem padded_stream_read_back_witness:
  "read_stream 2 16 (padded 16 demo_packet @ padded 16 demo_packet @ [1])
    = Some ([received_packet demo_packet, received_packet demo_packet], [1])"
proof -
  have "sendable demo_packet"
    using demo_build demo_fits demo_rate unfolding sendable_def by blast
  then show ?thesis
    using padded_stream_read_back [of "[demo_packet, demo_packet]" 16 "[1]"] by (simp add: numeral_2_eq_2)
qed

theorem pretend_packet_repeats_first_frame_witness:
  "\<exists>q x. MakePretendPacket demo_packet 99 1 = Inr q \<and> sequenceNumber q = 99
    \<and> Data q = Some (Int16s x) \<and> length x = 3"
  using pretend_packet_repeats_first_frame [of demo_packet "[1, 2, - 3]" 1 99]
  by (auto simp: demo_packet_def)

end
