(* ===== verification/EdgeMulti.thy ===== *)
theory EdgeMulti
  imports DataStream
begin

text \<open>
  The edge-multi-trigger search (\<open>edge_multi_trigger.go\<close>): the configuration carried by old RPC
  messages, the kink-model fit that may move a trigger by a sample, the search for the next
  qualifying edge, the choice of a record for each trigger from its neighbours, and the search over
  one buffer that carries its state to the next.  Indices into the buffer are Go \<open>int32\<close> values;
  their conversions from 64-bit frame numbers wrap as in the code.  The 3-by-3 linear solver of the
  external package gonum is a parameter (\<open>solve\<close>) of the fit.
\<close>

subsection \<open>Configuration and state\<close>

datatype EMTMode =
    EMTRecordsTwoFullLength
  | EMTRecordsVariableLength
  | EMTRecordsFullLengthIsolated
  | EMTRecordsOneFullLength

record EMTState =
  mode :: EMTMode
  threshold :: int
  nmonotone :: int
  npre :: int
  nsamp :: int
  enableZeroThreshold :: bool
  iFirstCheckSentinel :: bool
  nextFrameIndexToInspect :: frame_index
  emt_t :: frame_index
  emt_u :: frame_index
  emt_v :: frame_index

text \<open>Go's zero value of the type.\<close>

definition EMTState_zero :: EMTState where
  "EMTState_zero = \<lparr>mode = EMTRecordsTwoFullLength, threshold = 0, nmonotone = 0, npre = 0, nsamp = 0,
     enableZeroThreshold = False, iFirstCheckSentinel = False, nextFrameIndexToInspect = 0,
     emt_t = 0, emt_u = 0, emt_v = 0\<rparr>"

definition EMT_valid :: "EMTState \<Rightarrow> bool" where
  "EMT_valid s =
     (if enableZeroThreshold s \<and> npre s < 4 then False
      else if enableZeroThreshold s \<and> nsamp s - npre s < 4 then False
      else if nmonotone s > nsamp s - npre s then False
      else True)"

definition EMT_reset :: "EMTState \<Rightarrow> EMTState" where
  "EMT_reset s = s\<lparr>nextFrameIndexToInspect := 0, emt_t := 0, emt_u := 0, emt_v := 0,
                   iFirstCheckSentinel := False\<rparr>"

definition NToKeepOnTrim :: "EMTState \<Rightarrow> int" where
  "NToKeepOnTrim s = to_int32 (2 * nsamp s + 10)"

record EMTBackwardCompatibleRPCFields =
  EdgeMultiNoise :: bool
  EdgeMultiMakeShortRecords :: bool
  EdgeMultiMakeContaminatedRecords :: bool
  EdgeMultiMakeSingleRecords :: bool
  EdgeMultiDisableZeroThreshold :: bool
  EdgeMultiLevel :: int
  EdgeMultiVerifyNMonotone :: int

datatype emt_error = NoiseNotImplemented | ContaminatedAndShort

definition toEMTState :: "EMTBackwardCompatibleRPCFields \<Rightarrow> emt_error + EMTState" where
  "toEMTState b =
     (let s = EMT_reset EMTState_zero in
      if EdgeMultiNoise b then Inl NoiseNotImplemented
      else if EdgeMultiMakeContaminatedRecords b \<and> EdgeMultiMakeShortRecords b
        then Inl ContaminatedAndShort
      else Inr (s\<lparr>mode :=
                  (if EdgeMultiMakeContaminatedRecords b then EMTRecordsTwoFullLength
                   else if EdgeMultiMakeSingleRecords b then EMTRecordsOneFullLength
                   else if EdgeMultiMakeShortRecords b then EMTRecordsVariableLength
                   else EMTRecordsFullLengthIsolated),
                threshold := EdgeMultiLevel b,
                nmonotone := to_int32 (EdgeMultiVerifyNMonotone b),
                enableZeroThreshold := \<not> EdgeMultiDisableZeroThreshold b\<rparr>))"

subsection \<open>The kink model\<close>

text \<open>
  \<open>SolveVec\<close>: row-major matrix and right-hand side in, the solution and whether an error was
  returned out.
\<close>

type_synonym solver =
  "go_float list \<Rightarrow> go_float list \<Rightarrow> (go_float \<times> go_float \<times> go_float) \<times> bool"

definition kinkModel :: "go_float \<Rightarrow> go_float \<Rightarrow> go_float \<Rightarrow> go_float \<Rightarrow> go_float \<Rightarrow> go_float" where
  "kinkModel k x a b c =
     (if flt x k then fadd r64 a (fmul r64 b (fsub r64 x k))
      else fadd r64 a (fmul r64 c (fsub r64 x k)))"

text \<open>The running sums \<open>sdxi, sdxj, sdxi2, sdxj2, sy, syidxi, syjdxj\<close> of one data point.\<close>

record kink_sums =
  sdxi :: go_float
  sdxj :: go_float
  sdxi2 :: go_float
  sdxj2 :: go_float
  sy :: go_float
  syidxi :: go_float
  syjdxj :: go_float

definition kink_add :: "go_float \<Rightarrow> kink_sums \<Rightarrow> go_float \<times> go_float \<Rightarrow> kink_sums" where
  "kink_add k s p =
     (let xd = fsub r64 (fst p) k; yd = snd p; s1 = s\<lparr>sy := fadd r64 (sy s) yd\<rparr> in
      if flt xd (Fin 0)
      then s1\<lparr>sdxi := fadd r64 (sdxi s) xd,
              sdxi2 := fadd r64 (sdxi2 s) (fmul r64 xd xd),
              syidxi := fadd r64 (syidxi s) (fmul r64 yd xd)\<rparr>
      else s1\<lparr>sdxj := fadd r64 (sdxj s) xd,
              sdxj2 := fadd r64 (sdxj2 s) (fmul r64 xd xd),
              syjdxj := fadd r64 (syjdxj s) (fmul r64 yd xd)\<rparr>)"

definition kink_zero :: kink_sums where
  "kink_zero = \<lparr>sdxi = Fin 0, sdxj = Fin 0, sdxi2 = Fin 0, sdxj2 = Fin 0, sy = Fin 0,
     syidxi = Fin 0, syjdxj = Fin 0\<rparr>"

text \<open>
  The model values, the three parameters, the sum of squares and whether the solver failed.  The
  two data vectors have the same length at every call.
\<close>

definition kinkModelResult ::
  "solver \<Rightarrow> go_float \<Rightarrow> go_float list \<Rightarrow> go_float list \<Rightarrow>
   go_float list \<times> (go_float \<times> go_float \<times> go_float) \<times> go_float \<times> bool" where
  "kinkModelResult solve k xdata ydata =
     (let s = foldl (kink_add k) kink_zero (zip xdata ydata);
          A = [f64_of_int (int (length xdata)), sdxi s, sdxj s,
               sdxi s, sdxi2 s, Fin 0,
               sdxj s, Fin 0, sdxj2 s];
          ((a, b, c), err) = solve A [sy s, syidxi s, syjdxj s];
          ymodel = map (\<lambda>x. kinkModel k x a b c) xdata;
          X2 = foldl (\<lambda>X2 (y, ym). let d = fsub r64 y ym in fadd r64 X2 (fmul r64 d d))
                 (Fin 0) (zip ydata ymodel)
      in (ymodel, (a, b, c), X2, err))"

definition MaxFloat64 :: go_float where
  "MaxFloat64 = Fin (2 ^ 1024 - 2 ^ 971)"

text \<open>The loop of \<open>kinkModelFit\<close> over the candidates, with its current \<open>X2min\<close>, \<open>kbest\<close> and error.\<close>

fun kinkModelFit_loop ::
  "(go_float \<Rightarrow> go_float \<times> bool) \<Rightarrow> go_float list \<Rightarrow> go_float \<Rightarrow> go_float \<Rightarrow> bool \<Rightarrow>
   go_float \<times> go_float \<times> bool" where
  "kinkModelFit_loop fit [] X2min kbest err = (kbest, X2min, err)"
| "kinkModelFit_loop fit (k # ks) X2min kbest err =
     (let (X2, e) = fit k in
      if flt X2 X2min then kinkModelFit_loop fit ks X2 k (err \<or> e)
      else kinkModelFit_loop fit ks X2min kbest (err \<or> e))"

definition kinkModelFit ::
  "solver \<Rightarrow> go_float list \<Rightarrow> go_float list \<Rightarrow> go_float list \<Rightarrow> go_float \<times> go_float \<times> bool" where
  "kinkModelFit solve xdata ydata ks =
     kinkModelFit_loop
       (\<lambda>k. case kinkModelResult solve k xdata ydata of (_, _, X2, err) \<Rightarrow> (X2, err))
       ks MaxFloat64 (Fin 0) False"

text \<open>The five candidate kink positions around sample \<open>i\<close>.\<close>

definition kink_candidates :: "int \<Rightarrow> go_float list" where
  "kink_candidates i =
     (let ifit = f64_of_int i in
      [fsub r64 ifit (Fin 1), fsub r64 ifit (Fin (1 / 2)), ifit,
       fadd r64 ifit (Fin (1 / 2)), fadd r64 ifit (Fin 1)])"

definition zeroThreshold :: "solver \<Rightarrow> raw list \<Rightarrow> int \<Rightarrow> bool \<Rightarrow> int go" where
  "zeroThreshold solve raw i enable =
     (if \<not> enable then Inr i
      else bind_go (mapM_go (\<lambda>j. idx raw (j + i - 4)) [0..7]) (\<lambda>ys.
        let xdataf = map (\<lambda>j. f64_of_int (j + i - 4)) [0..7];
            ydataf = map (\<lambda>y. f64_of_int (uint y)) ys;
            (kbest, _, err) = kinkModelFit solve xdataf ydataf (kink_candidates i)
        in Inr (if err then i else to_int32 (int_of_f64 (fceil kbest)))))"

subsection \<open>Searching for the next trigger\<close>

record NextTriggerIndResult =
  triggerInd :: int
  triggerFound :: bool
  nextIFirst :: int

text \<open>
  The inner loop: how many samples after \<open>i\<close> go on in the direction of the edge, at most
  \<open>maxNmonotone\<close>.
\<close>

definition isMonotone :: "bool \<Rightarrow> raw \<Rightarrow> raw \<Rightarrow> bool" where
  "isMonotone rising a b = ((rising \<and> uint a > uint b) \<or> (\<not> rising \<and> uint a < uint b))"

text \<open>The edge test on a sample and the one before, for a rising or a falling threshold.\<close>

definition isEdge :: "int \<Rightarrow> raw \<Rightarrow> raw \<Rightarrow> bool" where
  "isEdge th a b =
     (let rising = (th \<ge> 1); falling = (\<not> rising); diff = uint a - uint b in
      (rising \<and> diff \<ge> th) \<or> (falling \<and> diff \<le> th))"

function count_monotone :: "raw list \<Rightarrow> int \<Rightarrow> bool \<Rightarrow> int \<Rightarrow> int \<Rightarrow> int go" where
  "count_monotone raw i rising maxNmonotone j =
     bind_go (idx raw (i + j)) (\<lambda>a. bind_go (idx raw (i + j - 1)) (\<lambda>b.
       if \<not> isMonotone rising a b \<or> j \<ge> maxNmonotone then Inr j
       else count_monotone raw i rising maxNmonotone (j + 1)))"
  by pat_completeness auto
termination
  by (relation "measure (\<lambda>(raw, i, rising, m, j). nat (int (length raw) - (i + j)))")
    (auto simp: idx_Inr_iff)

declare count_monotone.simps [simp del]

function edgeMultiFindNextTriggerInd ::
  "solver \<Rightarrow> raw list \<Rightarrow> int \<Rightarrow> int \<Rightarrow> int \<Rightarrow> int \<Rightarrow> int \<Rightarrow> int \<Rightarrow> bool \<Rightarrow> NextTriggerIndResult go" where
  "edgeMultiFindNextTriggerInd solve raw iFirst i iLast th nm mx ezt =
     (if i > iLast
      then Inr \<lparr>triggerInd = 0, triggerFound = False, nextIFirst = max (iLast + 1) iFirst\<rparr>
      else bind_go (idx raw i) (\<lambda>a. bind_go (idx raw (i - 1)) (\<lambda>b.
        if isEdge th a b
        then bind_go (count_monotone raw i (th \<ge> 1) mx 1) (\<lambda>foundMonotone.
          if foundMonotone \<ge> nm
          then bind_go (zeroThreshold solve raw i ezt) (\<lambda>z.
            Inr \<lparr>triggerInd = z, triggerFound = True, nextIFirst = i + foundMonotone + 1\<rparr>)
          else edgeMultiFindNextTriggerInd solve raw iFirst (i + 1) iLast th nm
                 mx ezt)
        else edgeMultiFindNextTriggerInd solve raw iFirst (i + 1) iLast th nm
               mx ezt)))"
  by pat_completeness auto
termination
  by (relation "measure (\<lambda>(solve, raw, iFirst, i, iLast, _). nat (iLast + 1 - i))") auto

declare edgeMultiFindNextTriggerInd.simps [simp del]

lemma count_monotone_bounds:
  "count_monotone raw i rising m j = Inr n \<Longrightarrow> j \<le> n \<and> (j \<le> m \<longrightarrow> n \<le> m)"
proof (induction raw i rising m j rule: count_monotone.induct)
  case (1 raw i rising m j)
  from "1.prems" obtain a b where ab: "idx raw (i + j) = Inr a" "idx raw (i + j - 1) = Inr b"
    and r: "(if \<not> isMonotone rising a b \<or> j \<ge> m then Inr j
             else count_monotone raw i rising m (j + 1)) = Inr n"
    unfolding count_monotone.simps [of raw i rising m j] bind_go_Inr_iff by blast
  show ?case
  proof (cases "\<not> isMonotone rising a b \<or> j \<ge> m")
    case True
    with r show ?thesis by auto
  next
    case False
    with r have "count_monotone raw i rising m (j + 1) = Inr n" by auto
    from "1.IH" [OF ab False this] False show ?thesis by auto
  qed
qed

text \<open>Within the look-ahead the code promises, the count never leaves the buffer.\<close>

lemma count_monotone_total:
  assumes "1 \<le> i + j" "j \<le> m" "i + m < int (length raw)"
  shows "\<exists>n. count_monotone raw i rising m j = Inr n"
  using assms
proof (induction raw i rising m j rule: count_monotone.induct)
  case (1 raw i rising m j)
  obtain a b where ab: "idx raw (i + j) = Inr a" "idx raw (i + j - 1) = Inr b"
    using "1.prems" by auto
  show ?case
  proof (cases "\<not> isMonotone rising a b \<or> j \<ge> m")
    case True
    then show ?thesis by (subst count_monotone.simps) (simp add: ab)
  next
    case False
    then have "\<exists>n. count_monotone raw i rising m (j + 1) = Inr n"
      using "1.IH" [OF ab False] "1.prems" by auto
    with False show ?thesis by (subst count_monotone.simps) (simp add: ab)
  qed
qed

text \<open>
  One step of the search: the buffer is at its end, or a sample and its predecessor are read and
  either give the trigger or send the search to the next sample.
\<close>

lemma find_next_cases:
  assumes "edgeMultiFindNextTriggerInd solve raw iFirst i iLast th nm mx ezt = Inr x"
  obtains (exhausted) "i > iLast"
      "x = \<lparr>triggerInd = 0, triggerFound = False, nextIFirst = max (iLast + 1) iFirst\<rparr>"
  | (found) a b n z where "i \<le> iLast" "idx raw i = Inr a" "idx raw (i - 1) = Inr b"
      "isEdge th a b" "count_monotone raw i (th \<ge> 1) mx 1 = Inr n" "nm \<le> n"
      "zeroThreshold solve raw i ezt = Inr z"
      "x = \<lparr>triggerInd = z, triggerFound = True, nextIFirst = i + n + 1\<rparr>"
  | (later) "i \<le> iLast"
      "edgeMultiFindNextTriggerInd solve raw iFirst (i + 1) iLast th nm mx ezt = Inr x"
proof (cases "i > iLast")
  case True
  with assms show ?thesis
    unfolding edgeMultiFindNextTriggerInd.simps [of solve raw iFirst i] by (intro exhausted) auto
next
  case False
  with assms show ?thesis
    unfolding edgeMultiFindNextTriggerInd.simps [of solve raw iFirst i]
    by (auto simp only: if_False bind_go_Inr_iff split: if_splits intro: found later)
qed

text \<open>A found trigger moves the search strictly forward; otherwise it is at the end.\<close>

lemma find_next_progress:
  assumes "edgeMultiFindNextTriggerInd solve raw iFirst i iLast th nm mx ezt = Inr x"
  shows "(triggerFound x \<longrightarrow> i \<le> iLast \<and> i + 2 \<le> nextIFirst x)
    \<and> (\<not> triggerFound x \<longrightarrow> nextIFirst x = max (iLast + 1) iFirst)"
  using assms
proof (induction "nat (iLast + 1 - i)" arbitrary: i rule: less_induct)
  case less
  from less.prems show ?case
  proof (cases rule: find_next_cases)
    case exhausted
    then show ?thesis by simp
  next
    case (found a b n z)
    then show ?thesis using count_monotone_bounds [of raw i "th \<ge> 1" mx 1 n] by simp
  next
    case later
    then show ?thesis using less.hyps [of "i + 1"] by auto
  qed
qed

subsection \<open>Which record a trigger gets\<close>

record RecordSpec =
  firstRisingFrameIndex :: frame_index
  spec_npre :: int
  spec_nsamp :: int

definition no_spec :: RecordSpec where
  "no_spec = \<lparr>firstRisingFrameIndex = - 1, spec_npre = - 1, spec_nsamp = - 1\<rparr>"

text \<open>\<open>t\<close>, \<open>u\<close> and \<open>v\<close> are the previous, the current and the next trigger.\<close>

definition edgeMultiShouldRecord ::
  "frame_index \<Rightarrow> frame_index \<Rightarrow> frame_index \<Rightarrow> int \<Rightarrow> int \<Rightarrow> EMTMode \<Rightarrow> RecordSpec \<times> bool" where
  "edgeMultiShouldRecord t u v npreIn nsampIn m =
     (let lastNPost = min (nsampIn - npreIn) (u - t);
          np = to_int32 (min npreIn (u - t - lastNPost));
          npost = to_int32 (min (nsampIn - npreIn) (v - u));
          full = \<lparr>firstRisingFrameIndex = u, spec_npre = npreIn, spec_nsamp = nsampIn\<rparr>
      in if u = 0 \<or> u = v \<or> u = t then (no_spec, False)
         else case m of
           EMTRecordsVariableLength \<Rightarrow>
             (\<lparr>firstRisingFrameIndex = u, spec_npre = np, spec_nsamp = np + npost\<rparr>, True)
         | EMTRecordsOneFullLength \<Rightarrow>
             (if u - t \<ge> nsampIn then (full, True) else (no_spec, False))
         | EMTRecordsTwoFullLength \<Rightarrow> (full, True)
         | EMTRecordsFullLengthIsolated \<Rightarrow>
             (if np \<ge> npreIn \<and> np + npost \<ge> nsampIn then (full, True) else (no_spec, False)))"

text \<open>The frames a record covers.\<close>

definition spec_start :: "RecordSpec \<Rightarrow> frame_index" where
  "spec_start r = firstRisingFrameIndex r - spec_npre r"

definition spec_end :: "RecordSpec \<Rightarrow> frame_index" where
  "spec_end r = spec_start r + spec_nsamp r"

subsection \<open>Searching one buffer\<close>

function emt_loop ::
  "solver \<Rightarrow> EMTState \<Rightarrow> raw list \<Rightarrow> frame_index \<Rightarrow> int \<Rightarrow> int \<Rightarrow> int \<Rightarrow>
   frame_index \<times> frame_index \<times> frame_index \<Rightarrow> RecordSpec list \<Rightarrow>
   (RecordSpec list \<times> int \<times> frame_index \<times> frame_index \<times> frame_index) go" where
  "emt_loop solve s raw F iFirst iLast mx (t, u, v) specs =
     bind_go (edgeMultiFindNextTriggerInd solve raw iFirst iFirst iLast (threshold s)
                (nmonotone s) mx (enableZeroThreshold s)) (\<lambda>x.
       if \<not> triggerFound x then Inr (specs, nextIFirst x, t, u, v)
       else let v' = triggerInd x + F;
                (spec, valid) = edgeMultiShouldRecord u v v' (npre s) (nsamp s) (mode s)
            in emt_loop solve s raw F (nextIFirst x) iLast mx (u, v, v')
                 (if valid then specs @ [spec] else specs))"
  by pat_completeness auto
termination
proof (relation "measure (\<lambda>(solve, s, raw, F, iFirst, iLast, mx, tuv, specs). nat (iLast + 1 - iFirst))",
    goal_cases)
  case (2 solve s raw F iFirst iLast mx t u v specs x)
  then show ?case using find_next_progress [OF 2(1)] by auto
qed simp

declare emt_loop.simps [simp del]

definition edgeMultiComputeRecordSpecs ::
  "solver \<Rightarrow> EMTState \<Rightarrow> raw list \<Rightarrow> frame_index \<Rightarrow> (RecordSpec list \<times> EMTState) go" where
  "edgeMultiComputeRecordSpecs solve s0 raw frameIndexOfraw0 =
     (let maxLookback = npre s0;
          maxLookahead = to_int32 (nsamp s0 - npre s0);
          maxNmonotone = maxLookahead;
          iFirst0 = to_int32 (nextFrameIndexToInspect s0 - frameIndexOfraw0);
          (iFirst, s) =
            (if iFirst0 < maxLookback
             then (maxLookback, (EMT_reset s0)\<lparr>iFirstCheckSentinel := True\<rparr>)
             else (iFirst0, s0));
          iLast = to_int32 (to_int32 (int (length raw)) - 1 - maxLookahead)
      in bind_go (emt_loop solve s raw frameIndexOfraw0 iFirst iLast maxNmonotone
                    (emt_t s, emt_u s, emt_v s) []) (\<lambda>(specs, iF, t, u, v).
           let next = iF + frameIndexOfraw0 in
           if 0 < v \<and> v < next - nsamp s
           then let (spec, valid) = edgeMultiShouldRecord u v next (npre s) (nsamp s) (mode s);
                    specs' = (if valid then specs @ [spec] else specs)
                in Inr (specs', s\<lparr>emt_t := t, emt_u := v, emt_v := v, nextFrameIndexToInspect := next\<rparr>)
           else Inr (specs, s\<lparr>emt_t := t, emt_u := u, emt_v := v, nextFrameIndexToInspect := next\<rparr>)))"

subsection \<open>No access outside the buffer\<close>

lemma mapM_idx_upto_total:
  assumes "0 \<le> lo" "lo + 8 \<le> int (length raw)"
  shows "\<exists>ys. mapM_go (\<lambda>j. idx raw (j + lo)) [0..7] = Inr ys"
proof -
  have "mapM_go (\<lambda>j. idx raw (j + lo)) [0..7] = Inr (map (\<lambda>j. raw ! nat (j + lo)) [0..7])"
    using assms by (intro mapM_go_pure) (auto intro!: idx_in)
  then show ?thesis by blast
qed

lemma zeroThreshold_total:
  assumes "ezt \<longrightarrow> 4 \<le> i \<and> i + 3 < int (length raw)"
  shows "\<exists>z. zeroThreshold solve raw i ezt = Inr z"
proof (cases ezt)
  case True
  then obtain ys where "mapM_go (\<lambda>j. idx raw (j + (i - 4))) [0..7] = Inr ys"
    using mapM_idx_upto_total [of "i - 4" raw] assms by auto
  then show ?thesis
    by (simp add: zeroThreshold_def Let_def add_diff_eq split: prod.splits)
qed (simp add: zeroThreshold_def)

lemma find_next_total:
  assumes "1 \<le> i" "1 \<le> mx" "iLast + mx < int (length raw)"
    and "ezt \<longrightarrow> 4 \<le> i \<and> iLast + 3 < int (length raw)"
  shows "\<exists>x. edgeMultiFindNextTriggerInd solve raw iFirst i iLast th nm mx ezt = Inr x"
  using assms
proof (induction "nat (iLast + 1 - i)" arbitrary: i rule: less_induct)
  case less
  show ?case
  proof (cases "i > iLast")
    case True
    then show ?thesis by (subst edgeMultiFindNextTriggerInd.simps) simp
  next
    case False
    have rec: "\<exists>x. edgeMultiFindNextTriggerInd solve raw iFirst (i + 1) iLast th nm mx ezt = Inr x"
      using False less.prems by (intro less.hyps) auto
    obtain a b where ab: "idx raw i = Inr a" "idx raw (i - 1) = Inr b"
      using False less.prems by auto
    obtain n where n: "count_monotone raw i (th \<ge> 1) mx 1 = Inr n"
      using count_monotone_total [of i 1 mx raw] False less.prems by auto
    obtain z where z: "zeroThreshold solve raw i ezt = Inr z"
      using zeroThreshold_total [of ezt i raw solve] False less.prems by auto
    show ?thesis
      using False rec by (subst edgeMultiFindNextTriggerInd.simps) (simp add: ab n z)
  qed
qed

lemma emt_loop_total:
  assumes "1 \<le> iFirst" "1 \<le> mx" "iLast + mx < int (length raw)"
    and "enableZeroThreshold s \<longrightarrow> 4 \<le> iFirst \<and> iLast + 3 < int (length raw)"
  shows "\<exists>out. emt_loop solve s raw F iFirst iLast mx tuv specs = Inr out"
  using assms
proof (induction "nat (iLast + 1 - iFirst)" arbitrary: iFirst tuv specs rule: less_induct)
  case less
  obtain t u v where tuv: "tuv = (t, u, v)" by (cases tuv) auto
  obtain x where x: "edgeMultiFindNextTriggerInd solve raw iFirst iFirst iLast (threshold s)
      (nmonotone s) mx (enableZeroThreshold s) = Inr x"
    using find_next_total less.prems by blast
  show ?case
  proof (cases "triggerFound x")
    case True
    then have "iFirst \<le> iLast" "iFirst + 2 \<le> nextIFirst x" using find_next_progress [OF x] by auto
    then have "\<exists>out. emt_loop solve s raw F (nextIFirst x) iLast mx tuv' specs' = Inr out" for tuv' specs'
      using less.prems by (intro less.hyps) auto
    then show ?thesis
      unfolding tuv by (subst emt_loop.simps) (simp add: x True Let_def split: prod.split)
  next
    case False
    then show ?thesis unfolding tuv by (subst emt_loop.simps) (simp add: x)
  qed
qed

text \<open>
  C14: The search for edge-multi triggers keeps the promise made at its start: for a valid
  configuration with at least one sample before and after the trigger it never indexes the buffer
  out of range, wherever the buffer starts and however short it is.
\<close>

theorem emt_search_never_panics:
  assumes "EMT_valid s" "1 \<le> npre s" "npre s < nsamp s" "nsamp s < 2 ^ 30"
    and "int (length raw) < 2 ^ 31"
  shows "\<exists>specs s'. edgeMultiComputeRecordSpecs solve s raw F = Inr (specs, s')"
proof -
  let ?la = "nsamp s - npre s"
  let ?iL = "int (length raw) - 1 - ?la"
  have la: "to_int32 ?la = ?la" and iL: "to_int32 (to_int32 (int (length raw)) - 1 - ?la) = ?iL"
    using assms by (simp_all add: to_int32_id)
  have zt: "enableZeroThreshold s \<longrightarrow> 4 \<le> npre s \<and> 4 \<le> ?la"
    using assms(1) by (auto simp: EMT_valid_def split: if_splits)
  have tot: "\<exists>out. emt_loop solve s' raw F i ?iL ?la tuv [] = Inr out"
    if "enableZeroThreshold s' = enableZeroThreshold s" "npre s \<le> i" for s' i tuv
    using that assms zt by (intro emt_loop_total) auto
  show ?thesis
  proof (cases "to_int32 (nextFrameIndexToInspect s - F) < npre s")
    case True
    then show ?thesis
      using tot [of "(EMT_reset s)\<lparr>iFirstCheckSentinel := True\<rparr>" "npre s" "(0, 0, 0)"]
      by (auto simp: edgeMultiComputeRecordSpecs_def la iL EMT_reset_def Let_def split: prod.split)
  next
    case False
    then show ?thesis
      using tot [of s "to_int32 (nextFrameIndexToInspect s - F)" "(emt_t s, emt_u s, emt_v s)"]
      by (auto simp: edgeMultiComputeRecordSpecs_def la iL Let_def split: prod.split)
  qed
qed

subsection \<open>The kink fit moves a trigger by at most one sample\<close>

lemma kinkModelFit_loop_best:
  "kinkModelFit_loop fit ks X2min kbest err = (k, X2, e) \<Longrightarrow> k = kbest \<or> k \<in> set ks"
  by (induction ks arbitrary: X2min kbest err) (auto simp: Let_def split: prod.splits if_splits)

lemma kink_candidates_exact:
  assumes "\<bar>i\<bar> < 2 ^ 31"
  shows "kink_candidates i = [Fin (of_int (i - 1)), Fin (of_int (i - 1) + 1 / 2), Fin (of_int i),
    Fin (of_int i + 1 / 2), Fin (of_int (i + 1))]"
proof -
  have e: "f64_of_int i = Fin (of_int i)" using assms by (intro f64_of_int_exact) simp
  have r: "r64 (of_int (i - 1)) = Fin (of_int (i - 1))" "r64 (of_int (i + 1)) = Fin (of_int (i + 1))"
    using f64_of_int_exact [of "i - 1"] f64_of_int_exact [of "i + 1"] assms
    by (simp_all add: f64_of_int_def)
  have h: "r64 (of_int (i - 1) + 1 / 2) = Fin (of_int (i - 1) + 1 / 2)"
    "r64 (of_int i + 1 / 2) = Fin (of_int i + 1 / 2)"
    using assms by (intro r64_half; simp)+
  show ?thesis
    using r h by (simp add: kink_candidates_def e fsub_def Let_def algebra_simps)
qed

lemma ceil_candidate:
  assumes "\<bar>i\<bar> < 2 ^ 30" "k \<in> set (kink_candidates i)"
  shows "to_int32 (int_of_f64 (fceil k)) \<in> {i - 1, i, i + 1}"
proof -
  have c: "\<lceil>of_int m + 1 / 2 :: rat\<rceil> = m + 1" for m
    by (rule ceiling_unique) simp_all
  have t: "to_int32 (int_of_f64 (Fin (of_int m))) = m" if "\<bar>m\<bar> \<le> 2 ^ 30" for m
  proof -
    have "- (2 ^ 63) \<le> m" "m < 2 ^ 63" "- (2 ^ 31) \<le> m" "m < 2 ^ 31"
      using that by (simp_all add: abs_le_iff)
    then show ?thesis by (simp add: to_int32_id Let_def)
  qed
  have "kink_candidates i = [Fin (of_int (i - 1)), Fin (of_int (i - 1) + 1 / 2), Fin (of_int i),
    Fin (of_int i + 1 / 2), Fin (of_int (i + 1))]"
    using assms(1) by (intro kink_candidates_exact) simp
  with assms(2) have "fceil k \<in> {Fin (of_int (i - 1)), Fin (of_int i), Fin (of_int (i + 1))}"
    using c [of "i - 1"] c [of i] by (auto simp del: of_int_diff of_int_add of_int_1)
  then show ?thesis using t [of "i - 1"] t [of i] t [of "i + 1"] assms(1) by auto
qed

text \<open>
  The zero-threshold correction moves a trigger by at most one sample, as its comment promises,
  whatever the linear solver answers; the one exception is a fit where no candidate has a sum of
  squares below the largest float, when the returned index is 0.
\<close>

theorem zero_threshold_within_one:
  assumes "zeroThreshold solve raw i enable = Inr z" "\<bar>i\<bar> < 2 ^ 30"
  shows "z \<in> {i - 1, i, i + 1} \<or> (enable \<and> z = 0)"
proof (cases enable)
  case True
  have "\<exists>ys. mapM_go (\<lambda>j. idx raw (j + i - 4)) [0..7] = Inr ys \<and>
      (case kinkModelFit solve (map (\<lambda>j. f64_of_int (j + i - 4)) [0..7])
        (map (\<lambda>y. f64_of_int (uint y)) ys) (kink_candidates i) of
      (kbest, _, err) \<Rightarrow> Inr (if err then i else to_int32 (int_of_f64 (fceil kbest)))) = (Inr z :: int go)"
    using assms(1) True unfolding zeroThreshold_def Let_def
    by (simp only: if_False not_True_eq_False bind_go_Inr_iff)
  then obtain ys :: "raw list" where ys: "(case kinkModelFit solve (map (\<lambda>j. f64_of_int (j + i - 4)) [0..7])
        (map (\<lambda>y. f64_of_int (uint y)) ys) (kink_candidates i) of
      (kbest, _, err) \<Rightarrow> Inr (if err then i else to_int32 (int_of_f64 (fceil kbest)))) = (Inr z :: int go)"
    by blast
  obtain kbest X2 err where fit: "kinkModelFit solve (map (\<lambda>j. f64_of_int (j + i - 4)) [0..7])
      (map (\<lambda>y. f64_of_int (uint y)) ys) (kink_candidates i) = (kbest, X2, err)"
    by (metis prod_cases3)
  have z: "z = (if err then i else to_int32 (int_of_f64 (fceil kbest)))"
    using ys unfolding fit by simp
  have "kbest = Fin 0 \<or> kbest \<in> set (kink_candidates i)"
    using kinkModelFit_loop_best fit unfolding kinkModelFit_def by blast
  moreover have "to_int32 (int_of_f64 (fceil (Fin 0))) = 0"
    by (simp add: trunc_rat_def to_int32_def Let_def)
  ultimately show ?thesis using ceil_candidate [OF assms(2), of kbest] True z by auto
qed (use assms in \<open>simp add: zeroThreshold_def\<close>)

subsection \<open>Neighbouring records\<close>

lemma shouldRecord_full:
  assumes "edgeMultiShouldRecord t u v np ns m = (r, True)" "m \<noteq> EMTRecordsVariableLength"
  shows "r = \<lparr>firstRisingFrameIndex = u, spec_npre = np, spec_nsamp = ns\<rparr>"
  using assms by (cases m) (auto simp: edgeMultiShouldRecord_def Let_def split: if_splits)

lemma shouldRecord_variable:
  assumes "t \<le> u" "u \<le> v" "0 \<le> np" "np \<le> ns" "ns < 2 ^ 31"
    and "edgeMultiShouldRecord t u v np ns EMTRecordsVariableLength = (r, True)"
  shows "firstRisingFrameIndex r = u"
    "spec_npre r = min np (u - t - min (ns - np) (u - t))"
    "spec_nsamp r = spec_npre r + min (ns - np) (v - u)"
  using assms by (auto simp: edgeMultiShouldRecord_def Let_def to_int32_id split: if_splits)

lemma shouldRecord_bounds:
  assumes "edgeMultiShouldRecord t u v np ns m = (r, True)"
    and "t \<le> u" "u \<le> v" "0 \<le> np" "np \<le> ns" "ns < 2 ^ 31"
  shows "firstRisingFrameIndex r = u" "u - np \<le> spec_start r" "spec_end r \<le> u + (ns - np)"
    "0 \<le> spec_npre r" "spec_npre r \<le> spec_nsamp r" "spec_npre r \<le> np"
proof -
  have "firstRisingFrameIndex r = u \<and> u - np \<le> spec_start r \<and> spec_end r \<le> u + (ns - np)
      \<and> 0 \<le> spec_npre r \<and> spec_npre r \<le> spec_nsamp r \<and> spec_npre r \<le> np"
  proof (cases "m = EMTRecordsVariableLength")
    case True
    then show ?thesis
      using shouldRecord_variable [of t u v np ns r] assms
      by (auto simp: spec_end_def spec_start_def)
  next
    case False
    then show ?thesis
      using shouldRecord_full [OF assms(1)] assms(4,5) by (auto simp: spec_end_def spec_start_def)
  qed
  then show "firstRisingFrameIndex r = u" "u - np \<le> spec_start r" "spec_end r \<le> u + (ns - np)"
    "0 \<le> spec_npre r" "spec_npre r \<le> spec_nsamp r" "spec_npre r \<le> np" by simp_all
qed

text \<open>
  In the variable-length mode the records of two consecutive triggers never share a sample: the
  record of \<open>u\<close> ends at or before the record of \<open>v\<close> begins, and no record reaches past the
  next trigger.
\<close>

theorem variable_length_records_disjoint:
  assumes "t \<le> u" "u \<le> v" "v \<le> w" "0 \<le> np" "np \<le> ns" "ns < 2 ^ 31"
    and "edgeMultiShouldRecord t u v np ns EMTRecordsVariableLength = (r1, True)"
    and "edgeMultiShouldRecord u v w np ns EMTRecordsVariableLength = (r2, True)"
  shows "spec_end r1 \<le> spec_start r2 \<and> spec_end r1 \<le> v"
proof -
  note r1 = shouldRecord_variable [OF assms(1,2,4,5,6,7)]
  note r2 = shouldRecord_variable [OF assms(2,3,4,5,6,8)]
  have "spec_end r1 = u + min (ns - np) (v - u)" by (simp add: spec_end_def spec_start_def r1)
  moreover have "u + min (ns - np) (v - u) \<le> spec_start r2" by (simp add: spec_start_def r2)
  ultimately show ?thesis by simp
qed

text \<open>
  In the isolated mode a trigger gets a record exactly when the whole record keeps clear of both
  neighbours: a full record length after the previous trigger and a full post-trigger length before
  the next one.
\<close>

theorem isolated_record_iff:
  assumes "t < u" "u < v" "u \<noteq> 0" "0 < np" "np \<le> ns" "ns < 2 ^ 31"
  shows "snd (edgeMultiShouldRecord t u v np ns EMTRecordsFullLengthIsolated)
    \<longleftrightarrow> t + ns \<le> u \<and> u + (ns - np) \<le> v"
  using assms by (auto simp: edgeMultiShouldRecord_def Let_def to_int32_id min_def)

subsection \<open>Every record lies in the buffer\<close>

text \<open>
  A kink fit that never reports the position 0 by default (see \<open>zero_threshold_within_one\<close>).
\<close>

definition fit_converges :: "solver \<Rightarrow> raw list \<Rightarrow> bool \<Rightarrow> bool" where
  "fit_converges solve raw ezt \<longleftrightarrow>
     (\<forall>i z. zeroThreshold solve raw i ezt = Inr z \<longrightarrow> i - 1 \<le> z \<and> z \<le> i + 1)"

lemma fit_converges_off [simp]: "fit_converges solve raw False"
  by (simp add: fit_converges_def zeroThreshold_def)

lemma find_next_trigger_bounds:
  assumes "edgeMultiFindNextTriggerInd solve raw iFirst i iLast th nm mx ezt = Inr x"
    and "triggerFound x" "1 \<le> mx" "fit_converges solve raw ezt"
  shows "i - 1 \<le> triggerInd x \<and> triggerInd x + 1 \<le> nextIFirst x
    \<and> triggerInd x \<le> iLast + 1 \<and> nextIFirst x \<le> iLast + mx + 1 \<and> i + 2 \<le> nextIFirst x"
  using assms(1,2)
proof (induction "nat (iLast + 1 - i)" arbitrary: i rule: less_induct)
  case less
  from less.prems(1) show ?case
  proof (cases rule: find_next_cases)
    case exhausted
    with less.prems(2) show ?thesis by simp
  next
    case (found a b n z)
    have "1 \<le> n" "n \<le> mx" using count_monotone_bounds [OF found(5)] assms(3) by simp_all
    moreover have "i - 1 \<le> z" "z \<le> i + 1"
      using assms(4) found(7) by (auto simp: fit_converges_def)
    ultimately show ?thesis using found by simp
  next
    case later
    then show ?thesis using less.hyps [of "i + 1"] less.prems(2) by auto
  qed
qed

text \<open>
  The state between two buffers, where \<open>E\<close> is the first frame not yet seen: the search stopped
  at most a post-trigger length before \<open>E\<close>, and a trigger whose record is still owed (\<open>v\<close> differs
  from \<open>u\<close>) is at most a record length behind that point.
\<close>

definition emt_ok :: "EMTState \<Rightarrow> frame_index \<Rightarrow> bool" where
  "emt_ok s E \<longleftrightarrow> 0 < nextFrameIndexToInspect s \<and> nextFrameIndexToInspect s \<le> E
     \<and> E - (nsamp s - npre s) \<le> nextFrameIndexToInspect s
     \<and> emt_t s \<le> emt_u s \<and> emt_u s \<le> emt_v s \<and> emt_v s < nextFrameIndexToInspect s
     \<and> (emt_v s = emt_u s \<or> emt_v s = 0 \<or> nextFrameIndexToInspect s - nsamp s \<le> emt_v s)"

definition in_buffer :: "EMTState \<Rightarrow> frame_index \<Rightarrow> int \<Rightarrow> RecordSpec \<Rightarrow> bool" where
  "in_buffer s F len r \<longleftrightarrow> F \<le> spec_start r \<and> spec_end r \<le> F + len
     \<and> 0 \<le> spec_npre r \<and> spec_npre r \<le> spec_nsamp r \<and> spec_npre r \<le> npre s"

lemma shouldRecord_in_buffer:
  assumes "edgeMultiShouldRecord t u v (npre s) (nsamp s) m = (r, valid)" "valid"
    and "t \<le> u" "u \<le> v" "0 \<le> npre s" "npre s \<le> nsamp s" "nsamp s < 2 ^ 31"
    and "u = t \<or> u = 0 \<or> F + npre s \<le> u" "u + (nsamp s - npre s) \<le> F + len"
  shows "in_buffer s F len r"
proof -
  have "u \<noteq> 0" "u \<noteq> t"
    using assms(1,2) by (auto simp: edgeMultiShouldRecord_def Let_def no_spec_def split: if_splits)
  then show ?thesis
    using shouldRecord_bounds [of t u v "npre s" "nsamp s" m r] assms by (auto simp: in_buffer_def)
qed

lemma emt_loop_in_buffer:
  assumes "emt_loop solve s raw F iFirst iLast mx (t, u, v) specs = Inr (specs', iF, t', u', v')"
    and "0 \<le> npre s" "npre s < nsamp s" "nsamp s < 2 ^ 31" "mx = nsamp s - npre s"
    and "iLast = int (length raw) - 1 - mx" "fit_converges solve raw (enableZeroThreshold s)"
    and "t \<le> u" "u \<le> v" "v < F + iFirst" "v = u \<or> v = 0 \<or> F + npre s \<le> v"
    and "npre s < iFirst" "iFirst \<le> int (length raw)" "\<forall>r\<in>set specs. in_buffer s F (int (length raw)) r"
  shows "(\<forall>r\<in>set specs'. in_buffer s F (int (length raw)) r) \<and> t' \<le> u' \<and> u' \<le> v' \<and> v' < F + iF
    \<and> (v' = u' \<or> v' = 0 \<or> F + npre s \<le> v') \<and> iLast + 1 \<le> iF \<and> iF \<le> int (length raw)"
  using assms
proof (induction "nat (iLast + 1 - iFirst)" arbitrary: iFirst t u v specs rule: less_induct)
  case less
  let ?len = "int (length raw)"
  note unf = emt_loop.simps [of solve s raw F iFirst iLast mx t u v specs]
  obtain x where x: "edgeMultiFindNextTriggerInd solve raw iFirst iFirst iLast (threshold s)
      (nmonotone s) mx (enableZeroThreshold s) = Inr x"
    using less.prems(1) unfolding unf bind_go_Inr_iff by blast
  have mx: "1 \<le> mx" and iL: "iLast + mx + 1 = ?len" using less.prems(3,5,6) by simp_all
  show ?case
  proof (cases "triggerFound x")
    case False
    have iF: "nextIFirst x = max (iLast + 1) iFirst" using find_next_progress [OF x] False by simp
    have "Inr (specs', iF, t', u', v') = (Inr (specs, nextIFirst x, t, u, v) ::
        (RecordSpec list \<times> int \<times> frame_index \<times> frame_index \<times> frame_index) go)"
      using less.prems(1) False unfolding unf x by simp
    then show ?thesis using less.prems(8-14) iF mx iL by simp
  next
    case True
    note b = find_next_trigger_bounds [OF x True mx less.prems(7)]
    have pr: "iFirst \<le> iLast" using find_next_progress [OF x] True by simp
    define w where "w = triggerInd x + F"
    obtain r valid where r: "edgeMultiShouldRecord u v w (npre s) (nsamp s) (mode s) = (r, valid)"
      by (metis prod.exhaust)
    have w: "v \<le> w" "F + npre s \<le> w" "w < F + nextIFirst x"
      using b less.prems(10,12) by (simp_all add: w_def)
    have vend: "v + (nsamp s - npre s) \<le> F + ?len"
      using less.prems(5,10) pr iL by simp
    have old: "v = u \<or> v = 0 \<or> F + npre s \<le> v" by (rule less.prems(11))
    have inb: "in_buffer s F ?len r" if valid
      using less.prems(2,3,4,9) old vend w that by (intro shouldRecord_in_buffer [OF r]) simp_all
    have step: "emt_loop solve s raw F (nextIFirst x) iLast mx (u, v, w)
        (if valid then specs @ [r] else specs) = Inr (specs', iF, t', u', v')"
      using less.prems(1) True unfolding unf x by (simp add: Let_def r flip: w_def)
    have m: "nat (iLast + 1 - nextIFirst x) < nat (iLast + 1 - iFirst)" using pr b by simp
    have sp: "\<forall>r\<in>set (if valid then specs @ [r] else specs). in_buffer s F ?len r"
      using less.prems(14) inb by simp
    show ?thesis
      using b iL less.prems(9,12) w
      by (intro less.hyps [OF m step less.prems(2-7) less.prems(9) w(1) w(3) _ _ _ sp]) simp_all
  qed
qed

text \<open>
  The data kept from one buffer to the next is enough.  When at least \<open>2 * nsamp\<close> samples
  were retained in front of the new ones, every record the search asks for lies inside the buffer,
  and the search ends in a state for which the same holds at the next buffer.
\<close>

theorem emt_records_in_buffer:
  assumes "edgeMultiComputeRecordSpecs solve s raw F = Inr (specs, s')"
    and "emt_ok s (F + kept)" "2 * nsamp s \<le> kept" "kept \<le> int (length raw)" "0 \<le> F"
    and "0 < npre s" "npre s < nsamp s" "nsamp s < 2 ^ 30" "int (length raw) < 2 ^ 31"
    and "fit_converges solve raw (enableZeroThreshold s)"
  shows "(\<forall>r\<in>set specs. F \<le> spec_start r \<and> spec_end r \<le> F + int (length raw) \<and> 0 \<le> spec_npre r)
    \<and> emt_ok s' (F + int (length raw))"
proof -
  let ?la = "nsamp s - npre s" and ?len = "int (length raw)"
  let ?iL = "?len - 1 - ?la" and ?i0 = "nextFrameIndexToInspect s - F"
  note ok = assms(2) [unfolded emt_ok_def]
  have la: "to_int32 ?la = ?la" and iL: "to_int32 (to_int32 ?len - 1 - ?la) = ?iL"
    using assms by (simp_all add: to_int32_id)
  have i0: "to_int32 ?i0 = ?i0" "npre s < ?i0" "?i0 \<le> ?len"
    using ok assms by (auto intro: to_int32_id)
  obtain specs0 iF t u v where
    lp: "emt_loop solve s raw F ?i0 ?iL ?la (emt_t s, emt_u s, emt_v s) [] = Inr (specs0, iF, t, u, v)"
    and rest: "(let next = iF + F in
      if 0 < v \<and> v < next - nsamp s
      then let (spec, valid) = edgeMultiShouldRecord u v next (npre s) (nsamp s) (mode s);
               specs' = (if valid then specs0 @ [spec] else specs0)
           in Inr (specs', s\<lparr>emt_t := t, emt_u := v, emt_v := v, nextFrameIndexToInspect := next\<rparr>)
      else Inr (specs0, s\<lparr>emt_t := t, emt_u := u, emt_v := v, nextFrameIndexToInspect := next\<rparr>))
      = (Inr (specs, s') :: (RecordSpec list \<times> EMTState) go)"
    using assms(1) i0 unfolding edgeMultiComputeRecordSpecs_def la Let_def
    by (auto simp: bind_go_Inr_iff iL)
  have inv: "(\<forall>r\<in>set specs0. in_buffer s F ?len r) \<and> t \<le> u \<and> u \<le> v \<and> v < F + iF
    \<and> (v = u \<or> v = 0 \<or> F + npre s \<le> v) \<and> ?iL + 1 \<le> iF \<and> iF \<le> ?len"
    using ok assms(3,4,5,6,7,8,10) i0 by (intro emt_loop_in_buffer [OF lp]) auto
  have bd: "F + ?len - ?la \<le> iF + F" "iF + F \<le> F + ?len" "0 < iF + F" using inv assms(3-7) by auto
  have inbI: "(\<forall>r\<in>set specs. F \<le> spec_start r \<and> spec_end r \<le> F + ?len \<and> 0 \<le> spec_npre r)"
    if "\<forall>r\<in>set specs. in_buffer s F ?len r" using that by (simp add: in_buffer_def)
  show ?thesis
  proof (cases "0 < v \<and> v < iF + F - nsamp s")
    case True
    obtain r valid where r: "edgeMultiShouldRecord u v (iF + F) (npre s) (nsamp s) (mode s) = (r, valid)"
      by (metis prod.exhaust)
    have e: "specs = (if valid then specs0 @ [r] else specs0)"
      "s' = s\<lparr>emt_t := t, emt_u := v, emt_v := v, nextFrameIndexToInspect := iF + F\<rparr>"
      using rest True by (simp_all add: Let_def r)
    have "in_buffer s F ?len r" if valid
      using that inv assms(6,7,8) bd True by (intro shouldRecord_in_buffer [OF r]) auto
    then have 1: "\<forall>r\<in>set specs. in_buffer s F ?len r" using inv by (simp add: e(1))
    have "emt_ok s' (F + ?len)" using bd inv by (simp add: emt_ok_def e(2))
    then show ?thesis using inbI [OF 1] by blast
  next
    case False
    have e: "specs = specs0"
      "s' = s\<lparr>emt_t := t, emt_u := u, emt_v := v, nextFrameIndexToInspect := iF + F\<rparr>"
      using rest unfolding Let_def if_not_P [OF False] by simp_all
    have 1: "\<forall>r\<in>set specs. in_buffer s F ?len r" using inv by (simp add: e(1))
    have "v = u \<or> v = 0 \<or> iF + F - nsamp s \<le> v" using False inv assms(5,6) bd by auto
    then have "emt_ok s' (F + ?len)" using bd inv by (simp add: emt_ok_def e(2))
    then show ?thesis using inbI [OF 1] by blast
  qed
qed

subsection \<open>A wrapped index blinds the search\<close>

text \<open>
  C15: After a reset the search index is computed by converting the negated frame number of the
  buffer to \<open>int32\<close>.  For a buffer that starts in the upper half of a 32-bit range of frame numbers
  the conversion wraps to a large positive index, which the code does not recognise as a reset
  state: whatever the data, no record is produced, and nothing before frame \<open>2 ^ 32\<close> will be
  inspected.
\<close>

theorem emt_search_blind_after_reset:
  assumes "nextFrameIndexToInspect s = 0" "emt_v s = 0"
    and "2 ^ 31 < F" "F + int (length raw) \<le> 2 ^ 32"
    and "0 < npre s" "npre s \<le> int (length raw)" "npre s < nsamp s" "nsamp s < 2 ^ 30"
  shows "\<exists>s'. edgeMultiComputeRecordSpecs solve s raw F = Inr ([], s')
    \<and> nextFrameIndexToInspect s' = 2 ^ 32"
proof -
  let ?la = "nsamp s - npre s" and ?len = "int (length raw)"
  have "to_int32 (- F) = to_int32 (2 ^ 32 - F)"
    unfolding to_int32_def signed_take_bit_eq_iff_take_bit_eq
    by (simp add: take_bit_eq_mod mod_diff_left_eq [of "2 ^ 32", symmetric] flip: mod_diff_left_eq)
  then have i0: "to_int32 (nextFrameIndexToInspect s - F) = 2 ^ 32 - F"
    using assms by (simp add: to_int32_id)
  have la: "to_int32 ?la = ?la" and iL: "to_int32 (to_int32 ?len - 1 - ?la) = ?len - 1 - ?la"
    using assms by (simp_all add: to_int32_id)
  have big: "\<not> 2 ^ 32 - F < npre s" "2 ^ 32 - F > ?len - 1 - ?la" using assms by auto
  have "emt_loop solve s raw F (2 ^ 32 - F) (?len - 1 - ?la) ?la (emt_t s, emt_u s, emt_v s) []
      = Inr ([], 2 ^ 32 - F, emt_t s, emt_u s, emt_v s)"
    using big(2) by (subst emt_loop.simps) (subst edgeMultiFindNextTriggerInd.simps, simp)
  then show ?thesis
    using big(1) assms(2) by (simp add: edgeMultiComputeRecordSpecs_def la iL i0 Let_def)
qed

subsection \<open>Configurations on which the statements apply\<close>

definition demo_emt :: EMTState where
  "demo_emt = EMTState_zero\<lparr>mode := EMTRecordsVariableLength, threshold := 10, nmonotone := 1,
     npre := 3, nsamp := 8\<rparr>"

definition no_solution :: solver where
  "no_solution A y = ((Fin 0, Fin 0, Fin 0), True)"

lemma demo_emt_simps [simp]:
  "npre demo_emt = 3" "nsamp demo_emt = 8" "nmonotone demo_emt = 1" "\<not> enableZeroThreshold demo_emt"
  "nextFrameIndexToInspect demo_emt = 0" "emt_v demo_emt = 0"
  by (simp_all add: demo_emt_def EMTState_zero_def)

theorem emt_search_never_panics_witness:
  "\<exists>specs s'. edgeMultiComputeRecordSpecs no_solution demo_emt [0, 0, 0, 0, 0, 100, 100] 5
    = Inr (specs, s')"
  by (rule emt_search_never_panics) (simp_all add: EMT_valid_def)

theorem zero_threshold_within_one_witness:
  "\<exists>z. zeroThreshold no_solution (replicate 20 7) 10 True = Inr z \<and> z \<in> {9, 10, 11, 0}"
proof -
  obtain z where z: "zeroThreshold no_solution (replicate 20 7) 10 True = Inr z"
    using zeroThreshold_total [of True 10 "replicate 20 7" no_solution] by auto
  then show ?thesis using zero_threshold_within_one [OF z] by auto
qed

theorem variable_length_records_disjoint_witness:
  "spec_end (fst (edgeMultiShouldRecord 100 104 110 3 8 EMTRecordsVariableLength))
    \<le> spec_start (fst (edgeMultiShouldRecord 104 110 130 3 8 EMTRecordsVariableLength))"
proof -
  have "edgeMultiShouldRecord 100 104 110 3 8 EMTRecordsVariableLength
      = (\<lparr>firstRisingFrameIndex = 104, spec_npre = 0, spec_nsamp = 5\<rparr>, True)"
    "edgeMultiShouldRecord 104 110 130 3 8 EMTRecordsVariableLength
      = (\<lparr>firstRisingFrameIndex = 110, spec_npre = 1, spec_nsamp = 6\<rparr>, True)"
    by (simp_all add: edgeMultiShouldRecord_def Let_def to_int32_id)
  then show ?thesis using variable_length_records_disjoint [of 100 104 110 130 3 8] by simp
qed

theorem isolated_record_iff_witness:
  "snd (edgeMultiShouldRecord 100 110 130 3 8 EMTRecordsFullLengthIsolated)"
  by (subst isolated_record_iff) simp_all

theorem emt_records_in_buffer_witness:
  "\<exists>specs s'. edgeMultiComputeRecordSpecs no_solution
      (demo_emt\<lparr>nextFrameIndexToInspect := 116, emt_t := 50, emt_u := 50, emt_v := 50\<rparr>)
      (replicate 20 0 @ replicate 12 100) 100 = Inr (specs, s')
    \<and> (\<forall>r\<in>set specs. 100 \<le> spec_start r \<and> spec_end r \<le> 132)"
proof -
  let ?s = "demo_emt\<lparr>nextFrameIndexToInspect := 116, emt_t := 50, emt_u := 50, emt_v := 50\<rparr>"
  let ?raw = "replicate 20 0 @ replicate 12 100 :: raw list"
  obtain specs s' where r: "edgeMultiComputeRecordSpecs no_solution ?s ?raw 100 = Inr (specs, s')"
    using emt_search_never_panics [of ?s ?raw no_solution 100] by (auto simp: EMT_valid_def)
  have "emt_ok ?s (100 + 16)" by (simp add: emt_ok_def)
  then show ?thesis using emt_records_in_buffer [OF r, of 16] r by auto
qed

theorem emt_search_blind_after_reset_witness:
  "\<exists>s'. edgeMultiComputeRecordSpecs no_solution demo_emt (replicate 20 0 @ replicate 12 100) (3 * 10 ^ 9)
    = Inr ([], s') \<and> nextFrameIndexToInspect s' = 2 ^ 32"
  by (rule emt_search_blind_after_reset) simp_all

end
