(* ===== verification/Triggering.thy ===== *)
theory Triggering
  imports EdgeMulti
begin

text \<open>
  Triggering of one channel (\<open>triggering.go\<close> and \<open>edgeMultiTriggerComputeAppend\<close>): the passes
  that find edge, level and auto triggers in the channel's buffer, the records cut from the buffer
  around each trigger, and \<open>TriggerData\<close>, which runs the passes and keeps the trigger list for the
  broker.  A Go \<open>nil\<close> record is \<open>None\<close>.  A slice expression is checked against the length of the
  slice, so an access that only the spare capacity behind the slice would satisfy counts as a panic.
\<close>

subsection \<open>State\<close>

record triggerList =
  tl_channelIndex :: int
  tl_frames :: "frame_index list"
  tl_keyFrame :: frame_index
  tl_keyTime :: go_time
  tl_sampleRate :: go_float
  firstFrameThatCannotTrigger :: frame_index

record TriggerState =
  AutoTrigger :: bool
  AutoDelay :: go_duration
  AutoVetoRange :: raw
  LevelTrigger :: bool
  LevelRising :: bool
  LevelLevel :: raw
  EdgeTrigger :: bool
  EdgeRising :: bool
  EdgeFalling :: bool
  EdgeLevel :: int
  EdgeMulti :: bool
  emtRPCFields :: EMTBackwardCompatibleRPCFields
  emtState :: EMTState

text \<open>The part of \<open>DataStreamProcessor\<close> that triggering reads and writes.\<close>

record dsp =
  channelIndex :: int
  NSamples :: int
  NPresamples :: int
  SampleRate :: go_float
  LastTrigger :: frame_index
  stream :: data_stream
  lastTrigList :: triggerList
  triggerState :: TriggerState

subsection \<open>Cutting a record out of the buffer\<close>

fun to_f32 :: "go_float \<Rightarrow> go_float" where
  "to_f32 (Fin q) = r32 q"
| "to_f32 x = x"

definition cut_record :: "'a dsp_scheme \<Rightarrow> int \<Rightarrow> int \<Rightarrow> raw list \<Rightarrow> data_record" where
  "cut_record d i np data =
     \<lparr>recData = data, trigFrame = firstFrameIndex (stream d) + i, trigTime = TimeOf (stream d) i,
      recSigned = signedData (stream d), recChannelIndex = channelIndex d, presamples = np,
      recVoltsPerArb = voltsPerArb (stream d),
      sampPeriod = to_f32 (fdiv r64 (Fin 1) (SampleRate d)),
      pretrigMean = Fin 0, pretrigDelta = Fin 0, pulseAverage = Fin 0, pulseRMS = Fin 0,
      peakValue = Fin 0, modelCoefs = [], residualStdDev = Fin 0\<rparr>"

text \<open>\<open>make([]RawType, NSamples)\<close> panics on a negative length.\<close>

definition triggerAtSpecificSamples ::
  "'a dsp_scheme \<Rightarrow> int \<Rightarrow> int \<Rightarrow> int \<Rightarrow> data_record option go" where
  "triggerAtSpecificSamples d i np ns =
     (if ns < 0 then Inl SliceBounds
      else if i < np then Inr None
      else bind_go (slice_go (rawData (stream d)) (i - np) (i + ns - np)) (\<lambda>data.
        Inr (Some (cut_record d i np data))))"

definition triggerAt :: "'a dsp_scheme \<Rightarrow> int \<Rightarrow> data_record option go" where
  "triggerAt d i = triggerAtSpecificSamples d i (NPresamples d) (NSamples d)"

definition firstPotentialTriggerFrame :: "'a dsp_scheme \<Rightarrow> int" where
  "firstPotentialTriggerFrame d =
     (let nextPotentialTrig = (LastTrigger d - firstFrameIndex (stream d)) + NSamples d in
      if nextPotentialTrig < NPresamples d then NPresamples d else nextPotentialTrig)"

text \<open>\<open>Duration.Seconds\<close> and \<open>int(dsp.AutoDelay.Seconds()*dsp.SampleRate + 0.5)\<close>.\<close>

definition duration_seconds :: "go_duration \<Rightarrow> go_float" where
  "duration_seconds t =
     fadd r64 (f64_of_int (quot_int t 1000000000))
       (fdiv r64 (f64_of_int (rem_int t 1000000000)) (Fin 1000000000))"

definition autoDelayInSamples :: "'a dsp_scheme \<Rightarrow> int" where
  "autoDelayInSamples d = int_of_f64 (fadd r64
     (fmul r64 (duration_seconds (AutoDelay (triggerState d))) (SampleRate d)) (Fin (1 / 2)))"

definition firstPotentialAutoTriggerFrame :: "'a dsp_scheme \<Rightarrow> int" where
  "firstPotentialAutoTriggerFrame d =
     (let autoDelaySamples = autoDelayInSamples d;
          mindelay = (if autoDelaySamples > NSamples d then autoDelaySamples else NSamples d);
          nextPotentialTrig = (LastTrigger d - firstFrameIndex (stream d)) + mindelay
      in if nextPotentialTrig < NPresamples d then NPresamples d else nextPotentialTrig)"

text \<open>Signed samples are moved up by \<open>2^15\<close> so that their order is that of unsigned values.\<close>

definition comparable :: "'a dsp_scheme \<Rightarrow> raw list" where
  "comparable d = (if signedData (stream d) then map (\<lambda>x. x + 32768) (rawData (stream d))
                   else rawData (stream d))"

text \<open>The index from which on no whole record fits into the buffer.\<close>

definition trig_limit :: "'a dsp_scheme \<Rightarrow> int" where
  "trig_limit d = int (length (rawData (stream d))) + NPresamples d - NSamples d"

lemma triggerAt_Inr_nonneg: "triggerAt d i = Inr r \<Longrightarrow> 0 \<le> NSamples d"
  by (auto simp: triggerAt_def triggerAtSpecificSamples_def split: if_splits)

subsection \<open>Edge triggers\<close>

definition edge_condition :: "TriggerState \<Rightarrow> raw \<Rightarrow> raw \<Rightarrow> raw \<Rightarrow> raw \<Rightarrow> bool" where
  "edge_condition ts r0 r1 r2 r3 =
     (let diff = uint r0 + uint r1 - uint r2 - uint r3 in
      (EdgeRising ts \<and> diff \<ge> EdgeLevel ts) \<or> (EdgeFalling ts \<and> diff \<le> to_int32 (- EdgeLevel ts)))"

function edge_loop ::
  "'a dsp_scheme \<Rightarrow> raw list \<Rightarrow> int \<Rightarrow> data_record option list \<Rightarrow> data_record option list go" where
  "edge_loop d raw i records =
     (if i < trig_limit d
      then bind_go (idx raw i) (\<lambda>r0. bind_go (idx raw (i - 1)) (\<lambda>r1.
        bind_go (idx raw (i - 2)) (\<lambda>r2. bind_go (idx raw (i - 3)) (\<lambda>r3.
          if edge_condition (triggerState d) r0 r1 r2 r3
          then bind_go (triggerAt d i) (\<lambda>newRecord.
            edge_loop d raw (i + NSamples d + 1) (records @ [newRecord]))
          else edge_loop d raw (i + 1) records))))
      else Inr records)"
  by pat_completeness auto
termination
  by (relation "measure (\<lambda>(d, raw, i, records). nat (trig_limit d - i))")
    (auto dest: triggerAt_Inr_nonneg)

declare edge_loop.simps [simp del]

definition edgeTriggerComputeAppend ::
  "'a dsp_scheme \<Rightarrow> data_record option list \<Rightarrow> data_record option list go" where
  "edgeTriggerComputeAppend d records =
     (if \<not> EdgeTrigger (triggerState d) then Inr records
      else edge_loop d (comparable d) (firstPotentialTriggerFrame d) records)"

subsection \<open>Level triggers\<close>

text \<open>
  The next trigger found by an earlier pass, as an index into the buffer; \<open>None\<close> stands for the
  code's \<open>math.MaxInt64\<close> when no more are left.
\<close>

fun next_found :: "'a dsp_scheme \<Rightarrow> data_record option list \<Rightarrow> (int option) go" where
  "next_found d [] = Inr None"
| "next_found d (None # rest) = Inl NilDereference"
| "next_found d (Some r # rest) = Inr (Some (trigFrame r - firstFrameIndex (stream d)))"

text \<open>\<open>sort.Sort(RecordSlice(records))\<close> compares every element when there are two or more.\<close>

definition sort_records :: "data_record option list \<Rightarrow> data_record option list go" where
  "sort_records rs =
     (if None \<in> set rs \<and> 2 \<le> length rs then Inl NilDereference
      else Inr (sort_key (\<lambda>r. case r of None \<Rightarrow> 0 | Some x \<Rightarrow> trigFrame x) rs))"

definition level_condition :: "TriggerState \<Rightarrow> raw \<Rightarrow> raw \<Rightarrow> raw \<Rightarrow> bool" where
  "level_condition ts th r0 r1 =
     ((LevelRising ts \<and> r0 \<ge> th \<and> r1 < th) \<or> (\<not> LevelRising ts \<and> r0 \<le> th \<and> r1 > th))"

text \<open>
  \<open>nft\<close> is the next trigger of the earlier passes, \<open>rest\<close> the records after it.
\<close>

function level_loop ::
  "'a dsp_scheme \<Rightarrow> raw list \<Rightarrow> raw \<Rightarrow> int \<Rightarrow> int option \<Rightarrow> data_record option list \<Rightarrow>
   data_record option list \<Rightarrow> data_record option list go" where
  "level_loop d raw th i nft rest records =
     (if i < trig_limit d
      then (case nft of
          Some f \<Rightarrow>
            if i + NSamples d > f
            then bind_go (next_found d rest) (\<lambda>nft'.
              level_loop d raw th ((f + NSamples d - 1) + 1) nft' (tl rest) records)
            else bind_go (idx raw i) (\<lambda>r0. bind_go (idx raw (i - 1)) (\<lambda>r1.
              if level_condition (triggerState d) th r0 r1
              then bind_go (triggerAt d i) (\<lambda>newRecord.
                level_loop d raw th (i + 1) nft rest (records @ [newRecord]))
              else level_loop d raw th (i + 1) nft rest records))
        | None \<Rightarrow>
            bind_go (idx raw i) (\<lambda>r0. bind_go (idx raw (i - 1)) (\<lambda>r1.
              if level_condition (triggerState d) th r0 r1
              then bind_go (triggerAt d i) (\<lambda>newRecord.
                level_loop d raw th (i + 1) nft rest (records @ [newRecord]))
              else level_loop d raw th (i + 1) nft rest records)))
      else Inr records)"
  by pat_completeness auto

text \<open>A skip consumes a trigger of the earlier passes, any other step moves to the next sample.\<close>

definition pending :: "int option \<Rightarrow> 'b list \<Rightarrow> nat" where
  "pending nft rest = (case nft of None \<Rightarrow> 0 | Some _ \<Rightarrow> Suc (length rest))"

lemma next_found_pending: "next_found d rest = Inr nft \<Longrightarrow> pending nft (tl rest) \<le> length rest"
  by (cases "(d, rest)" rule: next_found.cases) (auto simp: pending_def)

termination level_loop
  by (relation "measures [\<lambda>(d, raw, th, i, nft, rest, records). pending nft rest,
        \<lambda>(d, raw, th, i, nft, rest, records). nat (trig_limit d - i)]")
    (auto simp: pending_def dest!: next_found_pending split: option.splits)

declare level_loop.simps [simp del]

definition levelTriggerComputeAppend ::
  "'a dsp_scheme \<Rightarrow> data_record option list \<Rightarrow> data_record option list go" where
  "levelTriggerComputeAppend d records =
     (if \<not> LevelTrigger (triggerState d) then Inr records
      else bind_go (next_found d records) (\<lambda>nft.
        let th = (if signedData (stream d) then LevelLevel (triggerState d) + 32768
                  else LevelLevel (triggerState d)) in
        bind_go (level_loop d (comparable d) th (firstPotentialTriggerFrame d) nft (tl records) records)
          sort_records))"

subsection \<open>Auto triggers\<close>

text \<open>The running maximum and minimum of the record, as the code's loop updates them.\<close>

definition minmax_step :: "raw \<times> raw \<Rightarrow> raw \<Rightarrow> raw \<times> raw" where
  "minmax_step mm x = (case mm of (maxD, minD) \<Rightarrow>
     if x > maxD then (x, minD) else if x < minD then (maxD, x) else (maxD, minD))"

definition auto_vetoed :: "'a dsp_scheme \<Rightarrow> int \<Rightarrow> bool go" where
  "auto_vetoed d i =
     (if AutoVetoRange (triggerState d) > 0
      then let start = i - NPresamples d; finish = start + NSamples d in
        bind_go (idx (rawData (stream d)) start) (\<lambda>d0.
          bind_go (mapM_go (idx (rawData (stream d))) [start + 1..finish - 1]) (\<lambda>ds.
            case foldl minmax_step (d0, d0) ds of (maxD, minD) \<Rightarrow>
              Inr (maxD - minD \<ge> AutoVetoRange (triggerState d))))
      else Inr False)"

text \<open>
  The loop over potential trigger times.  Its step is \<open>autoDelay\<close> samples; for a step that is not
  positive it need not end, so its value is \<open>None\<close> when it does not return.
\<close>

partial_function (option) auto_loop ::
  "'a dsp_scheme \<Rightarrow> int \<Rightarrow> int \<Rightarrow> int option \<Rightarrow> data_record option list \<Rightarrow>
   data_record option list \<Rightarrow> data_record option list go option" where
  "auto_loop d autoDelay i nft rest records =
     (if i + NSamples d - NPresamples d < int (length (rawData (stream d)))
      then (if (case nft of None \<Rightarrow> True | Some f \<Rightarrow> i + NSamples d \<le> f)
            then (case auto_vetoed d i of
                Inl p \<Rightarrow> Some (Inl p)
              | Inr vetoed \<Rightarrow>
                  (if \<not> vetoed
                   then (case triggerAt d i of
                       Inl p \<Rightarrow> Some (Inl p)
                     | Inr newRecord \<Rightarrow>
                         auto_loop d autoDelay (i + autoDelay) nft rest (records @ [newRecord]))
                   else auto_loop d autoDelay (i + autoDelay) nft rest records))
            else (case next_found d rest of
                Inl p \<Rightarrow> Some (Inl p)
              | Inr nft' \<Rightarrow> auto_loop d autoDelay (the nft + autoDelay) nft' (tl rest) records))
      else Some (Inr records))"

definition autoDelaySamples :: "'a dsp_scheme \<Rightarrow> int" where
  "autoDelaySamples d =
     (if autoDelayInSamples d < NSamples d then NSamples d else autoDelayInSamples d)"

definition autoTriggerComputeAppend ::
  "'a dsp_scheme \<Rightarrow> data_record option list \<Rightarrow> data_record option list go option" where
  "autoTriggerComputeAppend d records =
     (if \<not> AutoTrigger (triggerState d) then Some (Inr records)
      else case next_found d records of
          Inl p \<Rightarrow> Some (Inl p)
        | Inr nft \<Rightarrow>
            map_option (\<lambda>m. bind_go m sort_records)
              (auto_loop d (autoDelaySamples d) (firstPotentialAutoTriggerFrame d) nft (tl records) records))"

subsection \<open>Edge-multi triggers and the whole step\<close>

definition edgeMultiTriggerComputeAppend ::
  "solver \<Rightarrow> 'a dsp_scheme \<Rightarrow> data_record option list \<Rightarrow> ('a dsp_scheme \<times> data_record option list) go" where
  "edgeMultiTriggerComputeAppend solve d records =
     bind_go (edgeMultiComputeRecordSpecs solve (emtState (triggerState d)) (rawData (stream d))
                (firstFrameIndex (stream d))) (\<lambda>(recordSpecs, s).
       bind_go (mapM_go (\<lambda>r. triggerAtSpecificSamples d
                  (firstRisingFrameIndex r - firstFrameIndex (stream d)) (spec_npre r) (spec_nsamp r))
                recordSpecs) (\<lambda>new.
         Inr (d\<lparr>triggerState := (triggerState d)\<lparr>emtState := s\<rparr>\<rparr>, records @ new)))"

definition primary_records ::
  "solver \<Rightarrow> 'a dsp_scheme \<Rightarrow> ('a dsp_scheme \<times> data_record option list) go option" where
  "primary_records solve d =
     (if EdgeMulti (triggerState d) then Some (edgeMultiTriggerComputeAppend solve d [])
      else case bind_go (edgeTriggerComputeAppend d []) (levelTriggerComputeAppend d) of
          Inl p \<Rightarrow> Some (Inl p)
        | Inr records \<Rightarrow>
            map_option (\<lambda>m. bind_go m (\<lambda>rs. Inr (d, rs))) (autoTriggerComputeAppend d records))"

definition finish_triggers :: "'a dsp_scheme \<Rightarrow> data_record option list \<Rightarrow> 'a dsp_scheme \<times> data_record list" where
  "finish_triggers d rs =
     (let records = List.map_filter id rs;
          d1 = (if records = [] then d else d\<lparr>LastTrigger := trigFrame (last records)\<rparr>);
          st = stream d;
          trigList = \<lparr>tl_channelIndex = channelIndex d, tl_frames = map trigFrame records,
            tl_keyFrame = firstFrameIndex st, tl_keyTime = firstTime st,
            tl_sampleRate = SampleRate d,
            firstFrameThatCannotTrigger = firstFrameIndex st + int (length (rawData st))
              - (NSamples d - NPresamples d)\<rparr>
      in (d1\<lparr>lastTrigList := trigList\<rparr>, records))"

definition TriggerData ::
  "solver \<Rightarrow> 'a dsp_scheme \<Rightarrow> ('a dsp_scheme \<times> data_record list) go option" where
  "TriggerData solve d =
     map_option (\<lambda>m. bind_go m (\<lambda>(d', rs). Inr (finish_triggers d' rs))) (primary_records solve d)"

definition TriggerDataSecondary ::
  "'a dsp_scheme \<Rightarrow> frame_index list \<Rightarrow> data_record option list go" where
  "TriggerDataSecondary d secondaryTrigList =
     mapM_go (\<lambda>st. triggerAt d (st - firstFrameIndex (stream d))) secondaryTrigList"

end
