(* ===== verification/PulseFiles.thy ===== *)
theory PulseFiles
  imports Triggering Bytes "HOL-Library.Sublist"
begin

text \<open>
  Pulse files and the publication of records: the writers of LJH 2.2 and LJH 3 files
  (\<open>internal/ljh\<close>), of OFF files (\<open>internal/off\<close>), the reader of LJH records, and
  \<open>publish_data.go\<close>, which sends each batch of records to the sockets and to the active writers.

  A writer sees its asynchronous file as a sequence of calls to \<open>Write\<close>, each of which is accepted or
  refused as the channel of \<open>AsyncWriter\<close> has room.  When it has room is up to the environment; so
  are the results of \<open>os.Create\<close>, the text that \<open>time.Format\<close>, the float verbs of \<open>fmt\<close> and
  \<open>encoding/json\<close> produce, and the version of the build.
\<close>

subsection \<open>The environment and asynchronous files\<close>

record async_file =
  accepted :: "u8 list list"
  attempts :: nat

datatype file_error =
    CreateFailed | FileExists | HeaderAlreadyWritten | WrongNumberOfSamples int int
  | WrongNumberOfBases int int | MarshalFailed | ShortWrite

definition BUFIOSIZE :: nat where "BUFIOSIZE = 65536"
definition WRITECHANCAPACITY :: nat where "WRITECHANCAPACITY = 1000"

text \<open>\<open>room f k\<close>: the channel of file \<open>f\<close> has room at the \<open>k\<close>-th call of \<open>Write\<close>.\<close>

record file_env =
  can_create :: "string \<Rightarrow> bool"
  room :: "string \<Rightarrow> nat \<Rightarrow> bool"
  format_time :: "go_time \<Rightarrow> string"
  format_fixed6 :: "go_float \<Rightarrow> string"
  format_exponent :: "go_float \<Rightarrow> string"
  build_version :: string
  build_githash :: string

definition aw_write :: "(nat \<Rightarrow> bool) \<Rightarrow> async_file \<Rightarrow> u8 list \<Rightarrow> async_file \<times> bool" where
  "aw_write ok f p =
     (if ok (attempts f) then (\<lparr>accepted = accepted f @ [p], attempts = Suc (attempts f)\<rparr>, True)
      else (f\<lparr>attempts := Suc (attempts f)\<rparr>, False))"

text \<open>A sequence of writes, each returning its error at once.\<close>

fun write_chunks :: "(nat \<Rightarrow> bool) \<Rightarrow> async_file \<Rightarrow> u8 list list \<Rightarrow> async_file \<times> bool" where
  "write_chunks ok f [] = (f, True)"
| "write_chunks ok f (p # ps) =
     (let (f1, okay) = aw_write ok f p in if okay then write_chunks ok f1 ps else (f1, False))"

definition new_file :: async_file where
  "new_file = \<lparr>accepted = [], attempts = 0\<rparr>"

text \<open>Decimal digits of an integer (\<open>%d\<close>).\<close>

function digits :: "nat \<Rightarrow> string" where
  "digits n = (if n < 10 then [char_of (48 + n)] else digits (n div 10) @ [char_of (48 + n mod 10)])"
  by auto
termination by (relation "measure id") auto

declare digits.simps [simp del]

definition fmt_d :: "int \<Rightarrow> string" where
  "fmt_d n = (if n < 0 then ''-'' @ digits (nat (- n)) else digits (nat n))"

definition text_bytes :: "string \<Rightarrow> u8 list" where
  "text_bytes s = map of_char s"

subsection \<open>LJH 2.2\<close>

record ljh_Writer =
  wChannelIndex :: int
  wPresamples :: int
  wSamples :: int
  FramesPerSample :: int
  wSubframeDivisions :: int
  wTimebase :: go_float
  TimestampOffset :: go_time
  wNumberOfRows :: int
  wNumberOfColumns :: int
  wNumberOfChans :: int
  wHeaderWritten :: bool
  FileName :: string
  wRecordsWritten :: int
  DastardVersion :: string
  GitHash :: string
  wSourceName :: string
  ChanName :: string
  ChannelNumberMatchingName :: int
  ColumnNum :: int
  RowNum :: int
  wSubframeOffset :: int
  PixelXPosition :: int
  PixelYPosition :: int
  PixelName :: string
  wFile :: bool
  wWriter :: "async_file option"
  syncwithflush :: bool

definition SetFlushAlsoSyncs :: "ljh_Writer \<Rightarrow> bool \<Rightarrow> ljh_Writer" where
  "SetFlushAlsoSyncs w sync = w\<lparr>syncwithflush := sync\<rparr>"

definition CreateFile :: "file_env \<Rightarrow> ljh_Writer \<Rightarrow> ljh_Writer \<times> file_error option" where
  "CreateFile env w =
     (if \<not> wFile w then
        (if \<not> can_create env (FileName w) then (w, Some CreateFailed)
         else (w\<lparr>wFile := True, wWriter := Some new_file\<rparr>, None))
      else (w, Some FileExists))"

definition nl :: string where "nl = [CHR 0x0A]"

definition header_text :: "file_env \<Rightarrow> ljh_Writer \<Rightarrow> go_time \<Rightarrow> string" where
  "header_text env w firstRecord =
     (let starttime = format_time env (TimestampOffset w);
          timestamp = fdiv r64 (f64_of_int (TimestampOffset w)) (f64_of_int 1000000000);
          firstrec = format_time env firstRecord;
          rowColText = ''Number of rows: '' @ fmt_d (wNumberOfRows w) @ nl
            @ ''Number of columns: '' @ fmt_d (wNumberOfColumns w) @ nl
            @ ''Row number (from 0-'' @ fmt_d (wNumberOfRows w - 1) @ '' inclusive): '' @ fmt_d (RowNum w) @ nl
            @ ''Column number (from 0-'' @ fmt_d (wNumberOfColumns w - 1) @ '' inclusive): '' @ fmt_d (ColumnNum w)
      in ''#LJH Memorial File Format'' @ nl
         @ ''Save File Format Version: 2.2.1'' @ nl
         @ ''Software Version: DASTARD version '' @ DastardVersion w @ nl
         @ ''Software Git Hash: '' @ GitHash w @ nl
         @ ''Data source: '' @ wSourceName w @ nl
         @ rowColText @ nl
         @ ''Number of channels: '' @ fmt_d (wNumberOfChans w) @ nl
         @ ''Channel name: '' @ ChanName w @ nl
         @ ''Channel: '' @ fmt_d (ChannelNumberMatchingName w) @ nl
         @ ''ChannelIndex (in dastard): '' @ fmt_d (wChannelIndex w) @ nl
         @ ''Subframe divisions: '' @ fmt_d (wSubframeDivisions w) @ nl
         @ ''Subframe offset: '' @ fmt_d (wSubframeOffset w) @ nl
         @ ''Digitized Word Size In Bytes: 2'' @ nl
         @ ''Presamples: '' @ fmt_d (wPresamples w) @ nl
         @ ''Total Samples: '' @ fmt_d (wSamples w) @ nl
         @ ''Number of samples per point: '' @ fmt_d (FramesPerSample w) @ nl
         @ ''Timestamp offset (s): '' @ format_fixed6 env timestamp @ nl
         @ ''Server Start Time: '' @ starttime @ nl
         @ ''First Record Time: '' @ firstrec @ nl
         @ ''Pixel X Position: '' @ fmt_d (PixelXPosition w) @ nl
         @ ''Pixel Y Position: '' @ fmt_d (PixelYPosition w) @ nl
         @ ''Pixel Name: '' @ PixelName w @ nl
         @ ''Timebase: '' @ format_exponent env (wTimebase w) @ nl
         @ ''#End of Header'' @ nl)"

text \<open>\<open>WriteHeader\<close> marks the header as written even when its write is refused.\<close>

definition WriteHeader :: "file_env \<Rightarrow> ljh_Writer \<Rightarrow> go_time \<Rightarrow> (ljh_Writer \<times> file_error option) go" where
  "WriteHeader env w firstRecord = (case wWriter w of
     None \<Rightarrow> Inl NilDereference
   | Some f \<Rightarrow>
       (let (f1, okay) = aw_write (room env (FileName w)) f (text_bytes (header_text env w firstRecord)) in
        Inr (w\<lparr>wWriter := Some f1, wHeaderWritten := True\<rparr>, if okay then None else Some ShortWrite)))"

definition WriteRecord ::
  "file_env \<Rightarrow> ljh_Writer \<Rightarrow> int \<Rightarrow> int \<Rightarrow> 16 word list \<Rightarrow> (ljh_Writer \<times> file_error option) go" where
  "WriteRecord env w framecount timestamp data =
     (if int (length data) \<noteq> wSamples w
      then Inr (w, Some (WrongNumberOfSamples (int (length data)) (wSamples w)))
      else let subframeCount = to_int64 (to_int64 (framecount * wSubframeDivisions w) + wSubframeOffset w) in
        (case wWriter w of
           None \<Rightarrow> Inl NilDereference
         | Some f \<Rightarrow>
             (let (f1, okay) = write_chunks (room env (FileName w)) f
                [FromInt64 subframeCount, FromInt64 timestamp, FromSliceUint16 data] in
              if okay then Inr (w\<lparr>wWriter := Some f1, wRecordsWritten := wRecordsWritten w + 1\<rparr>, None)
              else Inr (w\<lparr>wWriter := Some f1\<rparr>, Some ShortWrite))))"

subsection \<open>Reading LJH records\<close>

record PulseRecord =
  TimeCode :: int
  SubframeCount :: int
  Pulse :: "16 word list"

datatype read_error = EOF | UnexpectedEOF

definition binary_read :: "nat \<Rightarrow> u8 list \<Rightarrow> (read_error + u8 list) \<times> u8 list" where
  "binary_read n rd =
     (if n \<le> length rd then (Inr (take n rd), drop n rd)
      else if rd = [] then (Inl EOF, []) else (Inl UnexpectedEOF, []))"

definition NextPulse :: "nat \<Rightarrow> u8 list \<Rightarrow> (read_error + PulseRecord) \<times> u8 list" where
  "NextPulse samples rd = (case binary_read 8 rd of
     (Inl e, rd) \<Rightarrow> (Inl e, rd)
   | (Inr sub, rd) \<Rightarrow> (case binary_read 8 rd of
       (Inl e, rd) \<Rightarrow> (Inl e, rd)
     | (Inr tc, rd) \<Rightarrow> (case binary_read (2 * samples) rd of
         (Inl e, rd) \<Rightarrow> (Inl e, rd)
       | (Inr pulse, rd) \<Rightarrow>
           (Inr \<lparr>TimeCode = signed_of_le tc, SubframeCount = signed_of_le sub,
                 Pulse = codec_u16.dec_all samples pulse\<rparr>, rd))))"

subsection \<open>LJH 3\<close>

record Writer3 =
  w3ChannelIndex :: int
  w3Timebase :: go_float
  w3NumberOfRows :: int
  w3NumberOfColumns :: int
  w3SubframeDivisions :: int
  w3Row :: int
  w3Column :: int
  w3SubframeOffset :: int
  w3HeaderWritten :: bool
  w3FileName :: string
  w3RecordsWritten :: int
  w3File :: bool
  w3Writer :: "async_file option"
  w3syncwithflush :: bool

text \<open>The fields of the JSON header; its text is \<open>json.MarshalIndent\<close> of them.\<close>

record HeaderTDM =
  hNumberOfRows :: int
  hNumberOfColumns :: int
  hSubframeDivisions :: int
  hRow :: int
  hColumn :: int
  hSubframeOffset :: int

record ljh3_Header =
  Frameperiod :: go_float
  hFormat :: string
  hFormatVersion :: string
  hTDM :: HeaderTDM

definition header_of :: "Writer3 \<Rightarrow> ljh3_Header" where
  "header_of w = \<lparr>Frameperiod = w3Timebase w, hFormat = ''LJH3'', hFormatVersion = ''3.0.0'',
     hTDM = \<lparr>hNumberOfRows = w3NumberOfRows w, hNumberOfColumns = w3NumberOfColumns w,
       hSubframeDivisions = w3SubframeDivisions w, hRow = w3Row w, hColumn = w3Column w,
       hSubframeOffset = w3SubframeOffset w\<rparr>\<rparr>"

definition WriteHeader3 ::
  "(ljh3_Header \<Rightarrow> string) \<Rightarrow> file_env \<Rightarrow> Writer3 \<Rightarrow> (Writer3 \<times> file_error option) go" where
  "WriteHeader3 marshal env w =
     (if w3HeaderWritten w then Inr (w, Some HeaderAlreadyWritten)
      else case w3Writer w of
          None \<Rightarrow> Inl NilDereference
        | Some f \<Rightarrow>
            (let (f1, okay) = write_chunks (room env (w3FileName w)) f
                [text_bytes (marshal (header_of w)), text_bytes nl] in
             if okay then Inr (w\<lparr>w3Writer := Some f1, w3HeaderWritten := True\<rparr>, None)
             else Inr (w\<lparr>w3Writer := Some f1\<rparr>, Some ShortWrite)))"

definition WriteRecord3 ::
  "file_env \<Rightarrow> Writer3 \<Rightarrow> int \<Rightarrow> int \<Rightarrow> int \<Rightarrow> 16 word list \<Rightarrow> (Writer3 \<times> file_error option) go" where
  "WriteRecord3 env w firstRisingSample framecount timestamp data = (case w3Writer w of
     None \<Rightarrow> Inl NilDereference
   | Some f \<Rightarrow>
       (let (f1, okay) = write_chunks (room env (w3FileName w)) f
          [FromInt32 (int (length data)), FromInt32 firstRisingSample, FromInt64 framecount,
           FromInt64 timestamp, FromSliceUint16 data] in
        if okay then Inr (w\<lparr>w3Writer := Some f1, w3RecordsWritten := w3RecordsWritten w + 1\<rparr>, None)
        else Inr (w\<lparr>w3Writer := Some f1\<rparr>, Some ShortWrite)))"

definition CreateFile3 :: "file_env \<Rightarrow> Writer3 \<Rightarrow> Writer3 \<times> file_error option" where
  "CreateFile3 env w =
     (if w3File w then (w, Some FileExists)
      else if \<not> can_create env (w3FileName w) then (w, Some CreateFailed)
      else (w\<lparr>w3File := True, w3Writer := Some new_file\<rparr>, None))"

definition SetFlushAlsoSyncs3 :: "Writer3 \<Rightarrow> bool \<Rightarrow> Writer3" where
  "SetFlushAlsoSyncs3 w sync = w\<lparr>w3syncwithflush := sync\<rparr>"

subsection \<open>OFF\<close>

text \<open>A \<open>mat.Dense\<close>: its dimensions and its rows one after the other.\<close>

record dense =
  mrows :: int
  mcols :: int
  mdata :: "go_float list"

record ArrayJsoner =
  ajRows :: int
  ajCols :: int
  SavedAs :: string

definition NewArrayJsoner :: "dense \<Rightarrow> ArrayJsoner" where
  "NewArrayJsoner array = \<lparr>ajRows = mrows array, ajCols = mcols array,
     SavedAs = ''float64 binary data after header and before records. projectors first then basis, nbytes = rows*cols*8 for each projectors and basis''\<rparr>"

record ModelInfo =
  Projectors :: ArrayJsoner
  projectorsMat :: dense
  Basis :: ArrayJsoner
  basisMat :: dense
  Description :: string

record PixelInfo =
  XPosition :: int
  YPosition :: int
  pixName :: string

record CreationInfo =
  ciDastardVersion :: string
  ciGitHash :: string
  ciSourceName :: string
  CreationTime :: go_time

record TimeDivisionMultiplexingInfo =
  tdNumberOfRows :: int
  tdNumberOfColumns :: int
  tdNumberOfChans :: int
  tdSubframeDivisions :: int
  tdColumnNum :: int
  tdRowNum :: int
  tdSubframeOffset :: int

record off_Writer =
  oChannelIndex :: int
  oChannelName :: string
  oChannelNumberMatchingName :: int
  MaxPresamples :: int
  MaxSamples :: int
  FramePeriodSeconds :: go_float
  FileFormat :: string
  FileFormatVersion :: string
  NumberOfBases :: int
  oModelInfo :: ModelInfo
  oCreationInfo :: CreationInfo
  ReadoutInfo :: TimeDivisionMultiplexingInfo
  oPixelInfo :: PixelInfo
  oRecordsWritten :: int
  oFileName :: string
  oHeaderWritten :: bool
  oFile :: bool
  oWriter :: "async_file option"
  osyncwithflush :: bool

definition NewOffWriter ::
  "string \<Rightarrow> int \<Rightarrow> string \<Rightarrow> int \<Rightarrow> int \<Rightarrow> int \<Rightarrow> go_float \<Rightarrow> dense \<Rightarrow> dense \<Rightarrow> string \<Rightarrow> string \<Rightarrow> string \<Rightarrow> string
   \<Rightarrow> TimeDivisionMultiplexingInfo \<Rightarrow> PixelInfo \<Rightarrow> go_time \<Rightarrow> off_Writer" where
  "NewOffWriter fileName chanIndex chanName numberMatching maxPre maxSamp period projs bas modelDescr
     version githash source readout pixel now =
     \<lparr>oChannelIndex = chanIndex, oChannelName = chanName, oChannelNumberMatchingName = numberMatching,
      MaxPresamples = maxPre, MaxSamples = maxSamp, FramePeriodSeconds = period, FileFormat = ''OFF'',
      FileFormatVersion = ''0.3.0'', NumberOfBases = mrows projs,
      oModelInfo = \<lparr>Projectors = NewArrayJsoner projs, projectorsMat = projs, Basis = NewArrayJsoner bas,
        basisMat = bas, Description = modelDescr\<rparr>,
      oCreationInfo = \<lparr>ciDastardVersion = version, ciGitHash = githash, ciSourceName = source, CreationTime = now\<rparr>,
      ReadoutInfo = readout, oPixelInfo = pixel, oRecordsWritten = 0, oFileName = fileName,
      oHeaderWritten = False, oFile = False, oWriter = None, osyncwithflush = False\<rparr>"

definition WriteHeaderOFF ::
  "(off_Writer \<Rightarrow> string option) \<Rightarrow> file_env \<Rightarrow> off_Writer \<Rightarrow> (off_Writer \<times> file_error option) go" where
  "WriteHeaderOFF marshal env w =
     (if oHeaderWritten w then Inr (w, Some HeaderAlreadyWritten)
      else case marshal w of
          None \<Rightarrow> Inr (w, Some MarshalFailed)
        | Some s \<Rightarrow> (case oWriter w of
            None \<Rightarrow> Inl NilDereference
          | Some f \<Rightarrow>
              (let (f1, okay) = write_chunks (room env (oFileName w)) f
                 [text_bytes s, text_bytes nl, FromSliceFloat64 (mdata (projectorsMat (oModelInfo w))),
                  FromSliceFloat64 (mdata (basisMat (oModelInfo w)))] in
               if okay then Inr (w\<lparr>oWriter := Some f1, oHeaderWritten := True\<rparr>, None)
               else Inr (w\<lparr>oWriter := Some f1\<rparr>, Some ShortWrite))))"

definition off_record_chunks ::
  "int \<Rightarrow> int \<Rightarrow> int \<Rightarrow> int \<Rightarrow> go_float \<Rightarrow> go_float \<Rightarrow> go_float \<Rightarrow> go_float list \<Rightarrow> u8 list list" where
  "off_record_chunks recordSamples recordPreSamples framecount timestamp ptMean ptDelta resid data =
     [FromInt32 recordSamples, FromInt32 recordPreSamples, FromInt64 framecount, FromInt64 timestamp,
      FromFloat32 ptMean, FromFloat32 ptDelta, FromFloat32 resid, FromSliceFloat32 data]"

definition WriteRecordOFF ::
  "file_env \<Rightarrow> off_Writer \<Rightarrow> int \<Rightarrow> int \<Rightarrow> int \<Rightarrow> int \<Rightarrow> go_float \<Rightarrow> go_float \<Rightarrow> go_float \<Rightarrow> go_float list
   \<Rightarrow> (off_Writer \<times> file_error option) go" where
  "WriteRecordOFF env w recordSamples recordPreSamples framecount timestamp ptMean ptDelta resid data =
     (if int (length data) \<noteq> NumberOfBases w
      then Inr (w, Some (WrongNumberOfBases (int (length data)) (NumberOfBases w)))
      else case oWriter w of
          None \<Rightarrow> Inl NilDereference
        | Some f \<Rightarrow>
            (let (f1, okay) = write_chunks (room env (oFileName w)) f
               (off_record_chunks recordSamples recordPreSamples framecount timestamp ptMean ptDelta resid data) in
             if okay then Inr (w\<lparr>oWriter := Some f1, oRecordsWritten := oRecordsWritten w + 1\<rparr>, None)
             else Inr (w\<lparr>oWriter := Some f1\<rparr>, Some ShortWrite)))"

definition CreateFileOFF :: "file_env \<Rightarrow> off_Writer \<Rightarrow> off_Writer \<times> file_error option" where
  "CreateFileOFF env w =
     (if \<not> oFile w then
        (if \<not> can_create env (oFileName w) then (w, Some CreateFailed)
         else (w\<lparr>oFile := True, oWriter := Some new_file\<rparr>, None))
      else (w, Some FileExists))"

definition SetFlushAlsoSyncsOFF :: "off_Writer \<Rightarrow> bool \<Rightarrow> off_Writer" where
  "SetFlushAlsoSyncsOFF w sync = w\<lparr>osyncwithflush := sync\<rparr>"

subsection \<open>The publisher of a channel\<close>

text \<open>
  The two sockets are channels of batches of records (\<open>None\<close> is a nil channel).  A removed writer is
  closed, which flushes it; its file stays as the writer left it.
\<close>

record DataPublisher =
  pubRecordsChan :: "data_record list list option"
  pubSummariesChan :: "data_record list list option"
  LJH22 :: "ljh_Writer option"
  LJH3 :: "Writer3 option"
  OFF :: "off_Writer option"
  WritingPaused :: bool
  numberWritten :: int

definition SetPause :: "DataPublisher \<Rightarrow> bool \<Rightarrow> DataPublisher" where
  "SetPause dp pause = dp\<lparr>WritingPaused := pause\<rparr>"

record Pixel =
  pixX :: int
  pixY :: int
  pixelName :: string

definition SetOFF ::
  "file_env \<Rightarrow> DataPublisher \<Rightarrow> int \<Rightarrow> int \<Rightarrow> int \<Rightarrow> int \<Rightarrow> go_float \<Rightarrow> go_time \<Rightarrow> int \<Rightarrow> int \<Rightarrow> int \<Rightarrow> int \<Rightarrow> int \<Rightarrow> int
   \<Rightarrow> int \<Rightarrow> string \<Rightarrow> string \<Rightarrow> string \<Rightarrow> int \<Rightarrow> dense \<Rightarrow> dense \<Rightarrow> string \<Rightarrow> Pixel \<Rightarrow> go_time \<Rightarrow> DataPublisher" where
  "SetOFF env dp chanIndex npres nsamps perSample timebase tsOffset rows columns chans subDivs row col
     subOffset fileName source chanName numberMatching projs bas modelDescr pixel now =
     (let readout = \<lparr>tdNumberOfRows = rows, tdNumberOfColumns = columns, tdNumberOfChans = chans,
            tdSubframeDivisions = subDivs, tdColumnNum = col, tdRowNum = row, tdSubframeOffset = subOffset\<rparr>;
          info = \<lparr>XPosition = pixX pixel, YPosition = pixY pixel, pixName = pixelName pixel\<rparr>;
          w = NewOffWriter fileName chanIndex chanName numberMatching npres nsamps timebase projs bas
                modelDescr (build_version env) (build_githash env) source readout info now
      in dp\<lparr>OFF := Some w, numberWritten := 0\<rparr>)"

definition HasOFF :: "DataPublisher \<Rightarrow> bool" where "HasOFF dp = (OFF dp \<noteq> None)"
definition RemoveOFF :: "DataPublisher \<Rightarrow> DataPublisher" where
  "RemoveOFF dp = dp\<lparr>OFF := None, numberWritten := 0\<rparr>"

definition SetLJH3 :: "DataPublisher \<Rightarrow> int \<Rightarrow> go_float \<Rightarrow> int \<Rightarrow> int \<Rightarrow> int \<Rightarrow> int \<Rightarrow> string \<Rightarrow> DataPublisher" where
  "SetLJH3 dp chanIndex timebase rows columns subDivs subOffset fileName =
     dp\<lparr>LJH3 := Some \<lparr>w3ChannelIndex = chanIndex, w3Timebase = timebase, w3NumberOfRows = rows,
          w3NumberOfColumns = columns, w3SubframeDivisions = subDivs, w3Row = 0, w3Column = 0,
          w3SubframeOffset = subOffset, w3HeaderWritten = False, w3FileName = fileName,
          w3RecordsWritten = 0, w3File = False, w3Writer = None, w3syncwithflush = False\<rparr>,
        WritingPaused := False, numberWritten := 0\<rparr>"

definition HasLJH3 :: "DataPublisher \<Rightarrow> bool" where "HasLJH3 dp = (LJH3 dp \<noteq> None)"
definition RemoveLJH3 :: "DataPublisher \<Rightarrow> DataPublisher" where
  "RemoveLJH3 dp = dp\<lparr>LJH3 := None, numberWritten := 0\<rparr>"

definition SetLJH22 ::
  "file_env \<Rightarrow> DataPublisher \<Rightarrow> int \<Rightarrow> int \<Rightarrow> int \<Rightarrow> int \<Rightarrow> go_float \<Rightarrow> go_time \<Rightarrow> int \<Rightarrow> int \<Rightarrow> int \<Rightarrow> int \<Rightarrow> int \<Rightarrow> int
   \<Rightarrow> int \<Rightarrow> string \<Rightarrow> string \<Rightarrow> string \<Rightarrow> int \<Rightarrow> Pixel \<Rightarrow> DataPublisher" where
  "SetLJH22 env dp chanIndex npres nsamps perSample timebase tsOffset rows columns chans subDivs row col
     subOffset fileName source chanName numberMatching pixel =
     dp\<lparr>LJH22 := Some \<lparr>wChannelIndex = chanIndex, wPresamples = npres, wSamples = nsamps,
          FramesPerSample = perSample, wSubframeDivisions = subDivs, wTimebase = timebase,
          TimestampOffset = tsOffset, wNumberOfRows = rows, wNumberOfColumns = columns,
          wNumberOfChans = chans, wHeaderWritten = False, FileName = fileName, wRecordsWritten = 0,
          DastardVersion = build_version env, GitHash = build_githash env, wSourceName = source,
          ChanName = chanName, ChannelNumberMatchingName = numberMatching, ColumnNum = col, RowNum = row,
          wSubframeOffset = subOffset, PixelXPosition = pixX pixel, PixelYPosition = pixY pixel,
          PixelName = pixelName pixel, wFile = False, wWriter = None, syncwithflush = False\<rparr>,
        WritingPaused := False, numberWritten := 0\<rparr>"

definition HasLJH22 :: "DataPublisher \<Rightarrow> bool" where "HasLJH22 dp = (LJH22 dp \<noteq> None)"
definition RemoveLJH22 :: "DataPublisher \<Rightarrow> DataPublisher" where
  "RemoveLJH22 dp = dp\<lparr>LJH22 := None, numberWritten := 0\<rparr>"

definition HasPubRecords :: "DataPublisher \<Rightarrow> bool" where "HasPubRecords dp = (pubRecordsChan dp \<noteq> None)"
definition HasPubSummaries :: "DataPublisher \<Rightarrow> bool" where "HasPubSummaries dp = (pubSummariesChan dp \<noteq> None)"

definition RemovePubRecords :: "DataPublisher \<Rightarrow> DataPublisher" where
  "RemovePubRecords dp = dp\<lparr>pubRecordsChan := None\<rparr>"

definition RemovePubSummaries :: "DataPublisher \<Rightarrow> DataPublisher" where
  "RemovePubSummaries dp = dp\<lparr>pubSummariesChan := None\<rparr>"

text \<open>The blocks of \<open>PublishData\<close> for the three kinds of file.\<close>

definition record_ljh22 :: "file_env \<Rightarrow> ljh_Writer \<Rightarrow> data_record \<Rightarrow> ljh_Writer go" where
  "record_ljh22 env w rec =
     bind_go (WriteRecord env w (trigFrame rec) (quot_int (trigTime rec) 1000) (rawTypeToUint16 (recData rec)))
       (\<lambda>(w1, _). Inr w1)"

definition publish_ljh22 :: "file_env \<Rightarrow> data_record list \<Rightarrow> ljh_Writer \<Rightarrow> (ljh_Writer \<times> file_error option) go" where
  "publish_ljh22 env records w =
     bind_go (if \<not> wHeaderWritten w then
         (case CreateFile env w of
            (w1, Some e) \<Rightarrow> Inr (w1, Some e)
          | (w1, None) \<Rightarrow> bind_go (idx records 0) (\<lambda>r0.
              bind_go (WriteHeader env w1 (trigTime r0)) (\<lambda>(w2, _). Inr (w2, None))))
       else Inr (w, None))
     (\<lambda>(w1, err). case err of
         Some e \<Rightarrow> Inr (w1, Some e)
       | None \<Rightarrow> bind_go (foldM_go (record_ljh22 env) w1 records) (\<lambda>w2. Inr (w2, None)))"

definition record_ljh3 :: "file_env \<Rightarrow> Writer3 \<Rightarrow> data_record \<Rightarrow> Writer3 go" where
  "record_ljh3 env w rec =
     bind_go (WriteRecord3 env w (to_int32 (presamples rec + 1)) (trigFrame rec) (quot_int (trigTime rec) 1000)
         (rawTypeToUint16 (recData rec)))
       (\<lambda>(w1, _). Inr w1)"

definition publish_ljh3 ::
  "(ljh3_Header \<Rightarrow> string) \<Rightarrow> file_env \<Rightarrow> data_record list \<Rightarrow> Writer3 \<Rightarrow> (Writer3 \<times> file_error option) go" where
  "publish_ljh3 marshal env records w =
     bind_go (if \<not> w3HeaderWritten w then
         (case CreateFile3 env w of
            (w1, Some e) \<Rightarrow> Inr (w1, Some e)
          | (w1, None) \<Rightarrow> bind_go (WriteHeader3 marshal env w1) (\<lambda>(w2, _). Inr (w2, None)))
       else Inr (w, None))
     (\<lambda>(w1, err). case err of
         Some e \<Rightarrow> Inr (w1, Some e)
       | None \<Rightarrow> bind_go (foldM_go (record_ljh3 env) w1 records) (\<lambda>w2. Inr (w2, None)))"

definition record_off :: "file_env \<Rightarrow> off_Writer \<Rightarrow> data_record \<Rightarrow> (off_Writer \<times> file_error option) go" where
  "record_off env w rec =
     WriteRecordOFF env w (to_int32 (int (length (recData rec)))) (to_int32 (presamples rec)) (trigFrame rec)
       (trigTime rec) (to_f32 (pretrigMean rec)) (to_f32 (pretrigDelta rec)) (to_f32 (residualStdDev rec))
       (map to_f32 (modelCoefs rec))"

fun records_off :: "file_env \<Rightarrow> off_Writer \<Rightarrow> data_record list \<Rightarrow> (off_Writer \<times> file_error option) go" where
  "records_off env w [] = Inr (w, None)"
| "records_off env w (rec # recs) =
     bind_go (record_off env w rec) (\<lambda>(w1, err). case err of
         Some e \<Rightarrow> Inr (w1, Some e)
       | None \<Rightarrow> records_off env w1 recs)"

definition publish_off ::
  "(off_Writer \<Rightarrow> string option) \<Rightarrow> file_env \<Rightarrow> data_record list \<Rightarrow> off_Writer \<Rightarrow> (off_Writer \<times> file_error option) go" where
  "publish_off marshal env records w =
     bind_go (if \<not> oHeaderWritten w then
         (case CreateFileOFF env w of
            (w1, Some e) \<Rightarrow> Inr (w1, Some e)
          | (w1, None) \<Rightarrow> bind_go (WriteHeaderOFF marshal env w1) (\<lambda>(w2, _). Inr (w2, None)))
       else Inr (w, None))
     (\<lambda>(w1, err). case err of
         Some e \<Rightarrow> Inr (w1, Some e)
       | None \<Rightarrow> records_off env w1 records)"

text \<open>An output that is not active is skipped; one that is runs its block.\<close>

definition on_output :: "'w option \<Rightarrow> ('w \<Rightarrow> ('w \<times> file_error option) go) \<Rightarrow> ('w option \<times> file_error option) go" where
  "on_output w f = (case w of
     None \<Rightarrow> Inr (None, None)
   | Some x \<Rightarrow> bind_go (f x) (\<lambda>(y, e). Inr (Some y, e)))"

definition PublishData ::
  "(ljh3_Header \<Rightarrow> string) \<Rightarrow> (off_Writer \<Rightarrow> string option) \<Rightarrow> file_env \<Rightarrow> DataPublisher \<Rightarrow> data_record list
   \<Rightarrow> (DataPublisher \<times> file_error option) go" where
  "PublishData marshal3 marshalOFF env dp records =
     (if records = [] then Inr (dp, None)
      else let dp1 = dp\<lparr>pubRecordsChan := map_option (\<lambda>q. q @ [records]) (pubRecordsChan dp),
                        pubSummariesChan := map_option (\<lambda>q. q @ [records]) (pubSummariesChan dp)\<rparr> in
        if WritingPaused dp1 then Inr (dp1, None)
        else if \<not> (HasLJH22 dp1 \<or> HasLJH3 dp1 \<or> HasOFF dp1) then Inr (dp1, None)
        else bind_go (on_output (LJH22 dp1) (publish_ljh22 env records)) (\<lambda>(l22, err).
          let dp2 = dp1\<lparr>LJH22 := l22\<rparr> in
          if err \<noteq> None then Inr (dp2, err)
          else bind_go (on_output (LJH3 dp2) (publish_ljh3 marshal3 env records)) (\<lambda>(l3, err).
            let dp3 = dp2\<lparr>LJH3 := l3\<rparr> in
            if err \<noteq> None then Inr (dp3, err)
            else bind_go (on_output (OFF dp3) (publish_off marshalOFF env records)) (\<lambda>(loff, err).
              let dp4 = dp3\<lparr>OFF := loff\<rparr> in
              if err \<noteq> None then Inr (dp4, err)
              else Inr (dp4\<lparr>numberWritten := numberWritten dp4 + int (length records)\<rparr>, None)))))"

subsection \<open>Messages on the sockets\<close>

definition messageSummaries :: "data_record \<Rightarrow> u8 list list" where
  "messageSummaries rec =
     [concat [FromUint16 (word_of_int (recChannelIndex rec)), FromUint16 0,
        FromUint32 (word_of_int (presamples rec)), FromUint32 (word_of_int (int (length (recData rec)))),
        FromFloat32 (to_f32 (pretrigMean rec)), FromFloat32 (to_f32 (peakValue rec)),
        FromFloat32 (to_f32 (pulseRMS rec)), FromFloat32 (to_f32 (pulseAverage rec)),
        FromFloat32 (to_f32 (residualStdDev rec)), FromInt64 (trigTime rec), FromInt64 (trigFrame rec)],
      FromSliceFloat64 (modelCoefs rec)]"

definition messageRecords :: "data_record \<Rightarrow> u8 list list" where
  "messageRecords rec =
     [concat [FromUint16 (word_of_int (recChannelIndex rec)), FromUint8 0,
        FromUint8 (if recSigned rec then 2 else 3), FromUint32 (word_of_int (presamples rec)),
        FromUint32 (word_of_int (int (length (recData rec)))), FromFloat32 (sampPeriod rec),
        FromFloat32 (recVoltsPerArb rec), FromInt64 (trigTime rec),
        FromUint64 (word_of_int (trigFrame rec))],
      rawTypeToBytes (recData rec)]"

end
