(* ===== verification/WritingState.thy ===== *)
theory WritingState
  imports PulseFiles
begin

text \<open>
  The state of file writing (\<open>writing_state.go\<close>) and the logs a source keeps beside its pulse files
  (\<open>HandleExternalTriggers\<close> and \<open>HandleDataDrop\<close> of \<open>data_source.go\<close>).  The operating system is a
  map from path to contents and an oracle that says which paths can be created, written and closed;
  \<open>bufio.Writer\<close> is modelled with its buffer of 4096 bytes and its sticky error.  The mutex of the
  Go type makes every operation atomic.
\<close>

subsection \<open>Files\<close>

record os_env =
  os_create_ok :: "string \<Rightarrow> bool"
  os_write_ok :: "string \<Rightarrow> bool"
  os_close_ok :: "string \<Rightarrow> bool"

type_synonym disk = "string \<Rightarrow> u8 list option"

definition os_create :: "os_env \<Rightarrow> disk \<Rightarrow> string \<Rightarrow> disk \<times> bool" where
  "os_create env d path = (if os_create_ok env path then (d(path \<mapsto> []), True) else (d, False))"

definition os_write :: "os_env \<Rightarrow> disk \<Rightarrow> string \<Rightarrow> u8 list \<Rightarrow> disk \<times> bool" where
  "os_write env d path bytes =
     (if os_write_ok env path then (d(path \<mapsto> (case d path of None \<Rightarrow> [] | Some b \<Rightarrow> b) @ bytes), True)
      else (d, False))"

record bufio_writer =
  bw_path :: string
  bw_buf :: "u8 list"
  bw_failed :: bool

definition bufio_size :: nat where "bufio_size = 4096"

definition bufio_new :: "string \<Rightarrow> bufio_writer" where
  "bufio_new path = \<lparr>bw_path = path, bw_buf = [], bw_failed = False\<rparr>"

definition bufio_flush :: "os_env \<Rightarrow> disk \<Rightarrow> bufio_writer \<Rightarrow> disk \<times> bufio_writer \<times> bool" where
  "bufio_flush env d b =
     (if bw_failed b then (d, b, False)
      else if bw_buf b = [] then (d, b, True)
      else case os_write env d (bw_path b) (bw_buf b) of
          (d1, True) \<Rightarrow> (d1, b\<lparr>bw_buf := []\<rparr>, True)
        | (d1, False) \<Rightarrow> (d1, b\<lparr>bw_failed := True\<rparr>, False))"

text \<open>With an empty buffer a long slice goes straight to the file.\<close>

definition bufio_write_empty :: "os_env \<Rightarrow> disk \<Rightarrow> bufio_writer \<Rightarrow> u8 list \<Rightarrow> disk \<times> bufio_writer \<times> bool" where
  "bufio_write_empty env d b p =
     (if length p \<le> bufio_size then (d, b\<lparr>bw_buf := p\<rparr>, True)
      else case os_write env d (bw_path b) p of
          (d1, True) \<Rightarrow> (d1, b, True)
        | (d1, False) \<Rightarrow> (d1, b\<lparr>bw_failed := True\<rparr>, False))"

definition bufio_write :: "os_env \<Rightarrow> disk \<Rightarrow> bufio_writer \<Rightarrow> u8 list \<Rightarrow> disk \<times> bufio_writer \<times> bool" where
  "bufio_write env d b p =
     (let available = bufio_size - length (bw_buf b) in
      if bw_failed b then (d, b, False)
      else if length p \<le> available then (d, b\<lparr>bw_buf := bw_buf b @ p\<rparr>, True)
      else if bw_buf b = [] then bufio_write_empty env d b p
      else case bufio_flush env d (b\<lparr>bw_buf := bw_buf b @ take available p\<rparr>) of
          (d1, b1, True) \<Rightarrow> bufio_write_empty env d1 b1 (drop available p)
        | (d1, b1, False) \<Rightarrow> (d1, b1, False))"

subsection \<open>Formatted file names\<close>

text \<open>\<open>fmt.Sprintf(pattern, args...)\<close> for string arguments and patterns of plain letters, \<open>%s\<close> and \<open>%%\<close>.\<close>

fun sprintf_s :: "string \<Rightarrow> string list \<Rightarrow> string" where
  "sprintf_s [] [] = []"
| "sprintf_s [] (a # as) =
     ''%!(EXTRA string='' @ a @ concat (map (\<lambda>x. '', string='' @ x) as) @ '')''"
| "sprintf_s [c] as = (if c = CHR ''%'' then ''%!(NOVERB)'' else [c]) @ sprintf_s [] as"
| "sprintf_s (c # v # cs) as =
     (if c \<noteq> CHR ''%'' then c # sprintf_s (v # cs) as
      else if v = CHR ''%'' then CHR ''%'' # sprintf_s cs as
      else if v = CHR ''s''
        then (case as of [] \<Rightarrow> ''%!s(MISSING)'' @ sprintf_s cs [] | a # as' \<Rightarrow> a @ sprintf_s cs as')
      else case as of [] \<Rightarrow> ''%!'' @ [v] @ ''(MISSING)'' @ sprintf_s cs []
        | a # as' \<Rightarrow> ''%!'' @ [v] @ ''(string='' @ a @ '')'' @ sprintf_s cs as')"

subsection \<open>The state and its operations\<close>

text \<open>An open file is its path; the tickers and the mutex have no state of their own.\<close>

record WritingState =
  wsActive :: bool
  wsPaused :: bool
  BasePath :: string
  FilenamePattern :: string
  wsWriteLJH22 :: bool
  wsWriteOFF :: bool
  wsWriteLJH3 :: bool
  wsFlushAlsoSyncs :: bool
  experimentStateFile :: "string option"
  ExperimentStateFilename :: string
  ExperimentStateLabel :: string
  ExperimentStateLabelUnixNano :: int
  ExternalTriggerFilename :: string
  externalTriggerNumberObserved :: int
  externalTriggerFileBufferedWriter :: "bufio_writer option"
  externalTriggerFile :: "string option"
  DataDropFilename :: string
  dataDropsObserved :: int
  dataDropFileBufferedWriter :: "bufio_writer option"
  dataDropFile :: "string option"
  dataDropHaveSentAMessage :: bool

definition WritingState_zero :: WritingState where
  "WritingState_zero = \<lparr>wsActive = False, wsPaused = False, BasePath = [], FilenamePattern = [],
     wsWriteLJH22 = False, wsWriteOFF = False, wsWriteLJH3 = False, wsFlushAlsoSyncs = False,
     experimentStateFile = None, ExperimentStateFilename = [], ExperimentStateLabel = [],
     ExperimentStateLabelUnixNano = 0, ExternalTriggerFilename = [], externalTriggerNumberObserved = 0,
     externalTriggerFileBufferedWriter = None, externalTriggerFile = None, DataDropFilename = [],
     dataDropsObserved = 0, dataDropFileBufferedWriter = None, dataDropFile = None,
     dataDropHaveSentAMessage = False\<rparr>"

datatype ws_error = CannotCreate string | WriteFailed | CloseFailed | FlushFailed | NotActive

record MapFile =
  mapSpacing :: int
  mapPixels :: "Pixel list"
  mapFilename :: string

record WriteControlConfig =
  Request :: string
  cfgPath :: string
  cfgWriteLJH22 :: bool
  cfgWriteOFF :: bool
  cfgWriteLJH3 :: bool
  cfgFlushAlsoSyncs :: bool
  Intention :: string
  Users :: string
  Sample :: string
  Purpose :: string
  MapInternalOnly :: "MapFile option"

definition ComputeState :: "WritingState \<Rightarrow> WritingState" where
  "ComputeState ws = WritingState_zero\<lparr>wsActive := wsActive ws, wsPaused := wsPaused ws, BasePath := BasePath ws,
     FilenamePattern := FilenamePattern ws, ExperimentStateFilename := ExperimentStateFilename ws,
     ExperimentStateLabel := ExperimentStateLabel ws,
     ExperimentStateLabelUnixNano := ExperimentStateLabelUnixNano ws,
     ExternalTriggerFilename := ExternalTriggerFilename ws,
     externalTriggerNumberObserved := externalTriggerNumberObserved ws,
     wsWriteLJH22 := wsWriteLJH22 ws, wsWriteLJH3 := wsWriteLJH3 ws, wsWriteOFF := wsWriteOFF ws,
     wsFlushAlsoSyncs := wsFlushAlsoSyncs ws\<rparr>"

text \<open>
  \<open>setExperimentStateLabel\<close>.  When the header cannot be written the code returns the error of the
  successful \<open>os.Create\<close>, which is nil.
\<close>

definition state_header :: string where
  "state_header = ''# unix time in nanoseconds, state label'' @ nl"

definition state_line :: "go_time \<Rightarrow> string \<Rightarrow> string" where
  "state_line t label = fmt_d t @ '', '' @ label @ nl"

definition write_label :: "os_env \<Rightarrow> disk \<Rightarrow> WritingState \<Rightarrow> string \<Rightarrow> go_time \<Rightarrow> string
    \<Rightarrow> disk \<times> WritingState \<times> ws_error option" where
  "write_label env d ws path t label =
     (let ws1 = ws\<lparr>ExperimentStateLabel := label, ExperimentStateLabelUnixNano := t\<rparr>;
          (d1, ok) = os_write env d path (text_bytes (state_line t label)) in
      (d1, ws1, if ok then None else Some WriteFailed))"

definition setExperimentStateLabel ::
  "os_env \<Rightarrow> disk \<Rightarrow> WritingState \<Rightarrow> go_time \<Rightarrow> string \<Rightarrow> disk \<times> WritingState \<times> ws_error option" where
  "setExperimentStateLabel env d ws t label = (case experimentStateFile ws of
     Some path \<Rightarrow> write_label env d ws path t label
   | None \<Rightarrow>
       let path = ExperimentStateFilename ws in
       (case os_create env d path of
          (d1, False) \<Rightarrow> (d1, ws, Some (CannotCreate path))
        | (d1, True) \<Rightarrow>
            let ws1 = ws\<lparr>experimentStateFile := Some path\<rparr>;
                (d2, ok) = os_write env d1 path (text_bytes state_header) in
            if ok then write_label env d2 ws1 path t label else (d2, ws1, None)))"

definition SetExperimentStateLabel ::
  "os_env \<Rightarrow> disk \<Rightarrow> WritingState \<Rightarrow> go_time \<Rightarrow> string \<Rightarrow> disk \<times> WritingState \<times> ws_error option" where
  "SetExperimentStateLabel env d ws t label =
     (if \<not> wsActive ws then (d, ws, Some NotActive) else setExperimentStateLabel env d ws t label)"

definition ws_Start ::
  "os_env \<Rightarrow> disk \<Rightarrow> WritingState \<Rightarrow> string \<Rightarrow> string \<Rightarrow> WriteControlConfig \<Rightarrow> go_time
   \<Rightarrow> disk \<times> WritingState \<times> ws_error option" where
  "ws_Start env d ws pattern path config now =
     setExperimentStateLabel env d
       (ws\<lparr>wsActive := True, wsPaused := False, BasePath := path,
           wsWriteLJH22 := cfgWriteLJH22 config, wsWriteLJH3 := cfgWriteLJH3 config,
           wsWriteOFF := cfgWriteOFF config, wsFlushAlsoSyncs := cfgFlushAlsoSyncs config,
           FilenamePattern := pattern,
           ExperimentStateFilename := sprintf_s pattern [''experiment_state'', ''txt''],
           ExternalTriggerFilename := sprintf_s pattern [''external_trigger'', ''bin''],
           DataDropFilename := sprintf_s pattern [''data_drop'', ''txt'']\<rparr>) now ''START''"

text \<open>Flushing and closing one of the two log files; \<open>None\<close> for the buffered writer is a nil pointer.\<close>

definition close_log ::
  "os_env \<Rightarrow> disk \<Rightarrow> string option \<Rightarrow> bufio_writer option
   \<Rightarrow> (disk \<times> string option \<times> bufio_writer option \<times> ws_error option) go" where
  "close_log env d file writer = (case file of
     None \<Rightarrow> Inr (d, file, writer, None)
   | Some path \<Rightarrow> (case writer of
       None \<Rightarrow> Inl NilDereference
     | Some b \<Rightarrow> Inr (case bufio_flush env d b of
           (d1, b1, False) \<Rightarrow> (d1, file, Some b1, Some FlushFailed)
         | (d1, b1, True) \<Rightarrow> (if os_close_ok env path then (d1, None, None, None)
                             else (d1, file, Some b1, Some CloseFailed)))))"

definition close_state_file ::
  "os_env \<Rightarrow> disk \<Rightarrow> WritingState \<Rightarrow> go_time \<Rightarrow> disk \<times> WritingState \<times> ws_error option" where
  "close_state_file env d ws now = (case experimentStateFile ws of
     None \<Rightarrow> (d, ws, None)
   | Some path \<Rightarrow> (case setExperimentStateLabel env d ws now ''STOP'' of
       (d1, ws1, Some e) \<Rightarrow> (d1, ws1, Some e)
     | (d1, ws1, None) \<Rightarrow> (d1, ws1, if os_close_ok env path then None else Some CloseFailed)))"

definition close_logs ::
  "os_env \<Rightarrow> disk \<Rightarrow> WritingState \<Rightarrow> (disk \<times> WritingState \<times> ws_error option) go" where
  "close_logs env d ws =
     bind_go (close_log env d (externalTriggerFile ws) (externalTriggerFileBufferedWriter ws)) (\<lambda>(d1, f, b, err).
       let ws1 = ws\<lparr>externalTriggerFile := f, externalTriggerFileBufferedWriter := b\<rparr> in
       if err \<noteq> None then Inr (d1, ws1, err)
       else bind_go (close_log env d1 (dataDropFile ws1) (dataDropFileBufferedWriter ws1)) (\<lambda>(d2, f, b, err).
         let ws2 = ws1\<lparr>dataDropFile := f, dataDropFileBufferedWriter := b\<rparr> in
         if err \<noteq> None then Inr (d2, ws2, err)
         else Inr (d2, ws2\<lparr>externalTriggerNumberObserved := 0, ExternalTriggerFilename := [],
                           DataDropFilename := []\<rparr>, None)))"

definition ws_Stop ::
  "os_env \<Rightarrow> disk \<Rightarrow> WritingState \<Rightarrow> go_time \<Rightarrow> (disk \<times> WritingState \<times> ws_error option) go" where
  "ws_Stop env d ws now =
     (case close_state_file env d (ws\<lparr>wsActive := False, wsPaused := False, FilenamePattern := []\<rparr>) now of
        (d1, ws1, Some e) \<Rightarrow> Inr (d1, ws1, Some e)
      | (d1, ws1, None) \<Rightarrow> close_logs env d1
          (ws1\<lparr>experimentStateFile := None, ExperimentStateFilename := [], ExperimentStateLabel := [],
               ExperimentStateLabelUnixNano := 0\<rparr>))"

subsection \<open>The logs of external triggers and data drops\<close>

text \<open>Messages to the clients.  Whether a ticker has fired is an argument (\<open>tick\<close>).\<close>

datatype client_message = NUMBERWRITTEN "int list" | DATADROP int | EXTERNALTRIGGER int

definition pad_left :: "nat \<Rightarrow> string \<Rightarrow> string" where
  "pad_left n s = replicate (n - length s) CHR '' '' @ s"

definition external_trigger_header :: "int \<Rightarrow> string" where
  "external_trigger_header subDivs =
     ''# external trigger rowcounts as int64 binary data follows, ''
     @ ''subframeCounts = frameCounts*subframeDivisions+subframeOffset (subframeDivisions=''
     @ pad_left 4 (fmt_d subDivs) @ '')'' @ nl"

text \<open>A new log: its file is created and the header goes to the buffered writer.\<close>

definition open_log :: "os_env \<Rightarrow> disk \<Rightarrow> string \<Rightarrow> string
    \<Rightarrow> disk \<times> string option \<times> bufio_writer option \<times> ws_error option" where
  "open_log env d path header = (case os_create env d path of
     (d1, False) \<Rightarrow> (d1, None, None, Some (CannotCreate path))
   | (d1, True) \<Rightarrow> (case bufio_write env d1 (bufio_new path) (text_bytes header) of
       (d2, b, ok) \<Rightarrow> (d2, Some path, Some b, if ok then None else Some WriteFailed)))"

definition append_log :: "os_env \<Rightarrow> disk \<Rightarrow> bufio_writer option \<Rightarrow> u8 list
    \<Rightarrow> disk \<times> bufio_writer option \<times> ws_error option" where
  "append_log env d writer bytes = (case writer of
     None \<Rightarrow> (d, None, None)
   | Some b \<Rightarrow> (case bufio_write env d b bytes of
       (d1, b1, ok) \<Rightarrow> (d1, Some b1, if ok then None else Some WriteFailed)))"

definition flush_log :: "os_env \<Rightarrow> disk \<Rightarrow> bufio_writer option \<Rightarrow> disk \<times> bufio_writer option \<times> ws_error option" where
  "flush_log env d writer = (case writer of
     None \<Rightarrow> (d, None, None)
   | Some b \<Rightarrow> (case bufio_flush env d b of
       (d1, b1, ok) \<Rightarrow> (d1, Some b1, if ok then None else Some FlushFailed)))"

definition HandleExternalTriggers ::
  "os_env \<Rightarrow> disk \<Rightarrow> WritingState \<Rightarrow> int \<Rightarrow> bool \<Rightarrow> int list
   \<Rightarrow> disk \<times> WritingState \<times> client_message list \<times> ws_error option" where
  "HandleExternalTriggers env d ws subDivs tick rowcounts =
     (let (d1, ws1, err) =
        (if externalTriggerFileBufferedWriter ws = None \<and> rowcounts \<noteq> [] \<and> ExternalTriggerFilename ws \<noteq> []
         then case open_log env d (ExternalTriggerFilename ws) (external_trigger_header subDivs) of
             (d1, f, b, err) \<Rightarrow> (d1, ws\<lparr>externalTriggerFile := f, externalTriggerFileBufferedWriter := b\<rparr>, err)
         else (d, ws, None))
      in if err \<noteq> None then (d1, ws1, [], err) else
      let ws2 = ws1\<lparr>externalTriggerNumberObserved := externalTriggerNumberObserved ws1 + int (length rowcounts)\<rparr>;
          (d2, b2, err) = (if rowcounts = [] then (d1, externalTriggerFileBufferedWriter ws2, None)
            else append_log env d1 (externalTriggerFileBufferedWriter ws2) (FromSliceInt64 rowcounts));
          ws3 = ws2\<lparr>externalTriggerFileBufferedWriter := b2\<rparr>
      in if err \<noteq> None then (d2, ws3, [], err)
      else if \<not> tick then (d2, ws3, [], None)
      else let (d3, b3, err) = flush_log env d2 (externalTriggerFileBufferedWriter ws3);
               ws4 = ws3\<lparr>externalTriggerFileBufferedWriter := b3\<rparr>
           in if err \<noteq> None then (d3, ws4, [], err)
           else (d3, ws4\<lparr>externalTriggerNumberObserved := 0\<rparr>,
                 [EXTERNALTRIGGER (externalTriggerNumberObserved ws4)], None))"

definition data_drop_header :: string where
  "data_drop_header = ''# first framenum after drop, number of dropped frames'' @ nl"

definition data_drop_line :: "int \<Rightarrow> int \<Rightarrow> string" where
  "data_drop_line firstFrame dropped = pad_left 12 (fmt_d firstFrame) @ '' '' @ pad_left 8 (fmt_d dropped) @ nl"

definition log_drop :: "os_env \<Rightarrow> disk \<Rightarrow> WritingState \<Rightarrow> int \<Rightarrow> int \<Rightarrow> disk \<times> WritingState \<times> ws_error option" where
  "log_drop env d ws dropped firstFrame =
     (let (d1, ws1, err) =
        (if dataDropFileBufferedWriter ws = None
         then case open_log env d (DataDropFilename ws) data_drop_header of
             (d1, f, b, err) \<Rightarrow> (d1, ws\<lparr>dataDropFile := f, dataDropFileBufferedWriter := b\<rparr>, err)
         else (d, ws, None))
      in if err \<noteq> None then (d1, ws1, err)
      else let (d2, b2, err) = append_log env d1 (dataDropFileBufferedWriter ws1)
                 (text_bytes (data_drop_line firstFrame dropped))
           in (d2, ws1\<lparr>dataDropFileBufferedWriter := b2\<rparr>, err))"

definition HandleDataDrop ::
  "os_env \<Rightarrow> disk \<Rightarrow> WritingState \<Rightarrow> bool \<Rightarrow> int \<Rightarrow> int
   \<Rightarrow> disk \<times> WritingState \<times> client_message list \<times> ws_error option" where
  "HandleDataDrop env d ws tick dropped firstFrame =
     (let (d1, ws1, err) =
        (if dropped > 0
         then let ws1 = ws\<lparr>dataDropsObserved := dataDropsObserved ws + 1\<rparr> in
           if wsActive ws1 then log_drop env d ws1 dropped firstFrame else (d, ws1, None)
         else (d, ws, None))
      in if err \<noteq> None then (d1, ws1, [], err) else
      let (d2, b2, err) = (if tick then flush_log env d1 (dataDropFileBufferedWriter ws1)
                           else (d1, dataDropFileBufferedWriter ws1, None));
          ws2 = ws1\<lparr>dataDropFileBufferedWriter := b2\<rparr>
      in if err \<noteq> None then (d2, ws2, [], err)
      else if dropped > 0 \<or> \<not> dataDropHaveSentAMessage ws2
        then (d2, ws2\<lparr>dataDropHaveSentAMessage := True\<rparr>, [DATADROP (dataDropsObserved ws2)], None)
        else (d2, ws2, [], None))"

end
