(* ===== verification/WritingLaws.thy ===== *)
theory WritingLaws
  imports WritingState
begin

text \<open>
  What a writing session leaves on disk.  The contract of a file that is only appended to is the
  locale \<open>append_only\<close>, with the plain file of the experiment state and the buffered logs as its
  interpretations; the session is then an abstract list of labels, triggers and drops, and the three
  files hold exactly these when writing stops.
\<close>

subsection \<open>Files that are only appended to\<close>

locale append_only =
  fixes put :: "'s \<Rightarrow> 'b list \<Rightarrow> 's \<times> bool" and contents :: "'s \<Rightarrow> 'b list"
    and others :: "'s \<Rightarrow> 'o" and good :: "'s \<Rightarrow> bool"
  assumes put_appends: "good s \<Longrightarrow> put s p = (s', ok)
    \<Longrightarrow> ok \<and> good s' \<and> contents s' = contents s @ p \<and> others s' = others s"
begin

lemma put_succeeds:
  assumes "good s"
  obtains s' where "put s p = (s', True)" "good s'" "contents s' = contents s @ p" "others s' = others s"
  using put_appends [OF assms, of p] by (cases "put s p") auto

lemma put_twice:
  assumes "good s"
  obtains s1 s2 where "put s p = (s1, True)" "put s1 q = (s2, True)" "good s2"
    "contents s2 = contents s @ p @ q" "others s2 = others s"
proof -
  obtain s1 where 1: "put s p = (s1, True)" "good s1" "contents s1 = contents s @ p" "others s1 = others s"
    by (rule put_succeeds [OF assms])
  obtain s2 where "put s1 q = (s2, True)" "good s2" "contents s2 = contents s1 @ q" "others s2 = others s1"
    by (rule put_succeeds [OF 1(2)])
  then show thesis using 1 by (intro that [of s1 s2]) simp_all
qed

end

text \<open>Nothing goes wrong.\<close>

definition os_ok :: "os_env \<Rightarrow> bool" where
  "os_ok env \<longleftrightarrow> (\<forall>p. os_create_ok env p \<and> os_write_ok env p \<and> os_close_ok env p)"

definition forget :: "string \<Rightarrow> disk \<Rightarrow> disk" where "forget path d = d(path := None)"

interpretation state_file: append_only "\<lambda>d p. os_write env d path p" "\<lambda>d. the (d path)" "forget path"
  "\<lambda>d. os_ok env \<and> d path \<noteq> None" for env path
  by unfold_locales (auto simp: os_write_def os_ok_def forget_def split: if_splits)

text \<open>A buffered file: the contents on disk and what is still in the buffer.\<close>

definition buffered_write :: "os_env \<Rightarrow> disk \<times> bufio_writer \<Rightarrow> u8 list \<Rightarrow> (disk \<times> bufio_writer) \<times> bool" where
  "buffered_write env = (\<lambda>(d, b) p. case bufio_write env d b p of (d1, b1, ok) \<Rightarrow> ((d1, b1), ok))"

definition buffered_contents :: "disk \<times> bufio_writer \<Rightarrow> u8 list" where
  "buffered_contents = (\<lambda>(d, b). the (d (bw_path b)) @ bw_buf b)"

definition buffered_good :: "os_env \<Rightarrow> string \<Rightarrow> disk \<times> bufio_writer \<Rightarrow> bool" where
  "buffered_good env path = (\<lambda>(d, b). os_ok env \<and> bw_path b = path \<and> \<not> bw_failed b
     \<and> length (bw_buf b) \<le> bufio_size \<and> d path \<noteq> None)"

lemma os_write_ok: "os_ok env \<Longrightarrow> d path = Some c \<Longrightarrow> os_write env d path p = (d(path \<mapsto> c @ p), True)"
  by (simp add: os_write_def os_ok_def)

lemma bufio_flush_ok:
  assumes "os_ok env" "\<not> bw_failed b" "d (bw_path b) = Some c"
  shows "bufio_flush env d b = (d(bw_path b \<mapsto> c @ bw_buf b), b\<lparr>bw_buf := []\<rparr>, True)"
  using assms by (auto simp: bufio_flush_def os_write_ok fun_upd_idem)

interpretation log_file: append_only "buffered_write env" buffered_contents "\<lambda>(d, b). forget path d"
  "buffered_good env path" for env path
proof
  fix s p s' ok
  assume g: "buffered_good env path s" and w: "buffered_write env s p = (s', ok)"
  obtain d b where s: "s = (d, b)" by fastforce
  obtain c where c: "os_ok env" "bw_path b = path" "\<not> bw_failed b" "length (bw_buf b) \<le> bufio_size" "d path = Some c"
    using g by (auto simp: buffered_good_def s)
  have e: "bufio_write_empty env d1 b1 q = (if length q \<le> bufio_size then (d1, b1\<lparr>bw_buf := q\<rparr>, True)
      else (d1(path \<mapsto> c1 @ q), b1, True))"
    if "d1 path = Some c1" "bw_path b1 = path" for d1 b1 q c1
    using that c(1) by (simp add: bufio_write_empty_def os_write_ok)
  let ?a = "bufio_size - length (bw_buf b)"
  have f: "bufio_flush env d (b\<lparr>bw_buf := bw_buf b @ take ?a p\<rparr>)
      = (d(path \<mapsto> c @ bw_buf b @ take ?a p), b\<lparr>bw_buf := []\<rparr>, True)"
    using bufio_flush_ok [OF c(1), of "b\<lparr>bw_buf := bw_buf b @ take ?a p\<rparr>" d c] c by simp
  have "take ?a p @ drop ?a p = p" by simp
  then show "ok \<and> buffered_good env path s' \<and> buffered_contents s' = buffered_contents s @ p
      \<and> (case s' of (d, b) \<Rightarrow> forget path d) = (case s of (d, b) \<Rightarrow> forget path d)"
    using w c f by (auto simp: s buffered_write_def bufio_write_def Let_def e buffered_good_def
      buffered_contents_def forget_def split: if_splits)
qed

subsection \<open>Logs\<close>

lemma forget_eq: "forget p d1 = forget p d \<Longrightarrow> q \<noteq> p \<Longrightarrow> d1 q = d q"
  by (auto simp: forget_def fun_eq_iff split: if_splits)

text \<open>A log exists from its first entry on.\<close>

definition log_holds ::
  "os_env \<Rightarrow> string \<Rightarrow> u8 list \<Rightarrow> u8 list \<Rightarrow> disk \<Rightarrow> disk \<Rightarrow> string option \<Rightarrow> bufio_writer option \<Rightarrow> bool" where
  "log_holds env path header body d0 d file writer \<longleftrightarrow>
     (if body = [] then file = None \<and> writer = None \<and> d path = d0 path
      else file = Some path \<and> (\<exists>b. writer = Some b \<and> buffered_good env path (d, b)
             \<and> buffered_contents (d, b) = header @ body))"

lemma log_holds_frame:
  assumes "log_holds env path header body d0 d file writer" "d1 path = d path"
  shows "log_holds env path header body d0 d1 file writer"
  using assms by (auto simp: log_holds_def buffered_good_def buffered_contents_def split: if_splits)

lemma buffered_putE:
  assumes "buffered_good env path (d, b)"
  obtains d1 b1 where "bufio_write env d b p = (d1, b1, True)" "buffered_good env path (d1, b1)"
    "buffered_contents (d1, b1) = buffered_contents (d, b) @ p" "forget path d1 = forget path d"
proof -
  obtain s' where s': "buffered_write env (d, b) p = (s', True)" "buffered_good env path s'"
    "buffered_contents s' = buffered_contents (d, b) @ p"
    "(case s' of (d, b) \<Rightarrow> forget path d) = (case (d, b) of (d, b) \<Rightarrow> forget path d)"
    by (rule log_file.put_succeeds [OF assms])
  show thesis
    by (rule that [of "fst s'" "snd s'"])
      (use s' in \<open>auto simp: buffered_write_def split: prod.splits\<close>)
qed

lemma open_log_ok:
  assumes "os_ok env"
  obtains d1 b where "open_log env d path header = (d1, Some path, Some b, None)"
    "buffered_good env path (d1, b)" "buffered_contents (d1, b) = text_bytes header" "forget path d1 = forget path d"
proof -
  let ?d = "d(path \<mapsto> [])" and ?b = "bufio_new path"
  have g: "buffered_good env path (?d, ?b)" using assms by (simp add: buffered_good_def bufio_new_def)
  have c: "os_create env d path = (?d, True)" using assms by (simp add: os_create_def os_ok_def)
  obtain d1 b1 where "bufio_write env ?d ?b (text_bytes header) = (d1, b1, True)" "buffered_good env path (d1, b1)"
    "buffered_contents (d1, b1) = buffered_contents (?d, ?b) @ text_bytes header" "forget path d1 = forget path ?d"
    by (rule buffered_putE [OF g])
  then show thesis
    by (intro that [of d1 b1]) (simp_all add: open_log_def c buffered_contents_def bufio_new_def forget_def)
qed

lemma append_log_ok:
  assumes "buffered_good env path (d, b)"
  obtains d1 b1 where "append_log env d (Some b) p = (d1, Some b1, None)" "buffered_good env path (d1, b1)"
    "buffered_contents (d1, b1) = buffered_contents (d, b) @ p" "forget path d1 = forget path d"
  by (rule buffered_putE [OF assms, of p]) (auto simp: append_log_def intro: that)

lemma flush_log_ok:
  assumes "buffered_good env path (d, b)"
  obtains d1 b1 where "bufio_flush env d b = (d1, b1, True)" "flush_log env d (Some b) = (d1, Some b1, None)"
    "buffered_good env path (d1, b1)" "buffered_contents (d1, b1) = buffered_contents (d, b)"
    "d1 path = Some (buffered_contents (d, b))" "forget path d1 = forget path d"
proof -
  obtain c where c: "os_ok env" "bw_path b = path" "\<not> bw_failed b" "d path = Some c"
    using assms by (auto simp: buffered_good_def)
  show thesis
    by (rule that [of "d(path \<mapsto> c @ bw_buf b)" "b\<lparr>bw_buf := []\<rparr>"])
      (use c in \<open>simp_all add: flush_log_def bufio_flush_ok buffered_good_def buffered_contents_def forget_def\<close>)
qed

lemma log_holds_flush:
  assumes "log_holds env path header body d0 d file writer"
  obtains d1 w1 where "flush_log env d writer = (d1, w1, None)" "log_holds env path header body d0 d1 file w1"
    "forget path d1 = forget path d"
proof (cases "body = []")
  case True
  then show thesis using assms by (intro that [of d None]) (simp_all add: log_holds_def flush_log_def)
next
  case False
  then obtain b where b: "writer = Some b" "file = Some path" "buffered_good env path (d, b)"
    "buffered_contents (d, b) = header @ body"
    using assms by (auto simp: log_holds_def)
  obtain d1 b1 where "flush_log env d (Some b) = (d1, Some b1, None)" "buffered_good env path (d1, b1)"
    "buffered_contents (d1, b1) = buffered_contents (d, b)" "forget path d1 = forget path d"
    by (rule flush_log_ok [OF b(3)])
  then show thesis using b False by (intro that [of d1 "Some b1"]) (simp_all add: log_holds_def)
qed

lemma log_holds_close:
  assumes "log_holds env path header body d0 d file writer" "os_ok env"
  obtains d1 where "close_log env d file writer = Inr (d1, None, None, None)" "forget path d1 = forget path d"
    "d1 path = (if body = [] then d0 path else Some (header @ body))"
proof (cases "body = []")
  case True
  then show thesis using assms by (intro that [of d]) (simp_all add: log_holds_def close_log_def)
next
  case False
  then obtain b where b: "writer = Some b" "file = Some path" "buffered_good env path (d, b)"
    "buffered_contents (d, b) = header @ body"
    using assms(1) by (auto simp: log_holds_def)
  obtain d1 b1 where "bufio_flush env d b = (d1, b1, True)" "d1 path = Some (buffered_contents (d, b))"
    "forget path d1 = forget path d"
    by (rule flush_log_ok [OF b(3)])
  then show thesis using b False assms(2) by (intro that [of d1]) (simp_all add: close_log_def os_ok_def)
qed

subsection \<open>The handlers\<close>

lemma FromSliceInt64_append: "FromSliceInt64 (xs @ ys) = FromSliceInt64 xs @ FromSliceInt64 ys"
  by (simp add: FromSliceInt64_def slice_bytes_eq)

lemma FromSliceInt64_empty_iff [simp]: "FromSliceInt64 xs = [] \<longleftrightarrow> xs = []"
proof -
  have "length (FromInt64 x) = 8" for x by (simp add: FromInt64_def)
  then have "FromInt64 x \<noteq> []" for x by (metis list.size(3) zero_neq_numeral)
  then show ?thesis by (cases xs) (simp_all add: FromSliceInt64_def slice_bytes_eq)
qed

text \<open>One more entry: the log is opened if this is the first.\<close>

lemma log_holds_append:
  assumes "log_holds env path (text_bytes header) body d0 d file writer" "os_ok env" "bytes \<noteq> []"
  obtains d1 f1 w1 d2 w2 where
    "(if writer = None then open_log env d path header else (d, file, writer, None)) = (d1, f1, w1, None)"
    "append_log env d1 w1 bytes = (d2, w2, None)" "w1 \<noteq> None"
    "log_holds env path (text_bytes header) (body @ bytes) d0 d2 f1 w2" "forget path d2 = forget path d"
proof (cases "body = []")
  case True
  then have n: "writer = None" using assms(1) by (simp add: log_holds_def)
  obtain d1 b1 where o: "open_log env d path header = (d1, Some path, Some b1, None)"
    "buffered_good env path (d1, b1)" "buffered_contents (d1, b1) = text_bytes header" "forget path d1 = forget path d"
    by (rule open_log_ok [OF assms(2)])
  obtain d2 b2 where a: "append_log env d1 (Some b1) bytes = (d2, Some b2, None)" "buffered_good env path (d2, b2)"
    "buffered_contents (d2, b2) = buffered_contents (d1, b1) @ bytes" "forget path d2 = forget path d1"
    by (rule append_log_ok [OF o(2)])
  show thesis
    by (rule that [of d1 "Some path" "Some b1" d2 "Some b2"])
      (use n o a True assms(3) in \<open>simp_all add: log_holds_def\<close>)
next
  case False
  then obtain b where b: "writer = Some b" "file = Some path" "buffered_good env path (d, b)"
    "buffered_contents (d, b) = text_bytes header @ body"
    using assms(1) by (auto simp: log_holds_def)
  obtain d2 b2 where a: "append_log env d (Some b) bytes = (d2, Some b2, None)" "buffered_good env path (d2, b2)"
    "buffered_contents (d2, b2) = buffered_contents (d, b) @ bytes" "forget path d2 = forget path d"
    by (rule append_log_ok [OF b(3)])
  show thesis
    by (rule that [of d "file" writer d2 "Some b2"]) (use b a False in \<open>simp_all add: log_holds_def\<close>)
qed

lemma triggers_logged:
  assumes "log_holds env X (text_bytes (external_trigger_header sd)) (FromSliceInt64 trigs) d0 d
      (externalTriggerFile ws) (externalTriggerFileBufferedWriter ws)"
    and "os_ok env" "ExternalTriggerFilename ws = X" "X \<noteq> []"
  obtains dsk f w n msgs where "HandleExternalTriggers env d ws sd tick rows
      = (dsk, ws\<lparr>externalTriggerFile := f, externalTriggerFileBufferedWriter := w, externalTriggerNumberObserved := n\<rparr>, msgs, None)"
    "log_holds env X (text_bytes (external_trigger_header sd)) (FromSliceInt64 (trigs @ rows)) d0 dsk f w"
    "forget X dsk = forget X d"
proof -
  have "\<exists>d1 f1 w1 d2 w2.
      (if externalTriggerFileBufferedWriter ws = None \<and> rows \<noteq> [] \<and> ExternalTriggerFilename ws \<noteq> []
         then case open_log env d (ExternalTriggerFilename ws) (external_trigger_header sd) of
             (d1, f, b, err) \<Rightarrow> (d1, ws\<lparr>externalTriggerFile := f, externalTriggerFileBufferedWriter := b\<rparr>, err)
         else (d, ws, None)) = (d1, ws\<lparr>externalTriggerFile := f1, externalTriggerFileBufferedWriter := w1\<rparr>, None)
      \<and> (if rows = [] then (d1, w1, None) else append_log env d1 w1 (FromSliceInt64 rows)) = (d2, w2, None)
      \<and> log_holds env X (text_bytes (external_trigger_header sd)) (FromSliceInt64 (trigs @ rows)) d0 d2 f1 w2
      \<and> forget X d2 = forget X d"
  proof (cases "rows = []")
    case True
    show ?thesis
      by (rule exI [of _ d], rule exI [of _ "externalTriggerFile ws"],
          rule exI [of _ "externalTriggerFileBufferedWriter ws"], rule exI [of _ d],
          rule exI [of _ "externalTriggerFileBufferedWriter ws"]) (use True assms(1) in simp)
  next
    case False
    obtain d1 f1 w1 d2 w2 where
      o: "(if externalTriggerFileBufferedWriter ws = None then open_log env d X (external_trigger_header sd)
         else (d, externalTriggerFile ws, externalTriggerFileBufferedWriter ws, None)) = (d1, f1, w1, None)"
      "append_log env d1 w1 (FromSliceInt64 rows) = (d2, w2, None)" "w1 \<noteq> None"
      "log_holds env X (text_bytes (external_trigger_header sd)) (FromSliceInt64 trigs @ FromSliceInt64 rows) d0 d2 f1 w2"
      "forget X d2 = forget X d"
      by (rule log_holds_append [OF assms(1,2), of "FromSliceInt64 rows"]) (simp add: False)
    show ?thesis
      by (rule exI [of _ d1], rule exI [of _ f1], rule exI [of _ w1], rule exI [of _ d2], rule exI [of _ w2])
        (use o False assms(3,4) in \<open>auto simp: FromSliceInt64_append split: if_splits\<close>)
  qed
  then obtain d1 f1 w1 d2 w2 where h:
    "(if externalTriggerFileBufferedWriter ws = None \<and> rows \<noteq> [] \<and> ExternalTriggerFilename ws \<noteq> []
         then case open_log env d (ExternalTriggerFilename ws) (external_trigger_header sd) of
             (d1, f, b, err) \<Rightarrow> (d1, ws\<lparr>externalTriggerFile := f, externalTriggerFileBufferedWriter := b\<rparr>, err)
         else (d, ws, None)) = (d1, ws\<lparr>externalTriggerFile := f1, externalTriggerFileBufferedWriter := w1\<rparr>, None)"
    "(if rows = [] then (d1, w1, None) else append_log env d1 w1 (FromSliceInt64 rows)) = (d2, w2, None)"
    "log_holds env X (text_bytes (external_trigger_header sd)) (FromSliceInt64 (trigs @ rows)) d0 d2 f1 w2"
    "forget X d2 = forget X d" by blast
  obtain d3 w3 where fl: "flush_log env d2 w2 = (d3, w3, None)"
    "log_holds env X (text_bytes (external_trigger_header sd)) (FromSliceInt64 (trigs @ rows)) d0 d3 f1 w3"
    "forget X d3 = forget X d2"
    by (rule log_holds_flush [OF h(3)])
  let ?n = "externalTriggerNumberObserved ws + int (length rows)"
  show thesis
  proof (cases tick)
    case True
    show thesis
      by (rule that [where dsk = d3 and f = f1 and w = w3 and n = 0 and msgs = "[EXTERNALTRIGGER ?n]"])
        (use True h(2) fl h(4) in \<open>auto simp: HandleExternalTriggers_def h(1) Let_def split: if_splits\<close>)
  next
    case False
    show thesis
      by (rule that [where dsk = d2 and f = f1 and w = w2 and n = ?n and msgs = "[]"])
        (use False h(2-4) in \<open>auto simp: HandleExternalTriggers_def h(1) Let_def split: if_splits\<close>)
  qed
qed


text \<open>The bytes of the logged drops.\<close>

definition drop_lines :: "(int \<times> int) list \<Rightarrow> u8 list" where
  "drop_lines drops = concat (map (\<lambda>(f, n). text_bytes (data_drop_line f n)) drops)"

lemma drop_line_not_empty: "text_bytes (data_drop_line f n) \<noteq> []"
  by (simp add: data_drop_line_def text_bytes_def nl_def)

lemma drops_logged:
  assumes "log_holds env D (text_bytes data_drop_header) (drop_lines drops) d0 d (dataDropFile ws) (dataDropFileBufferedWriter ws)"
    and "os_ok env" "DataDropFilename ws = D" "wsActive ws"
  obtains dsk f w n sent msgs where "HandleDataDrop env d ws tick dropped firstFrame
      = (dsk, ws\<lparr>dataDropFile := f, dataDropFileBufferedWriter := w, dataDropsObserved := n,
           dataDropHaveSentAMessage := sent\<rparr>, msgs, None)"
    "log_holds env D (text_bytes data_drop_header)
      (drop_lines (drops @ (if dropped > 0 then [(firstFrame, dropped)] else []))) d0 dsk f w"
    "forget D dsk = forget D d" "n = dataDropsObserved ws + (if dropped > 0 then 1 else 0)"
proof -
  let ?n = "dataDropsObserved ws + (if dropped > 0 then 1 else 0)"
  let ?body = "drop_lines (drops @ (if dropped > 0 then [(firstFrame, dropped)] else []))"
  have "\<exists>d2 f w. (if dropped > 0
         then let ws1 = ws\<lparr>dataDropsObserved := dataDropsObserved ws + 1\<rparr> in
           if wsActive ws1 then log_drop env d ws1 dropped firstFrame else (d, ws1, None)
         else (d, ws, None))
      = (d2, ws\<lparr>dataDropFile := f, dataDropFileBufferedWriter := w, dataDropsObserved := ?n\<rparr>, None)
      \<and> log_holds env D (text_bytes data_drop_header) ?body d0 d2 f w \<and> forget D d2 = forget D d"
  proof (cases "dropped > 0")
    case False
    show ?thesis
      by (rule exI [of _ d], rule exI [of _ "dataDropFile ws"], rule exI [of _ "dataDropFileBufferedWriter ws"])
        (use False assms(1) in simp)
  next
    case True
    let ?line = "text_bytes (data_drop_line firstFrame dropped)"
    obtain d1 f1 w1 d2 w2 where o:
      "(if dataDropFileBufferedWriter ws = None then open_log env d D data_drop_header
        else (d, dataDropFile ws, dataDropFileBufferedWriter ws, None)) = (d1, f1, w1, None)"
      "append_log env d1 w1 ?line = (d2, w2, None)" "w1 \<noteq> None"
      "log_holds env D (text_bytes data_drop_header) (drop_lines drops @ ?line) d0 d2 f1 w2" "forget D d2 = forget D d"
      by (rule log_holds_append [OF assms(1,2) drop_line_not_empty])
    have b: "drop_lines drops @ ?line = ?body" using True by (simp add: drop_lines_def)
    show ?thesis
      by (rule exI [of _ d2], rule exI [of _ f1], rule exI [of _ w2])
        (use True o assms(3,4) in \<open>auto simp: log_drop_def b Let_def split: if_splits\<close>)
  qed
  then obtain d2 f w where h:
    "(if dropped > 0
         then let ws1 = ws\<lparr>dataDropsObserved := dataDropsObserved ws + 1\<rparr> in
           if wsActive ws1 then log_drop env d ws1 dropped firstFrame else (d, ws1, None)
         else (d, ws, None))
      = (d2, ws\<lparr>dataDropFile := f, dataDropFileBufferedWriter := w, dataDropsObserved := ?n\<rparr>, None)"
    "log_holds env D (text_bytes data_drop_header) ?body d0 d2 f w" "forget D d2 = forget D d" by blast
  obtain d3 w3 where fl: "flush_log env d2 w = (d3, w3, None)"
    "log_holds env D (text_bytes data_drop_header) ?body d0 d3 f w3" "forget D d3 = forget D d2"
    by (rule log_holds_flush [OF h(2)])
  let ?sent = "dropped > 0 \<or> dataDropHaveSentAMessage ws \<or> \<not> dataDropHaveSentAMessage ws"
  let ?msgs = "if dropped > 0 \<or> \<not> dataDropHaveSentAMessage ws then [DATADROP ?n] else []"
  show thesis
  proof (cases tick)
    case True
    show thesis
      by (rule that [where dsk = d3 and f = f and w = w3 and n = ?n and sent = ?sent and msgs = ?msgs])
        (use True fl h(3) in \<open>simp_all add: HandleDataDrop_def h(1) Let_def\<close>)
  next
    case False
    show thesis
      by (rule that [where dsk = d2 and f = f and w = w and n = ?n and sent = ?sent and msgs = ?msgs])
        (use False h(2,3) in \<open>simp_all add: HandleDataDrop_def h(1) Let_def\<close>)
  qed
qed

subsection \<open>A session\<close>

datatype session_event =
    StateLabel go_time string
  | ExternalTriggers bool "int list"
  | DataDrop bool int int

text \<open>The calls, each with its error.\<close>

fun session_step ::
  "os_env \<Rightarrow> int \<Rightarrow> disk \<times> WritingState \<Rightarrow> session_event \<Rightarrow> (disk \<times> WritingState) \<times> ws_error option" where
  "session_step env sd (d, ws) (StateLabel t label) =
     (case SetExperimentStateLabel env d ws t label of (d1, ws1, err) \<Rightarrow> ((d1, ws1), err))"
| "session_step env sd (d, ws) (ExternalTriggers tick rows) =
     (case HandleExternalTriggers env d ws sd tick rows of (d1, ws1, _, err) \<Rightarrow> ((d1, ws1), err))"
| "session_step env sd (d, ws) (DataDrop tick dropped firstFrame) =
     (case HandleDataDrop env d ws tick dropped firstFrame of (d1, ws1, _, err) \<Rightarrow> ((d1, ws1), err))"

fun session_run ::
  "os_env \<Rightarrow> int \<Rightarrow> disk \<times> WritingState \<Rightarrow> session_event list \<Rightarrow> (disk \<times> WritingState) \<times> ws_error option" where
  "session_run env sd s [] = (s, None)"
| "session_run env sd s (e # es) =
     (case session_step env sd s e of (s1, Some err) \<Rightarrow> (s1, Some err) | (s1, None) \<Rightarrow> session_run env sd s1 es)"

text \<open>What the events are about.\<close>

fun labels_in :: "session_event list \<Rightarrow> (go_time \<times> string) list" where
  "labels_in [] = []"
| "labels_in (StateLabel t l # es) = (t, l) # labels_in es"
| "labels_in (_ # es) = labels_in es"

fun triggers_in :: "session_event list \<Rightarrow> int list" where
  "triggers_in [] = []"
| "triggers_in (ExternalTriggers tick rows # es) = rows @ triggers_in es"
| "triggers_in (_ # es) = triggers_in es"

fun drops_in :: "session_event list \<Rightarrow> (int \<times> int) list" where
  "drops_in [] = []"
| "drops_in (DataDrop tick n f # es) = (if n > 0 then [(f, n)] else []) @ drops_in es"
| "drops_in (_ # es) = drops_in es"

definition label_lines :: "(go_time \<times> string) list \<Rightarrow> u8 list" where
  "label_lines ls = concat (map (\<lambda>(t, l). text_bytes (state_line t l)) ls)"

text \<open>The state while a session runs: three distinct files that hold what has happened.\<close>

definition session_inv ::
  "os_env \<Rightarrow> int \<Rightarrow> string \<Rightarrow> string \<Rightarrow> string \<Rightarrow> disk \<Rightarrow> (go_time \<times> string) list \<Rightarrow> int list \<Rightarrow> (int \<times> int) list
   \<Rightarrow> disk \<times> WritingState \<Rightarrow> bool" where
  "session_inv env sd E X D d0 labels trigs drops = (\<lambda>(d, ws).
     wsActive ws \<and> experimentStateFile ws = Some E
     \<and> d E = Some (text_bytes state_header @ label_lines labels)
     \<and> ExternalTriggerFilename ws = X \<and> DataDropFilename ws = D
     \<and> log_holds env X (text_bytes (external_trigger_header sd)) (FromSliceInt64 trigs) d0 d
         (externalTriggerFile ws) (externalTriggerFileBufferedWriter ws)
     \<and> log_holds env D (text_bytes data_drop_header) (drop_lines drops) d0 d (dataDropFile ws) (dataDropFileBufferedWriter ws))"

lemma write_label_session:
  assumes "os_ok env" "E \<noteq> X" "E \<noteq> D" "session_inv env sd E X D d0 labels trigs drops (d, ws)"
  obtains d1 ws1 where "setExperimentStateLabel env d ws t label = (d1, ws1, None)"
    "session_inv env sd E X D d0 (labels @ [(t, label)]) trigs drops (d1, ws1)"
proof -
  let ?d = "d(E \<mapsto> text_bytes state_header @ label_lines (labels @ [(t, label)]))"
  have w: "os_write env d E (text_bytes (state_line t label)) = (?d, True)"
    using assms(1,4) by (subst os_write_ok) (auto simp: session_inv_def label_lines_def)
  have fr: "?d X = d X" "?d D = d D" using assms(2,3) by auto
  show thesis
    by (rule that [of ?d "ws\<lparr>ExperimentStateLabel := label, ExperimentStateLabelUnixNano := t\<rparr>"])
      (use assms(4) w fr in \<open>auto simp: session_inv_def setExperimentStateLabel_def write_label_def
        elim!: log_holds_frame\<close>)
qed

lemma session_step_inv:
  assumes ok: "os_ok env" and ne: "E \<noteq> X" "E \<noteq> D" "X \<noteq> D" "X \<noteq> []"
    and inv: "session_inv env sd E X D d0 labels trigs drops s"
  obtains s1 where "session_step env sd s e = (s1, None)"
    "session_inv env sd E X D d0 (labels @ labels_in [e]) (trigs @ triggers_in [e]) (drops @ drops_in [e]) s1"
proof -
  obtain d ws where s: "s = (d, ws)" by fastforce
  note i = inv [unfolded s session_inv_def prod.case]
  from i have ext: "log_holds env X (text_bytes (external_trigger_header sd)) (FromSliceInt64 trigs) d0 d
      (externalTriggerFile ws) (externalTriggerFileBufferedWriter ws)"
    and drp: "log_holds env D (text_bytes data_drop_header) (drop_lines drops) d0 d (dataDropFile ws) (dataDropFileBufferedWriter ws)"
    and nm: "ExternalTriggerFilename ws = X" "DataDropFilename ws = D" "wsActive ws" by blast+
  show thesis
  proof (cases e)
    case (StateLabel t label)
    obtain d1 ws1 where "setExperimentStateLabel env d ws t label = (d1, ws1, None)"
      "session_inv env sd E X D d0 (labels @ [(t, label)]) trigs drops (d1, ws1)"
      by (rule write_label_session [OF ok ne(1,2) inv [unfolded s]])
    then show thesis using i
      by (intro that [of "(d1, ws1)"]) (simp_all add: StateLabel s SetExperimentStateLabel_def)
  next
    case (ExternalTriggers tick rows)
    obtain d1 f w n msgs where h: "HandleExternalTriggers env d ws sd tick rows
        = (d1, ws\<lparr>externalTriggerFile := f, externalTriggerFileBufferedWriter := w, externalTriggerNumberObserved := n\<rparr>, msgs, None)"
      "log_holds env X (text_bytes (external_trigger_header sd)) (FromSliceInt64 (trigs @ rows)) d0 d1 f w"
      "forget X d1 = forget X d"
      by (rule triggers_logged [OF ext ok nm(1) ne(4)])
    have fr: "d1 E = d E" "d1 D = d D" using forget_eq [OF h(3)] ne by auto
    show thesis
      by (rule that [of "(d1, ws\<lparr>externalTriggerFile := f, externalTriggerFileBufferedWriter := w, externalTriggerNumberObserved := n\<rparr>)"])
        (use i h fr in \<open>auto simp: ExternalTriggers s session_inv_def elim: log_holds_frame\<close>)
  next
    case (DataDrop tick dropped firstFrame)
    obtain d1 f w n sent msgs where h: "HandleDataDrop env d ws tick dropped firstFrame
        = (d1, ws\<lparr>dataDropFile := f, dataDropFileBufferedWriter := w, dataDropsObserved := n,
             dataDropHaveSentAMessage := sent\<rparr>, msgs, None)"
      "log_holds env D (text_bytes data_drop_header)
        (drop_lines (drops @ (if dropped > 0 then [(firstFrame, dropped)] else []))) d0 d1 f w"
      "forget D d1 = forget D d"
      by (rule drops_logged [OF drp ok nm(2,3)])
    have fr: "d1 E = d E" "d1 X = d X" using forget_eq [OF h(3)] ne by auto
    show thesis
      by (rule that [of "(d1, ws\<lparr>dataDropFile := f, dataDropFileBufferedWriter := w, dataDropsObserved := n,
             dataDropHaveSentAMessage := sent\<rparr>)"])
        (use i h fr in \<open>auto simp: DataDrop s session_inv_def elim: log_holds_frame\<close>)
  qed
qed

lemma events_append:
  "labels_in (e # es) = labels_in [e] @ labels_in es" "triggers_in (e # es) = triggers_in [e] @ triggers_in es"
  "drops_in (e # es) = drops_in [e] @ drops_in es"
  by (cases e; simp)+

lemma session_run_inv:
  assumes ok: "os_ok env" and ne: "E \<noteq> X" "E \<noteq> D" "X \<noteq> D" "X \<noteq> []"
    and inv: "session_inv env sd E X D d0 labels trigs drops s"
  shows "\<exists>s1. session_run env sd s es = (s1, None)
    \<and> session_inv env sd E X D d0 (labels @ labels_in es) (trigs @ triggers_in es) (drops @ drops_in es) s1"
  using inv
proof (induction es arbitrary: s labels trigs drops)
  case (Cons e es)
  obtain s1 where 1: "session_step env sd s e = (s1, None)"
    "session_inv env sd E X D d0 (labels @ labels_in [e]) (trigs @ triggers_in [e]) (drops @ drops_in [e]) s1"
    by (rule session_step_inv [OF ok ne Cons.prems])
  show ?case using Cons.IH [OF 1(2)] unfolding events_append [of e es] by (simp add: 1(1))
qed simp

definition no_open_files :: "WritingState \<Rightarrow> bool" where
  "no_open_files ws \<longleftrightarrow> experimentStateFile ws = None
     \<and> externalTriggerFile ws = None \<and> externalTriggerFileBufferedWriter ws = None
     \<and> dataDropFile ws = None \<and> dataDropFileBufferedWriter ws = None"

lemma sprintf_pattern:
  "CHR ''%'' \<notin> set stem \<Longrightarrow> sprintf_s (stem @ ''%s.%s'') [a, b] = stem @ a @ ''.'' @ b"
proof (induction stem)
  case (Cons c stem)
  obtain v cs where "stem @ ''%s.%s'' = v # cs" by (cases "stem @ ''%s.%s''") auto
  then show ?case using Cons by auto
qed simp

lemma session_starts:
  assumes "os_ok env" "no_open_files ws" "E \<noteq> X" "E \<noteq> D"
    and names: "sprintf_s pattern [''experiment_state'', ''txt''] = E"
      "sprintf_s pattern [''external_trigger'', ''bin''] = X" "sprintf_s pattern [''data_drop'', ''txt''] = D"
  obtains d1 ws1 where "ws_Start env d ws pattern path config t = (d1, ws1, None)"
    "session_inv env sd E X D d [(t, ''START'')] [] [] (d1, ws1)"
proof -
  define ws0 where "ws0 = ws\<lparr>wsActive := True, wsPaused := False, BasePath := path,
           wsWriteLJH22 := cfgWriteLJH22 config, wsWriteLJH3 := cfgWriteLJH3 config,
           wsWriteOFF := cfgWriteOFF config, wsFlushAlsoSyncs := cfgFlushAlsoSyncs config,
           FilenamePattern := pattern, ExperimentStateFilename := E, ExternalTriggerFilename := X,
           DataDropFilename := D\<rparr>"
  let ?d0 = "d(E \<mapsto> [])" and ?d1 = "d(E \<mapsto> text_bytes state_header)"
  have c: "os_create env d E = (?d0, True)" "os_write env ?d0 E (text_bytes state_header) = (?d1, True)"
    using assms(1) by (simp_all add: os_create_def os_ok_def os_write_def)
  have "setExperimentStateLabel env d ws0 t ''START''
      = write_label env ?d1 (ws0\<lparr>experimentStateFile := Some E\<rparr>) E t ''START''"
    using assms(2) by (simp add: setExperimentStateLabel_def ws0_def no_open_files_def c Let_def)
  also have "\<dots> = setExperimentStateLabel env ?d1 (ws0\<lparr>experimentStateFile := Some E\<rparr>) t ''START''"
    by (simp add: setExperimentStateLabel_def)
  finally have st: "ws_Start env d ws pattern path config t
      = setExperimentStateLabel env ?d1 (ws0\<lparr>experimentStateFile := Some E\<rparr>) t ''START''"
    by (simp add: ws_Start_def names ws0_def)
  have inv: "session_inv env sd E X D d [] [] [] (?d1, ws0\<lparr>experimentStateFile := Some E\<rparr>)"
    using assms(2-4) by (simp add: session_inv_def ws0_def no_open_files_def log_holds_def label_lines_def drop_lines_def)
  show thesis
    by (rule write_label_session [OF assms(1,3,4) inv, of t "''START''"]) (simp add: st that)
qed

lemma label_inactive:
  "experimentStateFile ws = Some E \<Longrightarrow> setExperimentStateLabel env d ws t l = (d1, ws1, None)
   \<Longrightarrow> setExperimentStateLabel env d (ws\<lparr>wsActive := b\<rparr>) t l = (d1, ws1\<lparr>wsActive := b\<rparr>, None)"
  by (auto simp: setExperimentStateLabel_def write_label_def Let_def split: prod.splits if_splits)

lemma session_stops:
  assumes ok: "os_ok env" and ne: "E \<noteq> X" "E \<noteq> D" "X \<noteq> D"
    and inv: "session_inv env sd E X D d0 labels trigs drops (d, ws)"
  obtains d1 ws1 where "ws_Stop env d ws t = Inr (d1, ws1, None)" "no_open_files ws1" "\<not> wsActive ws1"
    "d1 E = Some (text_bytes state_header @ label_lines (labels @ [(t, ''STOP'')]))"
    "d1 X = (if trigs = [] then d0 X else Some (text_bytes (external_trigger_header sd) @ FromSliceInt64 trigs))"
    "d1 D = (if drops = [] then d0 D else Some (text_bytes data_drop_header @ drop_lines drops))"
proof -
  define ws0 where "ws0 = ws\<lparr>wsActive := True, wsPaused := False, FilenamePattern := []\<rparr>"
  have dl: "drop_lines drops = [] \<longleftrightarrow> drops = []"
    using drop_line_not_empty by (cases drops) (auto simp: drop_lines_def)
  have inv0: "session_inv env sd E X D d0 labels trigs drops (d, ws0)"
    using inv by (simp add: session_inv_def ws0_def)
  obtain d1 ws1 where l: "setExperimentStateLabel env d ws0 t ''STOP'' = (d1, ws1, None)"
    "session_inv env sd E X D d0 (labels @ [(t, ''STOP'')]) trigs drops (d1, ws1)"
    by (rule write_label_session [OF ok ne(1,2) inv0])
  note i = l(2) [unfolded session_inv_def prod.case]
  from i have ext: "log_holds env X (text_bytes (external_trigger_header sd)) (FromSliceInt64 trigs) d0 d1
      (externalTriggerFile ws1) (externalTriggerFileBufferedWriter ws1)"
    and drp: "log_holds env D (text_bytes data_drop_header) (drop_lines drops) d0 d1 (dataDropFile ws1) (dataDropFileBufferedWriter ws1)"
    by blast+
  obtain d2 where c2: "close_log env d1 (externalTriggerFile ws1) (externalTriggerFileBufferedWriter ws1) = Inr (d2, None, None, None)"
    "forget X d2 = forget X d1"
    "d2 X = (if FromSliceInt64 trigs = [] then d0 X else Some (text_bytes (external_trigger_header sd) @ FromSliceInt64 trigs))"
    by (rule log_holds_close [OF ext ok])
  have "log_holds env D (text_bytes data_drop_header) (drop_lines drops) d0 d2 (dataDropFile ws1) (dataDropFileBufferedWriter ws1)"
    using drp by (rule log_holds_frame) (use forget_eq [OF c2(2)] ne in auto)
  then obtain d3 where c3: "close_log env d2 (dataDropFile ws1) (dataDropFileBufferedWriter ws1) = Inr (d3, None, None, None)"
    "forget D d3 = forget D d2"
    "d3 D = (if drop_lines drops = [] then d0 D else Some (text_bytes data_drop_header @ drop_lines drops))"
    by (rule log_holds_close [OF _ ok])
  have fr: "d3 E = d1 E" "d3 X = d2 X" using forget_eq [OF c2(2)] forget_eq [OF c3(2)] ne by auto
  have "ws\<lparr>wsActive := False, wsPaused := False, FilenamePattern := []\<rparr> = ws0\<lparr>wsActive := False\<rparr>"
    by (simp add: ws0_def)
  then have close: "close_state_file env d (ws\<lparr>wsActive := False, wsPaused := False, FilenamePattern := []\<rparr>) t
      = (d1, ws1\<lparr>wsActive := False\<rparr>, None)"
    using inv0 l(1) ok by (simp add: close_state_file_def label_inactive session_inv_def os_ok_def)
  define ws2 where "ws2 = ws1\<lparr>wsActive := False, experimentStateFile := None, ExperimentStateFilename := [],
    ExperimentStateLabel := [], ExperimentStateLabelUnixNano := 0, externalTriggerFile := None,
    externalTriggerFileBufferedWriter := None, dataDropFile := None, dataDropFileBufferedWriter := None,
    externalTriggerNumberObserved := 0, ExternalTriggerFilename := [], DataDropFilename := []\<rparr>"
  have stop: "ws_Stop env d ws t = Inr (d3, ws2, None)"
    using c2(1) c3(1) by (simp add: ws_Stop_def close close_logs_def Let_def ws2_def)
  show thesis
    by (rule that [OF stop]) (use fr i c2(3) c3(3) dl in \<open>simp_all add: ws2_def no_open_files_def\<close>)
qed

text \<open>
  C27: A writing session loses nothing: when every file can be created, written and closed, a session
  of any labels, external triggers and dropped frames between \<open>Start\<close> and \<open>Stop\<close> runs without an error and
  leaves behind the experiment-state file with START, every label in order and STOP, the
  external-trigger file with every trigger as eight bytes, and the data-drop file with a line per drop,
  each under the name made from the run's pattern; the last two exist only if there was something to log.
  Afterwards no file is open.
\<close>

theorem session_files_complete:
  assumes "os_ok env" "no_open_files ws" "CHR ''%'' \<notin> set stem"
  shows "\<exists>d1 ws1 d2 ws2 d3 ws3. ws_Start env d ws (stem @ ''%s.%s'') path config t0 = (d1, ws1, None)
    \<and> session_run env sd (d1, ws1) es = ((d2, ws2), None)
    \<and> ws_Stop env d2 ws2 t1 = Inr (d3, ws3, None) \<and> no_open_files ws3 \<and> \<not> wsActive ws3
    \<and> d3 (stem @ ''experiment_state.txt'') = Some (text_bytes state_header
        @ label_lines ((t0, ''START'') # labels_in es @ [(t1, ''STOP'')]))
    \<and> d3 (stem @ ''external_trigger.bin'') = (if triggers_in es = [] then d (stem @ ''external_trigger.bin'')
        else Some (text_bytes (external_trigger_header sd) @ FromSliceInt64 (triggers_in es)))
    \<and> d3 (stem @ ''data_drop.txt'') = (if drops_in es = [] then d (stem @ ''data_drop.txt'')
        else Some (text_bytes data_drop_header @ drop_lines (drops_in es)))"
proof -
  let ?E = "stem @ ''experiment_state.txt''" and ?X = "stem @ ''external_trigger.bin''" and ?D = "stem @ ''data_drop.txt''"
  have ne: "?E \<noteq> ?X" "?E \<noteq> ?D" "?X \<noteq> ?D" "?X \<noteq> []" by simp_all
  have names: "sprintf_s (stem @ ''%s.%s'') [''experiment_state'', ''txt''] = ?E"
    "sprintf_s (stem @ ''%s.%s'') [''external_trigger'', ''bin''] = ?X"
    "sprintf_s (stem @ ''%s.%s'') [''data_drop'', ''txt''] = ?D"
    using sprintf_pattern [OF assms(3)] by simp_all
  obtain d1 ws1 where 1: "ws_Start env d ws (stem @ ''%s.%s'') path config t0 = (d1, ws1, None)"
    "session_inv env sd ?E ?X ?D d [(t0, ''START'')] [] [] (d1, ws1)"
    by (rule session_starts [OF assms(1,2) ne(1,2) names])
  obtain d2 ws2 where 2: "session_run env sd (d1, ws1) es = ((d2, ws2), None)"
    "session_inv env sd ?E ?X ?D d ([(t0, ''START'')] @ labels_in es) ([] @ triggers_in es) ([] @ drops_in es) (d2, ws2)"
    using session_run_inv [OF assms(1) ne 1(2), of es] by auto
  show ?thesis
    by (rule session_stops [OF assms(1) ne(1-3) 2(2), of t1])
      (rule exI [of _ d1], rule exI [of _ ws1], rule exI [of _ d2], rule exI [of _ ws2],
       rule exI, rule exI, intro conjI, rule 1(1), rule 2(1), assumption, simp_all)
qed

text \<open>
  A failed \<open>Stop\<close> spoils the next run: when the STOP label cannot be written, writing is marked
  inactive, but the experiment-state file stays open, and the next \<open>Start\<close> writes its label into the
  file of the old run and creates none for the new one.
\<close>

theorem failed_stop_keeps_old_file:
  assumes "experimentStateFile ws = Some E" "\<not> os_write_ok env E" "os_write_ok env' E" "d E = Some old"
  shows "\<exists>ws1 ws2. ws_Stop env d ws t = Inr (d, ws1, Some WriteFailed) \<and> \<not> wsActive ws1
    \<and> ws_Start env' d ws1 pattern path config t' = (d(E \<mapsto> old @ text_bytes (state_line t' ''START'')), ws2, None)
    \<and> wsActive ws2 \<and> experimentStateFile ws2 = Some E
    \<and> ExperimentStateFilename ws2 = sprintf_s pattern [''experiment_state'', ''txt'']"
  using assms
  by (simp add: ws_Stop_def close_state_file_def setExperimentStateLabel_def write_label_def os_write_def ws_Start_def)

subsection \<open>Concrete inputs\<close>

definition good_os :: os_env where
  "good_os = \<lparr>os_create_ok = \<lambda>_. True, os_write_ok = \<lambda>_. True, os_close_ok = \<lambda>_. True\<rparr>"

definition demo_config :: WriteControlConfig where
  "demo_config = \<lparr>Request = ''START'', cfgPath = ''/data'', cfgWriteLJH22 = True, cfgWriteOFF = False,
     cfgWriteLJH3 = False, cfgFlushAlsoSyncs = False, Intention = [], Users = [], Sample = [], Purpose = [],
     MapInternalOnly = None\<rparr>"

theorem session_files_complete_witness:
  "\<exists>d1 ws1 d2 ws2 d3 ws3.
    ws_Start good_os (\<lambda>_. None) WritingState_zero (''run_'' @ ''%s.%s'') ''/data'' demo_config 5 = (d1, ws1, None)
    \<and> session_run good_os 64 (d1, ws1) [DataDrop True 3 100, StateLabel 7 ''A'', ExternalTriggers False [1, 2]] = ((d2, ws2), None)
    \<and> ws_Stop good_os d2 ws2 9 = Inr (d3, ws3, None)
    \<and> d3 ''run_experiment_state.txt'' = Some (text_bytes state_header @ label_lines [(5, ''START''), (7, ''A''), (9, ''STOP'')])
    \<and> d3 ''run_data_drop.txt'' = Some (text_bytes data_drop_header @ drop_lines [(100, 3)])"
  using session_files_complete [of good_os WritingState_zero "''run_''" "\<lambda>_. None" "''/data''" demo_config 5 64
      "[DataDrop True 3 100, StateLabel 7 ''A'', ExternalTriggers False [1, 2]]" 9]
  by (simp add: os_ok_def good_os_def no_open_files_def WritingState_zero_def) blast

theorem failed_stop_keeps_old_file_witness:
  "\<exists>ws1 ws2. ws_Stop (good_os\<lparr>os_write_ok := \<lambda>_. False\<rparr>) [''old.txt'' \<mapsto> []]
        (WritingState_zero\<lparr>wsActive := True, experimentStateFile := Some ''old.txt''\<rparr>) 9
      = Inr ([''old.txt'' \<mapsto> []], ws1, Some WriteFailed)
    \<and> ws_Start good_os [''old.txt'' \<mapsto> []] ws1 ''new_%s.%s'' ''/data'' demo_config 10
      = ([''old.txt'' \<mapsto> text_bytes (state_line 10 ''START'')], ws2, None)
    \<and> ExperimentStateFilename ws2 = ''new_experiment_state.txt''"
  using failed_stop_keeps_old_file [of "WritingState_zero\<lparr>wsActive := True, experimentStateFile := Some ''old.txt''\<rparr>" "''old.txt''"
      "good_os\<lparr>os_write_ok := \<lambda>_. False\<rparr>" good_os "[''old.txt'' \<mapsto> []]" "[]" 9 "''new_%s.%s''" "''/data''" demo_config 10]
  by (simp add: good_os_def) blast

end
