(* ===== verification/TriggerPasses.thy ===== *)
theory TriggerPasses
  imports Triggering
begin

text \<open>
  The edge, level and auto passes of \<open>triggering.go\<close> on well-configured channels.  Every pass works
  on records cut around indices of the buffer, so each is described by the list of the indices it
  adds: where edge triggers are, exactly which level crossings become triggers, how auto triggers
  keep clear of the others and fill the gaps.  The contract the passes share (they run to the end
  and keep the list of records well formed and sorted) is the locale \<open>trigger_pass\<close>.
\<close>

subsection \<open>Records as indices\<close>

text \<open>The record \<open>triggerAt\<close> cuts at index \<open>i\<close> when it fits.\<close>

definition cut_at :: "'a dsp_scheme \<Rightarrow> int \<Rightarrow> data_record" where
  "cut_at d i = cut_record d i (NPresamples d)
     (take (nat (NSamples d)) (drop (nat (i - NPresamples d)) (rawData (stream d))))"

definition recs :: "'a dsp_scheme \<Rightarrow> int list \<Rightarrow> data_record option list" where
  "recs d js = map (\<lambda>i. Some (cut_at d i)) js"

text \<open>A channel configured as the edge pass needs: three samples before every trigger.\<close>

definition ready :: "'a dsp_scheme \<Rightarrow> bool" where
  "ready d \<longleftrightarrow> 3 \<le> NPresamples d \<and> NPresamples d < NSamples d"

text \<open>Indices around which a whole record fits.\<close>

definition fits :: "'a dsp_scheme \<Rightarrow> int list \<Rightarrow> bool" where
  "fits d js \<longleftrightarrow> (\<forall>j\<in>set js. NPresamples d \<le> j \<and> j < trig_limit d)"

lemma recs_simps [simp]:
  "recs d [] = []" "recs d (j # js) = Some (cut_at d j) # recs d js"
  "recs d (js @ ks) = recs d js @ recs d ks" "length (recs d js) = length js"
  "None \<notin> set (recs d js)" "tl (recs d js) = recs d (tl js)"
  by (auto simp: recs_def map_tl)

lemma fits_simps [simp]:
  "fits d []" "fits d (j # js) \<longleftrightarrow> NPresamples d \<le> j \<and> j < trig_limit d \<and> fits d js"
  "fits d (js @ ks) \<longleftrightarrow> fits d js \<and> fits d ks"
  by (auto simp: fits_def)

lemma trigFrame_cut_at [simp]: "trigFrame (cut_at d i) = firstFrameIndex (stream d) + i"
  by (simp add: cut_at_def cut_record_def)

lemma inj_cut_at: "cut_at d i = cut_at d j \<longleftrightarrow> i = j"
  by (metis add_left_cancel trigFrame_cut_at)

lemma triggerAt_fits:
  assumes "ready d" "NPresamples d \<le> i" "i < trig_limit d"
  shows "triggerAt d i = Inr (Some (cut_at d i))"
  using assms
  by (auto simp: triggerAt_def triggerAtSpecificSamples_def ready_def trig_limit_def slice_go_def
    cut_at_def algebra_simps)

lemma next_found_recs [simp]:
  "next_found d (recs d js) = Inr (case js of [] \<Rightarrow> None | j # _ \<Rightarrow> Some j)"
  by (cases js) auto

lemma sort_records_recs [simp]: "sort_records (recs d js) = Inr (recs d (sort js))"
proof -
  have "sort_key (\<lambda>r. case r of None \<Rightarrow> 0 | Some x \<Rightarrow> trigFrame x) (recs d js) = recs d (sort js)"
  proof (rule sort_key_inj_key_eq)
    show "mset (recs d js) = mset (recs d (sort js))" by (simp add: recs_def mset_map)
    show "inj_on (\<lambda>r. case r of None \<Rightarrow> 0 | Some x \<Rightarrow> trigFrame x) (set (recs d js))"
      by (auto simp: recs_def inj_on_def)
    show "sorted (map (\<lambda>r. case r of None \<Rightarrow> 0 | Some x \<Rightarrow> trigFrame x) (recs d (sort js)))"
    proof -
      have "map (\<lambda>r. case r of None \<Rightarrow> 0 | Some x \<Rightarrow> trigFrame x) (recs d (sort js))
          = map ((+) (firstFrameIndex (stream d))) (sort js)"
        by (simp add: recs_def)
      then show ?thesis by (simp add: sorted_map)
    qed
  qed
  then show ?thesis by (simp add: sort_records_def)
qed

lemma length_comparable [simp]: "length (comparable d) = length (rawData (stream d))"
  by (simp add: comparable_def)

lemma firstPotential_ge: "NPresamples d \<le> firstPotentialTriggerFrame d"
    "NPresamples d \<le> firstPotentialAutoTriggerFrame d"
  by (simp_all add: firstPotentialTriggerFrame_def firstPotentialAutoTriggerFrame_def Let_def)

subsection \<open>The edge pass\<close>

text \<open>The edge condition at index \<open>j\<close> of the comparable samples.\<close>

definition edge_at :: "'a dsp_scheme \<Rightarrow> int \<Rightarrow> bool" where
  "edge_at d j = (let raw = comparable d in
     edge_condition (triggerState d) (raw ! nat j) (raw ! nat (j - 1)) (raw ! nat (j - 2))
       (raw ! nat (j - 3)))"

lemma edge_loop_steps:
  assumes "ready d" "NPresamples d \<le> i"
  shows "edge_loop d (comparable d) i rs =
    (if i < trig_limit d
     then if edge_at d i
       then edge_loop d (comparable d) (i + NSamples d + 1) (rs @ recs d [i])
       else edge_loop d (comparable d) (i + 1) rs
     else Inr rs)"
proof (cases "i < trig_limit d")
  case True
  then have "i < int (length (comparable d))" "3 \<le> i"
    using assms by (auto simp: ready_def trig_limit_def)
  then show ?thesis using assms True
    by (subst edge_loop.simps) (simp add: triggerAt_fits edge_at_def Let_def)
qed (subst edge_loop.simps, simp)

lemma edge_loop_spec:
  assumes "ready d" "NPresamples d \<le> i"
  shows "\<exists>js. edge_loop d (comparable d) i rs = Inr (rs @ recs d js)
    \<and> (\<forall>j\<in>set js. i \<le> j \<and> j < trig_limit d \<and> edge_at d j) \<and> spaced (NSamples d + 1) js
    \<and> (\<forall>j. i \<le> j \<and> j < trig_limit d \<and> edge_at d j \<longrightarrow> (\<exists>k\<in>set js. k \<le> j \<and> j \<le> k + NSamples d))"
  using assms
proof (induction "nat (trig_limit d - i)" arbitrary: i rs rule: less_induct)
  case less
  note step = edge_loop_steps [OF less.prems, of rs]
  have ns: "0 < NSamples d" using less.prems by (simp add: ready_def)
  consider "\<not> i < trig_limit d" | "i < trig_limit d" "edge_at d i" | "i < trig_limit d" "\<not> edge_at d i"
    by blast
  then show ?case
  proof cases
    case 1
    then show ?thesis by (auto simp: step intro!: exI [of _ "[]"])
  next
    case 2
    obtain js where js: "edge_loop d (comparable d) (i + NSamples d + 1) (rs @ recs d [i])
        = Inr ((rs @ recs d [i]) @ recs d js)"
      "\<forall>j\<in>set js. i + NSamples d + 1 \<le> j \<and> j < trig_limit d \<and> edge_at d j"
      "spaced (NSamples d + 1) js"
      "\<forall>j. i + NSamples d + 1 \<le> j \<and> j < trig_limit d \<and> edge_at d j
        \<longrightarrow> (\<exists>k\<in>set js. k \<le> j \<and> j \<le> k + NSamples d)"
      using less.hyps [of "i + NSamples d + 1" "rs @ recs d [i]"] less.prems 2 ns by auto
    have "edge_loop d (comparable d) i rs = Inr (rs @ recs d (i # js))"
      using step 2 js(1) by simp
    moreover have "\<forall>j\<in>set (i # js). i \<le> j \<and> j < trig_limit d \<and> edge_at d j"
      using js(2) 2 ns by auto
    moreover have "spaced (NSamples d + 1) (i # js)" using js(2,3) by auto
    moreover have "\<exists>k\<in>set (i # js). k \<le> j \<and> j \<le> k + NSamples d"
      if "i \<le> j" "j < trig_limit d" "edge_at d j" for j
      using js(4) that by (cases "j \<le> i + NSamples d") auto
    ultimately show ?thesis by blast
  next
    case 3
    obtain js where js: "edge_loop d (comparable d) (i + 1) rs = Inr (rs @ recs d js)"
      "\<forall>j\<in>set js. i + 1 \<le> j \<and> j < trig_limit d \<and> edge_at d j" "spaced (NSamples d + 1) js"
      "\<forall>j. i + 1 \<le> j \<and> j < trig_limit d \<and> edge_at d j
        \<longrightarrow> (\<exists>k\<in>set js. k \<le> j \<and> j \<le> k + NSamples d)"
      using less.hyps [of "i + 1" rs] less.prems 3 by auto
    have "\<exists>k\<in>set js. k \<le> j \<and> j \<le> k + NSamples d"
      if "i \<le> j" "j < trig_limit d" "edge_at d j" for j
      using js(4) that 3 by (cases "j = i") auto
    moreover have "\<forall>j\<in>set js. i \<le> j \<and> j < trig_limit d \<and> edge_at d j" using js(2) by auto
    moreover have "edge_loop d (comparable d) i rs = Inr (rs @ recs d js)" using step 3 js(1) by simp
    ultimately show ?thesis using js(3) by blast
  qed
qed

subsection \<open>The level pass\<close>

text \<open>The threshold of the pass and the level condition at index \<open>j\<close>.\<close>

definition level_threshold :: "'a dsp_scheme \<Rightarrow> raw" where
  "level_threshold d = (if signedData (stream d) then LevelLevel (triggerState d) + 32768
                        else LevelLevel (triggerState d))"

definition level_at :: "'a dsp_scheme \<Rightarrow> int \<Rightarrow> bool" where
  "level_at d j = (let raw = comparable d in
     level_condition (triggerState d) (level_threshold d) (raw ! nat j) (raw ! nat (j - 1)))"

text \<open>A record length away from all triggers of a list, on either side.\<close>

definition clear_of :: "'a dsp_scheme \<Rightarrow> int list \<Rightarrow> int \<Rightarrow> bool" where
  "clear_of d fs j \<longleftrightarrow> (\<forall>f\<in>set fs. j + NSamples d \<le> f \<or> f + NSamples d \<le> j)"

definition next_of :: "int list \<Rightarrow> int option" where
  "next_of fs = (case fs of [] \<Rightarrow> None | f # _ \<Rightarrow> Some f)"

lemma next_of_simps [simp]: "next_of [] = None" "next_of (f # fs) = Some f"
  by (simp_all add: next_of_def)

lemma level_loop_steps:
  assumes "ready d" "NPresamples d \<le> i"
  shows "level_loop d (comparable d) (level_threshold d) i (next_of fs) (recs d (tl fs)) rs =
    (if i < trig_limit d
     then (if fs \<noteq> [] \<and> i + NSamples d > hd fs
       then level_loop d (comparable d) (level_threshold d) (hd fs + NSamples d) (next_of (tl fs))
              (recs d (tl (tl fs))) rs
       else level_loop d (comparable d) (level_threshold d) (i + 1) (next_of fs) (recs d (tl fs))
              (if level_at d i then rs @ recs d [i] else rs))
     else Inr rs)"
proof (cases "i < trig_limit d")
  case True
  then have b: "i < int (length (comparable d))" "1 \<le> i"
    using assms by (auto simp: ready_def trig_limit_def)
  show ?thesis
  proof (cases fs)
    case Nil
    then show ?thesis using assms True b
      by (subst level_loop.simps) (simp add: triggerAt_fits level_at_def Let_def)
  next
    case (Cons f fs')
    then show ?thesis using assms True b
      by (subst level_loop.simps)
        (simp add: triggerAt_fits level_at_def Let_def next_of_def)
  qed
qed (subst level_loop.simps, simp)

lemma level_loop_spec:
  assumes "ready d" "NPresamples d \<le> i" "sorted fs" "\<forall>f\<in>set fs. i \<le> f + NSamples d"
    "\<forall>f\<in>set fs. NPresamples d \<le> f"
  shows "\<exists>js. level_loop d (comparable d) (level_threshold d) i (next_of fs) (recs d (tl fs)) rs
        = Inr (rs @ recs d js)
    \<and> set js = {j. i \<le> j \<and> j < trig_limit d \<and> level_at d j \<and> clear_of d fs j}
    \<and> sorted js \<and> distinct js"
  using assms
proof (induction "nat (trig_limit d - i) + length fs" arbitrary: i fs rs rule: less_induct)
  case less
  note step = level_loop_steps [OF less.prems(1,2), of fs rs]
  have ns: "0 < NSamples d" using less.prems by (simp add: ready_def)
  consider (stop) "\<not> i < trig_limit d"
    | (skip) "i < trig_limit d" "fs \<noteq> []" "i + NSamples d > hd fs"
    | (look) "i < trig_limit d" "\<not> (fs \<noteq> [] \<and> i + NSamples d > hd fs)" by blast
  then show ?case
  proof cases
    case stop
    then show ?thesis by (auto simp: step intro!: exI [of _ "[]"])
  next
    case skip
    then obtain f fs' where fs: "fs = f # fs'" by (cases fs) auto
    have i: "i \<le> f + NSamples d" using less.prems(4) by (simp add: fs)
    have "\<exists>js. level_loop d (comparable d) (level_threshold d) (f + NSamples d) (next_of fs')
          (recs d (tl fs')) rs = Inr (rs @ recs d js)
      \<and> set js = {j. f + NSamples d \<le> j \<and> j < trig_limit d \<and> level_at d j \<and> clear_of d fs' j}
      \<and> sorted js \<and> distinct js"
      using less.prems i ns by (intro less.hyps) (auto simp: fs)
    then obtain js where js: "level_loop d (comparable d) (level_threshold d) (f + NSamples d)
          (next_of fs') (recs d (tl fs')) rs = Inr (rs @ recs d js)"
      "set js = {j. f + NSamples d \<le> j \<and> j < trig_limit d \<and> level_at d j \<and> clear_of d fs' j}"
      "sorted js" "distinct js" by blast
    have "{j. f + NSamples d \<le> j \<and> j < trig_limit d \<and> level_at d j \<and> clear_of d fs' j}
        = {j. i \<le> j \<and> j < trig_limit d \<and> level_at d j \<and> clear_of d fs j}"
      using i skip(3) by (auto simp: clear_of_def fs)
    then show ?thesis using step skip js by (auto simp: fs)
  next
    case look
    let ?rs = "if level_at d i then rs @ recs d [i] else rs"
    have hd: "i + NSamples d \<le> f" if "f \<in> set fs" for f
    proof -
      have "fs \<noteq> []" "hd fs \<le> f" using that less.prems(3) by (cases fs; auto)+
      then show ?thesis using look(2) by auto
    qed
    have "\<exists>js. level_loop d (comparable d) (level_threshold d) (i + 1) (next_of fs)
          (recs d (tl fs)) ?rs = Inr (?rs @ recs d js)
      \<and> set js = {j. i + 1 \<le> j \<and> j < trig_limit d \<and> level_at d j \<and> clear_of d fs j}
      \<and> sorted js \<and> distinct js"
      using less.prems look ns hd by (intro less.hyps) (auto dest: hd)
    then obtain js where js: "level_loop d (comparable d) (level_threshold d) (i + 1) (next_of fs)
          (recs d (tl fs)) ?rs = Inr (?rs @ recs d js)"
      "set js = {j. i + 1 \<le> j \<and> j < trig_limit d \<and> level_at d j \<and> clear_of d fs j}"
      "sorted js" "distinct js" by blast
    have ci: "clear_of d fs i" using hd by (auto simp: clear_of_def)
    let ?js = "if level_at d i then i # js else js"
    have "level_loop d (comparable d) (level_threshold d) i (next_of fs) (recs d (tl fs)) rs
        = Inr (rs @ recs d ?js)"
      unfolding step if_P [OF look(1)] if_not_P [OF look(2)] js(1) by simp
    moreover have "set ?js = {j. i \<le> j \<and> j < trig_limit d \<and> level_at d j \<and> clear_of d fs j}"
    proof -
      have "{j. i \<le> j \<and> j < trig_limit d \<and> level_at d j \<and> clear_of d fs j}
          = (if level_at d i then {i} else {})
            \<union> {j. i + 1 \<le> j \<and> j < trig_limit d \<and> level_at d j \<and> clear_of d fs j}"
        using ci look(1) by (auto simp: order_le_less)
      then show ?thesis by (simp add: js(2))
    qed
    moreover have "sorted ?js" "distinct ?js" using js by auto
    ultimately show ?thesis by blast
  qed
qed

subsection \<open>The auto pass\<close>

text \<open>The loop's maximum and minimum are the maximum and minimum of the record.\<close>

lemma minmax_step_extremes:
  assumes "m2 \<le> (m1::raw)"
  shows "foldl minmax_step (m1, m2) ds = (fold max ds m1, fold min ds m2)"
  using assms
proof (induction ds arbitrary: m1 m2)
  case (Cons x ds)
  have "minmax_step (m1, m2) x = (max x m1, min x m2)"
    using Cons.prems by (auto simp: minmax_step_def max_def min_def)
  moreover have "min x m2 \<le> max x m1" by (simp add: min_le_iff_disj)
  ultimately show ?case using Cons.IH by simp
qed simp

text \<open>The samples of the record at \<open>i\<close> and their spread, as raw words.\<close>

definition window :: "'a dsp_scheme \<Rightarrow> int \<Rightarrow> raw list" where
  "window d i = take (nat (NSamples d)) (drop (nat (i - NPresamples d)) (rawData (stream d)))"

definition vetoed_at :: "'a dsp_scheme \<Rightarrow> int \<Rightarrow> bool" where
  "vetoed_at d i \<longleftrightarrow> AutoVetoRange (triggerState d) > 0 \<and>
     Max (set (window d i)) - Min (set (window d i)) \<ge> AutoVetoRange (triggerState d)"

lemma window_nth:
  assumes "ready d" "NPresamples d \<le> i" "i < trig_limit d"
  shows "window d i = map (\<lambda>k. rawData (stream d) ! nat k) [i - NPresamples d..i - NPresamples d + NSamples d - 1]"
proof (rule nth_equalityI)
  show "length (window d i) = length (map (\<lambda>k. rawData (stream d) ! nat k)
      [i - NPresamples d..i - NPresamples d + NSamples d - 1])"
    using assms by (auto simp: window_def ready_def trig_limit_def)
next
  fix k assume "k < length (window d i)"
  then have k: "k < nat (NSamples d)" by (simp add: window_def)
  have "nat (i - NPresamples d) + k = nat (i - NPresamples d + int k)" using assms by auto
  then show "window d i ! k = map (\<lambda>k. rawData (stream d) ! nat k)
      [i - NPresamples d..i - NPresamples d + NSamples d - 1] ! k"
    using k assms by (simp add: window_def ready_def trig_limit_def)
qed

lemma auto_vetoed_fits:
  assumes "ready d" "NPresamples d \<le> i" "i < trig_limit d"
  shows "auto_vetoed d i = Inr (vetoed_at d i)"
proof (cases "AutoVetoRange (triggerState d) > 0")
  case True
  let ?raw = "rawData (stream d)" and ?s = "i - NPresamples d"
  let ?ks = "[?s + 1..?s + NSamples d - 1]"
  have b: "0 \<le> ?s" "?s + NSamples d \<le> int (length ?raw)" "0 < NSamples d"
    using assms by (auto simp: ready_def trig_limit_def)
  have w: "window d i = ?raw ! nat ?s # map (\<lambda>k. ?raw ! nat k) ?ks"
    unfolding window_nth [OF assms] using b by (subst upto_rec1) auto
  have m: "mapM_go (idx ?raw) ?ks = Inr (map (\<lambda>k. ?raw ! nat k) ?ks)"
    using b by (intro mapM_go_pure) (auto intro!: idx_in)
  have mx: "fold max ds x = Max (set (x # ds))" "fold min ds x = Min (set (x # ds))" for ds and x :: raw
    by (simp_all only: Max.set_eq_fold Min.set_eq_fold)
  have "idx ?raw ?s = Inr (?raw ! nat ?s)" using b by auto
  then show ?thesis
    using True by (simp only: auto_vetoed_def if_True Let_def bind_go_simps m
        minmax_step_extremes [OF order_refl] mx w vetoed_at_def prod.case simp_thms)
qed (simp add: auto_vetoed_def vetoed_at_def)

text \<open>
  What the pass adds: triggers inside the buffer that keep clear of the earlier ones and are not
  vetoed; and, when nothing is vetoed, no stretch of \<open>autoDelay + NSamples\<close> positions is left
  without a trigger.
\<close>

lemma auto_loop_steps:
  assumes "ready d" "NPresamples d \<le> i"
  shows "auto_loop d dl i (next_of fs) (recs d (tl fs)) rs =
    (if i < trig_limit d
     then (if fs \<noteq> [] \<and> i + NSamples d > hd fs
       then auto_loop d dl (hd fs + dl) (next_of (tl fs)) (recs d (tl (tl fs))) rs
       else auto_loop d dl (i + dl) (next_of fs) (recs d (tl fs))
              (if vetoed_at d i then rs else rs @ recs d [i]))
     else Some (Inr rs))"
proof -
  have lim: "i + NSamples d - NPresamples d < int (length (rawData (stream d))) \<longleftrightarrow> i < trig_limit d"
    by (auto simp: trig_limit_def)
  show ?thesis
  proof (cases "i < trig_limit d")
    case True
    note v = auto_vetoed_fits [OF assms True] and t = triggerAt_fits [OF assms True]
    show ?thesis
    proof (cases fs)
      case Nil
      then show ?thesis using True by (subst auto_loop.simps) (simp add: lim v t)
    next
      case (Cons f fs')
      then show ?thesis using True
        by (subst auto_loop.simps) (simp add: lim v t next_of_def not_le)
    qed
  next
    case False
    then show ?thesis by (subst auto_loop.simps) (simp add: lim)
  qed
qed

definition fills_gaps :: "'a dsp_scheme \<Rightarrow> int \<Rightarrow> int \<Rightarrow> int set \<Rightarrow> bool" where
  "fills_gaps d dl i T \<longleftrightarrow> (\<forall>p. i \<le> p + dl \<and> p + dl + NSamples d \<le> trig_limit d
     \<longrightarrow> (\<exists>t\<in>T. p \<le> t \<and> t < p + dl + NSamples d))"

lemma auto_loop_spec:
  assumes "ready d" "NPresamples d \<le> i" "NSamples d \<le> dl" "sorted fs" "\<forall>f\<in>set fs. i \<le> f + dl"
  shows "\<exists>js. auto_loop d dl i (next_of fs) (recs d (tl fs)) rs = Some (Inr (rs @ recs d js))
    \<and> (\<forall>j\<in>set js. i \<le> j \<and> j < trig_limit d \<and> clear_of d fs j \<and> \<not> vetoed_at d j)
    \<and> spaced dl js
    \<and> (AutoVetoRange (triggerState d) = 0 \<longrightarrow> fills_gaps d dl i (set fs \<union> set js))"
  using assms
proof (induction "nat (trig_limit d - i) + length fs" arbitrary: i fs rs rule: less_induct)
  case less
  note step = auto_loop_steps [OF less.prems(1,2), of dl fs rs]
  have ns: "0 < NSamples d" "0 < dl" using less.prems by (simp_all add: ready_def)
  consider (stop) "\<not> i < trig_limit d"
    | (skip) "i < trig_limit d" "fs \<noteq> [] \<and> i + NSamples d > hd fs"
    | (place) "i < trig_limit d" "\<not> (fs \<noteq> [] \<and> i + NSamples d > hd fs)" by blast
  then show ?case
  proof cases
    case stop
    then have "fills_gaps d dl i T" for T using ns by (auto simp: fills_gaps_def)
    then show ?thesis using stop by (auto simp: step intro!: exI [of _ "[]"])
  next
    case skip
    then obtain f fs' where fs: "fs = f # fs'" by (cases fs) auto
    have i: "i \<le> f + dl" "f < i + NSamples d" using less.prems(5) skip by (auto simp: fs)
    have "\<exists>js. auto_loop d dl (f + dl) (next_of fs') (recs d (tl fs')) rs = Some (Inr (rs @ recs d js))
      \<and> (\<forall>j\<in>set js. f + dl \<le> j \<and> j < trig_limit d \<and> clear_of d fs' j \<and> \<not> vetoed_at d j)
      \<and> spaced dl js
      \<and> (AutoVetoRange (triggerState d) = 0 \<longrightarrow> fills_gaps d dl (f + dl) (set fs' \<union> set js))"
      using less.prems i ns by (intro less.hyps) (auto simp: fs)
    then obtain js where js: "auto_loop d dl (f + dl) (next_of fs') (recs d (tl fs')) rs = Some (Inr (rs @ recs d js))"
      "\<forall>j\<in>set js. f + dl \<le> j \<and> j < trig_limit d \<and> clear_of d fs' j \<and> \<not> vetoed_at d j" "spaced dl js"
      "AutoVetoRange (triggerState d) = 0 \<longrightarrow> fills_gaps d dl (f + dl) (set fs' \<union> set js)" by blast
    have "auto_loop d dl i (next_of fs) (recs d (tl fs)) rs = Some (Inr (rs @ recs d js))"
      unfolding step if_P [OF skip(1)] if_P [OF skip(2)] using js(1) by (simp add: fs)
    moreover have "\<forall>j\<in>set js. i \<le> j \<and> j < trig_limit d \<and> clear_of d fs j \<and> \<not> vetoed_at d j"
      using js(2) i less.prems(3) by (auto simp: clear_of_def fs)
    moreover have "fills_gaps d dl i (set fs \<union> set js)" if "AutoVetoRange (triggerState d) = 0"
      unfolding fills_gaps_def
    proof (intro allI impI)
      fix p assume p: "i \<le> p + dl \<and> p + dl + NSamples d \<le> trig_limit d"
      show "\<exists>t\<in>set fs \<union> set js. p \<le> t \<and> t < p + dl + NSamples d"
      proof (cases "p \<le> f")
        case True
        then show ?thesis using p i by (intro bexI [of _ f]) (auto simp: fs)
      next
        case False
        then have "\<exists>t\<in>set fs' \<union> set js. p \<le> t \<and> t < p + dl + NSamples d"
          using js(4) that p by (simp add: fills_gaps_def)
        then show ?thesis by (auto simp: fs)
      qed
    qed
    ultimately show ?thesis using js(3) by blast
  next
    case place
    let ?rs = "if vetoed_at d i then rs else rs @ recs d [i]"
    have hd: "i + NSamples d \<le> f" if "f \<in> set fs" for f
    proof -
      have "fs \<noteq> []" "hd fs \<le> f" using that less.prems(4) by (cases fs; auto)+
      then show ?thesis using place(2) by auto
    qed
    have "\<exists>js. auto_loop d dl (i + dl) (next_of fs) (recs d (tl fs)) ?rs = Some (Inr (?rs @ recs d js))
      \<and> (\<forall>j\<in>set js. i + dl \<le> j \<and> j < trig_limit d \<and> clear_of d fs j \<and> \<not> vetoed_at d j)
      \<and> spaced dl js
      \<and> (AutoVetoRange (triggerState d) = 0 \<longrightarrow> fills_gaps d dl (i + dl) (set fs \<union> set js))"
      using less.prems place ns by (intro less.hyps) (auto dest: hd)
    then obtain js where js: "auto_loop d dl (i + dl) (next_of fs) (recs d (tl fs)) ?rs = Some (Inr (?rs @ recs d js))"
      "\<forall>j\<in>set js. i + dl \<le> j \<and> j < trig_limit d \<and> clear_of d fs j \<and> \<not> vetoed_at d j" "spaced dl js"
      "AutoVetoRange (triggerState d) = 0 \<longrightarrow> fills_gaps d dl (i + dl) (set fs \<union> set js)" by blast
    let ?js = "if vetoed_at d i then js else i # js"
    have "auto_loop d dl i (next_of fs) (recs d (tl fs)) rs = Some (Inr (rs @ recs d ?js))"
      unfolding step if_P [OF place(1)] if_not_P [OF place(2)] js(1) by simp
    moreover have "clear_of d fs i" using hd by (auto simp: clear_of_def)
    then have "\<forall>j\<in>set ?js. i \<le> j \<and> j < trig_limit d \<and> clear_of d fs j \<and> \<not> vetoed_at d j"
      using js(2) place(1) ns by auto
    moreover have "spaced dl ?js" using js(2,3) by auto
    moreover have "fills_gaps d dl i (set fs \<union> set ?js)" if "AutoVetoRange (triggerState d) = 0"
      unfolding fills_gaps_def
    proof (intro allI impI)
      fix p assume p: "i \<le> p + dl \<and> p + dl + NSamples d \<le> trig_limit d"
      have nv: "\<not> vetoed_at d i" using that by (simp add: vetoed_at_def)
      show "\<exists>t\<in>set fs \<union> set ?js. p \<le> t \<and> t < p + dl + NSamples d"
      proof (cases "p \<le> i")
        case True
        then show ?thesis using p ns nv by (intro bexI [of _ i]) auto
      next
        case False
        then have "\<exists>t\<in>set fs \<union> set js. p \<le> t \<and> t < p + dl + NSamples d"
          using js(4) that p by (simp add: fills_gaps_def)
        then show ?thesis by auto
      qed
    qed
    ultimately show ?thesis by blast
  qed
qed

subsection \<open>The contract of a pass\<close>

text \<open>
  A pass, started on a list that satisfies \<open>pre\<close>, returns, keeps the records it was given and
  leaves a list that satisfies \<open>post\<close>.  Two passes in a row are a pass again.
\<close>

locale trigger_pass =
  fixes pass :: "'d \<Rightarrow> 'r list \<Rightarrow> 'r list go option"
    and able :: "'d \<Rightarrow> bool"
    and pre :: "'d \<Rightarrow> 'r list \<Rightarrow> bool"
    and post :: "'d \<Rightarrow> 'r list \<Rightarrow> bool"
  assumes pass_total: "able d \<Longrightarrow> pre d rs \<Longrightarrow>
      \<exists>rs'. pass d rs = Some (Inr rs') \<and> post d rs' \<and> set rs \<subseteq> set rs'"
begin

lemma pass_returns: "able d \<Longrightarrow> pre d rs \<Longrightarrow> \<exists>rs'. pass d rs = Some (Inr rs')"
  using pass_total by blast

lemma pass_post:
  assumes "able d" "pre d rs" "pass d rs = Some (Inr rs')"
  shows "post d rs'" "set rs \<subseteq> set rs'"
  using pass_total [OF assms(1,2)] assms(3) by auto

end

definition then_pass ::
  "('d \<Rightarrow> 'r list \<Rightarrow> 'r list go option) \<Rightarrow> ('d \<Rightarrow> 'r list \<Rightarrow> 'r list go option)
   \<Rightarrow> 'd \<Rightarrow> 'r list \<Rightarrow> 'r list go option" where
  "then_pass p q d rs = (case p d rs of
       None \<Rightarrow> None | Some (Inl e) \<Rightarrow> Some (Inl e) | Some (Inr rs') \<Rightarrow> q d rs')"

locale trigger_pipeline =
  first: trigger_pass pass1 able pre mid + second: trigger_pass pass2 able mid post
  for pass1 :: "'d \<Rightarrow> 'r list \<Rightarrow> 'r list go option" and pass2 able pre mid post

sublocale trigger_pipeline \<subseteq> both: trigger_pass "then_pass pass1 pass2" able pre post
proof
  fix d rs assume "able d" "pre d rs"
  then obtain rs1 where 1: "pass1 d rs = Some (Inr rs1)" "mid d rs1" "set rs \<subseteq> set rs1"
    using first.pass_total by blast
  then obtain rs2 where "pass2 d rs1 = Some (Inr rs2)" "post d rs2" "set rs1 \<subseteq> set rs2"
    using second.pass_total \<open>able d\<close> by blast
  then show "\<exists>rs'. then_pass pass1 pass2 d rs = Some (Inr rs') \<and> post d rs' \<and> set rs \<subseteq> set rs'"
    using 1 by (auto simp: then_pass_def)
qed

text \<open>
  The lists the passes hand on: sorted records, no two at one place, cut from the buffer at positions where a trigger was
  possible.
\<close>

definition placed :: "'a dsp_scheme \<Rightarrow> int list \<Rightarrow> bool" where
  "placed d js \<longleftrightarrow> sorted js \<and> (\<forall>j\<in>set js. firstPotentialTriggerFrame d \<le> j \<and> j < trig_limit d)"

definition well_placed :: "'a dsp_scheme \<Rightarrow> int list \<Rightarrow> bool" where
  "well_placed d js \<longleftrightarrow> placed d js \<and> distinct js"

lemmas placed_defs = well_placed_def placed_def

definition well_cut :: "'a dsp_scheme \<Rightarrow> data_record option list \<Rightarrow> bool" where
  "well_cut d rs \<longleftrightarrow> (\<exists>js. rs = recs d js \<and> well_placed d js)"

lemma placed_fits: "placed d js \<Longrightarrow> fits d js"
  using firstPotential_ge(1) [of d] by (auto simp: placed_defs fits_def)

lemma well_placed_placed: "well_placed d js \<Longrightarrow> placed d js"
  by (simp add: well_placed_def)

lemmas well_placed_fits = placed_fits [OF well_placed_placed]

lemma well_placed_sort:
  assumes "ready d" "well_placed d js" "distinct ks"
    and "\<forall>j\<in>set ks. firstPotentialTriggerFrame d \<le> j \<and> j < trig_limit d \<and> clear_of d js j"
  shows "well_placed d (sort (js @ ks))"
proof -
  have "k \<notin> set js" if "k \<in> set ks" for k
    using assms(1,4) that by (force simp: clear_of_def ready_def)
  then show ?thesis using assms(2-4) by (auto simp: placed_defs)
qed

lemma spaced_distinct: "spaced n js \<Longrightarrow> 0 < n \<Longrightarrow> distinct js"
  by (induction js) (force simp: spaced_def)+

lemma auto_start:
  assumes "ready d" "placed d fs"
  shows "firstPotentialTriggerFrame d \<le> firstPotentialAutoTriggerFrame d"
    and "NSamples d \<le> autoDelaySamples d"
    and "\<forall>f\<in>set fs. firstPotentialAutoTriggerFrame d \<le> f + autoDelaySamples d"
proof -
  show "firstPotentialTriggerFrame d \<le> firstPotentialAutoTriggerFrame d" "NSamples d \<le> autoDelaySamples d"
    by (simp_all add: firstPotentialTriggerFrame_def firstPotentialAutoTriggerFrame_def Let_def
      autoDelaySamples_def)
  have "firstPotentialAutoTriggerFrame d \<le> firstPotentialTriggerFrame d + autoDelaySamples d"
    using assms(1) by (auto simp: firstPotentialTriggerFrame_def firstPotentialAutoTriggerFrame_def
      Let_def autoDelaySamples_def ready_def)
  then show "\<forall>f\<in>set fs. firstPotentialAutoTriggerFrame d \<le> f + autoDelaySamples d"
    using assms(2) by (fastforce simp: placed_defs)
qed

subsection \<open>What each pass adds\<close>

lemma edge_pass_spec:
  assumes "ready d" "EdgeTrigger (triggerState d)"
  shows "\<exists>js. edgeTriggerComputeAppend d [] = Inr (recs d js)
    \<and> (\<forall>j\<in>set js. firstPotentialTriggerFrame d \<le> j \<and> j < trig_limit d \<and> edge_at d j)
    \<and> spaced (NSamples d + 1) js
    \<and> (\<forall>j. firstPotentialTriggerFrame d \<le> j \<and> j < trig_limit d \<and> edge_at d j
        \<longrightarrow> (\<exists>k\<in>set js. k \<le> j \<and> j \<le> k + NSamples d))"
  using edge_loop_spec [OF assms(1) firstPotential_ge(1), of "[]"] assms(2)
  by (simp add: edgeTriggerComputeAppend_def)

lemma level_pass_spec:
  assumes "ready d" "LevelTrigger (triggerState d)" "placed d fs"
  shows "\<exists>js. levelTriggerComputeAppend d (recs d fs) = Inr (recs d (sort (fs @ js)))
    \<and> set js = {j. firstPotentialTriggerFrame d \<le> j \<and> j < trig_limit d \<and> level_at d j \<and> clear_of d fs j}
    \<and> sorted js \<and> distinct js"
proof -
  have "\<forall>f\<in>set fs. firstPotentialTriggerFrame d \<le> f + NSamples d" "\<forall>f\<in>set fs. NPresamples d \<le> f"
    using assms(1,3) placed_fits [OF assms(3)] by (auto simp: placed_defs ready_def fits_def)
  then obtain js where "level_loop d (comparable d) (level_threshold d) (firstPotentialTriggerFrame d)
        (next_of fs) (recs d (tl fs)) (recs d fs) = Inr (recs d fs @ recs d js)"
    "set js = {j. firstPotentialTriggerFrame d \<le> j \<and> j < trig_limit d \<and> level_at d j \<and> clear_of d fs j}"
    "sorted js" "distinct js"
    using level_loop_spec [OF assms(1) firstPotential_ge(1), of fs "recs d fs"] assms(3)
    by (auto simp: placed_defs)
  then show ?thesis
    using assms(2) sort_records_recs [of d "fs @ js"]
    by (auto simp: levelTriggerComputeAppend_def level_threshold_def next_of_def Let_def)
qed

lemma auto_pass_spec:
  assumes "ready d" "AutoTrigger (triggerState d)" "placed d fs"
  shows "\<exists>js. autoTriggerComputeAppend d (recs d fs) = Some (Inr (recs d (sort (fs @ js))))
    \<and> (\<forall>j\<in>set js. firstPotentialAutoTriggerFrame d \<le> j \<and> j < trig_limit d \<and> clear_of d fs j
        \<and> \<not> vetoed_at d j)
    \<and> spaced (autoDelaySamples d) js
    \<and> (AutoVetoRange (triggerState d) = 0
        \<longrightarrow> fills_gaps d (autoDelaySamples d) (firstPotentialAutoTriggerFrame d) (set fs \<union> set js))"
proof -
  note st = auto_start [OF assms(1,3)]
  obtain js where "auto_loop d (autoDelaySamples d) (firstPotentialAutoTriggerFrame d)
        (next_of fs) (recs d (tl fs)) (recs d fs) = Some (Inr (recs d fs @ recs d js))"
    "\<forall>j\<in>set js. firstPotentialAutoTriggerFrame d \<le> j \<and> j < trig_limit d \<and> clear_of d fs j \<and> \<not> vetoed_at d j"
    "spaced (autoDelaySamples d) js"
    "AutoVetoRange (triggerState d) = 0
      \<longrightarrow> fills_gaps d (autoDelaySamples d) (firstPotentialAutoTriggerFrame d) (set fs \<union> set js)"
    using auto_loop_spec [OF assms(1) firstPotential_ge(2) st(2) _ st(3), of "recs d fs"] assms(3)
    by (auto simp: placed_defs)
  then show ?thesis
    using assms(2) sort_records_recs [of d "fs @ js"]
    by (auto simp: autoTriggerComputeAppend_def next_of_def)
qed

interpretation edge_pass: trigger_pass "\<lambda>d rs. Some (edgeTriggerComputeAppend d rs)" ready
  "\<lambda>d rs. rs = []" well_cut
proof
  fix d :: "'a dsp_scheme" and rs :: "data_record option list"
  assume "ready d" "rs = []"
  show "\<exists>rs'. Some (edgeTriggerComputeAppend d rs) = Some (Inr rs') \<and> well_cut d rs' \<and> set rs \<subseteq> set rs'"
  proof (cases "EdgeTrigger (triggerState d)")
    case True
    then obtain js where js: "edgeTriggerComputeAppend d [] = Inr (recs d js)"
      "\<forall>j\<in>set js. firstPotentialTriggerFrame d \<le> j \<and> j < trig_limit d" "spaced (NSamples d + 1) js"
      using edge_pass_spec [OF \<open>ready d\<close>] by blast
    have "well_placed d js"
      using js(2) spaced_sorted [OF js(3)] spaced_distinct [OF js(3)] \<open>ready d\<close> by (simp add: placed_defs ready_def)
    then show ?thesis using js(1) \<open>rs = []\<close> by (auto simp: well_cut_def)
  next
    case False
    then show ?thesis using \<open>rs = []\<close>
      by (auto simp: edgeTriggerComputeAppend_def well_cut_def placed_defs intro!: exI [of _ "[]"])
  qed
qed

interpretation level_pass: trigger_pass "\<lambda>d rs. Some (levelTriggerComputeAppend d rs)" ready well_cut well_cut
proof
  fix d :: "'a dsp_scheme" and rs :: "data_record option list"
  assume rd: "ready d" and "well_cut d rs"
  then obtain fs where fs: "rs = recs d fs" "well_placed d fs" by (auto simp: well_cut_def)
  show "\<exists>rs'. Some (levelTriggerComputeAppend d rs) = Some (Inr rs') \<and> well_cut d rs' \<and> set rs \<subseteq> set rs'"
  proof (cases "LevelTrigger (triggerState d)")
    case True
    obtain js where js: "levelTriggerComputeAppend d (recs d fs) = Inr (recs d (sort (fs @ js)))"
      "set js = {j. firstPotentialTriggerFrame d \<le> j \<and> j < trig_limit d \<and> level_at d j \<and> clear_of d fs j}"
      "distinct js"
      using level_pass_spec [OF rd True well_placed_placed [OF fs(2)]] by blast
    have "well_placed d (sort (fs @ js))" using js(2) by (intro well_placed_sort rd fs(2) js(3)) auto
    then show ?thesis using js(1) by (auto simp: fs(1) well_cut_def recs_def)
  qed (use fs in \<open>auto simp: levelTriggerComputeAppend_def well_cut_def\<close>)
qed

interpretation auto_pass: trigger_pass autoTriggerComputeAppend ready well_cut well_cut
proof
  fix d :: "'a dsp_scheme" and rs :: "data_record option list"
  assume rd: "ready d" and "well_cut d rs"
  then obtain fs where fs: "rs = recs d fs" "well_placed d fs" by (auto simp: well_cut_def)
  show "\<exists>rs'. autoTriggerComputeAppend d rs = Some (Inr rs') \<and> well_cut d rs' \<and> set rs \<subseteq> set rs'"
  proof (cases "AutoTrigger (triggerState d)")
    case True
    obtain js where js: "autoTriggerComputeAppend d (recs d fs) = Some (Inr (recs d (sort (fs @ js))))"
      "\<forall>j\<in>set js. firstPotentialAutoTriggerFrame d \<le> j \<and> j < trig_limit d \<and> clear_of d fs j"
      "spaced (autoDelaySamples d) js"
      using auto_pass_spec [OF rd True well_placed_placed [OF fs(2)]] by blast
    have "distinct js"
      using spaced_distinct [OF js(3)] auto_start(2) [OF rd well_placed_placed [OF fs(2)]] rd by (simp add: ready_def)
    then have "well_placed d (sort (fs @ js))"
      using js(2) auto_start(1) [OF rd well_placed_placed [OF fs(2)]] by (intro well_placed_sort rd fs(2)) fastforce+
    then show ?thesis using js(1) by (auto simp: fs(1) well_cut_def recs_def)
  qed (use fs in \<open>auto simp: autoTriggerComputeAppend_def well_cut_def\<close>)
qed

interpretation edge_level: trigger_pipeline "\<lambda>d rs. Some (edgeTriggerComputeAppend d rs)"
  "\<lambda>d rs. Some (levelTriggerComputeAppend d rs)" ready "\<lambda>d rs. rs = []" well_cut well_cut
  by unfold_locales

interpretation all_passes: trigger_pipeline "then_pass (\<lambda>d rs. Some (edgeTriggerComputeAppend d rs))
    (\<lambda>d rs. Some (levelTriggerComputeAppend d rs))"
  autoTriggerComputeAppend ready "\<lambda>d rs. rs = []" well_cut well_cut
  by unfold_locales

subsection \<open>The whole step\<close>

lemma primary_records_passes:
  assumes "\<not> EdgeMulti (triggerState d)"
  shows "primary_records solve d = map_option (\<lambda>m. bind_go m (\<lambda>rs. Inr (d, rs)))
    (then_pass (then_pass (\<lambda>d rs. Some (edgeTriggerComputeAppend d rs))
      (\<lambda>d rs. Some (levelTriggerComputeAppend d rs))) autoTriggerComputeAppend d [])"
  using assms
  by (auto simp: primary_records_def then_pass_def bind_go_def split: sum.splits)

lemma primary_records_spec:
  assumes "ready d" "\<not> EdgeMulti (triggerState d)"
  shows "\<exists>js. primary_records solve d = Some (Inr (d, recs d js)) \<and> well_placed d js"
  using all_passes.both.pass_total [OF assms(1) refl]
  by (auto simp: primary_records_passes [OF assms(2)] well_cut_def)

lemma map_filter_recs [simp]: "List.map_filter id (recs d js) = map (cut_at d) js"
  by (induction js) (simp_all add: map_filter_simps)

lemma TriggerData_spec:
  assumes "ready d" "\<not> EdgeMulti (triggerState d)"
  shows "\<exists>js. TriggerData solve d = Some (Inr (finish_triggers d (recs d js))) \<and> well_placed d js"
  using primary_records_spec [OF assms, of solve] by (auto simp: TriggerData_def)

text \<open>
  C9: In a channel that does not use the edge-multi search (which may look before the buffer when its
  lengths are invalid), with at least three samples before the trigger and one after it, the trigger step
  always returns: none of its loops runs forever, whatever the automatic delay and the data, and no
  sample outside the buffer and no missing record is ever touched.
\<close>

theorem trigger_data_returns:
  assumes "3 \<le> NPresamples d" "NPresamples d < NSamples d" "\<not> EdgeMulti (triggerState d)"
  shows "\<exists>d' records. TriggerData solve d = Some (Inr (d', records))"
  using TriggerData_spec [of d solve] assms by (auto simp: ready_def finish_triggers_def Let_def)

text \<open>
  C10: In a channel that does not use the edge-multi search (whose records may be shorter), with at least three samples
  before the trigger and one after it, every record of the trigger step is a faithful cut of the buffer:
  \<open>NSamples\<close> consecutive samples of it, \<open>NPresamples\<close> of them before the trigger, in increasing order of
  trigger frame.  The trigger list handed to the broker names exactly these frames, all of them before the
  frame it declares unable to trigger, and the last one is remembered for the next buffer.
\<close>

theorem trigger_records_faithful:
  assumes "3 \<le> NPresamples d" "NPresamples d < NSamples d" "\<not> EdgeMulti (triggerState d)"
    and "TriggerData solve d = Some (Inr (d', records))"
  shows "(\<forall>r\<in>set records. let k = trigFrame r - firstFrameIndex (stream d) - NPresamples d in
      0 \<le> k \<and> k + NSamples d \<le> int (length (rawData (stream d)))
      \<and> recData r = take (nat (NSamples d)) (drop (nat k) (rawData (stream d)))
      \<and> length (recData r) = nat (NSamples d) \<and> presamples r = NPresamples d)
    \<and> sorted (map trigFrame records)
    \<and> tl_frames (lastTrigList d') = map trigFrame records
    \<and> (\<forall>f\<in>set (tl_frames (lastTrigList d')). f < firstFrameThatCannotTrigger (lastTrigList d'))
    \<and> LastTrigger d' = (if records = [] then LastTrigger d else trigFrame (last records))"
proof -
  have rd: "ready d" using assms(1,2) by (simp add: ready_def)
  obtain js where js: "TriggerData solve d = Some (Inr (finish_triggers d (recs d js)))"
    and wp: "well_placed d js"
    using TriggerData_spec [OF rd assms(3)] by blast
  have fin: "finish_triggers d (recs d js) = (d', records)" using js assms(4) by simp
  then have r: "records = map (cut_at d) js" by (auto simp: finish_triggers_def Let_def)
  have fit: "NPresamples d \<le> j" "j < trig_limit d" if "j \<in> set js" for j
    using well_placed_fits [OF wp] that by (auto simp: fits_def)
  have 1: "\<forall>r\<in>set records. let k = trigFrame r - firstFrameIndex (stream d) - NPresamples d in
      0 \<le> k \<and> k + NSamples d \<le> int (length (rawData (stream d)))
      \<and> recData r = take (nat (NSamples d)) (drop (nat k) (rawData (stream d)))
      \<and> length (recData r) = nat (NSamples d) \<and> presamples r = NPresamples d"
    using fit assms(1,2)
    by (fastforce simp: r Let_def cut_at_def cut_record_def trig_limit_def)
  have fr: "map trigFrame records = map ((+) (firstFrameIndex (stream d))) js" by (simp add: r)
  have 2: "sorted (map trigFrame records)"
    using wp unfolding fr by (simp add: placed_defs sorted_map)
  have 3: "tl_frames (lastTrigList d') = map trigFrame records"
    "firstFrameThatCannotTrigger (lastTrigList d') = firstFrameIndex (stream d) + trig_limit d"
    "LastTrigger d' = (if records = [] then LastTrigger d else trigFrame (last records))"
    using fin by (auto simp: finish_triggers_def Let_def r trig_limit_def)
  have "\<forall>f\<in>set (tl_frames (lastTrigList d')). f < firstFrameThatCannotTrigger (lastTrigList d')"
    using fit by (auto simp: 3 fr)
  then show ?thesis using 1 2 3 by blast
qed

text \<open>
  C11: The edge pass finds edges and misses none: each trigger is at an index where the local slope
  reaches the level, consecutive triggers are more than a record apart, and every such index of the
  searched range either is a trigger or lies within a record length after one.
\<close>

theorem edge_triggers_complete:
  assumes "3 \<le> NPresamples d" "NPresamples d < NSamples d" "EdgeTrigger (triggerState d)"
  shows "\<exists>js. edgeTriggerComputeAppend d [] = Inr (map (\<lambda>j. Some (cut_at d j)) js)
    \<and> (\<forall>j\<in>set js. firstPotentialTriggerFrame d \<le> j \<and> j < trig_limit d \<and> edge_at d j)
    \<and> spaced (NSamples d + 1) js
    \<and> (\<forall>j. firstPotentialTriggerFrame d \<le> j \<and> j < trig_limit d \<and> edge_at d j
        \<longrightarrow> (\<exists>k\<in>set js. k \<le> j \<and> j \<le> k + NSamples d))"
  using edge_pass_spec [of d] assms by (simp add: ready_def recs_def)

text \<open>
  C12: The level pass adds exactly the level crossings that keep a record length away from every edge
  trigger, on either side, and merges them into the list in order.  Edge triggers always win; level
  triggers do not keep clear of one another.
\<close>

theorem level_triggers_exact:
  assumes "3 \<le> NPresamples d" "NPresamples d < NSamples d" "LevelTrigger (triggerState d)"
    and "sorted fs" "\<forall>f\<in>set fs. firstPotentialTriggerFrame d \<le> f \<and> f < trig_limit d"
  shows "\<exists>js. levelTriggerComputeAppend d (map (\<lambda>j. Some (cut_at d j)) fs)
      = Inr (map (\<lambda>j. Some (cut_at d j)) (sort (fs @ js)))
    \<and> set js = {j. firstPotentialTriggerFrame d \<le> j \<and> j < trig_limit d \<and> level_at d j
        \<and> (\<forall>f\<in>set fs. j + NSamples d \<le> f \<or> f + NSamples d \<le> j)}
    \<and> distinct js"
  using level_pass_spec [of d fs] assms
  by (auto simp: ready_def recs_def placed_defs clear_of_def)

text \<open>
  Auto triggers never overlap another record: each keeps a record length away from every edge
  and level trigger, at least the automatic delay from the next auto trigger, and its record is not
  one the veto range excludes.
\<close>

theorem auto_triggers_clear:
  assumes "3 \<le> NPresamples d" "NPresamples d < NSamples d" "AutoTrigger (triggerState d)"
    and "sorted fs" "\<forall>f\<in>set fs. firstPotentialTriggerFrame d \<le> f \<and> f < trig_limit d"
  shows "\<exists>js. autoTriggerComputeAppend d (map (\<lambda>j. Some (cut_at d j)) fs)
      = Some (Inr (map (\<lambda>j. Some (cut_at d j)) (sort (fs @ js))))
    \<and> (\<forall>j\<in>set js. (\<forall>f\<in>set fs. j + NSamples d \<le> f \<or> f + NSamples d \<le> j)
        \<and> (AutoVetoRange (triggerState d) = 0
           \<or> Max (set (window d j)) - Min (set (window d j)) < AutoVetoRange (triggerState d)))
    \<and> spaced (autoDelaySamples d) js"
  using auto_pass_spec [of d fs] assms
  by (fastforce simp: ready_def recs_def placed_defs clear_of_def vetoed_at_def not_le
      word_greater_zero_iff)

text \<open>
  C13: Without a veto range the auto pass leaves no gap: every stretch of automatic delay plus one
  record length in which triggers are possible holds a trigger.
\<close>

theorem auto_triggers_fill_gaps:
  assumes "3 \<le> NPresamples d" "NPresamples d < NSamples d" "AutoTrigger (triggerState d)"
    and "AutoVetoRange (triggerState d) = 0"
    and "sorted fs" "\<forall>f\<in>set fs. firstPotentialTriggerFrame d \<le> f \<and> f < trig_limit d"
    and "autoTriggerComputeAppend d (map (\<lambda>j. Some (cut_at d j)) fs)
      = Some (Inr (map (\<lambda>j. Some (cut_at d j)) ts))"
    and "firstPotentialAutoTriggerFrame d - autoDelaySamples d \<le> p"
    and "p + autoDelaySamples d + NSamples d \<le> trig_limit d"
  shows "\<exists>t\<in>set ts. p \<le> t \<and> t < p + autoDelaySamples d + NSamples d"
proof -
  have "ready d" "placed d fs" using assms by (auto simp: ready_def placed_defs)
  then obtain js where js: "autoTriggerComputeAppend d (recs d fs) = Some (Inr (recs d (sort (fs @ js))))"
    "fills_gaps d (autoDelaySamples d) (firstPotentialAutoTriggerFrame d) (set fs \<union> set js)"
    using auto_pass_spec [of d fs] assms(3,4) by blast
  have "map (\<lambda>j. Some (cut_at d j)) ts = map (\<lambda>j. Some (cut_at d j)) (sort (fs @ js))"
    using js(1) assms(7) by (simp add: recs_def)
  moreover have "inj (\<lambda>j. Some (cut_at d j))" by (simp add: inj_def inj_cut_at)
  ultimately have "ts = sort (fs @ js)" by (metis inj_map_eq_map)
  then show ?thesis using js(2) assms(8,9) by (auto simp: fills_gaps_def)
qed

text \<open>
  The veto of auto triggers compares samples as unsigned numbers even when they are signed: a
  record whose samples are 0 and -1, a spread of one unit, is vetoed by every veto range.
\<close>

theorem auto_veto_ignores_sign:
  assumes "3 \<le> NPresamples d" "NPresamples d < NSamples d" "NPresamples d \<le> i" "i < trig_limit d"
    and "signedData (stream d)" "AutoVetoRange (triggerState d) > 0"
    and "set (window d i) = {0, - 1}"
  shows "auto_vetoed d i = Inr True
    \<and> (\<forall>x\<in>set (window d i). \<forall>y\<in>set (window d i). \<bar>sint x - sint y\<bar> \<le> 1)"
proof -
  have "vetoed_at d i"
    using assms(6) by (simp add: vetoed_at_def assms(7))
  then show ?thesis using auto_vetoed_fits [of d i] assms(1-4) by (simp add: ready_def assms(7))
qed

subsection \<open>A channel on which the statements apply\<close>

text \<open>
  Twenty samples with one rise, five-sample records with three samples before the trigger, every
  kind of trigger on, no delay and no veto.
\<close>

definition demo_state :: TriggerState where
  "demo_state = \<lparr>AutoTrigger = True, AutoDelay = 0, AutoVetoRange = 0, LevelTrigger = True,
     LevelRising = True, LevelLevel = 50, EdgeTrigger = True, EdgeRising = True, EdgeFalling = False,
     EdgeLevel = 100, EdgeMulti = False,
     emtRPCFields = \<lparr>EdgeMultiNoise = False, EdgeMultiMakeShortRecords = False,
       EdgeMultiMakeContaminatedRecords = False, EdgeMultiMakeSingleRecords = False,
       EdgeMultiDisableZeroThreshold = False, EdgeMultiLevel = 0, EdgeMultiVerifyNMonotone = 0\<rparr>,
     emtState = EMTState_zero\<rparr>"

definition demo_stream :: "raw list \<Rightarrow> data_stream" where
  "demo_stream data = NewDataStream data 1 1000 0 1"

definition demo_channel :: "raw list \<Rightarrow> dsp" where
  "demo_channel data = \<lparr>channelIndex = 0, NSamples = 5, NPresamples = 3, SampleRate = Fin 1,
     LastTrigger = 0, stream = demo_stream data,
     lastTrigList = \<lparr>tl_channelIndex = 0, tl_frames = [], tl_keyFrame = 0, tl_keyTime = 0,
       tl_sampleRate = Fin 1, firstFrameThatCannotTrigger = 0\<rparr>,
     triggerState = demo_state\<rparr>"

definition demo_data :: "raw list" where
  "demo_data = replicate 8 0 @ replicate 12 100"

lemma demo_channel_simps [simp]:
  "NSamples (demo_channel data) = 5" "NPresamples (demo_channel data) = 3"
  "triggerState (demo_channel data) = demo_state" "rawData (stream (demo_channel data)) = data"
  "LastTrigger (demo_channel data) = 0" "firstFrameIndex (stream (demo_channel data)) = 1000"
  "signedData (stream (demo_channel data)) = False" "SampleRate (demo_channel data) = Fin 1"
  by (simp_all add: demo_channel_def demo_stream_def NewDataStream_def NewDataSegment_def
      data_segment.defs data_stream.defs)

lemma demo_state_simps [simp]:
  "AutoTrigger demo_state" "AutoDelay demo_state = 0" "AutoVetoRange demo_state = 0"
  "LevelTrigger demo_state" "EdgeTrigger demo_state" "\<not> EdgeMulti demo_state"
  by (simp_all add: demo_state_def)

lemma autoDelayInSamples_zero:
  assumes "AutoDelay (triggerState d) = 0" "SampleRate d = Fin q"
  shows "autoDelayInSamples d = 0"
proof -
  have "r64 0 = Fin 0" using r64_exact [of 0 0] by simp
  moreover have "r64 (1 / 2) = Fin (1 / 2)" using r64_half [of 0] by simp
  moreover have "\<lfloor>1 / 2 :: rat\<rfloor> = 0" by (simp add: floor_eq_iff)
  ultimately show ?thesis
    using assms by (simp add: autoDelayInSamples_def duration_seconds_def f64_of_int_def quot_int_def
      rem_int_def trunc_rat_def)
qed

lemma demo_positions [simp]:
  "firstPotentialTriggerFrame (demo_channel data) = 3"
  "trig_limit (demo_channel data) = int (length data) - 2"
  "firstPotentialAutoTriggerFrame (demo_channel data) = 3" "autoDelaySamples (demo_channel data) = 5"
  using autoDelayInSamples_zero [of "demo_channel data" 1]
  by (simp_all add: firstPotentialTriggerFrame_def trig_limit_def firstPotentialAutoTriggerFrame_def
      autoDelaySamples_def Let_def)

theorem trigger_data_returns_witness:
  "\<exists>d' records. TriggerData no_solution (demo_channel demo_data) = Some (Inr (d', records))"
  by (rule trigger_data_returns) simp_all

theorem trigger_records_faithful_witness:
  "\<exists>d' records. TriggerData no_solution (demo_channel demo_data) = Some (Inr (d', records))
    \<and> sorted (map trigFrame records)"
proof -
  have "ready (demo_channel demo_data)" by (simp add: ready_def)
  then obtain js where
    js: "TriggerData no_solution (demo_channel demo_data)
      = Some (Inr (finish_triggers (demo_channel demo_data) (recs (demo_channel demo_data) js)))"
    using TriggerData_spec [of "demo_channel demo_data" no_solution] by auto
  obtain d' records where
    fin: "finish_triggers (demo_channel demo_data) (recs (demo_channel demo_data) js) = (d', records)"
    by fastforce
  then show ?thesis
    using trigger_records_faithful [of "demo_channel demo_data" no_solution d' records] js by auto
qed

theorem edge_triggers_complete_witness:
  "\<exists>js. edgeTriggerComputeAppend (demo_channel demo_data) []
      = Inr (map (\<lambda>j. Some (cut_at (demo_channel demo_data) j)) js)
    \<and> js \<noteq> [] \<and> spaced 6 js"
proof -
  have e: "edge_at (demo_channel demo_data) 8"
    by (simp add: edge_at_def comparable_def edge_condition_def demo_state_def demo_data_def
        nth_append Let_def)
  obtain js where js: "edgeTriggerComputeAppend (demo_channel demo_data) []
      = Inr (map (\<lambda>j. Some (cut_at (demo_channel demo_data) j)) js)" "spaced 6 js"
    "\<forall>j. 3 \<le> j \<and> j < 18 \<and> edge_at (demo_channel demo_data) j \<longrightarrow> (\<exists>k\<in>set js. k \<le> j \<and> j \<le> k + 5)"
    using edge_triggers_complete [of "demo_channel demo_data"] by (auto simp: demo_data_def)
  have "js \<noteq> []" using js(3) e by auto
  then show ?thesis using js(1,2) by blast
qed

theorem level_triggers_exact_witness:
  "\<exists>js. levelTriggerComputeAppend (demo_channel demo_data)
      (map (\<lambda>j. Some (cut_at (demo_channel demo_data) j)) [14])
      = Inr (map (\<lambda>j. Some (cut_at (demo_channel demo_data) j)) (sort ([14] @ js)))
    \<and> 8 \<in> set js"
proof -
  have "level_at (demo_channel demo_data) 8"
    by (simp add: level_at_def comparable_def level_condition_def level_threshold_def demo_state_def
        demo_data_def nth_append Let_def)
  then show ?thesis
    using level_triggers_exact [of "demo_channel demo_data" "[14]"] by (auto simp: demo_data_def)
qed

theorem auto_triggers_clear_witness:
  "\<exists>js. autoTriggerComputeAppend (demo_channel demo_data)
      (map (\<lambda>j. Some (cut_at (demo_channel demo_data) j)) [8])
      = Some (Inr (map (\<lambda>j. Some (cut_at (demo_channel demo_data) j)) (sort ([8] @ js))))
    \<and> (\<forall>j\<in>set js. j + 5 \<le> 8 \<or> 13 \<le> j)"
  using auto_triggers_clear [of "demo_channel demo_data" "[8]"] by (auto simp: demo_data_def)

theorem auto_triggers_fill_gaps_witness:
  "\<exists>ts. autoTriggerComputeAppend (demo_channel demo_data) []
      = Some (Inr (map (\<lambda>j. Some (cut_at (demo_channel demo_data) j)) ts))
    \<and> (\<exists>t\<in>set ts. 5 \<le> t \<and> t < 15)"
proof -
  have "ready (demo_channel demo_data)" by (simp add: ready_def)
  then obtain js where js: "autoTriggerComputeAppend (demo_channel demo_data) []
      = Some (Inr (recs (demo_channel demo_data) (sort js)))"
    using auto_pass_spec [of "demo_channel demo_data" "[]"] by (auto simp: placed_defs)
  moreover have "\<exists>t\<in>set (sort js). 5 \<le> t \<and> t < 15"
    using auto_triggers_fill_gaps [of "demo_channel demo_data" "[]" "sort js" 5] js
    by (simp add: recs_def demo_data_def)
  ultimately show ?thesis unfolding recs_def by blast
qed

definition signed_channel :: dsp where
  "signed_channel = (let d = demo_channel (concat (replicate 10 [0, - 1])) in
     d\<lparr>stream := (stream d)\<lparr>signedData := True\<rparr>,
       triggerState := (triggerState d)\<lparr>AutoVetoRange := 1000\<rparr>\<rparr>)"

theorem auto_veto_ignores_sign_witness: "auto_vetoed signed_channel 5 = Inr True"
proof -
  have "set (window signed_channel 5) = {0, - 1}"
    by (auto simp: window_def signed_channel_def Let_def numeral_eq_Suc)
  moreover have "AutoVetoRange (triggerState signed_channel) > 0" "signedData (stream signed_channel)"
    "NSamples signed_channel = 5" "NPresamples signed_channel = 3"
    by (simp_all add: signed_channel_def Let_def)
  moreover have "trig_limit signed_channel = 18"
    by (simp add: signed_channel_def Let_def trig_limit_def numeral_eq_Suc)
  ultimately show ?thesis using auto_veto_ignores_sign [of signed_channel 5] by simp
qed

end
