(* ===== verification/Baseline.thy ===== *)
theory Baseline
  imports GoFloat
begin

text \<open>
  The baseline monitor of a channel (\<open>baseline_monitor.go\<close>): raw samples are averaged in groups of
  \<open>nAverage\<close>; when \<open>nStore\<close> averages are queued they are sorted, and the tightest cluster of \<open>nPeak\<close>
  of them gives the baseline.  The time of a message is an argument of the call that makes it.
\<close>

subsection \<open>The order of \<open>slices.Sort\<close>\<close>

text \<open>Floats are sorted by value, NaN first.\<close>

instantiation go_float :: linorder
begin

fun float_rank :: "go_float \<Rightarrow> int \<times> rat" where
  "float_rank NaN = (0, 0)"
| "float_rank NInf = (1, 0)"
| "float_rank (Fin q) = (2, q)"
| "float_rank PInf = (3, 0)"

definition less_eq_go_float :: "go_float \<Rightarrow> go_float \<Rightarrow> bool" where
  "less_eq_go_float x y \<longleftrightarrow> fst (float_rank x) < fst (float_rank y)
     \<or> fst (float_rank x) = fst (float_rank y) \<and> snd (float_rank x) \<le> snd (float_rank y)"

definition less_go_float :: "go_float \<Rightarrow> go_float \<Rightarrow> bool" where
  "less_go_float x y \<longleftrightarrow> fst (float_rank x) < fst (float_rank y)
     \<or> fst (float_rank x) = fst (float_rank y) \<and> snd (float_rank x) < snd (float_rank y)"

instance
proof
  fix x y z :: go_float
  have inj: "x = y" if "fst (float_rank x) = fst (float_rank y)" "snd (float_rank x) = snd (float_rank y)" for x y
    using that by (cases x; cases y) simp_all
  show "x < y \<longleftrightarrow> x \<le> y \<and> \<not> y \<le> x" by (auto simp: less_eq_go_float_def less_go_float_def)
  show "x \<le> x" by (simp add: less_eq_go_float_def)
  show "x \<le> y \<Longrightarrow> y \<le> z \<Longrightarrow> x \<le> z"
    unfolding less_eq_go_float_def by (metis order_trans less_trans)
  show "x \<le> y \<Longrightarrow> y \<le> x \<Longrightarrow> x = y" by (rule inj) (auto simp: less_eq_go_float_def)
  show "x \<le> y \<or> y \<le> x" by (auto simp: less_eq_go_float_def)
qed

end

lemma Fin_le [simp]: "Fin a \<le> Fin b \<longleftrightarrow> a \<le> b"
  by (simp add: less_eq_go_float_def)

subsection \<open>The monitor\<close>

record BaselineMonitorMessage =
  ChanNum :: int
  Timestamp :: go_time
  Value :: go_float

record BaselineMonitor =
  chanNumber :: int
  nAverage :: int
  avgCounter :: int
  avgSum :: "64 word"
  nStore :: int
  nPeak :: int
  averages :: "go_float list"

text \<open>\<open>make\<close> panics on a negative capacity.\<close>

definition NewBaselineMonitor :: "int \<Rightarrow> int \<Rightarrow> int \<Rightarrow> int \<Rightarrow> BaselineMonitor option go" where
  "NewBaselineMonitor chan nAvg nSto nPk =
     (if nPk > nSto then Inr None
      else if nSto < 0 then Inl SliceBounds
      else Inr (Some \<lparr>chanNumber = chan, nAverage = nAvg, avgCounter = 0, avgSum = 0, nStore = nSto,
                 nPeak = nPk, averages = []\<rparr>))"

text \<open>The search for the tightest window of the sorted averages.\<close>

definition window_range :: "go_float list \<Rightarrow> int \<Rightarrow> int \<Rightarrow> go_float go" where
  "window_range avs hi lo = bind_go (idx avs hi) (\<lambda>a. bind_go (idx avs lo) (\<lambda>b. Inr (fsub r32 a b)))"

definition best_step :: "go_float list \<Rightarrow> int \<Rightarrow> go_float \<times> int \<Rightarrow> int \<Rightarrow> (go_float \<times> int) go" where
  "best_step avs nPk = (\<lambda>(bestRange, bestIdx) i.
     bind_go (window_range avs (nPk + i) (i + 1)) (\<lambda>thisrange.
       Inr (if flt thisrange bestRange then (thisrange, i + 1) else (bestRange, bestIdx))))"

definition analyzeQueue :: "go_time \<Rightarrow> BaselineMonitor \<Rightarrow> (BaselineMonitor \<times> BaselineMonitorMessage) go" where
  "analyzeQueue now bmon =
     (let avs = sort (averages bmon) in
      bind_go (window_range avs (nPeak bmon - 1) 0) (\<lambda>range0.
      bind_go (foldM_go (best_step avs (nPeak bmon)) (range0, 0) [0..nStore bmon - nPeak bmon - 1])
        (\<lambda>(_, bestIdx).
      bind_go (slice_go avs bestIdx (bestIdx + nPeak bmon)) (\<lambda>clusterValues.
        let sum = foldl (fadd r32) (Fin 0) clusterValues;
            baseline = fdiv r32 sum (f32_of_int (nPeak bmon)) in
        Inr (bmon\<lparr>averages := []\<rparr>, \<lparr>ChanNum = chanNumber bmon, Timestamp = now, Value = baseline\<rparr>)))))"

definition performAverage :: "go_time \<Rightarrow> BaselineMonitor \<Rightarrow> (BaselineMonitor \<times> BaselineMonitorMessage option) go" where
  "performAverage now bmon =
     (let avg = fdiv r32 (f32_of_int (uint (avgSum bmon))) (f32_of_int (avgCounter bmon));
          bmon = bmon\<lparr>avgSum := 0, avgCounter := 0, averages := averages bmon @ [avg]\<rparr> in
      if int (length (averages bmon)) = nStore bmon
      then bind_go (analyzeQueue now bmon) (\<lambda>(bmon, msg). Inr (bmon, Some msg))
      else Inr (bmon, None))"

definition AddOneValue :: "go_time \<Rightarrow> BaselineMonitor \<Rightarrow> raw \<Rightarrow> (BaselineMonitor \<times> BaselineMonitorMessage option) go" where
  "AddOneValue now bmon v =
     (let bmon = bmon\<lparr>avgSum := avgSum bmon + ucast v, avgCounter := avgCounter bmon + 1\<rparr> in
      if avgCounter bmon \<ge> nAverage bmon then performAverage now bmon else Inr (bmon, None))"

text \<open>
  \<open>AddSliceValues\<close> takes as many samples as fit the current average at a time.  With \<open>nAverage\<close>
  zero or less the loop of the code never ends (\<open>None\<close>).
\<close>

partial_function (option) slice_loop ::
  "go_time \<Rightarrow> BaselineMonitor \<Rightarrow> raw list \<Rightarrow> BaselineMonitorMessage list
    \<Rightarrow> (BaselineMonitor \<times> BaselineMonitorMessage list) go option" where
  "slice_loop now bmon values msgs =
     (if values = [] then Some (Inr (bmon, msgs))
      else let chunkSize = min (nAverage bmon - avgCounter bmon) (int (length values));
               chunk = take (nat chunkSize) values;
               bmon1 = bmon\<lparr>avgSum := avgSum bmon + sum_list (map ucast chunk),
                            avgCounter := avgCounter bmon + chunkSize\<rparr>;
               rest = drop (nat chunkSize) values in
           if avgCounter bmon1 \<ge> nAverage bmon1
           then (case performAverage now bmon1 of
               Inl e \<Rightarrow> Some (Inl e)
             | Inr (bmon2, None) \<Rightarrow> slice_loop now bmon2 rest msgs
             | Inr (bmon2, Some msg) \<Rightarrow> slice_loop now bmon2 rest (msgs @ [msg]))
           else slice_loop now bmon1 rest msgs)"

definition AddSliceValues ::
  "go_time \<Rightarrow> BaselineMonitor \<Rightarrow> raw list \<Rightarrow> (BaselineMonitor \<times> BaselineMonitorMessage list) go option" where
  "AddSliceValues now bmon values = slice_loop now bmon values []"

subsection \<open>The monitor never panics\<close>

definition bmon_ok :: "BaselineMonitor \<Rightarrow> bool" where
  "bmon_ok b \<longleftrightarrow> 0 \<le> avgCounter b \<and> avgCounter b < nAverage b \<and> 1 \<le> nPeak b \<and> nPeak b \<le> nStore b
     \<and> int (length (averages b)) < nStore b"

lemma window_range_in:
  "0 \<le> lo \<Longrightarrow> lo < int (length avs) \<Longrightarrow> 0 \<le> hi \<Longrightarrow> hi < int (length avs)
   \<Longrightarrow> window_range avs hi lo = Inr (fsub r32 (avs ! nat hi) (avs ! nat lo))"
  by (simp add: window_range_def)

text \<open>Not strictly below, in the sense the code compares ranges.\<close>

lemma flt_trans_neg:
  assumes "\<not> flt r b" "flt b' b"
  shows "\<not> flt r b'"
  using assms by (cases r; cases b; cases b') auto

definition range_at :: "go_float list \<Rightarrow> int \<Rightarrow> int \<Rightarrow> go_float" where
  "range_at avs nPk k = fsub r32 (avs ! nat (nPk + k - 1)) (avs ! nat k)"

lemma best_loop:
  assumes "1 \<le> nPk" "nPk \<le> int (length avs)" "int n \<le> int (length avs) - nPk"
  shows "\<exists>r k. foldM_go (best_step avs nPk) (range_at avs nPk 0, 0) (map int [0..<n]) = Inr (r, k)
    \<and> 0 \<le> k \<and> k \<le> int n \<and> r = range_at avs nPk k
    \<and> (\<forall>j. 0 \<le> j \<and> j \<le> int n \<longrightarrow> \<not> flt (range_at avs nPk j) r)"
  using assms(3)
proof (induction n)
  case 0
  have "\<not> flt x x" for x by (cases x) simp_all
  then show ?case by (auto dest: antisym)
next
  case (Suc n)
  then obtain r k where ih: "foldM_go (best_step avs nPk) (range_at avs nPk 0, 0) (map int [0..<n]) = Inr (r, k)"
    "0 \<le> k" "k \<le> int n" "r = range_at avs nPk k" "\<forall>j. 0 \<le> j \<and> j \<le> int n \<longrightarrow> \<not> flt (range_at avs nPk j) r"
    by auto
  define t where "t = range_at avs nPk (int n + 1)"
  have "window_range avs (nPk + int n) (int n + 1) = Inr t"
    using assms(1,2) Suc.prems by (subst window_range_in) (simp_all add: t_def range_at_def)
  then have step: "best_step avs nPk (r, k) (int n) = Inr (if flt t r then (t, int n + 1) else (r, k))"
    by (simp add: best_step_def)
  have self: "\<not> flt x x" for x by (cases x) simp_all
  have min: "\<not> flt (range_at avs nPk j) (if flt t r then t else r)" if "0 \<le> j" "j \<le> int (Suc n)" for j
  proof (cases "j = int n + 1")
    case True
    then show ?thesis using self by (auto simp: t_def)
  next
    case False
    then have n: "\<not> flt (range_at avs nPk j) r" using ih(5) that by simp
    show ?thesis
    proof (cases "flt t r")
      case True
      show ?thesis using flt_trans_neg [OF n True] True by simp
    qed (simp add: n)
  qed
  have run: "foldM_go (best_step avs nPk) (range_at avs nPk 0, 0) (map int [0..<Suc n])
      = Inr (if flt t r then (t, int n + 1) else (r, k))"
    by (simp add: foldM_go_append ih(1) step)
  show ?case
  proof (cases "flt t r")
    case True
    then have "foldM_go (best_step avs nPk) (range_at avs nPk 0, 0) (map int [0..<Suc n]) = Inr (t, int (Suc n))"
      using run by simp
    moreover have "t = range_at avs nPk (int (Suc n))" by (simp add: t_def add.commute)
    ultimately show ?thesis using min True by (intro exI [of _ t] exI [of _ "int (Suc n)"]) simp
  next
    case False
    then have "foldM_go (best_step avs nPk) (range_at avs nPk 0, 0) (map int [0..<Suc n]) = Inr (r, k)"
      using run by simp
    then show ?thesis using min False ih(2-4) by (intro exI [of _ r] exI [of _ k]) simp
  qed
qed

lemma analyze_tightest:
  assumes "1 \<le> nPeak b" "nPeak b \<le> nStore b" "int (length (averages b)) = nStore b"
  shows "\<exists>k. 0 \<le> k \<and> k \<le> nStore b - nPeak b
    \<and> (\<forall>j. 0 \<le> j \<and> j \<le> nStore b - nPeak b \<longrightarrow>
         \<not> flt (range_at (sort (averages b)) (nPeak b) j) (range_at (sort (averages b)) (nPeak b) k))
    \<and> analyzeQueue now b = Inr (b\<lparr>averages := []\<rparr>, \<lparr>ChanNum = chanNumber b, Timestamp = now,
         Value = fdiv r32 (foldl (fadd r32) (Fin 0) (take (nat (nPeak b)) (drop (nat k) (sort (averages b)))))
           (f32_of_int (nPeak b))\<rparr>)"
proof -
  define avs where "avs = sort (averages b)"
  have len: "int (length avs) = nStore b" using assms(3) by (simp add: avs_def)
  define n where "n = nat (nStore b - nPeak b)"
  have n: "int n = nStore b - nPeak b" using assms(2) by (simp add: n_def)
  have up: "[0..nStore b - nPeak b - 1] = map int [0..<n]" using upto_int [of n] n by simp
  obtain r k where rk: "foldM_go (best_step avs (nPeak b)) (range_at avs (nPeak b) 0, 0) (map int [0..<n]) = Inr (r, k)"
    "0 \<le> k" "k \<le> int n" "r = range_at avs (nPeak b) k"
    "\<forall>j. 0 \<le> j \<and> j \<le> int n \<longrightarrow> \<not> flt (range_at avs (nPeak b) j) r"
    using best_loop [of "nPeak b" avs n] assms(1,2) len n by auto
  have w: "window_range avs (nPeak b - 1) 0 = Inr (range_at avs (nPeak b) 0)"
    using assms(1,2) len by (subst window_range_in) (simp_all add: range_at_def)
  have sl: "slice_go avs k (k + nPeak b) = Inr (take (nat (nPeak b)) (drop (nat k) avs))"
    using rk(2,3) assms(1) len n by (subst slice_go_in) simp_all
  have "analyzeQueue now b = Inr (b\<lparr>averages := []\<rparr>, \<lparr>ChanNum = chanNumber b, Timestamp = now,
         Value = fdiv r32 (foldl (fadd r32) (Fin 0) (take (nat (nPeak b)) (drop (nat k) avs)))
           (f32_of_int (nPeak b))\<rparr>)"
    by (simp add: analyzeQueue_def Let_def w up rk(1) sl flip: avs_def)
  then show ?thesis using rk(2,3) rk(5) [unfolded rk(4)] n
    by (intro exI [of _ k]) (simp add: avs_def)
qed

text \<open>
  C25: The baseline is the mean of the tightest cluster: of all runs of \<open>nPeak\<close> neighbours among the
  sorted averages, none has a smaller range than the one that is averaged (in the float32 arithmetic
  of the code), and the queue is empty afterwards.
\<close>

theorem baseline_of_tightest_cluster:
  assumes "1 \<le> nPeak b" "nPeak b \<le> nStore b" "int (length (averages b)) = nStore b"
  shows "\<exists>k. 0 \<le> k \<and> k \<le> nStore b - nPeak b
    \<and> (\<forall>j. 0 \<le> j \<and> j \<le> nStore b - nPeak b \<longrightarrow>
         \<not> flt (range_at (sort (averages b)) (nPeak b) j) (range_at (sort (averages b)) (nPeak b) k))
    \<and> analyzeQueue now b = Inr (b\<lparr>averages := []\<rparr>, \<lparr>ChanNum = chanNumber b, Timestamp = now,
         Value = fdiv r32 (foldl (fadd r32) (Fin 0) (take (nat (nPeak b)) (drop (nat k) (sort (averages b)))))
           (f32_of_int (nPeak b))\<rparr>)"
  using analyze_tightest [OF assms] .

lemma performAverage_total:
  assumes "1 \<le> nPeak b" "nPeak b \<le> nStore b" "int (length (averages b)) < nStore b" "0 < nAverage b"
  shows "\<exists>b' m. performAverage now b = Inr (b', m) \<and> bmon_ok b' \<and> avgCounter b' = 0 \<and> nAverage b' = nAverage b
    \<and> nStore b' = nStore b
    \<and> int (length (averages b')) + nStore b * (if m = None then 0 else 1) = int (length (averages b)) + 1"
proof -
  define avg where "avg = fdiv r32 (f32_of_int (uint (avgSum b))) (f32_of_int (avgCounter b))"
  define b1 where "b1 = b\<lparr>avgSum := 0, avgCounter := 0, averages := averages b @ [avg]\<rparr>"
  have p: "performAverage now b = (if int (length (averages b1)) = nStore b1
      then bind_go (analyzeQueue now b1) (\<lambda>(bmon, msg). Inr (bmon, Some msg)) else Inr (b1, None))"
    by (simp add: performAverage_def Let_def b1_def avg_def)
  show ?thesis
  proof (cases "int (length (averages b1)) = nStore b1")
    case True
    obtain msg where "analyzeQueue now b1 = Inr (b1\<lparr>averages := []\<rparr>, msg)"
      using analyze_tightest [of b1 now] assms(1,2) True by (auto simp: b1_def)
    then show ?thesis using p True assms by (auto simp: bmon_ok_def b1_def)
  next
    case False
    then show ?thesis using p assms by (auto simp: bmon_ok_def b1_def)
  qed
qed

subsection \<open>Slices and single samples\<close>

fun add_each :: "go_time \<Rightarrow> BaselineMonitor \<Rightarrow> raw list \<Rightarrow> (BaselineMonitor \<times> BaselineMonitorMessage list) go" where
  "add_each now b [] = Inr (b, [])"
| "add_each now b (v # vs) =
     bind_go (AddOneValue now b v) (\<lambda>(b1, m). bind_go (add_each now b1 vs) (\<lambda>(b2, ms).
       Inr (b2, (case m of None \<Rightarrow> ms | Some x \<Rightarrow> x # ms))))"

lemma AddOneValue_total:
  assumes "bmon_ok b"
  shows "\<exists>b' m. AddOneValue now b v = Inr (b', m) \<and> bmon_ok b' \<and> nAverage b' = nAverage b \<and> nStore b' = nStore b
    \<and> int (length (averages b')) * nAverage b + avgCounter b' + nAverage b * nStore b * (if m = None then 0 else 1)
       = int (length (averages b)) * nAverage b + avgCounter b + 1"
proof -
  define b1 where "b1 = b\<lparr>avgSum := avgSum b + ucast v, avgCounter := avgCounter b + 1\<rparr>"
  have a: "AddOneValue now b v = (if avgCounter b1 \<ge> nAverage b1 then performAverage now b1 else Inr (b1, None))"
    by (simp add: AddOneValue_def b1_def)
  show ?thesis
  proof (cases "avgCounter b1 \<ge> nAverage b1")
    case True
    have pre: "1 \<le> nPeak b1" "nPeak b1 \<le> nStore b1" "int (length (averages b1)) < nStore b1" "0 < nAverage b1"
      using assms by (simp_all add: b1_def bmon_ok_def)
    obtain b' m where r: "performAverage now b1 = Inr (b', m)" "bmon_ok b'" "avgCounter b' = 0"
      "nAverage b' = nAverage b1" "nStore b' = nStore b1"
      "int (length (averages b')) + nStore b1 * (if m = None then 0 else 1) = int (length (averages b1)) + 1"
      using performAverage_total [OF pre] by blast
    have full: "avgCounter b + 1 = nAverage b" using True assms by (simp add: b1_def bmon_ok_def)
    have "(int (length (averages b')) + nStore b * (if m = None then 0 else 1)) * nAverage b
        = (int (length (averages b)) + 1) * nAverage b"
      using r(6) by (simp add: b1_def)
    then have "int (length (averages b')) * nAverage b + avgCounter b' + nAverage b * nStore b * (if m = None then 0 else 1)
       = int (length (averages b)) * nAverage b + avgCounter b + 1"
      using full r(3) by (simp add: algebra_simps)
    then show ?thesis using a True r(1,2,4,5) by (simp add: b1_def)
  next
    case False
    then show ?thesis using a assms by (simp add: b1_def bmon_ok_def)
  qed
qed

lemma add_each_append:
  "add_each now b (xs @ ys) = bind_go (add_each now b xs) (\<lambda>(b1, m1).
     bind_go (add_each now b1 ys) (\<lambda>(b2, m2). Inr (b2, m1 @ m2)))"
proof (induction xs arbitrary: b)
  case Nil
  then show ?case by (cases "add_each now b ys") auto
next
  case (Cons x xs)
  then show ?case
    by (auto simp: bind_go_def split: sum.splits option.splits prod.splits)
qed

lemma add_each_accumulates:
  assumes "avgCounter b + int (length vs) < nAverage b"
  shows "add_each now b vs = Inr (b\<lparr>avgSum := avgSum b + sum_list (map ucast vs),
    avgCounter := avgCounter b + int (length vs)\<rparr>, [])"
  using assms
proof (induction vs arbitrary: b)
  case (Cons v vs)
  let ?b = "b\<lparr>avgSum := avgSum b + ucast v, avgCounter := avgCounter b + 1\<rparr>"
  have "AddOneValue now b v = Inr (?b, None)" using Cons.prems by (simp add: AddOneValue_def)
  moreover have "add_each now ?b vs = Inr (?b\<lparr>avgSum := avgSum ?b + sum_list (map ucast vs),
    avgCounter := avgCounter ?b + int (length vs)\<rparr>, [])"
    using Cons.prems by (intro Cons.IH) simp
  ultimately show ?case by (simp add: add.assoc add.commute [of 1])
qed simp

lemma add_each_full:
  assumes "avgCounter b + int (length vs) = nAverage b" "vs \<noteq> []"
  shows "add_each now b vs = bind_go (performAverage now (b\<lparr>avgSum := avgSum b + sum_list (map ucast vs),
    avgCounter := avgCounter b + int (length vs)\<rparr>)) (\<lambda>(b2, m). Inr (b2, case m of None \<Rightarrow> [] | Some x \<Rightarrow> [x]))"
proof -
  obtain us v where vs: "vs = us @ [v]" using assms(2) by (metis append_butlast_last_id)
  have "avgCounter b + int (length us) < nAverage b" using assms(1) vs by simp
  from add_each_accumulates [OF this, of now]
  show ?thesis using assms(1)
    by (simp add: vs algebra_simps add_each_append AddOneValue_def add.assoc bind_go_def split: sum.splits prod.splits)
qed

lemma slice_loop_each:
  assumes "bmon_ok b"
  shows "slice_loop now b vs msgs = Some (bind_go (add_each now b vs) (\<lambda>(b', ms). Inr (b', msgs @ ms)))"
  using assms
proof (induction "length vs" arbitrary: b vs msgs rule: less_induct)
  case less
  show ?case
  proof (cases "vs = []")
    case True
    then show ?thesis by (subst slice_loop.simps) simp
  next
    case False
    define c where "c = min (nAverage b - avgCounter b) (int (length vs))"
    have c: "1 \<le> c" "c \<le> int (length vs)" "avgCounter b + c \<le> nAverage b"
      using less.prems False by (auto simp: c_def bmon_ok_def Suc_le_eq)
    define chunk where "chunk = take (nat c) vs"
    define rest where "rest = drop (nat c) vs"
    have vs: "vs = chunk @ rest" and len: "int (length chunk) = c" "length rest < length vs" "chunk \<noteq> []"
      using c False by (auto simp: chunk_def rest_def)
    define b1 where "b1 = b\<lparr>avgSum := avgSum b + sum_list (map ucast chunk), avgCounter := avgCounter b + c\<rparr>"
    have unf: "slice_loop now b vs msgs =
        (if avgCounter b1 \<ge> nAverage b1
           then (case performAverage now b1 of
               Inl e \<Rightarrow> Some (Inl e)
             | Inr (bmon2, None) \<Rightarrow> slice_loop now bmon2 rest msgs
             | Inr (bmon2, Some msg) \<Rightarrow> slice_loop now bmon2 rest (msgs @ [msg]))
           else slice_loop now b1 rest msgs)"
      by (subst slice_loop.simps)
        (simp only: False if_False Let_def flip: c_def chunk_def rest_def b1_def)
    show ?thesis
    proof (cases "avgCounter b1 \<ge> nAverage b1")
      case True
      then have "avgCounter b + int (length chunk) = nAverage b" using c(3) len by (simp add: b1_def)
      from add_each_full [OF this len(3), of now]
      have each: "add_each now b chunk = bind_go (performAverage now b1)
          (\<lambda>(b2, m). Inr (b2, case m of None \<Rightarrow> [] | Some x \<Rightarrow> [x]))"
        by (simp add: b1_def len(1))
      have pre: "1 \<le> nPeak b1" "nPeak b1 \<le> nStore b1" "int (length (averages b1)) < nStore b1" "0 < nAverage b1"
        using less.prems by (simp_all add: b1_def bmon_ok_def)
      obtain b2 m where r: "performAverage now b1 = Inr (b2, m)" "bmon_ok b2"
        using performAverage_total [OF pre] by blast
      show ?thesis
        using less.hyps [OF len(2) r(2)] unf True r(1) each
        by (cases m) (simp_all add: vs add_each_append bind_go_def split: sum.splits prod.splits)
    next
      case False
      then have lt: "avgCounter b + int (length chunk) < nAverage b" using len by (simp add: b1_def)
      have each: "add_each now b chunk = Inr (b1, [])"
        using add_each_accumulates [OF lt] len(1) by (simp add: b1_def)
      have "bmon_ok b1" using less.prems False c(1) by (simp add: b1_def bmon_ok_def)
      then show ?thesis
        using less.hyps [OF len(2), of b1] unf False each
        by (simp add: vs add_each_append bind_go_def split: sum.splits prod.splits)
    qed
  qed
qed

lemma slice_equals_single:
  assumes "bmon_ok b"
  shows "AddSliceValues now b vs = Some (add_each now b vs)"
  using slice_loop_each [OF assms, of now vs "[]"]
  by (cases "add_each now b vs") (auto simp: AddSliceValues_def)

text \<open>
  The fast path is an optimisation only: adding a slice of samples, chunk by chunk, always
  returns and gives the same state and the same messages as adding the samples one at a time.
\<close>

theorem slice_equals_single_values:
  assumes "bmon_ok b"
  shows "AddSliceValues now b vs = Some (add_each now b vs)"
  by (rule slice_equals_single [OF assms])

lemma add_each_cadence:
  assumes "bmon_ok b"
  shows "\<exists>b' ms. add_each now b vs = Inr (b', ms) \<and> bmon_ok b' \<and> nAverage b' = nAverage b \<and> nStore b' = nStore b
    \<and> int (length (averages b')) * nAverage b + avgCounter b' + nAverage b * nStore b * int (length ms)
       = int (length (averages b)) * nAverage b + avgCounter b + int (length vs)"
  using assms
proof (induction vs arbitrary: b)
  case (Cons v vs)
  obtain b1 m where 1: "AddOneValue now b v = Inr (b1, m)" "bmon_ok b1" "nAverage b1 = nAverage b" "nStore b1 = nStore b"
    "int (length (averages b1)) * nAverage b + avgCounter b1 + nAverage b * nStore b * (if m = None then 0 else 1)
       = int (length (averages b)) * nAverage b + avgCounter b + 1"
    using AddOneValue_total [OF Cons.prems] by blast
  obtain b2 ms where 2: "add_each now b1 vs = Inr (b2, ms)" "bmon_ok b2" "nAverage b2 = nAverage b1" "nStore b2 = nStore b1"
    "int (length (averages b2)) * nAverage b1 + avgCounter b2 + nAverage b1 * nStore b1 * int (length ms)
       = int (length (averages b1)) * nAverage b1 + avgCounter b1 + int (length vs)"
    using Cons.IH [OF 1(2)] by blast
  show ?case
  proof (cases m)
    case None
    then show ?thesis using 1 2 by (simp add: algebra_simps)
  next
    case (Some x)
    then show ?thesis using 1 2 by (simp add: algebra_simps)
  qed
qed simp

text \<open>
  Messages come at a fixed rate: however the samples of a new monitor are cut into slices, one
  message is made for every \<open>nAverage * nStore\<close> samples, and none is made early or late.
\<close>

theorem one_message_per_period:
  assumes "bmon_ok b" "averages b = []" "avgCounter b = 0"
  shows "\<exists>b' ms. AddSliceValues now b vs = Some (Inr (b', ms))
    \<and> int (length ms) = int (length vs) div (nAverage b * nStore b)"
proof -
  obtain b' ms where r: "add_each now b vs = Inr (b', ms)" "bmon_ok b'" "nAverage b' = nAverage b" "nStore b' = nStore b"
    "int (length (averages b')) * nAverage b + avgCounter b' + nAverage b * nStore b * int (length ms) = int (length vs)"
    using add_each_cadence [OF assms(1), of now vs] assms(2,3) by auto
  define rem where "rem = int (length (averages b')) * nAverage b + avgCounter b'"
  have "rem < (int (length (averages b')) + 1) * nAverage b" "0 \<le> rem"
    using r(2,3) by (simp_all add: rem_def bmon_ok_def algebra_simps)
  moreover have "(int (length (averages b')) + 1) * nAverage b \<le> nStore b * nAverage b"
    using r(2,3,4) assms(1) by (intro mult_right_mono) (simp_all add: bmon_ok_def)
  ultimately have "0 \<le> rem" "rem < nAverage b * nStore b" by (simp_all add: mult.commute)
  moreover have "int (length vs) = rem + nAverage b * nStore b * int (length ms)" using r(5) by (simp add: rem_def)
  moreover have "nAverage b * nStore b \<noteq> 0" using calculation(1,2) by linarith
  ultimately have "int (length vs) div (nAverage b * nStore b) = int (length ms)"
    by (simp add: div_pos_pos_trivial)
  then show ?thesis using r(1) slice_equals_single [OF assms(1)] by simp
qed

subsection \<open>A small monitor\<close>

definition demo_monitor :: BaselineMonitor where
  "demo_monitor = \<lparr>chanNumber = 3, nAverage = 2, avgCounter = 0, avgSum = 0, nStore = 3, nPeak = 2, averages = []\<rparr>"

lemma demo_monitor_ok: "bmon_ok demo_monitor"
  by (simp add: demo_monitor_def bmon_ok_def)

theorem baseline_of_tightest_cluster_witness:
  "\<exists>k m. 0 \<le> k \<and> k \<le> (1 :: int)
    \<and> analyzeQueue 5 (demo_monitor\<lparr>averages := [Fin 10, Fin 30, Fin 11]\<rparr>) = Inr (demo_monitor, m) \<and> ChanNum m = 3"
  using baseline_of_tightest_cluster [of "demo_monitor\<lparr>averages := [Fin 10, Fin 30, Fin 11]\<rparr>" 5]
  by (auto simp: demo_monitor_def)

theorem slice_equals_single_values_witness:
  "AddSliceValues 5 demo_monitor [1, 2, 3] = Some (add_each 5 demo_monitor [1, 2, 3])"
  by (rule slice_equals_single_values [OF demo_monitor_ok])

theorem one_message_per_period_witness:
  "\<exists>b' ms. AddSliceValues 5 demo_monitor (replicate 13 7) = Some (Inr (b', ms)) \<and> length ms = 2"
  using one_message_per_period [OF demo_monitor_ok, of 5 "replicate 13 7"] by (auto simp: demo_monitor_def)

end
