(* ===== verification/ProcessData.thy ===== *)
theory ProcessData
  imports TriggerPasses PulseFiles Baseline
begin

text \<open>
  One channel from the raw segment to the published record (\<open>process_data.go\<close>): the whole
  \<open>DataStreamProcessor\<close>, its configuration, decimation, pulse analysis and \<open>processSegment\<close>, which
  composes decimation, baseline monitor, triggering, analysis and publishing.  The matrix product
  of the external package gonum is a parameter (\<open>mulvec\<close>, which panics on a shape mismatch); a
  matrix that two holders share is modelled by its contents.  Products are rounded before they are
  added, as on amd64 (no fused multiply-add).
\<close>

subsection \<open>The processor of a channel\<close>

text \<open>The triggering part of the state is the record \<open>dsp\<close>; the broker is passed where it is used.\<close>

record stream_processor = dsp +
  ChannelNumber :: int
  dspName :: string
  LastEdgeMultiTrigger :: frame_index
  dspBaselineMonitor :: "BaselineMonitor option"
  baselineMonitorChan :: "BaselineMonitorMessage list list option"
  projectors :: "dense option"
  modelDescription :: string
  basis :: "dense option"
  DecimateLevel :: int
  Decimate :: bool
  DecimateAvgMode :: bool
  publisher :: DataPublisher

definition empty_dense :: dense where "empty_dense = \<lparr>mrows = 0, mcols = 0, mdata = []\<rparr>"

text \<open>\<open>mat.Dense.IsEmpty\<close>.\<close>

definition IsEmpty :: "dense \<Rightarrow> bool" where "IsEmpty m = (mcols m = 0)"

definition removeProjectorsBasis :: "stream_processor \<Rightarrow> stream_processor go" where
  "removeProjectorsBasis d = (case projectors d of
     None \<Rightarrow> Inl NilDereference
   | Some _ \<Rightarrow> (case basis d of
       None \<Rightarrow> Inl NilDereference
     | Some _ \<Rightarrow> Inr (d\<lparr>projectors := Some empty_dense, basis := Some empty_dense, modelDescription := []\<rparr>)))"

datatype projector_error = ProjectorsWrongSize | BasisWrongCols | BasisWrongRows

definition SetProjectorsBasis ::
  "stream_processor \<Rightarrow> dense \<Rightarrow> dense \<Rightarrow> string \<Rightarrow> stream_processor \<times> projector_error option" where
  "SetProjectorsBasis d projs bas description =
     (let nbases = mrows projs in
      if NSamples d \<noteq> mcols projs then (d, Some ProjectorsWrongSize)
      else if mcols bas \<noteq> nbases then (d, Some BasisWrongCols)
      else if mrows bas \<noteq> NSamples d then (d, Some BasisWrongRows)
      else (d\<lparr>projectors := Some projs, basis := Some bas, modelDescription := description\<rparr>, None))"

definition HasProjectors :: "stream_processor \<Rightarrow> bool" where
  "HasProjectors d = (case projectors d of None \<Rightarrow> False | Some m \<Rightarrow> \<not> IsEmpty m)"

subsection \<open>Construction and configuration\<close>

definition triggerList_zero :: triggerList where
  "triggerList_zero = \<lparr>tl_channelIndex = 0, tl_frames = [], tl_keyFrame = 0, tl_keyTime = 0,
     tl_sampleRate = Fin 0, firstFrameThatCannotTrigger = 0\<rparr>"

definition TriggerState_zero :: TriggerState where
  "TriggerState_zero = \<lparr>AutoTrigger = False, AutoDelay = 0, AutoVetoRange = 0, LevelTrigger = False,
     LevelRising = False, LevelLevel = 0, EdgeTrigger = False, EdgeRising = False, EdgeFalling = False,
     EdgeLevel = 0, EdgeMulti = False,
     emtRPCFields = \<lparr>EdgeMultiNoise = False, EdgeMultiMakeShortRecords = False,
       EdgeMultiMakeContaminatedRecords = False, EdgeMultiMakeSingleRecords = False,
       EdgeMultiDisableZeroThreshold = False, EdgeMultiLevel = 0, EdgeMultiVerifyNMonotone = 0\<rparr>,
     emtState = EMTState_zero\<rparr>"

definition DataPublisher_zero :: DataPublisher where
  "DataPublisher_zero = \<lparr>pubRecordsChan = None, pubSummariesChan = None, LJH22 = None, LJH3 = None,
     OFF = None, WritingPaused = False, numberWritten = 0\<rparr>"

text \<open>\<open>now\<close> is the reading of the clock (\<open>time.Now\<close>).\<close>

definition NewDataStreamProcessor ::
  "go_time \<Rightarrow> int \<Rightarrow> int \<Rightarrow> int \<Rightarrow> int \<Rightarrow> go_float \<Rightarrow> BaselineMonitorMessage list list option
   \<Rightarrow> stream_processor go" where
  "NewDataStreamProcessor now chanIndex chanNum npres nsamps rate bmonChan =
     (let period = int_of_f64 (fdiv r64 (f64_of_int 1000000000) rate);
          st = NewDataStream [] 1 0 now period;
          nAvg = max (roundint (fmul r64 rate (r64 (1 / 500)))) 1;
          analysis_period = 10;
          nSto = analysis_period * 500;
          nPk = quot_int nSto 10 in
      bind_go (NewBaselineMonitor chanNum nAvg nSto nPk) (\<lambda>bmon.
        Inr \<lparr>channelIndex = chanIndex, NSamples = nsamps, NPresamples = npres, SampleRate = rate,
             LastTrigger = quot_int (- (2 ^ 63)) 4, stream = st, lastTrigList = triggerList_zero,
             triggerState = TriggerState_zero\<lparr>emtState := EMT_reset EMTState_zero\<rparr>,
             ChannelNumber = chanNum, dspName = [], LastEdgeMultiTrigger = 0,
             dspBaselineMonitor = bmon, baselineMonitorChan = bmonChan,
             projectors = Some empty_dense, modelDescription = [], basis = Some empty_dense,
             DecimateLevel = 0, Decimate = False, DecimateAvgMode = False,
             publisher = DataPublisher_zero\<rparr>))"

abbreviation emt :: "stream_processor \<Rightarrow> EMTState" where
  "emt d \<equiv> emtState (triggerState d)"

definition set_emt :: "stream_processor \<Rightarrow> EMTState \<Rightarrow> stream_processor" where
  "set_emt d s = d\<lparr>triggerState := (triggerState d)\<lparr>emtState := s\<rparr>\<rparr>"

text \<open>The result says whether the configuration is valid (\<open>False\<close> is the Go error).\<close>

definition sync_emt :: "stream_processor \<Rightarrow> stream_processor \<times> bool" where
  "sync_emt d =
     (let d1 = set_emt d ((emt d)\<lparr>nsamp := to_int32 (NSamples d), npre := to_int32 (NPresamples d)\<rparr>) in
      if EdgeMulti (triggerState d1) \<and> \<not> EMT_valid (emt d1) then (d1, False)
      else (set_emt d1 (EMT_reset (emt d1)), True))"

definition dsp_ConfigurePulseLengths ::
  "stream_processor \<Rightarrow> int \<Rightarrow> int \<Rightarrow> (stream_processor \<times> bool) go" where
  "dsp_ConfigurePulseLengths d nsamps npres =
     bind_go (if NSamples d \<noteq> nsamps \<or> NPresamples d \<noteq> npres
              then bind_go (removeProjectorsBasis d) (\<lambda>d1. Inr (set_emt d1 (EMT_reset (emt d1))))
              else Inr d)
       (\<lambda>d1. Inr (sync_emt (d1\<lparr>NSamples := nsamps, NPresamples := npres\<rparr>)))"

definition ConfigureTrigger :: "stream_processor \<Rightarrow> TriggerState \<Rightarrow> stream_processor \<times> bool" where
  "ConfigureTrigger d ts = sync_emt (d\<lparr>triggerState := ts, LastTrigger := 0\<rparr>)"

definition TrimStream :: "stream_processor \<Rightarrow> stream_processor go" where
  "TrimStream d = bind_go (TrimKeepingN (stream d) (NToKeepOnTrim (emt d))) (\<lambda>(st, _). Inr (d\<lparr>stream := st\<rparr>))"

subsection \<open>Decimation\<close>

text \<open>A sample as a number, signed or not (\<open>float64(int16(v))\<close>, \<open>float64(v)\<close>).\<close>

definition sample_value :: "bool \<Rightarrow> raw \<Rightarrow> int" where
  "sample_value sgned v = (if sgned then to_int16 (uint v) else uint v)"

definition decimate_add :: "bool \<Rightarrow> int \<Rightarrow> raw list \<Rightarrow> go_float list \<Rightarrow> int \<Rightarrow> go_float list go" where
  "decimate_add sgned level data cdata i =
     (let j = quot_int i level in
      bind_go (idx data i) (\<lambda>v. bind_go (idx cdata j) (\<lambda>c.
        Inr (cdata[nat j := fadd r64 c (f64_of_int (sample_value sgned v))]))))"

text \<open>
  The rounded average.  The signed branch converts a number between 32768 and 98304 to \<open>int16\<close>,
  which the language leaves to the implementation; amd64 and arm64 keep the low 16 bits.
\<close>

definition rounded_average :: "bool \<Rightarrow> int \<Rightarrow> go_float \<Rightarrow> raw" where
  "rounded_average sgned level c =
     (let avg = fdiv r64 c (f64_of_int level) in
      if sgned then word_of_int (to_int16 (int_of_f64 (fadd r64 (fadd r64 avg (Fin 65536)) (Fin (1 / 2)))))
      else word_of_int (int_of_f64 (fadd r64 avg (Fin (1 / 2)))))"

definition decimate_average :: "bool \<Rightarrow> int \<Rightarrow> int \<Rightarrow> raw list \<Rightarrow> raw list go" where
  "decimate_average sgned level Nout data =
     (let Nin = int (length data) in
      bind_go (foldM_go (decimate_add sgned level data) (replicate (nat Nout) (Fin 0)) [0..Nin - 1]) (\<lambda>cdata.
      bind_go (if Nout * level < Nin
               then let extra = rem_int Nin level in
                 bind_go (idx cdata (Nout - 1)) (\<lambda>c.
                   Inr (cdata[nat (Nout - 1) := fmul r64 c (fdiv r64 (f64_of_int level) (f64_of_int extra))]))
               else Inr cdata) (\<lambda>cdata.
      foldM_go (\<lambda>dat i. bind_go (idx cdata i) (\<lambda>c. bind_go (idx dat i) (\<lambda>_.
          Inr (dat[nat i := rounded_average sgned level c])))) data [0..Nout - 1])))"

definition decimate_drop :: "int \<Rightarrow> int \<Rightarrow> raw list \<Rightarrow> raw list go" where
  "decimate_drop level Nout data =
     foldM_go (\<lambda>dat i. bind_go (idx dat (i * level)) (\<lambda>v. bind_go (idx dat i) (\<lambda>_.
       Inr (dat[nat i := v])))) data [0..Nout - 1]"

definition DecimateData :: "stream_processor \<Rightarrow> data_segment \<Rightarrow> data_segment go" where
  "DecimateData d segment =
     (if \<not> Decimate d \<or> DecimateLevel d \<le> 1 then Inr segment
      else let data = rawData segment;
               Nin = int (length data);
               Nout = quot_int (Nin - 1 + DecimateLevel d) (DecimateLevel d) in
        bind_go (if DecimateAvgMode d then decimate_average (signedData segment) (DecimateLevel d) Nout data
                 else decimate_drop (DecimateLevel d) Nout data) (\<lambda>data.
        bind_go (slice_go data 0 Nout) (\<lambda>data.
          Inr (segment\<lparr>rawData := data, framesPerSample := framesPerSample segment * DecimateLevel d\<rparr>))))"

subsection \<open>Square root and standard deviation\<close>

text \<open>
  \<open>math.Sqrt\<close> is correctly rounded.  A root with at least 54 bits before the cut is computed by
  integer arithmetic; when it is not exact a half is added in the place behind the last one, which
  keeps it on its side of every rounding boundary.
\<close>

function isqrt :: "int \<Rightarrow> int" where
  "isqrt n = (if n \<le> 0 then 0
     else let r = 2 * isqrt (n div 4) in if (r + 1)\<^sup>2 \<le> n then r + 1 else r)"
  by pat_completeness auto
termination by (relation "measure nat") auto

declare isqrt.simps [simp del]

fun fsqrt :: "go_float \<Rightarrow> go_float" where
  "fsqrt (Fin q) =
     (if q < 0 then NaN
      else if q = 0 then Fin 0
      else let e = ilog2 q div 2 - 54;
               x = q / 2 powi (2 * e);
               m = isqrt \<lfloor>x\<rfloor> in
        r64 ((if of_int m * of_int m = x then of_int m else of_int m + 1 / 2) * 2 powi e))"
| "fsqrt PInf = PInf"
| "fsqrt NInf = NaN"
| "fsqrt NaN = NaN"

definition stdDev :: "go_float list \<Rightarrow> go_float" where
  "stdDev a =
     (if a = [] then NaN
      else let s = foldl (fadd r64) (Fin 0) a;
               mean = fdiv r64 s (f64_of_int (int (length a)));
               s2 = foldl (\<lambda>s2 v. let x = fsub r64 v mean in fadd r64 s2 (fmul r64 x x)) (Fin 0) a in
        fsqrt (fdiv r64 s2 (f64_of_int (int (length a)))))"

subsection \<open>Pulse analysis\<close>

text \<open>\<open>dataVec\<close>; an empty vector is a panic of \<open>mat.NewVecDense\<close>.\<close>

definition data_vec :: "data_record \<Rightarrow> go_float list go" where
  "data_vec rec =
     (if recData rec = [] then Inl (ExplicitPanic ''mat: zero length in matrix dimension'')
      else Inr (map (\<lambda>v. f64_of_int (sample_value (recSigned rec) v)) (recData rec)))"

definition pretrigger_step ::
  "go_float list \<Rightarrow> go_float \<Rightarrow> go_float \<Rightarrow> go_float \<times> go_float \<Rightarrow> int \<Rightarrow> (go_float \<times> go_float) go" where
  "pretrigger_step dataVec d0 xmean = (\<lambda>(val, valPTDelta) i.
     bind_go (idx dataVec i) (\<lambda>x.
       Inr (fadd r64 val x,
            fadd r64 valPTDelta (fmul r64 (fsub r64 x d0) (fsub r64 (f64_of_int i) xmean)))))"

definition pretrigger :: "data_record \<Rightarrow> go_float list \<Rightarrow> (go_float \<times> go_float) go" where
  "pretrigger rec dataVec =
     (let npres = presamples rec in
      bind_go (idx dataVec 0) (\<lambda>d0.
        let xmean = fmul r64 (f64_of_int (npres - 1)) (Fin (1 / 2)) in
        bind_go (foldM_go (pretrigger_step dataVec d0 xmean) (Fin 0, Fin 0) [0..npres - 1])
          (\<lambda>(val, valPTDelta).
            Inr (fdiv r64 val (f64_of_int npres),
                 if npres \<le> 1 then NaN
                 else fdiv r64 (fmul r64 valPTDelta (Fin 12)) (f64_of_int (npres * (npres + 1)))))))"

definition pulse_step ::
  "go_float list \<Rightarrow> go_float \<times> go_float \<times> go_float \<Rightarrow> int \<Rightarrow> (go_float \<times> go_float \<times> go_float) go" where
  "pulse_step dataVec = (\<lambda>(tot, tot2, mx) i.
     bind_go (idx dataVec i) (\<lambda>val.
       Inr (fadd r64 tot val, fadd r64 tot2 (fmul r64 val val), if flt mx val then val else mx)))"

definition mean_square :: "go_float \<Rightarrow> go_float \<Rightarrow> go_float \<Rightarrow> go_float \<Rightarrow> go_float" where
  "mean_square tot tot2 N ptm =
     fadd r64 (fsub r64 (fdiv r64 tot2 N) (fmul r64 (fmul r64 (Fin 2) ptm) (fdiv r64 tot N)))
       (fmul r64 ptm ptm)"

definition project_record ::
  "(dense \<Rightarrow> go_float list \<Rightarrow> go_float list go) \<Rightarrow> stream_processor \<Rightarrow> data_record \<Rightarrow> go_float list
   \<Rightarrow> data_record go" where
  "project_record mulvec d rec dataVec =
     (case (projectors d, basis d) of
        (Some projs, Some bas) \<Rightarrow>
          if mcols projs \<noteq> int (length (recData rec))
          then Inl (ExplicitPanic ''projections for variable length records not implemented'')
          else bind_go (mulvec projs dataVec) (\<lambda>coefs.
            bind_go (mulvec bas coefs) (\<lambda>modelFull.
              if length modelFull \<noteq> length dataVec then Inl (ExplicitPanic ''mat: dimension mismatch'')
              else let residual = map2 (fsub r64) dataVec modelFull in
                Inr (rec\<lparr>modelCoefs := coefs, residualStdDev := stdDev residual\<rparr>)))
      | _ \<Rightarrow> Inl NilDereference)"

definition analyze_record ::
  "(dense \<Rightarrow> go_float list \<Rightarrow> go_float list go) \<Rightarrow> stream_processor \<Rightarrow> data_record \<Rightarrow> data_record go" where
  "analyze_record mulvec d rec =
     bind_go (data_vec rec) (\<lambda>dataVec.
     bind_go (pretrigger rec dataVec) (\<lambda>(ptm, ptdelta).
     bind_go (foldM_go (pulse_step dataVec) (Fin 0, Fin 0, ptm) [presamples rec..int (length (recData rec)) - 1])
       (\<lambda>(tot, tot2, mx).
         let N = f64_of_int (int (length (recData rec)) - presamples rec);
             rec1 = rec\<lparr>pretrigMean := ptm, pretrigDelta := ptdelta, peakValue := fsub r64 mx ptm,
                      pulseAverage := fsub r64 (fdiv r64 tot N) ptm,
                      pulseRMS := fsqrt (mean_square tot tot2 N ptm)\<rparr> in
         if HasProjectors d then project_record mulvec d rec1 dataVec else Inr rec1)))"

definition AnalyzeData ::
  "(dense \<Rightarrow> go_float list \<Rightarrow> go_float list go) \<Rightarrow> stream_processor \<Rightarrow> data_record option list
   \<Rightarrow> data_record list go" where
  "AnalyzeData mulvec d records =
     mapM_go (\<lambda>r. case r of None \<Rightarrow> Inl NilDereference | Some rec \<Rightarrow> analyze_record mulvec d rec) records"

subsection \<open>A segment through the whole channel\<close>

text \<open>What the channel calls on: the external packages, the files and the clock.\<close>

record dsp_env =
  env_solve :: solver
  env_mulvec :: "dense \<Rightarrow> go_float list \<Rightarrow> go_float list go"
  env_marshal3 :: "ljh3_Header \<Rightarrow> string"
  env_marshalOFF :: "off_Writer \<Rightarrow> string option"
  env_files :: file_env
  env_now :: go_time

definition publish :: "dsp_env \<Rightarrow> stream_processor \<Rightarrow> data_record list \<Rightarrow> stream_processor go" where
  "publish env d records =
     bind_go (PublishData (env_marshal3 env) (env_marshalOFF env) (env_files env) (publisher d) records)
       (\<lambda>(dp, err). if err \<noteq> None then Inl (ExplicitPanic ''publish error'') else Inr (d\<lparr>publisher := dp\<rparr>))"

definition monitor_baseline ::
  "go_time \<Rightarrow> stream_processor \<Rightarrow> raw list \<Rightarrow> stream_processor go option" where
  "monitor_baseline now d values = (case dspBaselineMonitor d of
     None \<Rightarrow> Some (if values = [] then Inr d else Inl NilDereference)
   | Some bmon \<Rightarrow> map_option (\<lambda>m. bind_go m (\<lambda>(bmon, msgs).
       let d = d\<lparr>dspBaselineMonitor := Some bmon\<rparr> in
       Inr (if msgs \<noteq> [] then d\<lparr>baselineMonitorChan := map_option (\<lambda>q. q @ [msgs]) (baselineMonitorChan d)\<rparr>
            else d)))
     (AddSliceValues now bmon values))"

definition processSegment ::
  "dsp_env \<Rightarrow> stream_processor \<Rightarrow> data_segment \<Rightarrow> (stream_processor \<times> data_segment) go option" where
  "processSegment env d segment = (case DecimateData d segment of
     Inl p \<Rightarrow> Some (Inl p)
   | Inr segment \<Rightarrow> (case monitor_baseline (env_now env) d (rawData segment) of
       None \<Rightarrow> None
     | Some (Inl p) \<Rightarrow> Some (Inl p)
     | Some (Inr d1) \<Rightarrow>
         let d2 = d1\<lparr>stream := AppendSegment (stream d1) segment\<rparr> in
         map_option (\<lambda>m. bind_go m (\<lambda>(d3, primaryRecords).
             bind_go (AnalyzeData (env_mulvec env) d3 (map Some primaryRecords)) (\<lambda>analyzed.
               bind_go (publish env d3 analyzed) (\<lambda>d4. Inr (d4, segment)))))
           (TriggerData (env_solve env) d2)))"

definition processSecondaries ::
  "dsp_env \<Rightarrow> stream_processor \<Rightarrow> frame_index list \<Rightarrow> stream_processor go" where
  "processSecondaries env d secondaryFrames =
     bind_go (TriggerDataSecondary d secondaryFrames) (\<lambda>secondaryRecords.
       bind_go (AnalyzeData (env_mulvec env) d secondaryRecords) (\<lambda>analyzed. publish env d analyzed))"

end
