(* ===== verification/GroupTrigger.thy ===== *)
theory GroupTrigger
  imports Triggering "HOL-Library.AList"
begin

text \<open>
  Group triggering and trigger counting (\<open>group_trigger.go\<close>).  A \<open>TriggerBroker\<close> collects the
  trigger lists of all channels, counts triggers per reporting interval and hands every receiver
  the sorted triggers of the channels connected to it.  A Go map is an association list with
  distinct keys; where the code ranges over a map, the list gives one of the possible orders.  The
  counting loops are bounded by no integer of the code, so a counter that never returns is \<open>None\<close>.
\<close>

subsection \<open>Trigger counters\<close>

record triggerCounterMessage =
  msg_hiTime :: go_time
  msg_duration :: go_duration
  msg_countsSeen :: int

record TriggerCounter =
  tc_channelIndex :: int
  tc_hi :: frame_index
  tc_lo :: frame_index
  tc_hiTime :: go_time
  countsSeen :: int
  stepDuration :: go_duration
  tc_sampleRate :: go_float
  tc_keyTime :: go_time
  tc_keyFrame :: frame_index
  tc_initialized :: bool
  tc_messages :: "triggerCounterMessage list"

definition NewTriggerCounter :: "int \<Rightarrow> go_duration \<Rightarrow> TriggerCounter" where
  "NewTriggerCounter ch step =
     \<lparr>tc_channelIndex = ch, tc_hi = 0, tc_lo = 0, tc_hiTime = 0, countsSeen = 0, stepDuration = step,
      tc_sampleRate = Fin 0, tc_keyTime = 0, tc_keyFrame = 0, tc_initialized = False, tc_messages = []\<rparr>"

text \<open>
  \<open>Time.Round\<close> rounds to a multiple of the duration counted from the year 1, halves up;
  \<open>Time.Sub\<close> saturates at the range of \<open>Duration\<close>.
\<close>

definition unix_epoch :: go_time where "unix_epoch = 62135596800 * 1000000000"

definition time_round :: "go_time \<Rightarrow> go_duration \<Rightarrow> go_time" where
  "time_round t d =
     (if d \<le> 0 then t
      else let r = (t + unix_epoch) mod d in if r + r < d then t - r else t + (d - r))"

definition time_sub :: "go_time \<Rightarrow> go_time \<Rightarrow> go_duration" where
  "time_sub a b = max (- (2 ^ 63)) (min (2 ^ 63 - 1) (a - b))"

text \<open>The number of frames in a stretch of time, as the counter computes it.\<close>

definition frames_in :: "go_float \<Rightarrow> go_duration \<Rightarrow> int" where
  "frames_in rate dt = roundint (fmul r64 rate (duration_seconds dt))"

partial_function (option) catch_up :: "go_time \<Rightarrow> go_time \<Rightarrow> go_duration \<Rightarrow> go_time option" where
  "catch_up t key d = (if t < key then catch_up (t + d) key d else Some t)"

text \<open>\<open>initialize\<close>, from the point where the end of the first interval is known.\<close>

definition start_at :: "TriggerCounter \<Rightarrow> go_time \<Rightarrow> TriggerCounter" where
  "start_at tc hiTime =
     (let hi = tc_keyFrame tc + frames_in (tc_sampleRate tc) (time_sub hiTime (tc_keyTime tc)) in
      tc\<lparr>tc_hiTime := hiTime, tc_hi := hi,
         tc_lo := hi - frames_in (tc_sampleRate tc) (stepDuration tc) + 1, tc_initialized := True\<rparr>)"

definition tc_initialize :: "TriggerCounter \<Rightarrow> TriggerCounter option" where
  "tc_initialize tc = map_option (start_at tc)
     (catch_up (time_round (tc_keyTime tc) (stepDuration tc)) (tc_keyTime tc) (stepDuration tc))"

definition messageAndReset :: "TriggerCounter \<Rightarrow> TriggerCounter" where
  "messageAndReset tc =
     (let message = \<lparr>msg_hiTime = tc_hiTime tc, msg_duration = stepDuration tc,
                     msg_countsSeen = countsSeen tc\<rparr>;
          hiTime = tc_hiTime tc + stepDuration tc
      in tc\<lparr>tc_messages := tc_messages tc @ [message], countsSeen := 0, tc_hiTime := hiTime,
            tc_lo := tc_hi tc + 1,
            tc_hi := tc_keyFrame tc
              + frames_in (tc_sampleRate tc) (time_sub hiTime (tc_keyTime tc))\<rparr>)"

partial_function (option) advance :: "frame_index \<Rightarrow> TriggerCounter \<Rightarrow> TriggerCounter option" where
  "advance frame tc = (if frame > tc_hi tc then advance frame (messageAndReset tc) else Some tc)"

fun count_frames :: "frame_index list \<Rightarrow> TriggerCounter \<Rightarrow> TriggerCounter option" where
  "count_frames [] tc = Some tc"
| "count_frames (frame # rest) tc =
     Option.bind (advance frame tc) (\<lambda>tc1.
       count_frames rest (if frame \<ge> tc_lo tc1 then tc1\<lparr>countsSeen := countsSeen tc1 + 1\<rparr> else tc1))"

definition countNewTriggers :: "TriggerCounter \<Rightarrow> triggerList \<Rightarrow> TriggerCounter option" where
  "countNewTriggers tc tList =
     (let tc1 = tc\<lparr>tc_keyFrame := tl_keyFrame tList, tc_keyTime := tl_keyTime tList,
                   tc_sampleRate := tl_sampleRate tList\<rparr> in
      if fle (tc_sampleRate tc1) (Fin 0) then Some tc1
      else Option.bind (if tc_initialized tc1 then Some tc1 else tc_initialize tc1) (\<lambda>tc2.
        Option.bind (count_frames (tl_frames tList) tc2) (\<lambda>tc3.
          advance (firstFrameThatCannotTrigger tList) tc3)))"

subsection \<open>The broker\<close>

type_synonym source_set = "(int \<times> bool) list"

record TriggerBroker =
  nchannels :: int
  nconnections :: int
  sources :: "source_set list"
  latestPrimaries :: "frame_index list list"
  triggerCounters :: "TriggerCounter list"

text \<open>\<open>make\<close> panics on a negative number of channels.\<close>

definition NewTriggerBroker :: "int \<Rightarrow> TriggerBroker go" where
  "NewTriggerBroker nchan =
     (if nchan < 0 then Inl SliceBounds
      else Inr \<lparr>nchannels = nchan, nconnections = 0, sources = replicate (nat nchan) [],
        latestPrimaries = replicate (nat nchan) [],
        triggerCounters = map (\<lambda>i. NewTriggerCounter i 1000000000) [0..nchan - 1]\<rparr>)"

datatype connection_error = CouldNotAdd int int | CouldNotRemove int int

text \<open>\<open>m[k]\<close> of a \<open>map[int]bool\<close>: the zero value when the key is missing.\<close>

definition lookup_bool :: "source_set \<Rightarrow> int \<Rightarrow> bool" where
  "lookup_bool m k = (case map_of m k of None \<Rightarrow> False | Some b \<Rightarrow> b)"

definition AddConnection ::
  "TriggerBroker \<Rightarrow> int \<Rightarrow> int \<Rightarrow> TriggerBroker \<times> connection_error option" where
  "AddConnection broker source receiver =
     (if source = receiver then (broker, None)
      else if receiver < 0 \<or> receiver \<ge> nchannels broker
        then (broker, Some (CouldNotAdd receiver (nchannels broker)))
      else let rx = nat receiver; m = sources broker ! rx;
               b1 = (if \<not> lookup_bool m source then broker\<lparr>nconnections := nconnections broker + 1\<rparr>
                     else broker)
           in (b1\<lparr>sources := (sources broker)[rx := AList.update source True m]\<rparr>, None))"

definition DeleteConnection ::
  "TriggerBroker \<Rightarrow> int \<Rightarrow> int \<Rightarrow> TriggerBroker \<times> connection_error option" where
  "DeleteConnection broker source receiver =
     (if receiver < 0 \<or> receiver \<ge> nchannels broker
        then (broker, Some (CouldNotRemove receiver (nchannels broker)))
      else let rx = nat receiver; m = sources broker ! rx;
               b1 = (if lookup_bool m source then broker\<lparr>nconnections := nconnections broker - 1\<rparr>
                     else broker)
           in (b1\<lparr>sources := (sources broker)[rx := AList.delete source m]\<rparr>, None))"

definition StopTriggerCoupling :: "TriggerBroker \<Rightarrow> TriggerBroker" where
  "StopTriggerCoupling broker =
     broker\<lparr>sources := map (\<lambda>_. []) (sources broker), nconnections := 0\<rparr>"

definition isConnected :: "TriggerBroker \<Rightarrow> int \<Rightarrow> int \<Rightarrow> bool" where
  "isConnected broker source receiver =
     (if receiver < 0 \<or> receiver \<ge> nchannels broker then False
      else map_of (sources broker ! nat receiver) source \<noteq> None)"

text \<open>The \<open>nil\<close> map of an invalid receiver behaves as the empty map for its readers.\<close>

definition SourcesForReceiver :: "TriggerBroker \<Rightarrow> int \<Rightarrow> source_set" where
  "SourcesForReceiver broker receiver =
     (if receiver < 0 \<or> receiver \<ge> nchannels broker then [] else sources broker ! nat receiver)"

text \<open>The connections as a map from each source to its receivers, in increasing order.\<close>

definition add_conn :: "(int \<times> int list) list \<Rightarrow> int \<times> int \<Rightarrow> (int \<times> int list) list" where
  "add_conn conns p = (case p of (source, rx) \<Rightarrow>
     AList.update source
       ((case map_of conns source of None \<Rightarrow> [] | Some rxs \<Rightarrow> rxs) @ [rx]) conns)"

definition computeGroupTriggerState :: "TriggerBroker \<Rightarrow> (int \<times> int list) list" where
  "computeGroupTriggerState broker =
     foldl add_conn []
       (concat (map (\<lambda>(rx, m). map (\<lambda>(source, _). (source, rx)) m)
          (zip [0..int (length (sources broker)) - 1] (sources broker))))"

subsection \<open>Distributing triggers\<close>

fun store_primaries ::
  "TriggerBroker \<Rightarrow> (int \<times> triggerList) list \<Rightarrow> int \<Rightarrow> (TriggerBroker \<times> int) go option" where
  "store_primaries broker [] nprimaries = Some (Inr (broker, nprimaries))"
| "store_primaries broker ((i, tlist) # rest) nprimaries =
     (if 0 \<le> i \<and> i < int (length (latestPrimaries broker)) \<and> i < int (length (triggerCounters broker))
      then (case countNewTriggers (triggerCounters broker ! nat i) tlist of
          None \<Rightarrow> None
        | Some tc \<Rightarrow> store_primaries
            (broker\<lparr>latestPrimaries := (latestPrimaries broker)[nat i := tl_frames tlist],
                    triggerCounters := (triggerCounters broker)[nat i := tc]\<rparr>)
            rest (nprimaries + int (length (tl_frames tlist))))
      else Some (Inl IndexOutOfRange))"

definition received :: "TriggerBroker \<Rightarrow> source_set \<Rightarrow> frame_index list go" where
  "received broker srcs =
     bind_go (mapM_go (\<lambda>(source, _). idx (latestPrimaries broker) source) srcs) (\<lambda>trigs.
       Inr (sort (concat trigs)))"

definition secondary_map :: "TriggerBroker \<Rightarrow> (int \<times> frame_index list) list go" where
  "secondary_map broker =
     foldM_go (\<lambda>m i. let srcs = SourcesForReceiver broker i in
         if length srcs > 0 then bind_go (received broker srcs) (\<lambda>trigs. Inr (m @ [(i, trigs)]))
         else Inr m)
       [] [0..nchannels broker - 1]"

definition Distribute ::
  "TriggerBroker \<Rightarrow> (int \<times> triggerList) list \<Rightarrow>
   (TriggerBroker \<times> (int \<times> frame_index list) list) go option" where
  "Distribute broker primaries =
     map_option (\<lambda>m. bind_go m (\<lambda>(b, nprimaries).
         if nprimaries = 0 \<or> nconnections b = 0 then Inr (b, [])
         else bind_go (secondary_map b) (\<lambda>sec. Inr (b, sec))))
       (store_primaries broker primaries 0)"

subsection \<open>Rate messages\<close>

record TriggerRateMessage =
  HiTime :: go_time
  rate_Duration :: go_duration
  CountsSeen :: "int list"

definition rate_message :: "TriggerBroker \<Rightarrow> int \<Rightarrow> TriggerRateMessage go" where
  "rate_message broker i =
     foldM_go (\<lambda>acc j.
       bind_go (idx (triggerCounters broker) j) (\<lambda>tc.
         bind_go (idx (tc_messages tc) i) (\<lambda>m.
           let acc1 = (if j = 0 then acc\<lparr>HiTime := msg_hiTime m, rate_Duration := msg_duration m\<rparr> else acc) in
           if msg_hiTime m mod 1000000000 \<noteq> HiTime acc1 mod 1000000000
              \<or> msg_duration m \<noteq> rate_Duration acc1
           then Inl (ExplicitPanic ''trigger messages not in sync'')
           else Inr (acc1\<lparr>CountsSeen := CountsSeen acc1 @ [msg_countsSeen m]\<rparr>))))
       \<lparr>HiTime = 0, rate_Duration = 0, CountsSeen = []\<rparr> [0..nchannels broker - 1]"

definition GenerateTriggerMessages :: "TriggerBroker \<Rightarrow> (TriggerBroker \<times> TriggerRateMessage list) go" where
  "GenerateTriggerMessages broker =
     bind_go (idx (triggerCounters broker) 0) (\<lambda>c0.
       let nMessages = int (length (tc_messages c0)) in
       bind_go (foldM_go (\<lambda>_ j. bind_go (idx (triggerCounters broker) j) (\<lambda>c.
           if int (length (tc_messages c)) \<noteq> nMessages
           then Inl (ExplicitPanic ''triggerCounter has the wrong number of messages'') else Inr ()))
         () [1..nchannels broker - 1]) (\<lambda>_.
       bind_go (mapM_go (rate_message broker) [0..nMessages - 1]) (\<lambda>msgs.
         Inr (broker\<lparr>triggerCounters := map (\<lambda>c. c\<lparr>tc_messages := []\<rparr>) (triggerCounters broker)\<rparr>, msgs))))"

end
