(* ===== verification/Source.thy ===== *)
theory Source
  imports ProcessData GroupTrigger WritingState
begin

text \<open>
  What every data source shares (\<open>AnySource\<close> of \<open>data_source.go\<close>): its channels and their
  configuration, the preparation of a run, the processing of a block of data by all channels with
  group triggering between its two halves, the archive of raw data, and the control of file
  writing.  The goroutines that process the channels of a block touch disjoint state; they are run
  in order.  The entries of the database of runs and the log output are left out.
\<close>

subsection \<open>Row and column codes\<close>

unbundle bit_operations_syntax

type_synonym RowColCode = "64 word"

definition code_row :: "RowColCode \<Rightarrow> int" where "code_row c = uint (drop_bit 0 c AND 0xffff)"
definition code_col :: "RowColCode \<Rightarrow> int" where "code_col c = uint (drop_bit 16 c AND 0xffff)"
definition code_rows :: "RowColCode \<Rightarrow> int" where "code_rows c = uint (drop_bit 32 c AND 0xffff)"
definition code_cols :: "RowColCode \<Rightarrow> int" where "code_cols c = uint (drop_bit 48 c AND 0xffff)"

definition rcCode :: "int \<Rightarrow> int \<Rightarrow> int \<Rightarrow> int \<Rightarrow> RowColCode" where
  "rcCode row col rows cols =
     (let code = cols AND 0xffff;
          code = push_bit 16 code OR (rows AND 0xffff);
          code = push_bit 16 code OR (col AND 0xffff);
          code = push_bit 16 code OR (row AND 0xffff)
      in word_of_int code)"

subsection \<open>State\<close>

record GroupIndex =
  Firstchan :: int
  Nchan :: int

datatype SourceState = Inactive | Starting | Active | Stopping

record dataBlock =
  segments :: "data_segment list"
  externalTriggerRowcounts :: "int list"
  blockNSamp :: int
  blockErr :: bool

text \<open>The archive; \<open>None\<close> is a nil slice, \<open>completed\<close> says that the channel \<open>complete\<close> is closed.\<close>

record archiveableDataBlock =
  abSegments :: "data_segment list option"
  abTriggers :: "int list"
  abNSamp :: int
  earliestTime :: go_time
  requestedSamples :: int
  completed :: bool
  abActive :: bool

text \<open>\<open>abortSelf\<close> is the channel's closed flag, \<open>None\<close> for a nil channel.\<close>

record AnySource =
  nchan :: int
  srcName :: string
  chanNames :: "string list"
  chanNumbers :: "int list"
  rowColCodes :: "RowColCode list"
  subframeOffsets :: "int list"
  subframeDivisions :: int
  groupKeysSorted :: "GroupIndex list"
  srcVoltsPerArb :: "go_float list"
  srcSampleRate :: go_float
  samplePeriod :: go_duration
  lastread :: go_time
  nextFrameNum :: frame_index
  processors :: "stream_processor list"
  abortSelf :: "bool option"
  archiveBlock :: archiveableDataBlock
  broker :: "TriggerBroker option"
  configError :: bool
  shouldAutoRestart :: bool
  baselineMessages :: "BaselineMonitorMessage list list option"
  writingState :: WritingState
  sourceState :: SourceState
  runDone :: int
  readCounter :: int
  channelsPerPixel :: int

datatype source_error =
    WsError ws_error
  | NothingToWrite | AlreadyWriting | NoProjectors | MapError int int | NoDirectory
  | BadLabelFormat | BadRequest
  | NotAllSameLengths | NoProcessors
  | InvalidLengths | InvalidEMT | ChannelOutOfRange | NoChannels | NoIndices
  | BadProjectors projector_error | NoCouplingSupport | ArchiveBusy
  | NotInactive SourceState | NotActiveSource

subsection \<open>Channels and their configuration\<close>

definition getPulseLengths :: "AnySource \<Rightarrow> source_error + (int \<times> int)" where
  "getPulseLengths src = (case processors src of
     [] \<Rightarrow> Inl NoProcessors
   | d # _ \<Rightarrow> if \<exists>p\<in>set (processors src). NPresamples p \<noteq> NPresamples d \<or> NSamples p \<noteq> NSamples d
       then Inl NotAllSameLengths else Inr (NPresamples d, NSamples d))"

text \<open>A configuration of one channel after the other stops at the first error, with the earlier ones done.\<close>

fun configure_each ::
  "(stream_processor \<Rightarrow> (stream_processor \<times> bool) go) \<Rightarrow> stream_processor list
   \<Rightarrow> (stream_processor list \<times> bool) go" where
  "configure_each f [] = Inr ([], True)"
| "configure_each f (d # ds) = bind_go (f d) (\<lambda>(d1, ok).
     if \<not> ok then Inr (d1 # ds, False)
     else bind_go (configure_each f ds) (\<lambda>(ds1, ok). Inr (d1 # ds1, ok)))"

definition ConfigurePulseLengths :: "AnySource \<Rightarrow> int \<Rightarrow> int \<Rightarrow> (AnySource \<times> source_error option) go" where
  "ConfigurePulseLengths src nsamps npres =
     (if npres < 3 \<or> nsamps < 1 \<or> nsamps < npres + 1 then Inr (src, Some InvalidLengths)
      else bind_go (configure_each (\<lambda>d. dsp_ConfigurePulseLengths d nsamps npres) (processors src)) (\<lambda>(ds, ok).
        Inr (src\<lparr>processors := ds\<rparr>, if ok then None else Some InvalidEMT)))"

record FullTriggerState =
  ChannelIndices :: "int list"
  ftsState :: TriggerState

definition change_trigger ::
  "TriggerState \<Rightarrow> stream_processor list \<times> bool \<Rightarrow> int \<Rightarrow> (stream_processor list \<times> bool) go" where
  "change_trigger ts = (\<lambda>(ds, ok) i.
     if \<not> ok then Inr (ds, ok)
     else bind_go (idx ds i) (\<lambda>d. let (d1, ok1) = ConfigureTrigger d ts in Inr (ds[nat i := d1], ok1)))"

definition ChangeTriggerState :: "AnySource \<Rightarrow> FullTriggerState \<Rightarrow> (AnySource \<times> source_error option) go" where
  "ChangeTriggerState src fts =
     (if ChannelIndices fts = [] then Inr (src, Some NoIndices)
      else if \<exists>i\<in>set (ChannelIndices fts). i \<ge> nchan src then Inr (src, Some ChannelOutOfRange)
      else bind_go (foldM_go (change_trigger (ftsState fts)) (processors src, True) (ChannelIndices fts))
        (\<lambda>(ds, ok). Inr (src\<lparr>processors := ds\<rparr>, if ok then None else Some InvalidEMT)))"

definition ConfigureProjectorsBases ::
  "AnySource \<Rightarrow> int \<Rightarrow> dense \<Rightarrow> dense \<Rightarrow> string \<Rightarrow> AnySource \<times> source_error option" where
  "ConfigureProjectorsBases src i projs bas description =
     (if i \<ge> int (length (processors src)) \<or> i < 0 then (src, Some ChannelOutOfRange)
      else let (d, err) = SetProjectorsBasis (processors src ! nat i) projs bas description in
        (src\<lparr>processors := (processors src)[nat i := d]\<rparr>, map_option BadProjectors err))"

definition ChannelsWithProjectors :: "AnySource \<Rightarrow> int list" where
  "ChannelsWithProjectors src =
     map fst (filter (\<lambda>(i, d). HasProjectors d) (zip [0..int (length (processors src)) - 1] (processors src)))"

text \<open>
  The channels grouped by equal trigger states.  Go ranges over the map in any order; the model
  takes the order of first appearance.
\<close>

definition add_state :: "(TriggerState \<times> int list) list \<Rightarrow> stream_processor \<Rightarrow> (TriggerState \<times> int list) list" where
  "add_state groups d =
     AList.update (triggerState d)
       ((case map_of groups (triggerState d) of None \<Rightarrow> [] | Some chans \<Rightarrow> chans) @ [channelIndex d]) groups"

definition ComputeFullTriggerState :: "AnySource \<Rightarrow> FullTriggerState list" where
  "ComputeFullTriggerState src =
     map (\<lambda>(k, v). \<lparr>ChannelIndices = v, ftsState = k\<rparr>) (foldl add_state [] (processors src))"

datatype CouplingStatus = NoCoupling | FBToErr | ErrToFB

definition SetCoupling :: "CouplingStatus \<Rightarrow> source_error option" where
  "SetCoupling status = (if status = NoCoupling then None else Some NoCouplingSupport)"

definition ChangeGroupTrigger :: "AnySource \<Rightarrow> bool \<Rightarrow> (int \<times> int list) list \<Rightarrow> AnySource go" where
  "ChangeGroupTrigger src turnon connections = (case broker src of
     None \<Rightarrow> Inl NilDereference
   | Some b \<Rightarrow>
       let changer = (\<lambda>b (s, r). fst (if turnon then AddConnection b s r else DeleteConnection b s r)) in
       Inr (src\<lparr>broker := Some (foldl changer b
         (concat (map (\<lambda>(s, rs). map (\<lambda>r. (s, r)) rs) connections)))\<rparr>))"

definition source_StopTriggerCoupling :: "AnySource \<Rightarrow> AnySource go" where
  "source_StopTriggerCoupling src = (case broker src of
     None \<Rightarrow> Inl NilDereference
   | Some b \<Rightarrow> Inr (src\<lparr>broker := Some (StopTriggerCoupling b)\<rparr>))"

subsection \<open>Preparing a run\<close>

definition SetStateStarting :: "AnySource \<Rightarrow> AnySource \<times> source_error option" where
  "SetStateStarting src =
     (if sourceState src = Inactive then (src\<lparr>sourceState := Starting\<rparr>, None)
      else (src, Some (NotInactive (sourceState src))))"

definition SetStateInactive :: "AnySource \<Rightarrow> AnySource" where
  "SetStateInactive src = src\<lparr>sourceState := Inactive\<rparr>"

definition Running :: "AnySource \<Rightarrow> bool" where "Running src = (sourceState src = Active)"

definition VoltsPerArb :: "AnySource \<Rightarrow> AnySource" where
  "VoltsPerArb src =
     (if srcVoltsPerArb src = [] \<or> int (length (srcVoltsPerArb src)) \<noteq> nchan src
      then src\<lparr>srcVoltsPerArb := replicate (nat (nchan src)) (r32 (1 / 65535))\<rparr> else src)"

definition PrepareChannels :: "AnySource \<Rightarrow> AnySource go" where
  "PrepareChannels src =
     (if nchan src < 0 then Inl SliceBounds
      else Inr (src\<lparr>channelsPerPixel := 1,
             groupKeysSorted := [\<lparr>Firstchan = 0, Nchan = nchan src\<rparr>],
             chanNames := map (\<lambda>i. ''chan'' @ fmt_d i) [0..nchan src - 1],
             chanNumbers := [0..nchan src - 1],
             subframeOffsets := replicate (nat (nchan src)) 0\<rparr>))"

text \<open>The stored trigger states by channel; a later one wins, and edge-multi triggering is turned off.\<close>

definition store_state :: "int \<Rightarrow> TriggerState option list \<Rightarrow> int \<times> TriggerState \<Rightarrow> TriggerState option list go" where
  "store_state n tsptrs = (\<lambda>(i, ts).
     if i < n then bind_go (idx tsptrs i) (\<lambda>_. Inr (tsptrs[nat i := Some (ts\<lparr>EdgeMulti := False\<rparr>)]))
     else Inr tsptrs)"

definition stored_states :: "int \<Rightarrow> FullTriggerState list \<Rightarrow> TriggerState option list go" where
  "stored_states n fts =
     foldM_go (store_state n) (replicate (nat n) None)
       (concat (map (\<lambda>f. map (\<lambda>i. (i, ftsState f)) (ChannelIndices f)) fts))"

definition defaultTS :: TriggerState where
  "defaultTS = TriggerState_zero\<lparr>AutoDelay := 250000000, EdgeLevel := 100, EdgeRising := True, LevelLevel := 4000\<rparr>"

definition SetPub :: "DataPublisher \<Rightarrow> DataPublisher" where
  "SetPub dp = dp\<lparr>pubRecordsChan := (case pubRecordsChan dp of None \<Rightarrow> Some [] | q \<Rightarrow> q),
                 pubSummariesChan := (case pubSummariesChan dp of None \<Rightarrow> Some [] | q \<Rightarrow> q)\<rparr>"

definition prepare_channel ::
  "go_time \<Rightarrow> AnySource \<Rightarrow> int \<Rightarrow> int \<Rightarrow> TriggerState option list \<Rightarrow> int \<Rightarrow> stream_processor go" where
  "prepare_channel now src npres nsamps tsptrs i =
     bind_go (idx (chanNumbers src) i) (\<lambda>number.
     bind_go (NewDataStreamProcessor now i number npres nsamps (srcSampleRate src) (baselineMessages src)) (\<lambda>d.
     bind_go (idx (chanNames src) i) (\<lambda>name.
     bind_go (idx (srcVoltsPerArb src) i) (\<lambda>vpa.
     bind_go (idx tsptrs i) (\<lambda>ts.
       Inr (d\<lparr>dspName := name, stream := (stream d)\<lparr>voltsPerArb := vpa\<rparr>,
              triggerState := (case ts of None \<Rightarrow> defaultTS | Some t \<Rightarrow> t),
              publisher := SetPub (publisher d)\<rparr>))))))"

definition PrepareRun ::
  "go_time \<Rightarrow> FullTriggerState list \<Rightarrow> AnySource \<Rightarrow> int \<Rightarrow> int \<Rightarrow> (AnySource \<times> source_error option) go" where
  "PrepareRun now stored src npres nsamps =
     (if nchan src \<le> 0 then Inr (src, Some NoChannels)
      else bind_go (NewTriggerBroker (nchan src)) (\<lambda>b.
        let src1 = VoltsPerArb (src\<lparr>abortSelf := Some False, broker := Some b\<rparr>) in
        bind_go (stored_states (nchan src1) stored) (\<lambda>tsptrs.
        bind_go (mapM_go (prepare_channel now src1 npres nsamps tsptrs) [0..nchan src1 - 1]) (\<lambda>ds.
          Inr (src1\<lparr>processors := ds\<rparr>, None)))))"

subsection \<open>The archive of raw data\<close>

text \<open>\<open>ArchiveDataBlock\<close>; the goroutine that writes the finished archive to a file is not modelled.\<close>

definition ArchiveDataBlock :: "go_time \<Rightarrow> AnySource \<Rightarrow> int \<Rightarrow> AnySource \<times> source_error option" where
  "ArchiveDataBlock now src N =
     (let ab = archiveBlock src in
      if abActive ab then (src, Some ArchiveBusy)
      else (src\<lparr>archiveBlock := ab\<lparr>earliestTime := now, requestedSamples := N, abSegments := None,
                 completed := False, abActive := True\<rparr>\<rparr>, None))"

definition empty_segment :: data_segment where
  "empty_segment = \<lparr>rawData = [], signedData = False, framesPerSample = 0, firstFrameIndex = 0, firstTime = 0,
     framePeriod = 0, voltsPerArb = Fin 0, processed = False, droppedFrames = 0\<rparr>"

definition archive_segment :: "int \<Rightarrow> data_segment \<Rightarrow> data_segment \<Rightarrow> data_segment go" where
  "archive_segment ncopied src dst =
     (if ncopied \<noteq> int (length (rawData src)) then Inl (ExplicitPanic ''archiveNewDataBlock has conflicting lengths'')
      else let dst = (if rawData dst = [] then dst\<lparr>firstFrameIndex := firstFrameIndex src\<rparr> else dst) in
        Inr (dst\<lparr>rawData := rawData dst @ rawData src\<rparr>))"

definition archiveNewDataBlock :: "int \<Rightarrow> archiveableDataBlock \<Rightarrow> dataBlock \<Rightarrow> archiveableDataBlock go" where
  "archiveNewDataBlock n ab block =
     (let srcs = segments block;
          fresh = (abSegments ab = None);
          ab1 = (if fresh then ab\<lparr>abNSamp := 0, abSegments := Some (replicate (length srcs) empty_segment)\<rparr> else ab);
          dsts = the (abSegments ab1)
      in if fresh \<and> n > int (length srcs) then Inl IndexOutOfRange
      else if fresh \<and> requestedSamples ab + quot_int (requestedSamples ab) 2 < 0 \<and> n > 0 then Inl SliceBounds
      else if length dsts \<noteq> length srcs then Inl (ExplicitPanic ''archiveNewDataBlock has the wrong number of segments'')
      else case srcs of
        [] \<Rightarrow> Inl (ExplicitPanic ''archiveNewDataBlock has a block with 0 segments'')
      | seg # _ \<Rightarrow>
        if firstTime seg < earliestTime ab1 then Inr ab1
        else let ncopied = int (length (rawData seg)) in
          bind_go (mapM_go (\<lambda>(s, t). archive_segment ncopied s t) (zip srcs dsts)) (\<lambda>segs.
            let ab2 = ab1\<lparr>abSegments := Some segs, abTriggers := abTriggers ab1 @ externalTriggerRowcounts block,
                          abNSamp := abNSamp ab1 + ncopied\<rparr>
            in if abNSamp ab2 \<ge> requestedSamples ab2
               then if completed ab2 then Inl CloseOfClosedChannel
                    else Inr (ab2\<lparr>completed := True, abActive := False\<rparr>)
               else Inr ab2))"

subsection \<open>A block through all channels\<close>

text \<open>The world outside: files, directories and the clock's ticks.\<close>

record world =
  w_disk :: disk
  w_dirs :: "string list"

record source_env =
  channel_env :: dsp_env
  file_sys :: os_env
  mkdir_ok :: "string \<Rightarrow> bool"
  today :: string
  start_time :: go_time
  now_time :: go_time

record ticks =
  tick_triggers :: bool
  tick_drops :: bool
  tick_written :: bool

fun process_first :: "dsp_env \<Rightarrow> stream_processor list \<Rightarrow> data_segment list \<Rightarrow> stream_processor list go option" where
  "process_first env (d # ds) (seg # segs) = (case processSegment env d seg of
     None \<Rightarrow> None
   | Some (Inl p) \<Rightarrow> Some (Inl p)
   | Some (Inr (d1, _)) \<Rightarrow> map_option (\<lambda>m. bind_go m (\<lambda>ds1. Inr (d1 # ds1))) (process_first env ds segs))"
| "process_first env _ _ = Some (Inr [])"

definition process_second ::
  "dsp_env \<Rightarrow> (int \<times> frame_index list) list \<Rightarrow> int \<times> stream_processor \<Rightarrow> stream_processor go" where
  "process_second env secondaries = (\<lambda>(i, d). case map_of secondaries i of
     None \<Rightarrow> Inr d
   | Some flist \<Rightarrow> if flist = [] then Inr d else processSecondaries env d flist)"

definition enumerated :: "'a list \<Rightarrow> (int \<times> 'a) list" where
  "enumerated xs = zip [0..int (length xs) - 1] xs"

text \<open>The two halves with the broker between them.\<close>

definition process_channels ::
  "dsp_env \<Rightarrow> TriggerBroker \<Rightarrow> stream_processor list \<Rightarrow> data_segment list
   \<Rightarrow> (TriggerBroker \<times> stream_processor list \<times> TriggerRateMessage list) go option" where
  "process_channels env b ds segs = (case process_first env ds segs of
     None \<Rightarrow> None
   | Some (Inl p) \<Rightarrow> Some (Inl p)
   | Some (Inr ds1) \<Rightarrow> (case Distribute b (map (\<lambda>(i, d). (i, lastTrigList d)) (enumerated ds1)) of
       None \<Rightarrow> None
     | Some m \<Rightarrow> Some (bind_go m (\<lambda>(b1, secondaries).
         bind_go (GenerateTriggerMessages b1) (\<lambda>(b2, rates).
         bind_go (mapM_go (process_second env secondaries) (enumerated ds1)) (\<lambda>ds2.
         bind_go (mapM_go TrimStream ds2) (\<lambda>ds3. Inr (b2, ds3, rates))))))))"

text \<open>\<open>numberWritten\<close> has one place per channel of the source.\<close>

definition written_counts :: "AnySource \<Rightarrow> int list go" where
  "written_counts src =
     (if nchan src < 0 then Inl SliceBounds
      else if int (length (processors src)) > nchan src then Inl IndexOutOfRange
      else Inr (map (\<lambda>d. numberWritten (publisher d)) (processors src)
        @ replicate (nat (nchan src) - length (processors src)) 0))"

definition after_block ::
  "source_env \<Rightarrow> ticks \<Rightarrow> world \<Rightarrow> AnySource \<Rightarrow> dataBlock
   \<Rightarrow> (AnySource \<times> world \<times> client_message list \<times> source_error option) go" where
  "after_block env tk w src block =
     bind_go (written_counts src) (\<lambda>counts.
     let (d1, ws1, m1, err) = HandleExternalTriggers (file_sys env) (w_disk w) (writingState src)
           (subframeDivisions src) (tick_triggers tk) (externalTriggerRowcounts block);
         src1 = src\<lparr>writingState := ws1\<rparr>; w1 = w\<lparr>w_disk := d1\<rparr> in
     if err \<noteq> None then Inr (src1, w1, m1, map_option WsError err)
     else bind_go (idx (segments block) 0) (\<lambda>seg.
       let (d2, ws2, m2, err) = HandleDataDrop (file_sys env) (w_disk w1) (writingState src1)
             (tick_drops tk) (droppedFrames seg) (firstFrameIndex seg);
           src2 = src1\<lparr>writingState := ws2\<rparr>; w2 = w1\<lparr>w_disk := d2\<rparr> in
       if err \<noteq> None then Inr (src2, w2, m1 @ m2, map_option WsError err)
       else Inr (src2, w2, m1 @ m2 @ (if wsActive ws2 \<and> \<not> wsPaused ws2 \<and> tick_written tk
         then [NUMBERWRITTEN counts] else []), None)))"

definition ProcessSegments ::
  "source_env \<Rightarrow> ticks \<Rightarrow> world \<Rightarrow> AnySource \<Rightarrow> dataBlock
   \<Rightarrow> (AnySource \<times> world \<times> TriggerRateMessage list \<times> client_message list \<times> source_error option) go option" where
  "ProcessSegments env tk w src block =
     (if length (processors src) \<noteq> length (segments block)
      then Some (Inl (ExplicitPanic ''dataBlock and Source disagree on the number of channels''))
      else case (if abActive (archiveBlock src)
                 then bind_go (archiveNewDataBlock (nchan src) (archiveBlock src) block) (\<lambda>ab. Inr (src\<lparr>archiveBlock := ab\<rparr>))
                 else Inr src) of
        Inl p \<Rightarrow> Some (Inl p)
      | Inr src1 \<Rightarrow> (case broker src1 of
          None \<Rightarrow> Some (Inl NilDereference)
        | Some b \<Rightarrow> map_option (\<lambda>m. bind_go m (\<lambda>(b1, ds, rates).
            let src2 = src1\<lparr>broker := Some b1, processors := ds, readCounter := readCounter src1 + 1\<rparr> in
            bind_go (after_block env tk w src2 block) (\<lambda>(src3, w3, msgs, err).
              Inr (src3, w3, rates, msgs, err))))
           (process_channels (channel_env env) b (processors src1) (segments block))))"

subsection \<open>Controlling the writing of files\<close>

text \<open>\<open>filepath.Join\<close>: the non-empty elements joined by a slash and cleaned.\<close>

fun split_slash :: "string \<Rightarrow> string \<Rightarrow> string list" where
  "split_slash acc [] = [rev acc]"
| "split_slash acc (c # cs) = (if c = CHR ''/'' then rev acc # split_slash [] cs else split_slash (c # acc) cs)"

definition clean_step :: "bool \<Rightarrow> string list \<Rightarrow> string \<Rightarrow> string list" where
  "clean_step rooted stack el =
     (if el = [] \<or> el = ''.'' then stack
      else if el = ''..''
        then (if stack \<noteq> [] \<and> last stack \<noteq> ''..'' then butlast stack
              else if rooted then stack else stack @ [''..''])
      else stack @ [el])"

fun join_slash :: "string list \<Rightarrow> string" where
  "join_slash [] = []"
| "join_slash [c] = c"
| "join_slash (c # cs) = c @ ''/'' @ join_slash cs"

definition path_clean :: "string \<Rightarrow> string" where
  "path_clean p =
     (let rooted = (p \<noteq> [] \<and> hd p = CHR ''/'');
          out = join_slash (foldl (clean_step rooted) [] (split_slash [] p)) in
      if rooted then ''/'' @ out else if out = [] then ''.'' else out)"

definition path_join :: "string \<Rightarrow> string \<Rightarrow> string" where
  "path_join a b = (if a = [] \<and> b = [] then [] else if a = [] then path_clean b
     else if b = [] then path_clean a else path_clean (a @ ''/'' @ b))"

definition digits4 :: "int \<Rightarrow> string" where
  "digits4 i = replicate (4 - length (fmt_d i)) CHR ''0'' @ fmt_d i"

fun find_dir :: "string list \<Rightarrow> string \<Rightarrow> nat \<Rightarrow> nat \<Rightarrow> nat option" where
  "find_dir dirs base i 0 = None"
| "find_dir dirs base i (Suc n) =
     (if path_join base (digits4 (int i)) \<in> set dirs then find_dir dirs base (Suc i) n else Some i)"

definition makeDirectory :: "source_env \<Rightarrow> world \<Rightarrow> string \<Rightarrow> world \<times> string option" where
  "makeDirectory env w basepath =
     (if basepath = [] then (w, None)
      else let todayDir = path_join basepath (today env) in
        if \<not> mkdir_ok env todayDir then (w, None)
        else let w1 = w\<lparr>w_dirs := todayDir # w_dirs w\<rparr> in
          case find_dir (w_dirs w1) todayDir 0 10000 of
            None \<Rightarrow> (w1, None)
          | Some i \<Rightarrow>
              let thisDir = path_join todayDir (digits4 (int i)) in
              if \<not> mkdir_ok env thisDir then (w1, None)
              else (w1\<lparr>w_dirs := thisDir # w_dirs w1\<rparr>,
                Some (path_join thisDir (today env @ ''_run'' @ digits4 (int i) @ ''_%s.%s''))))"

text \<open>The writers of one channel.\<close>

definition channel_pixel :: "WriteControlConfig \<Rightarrow> AnySource \<Rightarrow> int \<Rightarrow> Pixel go" where
  "channel_pixel config src i = (case MapInternalOnly config of
     None \<Rightarrow> Inr \<lparr>pixX = 0, pixY = 0, pixelName = []\<rparr>
   | Some m \<Rightarrow> bind_go (idx (chanNumbers src) i) (\<lambda>number. idx (mapPixels m) (number - 1)))"

definition frames_per_sample :: "stream_processor \<Rightarrow> int" where
  "frames_per_sample d = (if Decimate d then DecimateLevel d else 1)"

definition start_ljh22 ::
  "source_env \<Rightarrow> WriteControlConfig \<Rightarrow> AnySource \<Rightarrow> string \<Rightarrow> int \<Rightarrow> RowColCode \<Rightarrow> Pixel
   \<Rightarrow> stream_processor \<Rightarrow> stream_processor go" where
  "start_ljh22 env config src pattern i code pixel d =
     bind_go (idx (subframeOffsets src) i) (\<lambda>off. bind_go (idx (chanNames src) i) (\<lambda>name.
     bind_go (idx (chanNumbers src) i) (\<lambda>number.
       let timebase = fdiv r64 (Fin 1) (SampleRate d);
           dp = SetLJH22 (env_files (channel_env env)) (publisher d) i (NPresamples d) (NSamples d)
             (frames_per_sample d) timebase (start_time env)
             (code_rows code) (code_cols code) (nchan src) (subframeDivisions src) (code_row code)
             (code_col code) off (sprintf_s pattern [dspName d, ''ljh'']) (srcName src) name number pixel in
       Inr (d\<lparr>publisher := dp\<lparr>LJH22 := map_option (\<lambda>x. SetFlushAlsoSyncs x (cfgFlushAlsoSyncs config)) (LJH22 dp)\<rparr>\<rparr>))))"

definition start_off ::
  "source_env \<Rightarrow> WriteControlConfig \<Rightarrow> AnySource \<Rightarrow> string \<Rightarrow> int \<Rightarrow> RowColCode \<Rightarrow> Pixel
   \<Rightarrow> stream_processor \<Rightarrow> stream_processor go" where
  "start_off env config src pattern i code pixel d =
     bind_go (idx (subframeOffsets src) i) (\<lambda>off. bind_go (idx (chanNames src) i) (\<lambda>name.
     bind_go (idx (chanNumbers src) i) (\<lambda>number.
       case (projectors d, basis d) of
         (Some projs, Some bas) \<Rightarrow>
           let timebase = fdiv r64 (Fin 1) (SampleRate d);
               dp = SetOFF (env_files (channel_env env)) (publisher d) i (NPresamples d) (NSamples d)
                 (frames_per_sample d) timebase (start_time env)
                 (code_rows code) (code_cols code) (nchan src) (subframeDivisions src) (code_row code)
                 (code_col code) off (sprintf_s pattern [dspName d, ''off'']) (srcName src) name number
                 projs bas (modelDescription d) pixel (now_time env) in
           Inr (d\<lparr>publisher := dp\<lparr>OFF := map_option (\<lambda>x. SetFlushAlsoSyncsOFF x (cfgFlushAlsoSyncs config)) (OFF dp)\<rparr>\<rparr>)
       | _ \<Rightarrow> Inl NilDereference)))"

definition start_ljh3 ::
  "WriteControlConfig \<Rightarrow> AnySource \<Rightarrow> string \<Rightarrow> int \<Rightarrow> RowColCode \<Rightarrow> stream_processor \<Rightarrow> stream_processor go" where
  "start_ljh3 config src pattern i code d =
     bind_go (idx (subframeOffsets src) i) (\<lambda>off.
       let timebase = fdiv r64 (Fin 1) (SampleRate d);
           dp = SetLJH3 (publisher d) i timebase (code_rows code) (code_cols code) (subframeDivisions src) off
             (sprintf_s pattern [dspName d, ''ljh3'']) in
       Inr (d\<lparr>publisher := dp\<lparr>LJH3 := map_option (\<lambda>x. SetFlushAlsoSyncs3 x (cfgFlushAlsoSyncs config)) (LJH3 dp)\<rparr>\<rparr>))"

definition set_outputs ::
  "source_env \<Rightarrow> WriteControlConfig \<Rightarrow> AnySource \<Rightarrow> string \<Rightarrow> int \<times> stream_processor \<Rightarrow> stream_processor go" where
  "set_outputs env config src pattern = (\<lambda>(i, d).
     bind_go (idx (rowColCodes src) i) (\<lambda>code.
     bind_go (channel_pixel config src i) (\<lambda>pixel.
     bind_go (if cfgWriteLJH22 config then start_ljh22 env config src pattern i code pixel d else Inr d) (\<lambda>d1.
     bind_go (if cfgWriteOFF config \<and> HasProjectors d1 then start_off env config src pattern i code pixel d1
              else Inr d1) (\<lambda>d2.
     if cfgWriteLJH3 config then start_ljh3 config src pattern i code d2 else Inr d2)))))"

definition has_output :: "stream_processor \<Rightarrow> bool" where
  "has_output d \<longleftrightarrow> HasLJH22 (publisher d) \<or> HasOFF (publisher d) \<or> HasLJH3 (publisher d)"

definition map_fits :: "AnySource \<Rightarrow> WriteControlConfig \<Rightarrow> source_error option go" where
  "map_fits src config = (case MapInternalOnly config of
     None \<Rightarrow> Inr None
   | Some m \<Rightarrow> bind_go (div_go (nchan src) (channelsPerPixel src)) (\<lambda>want.
       Inr (if int (length (mapPixels m)) \<noteq> want then Some (MapError (int (length (mapPixels m))) want) else None)))"

definition writeControlStart ::
  "source_env \<Rightarrow> world \<Rightarrow> AnySource \<Rightarrow> WriteControlConfig \<Rightarrow> (AnySource \<times> world \<times> source_error option) go" where
  "writeControlStart env w src config =
     (if \<not> (cfgWriteLJH22 config \<or> cfgWriteOFF config \<or> cfgWriteLJH3 config) then Inr (src, w, Some NothingToWrite)
      else if \<exists>d\<in>set (processors src). has_output d then Inr (src, w, Some AlreadyWriting)
      else if cfgWriteOFF config \<and> \<not> (\<exists>d\<in>set (processors src). HasProjectors d) then Inr (src, w, Some NoProjectors)
      else bind_go (map_fits src config) (\<lambda>err.
        if err \<noteq> None then Inr (src, w, err)
        else let basepath = (if length (cfgPath config) > 0 then cfgPath config else BasePath (writingState src)) in
          case makeDirectory env w basepath of
            (w1, None) \<Rightarrow> Inr (src, w1, Some NoDirectory)
          | (w1, Some pattern) \<Rightarrow>
              bind_go (mapM_go (set_outputs env config src pattern) (enumerated (processors src))) (\<lambda>ds.
                let (d, ws, err) = ws_Start (file_sys env) (w_disk w1) (writingState src) pattern basepath config (now_time env) in
                Inr (src\<lparr>processors := ds, writingState := ws\<rparr>, w1\<lparr>w_disk := d\<rparr>, map_option WsError err))))"

text \<open>\<open>strings.ToUpper\<close> for ASCII requests.\<close>

definition upper :: "char \<Rightarrow> char" where
  "upper c = (let n = (of_char c :: nat) in if 97 \<le> n \<and> n \<le> 122 then char_of (n - 32) else c)"

definition has_prefix :: "string \<Rightarrow> string \<Rightarrow> bool" where
  "has_prefix s p = (take (length p) s = p)"

definition pause_all :: "bool \<Rightarrow> AnySource \<Rightarrow> AnySource" where
  "pause_all pause src = src\<lparr>processors := map (\<lambda>d. d\<lparr>publisher := SetPause (publisher d) pause\<rparr>) (processors src),
     writingState := (writingState src)\<lparr>wsPaused := pause\<rparr>\<rparr>"

definition unpause_label ::
  "source_env \<Rightarrow> world \<Rightarrow> WritingState \<Rightarrow> string \<Rightarrow> world \<times> WritingState \<times> source_error option" where
  "unpause_label env w ws request =
     (if length request > 7
      then if request ! 7 \<noteq> CHR '' '' \<or> length request = 8 then (w, ws, Some BadLabelFormat)
           else let (d, ws1, err) = SetExperimentStateLabel (file_sys env) (w_disk w) ws (now_time env) (drop 8 request)
                in (w\<lparr>w_disk := d\<rparr>, ws1, map_option WsError err)
      else (w, ws, None))"

definition remove_outputs :: "stream_processor \<Rightarrow> stream_processor" where
  "remove_outputs d = d\<lparr>publisher := RemoveLJH3 (RemoveOFF (RemoveLJH22 (publisher d)))\<rparr>"

definition WriteControl ::
  "source_env \<Rightarrow> world \<Rightarrow> AnySource \<Rightarrow> WriteControlConfig \<Rightarrow> (AnySource \<times> world \<times> source_error option) go" where
  "WriteControl env w src config =
     (let request = map upper (Request config) in
      if has_prefix request ''PAUSE'' then Inr (pause_all True src, w, None)
      else if has_prefix request ''UNPAUSE''
        then let (w1, ws1, err) = unpause_label env w (writingState src) (Request config);
                 src1 = src\<lparr>writingState := ws1\<rparr> in
          if err \<noteq> None then Inr (src1, w1, err) else Inr (pause_all False src1, w1, None)
      else if has_prefix request ''STOP''
        then let src1 = src\<lparr>processors := map remove_outputs (processors src)\<rparr> in
          bind_go (ws_Stop (file_sys env) (w_disk w) (writingState src1) (now_time env)) (\<lambda>(d, ws1, err).
            Inr (src1\<lparr>writingState := ws1\<rparr>, w\<lparr>w_disk := d\<rparr>, map_option WsError err))
      else if has_prefix request ''START'' then writeControlStart env w src config
      else Inr (src, w, Some BadRequest))"

end
