(* ===== verification/PulseLaws.thy ===== *)
theory PulseLaws
  imports PulseFiles
begin

text \<open>
  Laws of the pulse files.  The locale \<open>record_file\<close> is what the three writers promise the
  publisher: while the channel has room, writing a record appends exactly its layout to the bytes of
  the file.  From it follow the contents of a file after a batch of records, the round trip of LJH
  records through the reader, and what \<open>PublishData\<close> as a whole does; the last part shows what is
  lost when the channel has no room.
\<close>

subsection \<open>Files while there is room\<close>

definition bytes_of :: "async_file option \<Rightarrow> u8 list" where
  "bytes_of f = (case f of None \<Rightarrow> [] | Some a \<Rightarrow> concat (accepted a))"

definition room_from :: "(nat \<Rightarrow> bool) \<Rightarrow> async_file \<Rightarrow> bool" where
  "room_from ok f \<longleftrightarrow> (\<forall>k\<ge>attempts f. ok k)"

lemma write_chunks_room:
  assumes "room_from ok f"
  shows "\<exists>f'. write_chunks ok f cs = (f', True) \<and> accepted f' = accepted f @ cs \<and> room_from ok f'"
  using assms
proof (induction cs arbitrary: f)
  case (Cons c cs)
  let ?f = "\<lparr>accepted = accepted f @ [c], attempts = Suc (attempts f)\<rparr>"
  have ok: "ok (attempts f)" "room_from ok ?f" using Cons.prems by (simp_all add: room_from_def)
  obtain f' where "write_chunks ok ?f cs = (f', True)" "accepted f' = accepted ?f @ cs" "room_from ok f'"
    using Cons.IH [OF ok(2)] by blast
  then show ?case using ok(1) by (simp add: aw_write_def)
qed simp

locale record_file =
  fixes handle :: "'w \<Rightarrow> async_file option" and channel :: "'k \<Rightarrow> nat \<Rightarrow> bool" and kind :: "'w \<Rightarrow> 'k"
    and put :: "'w \<Rightarrow> data_record \<Rightarrow> 'w go" and layout :: "'k \<Rightarrow> data_record \<Rightarrow> u8 list"
    and fits :: "'k \<Rightarrow> data_record \<Rightarrow> bool" and count :: "'w \<Rightarrow> int"
  assumes put_appends: "handle w = Some f \<Longrightarrow> room_from (channel (kind w)) f \<Longrightarrow> fits (kind w) r \<Longrightarrow>
    \<exists>w' f'. put w r = Inr w' \<and> handle w' = Some f' \<and> room_from (channel (kind w)) f' \<and> kind w' = kind w
      \<and> concat (accepted f') = concat (accepted f) @ layout (kind w) r \<and> count w' = count w + 1"
begin

lemma put_all:
  assumes "handle w = Some f" "room_from (channel (kind w)) f" "\<forall>r\<in>set rs. fits (kind w) r"
  shows "\<exists>w' f'. foldM_go put w rs = Inr w' \<and> handle w' = Some f' \<and> room_from (channel (kind w)) f'
      \<and> kind w' = kind w
      \<and> concat (accepted f') = concat (accepted f) @ concat (map (layout (kind w)) rs)
      \<and> count w' = count w + int (length rs)"
  using assms
proof (induction rs arbitrary: w f)
  case (Cons r rs)
  obtain w1 f1 where 1: "put w r = Inr w1" "handle w1 = Some f1" "room_from (channel (kind w)) f1"
    "kind w1 = kind w" "concat (accepted f1) = concat (accepted f) @ layout (kind w) r" "count w1 = count w + 1"
    using put_appends [OF Cons.prems(1,2), of r] Cons.prems(3) by auto
  have "room_from (channel (kind w1)) f1" "\<forall>r\<in>set rs. fits (kind w1) r" using 1 Cons.prems(3) by simp_all
  then obtain w2 f2 where "foldM_go put w1 rs = Inr w2" "handle w2 = Some f2" "room_from (channel (kind w1)) f2"
      "kind w2 = kind w1"
      "concat (accepted f2) = concat (accepted f1) @ concat (map (layout (kind w1)) rs)"
      "count w2 = count w1 + int (length rs)"
    using Cons.IH [OF 1(2)] by blast
  then show ?case using 1 by simp
qed simp

end

subsection \<open>The three writers\<close>

text \<open>A writer without its file, on which the layout of its records depends.\<close>

definition ljh_kind :: "ljh_Writer \<Rightarrow> ljh_Writer" where
  "ljh_kind w = w\<lparr>wWriter := None, wRecordsWritten := 0\<rparr>"

definition ljh3_kind :: "Writer3 \<Rightarrow> Writer3" where
  "ljh3_kind w = w\<lparr>w3Writer := None, w3RecordsWritten := 0\<rparr>"

definition off_kind :: "off_Writer \<Rightarrow> off_Writer" where
  "off_kind w = w\<lparr>oWriter := None, oRecordsWritten := 0\<rparr>"

definition subframe_of :: "ljh_Writer \<Rightarrow> data_record \<Rightarrow> int" where
  "subframe_of w rec = to_int64 (to_int64 (trigFrame rec * wSubframeDivisions w) + wSubframeOffset w)"

definition ljh_layout :: "ljh_Writer \<Rightarrow> data_record \<Rightarrow> u8 list" where
  "ljh_layout w rec = FromInt64 (subframe_of w rec) @ FromInt64 (quot_int (trigTime rec) 1000)
     @ FromSliceUint16 (recData rec)"

definition ljh3_layout :: "Writer3 \<Rightarrow> data_record \<Rightarrow> u8 list" where
  "ljh3_layout w rec = FromInt32 (int (length (recData rec))) @ FromInt32 (to_int32 (presamples rec + 1))
     @ FromInt64 (trigFrame rec) @ FromInt64 (quot_int (trigTime rec) 1000) @ FromSliceUint16 (recData rec)"

definition off_layout :: "off_Writer \<Rightarrow> data_record \<Rightarrow> u8 list" where
  "off_layout w rec = concat (off_record_chunks (to_int32 (int (length (recData rec)))) (to_int32 (presamples rec))
     (trigFrame rec) (trigTime rec) (to_f32 (pretrigMean rec)) (to_f32 (pretrigDelta rec))
     (to_f32 (residualStdDev rec)) (map to_f32 (modelCoefs rec)))"

lemma kind_simps [simp]:
  "wSamples (ljh_kind w) = wSamples w" "FileName (ljh_kind w) = FileName w"
  "ljh_layout (ljh_kind w) = ljh_layout w" "subframe_of (ljh_kind w) = subframe_of w"
  "w3FileName (ljh3_kind x) = w3FileName x" "ljh3_layout (ljh3_kind x) = ljh3_layout x"
  "oFileName (off_kind y) = oFileName y" "off_layout (off_kind y) = off_layout y"
  "NumberOfBases (off_kind y) = NumberOfBases y"
  by (simp_all add: ljh_kind_def ljh_layout_def ljh3_kind_def ljh3_layout_def off_kind_def off_layout_def
      subframe_of_def fun_eq_iff)

lemma kind_fields:
  "ljh_kind a = ljh_kind b \<Longrightarrow> wSamples a = wSamples b \<and> FileName a = FileName b \<and> wHeaderWritten a = wHeaderWritten b"
  "ljh3_kind x = ljh3_kind y \<Longrightarrow> w3FileName x = w3FileName y \<and> w3HeaderWritten x = w3HeaderWritten y"
  "off_kind u = off_kind v \<Longrightarrow> NumberOfBases u = NumberOfBases v \<and> oFileName u = oFileName v \<and> oHeaderWritten u = oHeaderWritten v"
  by (auto simp: ljh_kind_def ljh3_kind_def off_kind_def dest: arg_cong [where f = wSamples] arg_cong [where f = FileName]
      arg_cong [where f = wHeaderWritten] arg_cong [where f = w3FileName] arg_cong [where f = w3HeaderWritten]
      arg_cong [where f = NumberOfBases] arg_cong [where f = oFileName] arg_cong [where f = oHeaderWritten])

lemma rawTypeToUint16_id [simp]: "rawTypeToUint16 d = d"
  by (simp add: rawTypeToUint16_def)

interpretation ljh_file: record_file wWriter "\<lambda>w. room env (FileName w)" ljh_kind "record_ljh22 env"
  ljh_layout "\<lambda>w rec. int (length (recData rec)) = wSamples w" wRecordsWritten
  for env
proof
  fix w f and rec :: data_record
  assume a: "wWriter w = Some f" "room_from (room env (FileName (ljh_kind w))) f"
    "int (length (recData rec)) = wSamples (ljh_kind w)"
  obtain f' where "write_chunks (room env (FileName w)) f
      [FromInt64 (subframe_of w rec), FromInt64 (quot_int (trigTime rec) 1000), FromSliceUint16 (recData rec)] = (f', True)"
    "accepted f' = accepted f @ [FromInt64 (subframe_of w rec), FromInt64 (quot_int (trigTime rec) 1000), FromSliceUint16 (recData rec)]"
    "room_from (room env (FileName w)) f'"
    using write_chunks_room a(2) kind_simps(2) by metis
  then show "\<exists>w' f'. record_ljh22 env w rec = Inr w' \<and> wWriter w' = Some f'
      \<and> room_from (room env (FileName (ljh_kind w))) f' \<and> ljh_kind w' = ljh_kind w
      \<and> concat (accepted f') = concat (accepted f) @ ljh_layout (ljh_kind w) rec
      \<and> wRecordsWritten w' = wRecordsWritten w + 1"
    using a
    by (simp add: record_ljh22_def WriteRecord_def Let_def ljh_kind_def ljh_layout_def subframe_of_def
        del: write_chunks.simps)
qed

interpretation ljh3_file: record_file w3Writer "\<lambda>w. room env (w3FileName w)" ljh3_kind "record_ljh3 env"
  ljh3_layout "\<lambda>_ _. True" w3RecordsWritten
  for env
proof
  fix w f and rec :: data_record
  assume a: "w3Writer w = Some f" "room_from (room env (w3FileName (ljh3_kind w))) f"
  let ?cs = "[FromInt32 (int (length (recData rec))), FromInt32 (to_int32 (presamples rec + 1)),
     FromInt64 (trigFrame rec), FromInt64 (quot_int (trigTime rec) 1000), FromSliceUint16 (recData rec)]"
  obtain f' where "write_chunks (room env (w3FileName w)) f ?cs = (f', True)" "accepted f' = accepted f @ ?cs"
    "room_from (room env (w3FileName w)) f'"
    using write_chunks_room a(2) kind_simps(5) by metis
  then show "\<exists>w' f'. record_ljh3 env w rec = Inr w' \<and> w3Writer w' = Some f'
      \<and> room_from (room env (w3FileName (ljh3_kind w))) f' \<and> ljh3_kind w' = ljh3_kind w
      \<and> concat (accepted f') = concat (accepted f) @ ljh3_layout (ljh3_kind w) rec
      \<and> w3RecordsWritten w' = w3RecordsWritten w + 1"
    using a
    by (simp add: record_ljh3_def WriteRecord3_def Let_def ljh3_kind_def ljh3_layout_def del: write_chunks.simps)
qed

definition put_off :: "file_env \<Rightarrow> off_Writer \<Rightarrow> data_record \<Rightarrow> off_Writer go" where
  "put_off env w rec = bind_go (record_off env w rec) (\<lambda>(w1, _). Inr w1)"

lemma record_off_room:
  assumes "oWriter w = Some f" "room_from (room env (oFileName w)) f"
    "int (length (modelCoefs rec)) = NumberOfBases w"
  shows "\<exists>w' f'. record_off env w rec = Inr (w', None) \<and> oWriter w' = Some f'
      \<and> room_from (room env (oFileName w)) f' \<and> off_kind w' = off_kind w
      \<and> concat (accepted f') = concat (accepted f) @ off_layout w rec
      \<and> oRecordsWritten w' = oRecordsWritten w + 1"
proof -
  let ?cs = "off_record_chunks (to_int32 (int (length (recData rec)))) (to_int32 (presamples rec))
     (trigFrame rec) (trigTime rec) (to_f32 (pretrigMean rec)) (to_f32 (pretrigDelta rec))
     (to_f32 (residualStdDev rec)) (map to_f32 (modelCoefs rec))"
  obtain f' where "write_chunks (room env (oFileName w)) f ?cs = (f', True)" "accepted f' = accepted f @ ?cs"
    "room_from (room env (oFileName w)) f'"
    using write_chunks_room [OF assms(2)] by metis
  then show ?thesis using assms(1,3)
    by (simp add: record_off_def WriteRecordOFF_def Let_def off_kind_def off_layout_def del: write_chunks.simps)
qed

interpretation off_file: record_file oWriter "\<lambda>w. room env (oFileName w)" off_kind "put_off env"
  off_layout "\<lambda>w rec. int (length (modelCoefs rec)) = NumberOfBases w" oRecordsWritten
  for env
proof
  fix w f and rec :: data_record
  assume a: "oWriter w = Some f" "room_from (room env (oFileName (off_kind w))) f"
    "int (length (modelCoefs rec)) = NumberOfBases (off_kind w)"
  then show "\<exists>w' f'. put_off env w rec = Inr w' \<and> oWriter w' = Some f'
      \<and> room_from (room env (oFileName (off_kind w))) f' \<and> off_kind w' = off_kind w
      \<and> concat (accepted f') = concat (accepted f) @ off_layout (off_kind w) rec
      \<and> oRecordsWritten w' = oRecordsWritten w + 1"
    using record_off_room [of w f env rec] by (auto simp: put_off_def)
qed

text \<open>The loop over the OFF records stops at the first error; without errors it is the plain loop.\<close>

lemma records_off_room:
  assumes "oWriter w = Some f" "room_from (room env (oFileName w)) f"
    "\<forall>rec\<in>set recs. int (length (modelCoefs rec)) = NumberOfBases w"
  shows "bind_go (records_off env w recs) (\<lambda>r. Inr (fst r)) = foldM_go (put_off env) w recs
    \<and> (\<exists>w'. records_off env w recs = Inr (w', None))"
  using assms
proof (induction recs arbitrary: w f)
  case (Cons rec recs)
  obtain w1 f1 where 1: "record_off env w rec = Inr (w1, None)" "oWriter w1 = Some f1"
      "room_from (room env (oFileName w)) f1" "off_kind w1 = off_kind w"
    using record_off_room [OF Cons.prems(1,2), of rec] Cons.prems(3) by auto
  have "oFileName w1 = oFileName w" "NumberOfBases w1 = NumberOfBases w"
    using 1(4) kind_simps(7,9) by metis+
  then show ?case using Cons.IH [OF 1(2)] Cons.prems(3) 1 by (simp add: put_off_def)
qed simp

subsection \<open>Reading LJH records back\<close>

fun read_pulses :: "nat \<Rightarrow> nat \<Rightarrow> u8 list \<Rightarrow> (PulseRecord list \<times> u8 list) option" where
  "read_pulses 0 samples rd = Some ([], rd)"
| "read_pulses (Suc n) samples rd = (case NextPulse samples rd of
     (Inr p, rd) \<Rightarrow> map_option (\<lambda>(ps, r). (p # ps, r)) (read_pulses n samples rd)
   | (Inl e, rd) \<Rightarrow> None)"

definition pulse_of :: "ljh_Writer \<Rightarrow> data_record \<Rightarrow> PulseRecord" where
  "pulse_of w rec = \<lparr>TimeCode = quot_int (trigTime rec) 1000, SubframeCount = subframe_of w rec,
     Pulse = recData rec\<rparr>"

lemma binary_read_append: "length a = n \<Longrightarrow> binary_read n (a @ b) = (Inr a, b)"
  by (simp add: binary_read_def)

lemma int64_codec [simp]: "signed_of_le (FromInt64 i) = i" if "int_in 8 i"
  using codec_i64.dec_enc that by blast

lemma to_int64_in: "int_in 8 (to_int64 i)"
  using signed_take_bit_int_greater_eq_minus_exp [of 63 i] signed_take_bit_int_less_exp [of 63 i]
  by (simp add: to_int64_def int_in_def)

lemma lengths [simp]: "length (FromInt64 i) = 8" "length (FromSliceUint16 d) = 2 * length d"
  using codec_u16.length_enc_all [of d] by (simp_all add: FromInt64_def FromSliceUint16_def slice_bytes_eq)

lemma u16_view [simp]: "codec_u16.dec_all (length d) (FromSliceUint16 d) = d"
  using codec_u16.dec_all_enc [of d "[]"] by (simp add: FromSliceUint16_def slice_bytes_eq)

lemma NextPulse_layout:
  assumes "int_in 8 (quot_int (trigTime rec) 1000)"
  shows "NextPulse (length (recData rec)) (ljh_layout w rec @ rest) = (Inr (pulse_of w rec), rest)"
  using assms
  by (simp add: NextPulse_def ljh_layout_def binary_read_append pulse_of_def subframe_of_def to_int64_in)

text \<open>
  C24: LJH records come back: a batch of records of the file's length written while the channel has
  room is counted in full, and reading on from where the batch starts in the file gives exactly
  these records, with time in microseconds, subframe count and samples, and stops at its end.
\<close>

theorem ljh_records_read_back:
  assumes "wWriter w = Some f" "room_from (room env (FileName w)) f"
    "\<forall>rec\<in>set recs. int (length (recData rec)) = wSamples w \<and> int_in 8 (quot_int (trigTime rec) 1000)"
  shows "\<exists>w' f' new. foldM_go (record_ljh22 env) w recs = Inr w' \<and> wWriter w' = Some f'
    \<and> wRecordsWritten w' = wRecordsWritten w + int (length recs)
    \<and> concat (accepted f') = concat (accepted f) @ new
    \<and> (\<forall>rest. read_pulses (length recs) (nat (wSamples w)) (new @ rest) = Some (map (pulse_of w) recs, rest))"
proof -
  have "room_from (room env (FileName (ljh_kind w))) f"
    "\<forall>rec\<in>set recs. int (length (recData rec)) = wSamples (ljh_kind w)" using assms by simp_all
  then obtain w' f' where w': "foldM_go (record_ljh22 env) w recs = Inr w'" "wWriter w' = Some f'"
      "concat (accepted f') = concat (accepted f) @ concat (map (ljh_layout (ljh_kind w)) recs)"
      "wRecordsWritten w' = wRecordsWritten w + int (length recs)"
    using ljh_file.put_all [OF assms(1)] by blast
  have "read_pulses (length recs) (nat (wSamples w)) (concat (map (ljh_layout w) recs) @ rest)
      = Some (map (pulse_of w) recs, rest)" for rest
    using assms(3)
  proof (induction recs)
    case (Cons rec recs)
    then have "nat (wSamples w) = length (recData rec)" by auto
    then have "NextPulse (nat (wSamples w)) (ljh_layout w rec @ concat (map (ljh_layout w) recs) @ rest)
        = (Inr (pulse_of w rec), concat (map (ljh_layout w) recs) @ rest)"
      using NextPulse_layout Cons.prems by simp
    then show ?case using Cons by simp
  qed simp
  then show ?thesis using w' by (intro exI [of _ w'] exI [of _ f'] exI [of _ "concat (map (ljh_layout w) recs)"]) simp
qed

subsection \<open>Publishing a batch\<close>

text \<open>
  A writer is ready when its file is open with its header in it, or can be opened now; in both cases
  the channel has room from here on.  \<open>after_ljh22\<close> and its kin are the bytes the file then holds.
\<close>

definition ready_ljh22 :: "file_env \<Rightarrow> data_record list \<Rightarrow> ljh_Writer \<Rightarrow> bool" where
  "ready_ljh22 env recs w \<longleftrightarrow> (\<forall>rec\<in>set recs. int (length (recData rec)) = wSamples w)
     \<and> (if wHeaderWritten w then \<exists>f. wWriter w = Some f \<and> room_from (room env (FileName w)) f
        else \<not> wFile w \<and> can_create env (FileName w) \<and> room_from (room env (FileName w)) new_file)"

definition after_ljh22 :: "file_env \<Rightarrow> data_record list \<Rightarrow> ljh_Writer \<Rightarrow> u8 list" where
  "after_ljh22 env recs w =
     (if wHeaderWritten w then bytes_of (wWriter w) else text_bytes (header_text env w (trigTime (hd recs))))
       @ concat (map (ljh_layout w) recs)"

lemma publish_ljh22_room:
  assumes "ready_ljh22 env recs w" "recs \<noteq> []"
  shows "\<exists>w'. publish_ljh22 env recs w = Inr (w', None) \<and> bytes_of (wWriter w') = after_ljh22 env recs w
    \<and> wRecordsWritten w' = wRecordsWritten w + int (length recs)
    \<and> (\<forall>recs'. ready_ljh22 env recs' w \<longrightarrow> ready_ljh22 env recs' w')"
proof -
  have all: "\<exists>w'. foldM_go (record_ljh22 env) v recs = Inr w'
      \<and> bytes_of (wWriter w') = bytes_of (wWriter v) @ concat (map (ljh_layout w) recs)
      \<and> wRecordsWritten w' = wRecordsWritten v + int (length recs)
      \<and> (wHeaderWritten v \<longrightarrow> (\<forall>recs'. ready_ljh22 env recs' w \<longrightarrow> ready_ljh22 env recs' w'))"
    if "wWriter v = Some f" "room_from (room env (FileName w)) f" "wSamples v = wSamples w"
      "FileName v = FileName w" "ljh_layout v = ljh_layout w" for v f
  proof -
    have "room_from (room env (FileName (ljh_kind v))) f"
      "\<forall>rec\<in>set recs. int (length (recData rec)) = wSamples (ljh_kind v)"
      using that assms(1) by (simp_all add: ready_ljh22_def)
    from ljh_file.put_all [OF that(1) this] obtain w' f' where
      p: "foldM_go (record_ljh22 env) v recs = Inr w'" "wWriter w' = Some f'"
        "room_from (room env (FileName (ljh_kind v))) f'" "ljh_kind w' = ljh_kind v"
        "concat (accepted f') = concat (accepted f) @ concat (map (ljh_layout (ljh_kind v)) recs)"
        "wRecordsWritten w' = wRecordsWritten v + int (length recs)" by blast
    note k = kind_fields(1) [OF p(4)]
    have "wHeaderWritten v \<longrightarrow> (\<forall>recs'. ready_ljh22 env recs' w \<longrightarrow> ready_ljh22 env recs' w')"
      using p(2,3) k that(3,4) by (simp add: ready_ljh22_def)
    then show ?thesis using p that by (simp add: bytes_of_def)
  qed
  show ?thesis
  proof (cases "wHeaderWritten w")
    case True
    then obtain f where "wWriter w = Some f" "room_from (room env (FileName w)) f"
      using assms(1) by (auto simp: ready_ljh22_def)
    from all [OF this refl refl refl] show ?thesis using True by (auto simp: publish_ljh22_def after_ljh22_def)
  next
    case False
    let ?h = "text_bytes (header_text env w (trigTime (hd recs)))"
    let ?f = "\<lparr>accepted = [?h], attempts = 1\<rparr>"
    let ?v = "w\<lparr>wFile := True, wWriter := Some ?f, wHeaderWritten := True\<rparr>"
    have r: "\<not> wFile w" "can_create env (FileName w)" "room_from (room env (FileName w)) new_file"
      using False assms(1) by (simp_all add: ready_ljh22_def)
    have ok: "room env (FileName w) 0" "room_from (room env (FileName w)) ?f"
      using r(3) by (simp_all add: room_from_def new_file_def)
    have "header_text env (w\<lparr>wFile := True, wWriter := Some new_file\<rparr>) t = header_text env w t" for t
      by (simp only: header_text_def) simp
    then have "publish_ljh22 env recs w = bind_go (foldM_go (record_ljh22 env) ?v recs) (\<lambda>w2. Inr (w2, None))"
      using False r(1,2) ok(1) assms(2)
      by (simp add: publish_ljh22_def CreateFile_def WriteHeader_def aw_write_def new_file_def Let_def hd_conv_nth)
    moreover have "ljh_layout ?v = ljh_layout w" by (simp add: ljh_layout_def subframe_of_def fun_eq_iff)
    ultimately show ?thesis using all [of ?v ?f] ok(2) False
      by (auto simp: after_ljh22_def bytes_of_def)
  qed
qed

definition ready_ljh3 :: "file_env \<Rightarrow> Writer3 \<Rightarrow> bool" where
  "ready_ljh3 env w \<longleftrightarrow>
     (if w3HeaderWritten w then \<exists>f. w3Writer w = Some f \<and> room_from (room env (w3FileName w)) f
      else \<not> w3File w \<and> can_create env (w3FileName w) \<and> room_from (room env (w3FileName w)) new_file)"

definition after_ljh3 :: "(ljh3_Header \<Rightarrow> string) \<Rightarrow> data_record list \<Rightarrow> Writer3 \<Rightarrow> u8 list" where
  "after_ljh3 marshal recs w =
     (if w3HeaderWritten w then bytes_of (w3Writer w) else text_bytes (marshal (header_of w)) @ text_bytes nl)
       @ concat (map (ljh3_layout w) recs)"

lemma publish_ljh3_room:
  assumes "ready_ljh3 env w"
  shows "\<exists>w'. publish_ljh3 marshal env recs w = Inr (w', None) \<and> bytes_of (w3Writer w') = after_ljh3 marshal recs w
    \<and> w3RecordsWritten w' = w3RecordsWritten w + int (length recs) \<and> ready_ljh3 env w'"
proof -
  have all: "\<exists>w'. foldM_go (record_ljh3 env) v recs = Inr w'
      \<and> bytes_of (w3Writer w') = bytes_of (w3Writer v) @ concat (map (ljh3_layout w) recs)
      \<and> w3RecordsWritten w' = w3RecordsWritten v + int (length recs)
      \<and> (w3HeaderWritten v \<longrightarrow> ready_ljh3 env w')"
    if "w3Writer v = Some f" "room_from (room env (w3FileName w)) f"
      "w3FileName v = w3FileName w" "ljh3_layout v = ljh3_layout w" for v f
  proof -
    have "room_from (room env (w3FileName (ljh3_kind v))) f" using that by simp
    from ljh3_file.put_all [OF that(1) this, of recs] obtain w' f' where
      p: "foldM_go (record_ljh3 env) v recs = Inr w'" "w3Writer w' = Some f'"
        "room_from (room env (w3FileName (ljh3_kind v))) f'" "ljh3_kind w' = ljh3_kind v"
        "concat (accepted f') = concat (accepted f) @ concat (map (ljh3_layout (ljh3_kind v)) recs)"
        "w3RecordsWritten w' = w3RecordsWritten v + int (length recs)" by blast
    note k = kind_fields(2) [OF p(4)]
    have "w3HeaderWritten v \<longrightarrow> ready_ljh3 env w'"
      using p(2,3) k that(3) by (simp add: ready_ljh3_def)
    then show ?thesis using p that by (simp add: bytes_of_def)
  qed
  show ?thesis
  proof (cases "w3HeaderWritten w")
    case True
    then obtain f where "w3Writer w = Some f" "room_from (room env (w3FileName w)) f"
      using assms by (auto simp: ready_ljh3_def)
    from all [OF this refl refl] show ?thesis using True by (auto simp: publish_ljh3_def after_ljh3_def)
  next
    case False
    let ?h = "[text_bytes (marshal (header_of w)), text_bytes nl]"
    let ?f = "\<lparr>accepted = ?h, attempts = 2\<rparr>"
    let ?v = "w\<lparr>w3File := True, w3Writer := Some ?f, w3HeaderWritten := True\<rparr>"
    have r: "\<not> w3File w" "can_create env (w3FileName w)" "room_from (room env (w3FileName w)) new_file"
      using False assms by (simp_all add: ready_ljh3_def)
    have ok: "room env (w3FileName w) 0" "room env (w3FileName w) (Suc 0)" "room_from (room env (w3FileName w)) ?f"
      using r(3) by (simp_all add: room_from_def new_file_def)
    have "header_of (w\<lparr>w3File := True, w3Writer := Some new_file\<rparr>) = header_of w" by (simp add: header_of_def)
    then have "publish_ljh3 marshal env recs w = bind_go (foldM_go (record_ljh3 env) ?v recs) (\<lambda>w2. Inr (w2, None))"
      using False r(1,2) ok(1,2)
      by (simp add: publish_ljh3_def CreateFile3_def WriteHeader3_def aw_write_def new_file_def Let_def numeral_2_eq_2)
    moreover have "ljh3_layout ?v = ljh3_layout w" by (simp add: ljh3_layout_def fun_eq_iff)
    ultimately show ?thesis using all [of ?v ?f] ok(3) False
      by (auto simp: after_ljh3_def bytes_of_def)
  qed
qed

definition ready_off :: "(off_Writer \<Rightarrow> string option) \<Rightarrow> file_env \<Rightarrow> data_record list \<Rightarrow> off_Writer \<Rightarrow> bool" where
  "ready_off marshal env recs w \<longleftrightarrow> (\<forall>rec\<in>set recs. int (length (modelCoefs rec)) = NumberOfBases w)
     \<and> (if oHeaderWritten w then \<exists>f. oWriter w = Some f \<and> room_from (room env (oFileName w)) f
        else \<not> oFile w \<and> can_create env (oFileName w) \<and> room_from (room env (oFileName w)) new_file
          \<and> marshal (w\<lparr>oFile := True, oWriter := Some new_file\<rparr>) \<noteq> None)"

definition off_header :: "(off_Writer \<Rightarrow> string option) \<Rightarrow> off_Writer \<Rightarrow> u8 list" where
  "off_header marshal w = text_bytes (the (marshal (w\<lparr>oFile := True, oWriter := Some new_file\<rparr>))) @ text_bytes nl
     @ FromSliceFloat64 (mdata (projectorsMat (oModelInfo w))) @ FromSliceFloat64 (mdata (basisMat (oModelInfo w)))"

definition after_off :: "(off_Writer \<Rightarrow> string option) \<Rightarrow> data_record list \<Rightarrow> off_Writer \<Rightarrow> u8 list" where
  "after_off marshal recs w = (if oHeaderWritten w then bytes_of (oWriter w) else off_header marshal w)
       @ concat (map (off_layout w) recs)"

lemma publish_off_room:
  assumes "ready_off marshal env recs w"
  shows "\<exists>w'. publish_off marshal env recs w = Inr (w', None) \<and> bytes_of (oWriter w') = after_off marshal recs w
    \<and> oRecordsWritten w' = oRecordsWritten w + int (length recs)
    \<and> (\<forall>recs'. ready_off marshal env recs' w \<longrightarrow> ready_off marshal env recs' w')"
proof -
  have all: "\<exists>w'. records_off env v recs = Inr (w', None)
      \<and> bytes_of (oWriter w') = bytes_of (oWriter v) @ concat (map (off_layout w) recs)
      \<and> oRecordsWritten w' = oRecordsWritten v + int (length recs)
      \<and> (oHeaderWritten v \<longrightarrow> (\<forall>recs'. ready_off marshal env recs' w \<longrightarrow> ready_off marshal env recs' w'))"
    if v: "oWriter v = Some f" "room_from (room env (oFileName w)) f" "oFileName v = oFileName w"
      "NumberOfBases v = NumberOfBases w" "off_layout v = off_layout w" for v f
  proof -
    have c: "\<forall>rec\<in>set recs. int (length (modelCoefs rec)) = NumberOfBases v" "room_from (room env (oFileName v)) f"
      using assms v by (simp_all add: ready_off_def)
    have "room_from (room env (oFileName (off_kind v))) f"
      "\<forall>rec\<in>set recs. int (length (modelCoefs rec)) = NumberOfBases (off_kind v)" using c by simp_all
    from off_file.put_all [OF v(1) this] obtain w' f' where
      p: "foldM_go (put_off env) v recs = Inr w'" "oWriter w' = Some f'"
        "room_from (room env (oFileName (off_kind v))) f'" "off_kind w' = off_kind v"
        "concat (accepted f') = concat (accepted f) @ concat (map (off_layout (off_kind v)) recs)"
        "oRecordsWritten w' = oRecordsWritten v + int (length recs)" by blast
    note k = kind_fields(3) [OF p(4)]
    have "oHeaderWritten v \<longrightarrow> (\<forall>recs'. ready_off marshal env recs' w \<longrightarrow> ready_off marshal env recs' w')"
      using p(2,3) k v(3,4) by (simp add: ready_off_def)
    moreover have "records_off env v recs = Inr (w', None)"
      using records_off_room [OF v(1) c(2,1)] p(1) by auto
    ultimately show ?thesis using p v by (simp add: bytes_of_def)
  qed
  show ?thesis
  proof (cases "oHeaderWritten w")
    case True
    then obtain f where "oWriter w = Some f" "room_from (room env (oFileName w)) f"
      using assms by (auto simp: ready_off_def)
    from all [OF this refl refl refl] show ?thesis using True by (auto simp: publish_off_def after_off_def)
  next
    case False
    let ?w0 = "w\<lparr>oFile := True, oWriter := Some new_file\<rparr>"
    obtain s where s: "marshal ?w0 = Some s" using False assms by (auto simp: ready_off_def)
    let ?h = "[text_bytes s, text_bytes nl, FromSliceFloat64 (mdata (projectorsMat (oModelInfo w))),
      FromSliceFloat64 (mdata (basisMat (oModelInfo w)))]"
    let ?f = "\<lparr>accepted = ?h, attempts = 4\<rparr>"
    let ?v = "w\<lparr>oFile := True, oWriter := Some ?f, oHeaderWritten := True\<rparr>"
    have r: "\<not> oFile w" "can_create env (oFileName w)" "room_from (room env (oFileName w)) new_file"
      using False assms by (simp_all add: ready_off_def)
    have ok: "\<And>k. room env (oFileName w) k" "room_from (room env (oFileName w)) ?f"
      using r(3) by (simp_all add: room_from_def new_file_def)
    have four: "Suc (Suc (Suc (Suc 0))) = 4" by simp
    have "write_chunks (room env (oFileName w)) new_file ?h = (?f, True)"
      by (simp add: aw_write_def new_file_def ok(1) four)
    then have "publish_off marshal env recs w = records_off env ?v recs"
      using False r(1,2) s
      by (simp add: publish_off_def CreateFileOFF_def WriteHeaderOFF_def Let_def del: write_chunks.simps)
    moreover have "off_layout ?v = off_layout w" by (simp add: off_layout_def fun_eq_iff)
    ultimately show ?thesis using all [of ?v ?f] ok(2) False
      by (auto simp: after_off_def off_header_def bytes_of_def s)
  qed
qed

definition ready :: "(off_Writer \<Rightarrow> string option) \<Rightarrow> file_env \<Rightarrow> data_record list \<Rightarrow> DataPublisher \<Rightarrow> bool" where
  "ready marshalOFF env recs dp \<longleftrightarrow> (\<forall>w. LJH22 dp = Some w \<longrightarrow> ready_ljh22 env recs w)
     \<and> (\<forall>w. LJH3 dp = Some w \<longrightarrow> ready_ljh3 env w) \<and> (\<forall>w. OFF dp = Some w \<longrightarrow> ready_off marshalOFF env recs w)"

lemma on_output_ok:
  assumes "\<And>x. w = Some x \<Longrightarrow> \<exists>y. f x = Inr (y, None) \<and> P x y"
  shows "\<exists>w'. on_output w f = Inr (w', None) \<and> rel_option P w w'"
proof (cases w)
  case (Some x)
  then obtain y where "f x = Inr (y, None)" "P x y" using assms by blast
  then show ?thesis using Some by (auto simp: on_output_def)
qed (simp add: on_output_def)

text \<open>What a published batch leaves behind on the sockets and in the files.\<close>

definition published ::
  "(ljh3_Header \<Rightarrow> string) \<Rightarrow> (off_Writer \<Rightarrow> string option) \<Rightarrow> file_env \<Rightarrow> DataPublisher \<Rightarrow> data_record list
   \<Rightarrow> DataPublisher \<Rightarrow> bool" where
  "published marshal3 marshalOFF env dp records dp' \<longleftrightarrow>
    pubRecordsChan dp' = map_option (\<lambda>q. q @ [records]) (pubRecordsChan dp)
    \<and> pubSummariesChan dp' = map_option (\<lambda>q. q @ [records]) (pubSummariesChan dp)
    \<and> (if WritingPaused dp
       then (LJH22 dp', LJH3 dp', OFF dp', numberWritten dp') = (LJH22 dp, LJH3 dp, OFF dp, numberWritten dp)
       else rel_option (\<lambda>w w'. bytes_of (wWriter w') = after_ljh22 env records w
              \<and> wRecordsWritten w' = wRecordsWritten w + int (length records)) (LJH22 dp) (LJH22 dp')
         \<and> rel_option (\<lambda>w w'. bytes_of (w3Writer w') = after_ljh3 marshal3 records w
              \<and> w3RecordsWritten w' = w3RecordsWritten w + int (length records)) (LJH3 dp) (LJH3 dp')
         \<and> rel_option (\<lambda>w w'. bytes_of (oWriter w') = after_off marshalOFF records w
              \<and> oRecordsWritten w' = oRecordsWritten w + int (length records)) (OFF dp) (OFF dp')
         \<and> numberWritten dp' = numberWritten dp + (if HasLJH22 dp \<or> HasLJH3 dp \<or> HasOFF dp then int (length records) else 0))"

lemma publish_outputs:
  assumes "records \<noteq> []" "ready marshalOFF env records dp"
  shows "\<exists>dp'. PublishData marshal3 marshalOFF env dp records = Inr (dp', None)
    \<and> published marshal3 marshalOFF env dp records dp'
    \<and> (\<forall>recs'. ready marshalOFF env recs' dp \<longrightarrow> ready marshalOFF env recs' dp')"
proof -
  let ?P = "\<lambda>w w'. bytes_of (wWriter w') = after_ljh22 env records w
              \<and> wRecordsWritten w' = wRecordsWritten w + int (length records)
              \<and> (\<forall>recs'. ready_ljh22 env recs' w \<longrightarrow> ready_ljh22 env recs' w')"
  let ?P3 = "\<lambda>w w'. bytes_of (w3Writer w') = after_ljh3 marshal3 records w
              \<and> w3RecordsWritten w' = w3RecordsWritten w + int (length records) \<and> ready_ljh3 env w'"
  let ?PO = "\<lambda>w w'. bytes_of (oWriter w') = after_off marshalOFF records w
              \<and> oRecordsWritten w' = oRecordsWritten w + int (length records)
              \<and> (\<forall>recs'. ready_off marshalOFF env recs' w \<longrightarrow> ready_off marshalOFF env recs' w')"
  have rd: "LJH22 dp = Some w \<Longrightarrow> ready_ljh22 env records w" "LJH3 dp = Some x \<Longrightarrow> ready_ljh3 env x"
    "OFF dp = Some y \<Longrightarrow> ready_off marshalOFF env records y" for w x y
    using assms(2) by (simp_all add: ready_def)
  have "\<exists>l22. on_output (LJH22 dp) (publish_ljh22 env records) = Inr (l22, None) \<and> rel_option ?P (LJH22 dp) l22"
    by (rule on_output_ok) (rule publish_ljh22_room [OF rd(1) assms(1)])
  then obtain l22 where l22: "on_output (LJH22 dp) (publish_ljh22 env records) = Inr (l22, None)"
    "rel_option ?P (LJH22 dp) l22" by blast
  have "\<exists>l3. on_output (LJH3 dp) (publish_ljh3 marshal3 env records) = Inr (l3, None) \<and> rel_option ?P3 (LJH3 dp) l3"
    by (rule on_output_ok) (rule publish_ljh3_room [OF rd(2)])
  then obtain l3 where l3: "on_output (LJH3 dp) (publish_ljh3 marshal3 env records) = Inr (l3, None)"
    "rel_option ?P3 (LJH3 dp) l3" by blast
  have "\<exists>lo. on_output (OFF dp) (publish_off marshalOFF env records) = Inr (lo, None) \<and> rel_option ?PO (OFF dp) lo"
    by (rule on_output_ok) (rule publish_off_room [OF rd(3)])
  then obtain lo where lo: "on_output (OFF dp) (publish_off marshalOFF env records) = Inr (lo, None)"
    "rel_option ?PO (OFF dp) lo" by blast
  show ?thesis
  proof (cases "WritingPaused dp \<or> \<not> (HasLJH22 dp \<or> HasLJH3 dp \<or> HasOFF dp)")
    case True
    then show ?thesis using assms(1) by (auto simp: published_def ready_def PublishData_def Let_def HasLJH22_def HasLJH3_def HasOFF_def)
  next
    case False
    define dp' where "dp' = dp\<lparr>pubRecordsChan := map_option (\<lambda>q. q @ [records]) (pubRecordsChan dp),
      pubSummariesChan := map_option (\<lambda>q. q @ [records]) (pubSummariesChan dp),
      LJH22 := l22, LJH3 := l3, OFF := lo, numberWritten := numberWritten dp + int (length records)\<rparr>"
    have run: "PublishData marshal3 marshalOFF env dp records = Inr (dp', None)"
      using False assms(1) l22(1) l3(1) lo(1)
      by (simp add: PublishData_def Let_def HasLJH22_def HasLJH3_def HasOFF_def dp'_def)
    have weak: "rel_option (\<lambda>w w'. bytes_of (wWriter w') = after_ljh22 env records w
          \<and> wRecordsWritten w' = wRecordsWritten w + int (length records)) (LJH22 dp) l22"
      "rel_option (\<lambda>w w'. bytes_of (w3Writer w') = after_ljh3 marshal3 records w
          \<and> w3RecordsWritten w' = w3RecordsWritten w + int (length records)) (LJH3 dp) l3"
      "rel_option (\<lambda>w w'. bytes_of (oWriter w') = after_off marshalOFF records w
          \<and> oRecordsWritten w' = oRecordsWritten w + int (length records)) (OFF dp) lo"
      by (rule option.rel_mono_strong [OF l22(2)], simp) (rule option.rel_mono_strong [OF l3(2)], simp,
        rule option.rel_mono_strong [OF lo(2)], simp)
    have pub: "published marshal3 marshalOFF env dp records dp'"
      using False weak by (simp add: published_def dp'_def)
    have rdy: "ready marshalOFF env recs' dp'" if "ready marshalOFF env recs' dp" for recs'
    proof -
      have "ready_ljh22 env recs' w" if "l22 = Some w" for w
        using l22(2) that \<open>ready marshalOFF env recs' dp\<close> by (cases "LJH22 dp") (auto simp: ready_def)
      moreover have "ready_ljh3 env w" if "l3 = Some w" for w
        using l3(2) that by (cases "LJH3 dp") auto
      moreover have "ready_off marshalOFF env recs' w" if "lo = Some w" for w
        using lo(2) that \<open>ready marshalOFF env recs' dp\<close> by (cases "OFF dp") (auto simp: ready_def)
      ultimately show ?thesis by (simp add: ready_def dp'_def)
    qed
    show ?thesis using run pub rdy by blast
  qed
qed

text \<open>
  A batch reaches every output: both sockets get the batch once; each active file then holds its
  earlier contents, or the header if this is its first batch, followed by the layout of every record
  in order, and counts them; and if writing is paused no file, writer or count changes.
\<close>

theorem publish_reaches_every_output:
  assumes "records \<noteq> []" "ready marshalOFF env records dp"
  shows "\<exists>dp'. PublishData marshal3 marshalOFF env dp records = Inr (dp', None)
    \<and> pubRecordsChan dp' = map_option (\<lambda>q. q @ [records]) (pubRecordsChan dp)
    \<and> pubSummariesChan dp' = map_option (\<lambda>q. q @ [records]) (pubSummariesChan dp)
    \<and> (if WritingPaused dp
       then (LJH22 dp', LJH3 dp', OFF dp', numberWritten dp') = (LJH22 dp, LJH3 dp, OFF dp, numberWritten dp)
       else rel_option (\<lambda>w w'. bytes_of (wWriter w') = after_ljh22 env records w
              \<and> wRecordsWritten w' = wRecordsWritten w + int (length records)) (LJH22 dp) (LJH22 dp')
         \<and> rel_option (\<lambda>w w'. bytes_of (w3Writer w') = after_ljh3 marshal3 records w
              \<and> w3RecordsWritten w' = w3RecordsWritten w + int (length records)) (LJH3 dp) (LJH3 dp')
         \<and> rel_option (\<lambda>w w'. bytes_of (oWriter w') = after_off marshalOFF records w
              \<and> oRecordsWritten w' = oRecordsWritten w + int (length records)) (OFF dp) (OFF dp')
         \<and> numberWritten dp' = numberWritten dp + (if HasLJH22 dp \<or> HasLJH3 dp \<or> HasOFF dp then int (length records) else 0))"
  using publish_outputs [OF assms, of marshal3] unfolding published_def by blast

subsection \<open>What a full channel does\<close>

text \<open>
  A refused write tears a record and nobody notices: if the channel takes the first field of a
  record and refuses the second, the publisher reports no error and counts the record as written,
  the file keeps the lone subframe count, and the reader takes the next record's subframe count for
  the time of the torn one.
\<close>

theorem torn_record_misread:
  assumes "LJH22 dp = Some w" "LJH3 dp = None" "OFF dp = None" "\<not> WritingPaused dp" "wHeaderWritten w"
    "wWriter w = Some f" "room env (FileName w) (attempts f)" "\<not> room env (FileName w) (Suc (attempts f))"
    "\<forall>k\<ge>attempts f + 2. room env (FileName w) k"
    "int (length (recData r1)) = wSamples w" "int (length (recData r2)) = wSamples w"
  shows "\<exists>dp' w' f'. PublishData marshal3 marshalOFF env dp [r1, r2] = Inr (dp', None)
    \<and> numberWritten dp' = numberWritten dp + 2
    \<and> LJH22 dp' = Some w' \<and> wRecordsWritten w' = wRecordsWritten w + 1 \<and> wWriter w' = Some f'
    \<and> concat (accepted f') = concat (accepted f) @ FromInt64 (subframe_of w r1) @ ljh_layout w r2
    \<and> (\<exists>pulse rest. NextPulse (nat (wSamples w)) (FromInt64 (subframe_of w r1) @ ljh_layout w r2)
         = (Inr \<lparr>TimeCode = subframe_of w r2, SubframeCount = subframe_of w r1, Pulse = pulse\<rparr>, rest))"
proof -
  let ?f1 = "\<lparr>accepted = accepted f @ [FromInt64 (subframe_of w r1)], attempts = attempts f + 2\<rparr>"
  let ?w1 = "w\<lparr>wWriter := Some ?f1\<rparr>"
  have 1: "record_ljh22 env w r1 = Inr ?w1"
    using assms(6,7,8,10)
    by (simp add: record_ljh22_def WriteRecord_def Let_def aw_write_def subframe_of_def)
  have c: "wWriter ?w1 = Some ?f1" "room_from (room env (FileName (ljh_kind ?w1))) ?f1"
      "int (length (recData r2)) = wSamples (ljh_kind ?w1)"
    using assms(9,11) by (simp_all add: room_from_def)
  obtain w2 f2 where 2: "record_ljh22 env ?w1 r2 = Inr w2" "wWriter w2 = Some f2"
      "concat (accepted f2) = concat (accepted ?f1) @ ljh_layout ?w1 r2"
      "wRecordsWritten w2 = wRecordsWritten ?w1 + 1"
    using ljh_file.put_appends [OF c] by auto
  have l: "ljh_layout ?w1 r2 = ljh_layout w r2" by (simp add: ljh_layout_def subframe_of_def)
  have "PublishData marshal3 marshalOFF env dp [r1, r2]
    = Inr (dp\<lparr>pubRecordsChan := map_option (\<lambda>q. q @ [[r1, r2]]) (pubRecordsChan dp),
              pubSummariesChan := map_option (\<lambda>q. q @ [[r1, r2]]) (pubSummariesChan dp),
              LJH22 := Some w2, LJH3 := None, OFF := None, numberWritten := numberWritten dp + 2\<rparr>, None)"
    using assms(1-5) 1 2(1)
    by (simp add: PublishData_def Let_def HasLJH22_def on_output_def publish_ljh22_def)
  moreover have "NextPulse (nat (wSamples w)) (FromInt64 (subframe_of w r1) @ ljh_layout w r2)
      = (Inr \<lparr>TimeCode = subframe_of w r2, SubframeCount = subframe_of w r1,
            Pulse = codec_u16.dec_all (nat (wSamples w)) (take (2 * nat (wSamples w))
              (FromInt64 (quot_int (trigTime r2) 1000) @ FromSliceUint16 (recData r2)))\<rparr>,
         drop (2 * nat (wSamples w)) (FromInt64 (quot_int (trigTime r2) 1000) @ FromSliceUint16 (recData r2)))"
  proof -
    have "2 * nat (wSamples w) \<le> length (FromInt64 (quot_int (trigTime r2) 1000) @ FromSliceUint16 (recData r2))"
      using assms(11) by simp
    then have "binary_read (2 * nat (wSamples w)) (FromInt64 (quot_int (trigTime r2) 1000) @ FromSliceUint16 (recData r2))
      = (Inr (take (2 * nat (wSamples w)) (FromInt64 (quot_int (trigTime r2) 1000) @ FromSliceUint16 (recData r2))),
         drop (2 * nat (wSamples w)) (FromInt64 (quot_int (trigTime r2) 1000) @ FromSliceUint16 (recData r2)))"
      by (simp only: binary_read_def if_True)
    then show ?thesis
      by (simp only: NextPulse_def ljh_layout_def append_assoc binary_read_append [OF lengths(1)] prod.case sum.case)
        (simp add: subframe_of_def to_int64_in)
  qed
  ultimately show ?thesis using 2 l by simp
qed

text \<open>
  When the channel refuses the header of a new LJH3 file, the error is dropped, the file stays
  open without being marked, and the next batch fails with the error ``file already exists'', at
  which the caller panics.
\<close>

theorem refused_header_blocks_file:
  assumes "LJH22 dp = None" "LJH3 dp = Some w" "OFF dp = None" "\<not> WritingPaused dp" "\<not> w3HeaderWritten w"
    "\<not> w3File w" "can_create env (w3FileName w)" "\<not> room env (w3FileName w) 0" "r1 \<noteq> []" "r2 \<noteq> []"
  shows "\<exists>dp'. PublishData marshal3 marshalOFF env dp r1 = Inr (dp', None)
    \<and> (\<exists>dp''. PublishData marshal3 marshalOFF env dp' r2 = Inr (dp'', Some FileExists))"
proof -
  let ?w1 = "w\<lparr>w3File := True, w3Writer := Some \<lparr>accepted = [], attempts = 1\<rparr>\<rparr>"
  have rec: "\<exists>w'. foldM_go (record_ljh3 env) v rs = Inr w' \<and> w3File w' \<and> \<not> w3HeaderWritten w'"
    if "w3File v" "\<not> w3HeaderWritten v" "w3Writer v \<noteq> None" for v rs
    using that
  proof (induction rs arbitrary: v)
    case (Cons rec rs)
    then obtain f where f: "w3Writer v = Some f" by blast
    obtain f1 okay where c: "write_chunks (room env (w3FileName v)) f
      [FromInt32 (int (length (recData rec))), FromInt32 (to_int32 (presamples rec + 1)),
       FromInt64 (trigFrame rec), FromInt64 (quot_int (trigTime rec) 1000), FromSliceUint16 (recData rec)] = (f1, okay)"
      by fastforce
    obtain v1 where v1: "record_ljh3 env v rec = Inr v1" "w3File v1" "\<not> w3HeaderWritten v1" "w3Writer v1 \<noteq> None"
      using Cons.prems f c
      by (cases okay) (simp_all add: record_ljh3_def WriteRecord3_def Let_def del: write_chunks.simps)
    show ?case using Cons.IH [OF v1(2-4)] v1(1) by simp
  qed simp
  obtain w' where w': "foldM_go (record_ljh3 env) ?w1 r1 = Inr w'" "w3File w'" "\<not> w3HeaderWritten w'"
    using rec [of ?w1 r1] assms(5) by auto
  have "publish_ljh3 marshal3 env r1 w = Inr (w', None)"
    using w'(1) assms(5-8)
    by (simp add: publish_ljh3_def CreateFile3_def WriteHeader3_def new_file_def aw_write_def Let_def)
  moreover have "publish_ljh3 marshal3 env r2 w' = Inr (w', Some FileExists)"
    using w'(2,3) by (simp add: publish_ljh3_def CreateFile3_def)
  ultimately show ?thesis using assms(1-4,9,10)
    by (simp add: PublishData_def Let_def HasLJH3_def on_output_def)
qed

subsection \<open>Layout of the messages\<close>

lemma more_lengths [simp]:
  "length (FromUint8 a) = 1" "length (FromUint16 b) = 2" "length (FromUint32 c) = 4" "length (FromUint64 d) = 8"
  "length (FromFloat32 x) = 4" "length (FromInt32 i) = 4"
  by (simp_all add: FromUint8_def FromUint16_def FromUint32_def FromUint64_def FromFloat32_def FromInt32_def)

lemma field_values [simp]:
  "of_le (FromUint16 b) = uint b" "of_le (FromUint32 c) = uint c" "of_le (FromUint64 d) = uint d"
  using uint_lt2p [of b] uint_lt2p [of c] uint_lt2p [of d]
  by (simp_all add: FromUint16_def FromUint32_def FromUint64_def of_le_bytes)

lemma uint_of_nat: "uint (word_of_nat n :: 'a::len word) = int n mod 2 ^ LENGTH('a)"
  by (metis of_int_of_nat_eq uint_word_of_int)

text \<open>
  The header of a record message has 36 bytes and that of a summary 48, with the channel, the
  number of presamples and of samples, the time and the frame number at the documented offsets; the
  sample type is coded 2 for signed and 3 for unsigned, the second part of a record message is the
  raw samples, and the model coefficients of a summary are sent as float64, eight bytes each, and
  not as the float32 that the comment on the function promises.
\<close>

theorem message_layouts:
  "(\<exists>h. messageRecords rec = [h, rawTypeToBytes (recData rec)] \<and> length h = 36
      \<and> of_le (take 2 h) = recChannelIndex rec mod 2 ^ 16 \<and> h ! 3 = (if recSigned rec then 2 else 3)
      \<and> of_le (take 4 (drop 4 h)) = presamples rec mod 2 ^ 32
      \<and> of_le (take 4 (drop 8 h)) = int (length (recData rec)) mod 2 ^ 32
      \<and> take 8 (drop 20 h) = FromInt64 (trigTime rec) \<and> of_le (drop 28 h) = trigFrame rec mod 2 ^ 64)
    \<and> (\<exists>h c. messageSummaries rec = [h, c] \<and> length h = 48 \<and> length c = 8 * length (modelCoefs rec)
      \<and> of_le (take 2 h) = recChannelIndex rec mod 2 ^ 16
      \<and> of_le (take 4 (drop 4 h)) = presamples rec mod 2 ^ 32
      \<and> of_le (take 4 (drop 8 h)) = int (length (recData rec)) mod 2 ^ 32
      \<and> take 8 (drop 32 h) = FromInt64 (trigTime rec) \<and> drop 40 h = FromInt64 (trigFrame rec))"
proof (rule conjI)
  have u8: "FromUint8 b = [b]" for b by (simp add: FromUint8_def)
  show "\<exists>h. messageRecords rec = [h, rawTypeToBytes (recData rec)] \<and> length h = 36
      \<and> of_le (take 2 h) = recChannelIndex rec mod 2 ^ 16 \<and> h ! 3 = (if recSigned rec then 2 else 3)
      \<and> of_le (take 4 (drop 4 h)) = presamples rec mod 2 ^ 32
      \<and> of_le (take 4 (drop 8 h)) = int (length (recData rec)) mod 2 ^ 32
      \<and> take 8 (drop 20 h) = FromInt64 (trigTime rec) \<and> of_le (drop 28 h) = trigFrame rec mod 2 ^ 64"
    by (simp add: messageRecords_def uint_word_of_int nth_append u8 uint_of_nat)
next
  have "length (FromSliceFloat64 c) = 8 * length c" for c
    using codec_f64.length_enc_all [of c] by (simp add: FromSliceFloat64_def slice_bytes_eq)
  then show "\<exists>h c. messageSummaries rec = [h, c] \<and> length h = 48 \<and> length c = 8 * length (modelCoefs rec)
      \<and> of_le (take 2 h) = recChannelIndex rec mod 2 ^ 16
      \<and> of_le (take 4 (drop 4 h)) = presamples rec mod 2 ^ 32
      \<and> of_le (take 4 (drop 8 h)) = int (length (recData rec)) mod 2 ^ 32
      \<and> take 8 (drop 32 h) = FromInt64 (trigTime rec) \<and> drop 40 h = FromInt64 (trigFrame rec)"
    by (simp add: messageSummaries_def uint_word_of_int uint_of_nat)
qed

subsection \<open>Concrete writers\<close>

definition demo_env :: file_env where
  "demo_env = \<lparr>can_create = (\<lambda>_. True), room = (\<lambda>_ _. True), format_time = (\<lambda>_. ''now''),
     format_fixed6 = (\<lambda>_. ''0''), format_exponent = (\<lambda>_. ''0''), build_version = ''1'', build_githash = ''0''\<rparr>"

text \<open>A channel that takes the first write and refuses the second.\<close>

definition tearing_env :: file_env where
  "tearing_env = demo_env\<lparr>room := (\<lambda>_ k. k \<noteq> 1)\<rparr>"

definition refusing_env :: file_env where
  "refusing_env = demo_env\<lparr>room := (\<lambda>_ k. k \<noteq> 0)\<rparr>"

definition demo_publisher :: DataPublisher where
  "demo_publisher = SetLJH22 demo_env \<lparr>pubRecordsChan = Some [], pubSummariesChan = None, LJH22 = None, LJH3 = None,
     OFF = None, WritingPaused = False, numberWritten = 0\<rparr>
     7 2 4 1 (Fin 1) 0 1 1 1 64 0 0 3 ''run.ljh'' ''lab'' ''chan7'' 7 \<lparr>pixX = 0, pixY = 0, pixelName = ''p''\<rparr>"

definition demo_writer :: ljh_Writer where
  "demo_writer = (the (LJH22 demo_publisher))\<lparr>wHeaderWritten := True, wFile := True, wWriter := Some new_file\<rparr>"

definition demo_record :: data_record where
  "demo_record = \<lparr>recData = [10, 11, 50, 30], trigFrame = 1000, trigTime = 5000, recSigned = False,
     recChannelIndex = 7, presamples = 2, recVoltsPerArb = Fin 1, sampPeriod = Fin 1, pretrigMean = Fin 0,
     pretrigDelta = Fin 0, pulseAverage = Fin 0, pulseRMS = Fin 0, peakValue = Fin 0, modelCoefs = [],
     residualStdDev = Fin 0\<rparr>"

lemma demo_writer_simps [simp]:
  "wWriter demo_writer = Some new_file" "wSamples demo_writer = 4" "wHeaderWritten demo_writer"
  "wRecordsWritten demo_writer = 0"
  by (simp_all add: demo_writer_def demo_publisher_def SetLJH22_def)

lemma demo_record_simps [simp]: "recData demo_record = [10, 11, 50, 30]" "trigTime demo_record = 5000"
  by (simp_all add: demo_record_def)

theorem ljh_records_read_back_witness:
  "\<exists>w' f' new. foldM_go (record_ljh22 demo_env) demo_writer [demo_record, demo_record] = Inr w'
    \<and> wWriter w' = Some f' \<and> concat (accepted f') = new
    \<and> read_pulses 2 4 (new @ [1]) = Some ([pulse_of demo_writer demo_record, pulse_of demo_writer demo_record], [1])"
proof -
  have "room_from (room demo_env (FileName demo_writer)) new_file" by (simp add: room_from_def demo_env_def)
  from ljh_records_read_back [OF demo_writer_simps(1) this, of "[demo_record, demo_record]"]
  show ?thesis by (fastforce simp: new_file_def int_in_def numeral_2_eq_2)
qed

theorem publish_reaches_every_output_witness:
  "\<exists>dp'. PublishData (\<lambda>_. ''{}'') (\<lambda>_. None) demo_env demo_publisher [demo_record] = Inr (dp', None)
    \<and> pubRecordsChan dp' = Some [[demo_record]] \<and> numberWritten dp' = 1"
proof -
  have "ready (\<lambda>_. None) demo_env [demo_record] demo_publisher"
    by (simp add: ready_def demo_publisher_def SetLJH22_def ready_ljh22_def demo_env_def room_from_def)
  from publish_reaches_every_output [OF _ this, of "\<lambda>_. ''{}''"]
  show ?thesis by (auto simp: demo_publisher_def SetLJH22_def HasLJH22_def)
qed

theorem torn_record_misread_witness:
  "\<exists>dp'. PublishData (\<lambda>_. ''{}'') (\<lambda>_. None) tearing_env (demo_publisher\<lparr>LJH22 := Some demo_writer\<rparr>)
      [demo_record, demo_record] = Inr (dp', None) \<and> numberWritten dp' = 2"
  using torn_record_misread [of "demo_publisher\<lparr>LJH22 := Some demo_writer\<rparr>" demo_writer new_file tearing_env
      demo_record demo_record "\<lambda>_. ''{}''" "\<lambda>_. None"]
  by (auto simp: demo_publisher_def SetLJH22_def tearing_env_def demo_env_def new_file_def)

theorem refused_header_blocks_file_witness:
  "\<exists>dp' dp''. PublishData (\<lambda>_. ''{}'') (\<lambda>_. None) refusing_env
       (SetLJH3 (demo_publisher\<lparr>LJH22 := None\<rparr>) 7 (Fin 1) 1 1 64 3 ''run.ljh3'') [demo_record] = Inr (dp', None)
    \<and> PublishData (\<lambda>_. ''{}'') (\<lambda>_. None) refusing_env dp' [demo_record] = Inr (dp'', Some FileExists)"
  using refused_header_blocks_file [of "SetLJH3 (demo_publisher\<lparr>LJH22 := None\<rparr>) 7 (Fin 1) 1 1 64 3 ''run.ljh3''" _ refusing_env
      "[demo_record]" "[demo_record]" "\<lambda>_. ''{}''" "\<lambda>_. None"]
  by (auto simp: demo_publisher_def SetLJH22_def SetLJH3_def refusing_env_def demo_env_def)

end
