(* ===== verification/ProcessLaws.thy ===== *)
theory ProcessLaws
  imports ProcessData PulseLaws
begin

text \<open>
  What one channel does with a segment: decimation keeps frame numbers and rounds averages
  correctly, the analysis computes what its names say, configuration keeps the two copies of the
  record length and the projectors in step, and a segment runs through decimation, triggering,
  analysis and publishing without a panic.
\<close>

subsection \<open>Decimation by dropping\<close>

lemma decimate_drop_spec:
  assumes "0 < L" "\<And>i. i < n \<Longrightarrow> i * L < length data"
  shows "decimate_drop (int L) (int n) data
    = Inr (map (\<lambda>k. data ! (k * L)) [0..<n] @ drop n data)"
proof -
  let ?A = "\<lambda>i. map (\<lambda>k. data ! (k * L)) [0..<i] @ drop i data"
  have "foldM_go (\<lambda>dat i. bind_go (idx dat (i * int L)) (\<lambda>v. bind_go (idx dat i) (\<lambda>_.
       Inr (dat[nat i := v])))) (?A 0) [0..int n - 1] = Inr (?A n)"
  proof (rule foldM_go_upto)
    fix i assume i: "i < n"
    have len: "i * L < length data" using assms(2) [OF i] .
    have le: "i \<le> i * L" using assms(1) by simp
    have il: "i < length data" using le len by (rule le_less_trans)
    have a: "idx (?A i) (int i * int L) = Inr (data ! (i * L))"
      using len le il by (simp add: nth_append nth_drop [OF less_imp_le] flip: of_nat_mult)
    have b: "idx (?A i) (int i) = Inr (data ! i)" using il by (simp add: nth_append)
    have c: "(?A i)[i := data ! (i * L)] = ?A (Suc i)"
      using il by (simp add: list_update_append Cons_nth_drop_Suc [symmetric])
    show "bind_go (idx (?A i) (int i * int L)) (\<lambda>v. bind_go (idx (?A i) (int i)) (\<lambda>_.
       Inr ((?A i)[nat (int i) := v]))) = Inr (?A (Suc i))"
      unfolding a b using c by simp
  qed
  then show ?thesis by (simp add: decimate_drop_def)
qed

text \<open>The number of samples after decimation.\<close>

definition decimated_length :: "int \<Rightarrow> nat \<Rightarrow> nat" where
  "decimated_length level n = (n + nat level - 1) div nat level"

lemma decimated_length_less: "i < decimated_length (int L) n \<Longrightarrow> 0 < L \<Longrightarrow> i * L < n"
proof -
  assume i: "i < decimated_length (int L) n" and L: "0 < L"
  have "Suc i * L \<le> (n + L - 1) div L * L"
    using i by (intro mult_right_mono) (simp_all add: decimated_length_def)
  also have "\<dots> \<le> n + L - 1" by simp
  finally show "i * L < n" using L by (cases L) simp_all
qed

lemma decimated_length_le: "0 < L \<Longrightarrow> decimated_length (int L) n \<le> n"
  using decimated_length_less [of "decimated_length (int L) n - 1" L n]
    le_less_trans [of "decimated_length (int L) n - 1" "(decimated_length (int L) n - 1) * L" n]
  by (cases "decimated_length (int L) n") auto

lemma Nout_eq: "0 < L \<Longrightarrow> quot_int (int n - 1 + int L) (int L) = int (decimated_length (int L) n)"
  by (simp add: decimated_length_def zdiv_int of_nat_diff Suc_le_eq algebra_simps)


lemma DecimateData_drop:
  assumes "Decimate d" "\<not> DecimateAvgMode d" "DecimateLevel d = int L" "1 < L"
  shows "DecimateData d seg = Inr (seg\<lparr>rawData := map (\<lambda>k. rawData seg ! (k * L))
      [0..<decimated_length (int L) (length (rawData seg))], framesPerSample := framesPerSample seg * int L\<rparr>)"
proof -
  let ?n = "decimated_length (int L) (length (rawData seg))"
  have L: "0 < L" using assms(4) by simp
  have drop: "decimate_drop (int L) (int ?n) (rawData seg)
      = Inr (map (\<lambda>k. rawData seg ! (k * L)) [0..<?n] @ drop ?n (rawData seg))"
    by (rule decimate_drop_spec [OF L]) (rule decimated_length_less [OF _ L])
  have le: "?n \<le> length (rawData seg)" by (rule decimated_length_le [OF L])
  then show ?thesis
    using assms by (simp add: DecimateData_def Nout_eq [OF L] drop slice_go_def Let_def)
qed

text \<open>
  Decimation by dropping works in place: every \<open>level\<close>-th sample of the segment is kept, the
  first one included, and each kept sample keeps its frame number and its time.
\<close>

theorem decimation_keeps_every_nth:
  assumes "Decimate d" "\<not> DecimateAvgMode d" "DecimateLevel d = int L" "1 < L"
  shows "\<exists>seg'. DecimateData d seg = Inr seg'
    \<and> rawData seg' = map (\<lambda>k. rawData seg ! (k * L)) [0..<decimated_length (int L) (length (rawData seg))]
    \<and> (\<forall>k. frame_of seg' (int k) = frame_of seg (int (k * L)) \<and> TimeOf seg' (int k) = TimeOf seg (int (k * L)))"
  by (simp add: DecimateData_drop [OF assms] frame_of_def TimeOf_def algebra_simps)

subsection \<open>Decimation by averaging\<close>

lemma sample_value_bound: "\<bar>sample_value b v\<bar> < 65536"
proof -
  have "- (2 ^ 15) \<le> to_int16 (uint v)" "to_int16 (uint v) < 2 ^ 15"
    unfolding to_int16_def
    using signed_take_bit_int_greater_eq_minus_exp signed_take_bit_int_less_exp by blast+
  then show ?thesis using uint_raw_bounds [of v] by (cases b) (simp_all add: sample_value_def abs_less_iff)
qed

text \<open>Sums of less than \<open>2 ^ 35\<close> samples are exact.\<close>

lemma exact_add:
  assumes "\<bar>a + b\<bar> < 2 ^ 53" "\<bar>b\<bar> < 2 ^ 53"
  shows "fadd r64 (Fin (of_int a)) (f64_of_int b) = Fin (of_int (a + b))"
  using r64_exact [of "a + b" 0] assms by (simp add: f64_of_int_exact)

text \<open>The sum of the first \<open>i\<close> samples that belong to group \<open>j\<close>.\<close>

definition group_sum :: "(nat \<Rightarrow> int) \<Rightarrow> nat \<Rightarrow> nat \<Rightarrow> nat \<Rightarrow> int" where
  "group_sum f L i j = (\<Sum>k | k < i \<and> k div L = j. f k)"

lemma group_sum_0 [simp]: "group_sum f L 0 j = 0"
  by (simp add: group_sum_def)

lemma group_sum_Suc:
  "group_sum f L (Suc i) j = group_sum f L i j + (if i div L = j then f i else 0)"
proof -
  have "{k. k < Suc i \<and> k div L = j}
      = (if i div L = j then insert i {k. k < i \<and> k div L = j} else {k. k < i \<and> k div L = j})"
    by (auto simp: less_Suc_eq)
  then show ?thesis by (simp add: group_sum_def)
qed

lemma group_set: "0 < (L::nat) \<Longrightarrow> {k. k < i \<and> k div L = j} = {j * L..<min i (j * L + L)}"
proof -
  assume L: "0 < L"
  have "k div L = j \<longleftrightarrow> j * L \<le> k \<and> k < j * L + L" for k
  proof
    assume e: "k div L = j"
    have "k = j * L + k mod L" using div_mult_mod_eq [of k L] unfolding e by simp
    moreover have "k mod L < L" using L by simp
    ultimately show "j * L \<le> k \<and> k < j * L + L" by linarith
  next
    assume "j * L \<le> k \<and> k < j * L + L"
    then show "k div L = j" by (intro div_nat_eqI) (simp_all add: algebra_simps)
  qed
  then show ?thesis by (simp add: set_eq_iff conj_commute conj_left_commute)
qed

lemma group_sum_bound:
  assumes "0 < L" "\<And>k. \<bar>f k\<bar> < 65536"
  shows "\<bar>group_sum f L i j\<bar> \<le> 65536 * int L"
proof -
  have "\<bar>group_sum f L i j\<bar> \<le> (\<Sum>k = j * L..<min i (j * L + L). \<bar>f k\<bar>)"
    by (simp add: group_sum_def group_set [OF assms(1)])
  also have "\<dots> \<le> (\<Sum>k = j * L..<min i (j * L + L). 65536)"
    using assms(2) by (intro sum_mono) (simp add: less_imp_le)
  also have "\<dots> \<le> 65536 * int L" by simp
  finally show ?thesis .
qed

text \<open>The samples of group \<open>j\<close>.\<close>

definition group_of :: "nat \<Rightarrow> 'a list \<Rightarrow> nat \<Rightarrow> 'a list" where
  "group_of L xs j = take L (drop (j * L) xs)"

lemma group_sum_all:
  assumes "0 < L"
  shows "group_sum (\<lambda>k. f (xs ! k)) L (length xs) j = sum_list (map f (group_of L xs j))"
proof -
  let ?m = "min (length xs - j * L) L"
  have "group_sum (\<lambda>k. f (xs ! k)) L (length xs) j = (\<Sum>k = j * L..<min (length xs) (j * L + L). f (xs ! k))"
    by (simp add: group_sum_def group_set [OF assms])
  also have "\<dots> = (\<Sum>k = 0..<?m. f (xs ! (k + j * L)))"
  proof (cases "j * L \<le> length xs")
    case True
    then have "min (length xs) (j * L + L) = ?m + j * L" by linarith
    then show ?thesis using sum.shift_bounds_nat_ivl [of "\<lambda>k. f (xs ! k)" 0 "j * L" ?m] by simp
  qed simp
  also have "\<dots> = sum_list (map f (group_of L xs j))"
    by (auto simp: group_of_def sum_list_sum_nth min.commute add.commute intro!: sum.cong)
  finally show ?thesis .
qed

text \<open>The first loop adds up the groups.\<close>

lemma decimate_sums:
  assumes "0 < L" "L \<le> 2 ^ 35" "length data \<le> n * L"
  shows "foldM_go (decimate_add sgned (int L) data) (replicate n (Fin 0)) [0..int (length data) - 1]
    = Inr (map (\<lambda>j. Fin (of_int (sum_list (map (sample_value sgned) (group_of L data j))))) [0..<n])"
proof -
  let ?f = "\<lambda>k. sample_value sgned (data ! k)"
  let ?A = "\<lambda>i. map (\<lambda>j. Fin (of_int (group_sum ?f L i j))) [0..<n]"
  have bnd: "\<bar>group_sum ?f L i j\<bar> < 2 ^ 53" for i j
  proof -
    have "\<bar>group_sum ?f L i j\<bar> \<le> 65536 * int L"
      by (rule group_sum_bound [OF assms(1)]) (rule sample_value_bound)
    also have "\<dots> \<le> 65536 * 2 ^ 35" using assms(2) by simp
    finally show ?thesis by simp
  qed
  have "foldM_go (decimate_add sgned (int L) data) (?A 0) [0..int (length data) - 1]
      = Inr (?A (length data))"
  proof (rule foldM_go_upto)
    fix i assume i: "i < length data"
    then have "i < n * L" using assms(3) by simp
    then have j: "i div L < n" by (simp add: less_mult_imp_div_less)
    have q: "quot_int (int i) (int L) = int (i div L)" using assms(1) by (simp add: zdiv_int)
    have fb: "\<bar>?f i\<bar> < 2 ^ 53" using sample_value_bound [of sgned "data ! i"] by simp
    have add: "fadd r64 (Fin (of_int (group_sum ?f L i (i div L)))) (f64_of_int (?f i))
        = Fin (of_int (group_sum ?f L (Suc i) (i div L)))"
      using exact_add [of "group_sum ?f L i (i div L)" "?f i"] bnd [of "Suc i" "i div L"] fb
      by (simp add: group_sum_Suc)
    have "(?A i)[i div L := Fin (of_int (group_sum ?f L (Suc i) (i div L)))] = ?A (Suc i)"
      by (rule nth_equalityI) (use j in \<open>auto simp: nth_list_update group_sum_Suc\<close>)
    then show "decimate_add sgned (int L) data (?A i) (int i) = Inr (?A (Suc i))"
      using i j by (simp add: decimate_add_def q Let_def add)
  qed
  moreover have "?A 0 = replicate n (Fin 0)" by (simp add: map_replicate_const)
  moreover have "?A (length data)
      = map (\<lambda>j. Fin (of_int (sum_list (map (sample_value sgned) (group_of L data j))))) [0..<n]"
    using group_sum_all [OF assms(1), of "sample_value sgned" data] by simp
  ultimately show ?thesis by simp
qed

text \<open>
  The average is rounded twice or three times; multiples of \<open>2 ^ - 36\<close> are exact and separate the
  values that round to different samples.
\<close>

definition grid :: "int \<Rightarrow> rat" where "grid n = of_int n / 2 ^ 36"

lemma r64_grid: "\<bar>n\<bar> < 2 ^ 53 \<Longrightarrow> r64 (grid n) = Fin (grid n)"
proof -
  assume n: "\<bar>n\<bar> < 2 ^ 53"
  have "grid n = of_int n * 2 powi (- 36)"
    unfolding grid_def power_int_minus divide_inverse by simp
  then show ?thesis using r64_exact [OF n, of "- 36"] by (simp only:)
qed

lemma grid_add: "grid m + grid n = grid (m + n)"
  by (simp add: grid_def add_divide_distrib)

lemma grid_int: "of_int n = grid (n * 2 ^ 36)" "(1 / 2 :: rat) = grid (2 ^ 35)"
  by (simp_all add: grid_def)

lemma fadd_grid:
  assumes "grid l \<le> a" "a \<le> grid h" "\<bar>l + c\<bar> < 2 ^ 53" "\<bar>h + c\<bar> < 2 ^ 53"
  shows "\<exists>b. fadd r64 (Fin a) (Fin (grid c)) = Fin b \<and> grid (l + c) \<le> b \<and> b \<le> grid (h + c)"
  using r64_between [OF r64_grid [OF assms(3)] r64_grid [OF assms(4)], of "a + grid c"] assms(1,2)
  by (simp flip: grid_add)

lemma average_between:
  assumes "0 < L" "L \<le> 2 ^ 35" "- 32768 * L \<le> s" "s \<le> 65535 * L"
  defines "k \<equiv> (2 * s + L) div (2 * L)"
  shows "\<exists>a. fdiv r64 (Fin (of_int s)) (f64_of_int L) = Fin a
    \<and> grid (2 * k * 2 ^ 35 - 2 ^ 35) \<le> a \<and> a \<le> grid (2 * k * 2 ^ 35 + 2 ^ 35 - 1)"
    and "- 32768 \<le> k" "k \<le> 65535"
proof -
  have k1: "2 * L * k \<le> 2 * s + L" and k2: "2 * s + L < 2 * L * (k + 1)"
    using mult_div_mod_eq [of "2 * L" "2 * s + L"] pos_mod_bound [of "2 * L" "2 * s + L"]
      pos_mod_sign [of "2 * L" "2 * s + L"] assms(1)
    unfolding k_def distrib_left by linarith+
  have kl: "- 32768 \<le> k"
  proof (rule ccontr)
    assume "\<not> - 32768 \<le> k"
    then have "2 * L * (k + 1) \<le> 2 * L * (- 32768)" using assms(1) by (intro mult_left_mono) simp_all
    then show False using k2 assms(1,3) by linarith
  qed
  have ku: "k \<le> 65535"
  proof (rule ccontr)
    assume "\<not> k \<le> 65535"
    then have "2 * L * 65536 \<le> 2 * L * k" using assms(1) by (intro mult_left_mono) simp_all
    then show False using k1 assms(1,4) by linarith
  qed
  have Lr: "(0::rat) < of_int L" using assms(1) by simp
  have lo: "grid (2 * k * 2 ^ 35 - 2 ^ 35) \<le> of_int s / of_int L"
  proof -
    have "(2 * k - 1) * L \<le> 2 * s" using k1 by (simp add: algebra_simps)
    then have "(of_int ((2 * k - 1) * L) :: rat) \<le> of_int (2 * s)" by (simp only: of_int_le_iff)
    then show ?thesis using Lr by (simp add: grid_def field_simps)
  qed
  have hi: "of_int s / of_int L \<le> grid (2 * k * 2 ^ 35 + 2 ^ 35 - 1)"
  proof -
    have "2 * s + 1 \<le> (2 * k + 1) * L" using k2 by (simp add: algebra_simps)
    then have "(2 * s + 1) * 2 ^ 35 \<le> (2 * k + 1) * L * 2 ^ 35" by (intro mult_right_mono) simp_all
    then have "s * 2 ^ 36 \<le> ((2 * k + 1) * 2 ^ 35 - 1) * L"
      using assms(2) by (simp add: algebra_simps)
    then have "(of_int (s * 2 ^ 36) :: rat) \<le> of_int (((2 * k + 1) * 2 ^ 35 - 1) * L)"
      by (simp only: of_int_le_iff)
    then show ?thesis using Lr by (simp add: grid_def field_simps)
  qed
  have L53: "f64_of_int L = Fin (of_int L)" using assms(1,2) by (intro f64_of_int_exact) simp
  have "\<bar>2 * k * 2 ^ 35 - 2 ^ 35\<bar> < 2 ^ 53" "\<bar>2 * k * 2 ^ 35 + 2 ^ 35 - 1\<bar> < 2 ^ 53"
    using kl ku by (simp_all add: abs_less_iff)
  from r64_between [OF r64_grid [OF this(1)] r64_grid [OF this(2)] lo hi]
  show "\<exists>a. fdiv r64 (Fin (of_int s)) (f64_of_int L) = Fin a
    \<and> grid (2 * k * 2 ^ 35 - 2 ^ 35) \<le> a \<and> a \<le> grid (2 * k * 2 ^ 35 + 2 ^ 35 - 1)"
    using Lr by (simp add: L53)
  show "- 32768 \<le> k" "k \<le> 65535" by (rule kl, rule ku)
qed

lemma int_of_grid:
  assumes "grid (k * 2 ^ 36) \<le> b" "b \<le> grid (k * 2 ^ 36 + 2 ^ 36 - 1)" "0 \<le> k" "k < 2 ^ 60"
  shows "int_of_f64 (Fin b) = k"
proof -
  have "of_int k \<le> b" using assms(1) by (simp add: grid_def)
  moreover have "b < of_int k + 1" using assms(2) by (rule le_less_trans) (simp add: grid_def field_simps)
  ultimately have "\<lfloor>b\<rfloor> = k" by (rule floor_unique)
  moreover have "0 \<le> b" using assms(3) \<open>of_int k \<le> b\<close> by (simp add: order_trans [of 0 "of_int k"])
  ultimately show ?thesis using assms(3,4) by (simp add: trunc_rat_def Let_def)
qed

lemma word_of_to_int16 [simp]: "(word_of_int (to_int16 x) :: raw) = word_of_int x"
proof (rule bit_word_eqI)
  fix n assume "n < LENGTH(16)"
  then have "n < 15 \<or> n = 15" by auto
  then show "bit (word_of_int (to_int16 x) :: raw) n = bit (word_of_int x :: raw) n"
    by (auto simp: to_int16_def bit_simps min_def)
qed

lemma sample_value_of_int:
  assumes "if sgned then - 32768 \<le> k \<and> k \<le> 32767 else 0 \<le> k \<and> k \<le> 65535"
  shows "sample_value sgned (word_of_int k) = k"
proof (cases sgned)
  case True
  have "to_int16 (take_bit 16 k) = to_int16 k"
    by (rule bit_eqI) (simp add: to_int16_def bit_simps min_def)
  then show ?thesis using assms True to_int16_id [of k] by (simp add: sample_value_def uint_word_of_int_eq)
next
  case False
  then show ?thesis using assms by (simp add: sample_value_def uint_word_of_int_eq take_bit_int_eq_self)
qed

text \<open>The sums a group of samples can have.\<close>

definition sum_in_range :: "bool \<Rightarrow> int \<Rightarrow> int \<Rightarrow> bool" where
  "sum_in_range sgned L s \<longleftrightarrow> (if sgned then - 32768 * L \<le> s \<and> s \<le> 32767 * L else 0 \<le> s \<and> s \<le> 65535 * L)"

lemma sample_value_range:
  "if sgned then - 32768 \<le> sample_value sgned v \<and> sample_value sgned v \<le> 32767
   else 0 \<le> sample_value sgned v \<and> sample_value sgned v \<le> 65535"
proof (cases sgned)
  case True
  have "- (2 ^ 15) \<le> to_int16 (uint v)" "to_int16 (uint v) < 2 ^ 15"
    unfolding to_int16_def
    using signed_take_bit_int_greater_eq_minus_exp signed_take_bit_int_less_exp by blast+
  then show ?thesis using True by (simp add: sample_value_def)
next
  case False
  then show ?thesis using zless_imp_add1_zle [OF uint_raw_bounds(2) [of v]] by (simp add: sample_value_def)
qed

lemma sum_in_range_group:
  assumes "length xs \<le> L"
  shows "sum_in_range sgned (int L) (sum_list (map (sample_value sgned) xs))"
  using assms
proof (induction xs arbitrary: L)
  case (Cons v xs)
  then obtain L' where L: "L = Suc L'" "length xs \<le> L'" by (cases L) auto
  show ?case
    using Cons.IH [OF L(2)] sample_value_range [of sgned v]
    by (auto simp: L(1) sum_in_range_def algebra_simps split: if_splits)
qed (simp add: sum_in_range_def)

lemma rounded_average_value:
  assumes L: "0 < L" "L \<le> 2 ^ 35" and s: "sum_in_range sgned L s"
  defines "k \<equiv> (2 * s + L) div (2 * L)"
  shows "rounded_average sgned L (Fin (of_int s)) = word_of_int k"
    and "if sgned then - 32768 \<le> k \<and> k \<le> 32767 else 0 \<le> k \<and> k \<le> 65535"
proof -
  have r: "- 32768 * L \<le> s" "s \<le> 65535 * L" using s L(1) by (auto simp: sum_in_range_def split: if_splits)
  note avg = average_between [OF L r, folded k_def]
  obtain a where a: "fdiv r64 (Fin (of_int s)) (f64_of_int L) = Fin a"
    "grid (2 * k * 2 ^ 35 - 2 ^ 35) \<le> a" "a \<le> grid (2 * k * 2 ^ 35 + 2 ^ 35 - 1)"
    using avg(1) by blast
  have k1: "2 * L * k \<le> 2 * s + L" and k2: "2 * s + L < 2 * L * (k + 1)"
    using mult_div_mod_eq [of "2 * L" "2 * s + L"] pos_mod_bound [of "2 * L" "2 * s + L"]
      pos_mod_sign [of "2 * L" "2 * s + L"] L(1)
    unfolding k_def distrib_left by linarith+
  have up: "k \<le> 32767" if "s \<le> 32767 * L"
  proof (rule ccontr)
    assume "\<not> k \<le> 32767"
    then have "2 * L * 32768 \<le> 2 * L * k" using L(1) by (intro mult_left_mono) simp_all
    then show False using k1 that L(1) by linarith
  qed
  have lo: "0 \<le> k" if "0 \<le> s" using that L(1) by (simp add: k_def pos_imp_zdiv_nonneg_iff)
  show bnd: "if sgned then - 32768 \<le> k \<and> k \<le> 32767 else 0 \<le> k \<and> k \<le> 65535"
    using s up lo avg(2,3) by (simp add: sum_in_range_def split: if_splits)
  have on_grid: "Fin (1 / 2) = Fin (grid (2 ^ 35))" "Fin 65536 = Fin (grid (65536 * 2 ^ 36))"
    by (simp_all add: grid_def)
  show "rounded_average sgned L (Fin (of_int s)) = word_of_int k"
  proof (cases sgned)
    case True
    obtain b where b: "fadd r64 (Fin a) (Fin (grid (65536 * 2 ^ 36))) = Fin b"
      "grid (2 * k * 2 ^ 35 - 2 ^ 35 + 65536 * 2 ^ 36) \<le> b"
      "b \<le> grid (2 * k * 2 ^ 35 + 2 ^ 35 - 1 + 65536 * 2 ^ 36)"
      using fadd_grid [OF a(2,3), of "65536 * 2 ^ 36"] bnd True by (auto simp: abs_less_iff)
    obtain c where c: "fadd r64 (Fin b) (Fin (grid (2 ^ 35))) = Fin c"
      "grid (2 * k * 2 ^ 35 - 2 ^ 35 + 65536 * 2 ^ 36 + 2 ^ 35) \<le> c"
      "c \<le> grid (2 * k * 2 ^ 35 + 2 ^ 35 - 1 + 65536 * 2 ^ 36 + 2 ^ 35)"
      using fadd_grid [OF b(2,3), of "2 ^ 35"] bnd True by (auto simp: abs_less_iff)
    have "int_of_f64 (Fin c) = k + 65536"
      using c(2,3) bnd True by (intro int_of_grid) (simp_all add: algebra_simps)
    then show ?thesis
      using True unfolding rounded_average_def Let_def a(1) on_grid b(1) c(1) by (simp del: int_of_f64.simps)
  next
    case False
    obtain c where c: "fadd r64 (Fin a) (Fin (grid (2 ^ 35))) = Fin c"
      "grid (2 * k * 2 ^ 35 - 2 ^ 35 + 2 ^ 35) \<le> c" "c \<le> grid (2 * k * 2 ^ 35 + 2 ^ 35 - 1 + 2 ^ 35)"
      using fadd_grid [OF a(2,3), of "2 ^ 35"] bnd False by (auto simp: abs_less_iff)
    have "int_of_f64 (Fin c) = k"
      using c(2,3) bnd False by (intro int_of_grid) (simp_all add: algebra_simps)
    then show ?thesis
      using False unfolding rounded_average_def Let_def a(1) on_grid c(1) by (simp del: int_of_f64.simps)
  qed
qed

text \<open>The second loop stores the averages.\<close>

lemma decimate_store:
  assumes "n \<le> length data" "length cdata = n"
  shows "foldM_go (\<lambda>dat i. bind_go (idx cdata i) (\<lambda>c. bind_go (idx dat i) (\<lambda>_.
          Inr (dat[nat i := rounded_average sgned level c])))) data [0..int n - 1]
    = Inr (map (rounded_average sgned level) cdata @ drop n data)"
proof -
  let ?A = "\<lambda>i. map (rounded_average sgned level) (take i cdata) @ drop i data"
  have "foldM_go (\<lambda>dat i. bind_go (idx cdata i) (\<lambda>c. bind_go (idx dat i) (\<lambda>_.
          Inr (dat[nat i := rounded_average sgned level c])))) (?A 0) [0..int n - 1] = Inr (?A n)"
  proof (rule foldM_go_upto)
    fix i assume i: "i < n"
    then have "(?A i)[i := rounded_average sgned level (cdata ! i)] = ?A (Suc i)"
      using assms by (simp add: list_update_append take_Suc_conv_app_nth Cons_nth_drop_Suc [symmetric])
    then show "bind_go (idx cdata (int i)) (\<lambda>c. bind_go (idx (?A i) (int i)) (\<lambda>_.
          Inr ((?A i)[nat (int i) := rounded_average sgned level c]))) = Inr (?A (Suc i))"
      using i assms by simp
  qed
  then show ?thesis using assms(2) by simp
qed

lemma decimated_length_covers: "0 < L \<Longrightarrow> n \<le> decimated_length (int L) n * L"
proof -
  assume L: "0 < L"
  have "n + L - 1 < decimated_length (int L) n * L + L"
    using div_mult_mod_eq [of "n + L - 1" L] mod_less_divisor [OF L, of "n + L - 1"]
    unfolding decimated_length_def nat_int by linarith
  then show ?thesis by simp
qed

text \<open>The decimated segment: every group's exact sum, divided and rounded.\<close>

definition averaged :: "int \<Rightarrow> data_segment \<Rightarrow> raw list" where
  "averaged L seg = map (\<lambda>j. rounded_average (signedData seg) L
     (Fin (of_int (sum_list (map (sample_value (signedData seg)) (group_of (nat L) (rawData seg) j))))))
     [0..<decimated_length L (length (rawData seg))]"

lemma DecimateData_average:
  assumes "Decimate d" "DecimateAvgMode d" "DecimateLevel d = int L" "1 < L" "L \<le> 2 ^ 35"
  shows "DecimateData d seg = Inr (seg\<lparr>rawData := averaged (int L) seg,
    framesPerSample := framesPerSample seg * int L\<rparr>)"
proof -
  define sgned where "sgned = signedData seg"
  define n where "n = decimated_length (int L) (length (rawData seg))"
  let ?d = "rawData seg"
  let ?s = "\<lambda>j. sum_list (map (sample_value sgned) (group_of L ?d j))"
  let ?c = "map (\<lambda>j. Fin (of_int (?s j))) [0..<n]"
  have L: "0 < L" "0 < int L" "int L \<le> 2 ^ 35" using assms(4,5) by simp_all
  have cov: "length ?d \<le> n * L" unfolding n_def by (rule decimated_length_covers [OF L(1)])
  have le: "n \<le> length ?d" unfolding n_def by (rule decimated_length_le [OF L(1)])
  have sums: "foldM_go (decimate_add sgned (int L) ?d) (replicate n (Fin 0)) [0..int (length ?d) - 1] = Inr ?c"
    by (rule decimate_sums [OF L(1) assms(5) cov])
  have whole: "\<not> int n * int L < int (length ?d)" using cov by (simp flip: of_nat_mult)
  have avg: "decimate_average sgned (int L) (int n) ?d
      = Inr (map (rounded_average sgned (int L)) ?c @ drop n ?d)"
    using decimate_store [of n ?d ?c sgned "int L"] le
    by (simp add: decimate_average_def sums whole Let_def del: map_map)
  have av: "averaged (int L) seg = map (rounded_average sgned (int L)) ?c"
    by (simp add: averaged_def sgned_def n_def)
  show ?thesis
    using assms(1-4) le avg unfolding av
    by (simp add: DecimateData_def Nout_eq [OF L(1), of "length ?d", folded n_def] slice_go_def Let_def
        flip: sgned_def del: map_map quot_int_nonneg)
qed

lemma averaged_values:
  assumes "1 < L" "L \<le> 2 ^ 35" "j < decimated_length (int L) (length (rawData seg))"
  shows "sample_value (signedData seg) (averaged (int L) seg ! j)
    = (2 * sum_list (map (sample_value (signedData seg)) (group_of L (rawData seg) j)) + int L) div (2 * int L)"
proof -
  have L: "0 < int L" "int L \<le> 2 ^ 35" using assms(1,2) by simp_all
  have rng: "sum_in_range (signedData seg) (int L)
      (sum_list (map (sample_value (signedData seg)) (group_of L (rawData seg) j)))"
    by (rule sum_in_range_group) (simp add: group_of_def)
  show ?thesis
    using assms(3) rounded_average_value [OF L rng] sample_value_of_int by (simp add: averaged_def)
qed

text \<open>
  Decimation by averaging gives, for every group of \<open>level\<close> samples, the mean rounded to the
  nearest sample value (a half goes up), signed or not: no floating-point step loses anything.  The
  last group may hold fewer samples; its sum is divided by \<open>level\<close> as well, since the correction in the code
  tests a condition that is never true, so the last decimated sample is too small.
\<close>

theorem decimation_averages_groups:
  fixes seg :: data_segment
  assumes "Decimate d" "DecimateAvgMode d" "DecimateLevel d = int L" "1 < L" "L \<le> 2 ^ 35"
  defines "sgned \<equiv> signedData seg" and "n \<equiv> decimated_length (int L) (length (rawData seg))"
  shows "\<exists>seg'. DecimateData d seg = Inr seg' \<and> length (rawData seg') = n
    \<and> framesPerSample seg' = framesPerSample seg * int L
    \<and> (\<forall>j<n. let s = sum_list (map (sample_value sgned) (group_of L (rawData seg) j)) in
        sample_value sgned (rawData seg' ! j) = (2 * s + int L) div (2 * int L))"
  unfolding sgned_def n_def
  by (simp add: DecimateData_average [OF assms(1-5)] Let_def averaged_values [OF assms(4,5)])
    (simp add: averaged_def)

subsection \<open>Pulse analysis\<close>

definition values_of :: "data_record \<Rightarrow> int list" where
  "values_of rec = map (sample_value (recSigned rec)) (recData rec)"

text \<open>The values before and after the trigger.\<close>

abbreviation "pre_values rec \<equiv> take (nat (presamples rec)) (values_of rec)"
abbreviation "post_values rec \<equiv> drop (nat (presamples rec)) (values_of rec)"

lemma sum_list_bound:
  assumes "\<forall>x\<in>set xs. \<bar>x\<bar> < b" "0 \<le> b"
  shows "\<bar>sum_list xs\<bar> \<le> b * int (length xs)"
  using assms(1)
proof (induction xs)
  case (Cons x xs)
  then have "\<bar>x\<bar> \<le> b" "\<bar>sum_list xs\<bar> \<le> b * int (length xs)" by simp_all
  then show ?case by (simp add: distrib_left abs_le_iff)
qed simp

lemma values_bound: "v \<in> set (values_of rec) \<Longrightarrow> \<bar>v\<bar> < 65536"
  by (auto simp: values_of_def sample_value_bound)

lemma sum_values_bound:
  assumes "set xs \<subseteq> set (values_of rec)" "length xs < 2 ^ 21"
  shows "\<bar>sum_list xs\<bar> < 2 ^ 53" "\<bar>sum_list (map (\<lambda>v. v * v) xs)\<bar> < 2 ^ 53"
proof -
  have v: "\<forall>x\<in>set xs. \<bar>x\<bar> < 65536" using assms(1) values_bound by blast
  have len: "int (length xs) < 2 ^ 21" using assms(2) by simp
  have "\<bar>sum_list xs\<bar> \<le> 65536 * int (length xs)" by (rule sum_list_bound [OF v]) simp
  then show "\<bar>sum_list xs\<bar> < 2 ^ 53" using len by simp
  have "\<bar>y * y\<bar> < 65536 * 65536" if "y \<in> set xs" for y
    using abs_mult_less [of y 65536 y 65536] v that by (simp only: abs_mult)
  then have "\<bar>sum_list (map (\<lambda>v. v * v) xs)\<bar> \<le> 65536 * 65536 * int (length xs)"
    using sum_list_bound [of "map (\<lambda>v. v * v) xs" "65536 * 65536"] by simp
  then show "\<bar>sum_list (map (\<lambda>v. v * v) xs)\<bar> < 2 ^ 53" using len by simp
qed

lemma upto_int_from: "k \<le> n \<Longrightarrow> [int k..int n - 1] = map int [k..<n]"
proof (induction n)
  case (Suc n)
  show ?case
  proof (cases "k \<le> n")
    case True
    then have "[int k..int n] = [int k..int n - 1] @ [int n]" by (intro upto_rec2) simp
    then show ?thesis using Suc True by simp
  next
    case False
    then show ?thesis using Suc by simp
  qed
qed simp

text \<open>The two loops of the analysis on exact values.\<close>

abbreviation "float_values rec \<equiv> map f64_of_int (values_of rec)"

lemma pretrigger_loop:
  assumes "n \<le> length (values_of rec)" "n < 2 ^ 21"
  shows "\<exists>dl. foldM_go (pretrigger_step (float_values rec) d0 xmean) (Fin 0, Fin 0) (map int [0..<n])
    = Inr (Fin (of_int (sum_list (take n (values_of rec)))), dl)"
  using assms
proof (induction n)
  case (Suc n)
  then obtain dl where IH: "foldM_go (pretrigger_step (float_values rec) d0 xmean) (Fin 0, Fin 0) (map int [0..<n])
    = Inr (Fin (of_int (sum_list (take n (values_of rec)))), dl)" by auto
  let ?v = "values_of rec ! n"
  have n: "n < length (values_of rec)" using Suc.prems by simp
  have s: "sum_list (take (Suc n) (values_of rec)) = sum_list (take n (values_of rec)) + ?v"
    using n by (simp add: take_Suc_conv_app_nth)
  have "\<bar>sum_list (take (Suc n) (values_of rec))\<bar> < 2 ^ 53"
    by (rule sum_values_bound(1) [of _ rec]) (use Suc.prems in \<open>auto dest: in_set_takeD\<close>)
  moreover have "\<bar>?v\<bar> < 2 ^ 53" using values_bound [OF nth_mem [OF n]] by simp
  ultimately have "fadd r64 (Fin (of_int (sum_list (take n (values_of rec))))) (f64_of_int ?v)
      = Fin (of_int (sum_list (take (Suc n) (values_of rec))))"
    using exact_add s by simp
  then show ?case using IH n by (simp add: foldM_go_append pretrigger_step_def)
qed simp

lemma bind_go_right: "bind_go m Inr = m"
  by (cases m) simp_all

lemma pulse_loop:
  assumes "k + n \<le> length (values_of rec)" "n < 2 ^ 21"
  shows "foldM_go (pulse_step (float_values rec)) (Fin 0, Fin 0, Fin p) (map int [k..<k + n])
    = Inr (let vs = take n (drop k (values_of rec)) in
        (Fin (of_int (sum_list vs)), Fin (of_int (sum_list (map (\<lambda>v. v * v) vs))),
         Fin (Max (insert p (of_int ` set vs)))))"
  using assms
proof (induction n)
  case (Suc n)
  let ?vs = "\<lambda>m. take m (drop k (values_of rec))"
  let ?v = "values_of rec ! (k + n)"
  have n: "k + n < length (values_of rec)" using Suc.prems by simp
  have t: "?vs (Suc n) = ?vs n @ [?v]" using n by (simp add: take_Suc_conv_app_nth)
  have sub: "set (?vs m) \<subseteq> set (values_of rec)" for m
    using set_take_subset set_drop_subset by (metis subset_trans)
  have b: "\<bar>sum_list (?vs (Suc n))\<bar> < 2 ^ 53" "\<bar>sum_list (map (\<lambda>v. v * v) (?vs (Suc n)))\<bar> < 2 ^ 53"
    using Suc.prems by (intro sum_values_bound [OF sub]; simp)+
  have v: "\<bar>?v\<bar> < 65536" by (rule values_bound [OF nth_mem [OF n]])
  have vv: "\<bar>?v * ?v\<bar> < 65536 * 65536" using abs_mult_less [OF v v] by (simp only: abs_mult)
  have fv: "f64_of_int ?v = Fin (of_int ?v)" using v by (intro f64_of_int_exact) simp
  have sq: "fmul r64 (f64_of_int ?v) (f64_of_int ?v) = f64_of_int (?v * ?v)"
    unfolding fv by (simp add: f64_of_int_def)
  have 1: "fadd r64 (Fin (of_int (sum_list (?vs n)))) (f64_of_int ?v) = Fin (of_int (sum_list (?vs (Suc n))))"
    using exact_add [of "sum_list (?vs n)" ?v] b(1) v by (simp add: t)
  have 2: "fadd r64 (Fin (of_int (sum_list (map (\<lambda>v. v * v) (?vs n))))) (f64_of_int (?v * ?v))
      = Fin (of_int (sum_list (map (\<lambda>v. v * v) (?vs (Suc n)))))"
    using exact_add [of "sum_list (map (\<lambda>v. v * v) (?vs n))" "?v * ?v"] b(2) vv by (simp add: t)
  have 3: "(if flt (Fin (Max (insert p (of_int ` set (?vs n))))) (f64_of_int ?v) then f64_of_int ?v
        else Fin (Max (insert p (of_int ` set (?vs n)))))
      = Fin (Max (insert p (of_int ` set (?vs (Suc n)))))"
  proof -
    have "Max (insert p (of_int ` set (?vs (Suc n)))) = max (of_int ?v) (Max (insert p (of_int ` set (?vs n))))"
      using Max_insert [of "insert p (of_int ` set (?vs n))" "of_int ?v"]
      by (simp add: t insert_commute [of p] del: Max_insert)
    moreover have "(if flt (Fin m) (Fin v) then Fin v else Fin m) = Fin (max v m)" for m v
      by (simp add: max_def)
    ultimately show ?thesis unfolding fv by (simp only:)
  qed
  have "foldM_go (pulse_step (float_values rec)) (Fin 0, Fin 0, Fin p) (map int [k..<k + Suc n])
      = pulse_step (float_values rec) (Fin (of_int (sum_list (?vs n))),
         Fin (of_int (sum_list (map (\<lambda>v. v * v) (?vs n)))), Fin (Max (insert p (of_int ` set (?vs n))))) (int (k + n))"
    using Suc by (simp add: foldM_go_append Let_def bind_go_right)
  also have "\<dots> = Inr (Fin (of_int (sum_list (?vs (Suc n)))),
      Fin (of_int (sum_list (map (\<lambda>v. v * v) (?vs (Suc n))))),
      Fin (Max (insert p (of_int ` set (?vs (Suc n))))))"
    using n unfolding pulse_step_def by (simp only: prod.case idx_of_nat length_map bind_go_simps nth_map sq 1 2 3)
  finally show ?case by (simp only: Let_def)
qed simp

lemma data_vec_values: "recData rec \<noteq> [] \<Longrightarrow> data_vec rec = Inr (float_values rec)"
  by (simp add: data_vec_def values_of_def)

lemma length_values [simp]: "length (values_of rec) = length (recData rec)"
  by (simp add: values_of_def)

text \<open>The mean of the pretrigger samples as a \<open>float64\<close>.\<close>

lemma mean_finite:
  assumes "0 < (n::int)" "\<bar>s\<bar> \<le> 65536 * n"
  shows "\<exists>p. r64 (of_int s / of_int n) = Fin p"
proof -
  have c: "r64 (- 65536) = Fin (- 65536)" "r64 65536 = Fin 65536"
    using r64_exact [of "- 65536" 0] r64_exact [of 65536 0] by simp_all
  have "of_int s \<le> (of_int (65536 * n) :: rat)" "(of_int (- 65536 * n) :: rat) \<le> of_int s"
    using assms(2) by (simp_all only: of_int_le_iff)
  then have "- 65536 \<le> (of_int s / of_int n :: rat)" "(of_int s / of_int n :: rat) \<le> 65536"
    using assms(1) by (simp_all add: field_simps)
  from r64_between [OF c this] show ?thesis by blast
qed

lemma analyze_record_spec:
  assumes "1 \<le> presamples rec" "presamples rec < int (length (recData rec))" "length (recData rec) < 2 ^ 21"
    and "\<not> HasProjectors d"
  obtains p dl where
    "pretrigger rec (float_values rec) = Inr (Fin p, dl)"
    "r64 (of_int (sum_list (pre_values rec)) / of_int (presamples rec)) = Fin p"
    "analyze_record mulvec d rec = Inr
      (rec\<lparr>pretrigMean := Fin p, pretrigDelta := dl,
           peakValue := r64 (Max (insert p (of_int ` set (post_values rec))) - p),
           pulseAverage := fsub r64 (r64 (of_int (sum_list (post_values rec)) / of_int (int (length (post_values rec))))) (Fin p),
           pulseRMS := fsqrt (mean_square (Fin (of_int (sum_list (post_values rec))))
             (Fin (of_int (sum_list (map (\<lambda>v. v * v) (post_values rec)))))
             (Fin (of_int (int (length (post_values rec))))) (Fin p))\<rparr>)"
proof -
  let ?n = "nat (presamples rec)" and ?N = "length (recData rec)"
  have n: "presamples rec = int ?n" "?n < ?N" "0 < ?n" using assms(1,2) by simp_all
  have ne: "recData rec \<noteq> []" using n(2) by auto
  have len: "int ?N < 2 ^ 21" using assms(3) by simp
  have f: "f64_of_int (presamples rec) = Fin (of_int (presamples rec))"
    "f64_of_int (int ?N - presamples rec) = Fin (of_int (int ?N - presamples rec))"
    using n len by (intro f64_of_int_exact; simp)+
  have sb: "\<bar>sum_list (pre_values rec)\<bar> \<le> 65536 * int ?n"
  proof -
    have "\<forall>x\<in>set (pre_values rec). \<bar>x\<bar> < 65536" using values_bound set_take_subset by fastforce
    from sum_list_bound [OF this] show ?thesis using n(2) by simp
  qed
  obtain p where p: "r64 (of_int (sum_list (pre_values rec)) / of_int (presamples rec)) = Fin p"
    using mean_finite [of "int ?n" "sum_list (pre_values rec)"] sb n by auto
  obtain dl where pl: "foldM_go (pretrigger_step (float_values rec) (float_values rec ! 0)
      (fmul r64 (f64_of_int (presamples rec - 1)) (Fin (1 / 2)))) (Fin 0, Fin 0) (map int [0..<?n])
    = Inr (Fin (of_int (sum_list (pre_values rec))), dl)"
    using pretrigger_loop [of ?n rec] n len by fastforce
  have pre: "\<exists>dl'. pretrigger rec (float_values rec) = Inr (Fin p, dl')"
    using pl n ne p by (simp add: pretrigger_def upto_int [of ?n, folded n(1)] Let_def f)
  then obtain dl' where pre: "pretrigger rec (float_values rec) = Inr (Fin p, dl')" by blast
  have up: "[int ?n..int ?N - 1] = map int [?n..<?n + (?N - ?n)]"
    using n(2) upto_int_from [of ?n ?N] by simp
  have k: "?n + (?N - ?n) \<le> length (values_of rec)" "?N - ?n < 2 ^ 21" using n(2) len by auto
  have post: "take (?N - ?n) (drop ?n (values_of rec)) = post_values rec" by simp
  have pulse: "foldM_go (pulse_step (float_values rec)) (Fin 0, Fin 0, Fin p) [presamples rec..int ?N - 1]
    = Inr (Fin (of_int (sum_list (post_values rec))), Fin (of_int (sum_list (map (\<lambda>v. v * v) (post_values rec)))),
         Fin (Max (insert p (of_int ` set (post_values rec)))))"
    using pulse_loop [OF k, of p] unfolding up [folded n(1)] post Let_def .
  have pk: "fsub r64 (Fin a) (Fin p) = r64 (a - p)" for a by (simp add: fsub_def)
  have N: "(of_int (int ?N - presamples rec) :: rat) = of_int (int (length (post_values rec)))"
    using n(1,2) by (simp add: of_nat_diff)
  have nz: "(of_int (int (length (post_values rec))) :: rat) \<noteq> 0"
  proof -
    have "length (post_values rec) \<noteq> 0" using n(2) by simp
    then show ?thesis unfolding of_int_of_nat_eq of_nat_eq_0_iff .
  qed
  show thesis
  proof (rule that [OF pre p])
    show "analyze_record mulvec d rec = Inr
      (rec\<lparr>pretrigMean := Fin p, pretrigDelta := dl',
           peakValue := r64 (Max (insert p (of_int ` set (post_values rec))) - p),
           pulseAverage := fsub r64 (r64 (of_int (sum_list (post_values rec)) / of_int (int (length (post_values rec))))) (Fin p),
           pulseRMS := fsqrt (mean_square (Fin (of_int (sum_list (post_values rec))))
             (Fin (of_int (sum_list (map (\<lambda>v. v * v) (post_values rec)))))
             (Fin (of_int (int (length (post_values rec))))) (Fin p))\<rparr>)"
      unfolding analyze_record_def data_vec_values [OF ne] bind_go_simps pre prod.case pulse Let_def f N pk
      using assms(1,4) nz by (simp del: of_int_of_nat_eq)
  qed
qed

text \<open>
  The analysis computes what its names say.  For a record of up to two million samples with at
  least one sample before and one after the trigger, the pretrigger mean is the exact mean of the
  samples before the trigger, rounded once; the peak value is the largest sample from the trigger on
  above that mean (zero if none is above); the pulse average is the rounded mean of the samples from the
  trigger on, less the pretrigger mean.
\<close>

theorem analysis_exact:
  assumes "1 \<le> presamples rec" "presamples rec < int (length (recData rec))" "length (recData rec) < 2 ^ 21"
    and "\<not> HasProjectors d"
  shows "\<exists>rec' p. analyze_record mulvec d rec = Inr rec'
    \<and> r64 (of_int (sum_list (pre_values rec)) / of_int (presamples rec)) = Fin p
    \<and> pretrigMean rec' = Fin p
    \<and> peakValue rec' = r64 (Max (insert p (of_int ` set (post_values rec))) - p)
    \<and> pulseAverage rec' = fsub r64 (r64 (of_int (sum_list (post_values rec)) / of_int (int (length (post_values rec))))) (Fin p)
    \<and> recData rec' = recData rec \<and> trigFrame rec' = trigFrame rec"
  by (rule analyze_record_spec [OF assms, of mulvec]) (intro exI conjI, assumption+, simp_all)

subsection \<open>Configuration\<close>

text \<open>What a caller may do to a channel between segments.\<close>

datatype channel_op =
    PulseLengths int int
  | TriggerSettings TriggerState
  | ProjectorsBasis dense dense string

fun channel_step :: "stream_processor \<Rightarrow> channel_op \<Rightarrow> stream_processor go" where
  "channel_step d (PulseLengths n np) = bind_go (dsp_ConfigurePulseLengths d n np) (\<lambda>(d', _). Inr d')"
| "channel_step d (TriggerSettings ts) = Inr (fst (ConfigureTrigger d ts))"
| "channel_step d (ProjectorsBasis P B s) = Inr (fst (SetProjectorsBasis d P B s))"

text \<open>Projectors, when there are any, fit the record length and their basis.\<close>

definition shapes_ok :: "stream_processor \<Rightarrow> bool" where
  "shapes_ok d \<longleftrightarrow> (\<exists>P B. projectors d = Some P \<and> basis d = Some B
     \<and> (IsEmpty P \<or> mcols P = NSamples d \<and> mcols B = mrows P \<and> mrows B = NSamples d \<and> 0 \<le> mrows P))"

text \<open>The two copies of the record length agree (as far as 32 bits go).\<close>

definition lengths_synced :: "stream_processor \<Rightarrow> bool" where
  "lengths_synced d \<longleftrightarrow> nsamp (emt d) = to_int32 (NSamples d) \<and> npre (emt d) = to_int32 (NPresamples d)"

fun op_ok :: "channel_op \<Rightarrow> bool" where
  "op_ok (ProjectorsBasis P B s) = (0 \<le> mrows P)"
| "op_ok _ = True"

fun syncs :: "channel_op \<Rightarrow> bool" where
  "syncs (ProjectorsBasis P B s) = False"
| "syncs _ = True"

lemma sync_emt_fields [simp]:
  "lengths_synced (fst (sync_emt d))"
  "projectors (fst (sync_emt d)) = projectors d" "basis (fst (sync_emt d)) = basis d"
  "NSamples (fst (sync_emt d)) = NSamples d"
  by (simp_all add: sync_emt_def set_emt_def lengths_synced_def EMT_reset_def Let_def)

lemma sync_emt_shapes [simp]: "shapes_ok (fst (sync_emt d)) \<longleftrightarrow> shapes_ok d"
  by (simp add: shapes_ok_def)

lemma channel_step_ok:
  assumes "shapes_ok d" "op_ok c"
  shows "\<exists>d'. channel_step d c = Inr d' \<and> shapes_ok d' \<and> (syncs c \<or> lengths_synced d \<longrightarrow> lengths_synced d')"
proof (cases c)
  case (PulseLengths n np)
  obtain P B where PB: "projectors d = Some P" "basis d = Some B"
    using assms(1) by (auto simp: shapes_ok_def)
  define d1 where "d1 = (if NSamples d \<noteq> n \<or> NPresamples d \<noteq> np
    then set_emt (d\<lparr>projectors := Some empty_dense, basis := Some empty_dense, modelDescription := []\<rparr>)
           (EMT_reset (emt d)) else d)"
  have "(if NSamples d \<noteq> n \<or> NPresamples d \<noteq> np
              then bind_go (removeProjectorsBasis d) (\<lambda>d1. Inr (set_emt d1 (EMT_reset (emt d1))))
              else Inr d) = Inr d1"
    by (simp add: d1_def removeProjectorsBasis_def PB)
  then have step: "channel_step d c = Inr (fst (sync_emt (d1\<lparr>NSamples := n, NPresamples := np\<rparr>)))"
    by (simp add: PulseLengths dsp_ConfigurePulseLengths_def split: prod.split)
  have "shapes_ok (d1\<lparr>NSamples := n, NPresamples := np\<rparr>)"
    using assms(1) by (auto simp: d1_def shapes_ok_def set_emt_def empty_dense_def IsEmpty_def)
  then show ?thesis by (simp add: step)
next
  case (TriggerSettings ts)
  then show ?thesis using assms by (simp add: ConfigureTrigger_def shapes_ok_def)
next
  case (ProjectorsBasis P B s)
  then show ?thesis using assms
    by (auto simp: SetProjectorsBasis_def Let_def shapes_ok_def lengths_synced_def)
qed

text \<open>
  Configuration is safe and consistent: from a new channel, every sequence of settings of record
  lengths, triggers and projectors runs without a panic, and afterwards the projectors, if there are
  any, have one column per sample of a record and a basis of the matching shape; once lengths or
  triggers have been set, the edge-multi search uses the channel's record length and presamples.
\<close>

theorem configuration_consistent:
  assumes "NewDataStreamProcessor now chanIndex chanNum npres nsamps rate bmonChan = Inr d0"
    and "\<forall>c\<in>set ops. op_ok c"
  shows "\<exists>d. foldM_go channel_step d0 ops = Inr d
    \<and> (HasProjectors d \<longrightarrow> (\<exists>P B. projectors d = Some P \<and> basis d = Some B \<and> mcols P = NSamples d
          \<and> mcols B = mrows P \<and> mrows B = NSamples d))
    \<and> ((\<exists>c\<in>set ops. syncs c) \<longrightarrow>
        nsamp (emt d) = to_int32 (NSamples d) \<and> npre (emt d) = to_int32 (NPresamples d))"
proof -
  have run: "\<exists>d. foldM_go channel_step d0 ops = Inr d \<and> shapes_ok d
      \<and> ((\<exists>c\<in>set ops. syncs c) \<or> lengths_synced d0 \<longrightarrow> lengths_synced d)"
    if "shapes_ok d0" "\<forall>c\<in>set ops. op_ok c" for d0
    using that
  proof (induction ops arbitrary: d0)
    case (Cons c ops)
    then obtain d1 where d1: "channel_step d0 c = Inr d1" "shapes_ok d1"
      "syncs c \<or> lengths_synced d0 \<longrightarrow> lengths_synced d1"
      using channel_step_ok [of d0 c] by auto
    show ?case using Cons.IH [OF d1(2)] Cons.prems(2) d1(1,3) by auto
  qed simp
  have "shapes_ok d0"
    using assms(1)
    by (auto simp: NewDataStreamProcessor_def NewBaselineMonitor_def Let_def shapes_ok_def empty_dense_def IsEmpty_def)
  from run [OF this assms(2)] show ?thesis
    by (auto simp: shapes_ok_def lengths_synced_def HasProjectors_def)
qed

subsection \<open>A segment through the channel\<close>

text \<open>What the matrix product of the external package promises.\<close>

definition mulvec_ok :: "(dense \<Rightarrow> go_float list \<Rightarrow> go_float list go) \<Rightarrow> bool" where
  "mulvec_ok mulvec \<longleftrightarrow> (\<forall>m v. 0 \<le> mrows m \<longrightarrow> mcols m = int (length v) \<longrightarrow>
     (\<exists>w. mulvec m v = Inr w \<and> int (length w) = mrows m))"

text \<open>A record as the channel makes it: of the channel's length, with one coefficient per basis vector.\<close>

definition fits_channel :: "stream_processor \<Rightarrow> data_record \<Rightarrow> bool" where
  "fits_channel d rec \<longleftrightarrow> int (length (recData rec)) = NSamples d
     \<and> (\<forall>P. HasProjectors d \<and> projectors d = Some P \<longrightarrow> int (length (modelCoefs rec)) = mrows P)"

text \<open>
  What the analysis makes of a cut record: the pretrigger mean (the exact mean of the samples before the
  trigger, rounded once) and slope, the peak, average and root mean square of the samples from the trigger on,
  and, in a channel with projectors, the coefficients of the record and what the model leaves of it.  The samples
  and all else that the cut has set stay.
\<close>

definition analysed ::
  "(dense \<Rightarrow> go_float list \<Rightarrow> go_float list go) \<Rightarrow> stream_processor \<Rightarrow> data_record \<Rightarrow> data_record \<Rightarrow> bool" where
  "analysed mulvec d rec rec' \<longleftrightarrow> (\<exists>p dl cs sd.
     r64 (of_int (sum_list (pre_values rec)) / of_int (presamples rec)) = Fin p
     \<and> pretrigger rec (float_values rec) = Inr (Fin p, dl)
     \<and> rec' = rec\<lparr>pretrigMean := Fin p, pretrigDelta := dl,
           peakValue := r64 (Max (insert p (of_int ` set (post_values rec))) - p),
           pulseAverage := fsub r64 (r64 (of_int (sum_list (post_values rec)) / of_int (int (length (post_values rec))))) (Fin p),
           pulseRMS := fsqrt (mean_square (Fin (of_int (sum_list (post_values rec))))
             (Fin (of_int (sum_list (map (\<lambda>v. v * v) (post_values rec)))))
             (Fin (of_int (int (length (post_values rec))))) (Fin p)),
           modelCoefs := cs, residualStdDev := sd\<rparr>
     \<and> (if HasProjectors d
        then \<exists>P B full. projectors d = Some P \<and> basis d = Some B \<and> mulvec P (float_values rec) = Inr cs
          \<and> mulvec B cs = Inr full \<and> sd = stdDev (map2 (fsub r64) (float_values rec) full)
        else cs = modelCoefs rec \<and> sd = residualStdDev rec))"

lemma analyze_record_total:
  assumes "1 \<le> presamples rec" "presamples rec < int (length (recData rec))" "length (recData rec) < 2 ^ 21"
    and "shapes_ok d" "int (length (recData rec)) = NSamples d" "mulvec_ok mulvec"
  shows "\<exists>rec'. analyze_record mulvec d rec = Inr rec' \<and> analysed mulvec d rec rec' \<and> fits_channel d rec'"
proof (cases "HasProjectors d")
  case False
  show ?thesis
    by (rule analyze_record_spec [OF assms(1-3) False, of mulvec]) (simp add: fits_channel_def analysed_def False assms(5))
next
  case True
  let ?d = "d\<lparr>projectors := None\<rparr>"
  have np: "\<not> HasProjectors ?d" by (simp add: HasProjectors_def)
  have ne: "recData rec \<noteq> []" using assms(1,2) by auto
  obtain p dl rec1 where pre: "pretrigger rec (float_values rec) = Inr (Fin p, dl)"
    "r64 (of_int (sum_list (pre_values rec)) / of_int (presamples rec)) = Fin p"
    and r1: "analyze_record mulvec ?d rec = Inr rec1"
    and rec1: "rec1 = rec\<lparr>pretrigMean := Fin p, pretrigDelta := dl,
           peakValue := r64 (Max (insert p (of_int ` set (post_values rec))) - p),
           pulseAverage := fsub r64 (r64 (of_int (sum_list (post_values rec)) / of_int (int (length (post_values rec))))) (Fin p),
           pulseRMS := fsqrt (mean_square (Fin (of_int (sum_list (post_values rec))))
             (Fin (of_int (sum_list (map (\<lambda>v. v * v) (post_values rec)))))
             (Fin (of_int (int (length (post_values rec))))) (Fin p))\<rparr>"
    by (rule analyze_record_spec [OF assms(1-3) np, of mulvec]) blast
  have an: "analyze_record mulvec d rec = project_record mulvec d rec1 (float_values rec)"
    using r1 True np unfolding analyze_record_def data_vec_values [OF ne] bind_go_simps
    by (auto simp: bind_go_def Let_def split: sum.splits prod.splits)
  obtain P B where PB: "projectors d = Some P" "basis d = Some B" "mcols P = NSamples d" "mcols B = mrows P"
    "mrows B = NSamples d" "0 \<le> mrows P"
    using assms(4) True by (auto simp: shapes_ok_def HasProjectors_def)
  obtain w where w: "mulvec P (float_values rec) = Inr w" "int (length w) = mrows P"
    using assms(5,6) PB unfolding mulvec_ok_def by force
  obtain x where x: "mulvec B w = Inr x" "int (length x) = mrows B"
    using assms(5,6) PB w(2) unfolding mulvec_ok_def by force
  have "length x = length (recData rec)" using x(2) PB(5) assms(5) by simp
  then have res: "project_record mulvec d rec1 (float_values rec)
      = Inr (rec1\<lparr>modelCoefs := w, residualStdDev := stdDev (map2 (fsub r64) (float_values rec) x)\<rparr>)"
    using PB(1-3) w(1) x(1) assms(5) by (simp add: project_record_def Let_def rec1)
  let ?r = "rec1\<lparr>modelCoefs := w, residualStdDev := stdDev (map2 (fsub r64) (float_values rec) x)\<rparr>"
  have "analysed mulvec d rec ?r"
    unfolding analysed_def rec1
    by (rule exI [of _ p], rule exI [of _ dl], rule exI [of _ w],
        rule exI [of _ "stdDev (map2 (fsub r64) (float_values rec) x)"]) (use pre True PB(1,2) w(1) x(1) in simp)
  moreover have "fits_channel d ?r" using PB(1) assms(5) w(2) by (simp add: fits_channel_def rec1)
  ultimately show ?thesis using an res by simp
qed

lemma analysed_cut: "analysed mulvec d rec rec' \<Longrightarrow> recData rec' = recData rec \<and> trigFrame rec' = trigFrame rec"
  by (auto simp: analysed_def)

definition same_projection :: "stream_processor \<Rightarrow> stream_processor \<Rightarrow> bool" where
  "same_projection d d' \<longleftrightarrow> projectors d' = projectors d \<and> basis d' = basis d"

lemma analysed_same: "same_projection d d' \<Longrightarrow> analysed mulvec d' = analysed mulvec d"
  by (simp add: same_projection_def analysed_def fun_eq_iff HasProjectors_def)

lemma analyze_batch:
  assumes "1 \<le> NPresamples d" "NPresamples d < NSamples d" "NSamples d < 2 ^ 21"
    and "shapes_ok d" "mulvec_ok mulvec"
    and "\<forall>r\<in>set records. presamples r = NPresamples d \<and> int (length (recData r)) = NSamples d"
  shows "\<exists>analyzed. AnalyzeData mulvec d (map Some records) = Inr analyzed
    \<and> list_all2 (analysed mulvec d) records analyzed \<and> (\<forall>r\<in>set analyzed. fits_channel d r)"
  using assms(6)
proof (induction records)
  case (Cons r records)
  have "\<exists>r'. analyze_record mulvec d r = Inr r' \<and> analysed mulvec d r r' \<and> fits_channel d r'"
    using Cons.prems assms(1-5) by (intro analyze_record_total) auto
  then show ?case using Cons by (auto simp: AnalyzeData_def)
qed (simp add: AnalyzeData_def)

lemma analysed_maps: "list_all2 (analysed mulvec d) xs ys \<Longrightarrow> map recData ys = map recData xs \<and> map trigFrame ys = map trigFrame xs"
  by (induction rule: list_all2_induct) (auto dest: analysed_cut)

lemma monitor_baseline_total:
  assumes "dspBaselineMonitor d = Some b" "bmon_ok b"
  shows "\<exists>b' q. monitor_baseline now d vs
    = Some (Inr (d\<lparr>dspBaselineMonitor := Some b', baselineMonitorChan := q\<rparr>)) \<and> bmon_ok b'"
proof -
  obtain b' ms where r: "add_each now b vs = Inr (b', ms)" "bmon_ok b'"
    using add_each_cadence [OF assms(2), of now vs] by blast
  have "AddSliceValues now b vs = Some (Inr (b', ms))"
    using slice_equals_single [OF assms(2)] r(1) by simp
  then have m: "monitor_baseline now d vs = Some (Inr (d\<lparr>dspBaselineMonitor := Some b',
      baselineMonitorChan := (if ms = [] then baselineMonitorChan d
        else map_option (\<lambda>q. q @ [ms]) (baselineMonitorChan d))\<rparr>))"
    using assms(1) by (simp add: monitor_baseline_def Let_def)
  show ?thesis by (intro exI conjI, rule m, rule r(2))
qed

lemma DecimateData_total:
  assumes "DecimateLevel d \<le> 2 ^ 35"
  shows "\<exists>seg'. DecimateData d seg = Inr seg'"
proof (cases "Decimate d \<and> 1 < DecimateLevel d")
  case True
  define L where "L = nat (DecimateLevel d)"
  have L: "DecimateLevel d = int L" "1 < L" "L \<le> 2 ^ 35" using True assms by (simp_all add: L_def)
  show ?thesis
  proof (cases "DecimateAvgMode d")
    case avg: True
    show ?thesis using DecimateData_average [OF _ avg L] True by simp
  next
    case drop: False
    show ?thesis using DecimateData_drop [OF _ drop L(1,2)] True by simp
  qed
qed (simp add: DecimateData_def not_less)

text \<open>Outputs that take every batch the channel can make; settings that a segment leaves alone.\<close>

definition outputs_ready :: "dsp_env \<Rightarrow> stream_processor \<Rightarrow> bool" where
  "outputs_ready env d \<longleftrightarrow> (\<forall>recs. (\<forall>r\<in>set recs. fits_channel d r) \<longrightarrow>
      PulseLaws.ready (env_marshalOFF env) (env_files env) recs (publisher d))"

definition same_settings :: "stream_processor \<Rightarrow> stream_processor \<Rightarrow> bool" where
  "same_settings d d' \<longleftrightarrow> NSamples d' = NSamples d \<and> NPresamples d' = NPresamples d \<and> SampleRate d' = SampleRate d
     \<and> triggerState d' = triggerState d \<and> projectors d' = projectors d \<and> basis d' = basis d
     \<and> Decimate d' = Decimate d \<and> DecimateLevel d' = DecimateLevel d"

text \<open>A channel that can process segments.\<close>

definition channel_ok :: "dsp_env \<Rightarrow> stream_processor \<Rightarrow> bool" where
  "channel_ok env d \<longleftrightarrow> 3 \<le> NPresamples d \<and> NPresamples d < NSamples d \<and> NSamples d < 2 ^ 21
     \<and> \<not> EdgeMulti (triggerState d) \<and> shapes_ok d \<and> mulvec_ok (env_mulvec env)
     \<and> (\<exists>b. dspBaselineMonitor d = Some b \<and> bmon_ok b) \<and> DecimateLevel d \<le> 2 ^ 35 \<and> outputs_ready env d"

lemma shapes_same: "same_settings d d' \<Longrightarrow> shapes_ok d' \<longleftrightarrow> shapes_ok d"
  by (simp add: same_settings_def shapes_ok_def)

lemma fits_same: "same_settings d d' \<Longrightarrow> fits_channel d' = fits_channel d"
  by (simp add: same_settings_def fits_channel_def fun_eq_iff HasProjectors_def)

text \<open>A batch of cut records, analysed and published.\<close>

lemma batch_published:
  assumes "channel_ok env d"
    and "\<forall>r\<in>set records. presamples r = NPresamples d \<and> int (length (recData r)) = NSamples d"
  obtains an dp where "AnalyzeData (env_mulvec env) d (map Some records) = Inr an"
    "list_all2 (analysed (env_mulvec env) d) records an"
    "publish env d an = Inr (d\<lparr>publisher := dp\<rparr>)" "channel_ok env (d\<lparr>publisher := dp\<rparr>)"
    "if an = [] then dp = publisher d
     else published (env_marshal3 env) (env_marshalOFF env) (env_files env) (publisher d) an dp"
proof -
  note ok = assms(1) [unfolded channel_ok_def]
  obtain an where an: "AnalyzeData (env_mulvec env) d (map Some records) = Inr an"
    "list_all2 (analysed (env_mulvec env) d) records an" "\<forall>r\<in>set an. fits_channel d r"
    using analyze_batch [of d "env_mulvec env" records] ok assms(2) by auto
  have rdy: "PulseLaws.ready (env_marshalOFF env) (env_files env) an (publisher d)"
    using ok an(3) by (simp add: outputs_ready_def)
  obtain dp where dp: "PublishData (env_marshal3 env) (env_marshalOFF env) (env_files env) (publisher d) an = Inr (dp, None)"
    "if an = [] then dp = publisher d
     else published (env_marshal3 env) (env_marshalOFF env) (env_files env) (publisher d) an dp"
    "\<forall>recs. PulseLaws.ready (env_marshalOFF env) (env_files env) recs (publisher d)
      \<longrightarrow> PulseLaws.ready (env_marshalOFF env) (env_files env) recs dp"
  proof (cases "an = []")
    case True
    then show thesis by (intro that [of "publisher d"]) (simp_all add: PublishData_def)
  next
    case False
    then show thesis using publish_outputs [OF False rdy, of "env_marshal3 env"] that by auto
  qed
  have same: "same_settings d (d\<lparr>publisher := dp\<rparr>)" by (simp add: same_settings_def)
  have "outputs_ready env (d\<lparr>publisher := dp\<rparr>)"
    using ok dp(3) fits_same [OF same] by (simp add: outputs_ready_def)
  then have "channel_ok env (d\<lparr>publisher := dp\<rparr>)"
    using ok shapes_same [OF same] by (simp add: channel_ok_def)
  then show thesis using an dp by (intro that [of an dp]) (simp_all add: publish_def)
qed

lemma segment_processed_full:
  assumes "channel_ok env d"
  obtains d' seg' js d2' records where "processSegment env d seg = Some (Inr (d', seg'))"
    "DecimateData d seg = Inr seg'" "stream d' = AppendSegment (stream d) seg'"
    "lastTrigList d' = \<lparr>tl_channelIndex = channelIndex d, tl_frames = map trigFrame records,
       tl_keyFrame = firstFrameIndex (stream d'), tl_keyTime = firstTime (stream d'),
       tl_sampleRate = SampleRate d,
       firstFrameThatCannotTrigger = firstFrameIndex (stream d') + int (length (rawData (stream d')))
         - (NSamples d - NPresamples d)\<rparr>"
    "\<forall>r\<in>set records. let k = trigFrame r - firstFrameIndex (stream d') - NPresamples d in
        0 \<le> k \<and> k + NSamples d \<le> int (length (rawData (stream d')))
        \<and> recData r = take (nat (NSamples d)) (drop (nat k) (rawData (stream d')))"
    "if records = [] then publisher d' = publisher d
     else published (env_marshal3 env) (env_marshalOFF env) (env_files env) (publisher d) records (publisher d')"
    "same_settings d d'" "channel_ok env d'" "length records \<le> length (rawData (stream d'))"
    "monitor_baseline (env_now env) d (rawData seg')
      = Some (Inr (d\<lparr>dspBaselineMonitor := dspBaselineMonitor d', baselineMonitorChan := baselineMonitorChan d'\<rparr>))"
    "TriggerData (env_solve env) (d\<lparr>dspBaselineMonitor := dspBaselineMonitor d', baselineMonitorChan := baselineMonitorChan d',
       stream := stream d'\<rparr>) = Some (Inr (d2', map (cut_at (d\<lparr>stream := stream d'\<rparr>)) js))"
    "list_all2 (analysed (env_mulvec env) d) (map (cut_at (d\<lparr>stream := stream d'\<rparr>)) js) records"
proof -
  note ok = assms [unfolded channel_ok_def]
  obtain seg' where seg': "DecimateData d seg = Inr seg'" using DecimateData_total [of d seg] ok by blast
  obtain b where b: "dspBaselineMonitor d = Some b" "bmon_ok b" using ok by blast
  obtain b' q where mon: "monitor_baseline (env_now env) d (rawData seg')
      = Some (Inr (d\<lparr>dspBaselineMonitor := Some b', baselineMonitorChan := q\<rparr>))" "bmon_ok b'"
    using monitor_baseline_total [OF b] by blast
  define d2 where "d2 = d\<lparr>dspBaselineMonitor := Some b', baselineMonitorChan := q,
    stream := AppendSegment (stream d) seg'\<rparr>"
  have rd: "TriggerPasses.ready d2" and em: "\<not> EdgeMulti (triggerState d2)"
    using ok by (simp_all add: d2_def TriggerPasses.ready_def)
  obtain js where js: "TriggerData (env_solve env) d2 = Some (Inr (finish_triggers d2 (recs d2 js)))"
    "well_placed d2 js" using TriggerData_spec [OF rd em] by blast
  let ?rs = "map (cut_at d2) js"
  obtain d3 where fin: "finish_triggers d2 (recs d2 js) = (d3, ?rs)"
    by (simp add: finish_triggers_def Let_def)
  have d3: "stream d3 = stream d2" "publisher d3 = publisher d" "dspBaselineMonitor d3 = Some b'" "same_settings d d3"
    and q: "baselineMonitorChan d3 = q"
    using fin by (cases js; auto simp: finish_triggers_def Let_def d2_def same_settings_def)+
  have tl: "lastTrigList d3 = \<lparr>tl_channelIndex = channelIndex d, tl_frames = map trigFrame ?rs,
       tl_keyFrame = firstFrameIndex (stream d2), tl_keyTime = firstTime (stream d2), tl_sampleRate = SampleRate d,
       firstFrameThatCannotTrigger = firstFrameIndex (stream d2) + int (length (rawData (stream d2)))
         - (NSamples d - NPresamples d)\<rparr>"
    using fin by (cases js; auto simp: finish_triggers_def Let_def d2_def)
  have cut: "NPresamples d \<le> j" "j - NPresamples d + NSamples d \<le> int (length (rawData (stream d2)))"
    "recData (cut_at d2 j) = take (nat (NSamples d)) (drop (nat (j - NPresamples d)) (rawData (stream d2)))"
    "presamples (cut_at d2 j) = NPresamples d" "int (length (recData (cut_at d2 j))) = NSamples d"
    if "j \<in> set js" for j
    using well_placed_fits [OF js(2)] that ok
    by (auto simp: fits_def trig_limit_def cut_at_def cut_record_def d2_def)
  have set3: "NSamples d3 = NSamples d" "NPresamples d3 = NPresamples d" using d3(4) by (simp_all add: same_settings_def)
  have "outputs_ready env d3" using ok d3(2) fits_same [OF d3(4)] by (simp add: outputs_ready_def)
  then have ok3: "channel_ok env d3"
    using ok d3(3,4) shapes_same [OF d3(4)] mon(2) by (simp add: channel_ok_def same_settings_def)
  have "\<forall>r\<in>set ?rs. presamples r = NPresamples d3 \<and> int (length (recData r)) = NSamples d3"
    using cut(4,5) set3 by auto
  from batch_published [OF ok3 this] obtain an dp where an: "AnalyzeData (env_mulvec env) d3 (map Some ?rs) = Inr an"
    "list_all2 (analysed (env_mulvec env) d3) ?rs an"
    "publish env d3 an = Inr (d3\<lparr>publisher := dp\<rparr>)" "channel_ok env (d3\<lparr>publisher := dp\<rparr>)"
    "if an = [] then dp = publisher d3
     else published (env_marshal3 env) (env_marshalOFF env) (env_files env) (publisher d3) an dp"
    by blast
  note maps = conjunct1 [OF analysed_maps [OF an(2)]] conjunct2 [OF analysed_maps [OF an(2)]]
  have run: "processSegment env d seg = Some (Inr (d3\<lparr>publisher := dp\<rparr>, seg'))"
    using mon(1) js(1) fin an(1,3) by (simp add: processSegment_def seg' Let_def flip: d2_def)
  have rec: "let k = trigFrame r - firstFrameIndex (stream d2) - NPresamples d in
        0 \<le> k \<and> k + NSamples d \<le> int (length (rawData (stream d2)))
        \<and> recData r = take (nat (NSamples d)) (drop (nat k) (rawData (stream d2)))" if mem: "r \<in> set an" for r
  proof -
    obtain i where i: "i < length an" "r = an ! i" using mem by (auto simp: in_set_conv_nth)
    have li: "i < length js" using i(1) maps(1) by (metis length_map)
    have "trigFrame r = trigFrame (cut_at d2 (js ! i))" "recData r = recData (cut_at d2 (js ! i))"
      using maps i li by (metis length_map nth_map)+
    then show ?thesis using cut [OF nth_mem [OF li]] by (simp add: Let_def)
  qed
  have "set js \<subseteq> {0..<int (length (rawData (stream d2)))}"
    using cut(1,2) ok by fastforce
  then have "card (set js) \<le> card {0..<int (length (rawData (stream d2)))}" by (intro card_mono) auto
  then have few: "length an \<le> length (rawData (stream d2))"
    using maps(1) js(2) by (simp add: well_placed_def distinct_card map_eq_imp_length_eq [OF maps(1)])
  show thesis
  proof (rule that [OF run seg', of an d3 js])
    show "stream (d3\<lparr>publisher := dp\<rparr>) = AppendSegment (stream d) seg'" by (simp add: d3(1)) (simp add: d2_def)
    show "lastTrigList (d3\<lparr>publisher := dp\<rparr>) = \<lparr>tl_channelIndex = channelIndex d, tl_frames = map trigFrame an,
       tl_keyFrame = firstFrameIndex (stream (d3\<lparr>publisher := dp\<rparr>)), tl_keyTime = firstTime (stream (d3\<lparr>publisher := dp\<rparr>)),
       tl_sampleRate = SampleRate d,
       firstFrameThatCannotTrigger = firstFrameIndex (stream (d3\<lparr>publisher := dp\<rparr>))
         + int (length (rawData (stream (d3\<lparr>publisher := dp\<rparr>)))) - (NSamples d - NPresamples d)\<rparr>"
      using tl maps(2) by (simp add: d3(1))
    show "\<forall>r\<in>set an. let k = trigFrame r - firstFrameIndex (stream (d3\<lparr>publisher := dp\<rparr>)) - NPresamples d in
        0 \<le> k \<and> k + NSamples d \<le> int (length (rawData (stream (d3\<lparr>publisher := dp\<rparr>))))
        \<and> recData r = take (nat (NSamples d)) (drop (nat k) (rawData (stream (d3\<lparr>publisher := dp\<rparr>))))"
      using rec by (simp add: d3(1))
    show "if an = [] then publisher (d3\<lparr>publisher := dp\<rparr>) = publisher d
       else published (env_marshal3 env) (env_marshalOFF env) (env_files env) (publisher d) an (publisher (d3\<lparr>publisher := dp\<rparr>))"
      using an(5) d3(2) by (cases "an = []") simp_all
    show "same_settings d (d3\<lparr>publisher := dp\<rparr>)" using d3(4) by (simp add: same_settings_def)
    show "channel_ok env (d3\<lparr>publisher := dp\<rparr>)" by (rule an(4))
    show "length an \<le> length (rawData (stream (d3\<lparr>publisher := dp\<rparr>)))" using few d3(1) by simp
    show "monitor_baseline (env_now env) d (rawData seg') = Some (Inr (d\<lparr>dspBaselineMonitor :=
        dspBaselineMonitor (d3\<lparr>publisher := dp\<rparr>), baselineMonitorChan := baselineMonitorChan (d3\<lparr>publisher := dp\<rparr>)\<rparr>))"
      using mon(1) d3(3) q by simp
    have e: "d\<lparr>dspBaselineMonitor := dspBaselineMonitor (d3\<lparr>publisher := dp\<rparr>),
        baselineMonitorChan := baselineMonitorChan (d3\<lparr>publisher := dp\<rparr>), stream := stream (d3\<lparr>publisher := dp\<rparr>)\<rparr> = d2"
      using d3(1,3) q by (simp add: d2_def)
    have c: "cut_at (d\<lparr>stream := stream (d3\<lparr>publisher := dp\<rparr>)\<rparr>) = cut_at d2"
      using d3(1) by (simp add: d2_def cut_at_def cut_record_def fun_eq_iff)
    show "TriggerData (env_solve env) (d\<lparr>dspBaselineMonitor := dspBaselineMonitor (d3\<lparr>publisher := dp\<rparr>),
        baselineMonitorChan := baselineMonitorChan (d3\<lparr>publisher := dp\<rparr>), stream := stream (d3\<lparr>publisher := dp\<rparr>)\<rparr>)
      = Some (Inr (d3, map (cut_at (d\<lparr>stream := stream (d3\<lparr>publisher := dp\<rparr>)\<rparr>)) js))"
      unfolding e c using js(1) fin by simp
    have "same_projection d d3" using d3(4) by (simp add: same_projection_def same_settings_def)
    then show "list_all2 (analysed (env_mulvec env) d) (map (cut_at (d\<lparr>stream := stream (d3\<lparr>publisher := dp\<rparr>)\<rparr>)) js) an"
      unfolding c using an(2) by (simp add: analysed_same)
  qed
qed

lemma segment_processed:
  assumes "channel_ok env d"
  obtains d' seg' records where "processSegment env d seg = Some (Inr (d', seg'))"
    "DecimateData d seg = Inr seg'" "stream d' = AppendSegment (stream d) seg'"
    "lastTrigList d' = \<lparr>tl_channelIndex = channelIndex d, tl_frames = map trigFrame records,
       tl_keyFrame = firstFrameIndex (stream d'), tl_keyTime = firstTime (stream d'),
       tl_sampleRate = SampleRate d,
       firstFrameThatCannotTrigger = firstFrameIndex (stream d') + int (length (rawData (stream d')))
         - (NSamples d - NPresamples d)\<rparr>"
    "\<forall>r\<in>set records. let k = trigFrame r - firstFrameIndex (stream d') - NPresamples d in
        0 \<le> k \<and> k + NSamples d \<le> int (length (rawData (stream d')))
        \<and> recData r = take (nat (NSamples d)) (drop (nat k) (rawData (stream d')))"
    "if records = [] then publisher d' = publisher d
     else published (env_marshal3 env) (env_marshalOFF env) (env_files env) (publisher d) records (publisher d')"
    "same_settings d d'" "channel_ok env d'" "length records \<le> length (rawData (stream d'))"
  by (rule segment_processed_full [OF assms, of seg]) (rule that)

text \<open>
  C26: A segment runs through the whole channel.  Let the channel not use the edge-multi search, have 3 presamples
  at least, more samples than presamples and fewer than 2^21, projectors of that length if any (and let the
  matrix library return products of the right size), a decimation level up to 2^35 and a baseline
  monitor in working order; and let each of its writers be set up for records of that length and number of coefficients,
  have its file open, or able to be opened now (with a header that can be encoded), and a channel to the file that has
  room for every write still to come.  Then \<open>processSegment\<close> returns.  The decimated
  segment goes to the baseline monitor and is appended to the buffer; the triggers of the buffer are searched, and each
  becomes one record of \<open>NSamples\<close> consecutive samples, with its pretrigger mean and slope, peak,
  average, root mean square and (with projectors) coefficients and residual computed from these samples; exactly these
  records, in the order of the trigger list handed to the broker, reach every output that is not paused;
  and the channel stays in the same good state.
\<close>

theorem segment_to_outputs:
  assumes "channel_ok env d"
  shows "\<exists>d' seg' d2 js records. processSegment env d seg = Some (Inr (d', seg'))
    \<and> DecimateData d seg = Inr seg' \<and> stream d' = AppendSegment (stream d) seg'
    \<and> monitor_baseline (env_now env) d (rawData seg')
      = Some (Inr (d\<lparr>dspBaselineMonitor := dspBaselineMonitor d', baselineMonitorChan := baselineMonitorChan d'\<rparr>))
    \<and> TriggerData (env_solve env) (d\<lparr>dspBaselineMonitor := dspBaselineMonitor d', baselineMonitorChan := baselineMonitorChan d',
       stream := stream d'\<rparr>) = Some (Inr (d2, map (cut_at (d\<lparr>stream := stream d'\<rparr>)) js))
    \<and> list_all2 (analysed (env_mulvec env) d) (map (cut_at (d\<lparr>stream := stream d'\<rparr>)) js) records
    \<and> tl_frames (lastTrigList d') = map trigFrame records
    \<and> (\<forall>r\<in>set records. let k = trigFrame r - firstFrameIndex (stream d') - NPresamples d in
        0 \<le> k \<and> k + NSamples d \<le> int (length (rawData (stream d')))
        \<and> recData r = take (nat (NSamples d)) (drop (nat k) (rawData (stream d'))))
    \<and> (if records = [] then publisher d' = publisher d
       else published (env_marshal3 env) (env_marshalOFF env) (env_files env) (publisher d) records (publisher d'))
    \<and> same_settings d d' \<and> channel_ok env d'"
  by (rule segment_processed_full [OF assms, of seg], intro exI conjI, assumption+, simp, assumption+)

subsection \<open>Concrete inputs\<close>

text \<open>A channel with the demonstration settings and nothing to write to.\<close>

definition demo_processor :: "bool \<Rightarrow> int \<Rightarrow> stream_processor" where
  "demo_processor avg level = dsp.extend (demo_channel [])
     (stream_processor.fields 1 ''chan1'' 0 (Some demo_monitor) None (Some empty_dense) [] (Some empty_dense)
        level True avg DataPublisher_zero)"

definition demo_segment :: "raw list \<Rightarrow> data_segment" where
  "demo_segment data = NewDataSegment data 1 1000 0 1"

definition demo_channel_env :: dsp_env where
  "demo_channel_env = \<lparr>env_solve = no_solution, env_mulvec = (\<lambda>m v. Inr (replicate (nat (mrows m)) (Fin 0))),
     env_marshal3 = (\<lambda>_. ''{}''), env_marshalOFF = (\<lambda>_. None), env_files = demo_env, env_now = 0\<rparr>"

lemma demo_processor_simps [simp]:
  "Decimate (demo_processor avg level)" "DecimateAvgMode (demo_processor avg level) = avg"
  "DecimateLevel (demo_processor avg level) = level" "\<not> HasProjectors (demo_processor avg level)"
  "NSamples (demo_processor avg level) = 5" "NPresamples (demo_processor avg level) = 3"
  "triggerState (demo_processor avg level) = demo_state" "publisher (demo_processor avg level) = DataPublisher_zero"
  "dspBaselineMonitor (demo_processor avg level) = Some demo_monitor"
  "projectors (demo_processor avg level) = Some empty_dense" "basis (demo_processor avg level) = Some empty_dense"
  by (simp_all add: demo_processor_def stream_processor.defs dsp.defs demo_channel_def HasProjectors_def
    IsEmpty_def empty_dense_def)

lemma demo_segment_simps [simp]:
  "signedData (demo_segment xs) = False" "rawData (demo_segment xs) = xs"
  by (simp_all add: demo_segment_def NewDataSegment_def)

text \<open>Seven samples decimated by three: the last group has a single sample.\<close>

theorem decimation_keeps_every_nth_witness:
  "\<exists>seg'. DecimateData (demo_processor False 3) (demo_segment [10, 20, 30, 40, 50, 60, 70]) = Inr seg'
    \<and> rawData seg' = [10, 40, 70]"
proof -
  have u: "[0..<3] = [0, 1, 2 :: nat]" by (simp add: upt_rec)
  show ?thesis
    using decimation_keeps_every_nth [of "demo_processor False 3" 3 "demo_segment [10, 20, 30, 40, 50, 60, 70]"]
    by (auto simp: u decimated_length_def)
qed

theorem decimation_averages_groups_witness:
  "\<exists>seg'. DecimateData (demo_processor True 3) (demo_segment (replicate 7 1000)) = Inr seg'
    \<and> map (sample_value False) (rawData seg') = [1000, 1000, 333]"
proof -
  let ?s = "demo_segment (replicate 7 1000)"
  let ?g = "\<lambda>j. sum_list (map (sample_value False) (group_of 3 (replicate 7 1000) j))"
  have len: "decimated_length (int 3) 7 = 3" by (simp add: decimated_length_def)
  have "\<exists>seg'. DecimateData (demo_processor True 3) ?s = Inr seg' \<and> length (rawData seg') = 3
      \<and> (\<forall>j<3. sample_value False (rawData seg' ! j) = (2 * ?g j + 3) div 6)"
    using decimation_averages_groups [of "demo_processor True 3" 3 ?s] len by (auto simp: Let_def)
  then obtain seg' where seg': "DecimateData (demo_processor True 3) ?s = Inr seg'" "length (rawData seg') = 3"
    "\<forall>j<3. sample_value False (rawData seg' ! j) = (2 * ?g j + 3) div 6" by blast
  have rep: "replicate 7 (1000 :: raw) = [1000, 1000, 1000, 1000, 1000, 1000, 1000]"
    by (simp add: numeral_nat)
  have v: "sample_value False 1000 = 1000" by (simp add: sample_value_def)
  have g: "?g 0 = 3000" "?g 1 = 3000" "?g 2 = 1000"
    unfolding rep group_of_def by (simp_all add: v numeral_3_eq_3 numeral_2_eq_2)
  obtain a b c where abc: "rawData seg' = [a, b, c]"
    using seg'(2) by (auto simp: numeral_3_eq_3 length_Suc_conv)
  have "sample_value False a = 1000"
    using seg'(3) [rule_format, of 0] unfolding g abc by simp
  moreover have "sample_value False b = 1000"
    using seg'(3) [rule_format, of 1] unfolding g abc by simp
  moreover have "sample_value False c = 333"
    using seg'(3) [rule_format, of 2] unfolding g abc by simp
  ultimately show ?thesis using seg'(1) abc by simp
qed

theorem analysis_exact_witness:
  "\<exists>rec' p. analyze_record (env_mulvec demo_channel_env) (demo_processor False 1)
      (demo_record\<lparr>recData := [10, 11, 50, 30], presamples := 2\<rparr>) = Inr rec'
    \<and> pretrigMean rec' = Fin p \<and> peakValue rec' = r64 (50 - p) \<and> r64 (21 / 2) = Fin p"
proof -
  let ?r = "demo_record\<lparr>recData := [10, 11, 50, 30], presamples := 2\<rparr>"
  have v: "values_of ?r = [10, 11, 50, 30]"
    by (simp add: values_of_def sample_value_def demo_record_def)
  have pp: "take (nat 2) (values_of ?r) = [10, 11]" "drop (nat 2) (values_of ?r) = [50, 30]"
    unfolding v by (simp_all add: numeral_2_eq_2)
  have h: "1 \<le> presamples ?r" "presamples ?r < int (length (recData ?r))" "length (recData ?r) < 2 ^ 21"
    "presamples ?r = 2" "\<not> HasProjectors (demo_processor False 1)" by simp_all
  obtain rec' p where r: "analyze_record (env_mulvec demo_channel_env) (demo_processor False 1) ?r = Inr rec'"
    "r64 (of_int (sum_list [10, 11]) / of_int 2) = Fin p" "pretrigMean rec' = Fin p"
    "peakValue rec' = r64 (Max (insert p (of_int ` set [50, 30])) - p)"
    using analysis_exact [OF h(1-3,5), of "env_mulvec demo_channel_env"] unfolding pp h(4) by blast
  have p: "r64 (21 / 2) = Fin p" using r(2) by simp
  have "p \<le> 50" using r64_mono [OF _ p, of 50 50] r64_exact [of 50 0] by simp
  then have "Max (insert p (of_int ` set [50, 30])) = 50" by (simp add: max_def)
  then show ?thesis using r p by auto
qed

theorem configuration_consistent_witness:
  "\<exists>d0 d. NewDataStreamProcessor 0 0 1 100 500 (Fin 1000) None = Inr d0
    \<and> foldM_go channel_step d0 [PulseLengths 1000 250] = Inr d \<and> nsamp (emt d) = to_int32 (NSamples d)"
proof -
  obtain d0 where d0: "NewDataStreamProcessor 0 0 1 100 500 (Fin 1000) None = Inr d0"
    by (simp add: NewDataStreamProcessor_def NewBaselineMonitor_def Let_def)
  then show ?thesis
    using configuration_consistent [OF d0, of "[PulseLengths 1000 250]"] by auto
qed

lemma demo_processor_ok: "channel_ok demo_channel_env (demo_processor False 1)"
  by (simp add: channel_ok_def mulvec_ok_def demo_channel_env_def shapes_ok_def IsEmpty_def empty_dense_def
    outputs_ready_def PulseLaws.ready_def DataPublisher_zero_def demo_monitor_ok)

text \<open>The same channel with an LJH22 file that can be created, and a socket for its records.\<close>

definition writing_processor :: stream_processor where
  "writing_processor = (demo_processor False 1)\<lparr>publisher := SetLJH22 demo_env (DataPublisher_zero\<lparr>pubRecordsChan := Some []\<rparr>)
     1 3 5 1 (Fin 1) 0 1 1 1 64 0 0 3 ''run.ljh'' ''lab'' ''chan1'' 1 \<lparr>pixX = 0, pixY = 0, pixelName = ''p''\<rparr>\<rparr>"

lemma writing_processor_ok: "channel_ok demo_channel_env writing_processor"
proof -
  have "outputs_ready demo_channel_env writing_processor"
    by (simp add: outputs_ready_def fits_channel_def writing_processor_def PulseLaws.ready_def SetLJH22_def DataPublisher_zero_def
      ready_ljh22_def demo_channel_env_def demo_env_def room_from_def)
  then show ?thesis
    using demo_processor_ok by (simp add: channel_ok_def writing_processor_def shapes_ok_def)
qed

theorem segment_to_outputs_witness:
  "\<exists>d' seg' js records. processSegment demo_channel_env writing_processor (demo_segment demo_data) = Some (Inr (d', seg'))
    \<and> list_all2 (analysed (env_mulvec demo_channel_env) writing_processor)
        (map (cut_at (writing_processor\<lparr>stream := stream d'\<rparr>)) js) records
    \<and> HasLJH22 (publisher writing_processor)
    \<and> (records \<noteq> [] \<longrightarrow> pubRecordsChan (publisher d') = Some [records] \<and> numberWritten (publisher d') = int (length records))
    \<and> channel_ok demo_channel_env d'"
proof -
  obtain d' seg' d2 js records where r: "processSegment demo_channel_env writing_processor (demo_segment demo_data) = Some (Inr (d', seg'))"
    "list_all2 (analysed (env_mulvec demo_channel_env) writing_processor)
        (map (cut_at (writing_processor\<lparr>stream := stream d'\<rparr>)) js) records"
    "if records = [] then publisher d' = publisher writing_processor
     else published (env_marshal3 demo_channel_env) (env_marshalOFF demo_channel_env) (env_files demo_channel_env)
       (publisher writing_processor) records (publisher d')" "channel_ok demo_channel_env d'"
    using segment_to_outputs [OF writing_processor_ok, of "demo_segment demo_data"] by blast
  have p: "HasLJH22 (publisher writing_processor)" "pubRecordsChan (publisher writing_processor) = Some []"
    "\<not> WritingPaused (publisher writing_processor)" "numberWritten (publisher writing_processor) = 0"
    by (simp_all add: writing_processor_def SetLJH22_def HasLJH22_def DataPublisher_zero_def)
  have "pubRecordsChan (publisher d') = Some [records] \<and> numberWritten (publisher d') = int (length records)"
    if "records \<noteq> []" using r(3) that p by (simp add: published_def)
  then show ?thesis using r(1,2,4) p(1) by blast
qed

end
