(* ===== verification/GroupLaws.thy ===== *)
theory GroupLaws
  imports GroupTrigger
begin

text \<open>
  What the trigger broker promises: its connections are a relation between channels whose size it
  counts, its counters count every trigger once and stay in step with each other, so that the
  rate messages it builds from them agree, and each receiver gets the sorted triggers of its
  sources.
\<close>

subsection \<open>The counting loops\<close>

lemma advance_iff:
  "advance f tc = Some tc' \<longleftrightarrow>
    (\<exists>n. tc' = (messageAndReset ^^ n) tc \<and> f \<le> tc_hi tc'
      \<and> (\<forall>k<n. tc_hi ((messageAndReset ^^ k) tc) < f))"
proof
  show "\<exists>n. tc' = (messageAndReset ^^ n) tc \<and> f \<le> tc_hi tc'
      \<and> (\<forall>k<n. tc_hi ((messageAndReset ^^ k) tc) < f)" if "advance f tc = Some tc'"
  proof (rule advance.raw_induct [OF _ that])
    fix rec :: "frame_index \<Rightarrow> TriggerCounter \<Rightarrow> TriggerCounter option" and f tc tc'
    assume IH: "\<And>f tc tc'. rec f tc = Some tc' \<Longrightarrow> \<exists>n. tc' = (messageAndReset ^^ n) tc
        \<and> f \<le> tc_hi tc' \<and> (\<forall>k<n. tc_hi ((messageAndReset ^^ k) tc) < f)"
      and prem: "(if tc_hi tc < f then rec f (messageAndReset tc) else Some tc) = Some tc'"
    show "\<exists>n. tc' = (messageAndReset ^^ n) tc \<and> f \<le> tc_hi tc'
        \<and> (\<forall>k<n. tc_hi ((messageAndReset ^^ k) tc) < f)"
    proof (cases "f > tc_hi tc")
      case True
      then have "rec f (messageAndReset tc) = Some tc'" using prem by simp
      from IH [OF this] obtain n where n: "tc' = (messageAndReset ^^ n) (messageAndReset tc)"
        "f \<le> tc_hi tc'" "\<forall>k<n. tc_hi ((messageAndReset ^^ k) (messageAndReset tc)) < f"
        by blast
      have "tc_hi ((messageAndReset ^^ k) tc) < f" if "k < Suc n" for k
        using that n(3) True by (cases k) (auto simp: funpow_swap1)
      then show ?thesis using n(1,2) by (intro exI [of _ "Suc n"]) (auto simp: funpow_swap1)
    next
      case False
      then show ?thesis using prem by (intro exI [of _ 0]) auto
    qed
  qed
next
  assume "\<exists>n. tc' = (messageAndReset ^^ n) tc \<and> f \<le> tc_hi tc'
      \<and> (\<forall>k<n. tc_hi ((messageAndReset ^^ k) tc) < f)"
  then obtain n where "tc' = (messageAndReset ^^ n) tc" "f \<le> tc_hi tc'"
    "\<forall>k<n. tc_hi ((messageAndReset ^^ k) tc) < f" by blast
  then show "advance f tc = Some tc'"
  proof (induction n arbitrary: tc)
    case 0
    then show ?case by (subst advance.simps) simp
  next
    case (Suc n)
    have "\<forall>k<n. tc_hi ((messageAndReset ^^ k) (messageAndReset tc)) < f"
      using Suc.prems(3) by (auto simp: funpow_swap1 dest: spec [of _ "Suc _"])
    then have "advance f (messageAndReset tc) = Some tc'"
      using Suc.IH [of "messageAndReset tc"] Suc.prems(1,2) by (simp add: funpow_swap1)
    moreover have "tc_hi tc < f" using Suc.prems(3) by (auto dest: spec [of _ 0])
    ultimately show ?case by (subst advance.simps) simp
  qed
qed

text \<open>
  Everything of a counter but its counts: all that decides when it reports.
\<close>

definition timing where
  "timing tc = (tc_hi tc, tc_lo tc, tc_hiTime tc, stepDuration tc, tc_sampleRate tc, tc_keyTime tc,
     tc_keyFrame tc, tc_initialized tc, map (\<lambda>m. (msg_hiTime m, msg_duration m)) (tc_messages tc))"

lemma timing_reset: "timing a = timing b \<Longrightarrow> timing (messageAndReset a) = timing (messageAndReset b)"
  by (simp add: timing_def messageAndReset_def Let_def)

lemma timing_resets:
  "timing a = timing b \<Longrightarrow> timing ((messageAndReset ^^ n) a) = timing ((messageAndReset ^^ n) b)"
  by (induction n) (auto intro: timing_reset)

lemma timing_hi: "timing a = timing b \<Longrightarrow> tc_hi a = tc_hi b"
  by (simp add: timing_def)

lemma timing_count [simp]: "timing (tc\<lparr>countsSeen := x\<rparr>) = timing tc"
  by (simp add: timing_def)

lemma advance_timing:
  assumes "advance g a = Some a'"
  shows "\<exists>n. timing a' = timing ((messageAndReset ^^ n) a)
    \<and> g \<le> tc_hi a' \<and> (\<forall>k<n. tc_hi ((messageAndReset ^^ k) a) < g)"
  using assms unfolding advance_iff by blast

lemma resets_compose:
  assumes "timing a' = timing ((messageAndReset ^^ n) a)" "\<forall>k<n. tc_hi ((messageAndReset ^^ k) a) < g"
    and "timing a'' = timing ((messageAndReset ^^ m) a')" "\<forall>k<m. tc_hi ((messageAndReset ^^ k) a') < h"
    and "g \<le> h"
  shows "timing a'' = timing ((messageAndReset ^^ (m + n)) a)
    \<and> (\<forall>k<m + n. tc_hi ((messageAndReset ^^ k) a) < h)"
proof -
  have eq: "timing ((messageAndReset ^^ k) a') = timing ((messageAndReset ^^ (k + n)) a)" for k
    using timing_resets [OF assms(1), of k] by (simp add: funpow_add)
  have "tc_hi ((messageAndReset ^^ k) a) < h" if "k < m + n" for k
  proof (cases "k < n")
    case True
    then show ?thesis using assms(2,5) by fastforce
  next
    case False
    then have "tc_hi ((messageAndReset ^^ (k - n)) a') < h" using assms(4) that by auto
    then show ?thesis using timing_hi [OF eq [of "k - n"]] False by simp
  qed
  then show ?thesis using assms(3) eq [of m] by simp
qed

lemma count_frames_timing:
  assumes "count_frames fs a = Some a'" "\<forall>f\<in>set fs. f \<le> g"
  shows "\<exists>n. timing a' = timing ((messageAndReset ^^ n) a)
    \<and> (\<forall>k<n. tc_hi ((messageAndReset ^^ k) a) < g)"
  using assms
proof (induction fs arbitrary: a)
  case Nil
  then show ?case by (intro exI [of _ 0]) simp
next
  case (Cons f fs)
  then obtain b where b: "advance f a = Some b" by (auto split: bind_splits)
  define c where "c = (if f \<ge> tc_lo b then b\<lparr>countsSeen := countsSeen b + 1\<rparr> else b)"
  have c: "count_frames fs c = Some a'" using Cons.prems(1) b by (simp add: c_def)
  obtain n where n: "timing c = timing ((messageAndReset ^^ n) a)"
    "\<forall>k<n. tc_hi ((messageAndReset ^^ k) a) < f"
    using advance_timing [OF b] by (auto simp: c_def)
  obtain m where m: "timing a' = timing ((messageAndReset ^^ m) c)"
    "\<forall>k<m. tc_hi ((messageAndReset ^^ k) c) < g"
    using Cons.IH [OF c] Cons.prems(2) by auto
  show ?case using resets_compose [OF n m] Cons.prems(2) by auto
qed

lemma counting_timing:
  assumes "count_frames fs a = Some b" "advance g b = Some c" "\<forall>f\<in>set fs. f \<le> g"
  shows "\<exists>n. timing c = timing ((messageAndReset ^^ n) a) \<and> g \<le> tc_hi ((messageAndReset ^^ n) a)
    \<and> (\<forall>k<n. tc_hi ((messageAndReset ^^ k) a) < g)"
proof -
  obtain n where n: "timing b = timing ((messageAndReset ^^ n) a)"
    "\<forall>k<n. tc_hi ((messageAndReset ^^ k) a) < g"
    using count_frames_timing [OF assms(1,3)] by blast
  obtain m where m: "timing c = timing ((messageAndReset ^^ m) b)" "g \<le> tc_hi c"
    "\<forall>k<m. tc_hi ((messageAndReset ^^ k) b) < g"
    using advance_timing [OF assms(2)] by blast
  show ?thesis using resets_compose [OF n m(1,3) order_refl] m(2) timing_hi by metis
qed

text \<open>The counters of two channels stay in step, whatever their triggers.\<close>

definition same_interval :: "triggerList \<Rightarrow> triggerList \<Rightarrow> bool" where
  "same_interval x y \<longleftrightarrow> tl_keyFrame x = tl_keyFrame y \<and> tl_keyTime x = tl_keyTime y
     \<and> tl_sampleRate x = tl_sampleRate y
     \<and> firstFrameThatCannotTrigger x = firstFrameThatCannotTrigger y"

definition frames_ok :: "triggerList \<Rightarrow> bool" where
  "frames_ok x \<longleftrightarrow> (\<forall>f\<in>set (tl_frames x). f \<le> firstFrameThatCannotTrigger x)"

lemma start_at_timing: "timing a = timing b \<Longrightarrow> timing (start_at a t) = timing (start_at b t)"
  by (simp add: timing_def start_at_def Let_def)

lemma initialize_timing:
  assumes "timing a = timing b" "tc_initialize a = Some a'" "tc_initialize b = Some b'"
  shows "timing a' = timing b'"
proof -
  have k: "tc_keyTime a = tc_keyTime b" "stepDuration a = stepDuration b"
    using assms(1) by (simp_all add: timing_def)
  obtain t where "catch_up (time_round (tc_keyTime a) (stepDuration a)) (tc_keyTime a)
      (stepDuration a) = Some t" "a' = start_at a t"
    using assms(2) unfolding tc_initialize_def by (auto simp del: catch_up.simps)
  moreover from this have "b' = start_at b t"
    using assms(3) unfolding tc_initialize_def k by simp
  ultimately show ?thesis using start_at_timing [OF assms(1)] by simp
qed

lemma countNewTriggers_timing:
  assumes sync: "timing a = timing b" "same_interval x y" "frames_ok x" "frames_ok y"
    and "countNewTriggers a x = Some a'" "countNewTriggers b y = Some b'"
  shows "timing a' = timing b'"
proof -
  define a1 where "a1 = a\<lparr>tc_keyFrame := tl_keyFrame x, tc_keyTime := tl_keyTime x,
    tc_sampleRate := tl_sampleRate x\<rparr>"
  define b1 where "b1 = b\<lparr>tc_keyFrame := tl_keyFrame y, tc_keyTime := tl_keyTime y,
    tc_sampleRate := tl_sampleRate y\<rparr>"
  have 1: "timing a1 = timing b1"
    using sync by (simp add: timing_def a1_def b1_def same_interval_def)
  have r: "tc_sampleRate a1 = tc_sampleRate b1" "tc_initialized a1 = tc_initialized b1"
    using 1 by (simp_all add: timing_def)
  show ?thesis
  proof (cases "fle (tc_sampleRate a1) (Fin 0)")
    case True
    then have "a' = a1" "b' = b1"
      using assms(5,6) r by (simp_all add: countNewTriggers_def Let_def flip: a1_def b1_def)
    then show ?thesis using 1 by simp
  next
    case False
    have "Option.bind (if tc_initialized a1 then Some a1 else tc_initialize a1) (\<lambda>tc2.
        Option.bind (count_frames (tl_frames x) tc2) (\<lambda>tc3. advance (firstFrameThatCannotTrigger x) tc3)) = Some a'"
      "Option.bind (if tc_initialized b1 then Some b1 else tc_initialize b1) (\<lambda>tc2.
        Option.bind (count_frames (tl_frames y) tc2) (\<lambda>tc3. advance (firstFrameThatCannotTrigger y) tc3)) = Some b'"
      using assms(5,6) False r by (simp_all add: countNewTriggers_def Let_def flip: a1_def b1_def)
    then obtain a2 a3 b2 b3 where
      2: "(if tc_initialized a1 then Some a1 else tc_initialize a1) = Some a2"
        "(if tc_initialized b1 then Some b1 else tc_initialize b1) = Some b2"
      and 3: "count_frames (tl_frames x) a2 = Some a3" "count_frames (tl_frames y) b2 = Some b3"
        "advance (firstFrameThatCannotTrigger x) a3 = Some a'"
        "advance (firstFrameThatCannotTrigger y) b3 = Some b'"
      by (auto simp: bind_eq_Some_conv)
    have t2: "timing a2 = timing b2"
    proof (cases "tc_initialized a1")
      case True
      then show ?thesis using 2 1 r(2) by simp
    next
      case False
      then show ?thesis using 2 r(2) by (intro initialize_timing [OF 1]) simp_all
    qed
    obtain n where n: "timing a' = timing ((messageAndReset ^^ n) a2)"
      "firstFrameThatCannotTrigger x \<le> tc_hi ((messageAndReset ^^ n) a2)"
      "\<forall>k<n. tc_hi ((messageAndReset ^^ k) a2) < firstFrameThatCannotTrigger x"
      using counting_timing [OF 3(1,3)] sync(3) by (auto simp: frames_ok_def)
    obtain m where m: "timing b' = timing ((messageAndReset ^^ m) b2)"
      "firstFrameThatCannotTrigger x \<le> tc_hi ((messageAndReset ^^ m) b2)"
      "\<forall>k<m. tc_hi ((messageAndReset ^^ k) b2) < firstFrameThatCannotTrigger x"
      using counting_timing [OF 3(2,4)] sync(2,4) by (auto simp: frames_ok_def same_interval_def)
    have hi: "tc_hi ((messageAndReset ^^ k) a2) = tc_hi ((messageAndReset ^^ k) b2)" for k
      using timing_hi [OF timing_resets [OF t2]] .
    have "n = m" using n m hi by (metis linorder_not_less nat_neq_iff)
    then show ?thesis using n(1) m(1) timing_resets [OF t2, of n] by simp
  qed
qed

subsection \<open>Every trigger is counted once\<close>

definition total_seen :: "TriggerCounter \<Rightarrow> int" where
  "total_seen tc = sum_list (map msg_countsSeen (tc_messages tc)) + countsSeen tc"

lemma total_seen_resets [simp]: "total_seen ((messageAndReset ^^ n) tc) = total_seen tc"
  by (induction n) (simp_all add: total_seen_def messageAndReset_def Let_def)

lemma advance_lo:
  assumes "advance f tc = Some tc'" "tc_lo tc \<le> f"
  shows "tc_lo tc' \<le> f" "total_seen tc' = total_seen tc"
proof -
  obtain n where n: "tc' = (messageAndReset ^^ n) tc" "\<forall>k<n. tc_hi ((messageAndReset ^^ k) tc) < f"
    using assms(1) unfolding advance_iff by blast
  show "tc_lo tc' \<le> f"
  proof (cases n)
    case 0
    then show ?thesis using n assms(2) by simp
  next
    case (Suc k)
    then have "tc_lo tc' = tc_hi ((messageAndReset ^^ k) tc) + 1"
      by (simp add: n(1) messageAndReset_def Let_def)
    then show ?thesis using n(2) Suc by auto
  qed
  show "total_seen tc' = total_seen tc" by (simp add: n(1))
qed

lemma advance_total: "advance f tc = Some tc' \<Longrightarrow> total_seen tc' = total_seen tc"
  unfolding advance_iff by auto

lemma count_frames_total:
  assumes "count_frames fs tc = Some tc'" "sorted fs" "\<forall>f\<in>set fs. tc_lo tc \<le> f"
  shows "total_seen tc' = total_seen tc + int (length fs)"
  using assms
proof (induction fs arbitrary: tc)
  case (Cons f fs)
  obtain b where b: "advance f tc = Some b" using Cons.prems(1) by (auto split: bind_splits)
  have lo: "tc_lo b \<le> f" "total_seen b = total_seen tc"
    using advance_lo [OF b] Cons.prems(3) by auto
  let ?c = "b\<lparr>countsSeen := countsSeen b + 1\<rparr>"
  have "count_frames fs ?c = Some tc'" using Cons.prems(1) b lo(1) by simp
  then have "total_seen tc' = total_seen ?c + int (length fs)"
    using Cons.IH [of ?c] Cons.prems(2) lo(1) by fastforce
  then show ?case using lo(2) by (simp add: total_seen_def)
qed simp

text \<open>
  C16: A running counter counts every trigger it is told about, once: the counts of its messages and
  of the interval still open grow by the number of triggers, when the triggers are in order and not
  before the interval that is open.
\<close>

theorem every_trigger_counted:
  assumes "countNewTriggers tc tList = Some tc'" "tc_initialized tc"
    and "flt (Fin 0) (tl_sampleRate tList)" "sorted (tl_frames tList)"
    and "\<forall>f\<in>set (tl_frames tList). tc_lo tc \<le> f"
  shows "sum_list (map msg_countsSeen (tc_messages tc')) + countsSeen tc'
    = sum_list (map msg_countsSeen (tc_messages tc)) + countsSeen tc + int (length (tl_frames tList))"
proof -
  define tc1 where "tc1 = tc\<lparr>tc_keyFrame := tl_keyFrame tList, tc_keyTime := tl_keyTime tList,
    tc_sampleRate := tl_sampleRate tList\<rparr>"
  have "\<not> fle (tl_sampleRate tList) (Fin 0)"
    using assms(3) by (cases "tl_sampleRate tList") (auto simp: fle_def feq_def)
  then have "Option.bind (count_frames (tl_frames tList) tc1)
      (\<lambda>tc3. advance (firstFrameThatCannotTrigger tList) tc3) = Some tc'"
    using assms(1,2) by (simp add: countNewTriggers_def Let_def tc1_def)
  then obtain tc3 where 3: "count_frames (tl_frames tList) tc1 = Some tc3"
    "advance (firstFrameThatCannotTrigger tList) tc3 = Some tc'" by (auto simp: bind_eq_Some_conv)
  have "total_seen tc3 = total_seen tc1 + int (length (tl_frames tList))"
    using count_frames_total [OF 3(1) assms(4)] assms(5) by (simp add: tc1_def)
  then show ?thesis using advance_total [OF 3(2)] by (simp add: total_seen_def tc1_def)
qed

subsection \<open>The broker's arrays\<close>

definition broker_ok :: "TriggerBroker \<Rightarrow> bool" where
  "broker_ok b \<longleftrightarrow> 0 \<le> nchannels b \<and> length (sources b) = nat (nchannels b)
     \<and> length (latestPrimaries b) = nat (nchannels b) \<and> length (triggerCounters b) = nat (nchannels b)
     \<and> (\<forall>m\<in>set (sources b). distinct (map fst m) \<and> snd ` set m \<subseteq> {True})
     \<and> nconnections b = int (sum_list (map length (sources b)))"

lemma sum_list_update_nat:
  "k < length xs \<Longrightarrow> int (sum_list ((xs::nat list)[k := x])) = int (sum_list xs) - int (xs ! k) + int x"
proof (induction xs arbitrary: k)
  case (Cons y ys)
  then show ?case by (cases k) auto
qed simp

lemma lookup_bool_dom:
  "snd ` set m \<subseteq> {True} \<Longrightarrow> lookup_bool m k \<longleftrightarrow> k \<in> fst ` set m"
proof -
  assume a: "snd ` set m \<subseteq> {True}"
  show ?thesis
  proof (cases "map_of m k")
    case None
    then show ?thesis using map_of_eq_None_iff [of m k] by (simp add: lookup_bool_def)
  next
    case (Some v)
    then have "(k, v) \<in> set m" by (rule map_of_SomeD)
    then show ?thesis using a Some by (force simp: lookup_bool_def)
  qed
qed

lemma length_AList_update:
  "length (AList.update k v m) = (if k \<in> fst ` set m then length m else Suc (length m))"
  by (induction m) auto

lemma length_AList_delete:
  "distinct (map fst m) \<Longrightarrow>
   length (AList.delete k m) = (if k \<in> fst ` set m then length m - 1 else length m)"
proof (induction m)
  case (Cons p m)
  obtain a v where p: "p = (a, v)" by (cases p)
  show ?case
  proof (cases "a = k")
    case True
    then have "k \<notin> fst ` set m" using Cons.prems by (simp add: p)
    then show ?thesis using True Cons.IH Cons.prems by (simp add: p AList.delete_eq)
  next
    case False
    have "m \<noteq> []" if "k \<in> fst ` set m" using that by auto
    then have "Suc (length m - 1) = length m" if "k \<in> fst ` set m" using that by auto
    then show ?thesis using False Cons.IH Cons.prems by (auto simp: p AList.delete_eq)
  qed
qed simp

lemma AList_update_values:
  "snd ` set m \<subseteq> {True} \<Longrightarrow> snd ` set (AList.update k True m) \<subseteq> {True}"
  by (induction m) auto

definition has_key :: "source_set \<Rightarrow> int \<Rightarrow> bool" where
  "has_key m k \<longleftrightarrow> k \<in> fst ` set m"

lemma has_key_update: "has_key (AList.update k v m) s \<longleftrightarrow> s = k \<or> has_key m s"
  by (simp add: has_key_def dom_update)

lemma has_key_delete: "has_key (AList.delete k m) s \<longleftrightarrow> s \<noteq> k \<and> has_key m s"
  by (force simp: has_key_def AList.delete_eq)

lemma AList_delete_values: "snd ` set m \<subseteq> V \<Longrightarrow> snd ` set (AList.delete k m) \<subseteq> V"
  by (auto simp: AList.delete_eq)

subsection \<open>Connections\<close>

text \<open>
  The connections seen by a client: a relation between channels that requests add to, take from and
  clear.  Requests naming a receiver that does not exist, and connections of a channel to itself,
  change nothing.
\<close>

datatype request = Connect int int | Disconnect int int | Uncouple

locale link_store =
  fixes connect :: "'b \<Rightarrow> int \<Rightarrow> int \<Rightarrow> 'b"
    and disconnect :: "'b \<Rightarrow> int \<Rightarrow> int \<Rightarrow> 'b"
    and uncouple :: "'b \<Rightarrow> 'b"
    and linked :: "'b \<Rightarrow> int \<Rightarrow> int \<Rightarrow> bool"
    and exists_rx :: "int \<Rightarrow> bool"
    and inv :: "'b \<Rightarrow> bool"
  assumes connect_linked: "inv b \<Longrightarrow> linked (connect b s r) s' r' \<longleftrightarrow>
      linked b s' r' \<or> (s' = s \<and> r' = r \<and> s \<noteq> r \<and> exists_rx r)"
    and disconnect_linked: "inv b \<Longrightarrow> linked (disconnect b s r) s' r' \<longleftrightarrow>
      linked b s' r' \<and> \<not> (s' = s \<and> r' = r)"
    and uncouple_linked: "inv b \<Longrightarrow> \<not> linked (uncouple b) s r"
    and connect_inv: "inv b \<Longrightarrow> inv (connect b s r)"
    and disconnect_inv: "inv b \<Longrightarrow> inv (disconnect b s r)"
    and uncouple_inv: "inv b \<Longrightarrow> inv (uncouple b)"
begin

fun perform :: "'b \<Rightarrow> request \<Rightarrow> 'b" where
  "perform b (Connect s r) = connect b s r"
| "perform b (Disconnect s r) = disconnect b s r"
| "perform b Uncouple = uncouple b"

fun relate :: "(int \<times> int) set \<Rightarrow> request \<Rightarrow> (int \<times> int) set" where
  "relate R (Connect s r) = (if s \<noteq> r \<and> exists_rx r then insert (s, r) R else R)"
| "relate R (Disconnect s r) = R - {(s, r)}"
| "relate R Uncouple = {}"

definition links :: "'b \<Rightarrow> (int \<times> int) set" where
  "links b = {(s, r). linked b s r}"

lemma perform_links: "inv b \<Longrightarrow> inv (perform b q) \<and> links (perform b q) = relate (links b) q"
  by (cases q) (auto simp: links_def connect_linked disconnect_linked uncouple_linked
      connect_inv disconnect_inv uncouple_inv)

lemma requests_refine:
  "inv b \<Longrightarrow> inv (foldl perform b qs) \<and> links (foldl perform b qs) = foldl relate (links b) qs"
proof (induction qs arbitrary: b)
  case (Cons q qs)
  then show ?case using perform_links [of b q] by simp
qed simp

end

text \<open>The model's operations satisfy the laws.\<close>

lemma broker_rx:
  assumes "broker_ok b" "0 \<le> r" "r < nchannels b"
  shows "nat r < length (sources b)" "distinct (map fst (sources b ! nat r))"
    "snd ` set (sources b ! nat r) \<subseteq> {True}"
proof -
  show 1: "nat r < length (sources b)" using assms by (auto simp: broker_ok_def)
  have "sources b ! nat r \<in> set (sources b)" using 1 by simp
  then show "distinct (map fst (sources b ! nat r))" "snd ` set (sources b ! nat r) \<subseteq> {True}"
    using assms(1) by (auto simp: broker_ok_def)
qed

lemma broker_ok_update:
  assumes "broker_ok b" "0 \<le> r" "r < nchannels b" "distinct (map fst m)" "snd ` set m \<subseteq> {True}"
    and "n = nconnections b - int (length (sources b ! nat r)) + int (length m)"
  shows "broker_ok (b\<lparr>nconnections := n, sources := (sources b)[nat r := m]\<rparr>)"
proof -
  note rx = broker_rx [OF assms(1-3)]
  have "\<forall>m'\<in>set ((sources b)[nat r := m]). distinct (map fst m') \<and> snd ` set m' \<subseteq> {True}"
    using assms(1,4,5) set_update_subset_insert [of "sources b" "nat r" m]
    unfolding broker_ok_def by blast
  moreover have "int (sum_list (map length ((sources b)[nat r := m]))) = n"
    using sum_list_update_nat [of "nat r" "map length (sources b)" "length m"] rx(1) assms(1,6)
    by (simp add: map_update broker_ok_def)
  ultimately show ?thesis using assms(1) by (simp add: broker_ok_def)
qed

lemma isConnected_iff:
  "isConnected b s r \<longleftrightarrow> 0 \<le> r \<and> r < nchannels b \<and> has_key (sources b ! nat r) s"
  using map_of_eq_None_iff [of "sources b ! nat r" s]
  by (simp add: isConnected_def has_key_def not_le not_less)

lemma AddConnection_ok:
  assumes "broker_ok b"
  shows "broker_ok (fst (AddConnection b s r)) \<and> nchannels (fst (AddConnection b s r)) = nchannels b
    \<and> (isConnected (fst (AddConnection b s r)) s' r' \<longleftrightarrow>
        isConnected b s' r' \<or> (s' = s \<and> r' = r \<and> s \<noteq> r \<and> 0 \<le> r \<and> r < nchannels b))"
proof (cases "s = r \<or> r < 0 \<or> r \<ge> nchannels b")
  case True
  then show ?thesis using assms by (auto simp: AddConnection_def)
next
  case False
  then have r: "0 \<le> r" "r < nchannels b" by auto
  note rx = broker_rx [OF assms r]
  let ?m = "sources b ! nat r"
  define n where "n = (if lookup_bool ?m s then nconnections b else nconnections b + 1)"
  have e: "fst (AddConnection b s r)
      = b\<lparr>nconnections := n, sources := (sources b)[nat r := AList.update s True ?m]\<rparr>"
    using False by (simp add: AddConnection_def Let_def n_def)
  have "n = nconnections b - int (length ?m) + int (length (AList.update s True ?m))"
    using lookup_bool_dom [OF rx(3)] by (simp add: n_def length_AList_update)
  then have "broker_ok (fst (AddConnection b s r))"
    unfolding e using rx by (intro broker_ok_update assms r distinct_update AList_update_values)
  moreover have "(sources b)[nat r := AList.update s True ?m] ! nat r'
      = (if r' = r then AList.update s True ?m else sources b ! nat r')" if "0 \<le> r'"
    using that r rx(1) by (simp add: nth_list_update eq_nat_nat_iff)
  ultimately show ?thesis
    using False by (auto simp: isConnected_iff e has_key_update split: if_splits)
qed

lemma DeleteConnection_ok:
  assumes "broker_ok b"
  shows "broker_ok (fst (DeleteConnection b s r)) \<and> nchannels (fst (DeleteConnection b s r)) = nchannels b
    \<and> (isConnected (fst (DeleteConnection b s r)) s' r' \<longleftrightarrow>
        isConnected b s' r' \<and> \<not> (s' = s \<and> r' = r))"
proof (cases "r < 0 \<or> r \<ge> nchannels b")
  case True
  then show ?thesis using assms by (auto simp: DeleteConnection_def isConnected_def)
next
  case False
  then have r: "0 \<le> r" "r < nchannels b" by auto
  note rx = broker_rx [OF assms r]
  let ?m = "sources b ! nat r"
  define n where "n = (if lookup_bool ?m s then nconnections b - 1 else nconnections b)"
  have e: "fst (DeleteConnection b s r)
      = b\<lparr>nconnections := n, sources := (sources b)[nat r := AList.delete s ?m]\<rparr>"
    using False by (simp add: DeleteConnection_def Let_def n_def)
  have "?m \<noteq> []" if "s \<in> fst ` set ?m" using that by auto
  then have "n = nconnections b - int (length ?m) + int (length (AList.delete s ?m))"
    using lookup_bool_dom [OF rx(3), of s]
    by (auto simp: n_def length_AList_delete [OF rx(2)] Suc_leI of_nat_diff)
  then have "broker_ok (fst (DeleteConnection b s r))"
    unfolding e using rx by (intro broker_ok_update assms r distinct_delete AList_delete_values)
  moreover have "(sources b)[nat r := AList.delete s ?m] ! nat r'
      = (if r' = r then AList.delete s ?m else sources b ! nat r')" if "0 \<le> r'"
    using that r rx(1) by (simp add: nth_list_update eq_nat_nat_iff)
  ultimately show ?thesis
    using False by (auto simp: isConnected_iff e has_key_delete split: if_splits)
qed

lemma StopTriggerCoupling_ok:
  assumes "broker_ok b"
  shows "broker_ok (StopTriggerCoupling b)" "nchannels (StopTriggerCoupling b) = nchannels b"
    "\<not> isConnected (StopTriggerCoupling b) s r"
  using assms by (auto simp: broker_ok_def StopTriggerCoupling_def isConnected_def o_def)

interpretation broker_links: link_store "\<lambda>b s r. fst (AddConnection b s r)"
  "\<lambda>b s r. fst (DeleteConnection b s r)" StopTriggerCoupling isConnected
  "\<lambda>r. 0 \<le> r \<and> r < n" "\<lambda>b. broker_ok b \<and> nchannels b = n" for n
  by unfold_locales (auto simp: AddConnection_ok DeleteConnection_ok StopTriggerCoupling_ok)

text \<open>One client request, on the broker and on the relation it stands for.\<close>

fun broker_request :: "TriggerBroker \<Rightarrow> request \<Rightarrow> TriggerBroker" where
  "broker_request b (Connect s r) = fst (AddConnection b s r)"
| "broker_request b (Disconnect s r) = fst (DeleteConnection b s r)"
| "broker_request b Uncouple = StopTriggerCoupling b"

fun relation_request :: "int \<Rightarrow> (int \<times> int) set \<Rightarrow> request \<Rightarrow> (int \<times> int) set" where
  "relation_request n R (Connect s r) = (if s \<noteq> r \<and> 0 \<le> r \<and> r < n then insert (s, r) R else R)"
| "relation_request n R (Disconnect s r) = R - {(s, r)}"
| "relation_request n R Uncouple = {}"

lemma broker_links_eqs:
  "broker_links.perform = broker_request" "broker_links.relate n = relation_request n"
proof -
  show "broker_links.perform = broker_request"
  proof (intro ext)
    show "broker_links.perform b q = broker_request b q" for b q by (cases q) simp_all
  qed
  show "broker_links.relate n = relation_request n"
  proof (intro ext)
    show "broker_links.relate n R q = relation_request n R q" for R q by (cases q) simp_all
  qed
qed

lemma connections_card:
  assumes "broker_ok b"
  shows "nconnections b = int (card {(s, r). isConnected b s r})"
proof -
  let ?S = "\<lambda>k. fst ` set (sources b ! k) \<times> {int k}"
  have "{(s, r). isConnected b s r} = (\<Union>k<length (sources b). ?S k)"
  proof (intro equalityI subsetI)
    fix p assume "p \<in> {(s, r). isConnected b s r}"
    then obtain s r where "p = (s, r)" "0 \<le> r" "r < nchannels b" "s \<in> fst ` set (sources b ! nat r)"
      by (auto simp: isConnected_iff has_key_def)
    moreover from this have "nat r < length (sources b)" using broker_rx [OF assms] by simp
    ultimately show "p \<in> (\<Union>k<length (sources b). ?S k)" by (intro UN_I [of "nat r"]) auto
  next
    fix p assume "p \<in> (\<Union>k<length (sources b). ?S k)"
    then obtain k where "k < length (sources b)" "p \<in> ?S k" by blast
    then show "p \<in> {(s, r). isConnected b s r}"
      using assms by (auto simp: isConnected_iff has_key_def broker_ok_def)
  qed
  moreover have "card (\<Union>k<length (sources b). ?S k) = (\<Sum>k<length (sources b). card (?S k))"
    by (rule card_UN_disjoint) auto
  moreover have "card (?S k) = length (sources b ! k)" if "k < length (sources b)" for k
  proof -
    have "distinct (map fst (sources b ! k))" using assms that by (auto simp: broker_ok_def)
    then have "card (fst ` set (sources b ! k)) = length (sources b ! k)"
      using distinct_card [of "map fst (sources b ! k)"] by simp
    then show ?thesis by (simp add: card_cartesian_product)
  qed
  moreover have "sum_list (map length (sources b)) = (\<Sum>k<length (sources b). length (sources b ! k))"
    by (simp add: sum_list_sum_nth atLeast0LessThan)
  ultimately show ?thesis using assms by (simp add: broker_ok_def)
qed

lemma NewTriggerBroker_ok:
  assumes "NewTriggerBroker n = Inr b"
  shows "broker_ok b" "nchannels b = n" "\<not> isConnected b s r"
proof -
  have n: "0 \<le> n" using assms by (auto simp: NewTriggerBroker_def split: if_splits)
  have b: "b = \<lparr>nchannels = n, nconnections = 0, sources = replicate (nat n) [],
        latestPrimaries = replicate (nat n) [],
        triggerCounters = map (\<lambda>i. NewTriggerCounter i 1000000000) [0..n - 1]\<rparr>"
    using assms n by (simp add: NewTriggerBroker_def)
  show "broker_ok b" "nchannels b = n" using n by (simp_all add: broker_ok_def b sum_list_replicate)
  show "\<not> isConnected b s r" using n by (auto simp: isConnected_def b)
qed

text \<open>
  C17: The connections of a broker are a relation: after any sequence of requests to connect,
  disconnect and uncouple, exactly the pairs that the requests leave standing are connected, and the
  broker's connection count, which decides whether triggers are distributed at all, is their number.
\<close>

theorem connections_are_relation:
  assumes "NewTriggerBroker n = Inr b"
  shows "{(s, r). isConnected (foldl broker_request b qs) s r} = foldl (relation_request n) {} qs
    \<and> nconnections (foldl broker_request b qs)
        = int (card {(s, r). isConnected (foldl broker_request b qs) s r})"
proof -
  note new = NewTriggerBroker_ok [OF assms]
  have "broker_links.links b = {}" using new(3) by (simp add: broker_links.links_def)
  then have "broker_ok (foldl broker_request b qs)
    \<and> broker_links.links (foldl broker_request b qs) = foldl (relation_request n) {} qs"
    using broker_links.requests_refine [of b n qs] new(1,2) by (simp add: broker_links_eqs)
  then show ?thesis using connections_card by (simp add: broker_links.links_def)
qed

subsection \<open>Storing the primaries\<close>

lemma store_primaries_spec:
  assumes "store_primaries b ps n = Some (Inr (b', n'))" "distinct (map fst ps)"
  shows "nchannels b' = nchannels b \<and> nconnections b' = nconnections b \<and> sources b' = sources b
    \<and> length (latestPrimaries b') = length (latestPrimaries b)
    \<and> length (triggerCounters b') = length (triggerCounters b)
    \<and> n' = n + (\<Sum>(i, tr)\<leftarrow>ps. int (length (tl_frames tr)))
    \<and> (\<forall>i tl. (i, tl) \<in> set ps \<longrightarrow> 0 \<le> i \<and> i < int (length (latestPrimaries b))
        \<and> latestPrimaries b' ! nat i = tl_frames tl
        \<and> countNewTriggers (triggerCounters b ! nat i) tl = Some (triggerCounters b' ! nat i))
    \<and> (\<forall>k. int k \<notin> fst ` set ps \<longrightarrow> latestPrimaries b' ! k = latestPrimaries b ! k
        \<and> triggerCounters b' ! k = triggerCounters b ! k)"
  using assms
proof (induction ps arbitrary: b n)
  case (Cons p ps)
  obtain i tl where p: "p = (i, tl)" by (cases p)
  have i: "0 \<le> i" "i < int (length (latestPrimaries b))" "i < int (length (triggerCounters b))"
    using Cons.prems(1) by (auto simp: p split: if_splits)
  then obtain tc where tc: "countNewTriggers (triggerCounters b ! nat i) tl = Some tc"
    using Cons.prems(1) by (auto simp: p split: option.splits)
  let ?b = "b\<lparr>latestPrimaries := (latestPrimaries b)[nat i := tl_frames tl],
    triggerCounters := (triggerCounters b)[nat i := tc]\<rparr>"
  have st: "store_primaries ?b ps (n + int (length (tl_frames tl))) = Some (Inr (b', n'))"
    using Cons.prems(1) i tc by (simp add: p)
  have d: "i \<notin> fst ` set ps" "distinct (map fst ps)" using Cons.prems(2) by (auto simp: p)
  note IH = Cons.IH [OF st d(2)]
  have keep: "latestPrimaries b' ! nat i = tl_frames tl \<and> triggerCounters b' ! nat i = tc"
  proof -
    have "int (nat i) \<notin> fst ` set ps" using d(1) i by simp
    then have "latestPrimaries b' ! nat i = latestPrimaries ?b ! nat i
      \<and> triggerCounters b' ! nat i = triggerCounters ?b ! nat i" using IH by blast
    then show ?thesis using i by simp
  qed
  have others: "(triggerCounters b)[nat i := tc] ! nat j = triggerCounters b ! nat j"
    if "(j, t) \<in> set ps" for j t
  proof -
    have "j \<noteq> i" "0 \<le> j" using that d(1) IH by force+
    then show ?thesis using i by (simp add: nth_list_update eq_nat_nat_iff)
  qed
  have rest: "0 \<le> j \<and> j < int (length (latestPrimaries b)) \<and> latestPrimaries b' ! nat j = tl_frames t
      \<and> countNewTriggers (triggerCounters b ! nat j) t = Some (triggerCounters b' ! nat j)"
    if "(j, t) \<in> set ps" for j t
  proof -
    have "0 \<le> j \<and> j < int (length (latestPrimaries ?b)) \<and> latestPrimaries b' ! nat j = tl_frames t
      \<and> countNewTriggers (triggerCounters ?b ! nat j) t = Some (triggerCounters b' ! nat j)"
      using IH that by blast
    then show ?thesis using others [OF that] by simp
  qed
  have un: "latestPrimaries b' ! k = latestPrimaries b ! k \<and> triggerCounters b' ! k = triggerCounters b ! k"
    if "int k \<notin> fst ` set (p # ps)" for k
  proof -
    have "k \<noteq> nat i" "int k \<notin> fst ` set ps" using that i by (auto simp: p)
    then show ?thesis using IH by simp
  qed
  have "n' = n + (\<Sum>(i, tr)\<leftarrow>p # ps. int (length (tl_frames tr)))" using IH by (simp add: p)
  moreover have "\<forall>j t. (j, t) \<in> set (p # ps) \<longrightarrow> 0 \<le> j \<and> j < int (length (latestPrimaries b))
        \<and> latestPrimaries b' ! nat j = tl_frames t
        \<and> countNewTriggers (triggerCounters b ! nat j) t = Some (triggerCounters b' ! nat j)"
    using rest keep tc i by (auto simp: p)
  ultimately show ?case using IH un by simp
qed simp

subsection \<open>Secondary triggers\<close>

lemma received_spec:
  assumes "\<forall>s\<in>fst ` set srcs. 0 \<le> s \<and> s < int (length (latestPrimaries b))"
  shows "received b srcs = Inr (sort (concat (map (\<lambda>s. latestPrimaries b ! nat s) (map fst srcs))))"
proof -
  have "mapM_go (\<lambda>(source, _). idx (latestPrimaries b) source) srcs
      = Inr (map (\<lambda>p. latestPrimaries b ! nat (fst p)) srcs)"
    using assms by (intro mapM_go_pure) (auto split: prod.splits)
  then show ?thesis by (simp add: received_def o_def)
qed

lemma foldM_collect:
  assumes "\<And>i. i \<in> set is \<Longrightarrow> F i = Inr (h i)"
  shows "foldM_go (\<lambda>m i. if Q i then bind_go (F i) (\<lambda>x. Inr (m @ [(i, x)])) else Inr m) m is
    = Inr (m @ map (\<lambda>i. (i, h i)) (filter Q is))"
  using assms by (induction "is" arbitrary: m) auto

text \<open>Every source of a connection is a channel.\<close>

definition sources_exist :: "TriggerBroker \<Rightarrow> bool" where
  "sources_exist b \<longleftrightarrow> (\<forall>s r. isConnected b s r \<longrightarrow> 0 \<le> s \<and> s < nchannels b)"

lemma secondary_map_spec:
  assumes "broker_ok b" "sources_exist b"
  shows "secondary_map b = Inr (map (\<lambda>r. (r, sort (concat (map (\<lambda>s. latestPrimaries b ! nat s)
      (map fst (sources b ! nat r)))))) (filter (\<lambda>r. \<exists>s. isConnected b s r) [0..nchannels b - 1]))"
proof -
  have src: "SourcesForReceiver b r = sources b ! nat r" if "r \<in> set [0..nchannels b - 1]" for r
    using that by (simp add: SourcesForReceiver_def)
  have ne: "length (SourcesForReceiver b r) > 0 \<longleftrightarrow> (\<exists>s. isConnected b s r)"
    if "r \<in> set [0..nchannels b - 1]" for r
  proof -
    have "(\<exists>s. isConnected b s r) \<longleftrightarrow> fst ` set (sources b ! nat r) \<noteq> {}"
      using that unfolding isConnected_iff has_key_def by auto
    then show ?thesis using src [OF that] by simp
  qed
  have rc: "received b (SourcesForReceiver b r)
      = Inr (sort (concat (map (\<lambda>s. latestPrimaries b ! nat s) (map fst (sources b ! nat r)))))"
    if "r \<in> set [0..nchannels b - 1]" for r
  proof -
    have "isConnected b s r" if "s \<in> fst ` set (sources b ! nat r)" for s
      using that \<open>r \<in> _\<close> by (auto simp: isConnected_iff has_key_def)
    then have "\<forall>s\<in>fst ` set (sources b ! nat r). 0 \<le> s \<and> s < int (length (latestPrimaries b))"
      using assms unfolding sources_exist_def broker_ok_def by (metis int_nat_eq)
    then show ?thesis using received_spec src [OF that] by simp
  qed
  have flt: "filter (\<lambda>r. length (SourcesForReceiver b r) > 0) [0..nchannels b - 1]
      = filter (\<lambda>r. \<exists>s. isConnected b s r) [0..nchannels b - 1]"
    by (intro filter_cong refl ne)
  show ?thesis
    unfolding secondary_map_def Let_def by (subst foldM_collect [OF rc]) (simp_all only: flt append_Nil)
qed

lemma frames_le_sum:
  "(i, tr) \<in> set ps \<Longrightarrow> int (length (tl_frames tr)) \<le> (\<Sum>(i, tr)\<leftarrow>ps. int (length (tl_frames tr)))"
proof (induction ps)
  case (Cons p ps)
  have "0 \<le> (\<Sum>(i, tr)\<leftarrow>ps. int (length (tl_frames tr)))" by (intro sum_list_nonneg) auto
  then show ?case using Cons by (cases p, cases "p = (i, tr)") auto
qed simp

lemma connected_nconnections: "broker_ok b \<Longrightarrow> isConnected b s r \<Longrightarrow> nconnections b \<noteq> 0"
proof -
  assume b: "broker_ok b" and c: "isConnected b s r"
  have r: "0 \<le> r" "r < nchannels b" "sources b ! nat r \<noteq> []"
    using c by (auto simp: isConnected_iff has_key_def)
  have "length (sources b ! nat r) \<in> set (map length (sources b))"
    using broker_rx(1) [OF b r(1,2)] by simp
  then have "length (sources b ! nat r) \<le> sum_list (map length (sources b))"
    by (intro member_le_sum_list) simp_all
  moreover have "0 < length (sources b ! nat r)" using r(3) by simp
  ultimately have "0 < sum_list (map length (sources b))" by (rule order.strict_trans2 [rotated])
  then show "nconnections b \<noteq> 0" using b unfolding broker_ok_def by linarith
qed

lemma mset_concat_map:
  "mset xs = mset ys \<Longrightarrow> mset (concat (map g xs)) = mset (concat (map g ys))"
  by (metis map_map mset_concat mset_map sum_mset_sum_list)

lemma isConnected_cong:
  "nchannels b' = nchannels b \<Longrightarrow> sources b' = sources b \<Longrightarrow> isConnected b' = isConnected b"
  by (intro ext) (simp add: isConnected_def)

text \<open>
  C18: In a pass of the broker every receiver gets the triggers of its connected sources found in
  this pass, all of them and in increasing order, and channels without a source get no entry.  The
  order in which the code ranges over the primaries and over the sources of a receiver has no effect.
\<close>

theorem secondaries_are_source_triggers:
  assumes "broker_ok b" "sources_exist b" "distinct (map fst primaries)"
    and "set (map fst primaries) = {0..<nchannels b}"
    and "Distribute b primaries = Some (Inr (b', sec))"
    and "isConnected b s0 r0" "(i0, tr0) \<in> set primaries" "tl_frames tr0 \<noteq> []"
  shows "map fst sec = filter (\<lambda>r. \<exists>s. isConnected b s r) [0..nchannels b - 1]
    \<and> (\<forall>(r, trigs)\<in>set sec. sorted trigs \<and> mset trigs
        = mset (concat (map (\<lambda>(s, tr). tl_frames tr) (filter (\<lambda>(s, tr). isConnected b s r) primaries))))"
proof -
  obtain m where "store_primaries b primaries 0 = Some m"
    using assms(5) by (auto simp: Distribute_def)
  moreover from this obtain b1 n where "m = Inr (b1, n)"
    using assms(5) by (cases m) (auto simp: Distribute_def)
  ultimately have st: "store_primaries b primaries 0 = Some (Inr (b1, n))" by simp
  note sp = store_primaries_spec [OF st assms(3)]
  have "n \<noteq> 0" using sp frames_le_sum [OF assms(7)] assms(8) by auto
  moreover have same: "nconnections b1 = nconnections b" "isConnected b1 = isConnected b"
    "nchannels b1 = nchannels b" "sources b1 = sources b"
    using sp isConnected_cong [of b1 b] by auto
  ultimately have sec: "secondary_map b1 = Inr sec"
    using assms(5) connected_nconnections [OF assms(1,6)] st
    by (auto simp: Distribute_def bind_go_Inr_iff)
  have ok1: "broker_ok b1" "sources_exist b1"
    using assms(1,2) sp same by (simp_all add: broker_ok_def sources_exist_def)
  define trigs where "trigs r = sort (concat (map (\<lambda>s. latestPrimaries b1 ! nat s)
    (map fst (sources b ! nat r))))" for r
  have sec': "sec = map (\<lambda>r. (r, trigs r)) (filter (\<lambda>r. \<exists>s. isConnected b s r) [0..nchannels b - 1])"
    using secondary_map_spec [OF ok1] sec by (simp add: same trigs_def)
  have "mset (trigs r)
      = mset (concat (map (\<lambda>(s, tr). tl_frames tr) (filter (\<lambda>(s, tr). isConnected b s r) primaries)))"
    if r: "0 \<le> r" "r < nchannels b" for r
  proof -
    let ?fl = "filter (\<lambda>(s, tr). isConnected b s r) primaries"
    have fr: "map (\<lambda>(s, tr). tl_frames tr) ?fl = map (\<lambda>s. latestPrimaries b1 ! nat s) (map fst ?fl)"
      using sp by (auto simp: case_prod_beta)
    have "set (map fst ?fl) = fst ` set (sources b ! nat r)"
    proof (intro equalityI subsetI)
      fix s assume s: "s \<in> fst ` set (sources b ! nat r)"
      then have c: "isConnected b s r" using r by (simp add: isConnected_iff has_key_def)
      then have "s \<in> set (map fst primaries)" using assms(2,4) by (auto simp: sources_exist_def)
      then show "s \<in> set (map fst ?fl)" using c by force
    next
      fix s assume "s \<in> set (map fst ?fl)"
      then have "isConnected b s r" by auto
      then show "s \<in> fst ` set (sources b ! nat r)" unfolding isConnected_iff has_key_def by simp
    qed
    moreover have "distinct (map fst ?fl)" using assms(3) by (rule distinct_map_filter)
    ultimately have "mset (map fst ?fl) = mset (map fst (sources b ! nat r))"
      using set_eq_iff_mset_eq_distinct [of "map fst ?fl" "map fst (sources b ! nat r)"]
        broker_rx(2) [OF assms(1) r] by (simp only: set_map simp_thms)
    then have "mset (concat (map (\<lambda>s. latestPrimaries b1 ! nat s) (map fst ?fl)))
        = mset (concat (map (\<lambda>s. latestPrimaries b1 ! nat s) (map fst (sources b ! nat r))))"
      by (rule mset_concat_map)
    then show ?thesis unfolding trigs_def fr mset_sort by (rule sym)
  qed
  then show ?thesis by (auto simp: sec' o_def trigs_def)
qed

subsection \<open>Rate messages\<close>

text \<open>All counters of a broker are in step.\<close>

definition in_step :: "TriggerBroker \<Rightarrow> bool" where
  "in_step b \<longleftrightarrow> (\<forall>x\<in>set (triggerCounters b). \<forall>y\<in>set (triggerCounters b). timing x = timing y)"

lemma timing_messages:
  assumes "timing x = timing y"
  shows "length (tc_messages x) = length (tc_messages y)"
    and "k < length (tc_messages x) \<Longrightarrow> msg_hiTime (tc_messages x ! k) = msg_hiTime (tc_messages y ! k)
      \<and> msg_duration (tc_messages x ! k) = msg_duration (tc_messages y ! k)"
proof -
  have m: "map (\<lambda>m. (msg_hiTime m, msg_duration m)) (tc_messages x)
      = map (\<lambda>m. (msg_hiTime m, msg_duration m)) (tc_messages y)"
    using assms by (simp add: timing_def)
  then show l: "length (tc_messages x) = length (tc_messages y)" by (rule map_eq_imp_length_eq)
  assume "k < length (tc_messages x)"
  then show "msg_hiTime (tc_messages x ! k) = msg_hiTime (tc_messages y ! k)
      \<and> msg_duration (tc_messages x ! k) = msg_duration (tc_messages y ! k)"
    using arg_cong [OF m, of "\<lambda>l. l ! k"] l by simp
qed

lemma rate_message_spec:
  assumes "broker_ok b" "in_step b" "0 < nchannels b"
    and "k < length (tc_messages (triggerCounters b ! 0))"
  shows "rate_message b (int k) = Inr \<lparr>HiTime = msg_hiTime (tc_messages (triggerCounters b ! 0) ! k),
    rate_Duration = msg_duration (tc_messages (triggerCounters b ! 0) ! k),
    CountsSeen = map (\<lambda>c. msg_countsSeen (tc_messages c ! k)) (triggerCounters b)\<rparr>"
proof -
  let ?cs = "triggerCounters b" and ?m0 = "tc_messages (triggerCounters b ! 0) ! k"
  define step where "step acc j = bind_go (idx ?cs j) (\<lambda>tc. bind_go (idx (tc_messages tc) (int k)) (\<lambda>m.
      let acc1 = (if j = 0 then acc\<lparr>HiTime := msg_hiTime m, rate_Duration := msg_duration m\<rparr> else acc) in
      if msg_hiTime m mod 1000000000 \<noteq> HiTime acc1 mod 1000000000
         \<or> msg_duration m \<noteq> rate_Duration acc1
      then Inl (ExplicitPanic ''trigger messages not in sync'')
      else Inr (acc1\<lparr>CountsSeen := CountsSeen acc1 @ [msg_countsSeen m]\<rparr>)))"
    for acc :: TriggerRateMessage and j :: int
  have len: "length ?cs = nat (nchannels b)" using assms(1) by (simp add: broker_ok_def)
  have same: "k < length (tc_messages (?cs ! n)) \<and> msg_hiTime (tc_messages (?cs ! n) ! k) = msg_hiTime ?m0
      \<and> msg_duration (tc_messages (?cs ! n) ! k) = msg_duration ?m0" if "n < length ?cs" for n
  proof -
    have "0 < length ?cs" using len assms(3) by simp
    then have "timing (?cs ! n) = timing (?cs ! 0)" using that assms(2) by (simp add: in_step_def)
    from timing_messages [OF this] show ?thesis using assms(4) by simp
  qed
  define A where "A n = (if n = 0 then \<lparr>HiTime = 0, rate_Duration = 0, CountsSeen = []\<rparr>
    else \<lparr>HiTime = msg_hiTime ?m0, rate_Duration = msg_duration ?m0,
      CountsSeen = map (\<lambda>c. msg_countsSeen (tc_messages c ! k)) (take n ?cs)\<rparr>)" for n
  have "step (A n) (int n) = Inr (A (Suc n))" if "n < length ?cs" for n
    using same [OF that] that by (simp add: step_def A_def Let_def take_Suc_conv_app_nth)
  then have "foldM_go step (A 0) [0..int (length ?cs) - 1] = Inr (A (length ?cs))"
    by (rule foldM_go_upto)
  then show ?thesis
    using len assms(3) by (simp add: rate_message_def step_def [abs_def] A_def)
qed

text \<open>
  As long as the counters of all channels are in step, the rate messages can be built: no
  message is missing, the interval ends agree, and each message carries, for every channel, the
  count of that channel for its interval.  The pending messages are forgotten and the counters are
  still in step.
\<close>

theorem rate_messages_agree:
  assumes "broker_ok b" "in_step b" "0 < nchannels b"
  shows "\<exists>b' msgs. GenerateTriggerMessages b = Inr (b', msgs) \<and> broker_ok b' \<and> in_step b'
    \<and> length msgs = length (tc_messages (triggerCounters b ! 0))
    \<and> (\<forall>k<length msgs. CountsSeen (msgs ! k) = map (\<lambda>c. msg_countsSeen (tc_messages c ! k)) (triggerCounters b)
        \<and> HiTime (msgs ! k) = msg_hiTime (tc_messages (triggerCounters b ! 0) ! k))
    \<and> (\<forall>c\<in>set (triggerCounters b'). tc_messages c = [])"
proof -
  let ?cs = "triggerCounters b" and ?N = "length (tc_messages (triggerCounters b ! 0))"
  have len: "length ?cs = nat (nchannels b)" "0 < length ?cs" using assms by (auto simp: broker_ok_def)
  have same: "length (tc_messages (?cs ! n)) = ?N" if "n < length ?cs" for n
    using assms(2) that len(2) by (intro timing_messages(1)) (simp add: in_step_def)
  let ?chk = "\<lambda>(_::unit) j. bind_go (idx ?cs j) (\<lambda>c.
     if int (length (tc_messages c)) \<noteq> int ?N
     then Inl (ExplicitPanic ''triggerCounter has the wrong number of messages'') else Inr ())"
  have "?chk u j = Inr ()" if "j \<in> set [1..nchannels b - 1]" for u j
  proof -
    have j: "nat j < length ?cs" "0 \<le> j" "j < int (length ?cs)" using that len by auto
    then show ?thesis using same [OF j(1)] by simp
  qed
  then have "\<exists>t. foldM_go ?chk () [1..nchannels b - 1] = Inr t \<and> True"
    by (intro foldM_go_total) blast+
  then have chk: "foldM_go ?chk () [1..nchannels b - 1] = Inr ()" by simp
  define ms where "ms k = \<lparr>HiTime = msg_hiTime (tc_messages (?cs ! 0) ! k),
    rate_Duration = msg_duration (tc_messages (?cs ! 0) ! k),
    CountsSeen = map (\<lambda>c. msg_countsSeen (tc_messages c ! k)) ?cs\<rparr>" for k
  have "mapM_go (rate_message b) [0..int ?N - 1] = Inr (map (\<lambda>i. ms (nat i)) [0..int ?N - 1])"
  proof (rule mapM_go_pure)
    fix i assume "i \<in> set [0..int ?N - 1]"
    then have "i = int (nat i)" "nat i < ?N" by auto
    then show "rate_message b i = Inr (ms (nat i))"
      using rate_message_spec [OF assms, of "nat i"] by (simp add: ms_def)
  qed
  then have g: "GenerateTriggerMessages b = Inr (b\<lparr>triggerCounters := map (\<lambda>c. c\<lparr>tc_messages := []\<rparr>) ?cs\<rparr>,
      map ms [0..<?N])"
    using len chk by (simp add: GenerateTriggerMessages_def upto_int o_def)
  let ?b = "b\<lparr>triggerCounters := map (\<lambda>c. c\<lparr>tc_messages := []\<rparr>) ?cs\<rparr>"
  have "timing (x\<lparr>tc_messages := []\<rparr>) = timing (y\<lparr>tc_messages := []\<rparr>)"
    if "timing x = timing y" for x y
    using that by (simp add: timing_def)
  then have 1: "in_step ?b" using assms(2) unfolding in_step_def by fastforce
  have 2: "broker_ok ?b" using assms(1) by (simp add: broker_ok_def)
  have 3: "\<forall>k<length (map ms [0..<?N]). CountsSeen (map ms [0..<?N] ! k)
        = map (\<lambda>c. msg_countsSeen (tc_messages c ! k)) ?cs
      \<and> HiTime (map ms [0..<?N] ! k) = msg_hiTime (tc_messages (?cs ! 0) ! k)"
    by (simp add: ms_def)
  have 4: "\<forall>c\<in>set (triggerCounters ?b). tc_messages c = []" by simp
  have 5: "length (map ms [0..<?N]) = ?N" by simp
  show ?thesis
    by (rule exI [of _ ?b], rule exI [of _ "map ms [0..<?N]"]) (intro conjI g 1 2 3 4 5)
qed

text \<open>
  A pass of the broker keeps the counters in step when all channels report the same stretch of
  data: the lists agree on the first frame, its time, the sample rate and the first frame that cannot
  trigger, and no trigger lies beyond it.  A new broker starts in step.
\<close>

theorem distribute_keeps_in_step:
  assumes "broker_ok b" "in_step b" "distinct (map fst primaries)"
    and "set (map fst primaries) = {0..<nchannels b}"
    and "\<forall>(i, x)\<in>set primaries. \<forall>(j, y)\<in>set primaries. same_interval x y"
    and "\<forall>(i, x)\<in>set primaries. frames_ok x"
    and "Distribute b primaries = Some (Inr (b', sec))"
  shows "broker_ok b' \<and> in_step b'"
proof -
  obtain m where "store_primaries b primaries 0 = Some m"
    using assms(7) by (auto simp: Distribute_def)
  moreover from this obtain b1 n where "m = Inr (b1, n)"
    using assms(7) by (cases m) (auto simp: Distribute_def)
  ultimately have st: "store_primaries b primaries 0 = Some (Inr (b1, n))" by simp
  have b': "b' = b1" using assms(7) st
    by (auto simp: Distribute_def bind_go_Inr_iff split: if_splits)
  note sp = store_primaries_spec [OF st assms(3)]
  have len: "length (triggerCounters b1) = nat (nchannels b)" "length (triggerCounters b) = nat (nchannels b)"
    using sp assms(1) by (auto simp: broker_ok_def)
  have each: "\<exists>x. (int k, x) \<in> set primaries
      \<and> countNewTriggers (triggerCounters b ! k) x = Some (triggerCounters b1 ! k)" if "k < nat (nchannels b)" for k
  proof -
    have "int k \<in> set (map fst primaries)" using that assms(4) by auto
    then obtain x where "(int k, x) \<in> set primaries" by auto
    moreover from this have "countNewTriggers (triggerCounters b ! nat (int k)) x
        = Some (triggerCounters b1 ! nat (int k))" using sp by blast
    ultimately show ?thesis by auto
  qed
  have "timing (triggerCounters b1 ! j) = timing (triggerCounters b1 ! k)"
    if jk: "j < nat (nchannels b)" "k < nat (nchannels b)" for j k
  proof -
    obtain x y where x: "(int j, x) \<in> set primaries"
      "countNewTriggers (triggerCounters b ! j) x = Some (triggerCounters b1 ! j)"
      and y: "(int k, y) \<in> set primaries"
      "countNewTriggers (triggerCounters b ! k) y = Some (triggerCounters b1 ! k)"
      using each [OF jk(1)] each [OF jk(2)] by blast
    have "timing (triggerCounters b ! j) = timing (triggerCounters b ! k)"
      using assms(2) jk len(2) by (simp add: in_step_def)
    moreover have "same_interval x y" "frames_ok x" "frames_ok y"
      using assms(5,6) x(1) y(1) by fast+
    ultimately show ?thesis by (rule countNewTriggers_timing [OF _ _ _ _ x(2) y(2)])
  qed
  then have "in_step b1" unfolding in_step_def by (metis in_set_conv_nth len(1))
  then show ?thesis using assms(1) sp by (simp add: b' broker_ok_def)
qed

subsection \<open>The counting loops end\<close>

lemma duration_seconds_between:
  assumes "0 \<le> t" "t div 1000000000 < 2 ^ 40"
  shows "\<exists>x. duration_seconds t = Fin x \<and> of_int (t div 1000000000) \<le> x
    \<and> x \<le> of_int (t div 1000000000) + 1"
proof -
  let ?s = "t div 1000000000" and ?r = "t mod 1000000000"
  have s: "0 \<le> ?s" and r: "0 \<le> ?r" "?r < 1000000000" using assms(1) by simp_all
  have e: "r64 (of_int n) = Fin (of_int n)" if "\<bar>n\<bar> < 2 ^ 53" for n
    using r64_exact [OF that, of 0] by simp
  have f: "f64_of_int ?s = Fin (of_int ?s)" "f64_of_int ?r = Fin (of_int ?r)"
    using s r assms(2) by (intro f64_of_int_exact; auto)+
  have rr: "0 \<le> (of_int ?r :: rat) / 1000000000" "(of_int ?r :: rat) / 1000000000 \<le> 1"
    using r by (simp_all add: field_simps)
  have z: "r64 0 = Fin 0" "r64 1 = Fin 1" using e [of 0] e [of 1] by simp_all
  obtain q where q: "r64 (of_int ?r / 1000000000) = Fin q" "0 \<le> q" "q \<le> 1"
    using r64_between [OF z rr] by blast
  have lo: "r64 (of_int ?s) = Fin (of_int ?s)" "r64 (of_int (?s + 1)) = Fin (of_int (?s + 1))"
    using s assms(2) by (intro e; auto)+
  obtain x where "r64 (of_int ?s + q) = Fin x" "of_int ?s \<le> x" "x \<le> of_int (?s + 1)"
    using r64_between [OF lo, of "of_int ?s + q"] q by auto
  then show ?thesis
    using assms(1) f q(1) by (auto simp: duration_seconds_def)
qed

lemma frames_in_ge:
  assumes "0 \<le> m" "m \<le> t div 1000000000" "0 \<le> t" "t div 1000000000 < 2 ^ 32" "1 \<le> q" "q \<le> 2 ^ 28"
  shows "m \<le> frames_in (Fin q) t"
proof -
  let ?s = "t div 1000000000"
  obtain x where x: "duration_seconds t = Fin x" "of_int ?s \<le> x" "x \<le> of_int ?s + 1"
    using duration_seconds_between [OF assms(3)] assms(4) by auto
  have m53: "\<bar>m\<bar> < 2 ^ 53" using assms(1,2,4) by simp
  have em: "r64 (of_int m) = Fin (of_int m)" using r64_exact [OF m53, of 0] by simp
  have big: "r64 (2 ^ k) = Fin (2 ^ k)" if "k \<le> 100" for k
  proof -
    have "(2::rat) powi int k = 2 ^ k" by (simp add: power_int_def)
    then show ?thesis using r64_exact [of 1 "int k"] that by simp
  qed
  have "(of_int m :: rat) \<le> of_int ?s" using assms(2) by (simp only: of_int_le_iff)
  then have x1: "(of_int m :: rat) \<le> x" "0 \<le> x"
    using x(2) of_int_nonneg [OF assms(1), where 'a = rat] by (meson order_trans)+
  have x2: "x \<le> 2 ^ 32"
  proof -
    have "(of_int ?s + 1 :: rat) = of_int (?s + 1)" by simp
    also have "\<dots> \<le> of_int (2 ^ 32)" using assms(4) by (intro of_int_le_iff [THEN iffD2]) simp
    finally show ?thesis using x(3) by simp
  qed
  have "x \<le> q * x" using x1(2) assms(5) mult_right_mono [of 1 q x] by simp
  then have lo: "of_int m \<le> q * x" using x1 by simp
  have "q * x \<le> 2 ^ 28 * 2 ^ 32" using assms(5,6) x1(2) x2 by (intro mult_mono) simp_all
  then have hi: "q * x \<le> 2 ^ 60" by simp
  obtain y where y: "r64 (q * x) = Fin y" "of_int m \<le> y" "y \<le> 2 ^ 60"
    using r64_between [OF em big [of 60] lo hi] by auto
  have y0: "0 \<le> y" using y(2) assms(1) by (meson of_int_nonneg order_trans)
  have "y + 1 / 2 \<le> 2 ^ 61" using y(3) by simp
  moreover have "of_int m \<le> y + 1 / 2" using y(2) by simp
  ultimately obtain w where w: "r64 (y + 1 / 2) = Fin w" "of_int m \<le> w" "w \<le> 2 ^ 61"
    using r64_between [OF em big [of 61], of "y + 1 / 2"] by auto
  have w0: "0 \<le> w" using w(2) assms(1) by (meson of_int_nonneg order_trans)
  have "m \<le> \<lfloor>w\<rfloor>" using w(2) by (simp add: le_floor_iff)
  moreover have "\<lfloor>w\<rfloor> \<le> 2 ^ 61" using floor_mono [OF w(3)] by simp
  moreover have "0 \<le> \<lfloor>w\<rfloor>" using w0 by simp
  ultimately have "m \<le> int_of_f64 (Fin w)" using w0 by (simp add: trunc_rat_def Let_def)
  then show ?thesis using x(1) y(1) y0 w(1) by (simp add: frames_in_def roundint_def)
qed

text \<open>
  A counter whose interval ends within 68 years (and \<open>c\<close> seconds) of the reported time, at a sample
  rate between 1 Hz and \<open>2 ^ 28\<close> Hz, with the broker's reporting period of a second.
\<close>

definition countable_rate :: "int \<Rightarrow> TriggerCounter \<Rightarrow> bool" where
  "countable_rate c tc \<longleftrightarrow> stepDuration tc = 1000000000
     \<and> (\<exists>q. tc_sampleRate tc = Fin q \<and> 1 \<le> q \<and> q \<le> 2 ^ 28)
     \<and> - (2 ^ 31 * 1000000000) < tc_hiTime tc - tc_keyTime tc
     \<and> tc_hiTime tc - tc_keyTime tc < (2 ^ 31 + c) * 1000000000"

lemma resets_state:
  "tc_hiTime ((messageAndReset ^^ n) tc) = tc_hiTime tc + int n * stepDuration tc
   \<and> stepDuration ((messageAndReset ^^ n) tc) = stepDuration tc
   \<and> tc_sampleRate ((messageAndReset ^^ n) tc) = tc_sampleRate tc
   \<and> tc_keyTime ((messageAndReset ^^ n) tc) = tc_keyTime tc
   \<and> tc_keyFrame ((messageAndReset ^^ n) tc) = tc_keyFrame tc
   \<and> (n \<noteq> 0 \<longrightarrow> tc_hi ((messageAndReset ^^ n) tc) = tc_keyFrame tc + frames_in (tc_sampleRate tc)
        (time_sub (tc_hiTime tc + int n * stepDuration tc) (tc_keyTime tc)))"
  by (induction n) (simp_all add: messageAndReset_def Let_def algebra_simps)

text \<open>\<open>D\<close> is how far the interval reaches beyond the reported time, \<open>N\<close> the resets that suffice.\<close>

lemma resets_reach:
  assumes "tc_sampleRate tc = Fin q" "1 \<le> q" "q \<le> 2 ^ 28" "stepDuration tc = 1000000000"
    and "N \<noteq> 0" "f - tc_keyFrame tc \<le> m" "0 \<le> m" "m \<le> D div 1000000000 + int N"
    and "D = tc_hiTime tc - tc_keyTime tc" "D + int N * 1000000000 < 2 ^ 32 * 1000000000"
  shows "f \<le> tc_hi ((messageAndReset ^^ N) tc)"
proof -
  let ?t = "D + int N * 1000000000"
  have dv: "?t div 1000000000 = D div 1000000000 + int N" by simp
  have "0 \<le> ?t div 1000000000" using assms(7,8) dv by linarith
  then have "0 \<le> ?t" by (simp only: pos_imp_zdiv_nonneg_iff zero_less_numeral)
  moreover have "?t div 1000000000 < 2 ^ 32"
  proof -
    have "?t div 1000000000 * 1000000000 \<le> ?t"
      using pos_mod_sign [of 1000000000 ?t] div_mult_mod_eq [of ?t 1000000000] by linarith
    then show ?thesis using assms(10) by linarith
  qed
  ultimately have "m \<le> frames_in (Fin q) ?t" using assms dv by (intro frames_in_ge) simp_all
  moreover have "time_sub (tc_hiTime tc + int N * stepDuration tc) (tc_keyTime tc) = ?t"
    using \<open>0 \<le> ?t\<close> assms(4,9,10) by (simp add: time_sub_def)
  ultimately show ?thesis using resets_state [of N tc] assms(1,5,6) by simp
qed

lemma advance_returns:
  assumes "countable_rate c tc" "f \<le> tc_keyFrame tc + 2 ^ 31" "0 \<le> c" "c < 2 ^ 30"
  shows "\<exists>tc'. advance f tc = Some tc' \<and> countable_rate (c + 1) tc' \<and> tc_keyFrame tc' = tc_keyFrame tc"
proof -
  note cr = assms(1) [unfolded countable_rate_def]
  obtain q where q: "tc_sampleRate tc = Fin q" "1 \<le> q" "q \<le> 2 ^ 28" using cr by auto
  define D where "D = tc_hiTime tc - tc_keyTime tc"
  define s0 where "s0 = D div 1000000000"
  have D: "- (2 ^ 31 * 1000000000) < D" "D < (2 ^ 31 + c) * 1000000000" "s0 * 1000000000 \<le> D"
    "D < (s0 + 1) * 1000000000"
    using cr by (simp_all add: D_def s0_def)
  define m where "m = max 0 (f - tc_keyFrame tc)"
  have m: "0 \<le> m" "m \<le> 2 ^ 31" "f - tc_keyFrame tc \<le> m" using assms(2) by (auto simp: m_def)
  define N where "N = nat (max 1 (m - s0))"
  have N: "int N = max 1 (m - s0)" "N \<noteq> 0" by (auto simp: N_def)
  have end_N: "D + int N * 1000000000 < (2 ^ 31 + c + 1) * 1000000000"
  proof (cases "1 \<le> m - s0")
    case True
    then have "D + int N * 1000000000 < (m + 1) * 1000000000" using D(4) N(1) by simp
    also have "\<dots> \<le> (2 ^ 31 + c + 1) * 1000000000" using m(2) assms(3) by simp
    finally show ?thesis .
  next
    case False
    then show ?thesis using D(2) N(1) by simp
  qed
  have "f \<le> tc_hi ((messageAndReset ^^ N) tc)"
    using q m N D cr end_N assms(4) by (intro resets_reach [of tc q N f m D]) (auto simp: D_def s0_def)
  then obtain n where n: "f \<le> tc_hi ((messageAndReset ^^ n) tc)" "n \<le> N"
    "\<forall>k<n. tc_hi ((messageAndReset ^^ k) tc) < f"
    using ex_least_nat_le [of "\<lambda>n. f \<le> tc_hi ((messageAndReset ^^ n) tc)" N] by (auto simp: not_le)
  have "int n * 1000000000 \<le> int N * 1000000000" using n(2) by simp
  then have "countable_rate (c + 1) ((messageAndReset ^^ n) tc)"
    using resets_state [of n tc] cr q end_N D(1) by (simp add: countable_rate_def D_def)
  then show ?thesis using n resets_state [of n tc] unfolding advance_iff by blast
qed

lemma catch_up_round:
  assumes "0 < d"
  shows "\<exists>t. catch_up (time_round key d) key d = Some t \<and> key \<le> t \<and> t \<le> key + d"
proof -
  let ?r = "(key + unix_epoch) mod d"
  have r: "0 \<le> ?r" "?r < d" using assms by simp_all
  show ?thesis
  proof (cases "time_round key d < key")
    case True
    then have "time_round key d = key - ?r" using assms r by (auto simp: time_round_def Let_def split: if_splits)
    then have "key \<le> time_round key d + d" "time_round key d + d \<le> key + d" using r by simp_all
    then show ?thesis using True
      by (subst catch_up.simps, subst catch_up.simps) (auto intro!: exI [of _ "time_round key d + d"])
  next
    case False
    then show ?thesis using assms r
      by (subst catch_up.simps) (auto simp: time_round_def Let_def)
  qed
qed

lemma countable_mono: "countable_rate c tc \<Longrightarrow> c \<le> c' \<Longrightarrow> countable_rate c' tc"
  by (auto simp: countable_rate_def)

lemma count_frames_returns:
  assumes "countable_rate c tc" "\<forall>f\<in>set fs. f \<le> tc_keyFrame tc + 2 ^ 31" "0 \<le> c"
    and "c + int (length fs) < 2 ^ 30"
  shows "\<exists>tc'. count_frames fs tc = Some tc' \<and> countable_rate (c + int (length fs)) tc'
    \<and> tc_keyFrame tc' = tc_keyFrame tc"
  using assms
proof (induction fs arbitrary: tc c)
  case (Cons f fs)
  obtain b where b: "advance f tc = Some b" "countable_rate (c + 1) b" "tc_keyFrame b = tc_keyFrame tc"
    using advance_returns [OF Cons.prems(1), of f] Cons.prems(2-4) by auto
  let ?b = "if f \<ge> tc_lo b then b\<lparr>countsSeen := countsSeen b + 1\<rparr> else b"
  have k: "countable_rate (c + 1) ?b" "tc_keyFrame ?b = tc_keyFrame tc"
    using b(2,3) by (simp_all add: countable_rate_def)
  obtain tc' where "count_frames fs ?b = Some tc'" "countable_rate (c + 1 + int (length fs)) tc'"
    "tc_keyFrame tc' = tc_keyFrame ?b"
    using Cons.IH [OF k(1)] Cons.prems(2-4) k(2) by auto
  then show ?case using b(1) k(2) by (auto simp: add.assoc)
qed simp

text \<open>
  The counting loops end, as their comments promise: for a sample rate of at least 1 Hz, a
  one-second reporting period and frames within \<open>2 ^ 31\<close> of the key frame, counting the triggers of a
  list returns.
\<close>

theorem counting_ends:
  assumes "stepDuration tc = 1000000000" "tl_sampleRate tList = Fin q" "1 \<le> q" "q \<le> 2 ^ 28"
    and "\<forall>f\<in>set (tl_frames tList). f \<le> tl_keyFrame tList + 2 ^ 31"
    and "firstFrameThatCannotTrigger tList \<le> tl_keyFrame tList + 2 ^ 31"
    and "length (tl_frames tList) < 2 ^ 29"
    and "tc_initialized tc \<longrightarrow> \<bar>tc_hiTime tc - tl_keyTime tList\<bar> < 2 ^ 31 * 1000000000"
  shows "\<exists>tc'. countNewTriggers tc tList = Some tc'"
proof -
  define tc1 where "tc1 = tc\<lparr>tc_keyFrame := tl_keyFrame tList, tc_keyTime := tl_keyTime tList,
    tc_sampleRate := tl_sampleRate tList\<rparr>"
  have "\<exists>tc2. (if tc_initialized tc1 then Some tc1 else tc_initialize tc1) = Some tc2
    \<and> countable_rate 0 tc2 \<and> tc_keyFrame tc2 = tl_keyFrame tList"
  proof (cases "tc_initialized tc")
    case True
    then have "countable_rate 0 tc1" using assms(1-4,8) by (auto simp: countable_rate_def tc1_def)
    then show ?thesis using True by (simp add: tc1_def)
  next
    case False
    obtain t where t: "catch_up (time_round (tl_keyTime tList) 1000000000) (tl_keyTime tList) 1000000000 = Some t"
      "tl_keyTime tList \<le> t" "t \<le> tl_keyTime tList + 1000000000"
      using catch_up_round [of 1000000000 "tl_keyTime tList"] by auto
    have "tc_initialize tc1 = Some (start_at tc1 t)"
      using t(1) assms(1) by (simp add: tc_initialize_def tc1_def)
    moreover have "countable_rate 0 (start_at tc1 t)" "tc_keyFrame (start_at tc1 t) = tl_keyFrame tList"
      using t(2,3) assms(1-4) by (simp_all add: countable_rate_def start_at_def tc1_def Let_def)
    ultimately show ?thesis using False by (simp add: tc1_def)
  qed
  then obtain tc2 where 2: "(if tc_initialized tc1 then Some tc1 else tc_initialize tc1) = Some tc2"
    "countable_rate 0 tc2" "tc_keyFrame tc2 = tl_keyFrame tList" by blast
  obtain tc3 where 3: "count_frames (tl_frames tList) tc2 = Some tc3"
    "countable_rate (int (length (tl_frames tList))) tc3" "tc_keyFrame tc3 = tl_keyFrame tList"
    using count_frames_returns [OF 2(2), of "tl_frames tList"] assms(5,7) 2(3) by auto
  obtain tc4 where "advance (firstFrameThatCannotTrigger tList) tc3 = Some tc4"
    using advance_returns [OF 3(2), of "firstFrameThatCannotTrigger tList"] assms(6,7) 3(3) by auto
  then show ?thesis
    using 2(1) 3(1) assms(2,3) by (auto simp: countNewTriggers_def Let_def fle_def feq_def tc1_def)
qed

subsection \<open>Connections from channels that do not exist\<close>

text \<open>
  A connection request is checked for its receiver only.  Once a source that is not a channel is
  connected to an existing receiver, the next pass of the broker with any trigger at all panics.
\<close>

theorem unchecked_source_panics:
  assumes "broker_ok b" "0 \<le> r" "r < nchannels b" "s < 0 \<or> nchannels b \<le> s"
    and "store_primaries (fst (AddConnection b s r)) primaries 0 = Some (Inr (b1, n))" "n \<noteq> 0"
    and "distinct (map fst primaries)"
  shows "snd (AddConnection b s r) = None
    \<and> Distribute (fst (AddConnection b s r)) primaries = Some (Inl IndexOutOfRange)"
proof -
  let ?b = "fst (AddConnection b s r)"
  have sr: "s \<noteq> r" using assms(2-4) by auto
  note add = AddConnection_ok [OF assms(1), of s r]
  note sp = store_primaries_spec [OF assms(5,7)]
  have ok: "broker_ok b1" using add [of s r] sp by (simp add: broker_ok_def)
  have conn: "isConnected b1 s r"
    using add [of s r] isConnected_cong [of b1 ?b] sp sr assms(2,3) by simp
  have nch: "nchannels b1 = nchannels b" using sp add [of s r] by simp
  have lat: "int (length (latestPrimaries b1)) = nchannels b"
    using ok nch unfolding broker_ok_def by linarith
  have bad: "received b1 srcs = Inl IndexOutOfRange" if mem: "s \<in> fst ` set srcs" for srcs
  proof -
    have "mapM_go (\<lambda>(source, _). idx (latestPrimaries b1) source) srcs = Inl IndexOutOfRange"
    proof -
      obtain v where "(s, v) \<in> set srcs" using mem by auto
      then show ?thesis by (rule mapM_go_fail) (use assms(4) lat in \<open>auto simp: idx_def\<close>)
    qed
    then show ?thesis by (simp add: received_def)
  qed
  have either: "received b1 srcs = Inl IndexOutOfRange \<or> (\<exists>x. received b1 srcs = Inr x)" for srcs
  proof -
    have "mapM_go (\<lambda>(source, _). idx (latestPrimaries b1) source) srcs = Inl IndexOutOfRange
        \<or> (\<exists>x. mapM_go (\<lambda>(source, _). idx (latestPrimaries b1) source) srcs = Inr x)"
      by (induction srcs) (auto simp: idx_def)
    then show ?thesis by (auto simp: received_def)
  qed
  have "foldM_go (\<lambda>m i. let srcs = SourcesForReceiver b1 i in
        if length srcs > 0 then bind_go (received b1 srcs) (\<lambda>trigs. Inr (m @ [(i, trigs)])) else Inr m)
      m is = Inl IndexOutOfRange" if "r \<in> set is" for m "is"
    using that
  proof (induction "is" arbitrary: m)
    case (Cons i "is")
    have rx: "s \<in> fst ` set (SourcesForReceiver b1 r)"
      using conn by (auto simp: isConnected_iff has_key_def SourcesForReceiver_def)
    then show ?case
      using Cons bad [OF rx] either [of "SourcesForReceiver b1 i"] by (cases "i = r") (auto simp: Let_def)
  qed simp
  then have "secondary_map b1 = Inl IndexOutOfRange"
    using assms(2,3) sp add [of s r] by (simp add: secondary_map_def)
  then have "Distribute ?b primaries = Some (Inl IndexOutOfRange)"
    using assms(5,6) connected_nconnections [OF ok conn] by (simp add: Distribute_def)
  moreover have "snd (AddConnection b s r) = None"
    using sr assms(2,3) by (simp add: AddConnection_def Let_def)
  ultimately show ?thesis by blast
qed

subsection \<open>A broker of two channels\<close>

definition demo_broker :: TriggerBroker where
  "demo_broker = \<lparr>nchannels = 2, nconnections = 0, sources = [[], []], latestPrimaries = [[], []],
     triggerCounters = [NewTriggerCounter 0 1000000000, NewTriggerCounter 1 1000000000]\<rparr>"

definition demo_list :: "int \<Rightarrow> frame_index list \<Rightarrow> go_float \<Rightarrow> triggerList" where
  "demo_list ch fs rate = \<lparr>tl_channelIndex = ch, tl_frames = fs, tl_keyFrame = 100, tl_keyTime = 0,
     tl_sampleRate = rate, firstFrameThatCannotTrigger = 500\<rparr>"

text \<open>Two channels with the sample rate still unknown, so that counting does nothing.\<close>

definition demo_primaries :: "(int \<times> triggerList) list" where
  "demo_primaries = [(0, demo_list 0 [120, 140] (Fin 0)), (1, demo_list 1 [130] (Fin 0))]"

lemma demo_broker_new: "NewTriggerBroker 2 = Inr demo_broker"
  by (simp add: NewTriggerBroker_def demo_broker_def upto.simps numeral_eq_Suc)

lemmas demo_broker_ok = NewTriggerBroker_ok [OF demo_broker_new]

lemma demo_add: "fst (AddConnection demo_broker 0 1)
    = demo_broker\<lparr>nconnections := 1, sources := [[], [(0, True)]]\<rparr>"
  by (simp add: AddConnection_def demo_broker_def lookup_bool_def Let_def)

lemma demo_add_bad: "fst (AddConnection demo_broker 7 1)
    = demo_broker\<lparr>nconnections := 1, sources := [[], [(7, True)]]\<rparr>"
  by (simp add: AddConnection_def demo_broker_def lookup_bool_def Let_def)

lemma count_rate_zero: "countNewTriggers tc (demo_list ch fs (Fin 0))
    = Some (tc\<lparr>tc_keyFrame := 100, tc_keyTime := 0, tc_sampleRate := Fin 0\<rparr>)"
  by (simp add: countNewTriggers_def demo_list_def fle_def feq_def Let_def)

lemma demo_store: "\<exists>b1. store_primaries (demo_broker\<lparr>nconnections := 1, sources := srcs\<rparr>) demo_primaries 0
      = Some (Inr (b1, 3)) \<and> nchannels b1 = 2 \<and> nconnections b1 = 1 \<and> sources b1 = srcs
      \<and> latestPrimaries b1 = [[120, 140], [130]]"
  by (simp add: demo_primaries_def demo_broker_def count_rate_zero) (simp add: demo_list_def)

lemma demo_distribute: "\<exists>b1. Distribute (fst (AddConnection demo_broker 0 1)) demo_primaries
    = Some (Inr (b1, [(1, [120, 140])]))"
proof -
  obtain b1 where b1: "store_primaries (fst (AddConnection demo_broker 0 1)) demo_primaries 0
      = Some (Inr (b1, 3))" "nchannels b1 = 2" "nconnections b1 = 1" "sources b1 = [[], [(0, True)]]"
    "latestPrimaries b1 = [[120, 140], [130]]"
    using demo_store unfolding demo_add by blast
  have "secondary_map b1 = Inr [(1, [120, 140])]"
    using b1(2-) by (simp add: secondary_map_def SourcesForReceiver_def received_def upto.simps)
  then show ?thesis using b1(1,3) by (simp add: Distribute_def)
qed

theorem connections_are_relation_witness:
  "{(s, r). isConnected (foldl broker_request demo_broker
      [Connect 0 1, Connect 1 0, Disconnect 0 1, Connect 1 1, Connect 0 9]) s r} = {(1, 0)}"
proof -
  have "foldl (relation_request 2) {} [Connect 0 1, Connect 1 0, Disconnect 0 1, Connect 1 1, Connect 0 9]
      = {(1, 0)}" by auto
  then show ?thesis by (rule trans [OF connections_are_relation [OF demo_broker_new, THEN conjunct1]])
qed

definition running_counter :: TriggerCounter where
  "running_counter = (NewTriggerCounter 0 1000000000)\<lparr>tc_hi := 1000, tc_initialized := True\<rparr>"

theorem every_trigger_counted_witness:
  "\<exists>tc'. countNewTriggers running_counter (demo_list 0 [120, 140] (Fin 1)) = Some tc'
    \<and> sum_list (map msg_countsSeen (tc_messages tc')) + countsSeen tc' = 2"
proof -
  obtain tc' where tc': "countNewTriggers running_counter (demo_list 0 [120, 140] (Fin 1)) = Some tc'"
    using counting_ends [of running_counter "demo_list 0 [120, 140] (Fin 1)" 1]
    by (auto simp: running_counter_def demo_list_def NewTriggerCounter_def)
  then show ?thesis
    using every_trigger_counted [OF tc']
    by (simp add: running_counter_def demo_list_def NewTriggerCounter_def)
qed

theorem secondaries_are_source_triggers_witness:
  "\<exists>b' sec. Distribute (fst (AddConnection demo_broker 0 1)) demo_primaries = Some (Inr (b', sec))
    \<and> map fst sec = [1]"
proof -
  obtain b1 where b1: "Distribute (fst (AddConnection demo_broker 0 1)) demo_primaries
      = Some (Inr (b1, [(1, [120, 140])]))" using demo_distribute by blast
  note add = AddConnection_ok [OF demo_broker_ok(1), of 0 1]
  have "sources_exist (fst (AddConnection demo_broker 0 1))"
    using add demo_broker_ok(2,3) by (simp add: sources_exist_def)
  moreover have "isConnected (fst (AddConnection demo_broker 0 1)) 0 1"
    using add [of 0 1] demo_broker_ok(2) by simp
  moreover have "filter (\<lambda>r. \<exists>s. isConnected (fst (AddConnection demo_broker 0 1)) s r) [0..1] = [1]"
    using add demo_broker_ok(2,3) by (simp add: upto.simps)
  ultimately show ?thesis
    using secondaries_are_source_triggers [OF _ _ _ _ b1, of 0 1 0 "demo_list 0 [120, 140] (Fin 0)"] b1
      add demo_broker_ok(2)
    by (auto simp: demo_primaries_def demo_list_def)
qed

theorem rate_messages_agree_witness: "\<exists>b'. GenerateTriggerMessages demo_broker = Inr (b', [])"
proof -
  have "in_step demo_broker"
    by (simp add: in_step_def demo_broker_def timing_def NewTriggerCounter_def)
  then show ?thesis
    using rate_messages_agree [OF demo_broker_ok(1)] demo_broker_ok(2)
    by (auto simp: demo_broker_def NewTriggerCounter_def)
qed

theorem distribute_keeps_in_step_witness:
  "\<exists>b' sec. Distribute (fst (AddConnection demo_broker 0 1)) demo_primaries = Some (Inr (b', sec)) \<and> in_step b'"
proof -
  obtain b1 where b1: "Distribute (fst (AddConnection demo_broker 0 1)) demo_primaries
      = Some (Inr (b1, [(1, [120, 140])]))" using demo_distribute by blast
  have "in_step (fst (AddConnection demo_broker 0 1))"
    unfolding demo_add by (simp add: in_step_def demo_broker_def timing_def NewTriggerCounter_def)
  moreover have "{0, 1} = {0..<2::int}" by auto
  ultimately have "in_step b1"
    using distribute_keeps_in_step [OF _ _ _ _ _ _ b1] AddConnection_ok [OF demo_broker_ok(1), of 0 1]
      demo_broker_ok(2)
    by (auto simp: demo_primaries_def demo_list_def same_interval_def frames_ok_def)
  then show ?thesis using b1 by blast
qed

theorem counting_ends_witness:
  "\<exists>tc'. countNewTriggers (NewTriggerCounter 0 1000000000) (demo_list 0 [120, 140] (Fin 7)) = Some tc'"
  by (rule counting_ends [where q = 7]) (simp_all add: NewTriggerCounter_def demo_list_def)

theorem unchecked_source_panics_witness:
  "Distribute (fst (AddConnection demo_broker 7 1)) demo_primaries = Some (Inl IndexOutOfRange)"
proof -
  obtain b1 where "store_primaries (fst (AddConnection demo_broker 7 1)) demo_primaries 0 = Some (Inr (b1, 3))"
    using demo_store unfolding demo_add_bad by blast
  then show ?thesis
    using unchecked_source_panics [OF demo_broker_ok(1), of 1 7 demo_primaries b1 3] demo_broker_ok(2)
    by (simp add: demo_primaries_def)
qed

end
