(* ===== verification/SourceLaws.thy ===== *)
theory SourceLaws
  imports Source ProcessLaws GroupLaws
begin

text \<open>
  A block of data through a whole source.  The channels of a source run in step: equal settings of
  the record length, equal windows of data, equal clocks.  As long as they do, the triggers that a
  channel finds lie inside the buffers of all channels, so that no secondary record is missing, and
  the trigger counters of all channels close the same intervals.  The main theorem composes the
  laws of one channel, of the broker and of the logs into one for \<open>ProcessSegments\<close>.
\<close>

subsection \<open>Channels in step\<close>

text \<open>What two channels must share to stay in step.\<close>

definition window_of :: "data_stream \<Rightarrow> nat \<times> frame_index \<times> go_time \<times> go_duration" where
  "window_of st = (length (rawData st), firstFrameIndex st, firstTime st, framePeriod st)"

definition settings_of :: "stream_processor \<Rightarrow> int \<times> int \<times> go_float \<times> bool \<times> int \<times> int" where
  "settings_of d = (NSamples d, NPresamples d, SampleRate d, Decimate d, DecimateLevel d, nsamp (emt d))"

definition segment_window :: "data_segment \<Rightarrow> nat \<times> frame_index \<times> go_time \<times> go_duration \<times> int" where
  "segment_window seg = (length (rawData seg), firstFrameIndex seg, firstTime seg, framePeriod seg,
     framesPerSample seg)"

definition alike :: "stream_processor \<Rightarrow> stream_processor \<Rightarrow> bool" where
  "alike d d' \<longleftrightarrow> settings_of d = settings_of d' \<and> window_of (stream d) = window_of (stream d')"

lemmas in_step_defs = alike_def settings_of_def window_of_def

lemma decimated_window:
  assumes "DecimateData d seg = Inr seg'" "DecimateLevel d \<le> 2 ^ 35"
  shows "length (rawData seg') = (if Decimate d \<and> 1 < DecimateLevel d
        then decimated_length (DecimateLevel d) (length (rawData seg)) else length (rawData seg))"
    and "framesPerSample seg' = (if Decimate d \<and> 1 < DecimateLevel d
        then framesPerSample seg * DecimateLevel d else framesPerSample seg)"
    and "firstFrameIndex seg' = firstFrameIndex seg" "firstTime seg' = firstTime seg"
    and "framePeriod seg' = framePeriod seg"
proof -
  have "length (rawData seg') = (if Decimate d \<and> 1 < DecimateLevel d
        then decimated_length (DecimateLevel d) (length (rawData seg)) else length (rawData seg))
    \<and> framesPerSample seg' = (if Decimate d \<and> 1 < DecimateLevel d
        then framesPerSample seg * DecimateLevel d else framesPerSample seg)
    \<and> firstFrameIndex seg' = firstFrameIndex seg \<and> firstTime seg' = firstTime seg
    \<and> framePeriod seg' = framePeriod seg"
  proof (cases "Decimate d \<and> 1 < DecimateLevel d")
    case True
    define L where "L = nat (DecimateLevel d)"
    have L: "DecimateLevel d = int L" "1 < L" "L \<le> 2 ^ 35" using True assms(2) by (simp_all add: L_def)
    show ?thesis
    proof (cases "DecimateAvgMode d")
      case avg: True
      then show ?thesis
        using DecimateData_average [OF _ avg L, of seg] True assms(1) by (auto simp: L averaged_def)
    next
      case drop: False
      then show ?thesis using DecimateData_drop [OF _ drop L(1,2), of seg] True assms(1) by (auto simp: L)
    qed
  next
    case False
    then show ?thesis using assms(1) by (auto simp: DecimateData_def)
  qed
  then show "length (rawData seg') = (if Decimate d \<and> 1 < DecimateLevel d
        then decimated_length (DecimateLevel d) (length (rawData seg)) else length (rawData seg))"
    "framesPerSample seg' = (if Decimate d \<and> 1 < DecimateLevel d
        then framesPerSample seg * DecimateLevel d else framesPerSample seg)"
    "firstFrameIndex seg' = firstFrameIndex seg" "firstTime seg' = firstTime seg"
    "framePeriod seg' = framePeriod seg" by blast+
qed

lemma decimated_alike:
  assumes "settings_of d = settings_of d'" "DecimateLevel d \<le> 2 ^ 35" "segment_window seg = segment_window tseg"
    and "DecimateData d seg = Inr seg'" "DecimateData d' tseg = Inr tseg'"
  shows "segment_window seg' = segment_window tseg'"
proof -
  have "DecimateLevel d' \<le> 2 ^ 35" using assms(1,2) by (simp add: settings_of_def)
  then show ?thesis
    using decimated_window [OF assms(4,2)] decimated_window [OF assms(5)] assms(1,3)
    by (simp add: segment_window_def settings_of_def)
qed

lemma appended_alike:
  assumes "window_of st = window_of st'" "segment_window seg = segment_window tseg"
  shows "window_of (AppendSegment st seg) = window_of (AppendSegment st' tseg)"
  using assms by (simp add: window_of_def segment_window_def AppendSegment_def Let_def)

lemma appended_length:
  assumes "DecimateData d seg = Inr seg'" "DecimateLevel d \<le> 2 ^ 35"
  shows "length (rawData (AppendSegment st seg')) \<le> length (rawData st) + length (rawData seg)"
proof -
  have "decimated_length (DecimateLevel d) (length (rawData seg)) \<le> length (rawData seg)" if "1 < DecimateLevel d"
    using decimated_length_le [of "nat (DecimateLevel d)"] that by simp
  then show ?thesis using decimated_window(1) [OF assms] by auto
qed

lemma trimmed_alike:
  assumes "window_of st = window_of st'" "framesPerSample st = framesPerSample st'"
    and "TrimKeepingN st N = Inr (t, n)" "TrimKeepingN st' N = Inr (t', n')"
  shows "window_of t = window_of t'"
  using assms by (auto simp: window_of_def TrimKeepingN_def Let_def split: if_splits)

subsection \<open>One channel\<close>

text \<open>A record of the channel's length fits around the frame.\<close>

definition record_fits :: "stream_processor \<Rightarrow> frame_index \<Rightarrow> bool" where
  "record_fits d f \<longleftrightarrow> (let k = f - firstFrameIndex (stream d) - NPresamples d in
     0 \<le> k \<and> k + NSamples d \<le> int (length (rawData (stream d))))"

text \<open>What the first half leaves of a channel.\<close>

definition ingested :: "dsp_env \<Rightarrow> stream_processor \<Rightarrow> data_segment \<Rightarrow> stream_processor \<Rightarrow> bool" where
  "ingested env d seg d' \<longleftrightarrow> channel_ok env d' \<and> same_settings d d'
     \<and> (\<exists>seg'. DecimateData d seg = Inr seg' \<and> stream d' = AppendSegment (stream d) seg')
     \<and> (\<forall>f\<in>set (tl_frames (lastTrigList d')). record_fits d' f)
     \<and> length (tl_frames (lastTrigList d')) \<le> length (rawData (stream d'))
     \<and> tl_keyFrame (lastTrigList d') = firstFrameIndex (stream d')
     \<and> tl_keyTime (lastTrigList d') = firstTime (stream d') \<and> tl_sampleRate (lastTrigList d') = SampleRate d'
     \<and> firstFrameThatCannotTrigger (lastTrigList d') = firstFrameIndex (stream d')
         + int (length (rawData (stream d'))) - (NSamples d' - NPresamples d')"

lemma segment_ingested:
  assumes "channel_ok env d"
  shows "\<exists>d' seg'. processSegment env d seg = Some (Inr (d', seg')) \<and> ingested env d seg d'"
proof -
  obtain d' seg' records where 1: "processSegment env d seg = Some (Inr (d', seg'))"
    "DecimateData d seg = Inr seg'" "stream d' = AppendSegment (stream d) seg'"
    "lastTrigList d' = \<lparr>tl_channelIndex = channelIndex d, tl_frames = map trigFrame records,
       tl_keyFrame = firstFrameIndex (stream d'), tl_keyTime = firstTime (stream d'),
       tl_sampleRate = SampleRate d,
       firstFrameThatCannotTrigger = firstFrameIndex (stream d') + int (length (rawData (stream d')))
         - (NSamples d - NPresamples d)\<rparr>"
    "\<forall>r\<in>set records. let k = trigFrame r - firstFrameIndex (stream d') - NPresamples d in
        0 \<le> k \<and> k + NSamples d \<le> int (length (rawData (stream d')))
        \<and> recData r = take (nat (NSamples d)) (drop (nat k) (rawData (stream d')))"
    "if records = [] then publisher d' = publisher d
     else published (env_marshal3 env) (env_marshalOFF env) (env_files env) (publisher d) records (publisher d')"
    "same_settings d d'" "channel_ok env d'" "length records \<le> length (rawData (stream d'))"
    by (rule segment_processed [OF assms, of seg])
  have "record_fits d' f" if "f \<in> set (tl_frames (lastTrigList d'))" for f
    using 1(5,7) that by (auto simp: 1(4) record_fits_def same_settings_def Let_def)
  then show ?thesis using 1 by (auto simp: ingested_def same_settings_def)
qed

lemma process_first_total:
  assumes "list_all2 (\<lambda>d seg. channel_ok env d) ds segs"
  shows "\<exists>ds'. process_first env ds segs = Some (Inr ds')
    \<and> list_all2 (\<lambda>(d, seg) d'. ingested env d seg d') (zip ds segs) ds'"
  using assms
proof (induction rule: list_all2_induct)
  case (Cons d ds seg segs)
  then show ?case using segment_ingested [of env d seg] by auto
qed simp

lemma triggerAt_record:
  assumes "record_fits d f" "0 \<le> NPresamples d" "0 \<le> NSamples d"
  shows "\<exists>r. triggerAt d (f - firstFrameIndex (stream d)) = Inr (Some r)
    \<and> presamples r = NPresamples d \<and> int (length (recData r)) = NSamples d"
  using assms
  by (auto simp: record_fits_def Let_def triggerAt_def triggerAtSpecificSamples_def slice_go_def cut_record_def)

lemma secondaries_processed:
  assumes "channel_ok env d" "\<forall>f\<in>set flist. record_fits d f"
  shows "\<exists>dp. processSecondaries env d flist = Inr (d\<lparr>publisher := dp\<rparr>) \<and> channel_ok env (d\<lparr>publisher := dp\<rparr>)"
proof -
  have len: "0 \<le> NPresamples d" "0 \<le> NSamples d" using assms(1) by (auto simp: channel_ok_def)
  have "\<exists>y. triggerAt d (f - firstFrameIndex (stream d)) = Inr y
      \<and> (\<exists>r. y = Some r \<and> presamples r = NPresamples d \<and> int (length (recData r)) = NSamples d)"
    if "f \<in> set flist" for f
    using triggerAt_record [OF _ len] assms(2) that by blast
  then obtain ys where ys: "TriggerDataSecondary d flist = Inr ys"
    "list_all2 (\<lambda>f y. \<exists>r. y = Some r \<and> presamples r = NPresamples d \<and> int (length (recData r)) = NSamples d) flist ys"
    using mapM_go_all2 [of flist "\<lambda>f. triggerAt d (f - firstFrameIndex (stream d))"
      "\<lambda>f y. \<exists>r. y = Some r \<and> presamples r = NPresamples d \<and> int (length (recData r)) = NSamples d"]
    by (auto simp: TriggerDataSecondary_def)
  have all: "\<forall>y\<in>set ys. \<exists>r. y = Some r \<and> presamples r = NPresamples d \<and> int (length (recData r)) = NSamples d"
    using ys(2) by (auto simp: list_all2_conv_all_nth in_set_conv_nth)
  then have some: "map Some (map the ys) = ys" by (induction ys) auto
  have "\<forall>r\<in>set (map the ys). presamples r = NPresamples d \<and> int (length (recData r)) = NSamples d"
    using all by auto
  then obtain an dp where "AnalyzeData (env_mulvec env) d ys = Inr an" "publish env d an = Inr (d\<lparr>publisher := dp\<rparr>)"
    "channel_ok env (d\<lparr>publisher := dp\<rparr>)"
    using batch_published [OF assms(1), of "map the ys"] unfolding some by blast
  then show ?thesis using ys(1) by (auto simp: processSecondaries_def)
qed

lemma trim_channel:
  assumes "channel_ok env d" "0 \<le> nsamp (emt d)" "nsamp (emt d) < 2 ^ 21"
  shows "\<exists>st n. TrimKeepingN (stream d) (2 * nsamp (emt d) + 10) = Inr (st, n)
    \<and> TrimStream d = Inr (d\<lparr>stream := st\<rparr>) \<and> length (rawData st) < 2 ^ 23 \<and> channel_ok env (d\<lparr>stream := st\<rparr>)"
proof -
  have N: "NToKeepOnTrim (emt d) = 2 * nsamp (emt d) + 10"
    using assms(2,3) by (simp add: NToKeepOnTrim_def to_int32_id)
  obtain st n where st: "TrimKeepingN (stream d) (2 * nsamp (emt d) + 10) = Inr (st, n)"
    using TrimKeepingN_total [of "2 * nsamp (emt d) + 10" "stream d"] assms(2) by auto
  have same: "same_settings d (d\<lparr>stream := st\<rparr>)" by (simp add: same_settings_def)
  have "length (rawData st) < 2 ^ 23"
    using TrimKeepingN_length [OF st] assms(3) by auto
  moreover have "channel_ok env (d\<lparr>stream := st\<rparr>)"
    using assms(1) shapes_same [OF same] fits_same [OF same] by (simp add: channel_ok_def outputs_ready_def)
  ultimately show ?thesis using st N by (auto simp: TrimStream_def)
qed

lemma ingested_alike:
  assumes "ingested env d seg d'" "ingested env e tseg e'" "alike d e"
    and "segment_window seg = segment_window tseg" "DecimateLevel d \<le> 2 ^ 35"
  shows "alike d' e'" "framesPerSample (stream d') = framesPerSample (stream e')"
proof -
  obtain s t where s: "DecimateData d seg = Inr s" "stream d' = AppendSegment (stream d) s"
    and t: "DecimateData e tseg = Inr t" "stream e' = AppendSegment (stream e) t"
    using assms(1,2) by (auto simp: ingested_def)
  have w: "segment_window s = segment_window t"
    using decimated_alike [OF _ assms(5,4) s(1) t(1)] assms(3) by (simp add: alike_def)
  have "settings_of d' = settings_of e'"
    using assms(1-3) by (auto simp: ingested_def same_settings_def in_step_defs)
  moreover have "window_of (stream d') = window_of (stream e')"
    using appended_alike [OF _ w] assms(3) by (simp add: s(2) t(2) alike_def)
  ultimately show "alike d' e'" by (simp add: alike_def)
  show "framesPerSample (stream d') = framesPerSample (stream e')"
    using w by (simp add: s(2) t(2) segment_window_def)
qed

lemma record_fits_alike: "alike d e \<Longrightarrow> record_fits d f \<longleftrightarrow> record_fits e f"
  by (simp add: record_fits_def in_step_defs)

subsection \<open>The broker\<close>

lemma resets_step: "stepDuration ((messageAndReset ^^ n) tc) = stepDuration tc"
  using resets_state by blast

lemma advance_step: "advance f tc = Some tc' \<Longrightarrow> stepDuration tc' = stepDuration tc"
  unfolding advance_iff by (auto simp: resets_step)

lemma count_frames_step: "count_frames fs tc = Some tc' \<Longrightarrow> stepDuration tc' = stepDuration tc"
  by (induction fs arbitrary: tc) (auto simp: bind_eq_Some_conv split: if_splits dest!: advance_step)

lemma countNewTriggers_step:
  assumes "countNewTriggers tc x = Some tc'"
  shows "stepDuration tc' = stepDuration tc"
  using assms
  by (auto simp: countNewTriggers_def Let_def bind_eq_Some_conv tc_initialize_def start_at_def
    split: if_splits dest!: advance_step count_frames_step)

lemma store_primaries_total:
  assumes "distinct (map fst ps)"
    and "\<forall>(i, x)\<in>set ps. 0 \<le> i \<and> i < int (length (latestPrimaries b)) \<and> i < int (length (triggerCounters b))
      \<and> (\<exists>tc. countNewTriggers (triggerCounters b ! nat i) x = Some tc)"
  shows "\<exists>r. store_primaries b ps n = Some (Inr r)"
  using assms
proof (induction ps arbitrary: b n)
  case (Cons p ps)
  obtain i x where p: "p = (i, x)" by (cases p)
  obtain tc where i: "0 \<le> i" "i < int (length (latestPrimaries b))" "i < int (length (triggerCounters b))"
    and tc: "countNewTriggers (triggerCounters b ! nat i) x = Some tc"
    using Cons.prems(2) by (auto simp: p)
  let ?b = "b\<lparr>latestPrimaries := (latestPrimaries b)[nat i := tl_frames x],
    triggerCounters := (triggerCounters b)[nat i := tc]\<rparr>"
  have "0 \<le> j \<and> j < int (length (latestPrimaries ?b)) \<and> j < int (length (triggerCounters ?b))
      \<and> (\<exists>tc. countNewTriggers (triggerCounters ?b ! nat j) y = Some tc)" if "(j, y) \<in> set ps" for j y
  proof -
    have "j \<noteq> i" using Cons.prems(1) that by (auto simp: p rev_image_eqI)
    moreover have "0 \<le> j \<and> j < int (length (latestPrimaries b)) \<and> j < int (length (triggerCounters b))
      \<and> (\<exists>tc. countNewTriggers (triggerCounters b ! nat j) y = Some tc)"
      using Cons.prems(2) that by fastforce
    ultimately show ?thesis using i(1) by (simp add: nth_list_update eq_nat_nat_iff)
  qed
  then have "\<exists>r. store_primaries ?b ps (n + int (length (tl_frames x))) = Some (Inr r)"
    using Cons.prems(1) by (intro Cons.IH) auto
  then show ?case using i tc by (simp add: p)
qed simp

text \<open>One trigger list per channel, numbered from 0.\<close>

definition one_each :: "TriggerBroker \<Rightarrow> (int \<times> triggerList) list \<Rightarrow> bool" where
  "one_each b ps \<longleftrightarrow> map fst ps = [0..nchannels b - 1]"

lemma one_each_covers:
  assumes "one_each b ps"
  shows "distinct (map fst ps)" "set (map fst ps) = {0..<nchannels b}"
  using assms by (auto simp: one_each_def)

lemma distribute_total:
  assumes b: "broker_ok b" "in_step b" "sources_exist b" "one_each b ps"
    and cnt: "\<forall>(i, x)\<in>set ps. \<exists>tc. countNewTriggers (triggerCounters b ! nat i) x = Some tc"
    and intervals: "\<forall>(i, x)\<in>set ps. \<forall>(j, y)\<in>set ps. same_interval x y"
    and frames: "\<forall>(i, x)\<in>set ps. frames_ok x"
  shows "\<exists>b' sec. Distribute b ps = Some (Inr (b', sec)) \<and> broker_ok b' \<and> in_step b' \<and> sources_exist b'
    \<and> nchannels b' = nchannels b
    \<and> map stepDuration (triggerCounters b') = map stepDuration (triggerCounters b)
    \<and> (\<forall>(r, fs)\<in>set sec. \<forall>f\<in>set fs. \<exists>(i, x)\<in>set ps. f \<in> set (tl_frames x))"
proof -
  note cov = one_each_covers [OF b(4)]
  have lens: "length (latestPrimaries b) = nat (nchannels b)" "length (triggerCounters b) = nat (nchannels b)"
    using b(1) by (auto simp: broker_ok_def)
  have rng: "0 \<le> i \<and> i < nchannels b" if "(i, x) \<in> set ps" for i x
  proof -
    have "i \<in> set (map fst ps)" using that by force
    then show ?thesis using cov(2) by simp
  qed
  have "\<exists>r. store_primaries b ps 0 = Some (Inr r)"
    using cnt rng by (intro store_primaries_total cov(1)) (fastforce simp: lens)
  then obtain b1 n where st: "store_primaries b ps 0 = Some (Inr (b1, n))" by auto
  note sp = store_primaries_spec [OF st cov(1)]
  have con: "isConnected b1 = isConnected b" using sp by (intro isConnected_cong) blast+
  have se: "sources_exist b1" using b(3) sp by (simp add: sources_exist_def con)
  have ok1: "broker_ok b1" using b(1) sp by (simp add: broker_ok_def)
  have each: "\<exists>x. (int k, x) \<in> set ps" if "k < nat (nchannels b)" for k
  proof -
    have "int k \<in> set (map fst ps)" using that unfolding cov(2) by simp
    then show ?thesis by auto
  qed
  obtain sec where D: "Distribute b ps = Some (Inr (b1, sec))"
    and sec: "sec = [] \<or> secondary_map b1 = Inr sec"
    using st secondary_map_spec [OF ok1 se] by (cases "n = 0 \<or> nconnections b1 = 0") (auto simp: Distribute_def)
  have step: "broker_ok b1 \<and> in_step b1"
    by (rule distribute_keeps_in_step [OF b(1,2) cov intervals frames D])
  have "stepDuration (triggerCounters b1 ! k) = stepDuration (triggerCounters b ! k)" if k: "k < nat (nchannels b)" for k
  proof -
    obtain x where "(int k, x) \<in> set ps" using each [OF k] by blast
    then have "countNewTriggers (triggerCounters b ! nat (int k)) x = Some (triggerCounters b1 ! nat (int k))"
      using sp by blast
    then show ?thesis using countNewTriggers_step by fastforce
  qed
  then have steps: "map stepDuration (triggerCounters b1) = map stepDuration (triggerCounters b)"
    using sp lens by (intro nth_equalityI) auto
  have from_ps: "\<exists>(i, x)\<in>set ps. f \<in> set (tl_frames x)" if rf: "(r, fs) \<in> set sec" "f \<in> set fs" for r fs f
  proof -
    have "secondary_map b1 = Inr sec" using sec rf(1) by auto
    then have "fs = sort (concat (map (\<lambda>s. latestPrimaries b1 ! nat s) (map fst (sources b1 ! nat r))))"
      and r: "0 \<le> r" "r < nchannels b1"
      using secondary_map_spec [OF ok1 se] rf(1) by auto
    then obtain s where s: "s \<in> fst ` set (sources b1 ! nat r)" "f \<in> set (latestPrimaries b1 ! nat s)"
      using rf(2) by auto
    then have "isConnected b1 s r" using r by (simp add: isConnected_iff has_key_def)
    then have "0 \<le> s" "s < nchannels b" using se sp by (auto simp: sources_exist_def)
    then obtain x where x: "(s, x) \<in> set ps" using each [of "nat s"] by auto
    then have "latestPrimaries b1 ! nat s = tl_frames x" using sp by blast
    then show ?thesis using s(2) x by auto
  qed
  have "\<forall>(r, fs)\<in>set sec. \<forall>f\<in>set fs. \<exists>(i, x)\<in>set ps. f \<in> set (tl_frames x)"
    using from_ps by blast
  then show ?thesis using D step se steps sp by blast
qed

lemma messages_generated:
  assumes "broker_ok b" "in_step b" "0 < nchannels b"
  shows "\<exists>b' msgs. GenerateTriggerMessages b = Inr (b', msgs) \<and> broker_ok b' \<and> in_step b'
    \<and> nchannels b' = nchannels b \<and> sources b' = sources b
    \<and> map stepDuration (triggerCounters b') = map stepDuration (triggerCounters b)
    \<and> (\<forall>m\<in>set msgs. int (length (CountsSeen m)) = nchannels b)"
proof -
  obtain b' msgs where g: "GenerateTriggerMessages b = Inr (b', msgs)" "broker_ok b'" "in_step b'"
    "length msgs = length (tc_messages (triggerCounters b ! 0))"
    "\<forall>k<length msgs. CountsSeen (msgs ! k) = map (\<lambda>c. msg_countsSeen (tc_messages c ! k)) (triggerCounters b)"
    using rate_messages_agree [OF assms] by blast
  have "b' = b\<lparr>triggerCounters := map (\<lambda>c. c\<lparr>tc_messages := []\<rparr>) (triggerCounters b)\<rparr>"
    using g(1) by (auto simp: GenerateTriggerMessages_def Let_def bind_go_Inr_iff split: if_splits)
  moreover have "int (length (CountsSeen m)) = nchannels b" if "m \<in> set msgs" for m
  proof -
    obtain k where "k < length msgs" "m = msgs ! k" using \<open>m \<in> set msgs\<close> unfolding in_set_conv_nth by blast
    then have "length (CountsSeen m) = length (triggerCounters b)" using g(5) by simp
    then show ?thesis using assms(1,3) by (simp add: broker_ok_def)
  qed
  ultimately show ?thesis using g(1-3) by (intro exI [of _ b'] exI [of _ msgs]) (simp add: o_def)
qed

subsection \<open>All channels\<close>

text \<open>A sample rate at which counting is exact enough to end.\<close>

definition rate_ok :: "go_float \<Rightarrow> bool" where
  "rate_ok rate \<longleftrightarrow> (\<exists>q. rate = Fin q \<and> 1 \<le> q \<and> q \<le> 2 ^ 28)"

definition channels_ok :: "dsp_env \<Rightarrow> stream_processor list \<Rightarrow> bool" where
  "channels_ok env ds \<longleftrightarrow> (\<forall>d\<in>set ds. channel_ok env d \<and> rate_ok (SampleRate d) \<and> 0 \<le> nsamp (emt d)
       \<and> nsamp (emt d) < 2 ^ 21 \<and> length (rawData (stream d)) < 2 ^ 23)
     \<and> (\<forall>d\<in>set ds. \<forall>e\<in>set ds. alike d e)"

definition counters_step :: "TriggerBroker \<Rightarrow> bool" where
  "counters_step b \<longleftrightarrow> (\<forall>tc\<in>set (triggerCounters b). stepDuration tc = 1000000000)"

definition broker_ready :: "TriggerBroker \<Rightarrow> int \<Rightarrow> bool" where
  "broker_ready b n \<longleftrightarrow> broker_ok b \<and> in_step b \<and> sources_exist b \<and> counters_step b \<and> nchannels b = n"

text \<open>
  The segments of a block: one per channel, of one length and at one time, which is not 68 years away
  from the last interval of the counters.
\<close>

definition segments_ok :: "TriggerBroker \<Rightarrow> stream_processor list \<Rightarrow> data_segment list \<Rightarrow> bool" where
  "segments_ok b ds segs \<longleftrightarrow> length segs = length ds \<and> (\<forall>s\<in>set segs. length (rawData s) < 2 ^ 28)
     \<and> (\<forall>s\<in>set segs. \<forall>t\<in>set segs. segment_window s = segment_window t)
     \<and> (\<forall>(d, s)\<in>set (zip ds segs). \<forall>s'. DecimateData d s = Inr s' \<longrightarrow> (\<forall>tc\<in>set (triggerCounters b).
         tc_initialized tc \<longrightarrow> \<bar>tc_hiTime tc - firstTime (AppendSegment (stream d) s')\<bar> < 2 ^ 31 * 1000000000))"

lemma ingested_counted:
  assumes "ingested env d seg d'" "rate_ok (SampleRate d)" "length (rawData (stream d)) < 2 ^ 23"
    "length (rawData seg) < 2 ^ 28" "DecimateLevel d \<le> 2 ^ 35" "stepDuration tc = 1000000000"
    and "\<And>s'. DecimateData d seg = Inr s' \<Longrightarrow> tc_initialized tc
      \<Longrightarrow> \<bar>tc_hiTime tc - firstTime (AppendSegment (stream d) s')\<bar> < 2 ^ 31 * 1000000000"
  shows "\<exists>tc'. countNewTriggers tc (lastTrigList d') = Some tc'"
proof -
  note ing = assms(1) [unfolded ingested_def]
  obtain s' where s': "DecimateData d seg = Inr s'" "stream d' = AppendSegment (stream d) s'" using ing by blast
  have len: "length (rawData (stream d')) < 2 ^ 29"
    using appended_length [OF s'(1) assms(5), of "stream d"] assms(3,4) by (simp add: s'(2))
  obtain q where q: "tl_sampleRate (lastTrigList d') = Fin q" "1 \<le> q" "q \<le> 2 ^ 28"
    using assms(2) ing by (auto simp: rate_ok_def same_settings_def)
  have np: "NPresamples d' < NSamples d'" using ing by (simp add: channel_ok_def)
  have key: "tl_keyFrame (lastTrigList d') = firstFrameIndex (stream d')"
    "firstFrameThatCannotTrigger (lastTrigList d') = firstFrameIndex (stream d')
       + int (length (rawData (stream d'))) - (NSamples d' - NPresamples d')"
    "length (tl_frames (lastTrigList d')) \<le> length (rawData (stream d'))" using ing by blast+
  have "f \<le> tl_keyFrame (lastTrigList d') + 2 ^ 31" if "f \<in> set (tl_frames (lastTrigList d'))" for f
  proof -
    have "record_fits d' f" using ing that by blast
    then have "f - firstFrameIndex (stream d') \<le> int (length (rawData (stream d')))"
      using np by (simp add: record_fits_def Let_def)
    then show ?thesis using key len by simp
  qed
  moreover have "firstFrameThatCannotTrigger (lastTrigList d') \<le> tl_keyFrame (lastTrigList d') + 2 ^ 31"
    using key len np by simp
  moreover have "length (tl_frames (lastTrigList d')) < 2 ^ 29" using key len by simp
  moreover have "tc_initialized tc \<longrightarrow> \<bar>tc_hiTime tc - tl_keyTime (lastTrigList d')\<bar> < 2 ^ 31 * 1000000000"
    using assms(7) [OF s'(1)] ing by (simp add: s'(2))
  ultimately show ?thesis using counting_ends [OF assms(6) q] by blast
qed

lemma enumerated_nth: "length (enumerated xs) = length xs" "k < length xs \<Longrightarrow> enumerated xs ! k = (int k, xs ! k)"
  by (simp_all add: enumerated_def)

lemma enumerated_set: "(i, x) \<in> set (enumerated xs) \<longleftrightarrow> 0 \<le> i \<and> nat i < length xs \<and> x = xs ! nat i"
proof
  assume "(i, x) \<in> set (enumerated xs)"
  then obtain k where "k < length xs" "enumerated xs ! k = (i, x)"
    by (metis in_set_conv_nth enumerated_nth(1))
  then show "0 \<le> i \<and> nat i < length xs \<and> x = xs ! nat i" by (auto simp: enumerated_nth)
next
  assume "0 \<le> i \<and> nat i < length xs \<and> x = xs ! nat i"
  then have "enumerated xs ! nat i = (i, x)" "nat i < length (enumerated xs)" by (simp_all add: enumerated_nth)
  then show "(i, x) \<in> set (enumerated xs)" by (metis nth_mem)
qed

lemma enumerated_fst: "map fst (map (\<lambda>(i, d). (i, g d)) (enumerated xs)) = [0..int (length xs) - 1]"
  by (rule nth_equalityI) (simp_all add: enumerated_nth)

lemma first_half_total:
  assumes "channels_ok env ds" "length segs = length ds"
    and "\<forall>s\<in>set segs. \<forall>t\<in>set segs. segment_window s = segment_window t"
  shows "\<exists>ds'. process_first env ds segs = Some (Inr ds') \<and> length ds' = length ds
    \<and> (\<forall>k<length ds. ingested env (ds ! k) (segs ! k) (ds' ! k))
    \<and> (\<forall>j<length ds. \<forall>k<length ds. alike (ds' ! j) (ds' ! k)
        \<and> framesPerSample (stream (ds' ! j)) = framesPerSample (stream (ds' ! k)))"
proof -
  have ok: "channel_ok env (ds ! k)" if "k < length ds" for k
    using assms(1) that by (simp add: channels_ok_def)
  have "list_all2 (\<lambda>d seg. channel_ok env d) ds segs"
    using assms(2) ok by (simp add: list_all2_conv_all_nth)
  then obtain ds' where ds': "process_first env ds segs = Some (Inr ds')"
    "list_all2 (\<lambda>(d, seg) d'. ingested env d seg d') (zip ds segs) ds'"
    using process_first_total by blast
  have n: "length ds' = length ds" and ing: "ingested env (ds ! k) (segs ! k) (ds' ! k)" if "k < length ds" for k
    using ds'(2) assms(2) that by (auto simp: list_all2_conv_all_nth)
  have len: "length ds' = length ds" using ds'(2) assms(2) by (auto dest: list_all2_lengthD)
  have "alike (ds' ! j) (ds' ! k) \<and> framesPerSample (stream (ds' ! j)) = framesPerSample (stream (ds' ! k))"
    if jk: "j < length ds" "k < length ds" for j k
  proof -
    have "alike (ds ! j) (ds ! k)" using assms(1) jk by (simp add: channels_ok_def)
    moreover have "segment_window (segs ! j) = segment_window (segs ! k)" using assms(2,3) jk by simp
    moreover have "DecimateLevel (ds ! j) \<le> 2 ^ 35" using ok [OF jk(1)] by (simp add: channel_ok_def)
    ultimately show ?thesis using ingested_alike [OF ing [OF jk(1)] ing [OF jk(2)]] by blast
  qed
  then show ?thesis using ds'(1) len ing by blast
qed

text \<open>The trigger lists handed to the broker.\<close>

definition lists_of :: "stream_processor list \<Rightarrow> (int \<times> triggerList) list" where
  "lists_of ds = map (\<lambda>(i, d). (i, lastTrigList d)) (enumerated ds)"

lemma lists_of_set: "(i, x) \<in> set (lists_of ds) \<longleftrightarrow> 0 \<le> i \<and> nat i < length ds \<and> x = lastTrigList (ds ! nat i)"
proof -
  have "(i, x) \<in> set (lists_of ds) \<longleftrightarrow> (\<exists>d. (i, d) \<in> set (enumerated ds) \<and> x = lastTrigList d)"
    by (auto simp: lists_of_def)
  then show ?thesis by (simp add: enumerated_set)
qed

lemma ingested_interval:
  assumes "ingested env d seg d'" "ingested env e tseg e'" "alike d' e'"
  shows "same_interval (lastTrigList d') (lastTrigList e')" "frames_ok (lastTrigList d')"
proof -
  show "same_interval (lastTrigList d') (lastTrigList e')"
    using assms by (simp add: ingested_def same_interval_def in_step_defs)
  have fits: "\<forall>f\<in>set (tl_frames (lastTrigList d')). record_fits d' f"
    and cannot: "firstFrameThatCannotTrigger (lastTrigList d') = firstFrameIndex (stream d')
      + int (length (rawData (stream d'))) - (NSamples d' - NPresamples d')"
    using assms(1) by (auto simp: ingested_def)
  show "frames_ok (lastTrigList d')" using fits by (fastforce simp: frames_ok_def cannot record_fits_def Let_def)
qed

lemma second_half_total:
  assumes "\<forall>k<length ds. channel_ok env (ds ! k)"
    and "\<forall>(r, fs)\<in>set sec. \<forall>f\<in>set fs. \<forall>k<length ds. record_fits (ds ! k) f"
  shows "\<exists>es. mapM_go (process_second env sec) (enumerated ds) = Inr es
    \<and> list_all2 (\<lambda>d e. \<exists>dp. e = d\<lparr>publisher := dp\<rparr> \<and> channel_ok env e) ds es"
proof -
  have "\<exists>e. process_second env sec (i, d) = Inr e \<and> (\<exists>dp. e = d\<lparr>publisher := dp\<rparr> \<and> channel_ok env e)"
    if id: "(i, d) \<in> set (enumerated ds)" for i d
  proof -
    have k: "nat i < length ds" "d = ds ! nat i" using id by (auto simp: enumerated_set)
    then have ok: "channel_ok env d" using assms(1) by blast
    have self: "d = d\<lparr>publisher := publisher d\<rparr>" by simp
    show ?thesis
    proof (cases "map_of sec i")
      case None
      then have "process_second env sec (i, d) = Inr d" by (simp add: process_second_def)
      then show ?thesis using ok self by metis
    next
      case (Some fs)
      have "(i, fs) \<in> set sec" using Some by (rule map_of_SomeD)
      then have fits: "\<forall>f\<in>set fs. record_fits d f" using assms(2) k by blast
      show ?thesis
      proof (cases "fs = []")
        case True
        then have "process_second env sec (i, d) = Inr d" using Some by (simp add: process_second_def)
        then show ?thesis using ok self by metis
      next
        case False
        then have "process_second env sec (i, d) = processSecondaries env d fs"
          using Some by (simp add: process_second_def)
        then show ?thesis using secondaries_processed [OF ok fits] by auto
      qed
    qed
  qed
  then have "\<exists>e. process_second env sec p = Inr e \<and> (\<exists>dp. e = (snd p)\<lparr>publisher := dp\<rparr> \<and> channel_ok env e)"
    if "p \<in> set (enumerated ds)" for p using that by (cases p) simp
  from mapM_go_all2 [of "enumerated ds" "process_second env sec"
      "\<lambda>p e. \<exists>dp. e = (snd p)\<lparr>publisher := dp\<rparr> \<and> channel_ok env e", OF this] obtain es where es: "mapM_go (process_second env sec) (enumerated ds) = Inr es"
    "list_all2 (\<lambda>p e. \<exists>dp. e = (snd p)\<lparr>publisher := dp\<rparr> \<and> channel_ok env e) (enumerated ds) es" by blast
  have "list_all2 (\<lambda>d e. \<exists>dp. e = d\<lparr>publisher := dp\<rparr> \<and> channel_ok env e) ds es"
    using es(2) unfolding list_all2_conv_all_nth by (simp add: enumerated_nth)
  then show ?thesis using es(1) by blast
qed

lemma trims_total:
  assumes "\<forall>k<length ds. channel_ok env (ds ! k) \<and> 0 \<le> nsamp (emt (ds ! k)) \<and> nsamp (emt (ds ! k)) < 2 ^ 21"
    and "\<forall>j<length ds. \<forall>k<length ds. alike (ds ! j) (ds ! k)
        \<and> framesPerSample (stream (ds ! j)) = framesPerSample (stream (ds ! k))"
    and "\<forall>k<length ds. rate_ok (SampleRate (ds ! k))"
  shows "\<exists>es. mapM_go TrimStream ds = Inr es \<and> length es = length ds \<and> channels_ok env es"
proof -
  define P where "P = (\<lambda>d e. \<exists>st n. TrimKeepingN (stream d) (2 * nsamp (emt d) + 10) = Inr (st, n)
    \<and> e = d\<lparr>stream := st\<rparr> \<and> length (rawData st) < 2 ^ 23 \<and> channel_ok env e)"
  have "\<exists>e. TrimStream d = Inr e \<and> P d e" if "d \<in> set ds" for d
  proof -
    obtain k where k: "k < length ds" "d = ds ! k" using \<open>d \<in> set ds\<close> unfolding in_set_conv_nth by blast
    then have "channel_ok env d" "0 \<le> nsamp (emt d)" "nsamp (emt d) < 2 ^ 21" using assms(1) by auto
    from trim_channel [OF this] show ?thesis unfolding P_def by blast
  qed
  then obtain es where es: "mapM_go TrimStream ds = Inr es" "list_all2 P ds es" using mapM_go_all2 by blast
  have len: "length es = length ds" using es(2) by (simp add: list_all2_lengthD)
  have nth: "P (ds ! k) (es ! k)" if "k < length ds" for k using es(2) that by (simp add: list_all2_conv_all_nth)
  have each: "channel_ok env (es ! k) \<and> rate_ok (SampleRate (es ! k)) \<and> 0 \<le> nsamp (emt (es ! k))
       \<and> nsamp (emt (es ! k)) < 2 ^ 21 \<and> length (rawData (stream (es ! k))) < 2 ^ 23" if "k < length ds" for k
    using nth [OF that] assms(1,3) that by (auto simp: P_def)
  have pair: "alike (es ! j) (es ! k)" if jk: "j < length ds" "k < length ds" for j k
  proof -
    obtain st n t m where st: "TrimKeepingN (stream (ds ! j)) (2 * nsamp (emt (ds ! j)) + 10) = Inr (st, n)"
      "es ! j = (ds ! j)\<lparr>stream := st\<rparr>"
      and t: "TrimKeepingN (stream (ds ! k)) (2 * nsamp (emt (ds ! k)) + 10) = Inr (t, m)" "es ! k = (ds ! k)\<lparr>stream := t\<rparr>"
      using nth [OF jk(1)] nth [OF jk(2)] by (auto simp: P_def)
    have al: "alike (ds ! j) (ds ! k)" "framesPerSample (stream (ds ! j)) = framesPerSample (stream (ds ! k))"
      using assms(2) jk by blast+
    then have "window_of st = window_of t"
      using trimmed_alike [OF _ al(2) st(1)] t(1) by (simp add: alike_def settings_of_def)
    then show ?thesis using al(1) by (simp add: st(2) t(2) alike_def settings_of_def)
  qed
  have "channels_ok env es"
    using each pair by (simp add: channels_ok_def all_set_conv_all_nth len)
  then show ?thesis using es(1) len by blast
qed

lemma process_channels_total:
  assumes ch: "channels_ok env ds" "ds \<noteq> []" and br: "broker_ready b (int (length ds))"
    and sg: "segments_ok b ds segs"
  shows "\<exists>b' ds' rates. process_channels env b ds segs = Some (Inr (b', ds', rates))
    \<and> channels_ok env ds' \<and> length ds' = length ds \<and> broker_ready b' (int (length ds))
    \<and> (\<forall>m\<in>set rates. length (CountsSeen m) = length ds)"
proof -
  have seg: "length segs = length ds" "\<forall>s\<in>set segs. length (rawData s) < 2 ^ 28"
     "\<forall>s\<in>set segs. \<forall>t\<in>set segs. segment_window s = segment_window t"
     "\<forall>(d, s)\<in>set (zip ds segs). \<forall>s'. DecimateData d s = Inr s' \<longrightarrow> (\<forall>tc\<in>set (triggerCounters b).
         tc_initialized tc \<longrightarrow> \<bar>tc_hiTime tc - firstTime (AppendSegment (stream d) s')\<bar> < 2 ^ 31 * 1000000000)"
    using sg unfolding segments_ok_def by blast+
  note bro = br [unfolded broker_ready_def]
  obtain ds1 where first: "process_first env ds segs = Some (Inr ds1)" "length ds1 = length ds"
    and ing: "\<forall>k<length ds. ingested env (ds ! k) (segs ! k) (ds1 ! k)"
    and al: "\<forall>j<length ds. \<forall>k<length ds. alike (ds1 ! j) (ds1 ! k)
        \<and> framesPerSample (stream (ds1 ! j)) = framesPerSample (stream (ds1 ! k))"
    using first_half_total [OF ch(1) seg(1,3)] by blast
  have old: "channel_ok env (ds ! k)" "rate_ok (SampleRate (ds ! k))" "0 \<le> nsamp (emt (ds ! k))"
      "nsamp (emt (ds ! k)) < 2 ^ 21" "length (rawData (stream (ds ! k))) < 2 ^ 23" if "k < length ds" for k
    using ch(1) nth_mem [OF that] unfolding channels_ok_def by blast+
  have same: "SampleRate (ds1 ! k) = SampleRate (ds ! k)" "emt (ds1 ! k) = emt (ds ! k)"
      "channel_ok env (ds1 ! k)" if k: "k < length ds" for k
  proof -
    have "ingested env (ds ! k) (segs ! k) (ds1 ! k)" using ing k by blast
    then show "SampleRate (ds1 ! k) = SampleRate (ds ! k)" "emt (ds1 ! k) = emt (ds ! k)" "channel_ok env (ds1 ! k)"
      by (simp_all add: ingested_def same_settings_def)
  qed
  have one: "one_each b (lists_of ds1)"
    using enumerated_fst [of lastTrigList ds1] bro first(2) by (simp add: one_each_def lists_of_def)
  have cnt: "\<forall>(i, x)\<in>set (lists_of ds1). \<exists>tc. countNewTriggers (triggerCounters b ! nat i) x = Some tc"
  proof clarify
    fix i x assume ix: "(i, x) \<in> set (lists_of ds1)"
    let ?k = "nat i" and ?tc = "triggerCounters b ! nat i"
    have k: "?k < length ds" "x = lastTrigList (ds1 ! ?k)" using ix first(2) by (auto simp: lists_of_set)
    have "?k < length (triggerCounters b)" using bro k(1) by (simp add: broker_ok_def)
    then have tc: "?tc \<in> set (triggerCounters b)" by simp
    then have step: "stepDuration ?tc = 1000000000" using bro by (simp add: counters_step_def)
    have lvl: "DecimateLevel (ds ! ?k) \<le> 2 ^ 35" using old(1) [OF k(1)] by (simp add: channel_ok_def)
    have ks: "?k < length segs" using k(1) seg(1) by simp
    then have short: "length (rawData (segs ! ?k)) < 2 ^ 28" using seg(2) nth_mem [OF ks] by blast
    have pair: "(ds ! ?k, segs ! ?k) \<in> set (zip ds segs)" using k(1) ks by (auto simp: set_zip)
    have clock: "\<bar>tc_hiTime ?tc - firstTime (AppendSegment (stream (ds ! ?k)) s')\<bar> < 2 ^ 31 * 1000000000"
      if "DecimateData (ds ! ?k) (segs ! ?k) = Inr s'" "tc_initialized ?tc" for s'
      using seg(4) pair tc that by blast
    have "ingested env (ds ! ?k) (segs ! ?k) (ds1 ! ?k)" using ing k(1) by blast
    from ingested_counted [OF this old(2,5) [OF k(1)] short lvl step clock]
    show "\<exists>tc. countNewTriggers ?tc x = Some tc" by (simp add: k(2))
  qed
  have iv: "same_interval (lastTrigList (ds1 ! j)) (lastTrigList (ds1 ! k))" "frames_ok (lastTrigList (ds1 ! j))"
    if jk: "j < length ds" "k < length ds" for j k
  proof -
    have "ingested env (ds ! j) (segs ! j) (ds1 ! j)" "ingested env (ds ! k) (segs ! k) (ds1 ! k)"
      "alike (ds1 ! j) (ds1 ! k)" using ing al jk by blast+
    then show "same_interval (lastTrigList (ds1 ! j)) (lastTrigList (ds1 ! k))" "frames_ok (lastTrigList (ds1 ! j))"
      by (rule ingested_interval)+
  qed
  have intervals: "\<forall>(i, x)\<in>set (lists_of ds1). \<forall>(j, y)\<in>set (lists_of ds1). same_interval x y"
    and frames: "\<forall>(i, x)\<in>set (lists_of ds1). frames_ok x"
    using iv by (auto simp: lists_of_set first(2))
  obtain b1 sec where D: "Distribute b (lists_of ds1) = Some (Inr (b1, sec))"
    and b1: "broker_ok b1" "in_step b1" "sources_exist b1" "nchannels b1 = nchannels b"
      "map stepDuration (triggerCounters b1) = map stepDuration (triggerCounters b)"
    and sec: "\<forall>(r, fs)\<in>set sec. \<forall>f\<in>set fs. \<exists>(i, x)\<in>set (lists_of ds1). f \<in> set (tl_frames x)"
    using distribute_total [OF _ _ _ one cnt intervals frames] bro by blast
  have pos: "0 < nchannels b1" using bro b1(4) ch(2) by simp
  obtain b2 rates where G: "GenerateTriggerMessages b1 = Inr (b2, rates)"
    and b2: "broker_ok b2" "in_step b2" "nchannels b2 = nchannels b1" "sources b2 = sources b1"
      "map stepDuration (triggerCounters b2) = map stepDuration (triggerCounters b1)"
    and rates: "\<forall>m\<in>set rates. int (length (CountsSeen m)) = nchannels b1"
    using messages_generated [OF b1(1,2) pos] by blast
  have fits: "\<forall>(r, fs)\<in>set sec. \<forall>f\<in>set fs. \<forall>k<length ds1. record_fits (ds1 ! k) f"
  proof clarify
    fix r fs f k assume "(r, fs) \<in> set sec" "f \<in> set fs" and k: "k < length ds1"
    then obtain i x where ix: "(i, x) \<in> set (lists_of ds1)" "f \<in> set (tl_frames x)" using sec by blast
    then have i: "nat i < length ds" "x = lastTrigList (ds1 ! nat i)" using first(2) by (auto simp: lists_of_set)
    then have "record_fits (ds1 ! nat i) f" using ing ix(2) by (auto simp: ingested_def)
    moreover have "alike (ds1 ! nat i) (ds1 ! k)" using al i(1) k unfolding first(2) by blast
    ultimately show "record_fits (ds1 ! k) f" using record_fits_alike by blast
  qed
  have ok1: "\<forall>k<length ds1. channel_ok env (ds1 ! k)" using same(3) first(2) by simp
  from second_half_total [OF ok1 fits] obtain ds2 where second: "mapM_go (process_second env sec) (enumerated ds1) = Inr ds2"
    "list_all2 (\<lambda>d e. \<exists>dp. e = d\<lparr>publisher := dp\<rparr> \<and> channel_ok env e) ds1 ds2" by blast
  have len2: "length ds2 = length ds" using second(2) first(2) by (simp add: list_all2_lengthD)
  have ds2: "channel_ok env (ds2 ! k)" "stream (ds2 ! k) = stream (ds1 ! k)" "settings_of (ds2 ! k) = settings_of (ds1 ! k)"
    if k: "k < length ds" for k
  proof -
    have "\<exists>dp. ds2 ! k = (ds1 ! k)\<lparr>publisher := dp\<rparr> \<and> channel_ok env (ds2 ! k)"
      using list_all2_nthD [OF second(2), of k] first(2) k by simp
    then show "channel_ok env (ds2 ! k)" "stream (ds2 ! k) = stream (ds1 ! k)"
      "settings_of (ds2 ! k) = settings_of (ds1 ! k)"
      by (auto simp: settings_of_def)
  qed
  obtain ds3 where third: "mapM_go TrimStream ds2 = Inr ds3" "length ds3 = length ds2" "channels_ok env ds3"
  proof (rule exE [OF trims_total [of ds2 env]], unfold len2)
    show "\<forall>k<length ds. channel_ok env (ds2 ! k) \<and> 0 \<le> nsamp (emt (ds2 ! k)) \<and> nsamp (emt (ds2 ! k)) < 2 ^ 21"
    proof (intro allI impI)
      fix k assume k: "k < length ds"
      have "nsamp (emt (ds2 ! k)) = nsamp (emt (ds ! k))"
        using ds2(3) [OF k] same(2) [OF k] by (simp add: settings_of_def)
      then show "channel_ok env (ds2 ! k) \<and> 0 \<le> nsamp (emt (ds2 ! k)) \<and> nsamp (emt (ds2 ! k)) < 2 ^ 21"
        using ds2(1) [OF k] old(3,4) [OF k] by simp
    qed
    show "\<forall>j<length ds. \<forall>k<length ds. alike (ds2 ! j) (ds2 ! k)
        \<and> framesPerSample (stream (ds2 ! j)) = framesPerSample (stream (ds2 ! k))"
    proof (intro allI impI)
      fix j k assume jk: "j < length ds" "k < length ds"
      have a: "alike (ds1 ! j) (ds1 ! k)" "framesPerSample (stream (ds1 ! j)) = framesPerSample (stream (ds1 ! k))"
        using al jk by blast+
      show "alike (ds2 ! j) (ds2 ! k) \<and> framesPerSample (stream (ds2 ! j)) = framesPerSample (stream (ds2 ! k))"
        unfolding alike_def ds2(2,3) [OF jk(1)] ds2(2,3) [OF jk(2)] using a by (simp add: alike_def)
    qed
    show "\<forall>k<length ds. rate_ok (SampleRate (ds2 ! k))"
    proof (intro allI impI)
      fix k assume k: "k < length ds"
      show "rate_ok (SampleRate (ds2 ! k))"
        using ds2(3) [OF k] same(1) [OF k] old(2) [OF k] by (simp add: settings_of_def)
    qed
  qed (use len2 in auto)
  have "broker_ready b2 (int (length ds))"
  proof -
    have "sources_exist b2"
      using b1(3) b2(3,4) isConnected_cong [of b2 b1] by (simp add: sources_exist_def)
    moreover have "set (map stepDuration (triggerCounters b2)) \<subseteq> {1000000000}"
      using bro unfolding b2(5) b1(5) by (auto simp: counters_step_def)
    ultimately show ?thesis using b1(4) b2(1-3) bro by (auto simp: broker_ready_def counters_step_def)
  qed
  moreover have "process_channels env b ds segs = Some (Inr (b2, ds3, rates))"
    using first(1) D G second(1) third(1) by (simp add: process_channels_def lists_of_def)
  moreover have "\<forall>m\<in>set rates. length (CountsSeen m) = length ds" using rates b1(4) bro by simp
  ultimately show ?thesis using third len2 by auto
qed

subsection \<open>The archive\<close>

definition archive_ready :: "archiveableDataBlock \<Rightarrow> nat \<Rightarrow> bool" where
  "archive_ready ab n \<longleftrightarrow> (abActive ab \<longrightarrow> \<not> completed ab \<and> 0 \<le> requestedSamples ab
     \<and> (\<forall>segs. abSegments ab = Some segs \<longrightarrow> length segs = n))"

text \<open>One segment behind the other.\<close>

definition joined :: "data_segment \<Rightarrow> data_segment \<Rightarrow> data_segment" where
  "joined dst s = dst\<lparr>rawData := rawData dst @ rawData s,
     firstFrameIndex := (if rawData dst = [] then firstFrameIndex s else firstFrameIndex dst)\<rparr>"

lemma archive_segment_joined:
  "ncopied = int (length (rawData s)) \<Longrightarrow> archive_segment ncopied s dst = Inr (joined dst s)"
  by (auto simp: archive_segment_def joined_def Let_def)

lemma archive_block:
  assumes "abActive ab" "archive_ready ab (length (segments block))" "n = int (length (segments block))"
    and "segments block \<noteq> []" "\<forall>s\<in>set (segments block). length (rawData s) = L"
  defines "old \<equiv> (case abSegments ab of None \<Rightarrow> replicate (length (segments block)) empty_segment | Some segs \<Rightarrow> segs)"
    and "seen \<equiv> (case abSegments ab of None \<Rightarrow> 0 | Some _ \<Rightarrow> abNSamp ab)"
  shows "archiveNewDataBlock n ab block = Inr
    (if firstTime (hd (segments block)) < earliestTime ab then ab\<lparr>abSegments := Some old, abNSamp := seen\<rparr>
     else ab\<lparr>abSegments := Some (map2 joined old (segments block)), abTriggers := abTriggers ab @ externalTriggerRowcounts block,
            abNSamp := seen + int L, completed := seen + int L \<ge> requestedSamples ab,
            abActive := seen + int L < requestedSamples ab\<rparr>)"
proof -
  note rdy = assms(1,2) [unfolded archive_ready_def]
  have cap: "\<not> requestedSamples ab + quot_int (requestedSamples ab) 2 < 0"
    using rdy pos_imp_zdiv_nonneg_iff [of 2 "requestedSamples ab"] by auto
  obtain s0 rest where segs: "segments block = s0 # rest" using assms(4) by (cases "segments block") auto
  have len: "length old = length (segments block)" using rdy by (auto simp: old_def split: option.splits)
  have L: "int (length (rawData s0)) = int L" using assms(5) by (simp add: segs)
  have each: "(case p of (s, t) \<Rightarrow> archive_segment (int L) s t) = Inr (joined (snd p) (fst p))"
    if "p \<in> set (zip (segments block) old)" for p
    using assms(5) set_zip_leftD [of "fst p" "snd p" "segments block" old] that
    by (cases p) (simp add: archive_segment_joined)
  have m: "mapM_go (\<lambda>(s, t). archive_segment (int L) s t) (zip (segments block) old) = Inr (map2 joined old (segments block))"
  proof -
    have "map (\<lambda>p. joined (snd p) (fst p)) (zip (segments block) old) = map2 joined old (segments block)"
      using len by (intro nth_equalityI) simp_all
    then show ?thesis using mapM_go_pure [of "zip (segments block) old", OF each] by simp
  qed
  define ab1 where "ab1 = ab\<lparr>abSegments := Some old, abNSamp := seen\<rparr>"
  have ab1: "(if abSegments ab = None then ab\<lparr>abNSamp := 0, abSegments := Some (replicate (length (segments block)) empty_segment)\<rparr>
      else ab) = ab1"
    by (cases "abSegments ab") (simp_all add: ab1_def old_def seen_def)
  show ?thesis
  proof (cases "firstTime s0 < earliestTime ab")
    case True
    then show ?thesis
      unfolding archiveNewDataBlock_def Let_def ab1
      using assms(3) cap len by (simp add: segs ab1_def)
  next
    case False
    have fields: "earliestTime ab1 = earliestTime ab" "abSegments ab1 = Some old" "completed ab1 = False"
      "requestedSamples ab1 = requestedSamples ab" "abNSamp ab1 = seen" "abTriggers ab1 = abTriggers ab"
      using rdy by (simp_all add: ab1_def)
    have same: "ab1\<lparr>abSegments := x, abTriggers := y, abNSamp := z\<rparr>
      = ab\<lparr>abSegments := x, abTriggers := y, abNSamp := z, completed := False, abActive := True\<rparr>" for x y z
      using rdy by (cases ab) (simp add: ab1_def)
    have "archiveNewDataBlock n ab block = bind_go (mapM_go (\<lambda>(s, t). archive_segment (int L) s t) (zip (segments block) old))
        (\<lambda>segs. let ab2 = ab1\<lparr>abSegments := Some segs, abTriggers := abTriggers ab1 @ externalTriggerRowcounts block,
                          abNSamp := abNSamp ab1 + int L\<rparr>
            in if abNSamp ab2 \<ge> requestedSamples ab2
               then if completed ab2 then Inl CloseOfClosedChannel
                    else Inr (ab2\<lparr>completed := True, abActive := False\<rparr>)
               else Inr ab2)"
      unfolding archiveNewDataBlock_def Let_def ab1
      using assms(3) cap len False by (simp add: segs fields L cong: if_cong)
    then show ?thesis
      using False unfolding m bind_go_simps Let_def same fields by (simp add: segs not_le)
  qed
qed

lemma archive_block_ready:
  assumes "archiveNewDataBlock n ab block = Inr ab'" "abActive ab" "archive_ready ab (length (segments block))"
    "n = int (length (segments block))" "segments block \<noteq> []" "\<forall>s\<in>set (segments block). length (rawData s) = L"
  shows "archive_ready ab' (length (segments block))"
proof -
  define old where "old = (case abSegments ab of None \<Rightarrow> replicate (length (segments block)) empty_segment | Some segs \<Rightarrow> segs)"
  have len: "length old = length (segments block)"
    using assms(2,3) by (auto simp: old_def archive_ready_def split: option.splits)
  show ?thesis
    using archive_block [OF assms(2-6), folded old_def] assms(1-3) len
    by (simp add: archive_ready_def split: if_splits)
qed

subsection \<open>The whole source\<close>

definition source_ready :: "dsp_env \<Rightarrow> AnySource \<Rightarrow> bool" where
  "source_ready env src \<longleftrightarrow> processors src \<noteq> [] \<and> nchan src = int (length (processors src))
     \<and> channels_ok env (processors src) \<and> archive_ready (archiveBlock src) (length (processors src))
     \<and> (\<exists>b. broker src = Some b \<and> broker_ready b (nchan src))"

definition block_ready :: "AnySource \<Rightarrow> dataBlock \<Rightarrow> bool" where
  "block_ready src block \<longleftrightarrow> (\<exists>b. broker src = Some b \<and> segments_ok b (processors src) (segments block))"

lemma after_block_total:
  assumes "nchan src = int (length (processors src))" "segments block \<noteq> []"
  shows "\<exists>ws w' msgs err. after_block env tk w src block = Inr (src\<lparr>writingState := ws\<rparr>, w', msgs, err)"
proof -
  obtain counts where c: "written_counts src = Inr counts" using assms(1) by (simp add: written_counts_def)
  obtain seg rest where s: "segments block = seg # rest" using assms(2) by (cases "segments block") auto
  obtain d1 ws1 m1 e1 where 1: "HandleExternalTriggers (file_sys env) (w_disk w) (writingState src)
           (subframeDivisions src) (tick_triggers tk) (externalTriggerRowcounts block) = (d1, ws1, m1, e1)"
    by (metis prod_cases4)
  obtain d2 ws2 m2 e2 where 2: "HandleDataDrop (file_sys env) d1 ws1 (tick_drops tk) (droppedFrames seg) (firstFrameIndex seg)
      = (d2, ws2, m2, e2)" by (metis prod_cases4)
  show ?thesis using c s 1 2 by (auto simp: after_block_def Let_def)
qed

text \<open>
  C1: A block of data passes through the whole source.  Let the source have at least one channel, and each channel
  be in working order: no edge-multi search (its records can have other lengths than \<open>NSamples\<close>, and a
  channel with projectors panics on them), at least 3 presamples and a sample from the trigger on, fewer than 2^21 samples (also
  in the copy of the length that a trim uses), projectors of that length and a matrix library that returns products of the
  right size, a decimation level up to 2^35, a working baseline monitor, and writers set up for these records whose files are
  open or can be opened, with room for every write still to come.  Let the channels be in step
  (the same record lengths, decimation and sample rate, the same window of buffered data, fewer than 2^23 samples of it),
  the sample rate lie between 1 Hz and 2^28 Hz, the broker be well formed, every connected source of secondary triggers
  exist, the rate counters agree on their intervals and count in steps of one second, and a raw-data archive, if one is active, want no negative number of samples and
  not be complete.  Let the block bring every channel one segment of the same length (fewer than 2^28 samples) and time,
  with a clock that is within 2^31 seconds (68 years) of the last interval of the counters.  Then
  \<open>ProcessSegments\<close> returns without a panic in any channel or in the broker.  The source is ready for the next
  block, and each rate message has one count per channel.
\<close>

theorem block_through_source:
  assumes "source_ready (channel_env env) src" "block_ready src block"
  shows "\<exists>src' w' rates msgs err. ProcessSegments env tk w src block = Some (Inr (src', w', rates, msgs, err))
    \<and> source_ready (channel_env env) src' \<and> length (processors src') = length (processors src)
    \<and> readCounter src' = readCounter src + 1
    \<and> (\<forall>m\<in>set rates. length (CountsSeen m) = length (processors src))"
proof -
  note src = assms(1) [unfolded source_ready_def]
  obtain b where b: "broker src = Some b" "broker_ready b (nchan src)" "segments_ok b (processors src) (segments block)"
    using src assms(2) by (auto simp: block_ready_def)
  have len: "length (segments block) = length (processors src)"
    and win: "\<forall>s\<in>set (segments block). \<forall>t\<in>set (segments block). segment_window s = segment_window t"
    using b(3) unfolding segments_ok_def by blast+
  have ne: "segments block \<noteq> []" using len src by auto
  then have L: "\<forall>s\<in>set (segments block). length (rawData s) = length (rawData (hd (segments block)))"
    using win hd_in_set [OF ne] by (fastforce simp: segment_window_def)
  obtain ab where ab: "(if abActive (archiveBlock src)
        then bind_go (archiveNewDataBlock (nchan src) (archiveBlock src) block) (\<lambda>ab. Inr (src\<lparr>archiveBlock := ab\<rparr>))
        else Inr src) = Inr (src\<lparr>archiveBlock := ab\<rparr>)" "archive_ready ab (length (processors src))"
  proof (cases "abActive (archiveBlock src)")
    case True
    have rdy: "archive_ready (archiveBlock src) (length (segments block))" "nchan src = int (length (segments block))"
      using src len by simp_all
    obtain ab where ab: "archiveNewDataBlock (nchan src) (archiveBlock src) block = Inr ab"
      using archive_block [OF True rdy ne L] by blast
    then show thesis
      using archive_block_ready [OF ab True rdy ne L] True len by (intro that [of ab]) simp_all
  next
    case False
    then show thesis using src by (intro that [of "archiveBlock src"]) simp_all
  qed
  have ch: "channels_ok (channel_env env) (processors src)" "processors src \<noteq> []"
    "broker_ready b (int (length (processors src)))"
    using src b(2) by simp_all
  obtain b' ds' rates where p: "process_channels (channel_env env) b (processors src) (segments block) = Some (Inr (b', ds', rates))"
    "channels_ok (channel_env env) ds'" "length ds' = length (processors src)"
    "broker_ready b' (int (length (processors src)))"
    "\<forall>m\<in>set rates. length (CountsSeen m) = length (processors src)"
    using process_channels_total [OF ch b(3)] by blast
  define src2 where "src2 = src\<lparr>archiveBlock := ab, broker := Some b', processors := ds', readCounter := readCounter src + 1\<rparr>"
  have n2: "nchan src2 = int (length (processors src2))" using src p(3) by (simp add: src2_def)
  obtain ws w' msgs err where a: "after_block env tk w src2 block = Inr (src2\<lparr>writingState := ws\<rparr>, w', msgs, err)"
    using after_block_total [OF n2 ne] by blast
  have "ProcessSegments env tk w src block = Some (Inr (src2\<lparr>writingState := ws\<rparr>, w', rates, msgs, err))"
    using len ab(1) b(1) p(1) a by (simp add: ProcessSegments_def Let_def flip: src2_def)
  moreover have "source_ready (channel_env env) (src2\<lparr>writingState := ws\<rparr>)"
    using src ab(2) p(2-4) by (auto simp: source_ready_def src2_def)
  moreover have "length (processors (src2\<lparr>writingState := ws\<rparr>)) = length (processors src)"
    "readCounter (src2\<lparr>writingState := ws\<rparr>) = readCounter src + 1"
    using p(3) by (simp_all add: src2_def)
  ultimately show ?thesis using p(5) by blast
qed

subsection \<open>Concrete inputs\<close>

text \<open>Two channels, a trigger of the first one sent to the second, and no files.\<close>

definition demo_source :: AnySource where
  "demo_source = \<lparr>nchan = 2, srcName = ''demo'', chanNames = [''chan1'', ''chan2''], chanNumbers = [1, 2],
     rowColCodes = [rcCode 0 0 2 1, rcCode 1 0 2 1], subframeOffsets = [0, 1], subframeDivisions = 2,
     groupKeysSorted = [\<lparr>Firstchan = 1, Nchan = 2\<rparr>], srcVoltsPerArb = [Fin 1, Fin 1], srcSampleRate = Fin 1,
     samplePeriod = 1000000000, lastread = 0, nextFrameNum = 0,
     processors = [demo_processor False 1, demo_processor False 1], abortSelf = Some False,
     archiveBlock = \<lparr>abSegments = None, abTriggers = [], abNSamp = 0, earliestTime = 0, requestedSamples = 10,
       completed = False, abActive = True\<rparr>,
     broker = Some (fst (AddConnection demo_broker 0 1)), configError = False, shouldAutoRestart = False, baselineMessages = None,
     writingState = WritingState_zero, sourceState = Active, runDone = 1, readCounter = 0, channelsPerPixel = 1\<rparr>"

definition demo_block :: dataBlock where
  "demo_block = \<lparr>segments = [demo_segment demo_data, demo_segment demo_data], externalTriggerRowcounts = [3],
     blockNSamp = 20, blockErr = False\<rparr>"

definition demo_source_env :: source_env where
  "demo_source_env = \<lparr>channel_env = demo_channel_env,
     file_sys = \<lparr>os_create_ok = (\<lambda>_. True), os_write_ok = (\<lambda>_. True), os_close_ok = (\<lambda>_. True)\<rparr>,
     mkdir_ok = (\<lambda>_. True), today = ''20250102'', start_time = 0, now_time = 5\<rparr>"

definition demo_world :: world where
  "demo_world = \<lparr>w_disk = (\<lambda>_. None), w_dirs = []\<rparr>"

definition quiet :: ticks where
  "quiet = \<lparr>tick_triggers = False, tick_drops = False, tick_written = False\<rparr>"

lemma demo_source_ready: "source_ready demo_channel_env demo_source"
proof -
  have b: "broker_ready (fst (AddConnection demo_broker 0 1)) 2"
  proof -
    have "broker_ok (fst (AddConnection demo_broker 0 1))"
      using AddConnection_ok [OF demo_broker_ok(1), of 0 1] demo_broker_ok(2) by simp
    moreover have "in_step (fst (AddConnection demo_broker 0 1))" "counters_step (fst (AddConnection demo_broker 0 1))"
      "sources_exist (fst (AddConnection demo_broker 0 1))" "nchannels (fst (AddConnection demo_broker 0 1)) = 2"
      unfolding demo_add
      by (auto simp: in_step_def counters_step_def sources_exist_def isConnected_def demo_broker_def timing_def
        NewTriggerCounter_def nth_Cons' split: if_splits)
    ultimately show ?thesis by (simp add: broker_ready_def)
  qed
  have "stream (demo_processor False 1) = demo_stream []" "SampleRate (demo_processor False 1) = Fin 1"
    by (simp_all add: demo_processor_def stream_processor.defs dsp.defs demo_channel_def)
  then have "channels_ok demo_channel_env [demo_processor False 1, demo_processor False 1]"
    using demo_processor_ok by (simp add: channels_ok_def alike_def rate_ok_def demo_state_def EMTState_zero_def demo_stream_def
      NewDataStream_def NewDataSegment_def data_segment.defs)
  then show ?thesis using b by (simp add: source_ready_def demo_source_def archive_ready_def)
qed

lemma demo_block_ready: "block_ready demo_source demo_block"
proof -
  have "\<forall>tc\<in>set (triggerCounters (fst (AddConnection demo_broker 0 1))). \<not> tc_initialized tc"
    unfolding demo_add by (simp add: demo_broker_def NewTriggerCounter_def)
  moreover have "length (rawData (demo_segment demo_data)) < 2 ^ 28" by (simp add: demo_data_def)
  ultimately show ?thesis by (auto simp: block_ready_def demo_source_def demo_block_def segments_ok_def)
qed

theorem block_through_source_witness:
  "\<exists>src' w' rates msgs err. ProcessSegments demo_source_env quiet demo_world demo_source demo_block
      = Some (Inr (src', w', rates, msgs, err)) \<and> readCounter src' = 1"
proof -
  have "source_ready (channel_env demo_source_env) demo_source"
    using demo_source_ready by (simp add: demo_source_env_def)
  from block_through_source [OF this demo_block_ready, of quiet demo_world]
  show ?thesis by (auto simp: demo_source_def)
qed

end
