(* ===== verification/ControlLaws.thy ===== *)
theory ControlLaws
  imports SourceLaws
begin

text \<open>
  The control of file writing.  A client sees a session: whether files are being written, whether the
  writing is paused, and of each channel which writers it has and whether it is paused itself.  The
  requests of \<open>WriteControl\<close> refine the step relation of that session, and the session is running exactly
  while some channel has a writer.  A run directory is always a fresh one.
\<close>

subsection \<open>The session as clients see it\<close>

datatype control = PauseRequest | UnpauseRequest | StopRequest | StartRequest | OtherRequest

record channel_view =
  vLJH22 :: bool
  vOFF :: bool
  vLJH3 :: bool
  vPaused :: bool
  vProjectors :: bool

record session =
  sRunning :: bool
  sPaused :: bool
  sChannels :: "channel_view list"

definition view_of :: "stream_processor \<Rightarrow> channel_view" where
  "view_of d = \<lparr>vLJH22 = HasLJH22 (publisher d), vOFF = HasOFF (publisher d), vLJH3 = HasLJH3 (publisher d),
     vPaused = WritingPaused (publisher d), vProjectors = HasProjectors d\<rparr>"

definition session_of :: "AnySource \<Rightarrow> session" where
  "session_of src = \<lparr>sRunning = wsActive (writingState src), sPaused = wsPaused (writingState src),
     sChannels = map view_of (processors src)\<rparr>"

definition writes_files :: "channel_view \<Rightarrow> bool" where
  "writes_files v \<longleftrightarrow> vLJH22 v \<or> vOFF v \<or> vLJH3 v"





definition startable :: "WriteControlConfig \<Rightarrow> session \<Rightarrow> bool" where
  "startable config S \<longleftrightarrow> (cfgWriteLJH22 config \<or> cfgWriteOFF config \<or> cfgWriteLJH3 config)
     \<and> (\<forall>v\<in>set (sChannels S). \<not> writes_files v)
     \<and> (cfgWriteOFF config \<longrightarrow> (\<exists>v\<in>set (sChannels S). vProjectors v))"

definition control_of :: "WriteControlConfig \<Rightarrow> control" where
  "control_of config = (let request = map upper (Request config) in
     if has_prefix request ''PAUSE'' then PauseRequest
     else if has_prefix request ''UNPAUSE'' then UnpauseRequest
     else if has_prefix request ''STOP'' then StopRequest
     else if has_prefix request ''START'' then StartRequest else OtherRequest)"

text \<open>
  A start may be refused because of the session (nothing to write, files being written already, no
  projectors for OFF files), or for the pixel map or the directory.  An error of the writing state is reported
  after the fact: the session then has begun, without its label.
\<close>

fun refuses :: "WriteControlConfig \<Rightarrow> session \<Rightarrow> source_error \<Rightarrow> bool" where
  "refuses config S NothingToWrite = (\<not> startable config S)"
| "refuses config S AlreadyWriting = (\<not> startable config S)"
| "refuses config S NoProjectors = (\<not> startable config S)"
| "refuses config S (MapError m n) = startable config S"
| "refuses config S NoDirectory = startable config S"
| "refuses config S _ = False"



lemma has_output_defs: "has_output d \<longleftrightarrow> LJH22 (publisher d) \<noteq> None \<or> OFF (publisher d) \<noteq> None \<or> LJH3 (publisher d) \<noteq> None"
  by (simp add: has_output_def HasLJH22_def HasOFF_def HasLJH3_def)

lemma writes_files_view: "writes_files (view_of d) = has_output d"
  by (auto simp: writes_files_def view_of_def has_output_def)




lemma remove_outputs_none [simp]: "\<not> has_output (remove_outputs d)"
  by (simp add: has_output_defs remove_outputs_def RemoveLJH22_def RemoveOFF_def RemoveLJH3_def)

lemma pause_keeps_output [simp]: "has_output (d\<lparr>publisher := SetPause (publisher d) p\<rparr>) = has_output d"
  by (simp add: has_output_defs SetPause_def)


subsection \<open>The operations of the writing state\<close>

lemma write_label_keeps:
  assumes "write_label env d ws path t label = (d', ws', err)"
  shows "wsActive ws' = wsActive ws" "wsPaused ws' = wsPaused ws"
proof -
  have "ws' = ws\<lparr>ExperimentStateLabel := label, ExperimentStateLabelUnixNano := t\<rparr>"
    using assms by (cases "os_write env d path (text_bytes (state_line t label))") (simp add: write_label_def)
  then show "wsActive ws' = wsActive ws" "wsPaused ws' = wsPaused ws" by simp_all
qed

lemma label_keeps_session:
  assumes "setExperimentStateLabel env d ws t label = (d', ws', err)"
  shows "wsActive ws' = wsActive ws \<and> wsPaused ws' = wsPaused ws"
proof (cases "experimentStateFile ws")
  case (Some path)
  then have "write_label env d ws path t label = (d', ws', err)"
    using assms by (simp add: setExperimentStateLabel_def)
  then show ?thesis using write_label_keeps by blast
next
  case None
  let ?p = "ExperimentStateFilename ws"
  obtain d1 ok where c: "os_create env d ?p = (d1, ok)" by (cases "os_create env d ?p")
  obtain d2 ok2 where w: "os_write env d1 ?p (text_bytes state_header) = (d2, ok2)"
    by (cases "os_write env d1 ?p (text_bytes state_header)")
  show ?thesis
  proof (cases "ok \<and> ok2")
    case True
    then have "write_label env d2 (ws\<lparr>experimentStateFile := Some ?p\<rparr>) ?p t label = (d', ws', err)"
      using assms None c w by (simp add: setExperimentStateLabel_def Let_def)
    from write_label_keeps [OF this] show ?thesis by simp
  next
    case False
    show ?thesis
    proof (cases ok)
      case True
      then have "(d2, ws\<lparr>experimentStateFile := Some ?p\<rparr>, None) = (d', ws', err)"
        using False assms None c w by (simp add: setExperimentStateLabel_def Let_def)
      then show ?thesis by auto
    next
      case no: False
      then have "ws' = ws" using assms None c by (auto simp: setExperimentStateLabel_def Let_def)
      then show ?thesis by simp
    qed
  qed
qed






lemma start_begins_session:
  assumes "ws_Start env d ws pattern path config now = (d', ws', err)"
  shows "wsActive ws'" "\<not> wsPaused ws'"
  using label_keeps_session [OF assms [unfolded ws_Start_def]] by simp_all

subsection \<open>Writers set at the start\<close>

lemma start_ljh22_output:
  assumes "start_ljh22 env config src pattern i code pixel d = Inr d'"
  shows "has_output d'" "HasProjectors d' = HasProjectors d"
  using assms
  by (auto simp: start_ljh22_def Let_def bind_go_Inr_iff has_output_defs HasProjectors_def SetLJH22_def)

lemma start_off_output:
  assumes "start_off env config src pattern i code pixel d = Inr d'"
  shows "has_output d'" "WritingPaused (publisher d') = WritingPaused (publisher d)"
proof -
  obtain projs bas where "projectors d = Some projs" "basis d = Some bas"
    using assms by (cases "projectors d"; cases "basis d") (auto simp: start_off_def bind_go_Inr_iff)
  then show "has_output d'" "WritingPaused (publisher d') = WritingPaused (publisher d)"
    using assms by (auto simp: start_off_def Let_def bind_go_Inr_iff has_output_defs SetOFF_def)
qed

lemma start_ljh3_output:
  assumes "start_ljh3 config src pattern i code d = Inr d'"
  shows "has_output d'"
  using assms by (auto simp: start_ljh3_def Let_def bind_go_Inr_iff has_output_defs SetLJH3_def)

lemma set_outputs_output:
  assumes "set_outputs env config src pattern (i, d) = Inr d'"
  shows "has_output d' \<longleftrightarrow> has_output d \<or> cfgWriteLJH22 config \<or> cfgWriteLJH3 config \<or> cfgWriteOFF config \<and> HasProjectors d"
    and "\<not> cfgWriteLJH22 config \<Longrightarrow> \<not> cfgWriteLJH3 config
      \<Longrightarrow> WritingPaused (publisher d') = WritingPaused (publisher d)"
proof -
  obtain code pixel d1 d2 where
    1: "(if cfgWriteLJH22 config then start_ljh22 env config src pattern i code pixel d else Inr d) = Inr d1"
    and 2: "(if cfgWriteOFF config \<and> HasProjectors d1 then start_off env config src pattern i code pixel d1
              else Inr d1) = Inr d2"
    and 3: "(if cfgWriteLJH3 config then start_ljh3 config src pattern i code d2 else Inr d2) = Inr d'"
    using assms unfolding set_outputs_def prod.case bind_go_Inr_iff by blast
  have d1: "has_output d1 \<longleftrightarrow> has_output d \<or> cfgWriteLJH22 config" "HasProjectors d1 = HasProjectors d"
    using 1 start_ljh22_output by (auto split: if_splits)
  have d2: "has_output d2 \<longleftrightarrow> has_output d1 \<or> cfgWriteOFF config \<and> HasProjectors d1"
    "WritingPaused (publisher d2) = WritingPaused (publisher d1)"
    using 2 start_off_output by (auto split: if_splits)
  show "has_output d' \<longleftrightarrow> has_output d \<or> cfgWriteLJH22 config \<or> cfgWriteLJH3 config \<or> cfgWriteOFF config \<and> HasProjectors d"
    using 3 start_ljh3_output d1 d2(1) by (auto split: if_splits)
  show "WritingPaused (publisher d') = WritingPaused (publisher d)"
    if "\<not> cfgWriteLJH22 config" "\<not> cfgWriteLJH3 config"
    using 1 3 d2(2) that by simp
qed






text \<open>What a start does: it is refused and changes nothing, or the channels get their writers.\<close>

lemma start_channels:
  assumes "writeControlStart env w src config = Inr (src', w', err)"
  shows "(\<exists>e. err = Some e \<and> refuses config (session_of src) e \<and> src' = src \<and> (e = NoDirectory \<or> w' = w))
    \<or> (\<exists>pattern. startable config (session_of src)
        \<and> mapM_go (set_outputs env config src pattern) (enumerated (processors src)) = Inr (processors src')
        \<and> wsActive (writingState src') \<and> \<not> wsPaused (writingState src')
        \<and> (err = None \<or> (\<exists>x. err = Some (WsError x))))"
proof -
  let ?base = "if length (cfgPath config) > 0 then cfgPath config else BasePath (writingState src)"
  have st: "startable config (session_of src) \<longleftrightarrow> (cfgWriteLJH22 config \<or> cfgWriteOFF config \<or> cfgWriteLJH3 config)
      \<and> \<not> (\<exists>d\<in>set (processors src). has_output d) \<and> (cfgWriteOFF config \<longrightarrow> (\<exists>d\<in>set (processors src). HasProjectors d))"
    by (simp add: startable_def session_of_def writes_files_view) (simp add: view_of_def)
  consider (early) "\<exists>e. err = Some e \<and> refuses config (session_of src) e \<and> src' = src \<and> w' = w"
    | (run) "cfgWriteLJH22 config \<or> cfgWriteOFF config \<or> cfgWriteLJH3 config"
      "\<not> (\<exists>d\<in>set (processors src). has_output d)"
      "cfgWriteOFF config \<longrightarrow> (\<exists>d\<in>set (processors src). HasProjectors d)" "map_fits src config = Inr None"
  proof (cases "startable config (session_of src)")
    case False
    then have "\<exists>e. err = Some e \<and> refuses config (session_of src) e \<and> src' = src \<and> w' = w"
      using assms st by (auto simp: writeControlStart_def split: if_splits)
    then show thesis by (rule early)
  next
    case True
    have fits: "map_fits src config = Inr None \<or> (\<exists>m n. map_fits src config = Inr (Some (MapError m n)))"
      if "map_fits src config = Inr x" for x
      using that by (auto simp: map_fits_def bind_go_Inr_iff split: option.splits if_splits)
    have c: "\<not> (\<not> (cfgWriteLJH22 config \<or> cfgWriteOFF config \<or> cfgWriteLJH3 config))"
      "\<not> (\<exists>d\<in>set (processors src). has_output d)"
      "\<not> (cfgWriteOFF config \<and> \<not> (\<exists>d\<in>set (processors src). HasProjectors d))" using True st by blast+
    note body = assms [unfolded writeControlStart_def if_not_P [OF c(1)] if_not_P [OF c(2)] if_not_P [OF c(3)]]
    obtain x where x: "map_fits src config = Inr x" using body by (cases "map_fits src config") simp_all
    from fits [OF x] show thesis
    proof
      assume "map_fits src config = Inr None"
      then show thesis using run True st by blast
    next
      assume "\<exists>m n. map_fits src config = Inr (Some (MapError m n))"
      then show thesis using early body True by auto
    qed
  qed
  then show ?thesis
  proof cases
    case early
    then show ?thesis by blast
  next
    case run
    then have ok: "startable config (session_of src)" using st by blast
    obtain w1 pat where mk: "makeDirectory env w ?base = (w1, pat)" by (cases "makeDirectory env w ?base")
    have c: "\<not> (\<not> (cfgWriteLJH22 config \<or> cfgWriteOFF config \<or> cfgWriteLJH3 config))"
      "\<not> (cfgWriteOFF config \<and> \<not> (\<exists>d\<in>set (processors src). HasProjectors d))" using run(1,3) by blast+
    have body: "(case pat of None \<Rightarrow> Inr (src, w1, Some NoDirectory)
      | Some pattern \<Rightarrow> bind_go (mapM_go (set_outputs env config src pattern) (enumerated (processors src))) (\<lambda>ds.
          let (d, ws, err) = ws_Start (file_sys env) (w_disk w1) (writingState src) pattern ?base config (now_time env) in
          Inr (src\<lparr>processors := ds, writingState := ws\<rparr>, w1\<lparr>w_disk := d\<rparr>, map_option WsError err))) = Inr (src', w', err)"
      using assms unfolding writeControlStart_def if_not_P [OF c(1)] if_not_P [OF run(2)] if_not_P [OF c(2)] run(4)
        bind_go_simps Let_def mk prod.case by (simp cong: option.case_cong)
    show ?thesis
    proof (cases pat)
      case None
      then show ?thesis using body ok by auto
    next
      case (Some pattern)
      obtain ds where ds: "mapM_go (set_outputs env config src pattern) (enumerated (processors src)) = Inr ds"
        and st: "(let (d, ws, err) = ws_Start (file_sys env) (w_disk w1) (writingState src) pattern ?base config (now_time env) in
                Inr (src\<lparr>processors := ds, writingState := ws\<rparr>, w1\<lparr>w_disk := d\<rparr>, map_option WsError err)) = (Inr (src', w', err) :: (AnySource \<times> world \<times> source_error option) go)"
        by (rule bind_go_InrE [OF body [unfolded Some option.case]]) (rule that, assumption+)
      obtain d ws e where s: "ws_Start (file_sys env) (w_disk w1) (writingState src) pattern ?base config (now_time env) = (d, ws, e)"
        by (metis prod_cases3)
      have "src' = src\<lparr>processors := ds, writingState := ws\<rparr>" "err = map_option WsError e"
        using st unfolding s Let_def prod.case by auto
      then show ?thesis using ds ok start_begins_session [OF s] by (cases e) auto
    qed
  qed
qed

subsection \<open>The refinement\<close>


text \<open>A request, by what it asks for.\<close>

lemma WriteControl_cases:
  "WriteControl env w src config = (case control_of config of
     PauseRequest \<Rightarrow> Inr (pause_all True src, w, None)
   | UnpauseRequest \<Rightarrow> (case unpause_label env w (writingState src) (Request config) of (w1, ws1, err) \<Rightarrow>
       if err \<noteq> None then Inr (src\<lparr>writingState := ws1\<rparr>, w1, err)
       else Inr (pause_all False (src\<lparr>writingState := ws1\<rparr>), w1, None))
   | StopRequest \<Rightarrow> bind_go (ws_Stop (file_sys env) (w_disk w) (writingState src) (now_time env)) (\<lambda>(d, ws1, err).
       Inr (src\<lparr>processors := map remove_outputs (processors src), writingState := ws1\<rparr>, w\<lparr>w_disk := d\<rparr>,
         map_option WsError err))
   | StartRequest \<Rightarrow> writeControlStart env w src config
   | OtherRequest \<Rightarrow> Inr (src, w, Some BadRequest))"
  by (simp add: WriteControl_def control_of_def Let_def)


subsection \<open>Pausing outlives the session\<close>

lemma mapM_set_outputs_paused:
  assumes "mapM_go (set_outputs env config src pattern) (enumerated ds) = Inr es"
    and "\<not> cfgWriteLJH22 config" "\<not> cfgWriteLJH3 config" "\<forall>d\<in>set ds. WritingPaused (publisher d)"
  shows "\<forall>e\<in>set es. WritingPaused (publisher e)"
proof
  fix e assume "e \<in> set es"
  then obtain k where k: "k < length es" "e = es ! k" by (auto simp: in_set_conv_nth)
  have all: "list_all2 (\<lambda>p e. set_outputs env config src pattern p = Inr e) (enumerated ds) es"
    using assms(1) by (rule mapM_go_list_all2)
  then have "k < length ds" using k(1) by (auto simp: list_all2_lengthD enumerated_nth dest!: list_all2_lengthD)
  moreover from this have "set_outputs env config src pattern (int k, ds ! k) = Inr e"
    using list_all2_nthD [OF all, of k] k by (simp add: enumerated_nth)
  ultimately show "WritingPaused (publisher e)" using set_outputs_output(2) assms(2-4) nth_mem by metis
qed

lemma paused_publishes_nothing:
  assumes "WritingPaused dp" "PublishData m3 mo fenv dp records = Inr (dp', err)"
  shows "(LJH22 dp', LJH3 dp', OFF dp', numberWritten dp') = (LJH22 dp, LJH3 dp, OFF dp, numberWritten dp)"
  using assms by (auto simp: PublishData_def Let_def split: if_splits)

text \<open>
  A pause can outlive its session.  After a pause and a stop, starting to write OFF files only
  reports an active, unpaused session; but \<open>SetOFF\<close>, unlike the other two writers, does not resume the
  channels, so that no record ever reaches a file, until a client asks to resume.
\<close>

theorem off_session_stays_paused:
  assumes "WriteControl env w0 s0 c1 = Inr (s1, w1, e1)" "control_of c1 = PauseRequest"
    and "WriteControl env w1 s1 c2 = Inr (s2, w2, e2)" "control_of c2 = StopRequest"
    and "WriteControl env w2 s2 c3 = Inr (s3, w3, None)" "control_of c3 = StartRequest"
    and "\<not> cfgWriteLJH22 c3" "\<not> cfgWriteLJH3 c3"
  shows "sRunning (session_of s3) \<and> \<not> sPaused (session_of s3)
    \<and> (\<forall>d\<in>set (processors s3). \<forall>m3 mo fenv records dp err.
        PublishData m3 mo fenv (publisher d) records = Inr (dp, err)
        \<longrightarrow> OFF dp = OFF (publisher d) \<and> numberWritten dp = numberWritten (publisher d))"
proof -
  have "processors s1 = map (\<lambda>d. d\<lparr>publisher := SetPause (publisher d) True\<rparr>) (processors s0)"
    using assms(1,2) by (auto simp: WriteControl_cases pause_all_def)
  moreover have "processors s2 = map remove_outputs (processors s1)"
    using assms(3,4) by (auto simp: WriteControl_cases bind_go_Inr_iff)
  ultimately have p2: "\<forall>d\<in>set (processors s2). WritingPaused (publisher d)"
    by (auto simp: SetPause_def remove_outputs_def RemoveLJH22_def RemoveOFF_def RemoveLJH3_def)
  have "writeControlStart env w2 s2 c3 = Inr (s3, w3, None)" using assms(5,6) by (simp add: WriteControl_cases)
  from start_channels [OF this] obtain pattern
    where ds: "mapM_go (set_outputs env c3 s2 pattern) (enumerated (processors s2)) = Inr (processors s3)"
      and ws: "wsActive (writingState s3)" "\<not> wsPaused (writingState s3)" by auto
  have "\<forall>d\<in>set (processors s3). WritingPaused (publisher d)"
    by (rule mapM_set_outputs_paused [OF ds assms(7,8) p2])
  then show ?thesis using ws paused_publishes_nothing by (fastforce simp: session_of_def)
qed

subsection \<open>Run directories\<close>

lemma find_dir_spec:
  "find_dir dirs base i n = Some k \<Longrightarrow> i \<le> k \<and> k < i + n \<and> path_join base (digits4 (int k)) \<notin> set dirs
     \<and> (\<forall>j. i \<le> j \<and> j < k \<longrightarrow> path_join base (digits4 (int j)) \<in> set dirs)"
proof (induction n arbitrary: i)
  case (Suc n)
  show ?case
  proof (cases "path_join base (digits4 (int i)) \<in> set dirs")
    case True
    then have "find_dir dirs base (Suc i) n = Some k" using Suc.prems by simp
    note IH = Suc.IH [OF this]
    have "path_join base (digits4 (int j)) \<in> set dirs" if "i \<le> j" "j < k" for j
      using IH True that by (cases "j = i") simp_all
    then show ?thesis using IH by simp
  qed (use Suc.prems in auto)
qed simp

text \<open>
  Every run gets a directory of its own: the first of the day's ten thousand numbered
  directories that did not exist before, which exists afterwards; all file names of the run lie in it.
\<close>

theorem run_directory_fresh:
  assumes "makeDirectory env w base = (w', Some pattern)"
  shows "\<exists>i<10000. let day = path_join base (today env); dir = path_join day (digits4 (int i)) in
    dir \<notin> set (w_dirs w) \<and> dir \<in> set (w_dirs w')
    \<and> (\<forall>j<i. path_join day (digits4 (int j)) \<in> set (w_dirs w'))
    \<and> pattern = path_join dir (today env @ ''_run'' @ digits4 (int i) @ ''_%s.%s'')"
proof -
  let ?day = "path_join base (today env)"
  let ?dirs = "?day # w_dirs w"
  obtain i where i: "find_dir ?dirs ?day 0 10000 = Some i"
    and rest: "w' = w\<lparr>w_dirs := path_join ?day (digits4 (int i)) # ?dirs\<rparr>"
      "pattern = path_join (path_join ?day (digits4 (int i))) (today env @ ''_run'' @ digits4 (int i) @ ''_%s.%s'')"
    using assms by (auto simp: makeDirectory_def Let_def split: if_splits option.splits)
  show ?thesis
    using find_dir_spec [OF i] rest by (intro exI [of _ i]) (auto simp: Let_def)
qed

subsection \<open>Concrete inputs\<close>

definition request_named :: "string \<Rightarrow> WriteControlConfig" where
  "request_named r = \<lparr>Request = r, cfgPath = ''/data'', cfgWriteLJH22 = False, cfgWriteOFF = True,
     cfgWriteLJH3 = False, cfgFlushAlsoSyncs = False, Intention = [], Users = [], Sample = [], Purpose = [],
     MapInternalOnly = None\<rparr>"

lemma upper_demo: "map upper ''Pause'' = ''PAUSE''" "map upper ''stop'' = ''STOP''" "map upper ''Start'' = ''START''"
  by code_simp+

lemma request_named_simps [simp]:
  "cfgPath (request_named r) = ''/data''" "\<not> cfgWriteLJH22 (request_named r)" "cfgWriteOFF (request_named r)"
  "\<not> cfgWriteLJH3 (request_named r)" "MapInternalOnly (request_named r) = None"
  by (simp_all add: request_named_def)

lemma control_of_demo [simp]:
  "control_of (request_named ''Pause'') = PauseRequest" "control_of (request_named ''stop'') = StopRequest"
  "control_of (request_named ''Start'') = StartRequest"
  unfolding control_of_def request_named_def WriteControlConfig.simps upper_demo
  by (simp_all add: has_prefix_def Let_def)


lemma find_dir_fresh: "path_join base (digits4 0) \<notin> set dirs \<Longrightarrow> find_dir dirs base 0 10000 = Some 0"
  by (simp add: numeral_eq_Suc)

lemma demo_directory:
  "makeDirectory demo_source_env demo_world ''/data''
    = (\<lparr>w_disk = (\<lambda>_. None), w_dirs = [''/data/20250102/0000'', ''/data/20250102'']\<rparr>,
       Some ''/data/20250102/0000/20250102_run0000_%s.%s'')"
proof -
  have p: "path_join ''/data'' ''20250102'' = ''/data/20250102''" "digits4 0 = ''0000''"
    "path_join ''/data/20250102'' ''0000'' = ''/data/20250102/0000''"
    "path_join ''/data/20250102/0000'' ''20250102_run0000_%s.%s'' = ''/data/20250102/0000/20250102_run0000_%s.%s''"
    by code_simp+
  have f: "find_dir [''/data/20250102''] ''/data/20250102'' 0 10000 = Some 0"
    by (rule find_dir_fresh) (simp add: p)
  show ?thesis by (simp add: makeDirectory_def demo_source_env_def demo_world_def p f Let_def)
qed

theorem run_directory_fresh_witness:
  "\<exists>i<10000. let dir = path_join (path_join ''/data'' ''20250102'') (digits4 (int i)) in
    dir \<in> set [''/data/20250102/0000'', ''/data/20250102'']"
  using run_directory_fresh [OF demo_directory] by (auto simp: Let_def demo_source_env_def)

text \<open>One channel with projectors, for which OFF files can be written.\<close>

definition off_processor :: stream_processor where
  "off_processor = (demo_processor False 1)\<lparr>projectors := Some \<lparr>mrows = 1, mcols = 5, mdata = replicate 5 (Fin 1)\<rparr>,
     basis := Some \<lparr>mrows = 5, mcols = 1, mdata = replicate 5 (Fin 1)\<rparr>\<rparr>"

definition off_source :: AnySource where
  "off_source = demo_source\<lparr>processors := [off_processor]\<rparr>"

lemma off_publisher: "publisher off_processor = DataPublisher_zero"
  by (simp add: off_processor_def)

definition paused_off_source :: AnySource where
  "paused_off_source = off_source\<lparr>processors := [remove_outputs (off_processor\<lparr>publisher := SetPause DataPublisher_zero True\<rparr>)]\<rparr>"

lemma demo_pause_stop:
  "WriteControl demo_source_env demo_world off_source (request_named ''Pause'')
    = Inr (pause_all True off_source, demo_world, None)"
  "WriteControl demo_source_env demo_world (pause_all True off_source) (request_named ''stop'')
    = Inr (paused_off_source, demo_world, None)"
  by (simp_all add: WriteControl_cases pause_all_def off_source_def demo_source_def paused_off_source_def off_publisher
    ws_Stop_def close_state_file_def close_logs_def close_log_def WritingState_zero_def demo_world_def Let_def)

lemma demo_files [simp]: "os_create_ok (file_sys demo_source_env) p" "os_write_ok (file_sys demo_source_env) p"
  by (simp_all add: demo_source_env_def)

lemma demo_start:
  "\<exists>s3 w3. WriteControl demo_source_env demo_world paused_off_source (request_named ''Start'') = Inr (s3, w3, None)"
  by (simp add: WriteControl_cases writeControlStart_def paused_off_source_def off_source_def demo_source_def
    has_output_defs remove_outputs_def RemoveLJH22_def RemoveOFF_def RemoveLJH3_def SetPause_def
    DataPublisher_zero_def HasProjectors_def off_processor_def IsEmpty_def map_fits_def demo_directory Let_def
    set_outputs_def enumerated_def channel_pixel_def start_off_def idx_def ws_Start_def setExperimentStateLabel_def
    WritingState_zero_def os_create_def os_write_def write_label_def)

theorem off_session_stays_paused_witness:
  "\<exists>s3 w3. WriteControl demo_source_env demo_world paused_off_source (request_named ''Start'') = Inr (s3, w3, None)
    \<and> sRunning (session_of s3) \<and> \<not> sPaused (session_of s3)"
proof -
  obtain s3 w3 where 3: "WriteControl demo_source_env demo_world paused_off_source (request_named ''Start'') = Inr (s3, w3, None)"
    using demo_start by blast
  have "sRunning (session_of s3) \<and> \<not> sPaused (session_of s3)"
    using off_session_stays_paused [OF demo_pause_stop(1) _ demo_pause_stop(2) _ 3] by simp
  then show ?thesis using 3 by blast
qed

end
