(* ===== verification/SourceConfig.thy ===== *)
theory SourceConfig
  imports SourceLaws
begin

text \<open>
  The configuration of a source: the packing of row and column codes, the record length, the state in
  which a run begins and the archive of raw data.
\<close>

subsection \<open>Row and column codes\<close>

unbundle bit_operations_syntax

lemma mask16: "(x :: int) AND 0xffff = take_bit 16 x"
  by (simp add: take_bit_eq_mask mask_eq_exp_minus_1 and.commute)

lemma code_field:
  assumes "n + 16 \<le> 64"
  shows "uint (drop_bit n (word_of_int c :: 64 word) AND 0xffff) = take_bit 16 (drop_bit n c)"
proof -
  have "drop_bit n (word_of_int c :: 64 word) AND 0xffff = take_bit 16 (drop_bit n (word_of_int c :: 64 word))"
    by (simp add: take_bit_eq_mask mask_eq_exp_minus_1 and.commute)
  moreover have "uint (take_bit 16 (drop_bit n (word_of_int c :: 64 word))) = take_bit 16 (drop_bit n (take_bit 64 c))"
    by (simp add: unsigned_take_bit_eq unsigned_drop_bit_eq unsigned_of_int)
  moreover have "take_bit 16 (drop_bit n (take_bit 64 c)) = take_bit 16 (drop_bit n c)"
    using assms by (intro bit_eqI) (auto simp: bit_take_bit_iff bit_drop_bit_eq)
  ultimately show ?thesis by simp
qed

lemma field_low: "take_bit 16 (drop_bit 0 (push_bit 16 a OR take_bit 16 b)) = take_bit 16 (b :: int)"
  by (rule bit_eqI) (auto simp: bit_take_bit_iff bit_push_bit_iff bit_or_iff)

lemma field_high: "take_bit 16 (drop_bit (m + 16) (push_bit 16 a OR take_bit 16 b)) = take_bit 16 (drop_bit m (a :: int))"
  by (rule bit_eqI) (simp add: bit_take_bit_iff bit_drop_bit_eq bit_push_bit_iff bit_or_iff)

text \<open>
  The packed code of a channel gives back row, column, number of rows and number of columns, each
  modulo \<open>2^16\<close>; for readout sizes below that it loses nothing.
\<close>

theorem row_col_code_round_trip:
  "code_row (rcCode r c rs cs) = r mod 65536 \<and> code_col (rcCode r c rs cs) = c mod 65536
   \<and> code_rows (rcCode r c rs cs) = rs mod 65536 \<and> code_cols (rcCode r c rs cs) = cs mod 65536"
proof -
  define v1 where "v1 = take_bit 16 cs"
  define v2 where "v2 = push_bit 16 v1 OR take_bit 16 rs"
  define v3 where "v3 = push_bit 16 v2 OR take_bit 16 c"
  define v where "v = push_bit 16 v3 OR take_bit 16 r"
  have code: "rcCode r c rs cs = word_of_int v"
    unfolding rcCode_def mask16 Let_def v_def v3_def v2_def v1_def ..
  have "take_bit 16 (drop_bit 0 v) = take_bit 16 r" by (simp only: v_def field_low)
  moreover have "take_bit 16 (drop_bit 16 v) = take_bit 16 c"
    using field_high [of 0 v3 r] by (simp only: v_def [symmetric] add_0) (simp only: v3_def field_low)
  moreover have "take_bit 16 (drop_bit 32 v) = take_bit 16 rs"
    using field_high [of 16 v3 r, folded v_def] field_high [of 0 v2 c, folded v3_def] field_low [of v1 rs, folded v2_def]
    by simp
  moreover have "take_bit 16 (drop_bit 48 v) = take_bit 16 cs"
    using field_high [of 32 v3 r, folded v_def] field_high [of 16 v2 c, folded v3_def] field_high [of 0 v1 rs, folded v2_def]
    by (simp add: v1_def)
  moreover have "take_bit 16 (x :: int) = x mod 65536" for x by (simp add: take_bit_eq_mod)
  moreover have "0 + 16 \<le> (64 :: nat)" "16 + 16 \<le> (64 :: nat)" "32 + 16 \<le> (64 :: nat)" "48 + 16 \<le> (64 :: nat)" by simp_all
  ultimately show ?thesis
    unfolding code_row_def code_col_def code_rows_def code_cols_def code by (metis code_field)
qed

subsection \<open>The record length\<close>

lemma sync_emt_lengths:
  "sync_emt d = (d', ok) \<Longrightarrow> NSamples d' = NSamples d \<and> NPresamples d' = NPresamples d
     \<and> nsamp (emt d') = to_int32 (NSamples d) \<and> npre (emt d') = to_int32 (NPresamples d)
     \<and> channelIndex d' = channelIndex d \<and> stream d' = stream d"
  by (auto simp: sync_emt_def set_emt_def Let_def EMT_reset_def split: if_splits)

lemma pulse_lengths_set:
  assumes "dsp_ConfigurePulseLengths d ns np = Inr (d', ok)"
  shows "NSamples d' = ns \<and> NPresamples d' = np \<and> nsamp (emt d') = to_int32 ns \<and> npre (emt d') = to_int32 np"
proof -
  obtain d1 where "sync_emt (d1\<lparr>NSamples := ns, NPresamples := np\<rparr>) = (d', ok)"
    using assms unfolding dsp_ConfigurePulseLengths_def by (auto elim!: bind_go_InrE)
  from sync_emt_lengths [OF this] show ?thesis by simp
qed

lemma configure_each_all:
  assumes "configure_each f ds = Inr (ds', True)"
  shows "list_all2 (\<lambda>d d'. f d = Inr (d', True)) ds ds'"
  using assms
proof (induction ds arbitrary: ds')
  case (Cons d ds)
  then obtain d1 ok where 1: "f d = Inr (d1, ok)" by (auto elim!: bind_go_InrE)
  then show ?case using Cons by (cases ok) (auto elim!: bind_go_InrE)
qed simp

text \<open>
  After a successful change of the record length every channel has that length, the two places
  where a channel keeps it agree (as far as 32 bits go), and asking the source for the lengths returns
  exactly what was set.
\<close>

theorem pulse_lengths_agree:
  assumes "ConfigurePulseLengths src ns np = Inr (src', None)" "processors src \<noteq> []"
  shows "getPulseLengths src' = Inr (np, ns) \<and> 3 \<le> np \<and> np < ns
    \<and> (\<forall>d\<in>set (processors src'). NSamples d = ns \<and> NPresamples d = np
        \<and> nsamp (emt d) = to_int32 ns \<and> npre (emt d) = to_int32 np)"
proof -
  have v: "3 \<le> np" "np < ns" using assms(1) by (auto simp: ConfigurePulseLengths_def split: if_splits)
  then have "bind_go (configure_each (\<lambda>d. dsp_ConfigurePulseLengths d ns np) (processors src)) (\<lambda>(ds, ok).
      Inr (src\<lparr>processors := ds\<rparr>, if ok then None else Some InvalidEMT)) = Inr (src', None)"
    using assms(1) by (simp add: ConfigurePulseLengths_def)
  then obtain r where r: "configure_each (\<lambda>d. dsp_ConfigurePulseLengths d ns np) (processors src) = Inr r"
    "((case r of (ds, ok) \<Rightarrow> Inr (src\<lparr>processors := ds\<rparr>, if ok then None else Some InvalidEMT)) :: _ go) = Inr (src', None)"
    by (rule bind_go_InrE)
  obtain ds where rd: "r = (ds, True)" and src': "src' = src\<lparr>processors := ds\<rparr>"
    using r(2) by (cases r) (auto split: if_splits)
  note ds = r(1) [unfolded rd]
  note all = configure_each_all [OF ds]
  have each: "NSamples d = ns \<and> NPresamples d = np \<and> nsamp (emt d) = to_int32 ns \<and> npre (emt d) = to_int32 np"
    if d: "d \<in> set ds" for d
  proof -
    obtain k where "k < length ds" "d = ds ! k" using d by (auto simp: in_set_conv_nth)
    then have "dsp_ConfigurePulseLengths (processors src ! k) ns np = Inr (d, True)"
      using list_all2_nthD2 [OF all] by blast
    then show ?thesis by (rule pulse_lengths_set)
  qed
  obtain d rest where "ds = d # rest" using assms(2) list_all2_lengthD [OF all] by (cases ds) auto
  then have "getPulseLengths src' = Inr (np, ns)" using each by (auto simp: getPulseLengths_def src')
  then show ?thesis using v each by (simp add: src')
qed

subsection \<open>The start of a run\<close>

lemma new_processor_trims:
  assumes "NewDataStreamProcessor now i n npres nsamps rate mon = Inr d"
  shows "nsamp (emt d) = 0" "NSamples d = nsamps" "NPresamples d = npres"
  using assms by (auto simp: NewDataStreamProcessor_def Let_def EMT_reset_def EMTState_zero_def elim!: bind_go_InrE)

text \<open>
  A run begins with too little history.  The channels that \<open>PrepareRun\<close> makes know their record
  length, but not the copy of it that decides how much data a trim keeps: until the lengths or the
  triggers are configured again, ten samples are kept, whatever the record length is.
\<close>

theorem new_run_keeps_ten_samples:
  assumes "PrepareRun now [] src npres nsamps = Inr (src', None)" "d \<in> set (processors src')"
  shows "NSamples d = nsamps \<and> NPresamples d = npres
    \<and> (\<forall>st d'. TrimStream (d\<lparr>stream := st\<rparr>) = Inr d'
        \<longrightarrow> length (rawData (stream d')) = min 10 (length (rawData st)))"
proof -
  obtain src1 tsptrs where ts: "stored_states (nchan src1) [] = Inr tsptrs"
    and ds: "mapM_go (prepare_channel now src1 npres nsamps tsptrs) [0..nchan src1 - 1] = Inr (processors src')"
    using assms(1) by (auto simp: PrepareRun_def Let_def elim!: bind_go_InrE split: if_splits)
  have none: "tsptrs = replicate (nat (nchan src1)) None" using ts by (simp add: stored_states_def)
  obtain k where k: "k < length (processors src')" "d = processors src' ! k" using assms(2) by (metis in_set_conv_nth)
  have "prepare_channel now src1 npres nsamps tsptrs ([0..nchan src1 - 1] ! k) = Inr d"
    using list_all2_nthD2 [OF mapM_go_list_all2 [OF ds] k(1)] k(2) by simp
  then obtain i number d0 name vpa t where d0: "NewDataStreamProcessor now i number npres nsamps (srcSampleRate src1)
      (baselineMessages src1) = Inr d0" and t: "idx tsptrs i = Inr t"
    and d: "d = d0\<lparr>dspName := name, stream := (stream d0)\<lparr>voltsPerArb := vpa\<rparr>,
              triggerState := (case t of None \<Rightarrow> defaultTS | Some t \<Rightarrow> t), publisher := SetPub (publisher d0)\<rparr>"
    by (auto simp: prepare_channel_def elim!: bind_go_InrE)
  have "t = None" using t by (auto simp: none idx_def split: if_splits)
  then have e: "nsamp (emt d) = 0" by (simp add: d defaultTS_def TriggerState_zero_def EMTState_zero_def)
  have "length (rawData (stream d')) = min 10 (length (rawData st))"
    if "TrimStream (d\<lparr>stream := st\<rparr>) = Inr d'" for st d'
  proof -
    have "bind_go (TrimKeepingN st 10) (\<lambda>(st, _). Inr (d\<lparr>stream := st\<rparr>)) = Inr d'"
      using that by (simp add: TrimStream_def NToKeepOnTrim_def to_int32_id e)
    then obtain r where "TrimKeepingN st 10 = Inr r"
      "((case r of (st, _) \<Rightarrow> Inr (d\<lparr>stream := st\<rparr>)) :: _ go) = Inr d'" by (rule bind_go_InrE)
    then have t: "TrimKeepingN st 10 = Inr (fst r, snd r)" "stream d' = fst r" by (cases r, auto)+
    show ?thesis using TrimKeepingN_length [OF t(1)] by (simp add: t(2))
  qed
  then show ?thesis using new_processor_trims(2,3) [OF d0] by (simp add: d)
qed

subsection \<open>The archive of raw data\<close>

text \<open>The archive's part in a sequence of blocks, and what it is meant to hold afterwards.\<close>

definition archive_step :: "int \<Rightarrow> archiveableDataBlock \<Rightarrow> dataBlock \<Rightarrow> archiveableDataBlock go" where
  "archive_step n ab block = (if abActive ab then archiveNewDataBlock n ab block else Inr ab)"

definition block_length :: "dataBlock \<Rightarrow> nat" where
  "block_length block = length (rawData (hd (segments block)))"

definition block_fits :: "nat \<Rightarrow> dataBlock \<Rightarrow> bool" where
  "block_fits n block \<longleftrightarrow> length (segments block) = n
     \<and> (\<forall>s\<in>set (segments block). length (rawData s) = block_length block)"

fun taken :: "go_time \<Rightarrow> int \<Rightarrow> int \<Rightarrow> dataBlock list \<Rightarrow> dataBlock list" where
  "taken t N seen [] = []"
| "taken t N seen (b # bs) =
     (if firstTime (hd (segments b)) < t then taken t N seen bs
      else b # (if seen + int (block_length b) \<ge> N then [] else taken t N (seen + int (block_length b)) bs))"

definition archived :: "archiveableDataBlock \<Rightarrow> nat \<Rightarrow> 16 word list" where
  "archived ab k = (case abSegments ab of None \<Rightarrow> [] | Some segs \<Rightarrow> rawData (segs ! k))"

definition archived_count :: "archiveableDataBlock \<Rightarrow> int" where
  "archived_count ab = (case abSegments ab of None \<Rightarrow> 0 | Some _ \<Rightarrow> abNSamp ab)"

lemma archive_idle: "\<not> abActive ab \<Longrightarrow> foldM_go (archive_step n) ab bs = Inr ab"
  by (induction bs) (simp_all add: archive_step_def)

lemma archive_step_cases:
  assumes "abActive ab" "archive_ready ab n" "0 < n" "block_fits n b"
  obtains (early) ab' where "firstTime (hd (segments b)) < earliestTime ab"
      "archive_step (int n) ab b = Inr ab'" "archive_ready ab' n" "abActive ab'" "earliestTime ab' = earliestTime ab"
      "requestedSamples ab' = requestedSamples ab" "archived_count ab' = archived_count ab"
      "\<forall>k<n. archived ab' k = archived ab k" "abTriggers ab' = abTriggers ab"
  | (used) ab' where "\<not> firstTime (hd (segments b)) < earliestTime ab"
      "archive_step (int n) ab b = Inr ab'" "archive_ready ab' n" "earliestTime ab' = earliestTime ab"
      "requestedSamples ab' = requestedSamples ab"
      "archived_count ab' = archived_count ab + int (block_length b)"
      "\<forall>k<n. archived ab' k = archived ab k @ rawData (segments b ! k)"
      "abTriggers ab' = abTriggers ab @ externalTriggerRowcounts b"
      "completed ab' \<longleftrightarrow> archived_count ab' \<ge> requestedSamples ab" "abActive ab' \<longleftrightarrow> \<not> completed ab'"
proof -
  have fits: "length (segments b) = n" "segments b \<noteq> []" "\<forall>s\<in>set (segments b). length (rawData s) = block_length b"
    using assms(3,4) by (auto simp: block_fits_def)
  define old where "old = (case abSegments ab of None \<Rightarrow> replicate (length (segments b)) empty_segment | Some segs \<Rightarrow> segs)"
  define seen where "seen = (case abSegments ab of None \<Rightarrow> 0 | Some _ \<Rightarrow> abNSamp ab)"
  note step = archive_block [OF assms(1) assms(2) [folded fits(1)] _ fits(2,3), of "int n", folded old_def seen_def]
  have len: "length old = n" using assms(1,2) fits(1) by (auto simp: old_def archive_ready_def split: option.splits)
  have rdy: "archive_ready x n" if "archive_step (int n) ab b = Inr x" for x
  proof -
    have "archiveNewDataBlock (int n) ab b = Inr x" using that assms(1) by (simp add: archive_step_def)
    from archive_block_ready [OF this assms(1) assms(2) [folded fits(1)] _ fits(2,3)] show ?thesis by (simp only: fits(1))
  qed
  have before: "archived ab k = rawData (old ! k)" if "k < n" for k
    using that fits(1) by (simp add: archived_def old_def empty_segment_def split: option.splits)
  have count: "archived_count ab = seen" by (simp add: archived_count_def seen_def)
  show ?thesis
  proof (cases "firstTime (hd (segments b)) < earliestTime ab")
    case True
    define x where "x = ab\<lparr>abSegments := Some old, abNSamp := seen\<rparr>"
    have x: "archive_step (int n) ab b = Inr x" using step fits(1) True assms(1) by (simp add: archive_step_def x_def)
    show ?thesis
      by (rule early [OF True x rdy [OF x]]) (use assms(1) before count in \<open>simp_all add: x_def archived_def archived_count_def\<close>)
  next
    case False
    define x where "x = ab\<lparr>abSegments := Some (map2 joined old (segments b)), abTriggers := abTriggers ab @ externalTriggerRowcounts b,
            abNSamp := seen + int (block_length b), completed := seen + int (block_length b) \<ge> requestedSamples ab,
            abActive := seen + int (block_length b) < requestedSamples ab\<rparr>"
    have x: "archive_step (int n) ab b = Inr x" using step fits(1) False assms(1) by (simp add: archive_step_def x_def)
    have "\<forall>k<n. archived x k = archived ab k @ rawData (segments b ! k)"
      using before len fits(1) by (simp add: x_def archived_def joined_def)
    then show ?thesis
      by (intro used [OF False x rdy [OF x]]) (use count in \<open>simp_all add: x_def archived_def archived_count_def not_le\<close>)
  qed
qed

lemma archive_run:
  assumes "abActive ab" "archive_ready ab n" "0 < n" "\<forall>b\<in>set bs. block_fits n b"
  defines "used \<equiv> taken (earliestTime ab) (requestedSamples ab) (archived_count ab) bs"
  shows "\<exists>ab'. foldM_go (archive_step (int n)) ab bs = Inr ab'
    \<and> (\<forall>k<n. archived ab' k = archived ab k @ concat (map (\<lambda>b. rawData (segments b ! k)) used))
    \<and> abTriggers ab' = abTriggers ab @ concat (map externalTriggerRowcounts used)
    \<and> (completed ab' \<longleftrightarrow> used \<noteq> [] \<and> archived_count ab + int (sum_list (map block_length used)) \<ge> requestedSamples ab)
    \<and> (abActive ab' \<longleftrightarrow> \<not> completed ab')"
  using assms(1,2,4) unfolding used_def
proof (induction bs arbitrary: ab)
  case Nil
  then show ?case by (auto simp: archive_ready_def)
next
  case (Cons b bs)
  have fit: "block_fits n b" "\<forall>b\<in>set bs. block_fits n b" using Cons.prems(3) by auto
  show ?case
    using Cons.prems(1,2) assms(3) fit(1)
  proof (cases rule: archive_step_cases)
    case (early ab')
    from Cons.IH [OF early(4,3) fit(2)] show ?thesis using early by simp
  next
    case (used ab')
    show ?thesis
    proof (cases "completed ab'")
      case True
      then have "\<not> abActive ab'" "archived_count ab + int (block_length b) \<ge> requestedSamples ab" using used by simp_all
      then show ?thesis using used True by (simp add: archive_idle)
    next
      case False
      then have act: "abActive ab'" and few: "\<not> archived_count ab + int (block_length b) \<ge> requestedSamples ab"
        using used by simp_all
      let ?rest = "taken (earliestTime ab) (requestedSamples ab) (archived_count ab + int (block_length b)) bs"
      from Cons.IH [OF act used(3) fit(2)] obtain x where x: "foldM_go (archive_step (int n)) ab' bs = Inr x"
        "\<forall>k<n. archived x k = archived ab' k @ concat (map (\<lambda>b. rawData (segments b ! k)) ?rest)"
        "abTriggers x = abTriggers ab' @ concat (map externalTriggerRowcounts ?rest)"
        "completed x \<longleftrightarrow> ?rest \<noteq> [] \<and> archived_count ab' + int (sum_list (map block_length ?rest)) \<ge> requestedSamples ab"
        "abActive x \<longleftrightarrow> \<not> completed x"
        unfolding used(4-6) by blast
      have c: "completed x \<longleftrightarrow> archived_count ab + int (block_length b) + int (sum_list (map block_length ?rest)) \<ge> requestedSamples ab"
        using x(4) few used(6) by auto
      show ?thesis using used few x(1,2,3,5) c by (simp add: add.assoc)
    qed
  qed
qed

text \<open>
  A request for raw data collects, for every channel, the data of consecutive blocks: the blocks
  that begin before the request are skipped, then every block is kept whole until at least the
  requested number of samples is there, and only then the archive is complete; later blocks do not
  change it.  The external triggers of those blocks are appended to what earlier requests left,
  because the request never clears them.
\<close>

theorem archive_collects_blocks:
  assumes "ArchiveDataBlock now src N = (src', None)" "0 \<le> N" "0 < n" "\<forall>b\<in>set bs. block_fits n b"
  shows "\<exists>ab. foldM_go (archive_step (int n)) (archiveBlock src') bs = Inr ab
    \<and> (\<forall>k<n. archived ab k = concat (map (\<lambda>b. rawData (segments b ! k)) (taken now N 0 bs)))
    \<and> abTriggers ab = abTriggers (archiveBlock src) @ concat (map externalTriggerRowcounts (taken now N 0 bs))
    \<and> (completed ab \<longleftrightarrow> taken now N 0 bs \<noteq> [] \<and> int (sum_list (map block_length (taken now N 0 bs))) \<ge> N)
    \<and> (abActive ab \<longleftrightarrow> \<not> completed ab)"
proof -
  have ab: "archiveBlock src' = (archiveBlock src)\<lparr>earliestTime := now, requestedSamples := N, abSegments := None,
      completed := False, abActive := True\<rparr>"
    using assms(1) by (auto simp: ArchiveDataBlock_def Let_def split: if_splits)
  then have "abActive (archiveBlock src')" "archive_ready (archiveBlock src') n"
    using assms(2) by (simp_all add: archive_ready_def)
  from archive_run [OF this assms(3,4)] show ?thesis by (simp add: ab archived_def archived_count_def)
qed

subsection \<open>Concrete runs\<close>

theorem pulse_lengths_agree_witness:
  "\<exists>src'. ConfigurePulseLengths demo_source 9 4 = Inr (src', None) \<and> getPulseLengths src' = Inr (4, 9)"
proof -
  have "case ConfigurePulseLengths demo_source 9 4 of Inr (src', None) \<Rightarrow> True | _ \<Rightarrow> False" by code_simp
  then obtain src' where s: "ConfigurePulseLengths demo_source 9 4 = Inr (src', None)"
    by (auto split: sum.splits option.splits)
  moreover have "processors demo_source \<noteq> []" by (simp add: demo_source_def)
  ultimately show ?thesis using pulse_lengths_agree [OF s] by blast
qed

lemma NewDataStreamProcessor_total: "\<exists>d. NewDataStreamProcessor now i n npres nsamps rate mon = Inr d"
  by (simp add: NewDataStreamProcessor_def NewBaselineMonitor_def quot_int_def Let_def)

theorem new_run_keeps_ten_samples_witness:
  "\<exists>src' d. PrepareRun 0 [] demo_source 100 1000 = Inr (src', None) \<and> d \<in> set (processors src') \<and> NSamples d = 1000"
proof -
  obtain d0 where d0: "NewDataStreamProcessor 0 0 1 100 1000 (Fin 1) None = Inr d0" using NewDataStreamProcessor_total by blast
  obtain d1 where d1: "NewDataStreamProcessor 0 1 2 100 1000 (Fin 1) None = Inr d1" using NewDataStreamProcessor_total by blast
  have l: "[0..(1 :: int)] = [0, 1]" by code_simp
  have "\<exists>src'. PrepareRun 0 [] demo_source 100 1000 = Inr (src', None) \<and> length (processors src') = 2"
    by (simp add: PrepareRun_def NewTriggerBroker_def VoltsPerArb_def stored_states_def demo_source_def Let_def
      prepare_channel_def idx_def l d0 d1)
  then obtain src' where s: "PrepareRun 0 [] demo_source 100 1000 = Inr (src', None)" "length (processors src') = 2" by blast
  then have d: "processors src' ! 0 \<in> set (processors src')" by simp
  from new_run_keeps_ten_samples [OF s(1) d] s(1) d show ?thesis by blast
qed

theorem archive_collects_blocks_witness:
  "\<exists>ab. foldM_go (archive_step 2) (archiveBlock (fst (ArchiveDataBlock 0 (demo_source\<lparr>archiveBlock :=
      (archiveBlock demo_source)\<lparr>abActive := False, abTriggers := [8]\<rparr>\<rparr>) 30))) [demo_block, demo_block, demo_block] = Inr ab
    \<and> archived ab 1 = demo_data @ demo_data \<and> abTriggers ab = [8, 3, 3] \<and> completed ab"
proof -
  let ?src = "demo_source\<lparr>archiveBlock := (archiveBlock demo_source)\<lparr>abActive := False, abTriggers := [8]\<rparr>\<rparr>"
  obtain src' where s: "ArchiveDataBlock 0 ?src 30 = (src', None)" by (simp add: ArchiveDataBlock_def Let_def)
  have fits: "\<forall>b\<in>set [demo_block, demo_block, demo_block]. block_fits 2 b"
    by (simp add: block_fits_def block_length_def demo_block_def)
  have t: "taken 0 30 0 [demo_block, demo_block, demo_block] = [demo_block, demo_block]" by code_simp
  have l: "rawData (segments demo_block ! 1) = demo_data" "externalTriggerRowcounts demo_block = [3]"
    "int (block_length demo_block) = 20" by code_simp+
  have "(0 :: int) \<le> 30" "(0 :: nat) < 2" by simp_all
  from archive_collects_blocks [OF s this fits] obtain ab where
    ab: "foldM_go (archive_step (int 2)) (archiveBlock src') [demo_block, demo_block, demo_block] = Inr ab"
    and data: "\<forall>k<2. archived ab k = concat (map (\<lambda>b. rawData (segments b ! k)) [demo_block, demo_block])"
    and rest: "abTriggers ab = abTriggers (archiveBlock ?src) @ concat (map externalTriggerRowcounts [demo_block, demo_block])"
      "completed ab \<longleftrightarrow> [demo_block, demo_block] \<noteq> [] \<and> int (sum_list (map block_length [demo_block, demo_block])) \<ge> 30"
    unfolding t by blast
  have "archived ab 1 = demo_data @ demo_data" using data l(1) by simp
  moreover have "abTriggers ab = [8, 3, 3]" "completed ab" using rest l(2,3) by simp_all
  ultimately show ?thesis using ab unfolding s fst_conv by auto
qed

end
