(* ===== verification/AsyncWriter.thy ===== *)
theory AsyncWriter
  imports Prelude "HOL-Library.Sublist"
begin

text \<open>
  The asynchronous writer of \<open>internal/asyncbufio\<close>: callers put chunks of bytes into a bounded
  channel, a goroutine (\<open>writeLoop\<close>) moves them into a \<open>bufio.Writer\<close>, and \<open>Flush\<close> and \<open>Close\<close>
  hand over to the goroutine and wait until it has emptied the channel.  Callers and goroutine run
  interleaved: each atomic action is a step of \<open>aw_step\<close>.  The underlying \<open>io.Writer\<close> is the list
  of bytes it has received, and the buffer of \<open>bufio.Writer\<close> may pass any of its bytes on at any
  time.  Passing them on can fail after some of them; \<open>bufio.Writer\<close> then keeps the error and neither
  takes nor passes on another byte, and the goroutine ignores what its calls return.  The bytes of a chunk are
  taken not to change after \<open>Write\<close>, and the interval between flushes to be positive.
\<close>

subsection \<open>State and steps\<close>

text \<open>
  Where the goroutine is: at the \<open>select\<close> of the loop, inside \<open>flush\<close> for one of its three callers,
  about to signal completion, or returned.
\<close>

datatype flush_reason = ByRequest | ByClose | ByTick

datatype loop_pc = Selecting | Draining flush_reason | Signalling flush_reason | Stopped

record aw_state =
  aw_depth :: nat
  datachannel :: "u8 list list"
  aw_buffer :: "u8 list"
  aw_out :: "u8 list"
  aw_failed :: bool
  aw_pc :: loop_pc
  flushNow_closed :: bool
  aw_accepted :: "u8 list list"
  aw_mark :: "u8 list"

text \<open>
  \<open>aw_accepted\<close> and \<open>aw_mark\<close> only record history: the chunks whose \<open>Write\<close> succeeded, and the
  bytes accepted when the goroutine took the present request to flush or close.
\<close>

definition NewWriter :: "nat \<Rightarrow> aw_state" where
  "NewWriter channelDepth =
     \<lparr>aw_depth = channelDepth, datachannel = [], aw_buffer = [], aw_out = [], aw_failed = False, aw_pc = Selecting,
      flushNow_closed = False, aw_accepted = [], aw_mark = []\<rparr>"

datatype aw_event =
    Write "u8 list" | WriteFails "u8 list" | LoopTakes | BufferSpills nat | FileFails nat nat
  | FlushBegins | FlushReturns | CloseBegins | LoopSeesClose | CloseReturns
  | TickFires | DrainTakes | DrainEnds

text \<open>\<open>bufio.Writer.Write\<close> of one chunk and \<open>bufio.Writer.Flush\<close>: after a failure they do nothing.\<close>

definition buffer_chunk :: "u8 list \<Rightarrow> aw_state \<Rightarrow> aw_state" where
  "buffer_chunk data s = (if aw_failed s then s else s\<lparr>aw_buffer := aw_buffer s @ data\<rparr>)"

definition take_chunk :: "aw_state \<Rightarrow> aw_state" where
  "take_chunk s = (buffer_chunk (hd (datachannel s)) s)\<lparr>datachannel := tl (datachannel s)\<rparr>"

definition flush_buffer :: "aw_state \<Rightarrow> aw_state" where
  "flush_buffer s = (if aw_failed s then s else s\<lparr>aw_out := aw_out s @ aw_buffer s, aw_buffer := []\<rparr>)"

text \<open>
  A channel of depth 0 passes a chunk from hand to hand, when the goroutine waits in its \<open>select\<close>; the
  sender does not wait for it, so that it may also miss it.  A failure after \<open>k\<close> bytes leaves in the buffer
  \<open>j\<close> bytes (those of a chunk that had no room in it are gone).
\<close>

inductive aw_step :: "aw_state \<Rightarrow> aw_event \<Rightarrow> aw_state \<Rightarrow> bool" where
  accept: "length (datachannel s) < aw_depth s \<Longrightarrow>
    aw_step s (Write p) (s\<lparr>datachannel := datachannel s @ [p], aw_accepted := aw_accepted s @ [p]\<rparr>)"
| rendezvous: "aw_depth s = 0 \<Longrightarrow> aw_pc s = Selecting \<Longrightarrow>
    aw_step s (Write p) ((buffer_chunk p s)\<lparr>aw_accepted := aw_accepted s @ [p]\<rparr>)"
| refuse: "aw_depth s \<le> length (datachannel s) \<Longrightarrow> aw_step s (WriteFails p) s"
| loop_takes: "aw_pc s = Selecting \<Longrightarrow> datachannel s \<noteq> [] \<Longrightarrow> aw_step s LoopTakes (take_chunk s)"
| spills: "\<not> aw_failed s \<Longrightarrow> k \<le> length (aw_buffer s) \<Longrightarrow>
    aw_step s (BufferSpills k) (s\<lparr>aw_out := aw_out s @ take k (aw_buffer s), aw_buffer := drop k (aw_buffer s)\<rparr>)"
| fails: "\<not> aw_failed s \<Longrightarrow> k + j \<le> length (aw_buffer s) \<Longrightarrow>
    aw_step s (FileFails k j) (s\<lparr>aw_out := aw_out s @ take k (aw_buffer s),
      aw_buffer := take j (drop k (aw_buffer s)), aw_failed := True\<rparr>)"
| flush_begins: "aw_pc s = Selecting \<Longrightarrow> \<not> flushNow_closed s \<Longrightarrow>
    aw_step s FlushBegins (s\<lparr>aw_pc := Draining ByRequest, aw_mark := concat (aw_accepted s)\<rparr>)"
| flush_returns: "aw_pc s = Signalling ByRequest \<Longrightarrow> aw_step s FlushReturns (s\<lparr>aw_pc := Selecting\<rparr>)"
| close_begins: "\<not> flushNow_closed s \<Longrightarrow> aw_step s CloseBegins (s\<lparr>flushNow_closed := True\<rparr>)"
| sees_close: "aw_pc s = Selecting \<Longrightarrow> flushNow_closed s \<Longrightarrow>
    aw_step s LoopSeesClose (s\<lparr>aw_pc := Draining ByClose, aw_mark := concat (aw_accepted s)\<rparr>)"
| close_returns: "aw_pc s = Signalling ByClose \<Longrightarrow> aw_step s CloseReturns (s\<lparr>aw_pc := Stopped\<rparr>)"
| tick: "aw_pc s = Selecting \<Longrightarrow> aw_step s TickFires (s\<lparr>aw_pc := Draining ByTick, aw_mark := []\<rparr>)"
| drain_takes: "aw_pc s = Draining r \<Longrightarrow> datachannel s \<noteq> [] \<Longrightarrow> aw_step s DrainTakes (take_chunk s)"
| drain_ends: "aw_pc s = Draining r \<Longrightarrow> datachannel s = [] \<Longrightarrow>
    aw_step s DrainEnds ((flush_buffer s)\<lparr>aw_pc := (if r = ByTick then Selecting else Signalling r)\<rparr>)"

inductive_cases aw_stepE [elim!]:
  "aw_step s (Write p) t" "aw_step s (WriteFails p) t" "aw_step s LoopTakes t"
  "aw_step s (BufferSpills k) t" "aw_step s (FileFails k j) t" "aw_step s FlushBegins t" "aw_step s FlushReturns t"
  "aw_step s CloseBegins t" "aw_step s LoopSeesClose t" "aw_step s CloseReturns t"
  "aw_step s TickFires t" "aw_step s DrainTakes t" "aw_step s DrainEnds t"

inductive_simps accept_simp: "aw_step s (Write p) t"

inductive aw_run :: "aw_state \<Rightarrow> aw_event list \<Rightarrow> aw_state \<Rightarrow> bool" where
  run_nil: "aw_run s [] s"
| run_cons: "aw_step s e t \<Longrightarrow> aw_run t es u \<Longrightarrow> aw_run s (e # es) u"

inductive_simps aw_run_Cons: "aw_run s (e # es) u"
inductive_simps aw_run_Nil: "aw_run s [] u"

lemma aw_run_append: "aw_run s es t \<Longrightarrow> aw_run t fs u \<Longrightarrow> aw_run s (es @ fs) u"
  by (induction rule: aw_run.induct) (auto intro: run_cons)

lemma aw_run_split:
  assumes "aw_run a (xs @ ys) b"
  shows "\<exists>u. aw_run a xs u \<and> aw_run u ys b"
  using assms
proof (induction xs arbitrary: a)
  case Nil
  then show ?case using run_nil by auto
next
  case (Cons x xs)
  then obtain t where t: "aw_step a x t" "aw_run t (xs @ ys) b" by (auto simp: aw_run_Cons)
  from Cons.IH [OF t(2)] obtain u where "aw_run t xs u" "aw_run u ys b" by blast
  then show ?case using run_cons [OF t(1)] by blast
qed

subsection \<open>Nothing is reordered, and nothing is lost before a failure\<close>

definition aw_inv :: "aw_state \<Rightarrow> bool" where
  "aw_inv s \<longleftrightarrow> subseq (aw_out s @ aw_buffer s @ concat (datachannel s)) (concat (aw_accepted s))
     \<and> (\<not> aw_failed s \<longrightarrow> concat (aw_accepted s) = aw_out s @ aw_buffer s @ concat (datachannel s))
     \<and> prefix (aw_out s) (concat (aw_accepted s))
     \<and> length (datachannel s) \<le> aw_depth s
     \<and> prefix (aw_mark s) (concat (aw_accepted s))
     \<and> ((\<exists>r. aw_pc s = Signalling r) \<and> \<not> aw_failed s \<longrightarrow> prefix (aw_mark s) (aw_out s))"

lemma concat_hd_tl: "xs \<noteq> [] \<Longrightarrow> hd xs @ concat (tl xs) = concat xs"
  by (cases xs) auto

lemma aw_inv_new: "aw_inv (NewWriter n)"
  by (simp add: aw_inv_def NewWriter_def)

lemma prefix_more: "prefix m (xs @ ys @ zs) \<Longrightarrow> prefix m (xs @ ys @ zs @ p)"
  by (metis append.assoc prefix_append)

lemma subseq_snoc: "subseq (xs @ ys @ zs) us \<Longrightarrow> subseq (xs @ ys @ zs @ p) (us @ p)"
  by (metis append.assoc list_emb_append_mono subseq_order.order_refl)

lemma subseq_skip: "subseq (xs @ ys @ hs @ zs) us \<Longrightarrow> subseq (xs @ ys @ zs) us"
  by (metis list_emb_append_mono subseq_append_iff subseq_order.order_refl subseq_order.trans subseq_drop_many)

lemma subseq_cut: "subseq (xs @ take k ys @ take j (drop k ys) @ zs) (xs @ ys @ zs)"
proof -
  have "subseq (take k ys @ take j (drop k ys)) (take k ys @ drop k ys)"
    by (intro list_emb_append_mono prefix_imp_subseq take_is_prefix subseq_order.order_refl)
  then have "subseq (take k ys @ take j (drop k ys)) ys" by simp
  then have "subseq ((take k ys @ take j (drop k ys)) @ zs) (ys @ zs)"
    by (intro list_emb_append_mono subseq_order.order_refl)
  then show ?thesis by (simp add: subseq_append')
qed

lemma aw_step_inv: "aw_step s e t \<Longrightarrow> aw_inv s \<Longrightarrow> aw_inv t"
proof (induction rule: aw_step.induct)
  case (loop_takes s)
  have c: "hd (datachannel s) @ concat (tl (datachannel s)) = concat (datachannel s)"
    using loop_takes(2) by (rule concat_hd_tl)
  then show ?case using loop_takes subseq_skip [of "aw_out s" "aw_buffer s" "hd (datachannel s)"]
    by (auto simp: aw_inv_def take_chunk_def buffer_chunk_def)
next
  case (drain_takes s r)
  have c: "hd (datachannel s) @ concat (tl (datachannel s)) = concat (datachannel s)"
    using drain_takes(2) by (rule concat_hd_tl)
  then show ?case using drain_takes subseq_skip [of "aw_out s" "aw_buffer s" "hd (datachannel s)"]
    by (auto simp: aw_inv_def take_chunk_def buffer_chunk_def)
next
  case (fails s k j)
  then have "concat (aw_accepted s) = aw_out s @ aw_buffer s @ concat (datachannel s)" by (simp add: aw_inv_def)
  moreover have "prefix (aw_out s @ take k (aw_buffer s)) (aw_out s @ aw_buffer s @ concat (datachannel s))"
    by (simp add: prefix_prefix take_is_prefix)
  ultimately show ?case using fails subseq_cut [of "aw_out s" k "aw_buffer s" j] by (simp add: aw_inv_def)
next
  case (spills s k)
  then have "concat (aw_accepted s) = aw_out s @ aw_buffer s @ concat (datachannel s)" by (simp add: aw_inv_def)
  moreover have "prefix (aw_out s @ take k (aw_buffer s)) (aw_out s @ aw_buffer s @ concat (datachannel s))"
    by (simp add: prefix_prefix take_is_prefix)
  moreover have "subseq (aw_out s @ take k (aw_buffer s) @ drop k (aw_buffer s) @ concat (datachannel s))
      (aw_out s @ aw_buffer s @ concat (datachannel s))"
    by (metis append.assoc append_take_drop_id subseq_order.order_refl)
  ultimately show ?case using spills by (simp add: aw_inv_def)
next
  case (accept s p)
  then show ?case using subseq_snoc [of "aw_out s" "aw_buffer s" "concat (datachannel s)" "concat (aw_accepted s)" p]
    by (auto simp: aw_inv_def)
next
  case (rendezvous s p)
  then have "datachannel s = []" by (simp add: aw_inv_def)
  then show ?case using rendezvous prefix_more [of "aw_mark s" "aw_out s" "aw_buffer s" "[]" p] subseq_snoc [of "aw_out s" "aw_buffer s" "[]" "concat (aw_accepted s)" p]
    by (auto simp: aw_inv_def buffer_chunk_def intro: subseq_order.trans)
qed (auto simp: aw_inv_def flush_buffer_def)

lemma aw_run_inv: "aw_run s es t \<Longrightarrow> aw_inv s \<Longrightarrow> aw_inv t"
  by (induction rule: aw_run.induct) (auto dest: aw_step_inv)

lemma failed_step: "aw_step s e t \<Longrightarrow> aw_failed s \<Longrightarrow> aw_failed t \<and> aw_out t = aw_out s"
  by (induction rule: aw_step.induct) (auto simp: take_chunk_def buffer_chunk_def flush_buffer_def)

lemma failed_run: "aw_run s es t \<Longrightarrow> aw_failed s \<Longrightarrow> aw_failed t \<and> aw_out t = aw_out s"
  by (induction rule: aw_run.induct) (auto dest: failed_step)

text \<open>The chunks a run accepts are those of its successful writes, in order.\<close>

fun writes :: "aw_event list \<Rightarrow> u8 list list" where
  "writes [] = []"
| "writes (Write p # es) = p # writes es"
| "writes (_ # es) = writes es"

lemma aw_step_accepted: "aw_step s e t \<Longrightarrow> aw_accepted t = aw_accepted s @ writes [e] \<and> aw_depth t = aw_depth s"
  by (induction rule: aw_step.induct) (auto simp: take_chunk_def buffer_chunk_def flush_buffer_def)

lemma writes_Cons: "writes (e # es) = writes [e] @ writes es"
  by (cases e) auto

lemma aw_run_accepted: "aw_run s es t \<Longrightarrow> aw_accepted t = aw_accepted s @ writes es"
proof (induction rule: aw_run.induct)
  case (run_cons s e t es u)
  then show ?case using aw_step_accepted [of s e t] writes_Cons [of e es] by simp
qed simp

lemma run_facts:
  assumes "aw_run (NewWriter n) es s"
  shows "aw_inv s" "aw_accepted s = writes es" "aw_depth s = n"
proof -
  show "aw_inv s" using aw_run_inv [OF assms aw_inv_new] .
  show "aw_accepted s = writes es"
    using aw_run_accepted [OF assms] by (simp add: NewWriter_def)
  have "aw_run a es b \<Longrightarrow> aw_depth b = aw_depth a" for a b
    by (induction rule: aw_run.induct) (auto dest: aw_step_accepted)
  from this [OF assms] show "aw_depth s = n" by (simp add: NewWriter_def)
qed

text \<open>
  C21: The asynchronous writer keeps the order, and loses nothing before the file fails: at any point of any
  interleaving of callers and writer goroutine, for a channel of any depth, as long as no operation of the
  underlying file has failed, what has reached the file, then the buffer, then the channel is exactly the
  bytes of the successful writes in their order, and the channel never holds more than its capacity.
  A failure goes unreported: the file then holds a prefix of those bytes for ever, though \<open>Write\<close> may go on to succeed.
\<close>

theorem async_writer_fifo:
  assumes "aw_run (NewWriter n) es s"
  shows "(\<not> aw_failed s \<longrightarrow> aw_out s @ aw_buffer s @ concat (datachannel s) = concat (writes es))
    \<and> prefix (aw_out s) (concat (writes es))
    \<and> subseq (aw_out s @ aw_buffer s @ concat (datachannel s)) (concat (writes es))
    \<and> (aw_failed s \<longrightarrow> (\<forall>fs u. aw_run s fs u \<longrightarrow> aw_out u = aw_out s))
    \<and> length (datachannel s) \<le> n"
  using run_facts [OF assms] failed_run by (auto simp: aw_inv_def)

subsection \<open>Flush and Close\<close>

lemma signalling_since:
  assumes "aw_run s es t" "aw_inv s" "aw_mark s = m" "\<exists>r\<in>{ByRequest, ByClose}. aw_pc s \<in> {Draining r, Signalling r}"
    and "FlushReturns \<notin> set es" "CloseReturns \<notin> set es"
  shows "aw_mark t = m \<and> (\<exists>r\<in>{ByRequest, ByClose}. aw_pc t \<in> {Draining r, Signalling r}) \<and> aw_inv t"
  using assms
proof (induction rule: aw_run.induct)
  case (run_cons s e t es u)
  have "aw_inv t" using aw_step_inv run_cons.hyps(1) run_cons.prems(1) .
  moreover from run_cons.hyps(1) run_cons.prems
  have "aw_mark t = m \<and> (\<exists>r\<in>{ByRequest, ByClose}. aw_pc t \<in> {Draining r, Signalling r})"
    by (cases rule: aw_step.cases) (auto simp: take_chunk_def buffer_chunk_def flush_buffer_def)
  ultimately show ?case using run_cons.IH run_cons.prems(4,5) by simp
qed simp

text \<open>
  When \<open>Flush\<close> returns and the file has not failed, every byte whose \<open>Write\<close> had succeeded before the request
  was taken is in the file, whatever the callers did in between; the same holds for \<open>Close\<close>.
\<close>

theorem flush_and_close_are_complete:
  assumes "aw_run (NewWriter n) before s" "aw_run s (start # during @ [end_event]) t"
    and "(start, end_event) = (FlushBegins, FlushReturns) \<or> (start, end_event) = (LoopSeesClose, CloseReturns)"
    and "FlushReturns \<notin> set during" "CloseReturns \<notin> set during" "\<not> aw_failed t"
  shows "prefix (concat (writes before)) (aw_out t)"
proof -
  obtain s1 where s1: "aw_step s start s1" "aw_run s1 (during @ [end_event]) t"
    using assms(2) by (auto simp: aw_run_Cons)
  obtain s2 where s2: "aw_run s1 during s2" "aw_run s2 [end_event] t" using aw_run_split [OF s1(2)] by blast
  have inv: "aw_inv s" using run_facts [OF assms(1)] by simp
  have "aw_accepted s = writes before" using run_facts [OF assms(1)] by simp
  then have m: "aw_mark s1 = concat (writes before)"
    "\<exists>r\<in>{ByRequest, ByClose}. aw_pc s1 \<in> {Draining r, Signalling r}"
    using s1(1) assms(3) by auto
  have 2: "aw_mark s2 = concat (writes before)" "aw_inv s2"
    using signalling_since [OF s2(1) aw_step_inv [OF s1(1) inv] m assms(4,5)] by simp_all
  have "aw_step s2 end_event t" using s2(2) by (simp add: aw_run_Cons aw_run_Nil)
  then have "\<exists>r. aw_pc s2 = Signalling r" "aw_out t = aw_out s2" "aw_failed t = aw_failed s2" using assms(3) by auto
  then show ?thesis using 2 assms(6) by (simp add: aw_inv_def)
qed

text \<open>
  A flush can finish: from any point inside it, the goroutine alone empties the channel in
  as many steps as it holds chunks and then, unless the file has failed, everything accepted so far is in the file.
\<close>

theorem flush_can_finish:
  assumes "aw_run (NewWriter n) es s" "aw_pc s = Draining r" "\<not> aw_failed s"
  shows "\<exists>t. aw_run s (replicate (length (datachannel s)) DrainTakes @ [DrainEnds]) t
    \<and> aw_out t = concat (writes es)"
proof -
  have "\<exists>t. aw_run s (replicate (length (datachannel s)) DrainTakes @ [DrainEnds]) t
    \<and> aw_out t = concat (aw_accepted s)" if "aw_inv s" "aw_pc s = Draining r" "\<not> aw_failed s" for s
    using that
  proof (induction "length (datachannel s)" arbitrary: s)
    case 0
    then have "aw_step s DrainEnds ((flush_buffer s)\<lparr>aw_pc := (if r = ByTick then Selecting else Signalling r)\<rparr>)"
      by (intro drain_ends) auto
    then have "aw_run s [DrainEnds] ((flush_buffer s)\<lparr>aw_pc := (if r = ByTick then Selecting else Signalling r)\<rparr>)"
      by (rule run_cons [OF _ run_nil])
    then show ?case using 0
      by (intro exI [of _ "(flush_buffer s)\<lparr>aw_pc := (if r = ByTick then Selecting else Signalling r)\<rparr>"])
        (auto simp: aw_inv_def flush_buffer_def)
  next
    case (Suc k)
    have st: "aw_step s DrainTakes (take_chunk s)" using Suc by (intro drain_takes) auto
    have c: "length (datachannel (take_chunk s)) = k" "aw_pc (take_chunk s) = Draining r"
      "aw_accepted (take_chunk s) = aw_accepted s" "\<not> aw_failed (take_chunk s)"
      using Suc by (simp_all add: take_chunk_def buffer_chunk_def)
    obtain t where "aw_run (take_chunk s) (replicate k DrainTakes @ [DrainEnds]) t"
      "aw_out t = concat (aw_accepted s)"
      using Suc.hyps(1) [of "take_chunk s"] c aw_step_inv [OF st Suc.prems(1)] by auto
    note t = this
    have "aw_run s (DrainTakes # replicate k DrainTakes @ [DrainEnds]) t" by (rule run_cons [OF st t(1)])
    then show ?case using t(2) Suc.hyps(2) [symmetric] by auto
  qed
  from this [OF run_facts(1) [OF assms(1)] assms(2,3)] show ?thesis using run_facts(2) [OF assms(1)] by simp
qed

text \<open>
  A write after \<open>Close\<close> does not panic, as the comment on \<open>Close\<close> says it does: it is accepted
  while the channel has room and its bytes never reach the file.
\<close>

theorem write_after_close_is_lost:
  assumes "aw_run (NewWriter n) es s" "aw_pc s = Stopped" "length (datachannel s) < n" "p \<noteq> []"
  shows "\<exists>t. aw_step s (Write p) t \<and> (\<forall>fs u. aw_run t fs u \<longrightarrow>
    length (aw_out u @ aw_buffer u) + length p \<le> length (concat (writes (es @ [Write p] @ fs))))"
proof -
  let ?t = "s\<lparr>datachannel := datachannel s @ [p], aw_accepted := aw_accepted s @ [p]\<rparr>"
  have st: "aw_step s (Write p) ?t" using assms(3) run_facts(3) [OF assms(1)] by (intro accept) simp
  have stuck: "aw_pc u = Stopped \<and> p \<in> set (datachannel u)" if "aw_run a fs u" "aw_pc a = Stopped" "p \<in> set (datachannel a)"
    for a fs u
    using that
  proof (induction rule: aw_run.induct)
    case (run_cons s e t es u)
    from run_cons.hyps(1) run_cons.prems have "aw_pc t = Stopped \<and> p \<in> set (datachannel t)"
      by (cases rule: aw_step.cases) auto
    then show ?case using run_cons.IH by blast
  qed simp
  have "length (aw_out u @ aw_buffer u) + length p \<le> length (concat (writes (es @ [Write p] @ fs)))"
    if "aw_run ?t fs u" for fs u
  proof -
    have r: "aw_run (NewWriter n) (es @ [Write p] @ fs) u"
      using aw_run_append [OF assms(1)] run_cons [OF st that] by simp
    have "p \<in> set (datachannel u)" using stuck [OF that] assms(2) by simp
    then have "length p \<le> length (concat (datachannel u))"
      by (auto simp: length_concat intro: member_le_sum_list)
    moreover have "subseq (aw_out u @ aw_buffer u @ concat (datachannel u)) (concat (writes (es @ [Write p] @ fs)))"
      using run_facts(1,2) [OF r] by (simp only: aw_inv_def)
    then have "length (aw_out u @ aw_buffer u @ concat (datachannel u)) \<le> length (concat (writes (es @ [Write p] @ fs)))"
      by (rule list_emb_length)
    ultimately show ?thesis by simp
  qed
  then show ?thesis using st by (intro exI [of _ ?t]) simp
qed

subsection \<open>A short run\<close>

definition demo_s1 :: aw_state where
  "demo_s1 = (NewWriter 2)\<lparr>datachannel := [[7]], aw_accepted := [[7]]\<rparr>"

lemma demo_before: "aw_run (NewWriter 2) [Write [7]] demo_s1"
  unfolding demo_s1_def
  using run_cons [OF accept [of "NewWriter 2" "[7]"] run_nil] by (simp add: NewWriter_def)

text \<open>From there a flush and a close both run to their end.\<close>

lemma demo_finish:
  assumes "aw_pc s = Draining r" "datachannel s = [[7]]" "r \<noteq> ByTick"
  shows "aw_run s [DrainTakes, DrainEnds] ((flush_buffer (take_chunk s))\<lparr>aw_pc := Signalling r\<rparr>)"
proof -
  have 1: "aw_step s DrainTakes (take_chunk s)" using assms(1,2) by (intro drain_takes) auto
  have "aw_step (take_chunk s) DrainEnds
      ((flush_buffer (take_chunk s))\<lparr>aw_pc := (if r = ByTick then Selecting else Signalling r)\<rparr>)"
    using assms(1,2) by (intro drain_ends) (auto simp: take_chunk_def buffer_chunk_def)
  then have 2: "aw_step (take_chunk s) DrainEnds ((flush_buffer (take_chunk s))\<lparr>aw_pc := Signalling r\<rparr>)"
    using assms(3) by simp
  show ?thesis by (rule run_cons [OF 1 run_cons [OF 2 run_nil]])
qed

lemma demo_flush: "\<exists>t. aw_run demo_s1 (FlushBegins # [DrainTakes, DrainEnds] @ [FlushReturns]) t \<and> \<not> aw_failed t"
proof -
  let ?a = "demo_s1\<lparr>aw_pc := Draining ByRequest, aw_mark := concat (aw_accepted demo_s1)\<rparr>"
  let ?b = "(flush_buffer (take_chunk ?a))\<lparr>aw_pc := Signalling ByRequest\<rparr>"
  have 1: "aw_step demo_s1 FlushBegins ?a"
    by (intro flush_begins) (simp_all add: demo_s1_def NewWriter_def)
  have 2: "aw_run ?a [DrainTakes, DrainEnds] ?b"
    by (intro demo_finish) (simp_all add: demo_s1_def)
  have 3: "aw_run ?b [FlushReturns] (?b\<lparr>aw_pc := Selecting\<rparr>)"
    by (intro run_cons [OF _ run_nil] flush_returns) simp
  have "aw_run demo_s1 (FlushBegins # [DrainTakes, DrainEnds] @ [FlushReturns]) (?b\<lparr>aw_pc := Selecting\<rparr>)"
    by (rule run_cons [OF 1 aw_run_append [OF 2 3]])
  then show ?thesis
    by (intro exI [of _ "?b\<lparr>aw_pc := Selecting\<rparr>"])
      (simp add: flush_buffer_def take_chunk_def buffer_chunk_def demo_s1_def NewWriter_def)
qed

lemma demo_close: "\<exists>t. aw_run demo_s1 [CloseBegins, LoopSeesClose, DrainTakes, DrainEnds, CloseReturns] t
    \<and> aw_pc t = Stopped \<and> datachannel t = []"
proof -
  let ?c = "demo_s1\<lparr>flushNow_closed := True\<rparr>"
  let ?a = "?c\<lparr>aw_pc := Draining ByClose, aw_mark := concat (aw_accepted ?c)\<rparr>"
  let ?b = "(flush_buffer (take_chunk ?a))\<lparr>aw_pc := Signalling ByClose\<rparr>"
  have 1: "aw_step demo_s1 CloseBegins ?c"
    by (intro close_begins) (simp add: demo_s1_def NewWriter_def)
  have 2: "aw_step ?c LoopSeesClose ?a"
    by (intro sees_close) (simp_all add: demo_s1_def NewWriter_def)
  have 3: "aw_run ?a [DrainTakes, DrainEnds] ?b"
    by (intro demo_finish) (simp_all add: demo_s1_def)
  have 4: "aw_run ?b [CloseReturns] (?b\<lparr>aw_pc := Stopped\<rparr>)"
    by (intro run_cons [OF _ run_nil] close_returns) simp
  have "aw_run demo_s1 (CloseBegins # LoopSeesClose # [DrainTakes, DrainEnds] @ [CloseReturns]) (?b\<lparr>aw_pc := Stopped\<rparr>)"
    by (rule run_cons [OF 1 run_cons [OF 2 aw_run_append [OF 3 4]]])
  then show ?thesis
    by (intro exI [of _ "?b\<lparr>aw_pc := Stopped\<rparr>"]) (simp add: flush_buffer_def take_chunk_def buffer_chunk_def demo_s1_def NewWriter_def)
qed

theorem async_writer_fifo_witness:
  "aw_out demo_s1 @ aw_buffer demo_s1 @ concat (datachannel demo_s1) = [7]"
  using async_writer_fifo [OF demo_before] by (simp add: demo_s1_def NewWriter_def)

theorem flush_and_close_are_complete_witness:
  "\<exists>t. aw_run demo_s1 (FlushBegins # [DrainTakes, DrainEnds] @ [FlushReturns]) t \<and> prefix [7] (aw_out t)"
proof -
  obtain t where t: "aw_run demo_s1 (FlushBegins # [DrainTakes, DrainEnds] @ [FlushReturns]) t" "\<not> aw_failed t"
    using demo_flush by blast
  show ?thesis using flush_and_close_are_complete [OF demo_before t(1)] t by auto
qed

theorem flush_can_finish_witness:
  "\<exists>s t. aw_run (NewWriter 2) [Write [7], TickFires] s
    \<and> aw_run s (replicate (length (datachannel s)) DrainTakes @ [DrainEnds]) t \<and> aw_out t = [7]"
proof -
  let ?s = "demo_s1\<lparr>aw_pc := Draining ByTick, aw_mark := []\<rparr>"
  have "aw_run demo_s1 [TickFires] ?s"
    by (intro run_cons [OF _ run_nil] tick) (simp add: demo_s1_def NewWriter_def)
  then have r: "aw_run (NewWriter 2) [Write [7], TickFires] ?s"
    using aw_run_append [OF demo_before] by fastforce
  obtain t where t: "aw_run ?s (replicate (length (datachannel ?s)) DrainTakes @ [DrainEnds]) t"
    "aw_out t = concat (writes [Write [7], TickFires])"
    using flush_can_finish [OF r, of ByTick] by (auto simp: demo_s1_def NewWriter_def)
  have "aw_out t = [7]" using t(2) by simp
  then show ?thesis using r t(1) by blast
qed

theorem write_after_close_is_lost_witness:
  "\<exists>s t. aw_pc s = Stopped \<and> aw_step s (Write [9]) t
    \<and> (\<forall>fs u. aw_run t fs u \<longrightarrow> length (aw_out u @ aw_buffer u) + 1
        \<le> length (concat (writes ([Write [7], CloseBegins, LoopSeesClose, DrainTakes, DrainEnds, CloseReturns]
             @ [Write [9]] @ fs))))"
proof -
  obtain s where s: "aw_run demo_s1 [CloseBegins, LoopSeesClose, DrainTakes, DrainEnds, CloseReturns] s"
    "aw_pc s = Stopped" "datachannel s = []" using demo_close by blast
  have "aw_run (NewWriter 2) [Write [7], CloseBegins, LoopSeesClose, DrainTakes, DrainEnds, CloseReturns] s"
    using aw_run_append [OF demo_before s(1)] by simp
  note r = this
  have "length (datachannel s) < 2" "[9 :: u8] \<noteq> []" "length [9 :: u8] = 1" using s(3) by simp_all
  note write_after_close_is_lost [OF r s(2) this(1,2), unfolded this(3)]
  then show ?thesis using s(2) by - (rule exI [of _ s], simp only: simp_thms)
qed

end
