(* ===== verification/Lancero.thy ===== *)
theory Lancero
  imports Source PhaseMix Bytes
begin

text \<open>
  The TDM source (\<open>lancero_source.go\<close> and \<open>FindFrameBits\<close> of \<open>internal/lancero\<close>): its
  configuration, the sampling of a card, the numbering of the channels, the reader that cuts whole
  frames out of the card's buffer and demultiplexes them, and the distribution of the samples over
  the channels of a block.  A card is a parameter: what a call of the driver returns is an argument
  of the definitions.  The devices are a store keyed by device number; the slice \<open>active\<close> holds
  pointers into it, modelled by the keys.
\<close>

subsection \<open>Frame bits\<close>

definition frame_bit :: "u8 \<Rightarrow> bool" where "frame_bit x = (x AND 1 = 1)"

datatype frame_error = NoFrameBits | NoTwoFrameStarts

text \<open>The three loops of \<open>FindFrameBits\<close>; \<open>i\<close> is an index of bytes.\<close>

function q_loop :: "u8 list \<Rightarrow> nat \<Rightarrow> bool \<Rightarrow> bool \<Rightarrow> nat" where
  "q_loop b i seen prev =
     (if i < length b
      then if seen
           then if prev \<and> \<not> frame_bit (b ! i) then q_loop b (i + 4) seen True
                else if \<not> prev \<and> frame_bit (b ! i) then i
                else q_loop b (i + 4) seen prev
           else q_loop b (i + 4) (\<not> frame_bit (b ! i)) prev
      else 0)"
  by pat_completeness auto
termination by (relation "measure (\<lambda>(b, i, _). length b - i)") auto

function n_loop :: "u8 list \<Rightarrow> nat \<Rightarrow> nat" where
  "n_loop b i = (if i < length b \<and> frame_bit (b ! i) then Suc (n_loop b (i + 4)) else 0)"
  by pat_completeness auto
termination by (relation "measure (\<lambda>(b, i). length b - i)") auto

function p_loop :: "u8 list \<Rightarrow> nat \<Rightarrow> bool \<Rightarrow> nat option" where
  "p_loop b i prev =
     (if i < length b
      then if prev \<and> \<not> frame_bit (b ! i) then p_loop b (i + 4) False
           else if \<not> prev \<and> frame_bit (b ! i) then Some i
           else p_loop b (i + 4) prev
      else None)"
  by pat_completeness auto
termination by (relation "measure (\<lambda>(b, i, _). length b - i)") auto

declare q_loop.simps [simp del] n_loop.simps [simp del] p_loop.simps [simp del]

definition FindFrameBits :: "u8 list \<Rightarrow> nat \<Rightarrow> nat \<times> nat \<times> nat \<times> frame_error option" where
  "FindFrameBits b off =
     (let q = q_loop b off False False;
          n = n_loop b q
      in if n < 1 then (q div 4, 0, n, Some NoFrameBits)
         else case p_loop b (q + 4 * n) True of
           Some p \<Rightarrow> (q div 4, p div 4, n, None)
         | None \<Rightarrow> (q div 4, 0, n, Some NoTwoFrameStarts))"

definition lanceroFBOffset :: nat where "lanceroFBOffset = 2"

subsection \<open>State\<close>

record LanceroDevice =
  devnum :: int
  devRows :: int
  devCols :: int
  lsync :: int
  fiberMask :: int
  cardDelay :: int
  devClockMHz :: int
  frameSize :: int
  adapRunning :: bool
  collRunning :: bool

record BuffersChanType =
  datacopies :: "raw list list"
  lastSampleTime :: go_time
  timeDiff :: go_duration
  totalBytes :: int
  dataDropDetected :: bool

record LanceroSource =
  lsSource :: AnySource
  lsDevices :: "(int \<times> LanceroDevice) list"
  lsClockMHz :: int
  lsNsamp :: int
  lsActive :: "int list"
  chan2readoutOrder :: "int list"
  lsMix :: "Mix list"
  dataBlockCount :: int
  buffersChan :: "BuffersChanType list"
  firstRowChanNum :: int
  chanSepCards :: int
  chanSepColumns :: int
  externalTriggerLastState :: bool
  mixedRowCounts :: bool
  previousLastSampleTime :: go_time

record cringeGlobals =
  Settle :: int
  SequenceLength :: int
  cgLsync :: int
  PropagationDelay :: int
  cgNsamp :: int
  BAD16CardDelay :: int
  cgClockMHz :: int

record LanceroSourceConfig =
  cfgFiberMask :: int
  cfgCardDelay :: "int list"
  ActiveCards :: "int list"
  cfgAutoRestart :: bool
  FirstRow :: int
  cfgChanSepCards :: int
  cfgChanSepColumns :: int

record LanceroDastardOutputJSON =
  outNsamp :: int
  outClockMHz :: int
  AvailableCards :: "int list"
  outLsync :: int
  outSettle :: int
  outSequenceLength :: int
  outPropagationDelay :: int
  outBAD16CardDelay :: int

datatype lancero_error =
    NoGlobals | LanceroNotInactive | BadNsamp int | NoSuchDevice int int | DeviceTwice int int
  | MixOutOfBounds int | MixEvenChannel int
  | ConfigFailed | DriverError | RowsMismatch int int | SampleFailed
  | NegativeSepCards int | NegativeSepColumns int | SepColumnsTooSmall int int | SepCardsTooSmall int int
  | TooManyBytes | NoFrameFound

text \<open>A pointer into the store of devices: reading it, and writing one field through it.\<close>

definition device_of :: "LanceroSource \<Rightarrow> int \<Rightarrow> LanceroDevice go" where
  "device_of ls c = (case map_of (lsDevices ls) c of None \<Rightarrow> Inl NilDereference | Some d \<Rightarrow> Inr d)"

definition store_device :: "LanceroSource \<Rightarrow> int \<Rightarrow> LanceroDevice \<Rightarrow> LanceroSource" where
  "store_device ls c d = ls\<lparr>lsDevices := AList.update c d (lsDevices ls)\<rparr>"

definition active_devices :: "LanceroSource \<Rightarrow> LanceroDevice list go" where
  "active_devices ls = mapM_go (device_of ls) (lsActive ls)"

definition put_go :: "'a list \<Rightarrow> int \<Rightarrow> 'a \<Rightarrow> 'a list go" where
  "put_go xs i x = (if 0 \<le> i \<and> i < int (length xs) then Inr (xs[nat i := x]) else Inl IndexOutOfRange)"

subsection \<open>Configuration\<close>

definition configure_card ::
  "cringeGlobals \<Rightarrow> LanceroSourceConfig \<Rightarrow> LanceroSource \<times> lancero_error option \<Rightarrow> int \<times> int
   \<Rightarrow> LanceroSource \<times> lancero_error option" where
  "configure_card cg config = (\<lambda>(ls, err) (i, c).
     if err \<noteq> None then (ls, err)
     else case map_of (lsDevices ls) c of
       None \<Rightarrow> (ls, Some (NoSuchDevice i c))
     | Some d \<Rightarrow>
         if c \<in> set (lsActive ls) then (ls, Some (DeviceTwice i c))
         else (store_device (ls\<lparr>lsActive := lsActive ls @ [c]\<rparr>) c
            (d\<lparr>cardDelay := (if int (length (cfgCardDelay config)) \<ge> 1 + i then cfgCardDelay config ! nat i else cardDelay d),
               fiberMask := cfgFiberMask config, devClockMHz := cgClockMHz cg, devRows := SequenceLength cg,
               lsync := cgLsync cg\<rparr>), None))"

definition dastard_output :: "cringeGlobals \<Rightarrow> int list \<Rightarrow> LanceroDastardOutputJSON" where
  "dastard_output cg cards = \<lparr>outNsamp = cgNsamp cg, outClockMHz = cgClockMHz cg, AvailableCards = cards,
     outLsync = cgLsync cg, outSettle = Settle cg, outSequenceLength = SequenceLength cg,
     outPropagationDelay = PropagationDelay cg, outBAD16CardDelay = BAD16CardDelay cg\<rparr>"

text \<open>\<open>cg\<close> is what reading the file of globals gives; the output starts empty.\<close>

definition lancero_Configure ::
  "cringeGlobals option \<Rightarrow> LanceroSource \<Rightarrow> LanceroSourceConfig
   \<Rightarrow> LanceroSource \<times> LanceroDastardOutputJSON \<times> lancero_error option" where
  "lancero_Configure globals ls config =
     (let cards = sort (map fst (lsDevices ls));
          out0 = \<lparr>outNsamp = 0, outClockMHz = 0, AvailableCards = cards, outLsync = 0, outSettle = 0,
            outSequenceLength = 0, outPropagationDelay = 0, outBAD16CardDelay = 0\<rparr>
      in case globals of
        None \<Rightarrow> (ls, out0, Some NoGlobals)
      | Some cg \<Rightarrow>
          if sourceState (lsSource ls) \<noteq> Inactive then (ls, out0, Some LanceroNotInactive)
          else if cgNsamp cg > 16 \<or> cgNsamp cg < 1 then (ls, out0, Some (BadNsamp (cgNsamp cg)))
          else let ls1 = ls\<lparr>lsActive := [], lsClockMHz := cgClockMHz cg,
                     lsSource := (lsSource ls)\<lparr>shouldAutoRestart := cfgAutoRestart config\<rparr>,
                     firstRowChanNum := FirstRow config, chanSepColumns := cfgChanSepColumns config,
                     chanSepCards := cfgChanSepCards config\<rparr>;
                   (ls2, err) = foldl (configure_card cg config) (ls1, None)
                     (zip [0..int (length (ActiveCards config)) - 1] (ActiveCards config))
               in (ls2\<lparr>lsNsamp := cgNsamp cg\<rparr>, dastard_output cg cards, err))"

subsection \<open>The order of the channels\<close>

definition card_channels :: "LanceroDevice \<Rightarrow> int" where
  "card_channels d = devCols d * devRows d * 2"

definition order_step :: "LanceroDevice \<Rightarrow> int \<Rightarrow> int list \<Rightarrow> int \<Rightarrow> int list go" where
  "order_step d prev order readIdx =
     bind_go (div_go (quot_int readIdx 2) (devCols d)) (\<lambda>rownum.
       let colnum = rem_int (quot_int readIdx 2) (devCols d);
           channum = rem_int readIdx 2 + rownum * 2 + (colnum * devRows d) * 2
       in put_go order (channum + prev) (readIdx + prev))"

definition order_device :: "int list \<times> int \<Rightarrow> LanceroDevice \<Rightarrow> (int list \<times> int) go" where
  "order_device = (\<lambda>(order, prev) d.
     bind_go (foldM_go (order_step d prev) order [0..card_channels d - 1]) (\<lambda>order1.
       Inr (order1, prev + card_channels d)))"

definition updateChanOrderMap :: "LanceroSource \<Rightarrow> LanceroSource go" where
  "updateChanOrderMap ls =
     bind_go (active_devices ls) (\<lambda>devs.
       let n = sum_list (map card_channels devs) in
       if n < 0 then Inl SliceBounds
       else bind_go (foldM_go order_device (replicate (nat n) 0, 0) devs) (\<lambda>(order, _).
         Inr (ls\<lparr>lsMix := replicate (nat n) \<lparr>errorScale = Fin 0, lastFb = 0\<rparr>, chan2readoutOrder := order\<rparr>)))"

subsection \<open>Sampling a card\<close>

text \<open>What the driver gives: how far the card starts, the first read, and the reads after it.\<close>

datatype card_read = ReadBytes "u8 list" go_time | ReadError

datatype start_result = NoRingBuffer | NoAdapter | NoConfigure | NoCollector | Started

record card_sample =
  starts :: start_result
  firstRead :: card_read
  reads :: "card_read list"

record sample_state =
  ssDevice :: LanceroDevice
  timeFix :: go_time
  ssBuffer :: "u8 list"
  bytesRead :: int
  frameBitsHandled :: bool
  calculatedNrows :: int

definition sample_read :: "sample_state \<Rightarrow> u8 list \<Rightarrow> go_time \<Rightarrow> sample_state" where
  "sample_read st b t =
     (let st1 = st\<lparr>timeFix := t, bytesRead := bytesRead st + int (length b)\<rparr> in
      if frameBitsHandled st1 then st1
      else let buf = ssBuffer st1 @ b;
               (q, p, n, err) = FindFrameBits buf lanceroFBOffset;
               d = (ssDevice st1)\<lparr>devCols := int n\<rparr>
           in if err = None
              then st1\<lparr>ssBuffer := buf, calculatedNrows := quot_int (int p - int q) (int n), frameBitsHandled := True,
                 ssDevice := d\<lparr>frameSize := devCols d * devRows d * 4\<rparr>\<rparr>
              else st1\<lparr>ssBuffer := buf\<rparr>)"

text \<open>The loop of \<open>sampleCard\<close>; \<open>None\<close> when the given reads do not end it.\<close>

fun sample_loop :: "go_time \<Rightarrow> sample_state \<Rightarrow> card_read list \<Rightarrow> (sample_state \<times> lancero_error option) option" where
  "sample_loop t0 st rs =
     (if \<not> timeFix st - t0 < 200000000 then Some (st, None)
      else case rs of
        [] \<Rightarrow> None
      | ReadError # rs \<Rightarrow> Some (st, Some DriverError)
      | ReadBytes b t # rs \<Rightarrow> sample_loop t0 (sample_read st b t) rs)"

definition finish_sample :: "go_time \<Rightarrow> sample_state \<Rightarrow> (LanceroDevice \<times> lancero_error option) go" where
  "finish_sample t0 st =
     (let d = ssDevice st in
      if \<not> frameBitsHandled st then Inr (d, Some SampleFailed)
      else bind_go (div_go (bytesRead st) (frameSize d)) (\<lambda>frames.
        bind_go (div_go (timeFix st - t0) frames) (\<lambda>periodNS.
          Inr (d, if calculatedNrows st \<noteq> devRows d then Some (RowsMismatch (calculatedNrows st) (devRows d)) else None))))"

definition sampleCard :: "LanceroDevice \<Rightarrow> card_sample \<Rightarrow> (LanceroDevice \<times> lancero_error option) go option" where
  "sampleCard d cs =
     (if starts cs \<noteq> Started then Some (Inr (d, Some DriverError))
      else case firstRead cs of
        ReadError \<Rightarrow> Some (Inr (d, Some DriverError))
      | ReadBytes _ t0 \<Rightarrow> map_option (\<lambda>(st, err).
          if err \<noteq> None then Inr (ssDevice st, err) else finish_sample t0 st)
        (sample_loop t0 \<lparr>ssDevice = d, timeFix = t0, ssBuffer = [], bytesRead = 0, frameBitsHandled = False,
           calculatedNrows = 0\<rparr> (reads cs)))"

fun sample_active ::
  "(int \<Rightarrow> card_sample) \<Rightarrow> LanceroSource \<Rightarrow> int list \<Rightarrow> (LanceroSource \<times> lancero_error option) go option" where
  "sample_active cards ls [] = Some (Inr (ls, None))"
| "sample_active cards ls (c # cs) = (case device_of ls c of
     Inl p \<Rightarrow> Some (Inl p)
   | Inr d \<Rightarrow> (case sampleCard d (cards c) of
       None \<Rightarrow> None
     | Some (Inl p) \<Rightarrow> Some (Inl p)
     | Some (Inr (d1, Some err)) \<Rightarrow> Some (Inr (store_device ls c d1, Some err))
     | Some (Inr (d1, None)) \<Rightarrow>
         sample_active cards ((store_device ls c d1)\<lparr>lsSource := (lsSource ls)\<lparr>nchan := nchan (lsSource ls) + card_channels d1,
           srcSampleRate := fdiv r64 (fmul r64 (f64_of_int (devClockMHz d1)) (Fin 1000000))
             (f64_of_int (lsync d1 * devRows d1))\<rparr>\<rparr>) cs))"

definition lancero_volts :: "int \<Rightarrow> int \<Rightarrow> go_float" where
  "lancero_volts ns i =
     (if i mod 2 = 0 then fdiv r32 (Fin 1) (fmul r32 (Fin 4096) (f32_of_int ns)) else r32 (1 / 65535))"

definition lancero_Sample ::
  "(int \<Rightarrow> card_sample) \<Rightarrow> LanceroSource \<Rightarrow> (LanceroSource \<times> lancero_error option) go option" where
  "lancero_Sample cards ls =
     (if configError (lsSource ls) then Some (Inr (ls, Some ConfigFailed))
      else let ls0 = ls\<lparr>dataBlockCount := 0, lsSource := (lsSource ls)\<lparr>nchan := 0\<rparr>\<rparr> in
        map_option (\<lambda>m. bind_go m (\<lambda>(ls1, err).
          if err \<noteq> None then Inr (ls1, err)
          else let src = lsSource ls1;
                   ls2 = ls1\<lparr>lsSource := src\<lparr>samplePeriod := roundint (fdiv r64 (Fin 1000000000) (srcSampleRate src))\<rparr>\<rparr> in
            bind_go (updateChanOrderMap ls2) (\<lambda>ls3.
              Inr (ls3\<lparr>lsSource := (lsSource ls3)\<lparr>srcVoltsPerArb :=
                map (lancero_volts (lsNsamp ls3)) [0..nchan (lsSource ls3) - 1]\<rparr>\<rparr>, None))))
        (sample_active cards ls0 (lsActive ls0)))"

subsection \<open>Naming and numbering the channels\<close>

text \<open>The checks of the separations; a failed one resets the separation of the columns.\<close>

definition check_separations :: "LanceroSource \<Rightarrow> LanceroDevice list \<Rightarrow> LanceroSource \<times> lancero_error option" where
  "check_separations ls devs =
     (let sepCol = chanSepColumns ls; sepCard = chanSepCards ls in
      if sepCard < 0 then (ls, Some (NegativeSepCards sepCard))
      else if sepCol < 0 then (ls, Some (NegativeSepColumns sepCol))
      else case (if sepCol > 0 then find (\<lambda>d. devRows d > sepCol) devs else None) of
        Some d \<Rightarrow> (ls\<lparr>chanSepColumns := 0\<rparr>, Some (SepColumnsTooSmall (devnum d) (devRows d)))
      | None \<Rightarrow>
          (let needs = (\<lambda>d. (if sepCol > 0 then sepCol else devRows d) * devCols d) in
           case (if sepCard > 0 then find (\<lambda>d. needs d > sepCard) devs else None) of
             Some d \<Rightarrow> (ls\<lparr>chanSepColumns := 0\<rparr>, Some (SepCardsTooSmall (devnum d) (needs d)))
           | None \<Rightarrow> (ls, None)))"

record chan_entry =
  ceName :: string
  ceNumber :: int
  ceOffset :: int
  ceCode :: RowColCode

text \<open>
  The two channels of a pixel.  The offset is written for the error channel only; the feedback
  channel keeps the zero of the fresh slice.
\<close>

definition pixel_entries :: "LanceroDevice \<Rightarrow> int \<Rightarrow> int \<Rightarrow> int \<Rightarrow> chan_entry list" where
  "pixel_entries d col first row =
     (let cnum = first + row; code = rcCode row col (devRows d) (devCols d) in
      [\<lparr>ceName = ''err'' @ fmt_d cnum, ceNumber = cnum, ceOffset = row, ceCode = code\<rparr>,
       \<lparr>ceName = ''chan'' @ fmt_d cnum, ceNumber = cnum, ceOffset = 0, ceCode = code\<rparr>])"

record numbering =
  nmCnum :: int
  nmFirst :: int
  nmGroups :: "GroupIndex list"
  nmEntries :: "chan_entry list"

definition number_column :: "int \<Rightarrow> LanceroDevice \<Rightarrow> numbering \<Rightarrow> int \<Rightarrow> numbering" where
  "number_column sepCol d nm col =
     (let cnum = (if sepCol > 0 then nmFirst nm + sepCol else nmCnum nm) in
      \<lparr>nmCnum = cnum + max 0 (devRows d), nmFirst = cnum,
       nmGroups = nmGroups nm @ [\<lparr>Firstchan = cnum, Nchan = devRows d\<rparr>],
       nmEntries = nmEntries nm @ concat (map (pixel_entries d col cnum) [0..devRows d - 1])\<rparr>)"

definition number_device :: "int \<Rightarrow> int \<Rightarrow> int \<Rightarrow> numbering \<Rightarrow> LanceroDevice \<Rightarrow> numbering" where
  "number_device sepCol sepCard firstRow nm d =
     (let nm1 = (if sepCard > 0 then
                   let cnum = devnum d * sepCard + firstRow in nm\<lparr>nmCnum := cnum, nmFirst := cnum - sepCol\<rparr>
                 else nm)
      in foldl (number_column sepCol d) nm1 [0..devCols d - 1])"

definition count_rows :: "int \<times> bool \<Rightarrow> LanceroDevice \<Rightarrow> int \<times> bool" where
  "count_rows = (\<lambda>(divs, mixed) d.
     if divs = 0 then (devRows d, mixed) else if divs \<noteq> devRows d then (divs, True) else (divs, mixed))"

definition lancero_PrepareChannels :: "LanceroSource \<Rightarrow> (LanceroSource \<times> lancero_error option) go" where
  "lancero_PrepareChannels ls0 =
     (let ls = ls0\<lparr>lsSource := (lsSource ls0)\<lparr>channelsPerPixel := 2\<rparr>\<rparr> in
      bind_go (active_devices ls) (\<lambda>devs.
        let (ls1, err) = check_separations ls devs in
        if err \<noteq> None then Inr (ls1, err)
        else let src = lsSource ls1; n = nchan src; first = firstRowChanNum ls1; sepCol = chanSepColumns ls1;
                 nm = foldl (number_device sepCol (chanSepCards ls1) first)
                   \<lparr>nmCnum = first, nmFirst = first - sepCol, nmGroups = [], nmEntries = []\<rparr> devs;
                 entries = nmEntries nm;
                 (divs, mixed) = foldl count_rows (subframeDivisions src, mixedRowCounts ls1) devs;
                 rest = nat n - length entries
             in if n < 0 then Inl SliceBounds
                else if int (length entries) > n then Inl IndexOutOfRange
                else Inr (ls1\<lparr>mixedRowCounts := mixed, lsSource := src\<lparr>
                  rowColCodes := map ceCode entries @ replicate rest 0,
                  chanNames := map ceName entries @ replicate rest [],
                  chanNumbers := map ceNumber entries @ replicate rest 0,
                  subframeOffsets := map ceOffset entries @ replicate rest 0,
                  groupKeysSorted := nmGroups nm, subframeDivisions := divs\<rparr>\<rparr>, None)))"

subsection \<open>Starting a run\<close>

definition ring_buffer_size :: "int \<Rightarrow> int \<times> int" where
  "ring_buffer_size frame_size =
     (let thresh = 16384 * frame_size; bufsize = 4 * thresh; hard_max = 40 * 2 ^ 20 in
      if bufsize > hard_max then (hard_max, quot_int hard_max 4) else (bufsize, thresh))"

text \<open>
  The search for the first frame of a card: at most 100 reads and a million bytes.  The result is
  the number of bytes released, or an error; \<open>None\<close> when the given reads do not end it.
\<close>

fun align_loop :: "nat \<Rightarrow> int \<Rightarrow> card_read list \<Rightarrow> (int + lancero_error) option" where
  "align_loop 0 got rs = Some (Inr NoFrameFound)"
| "align_loop (Suc k) got rs =
     (if got \<ge> 1000000 then Some (Inr TooManyBytes)
      else case rs of
        [] \<Rightarrow> None
      | ReadError # rs \<Rightarrow> Some (Inr DriverError)
      | ReadBytes b t # rs \<Rightarrow>
          if b = [] then align_loop k got rs
          else (case FindFrameBits b lanceroFBOffset of
            (q, p, n, None) \<Rightarrow> Some (Inl (if q > 0 then 4 * int q else 0))
          | (q, p, n, Some err) \<Rightarrow> align_loop k (got + int (length b)) rs))"

definition start_card :: "LanceroDevice \<Rightarrow> card_sample \<Rightarrow> (LanceroDevice \<times> int \<times> lancero_error option) option" where
  "start_card d cs =
     (let d1 = (if frameSize d \<le> 0 then d\<lparr>frameSize := 128\<rparr> else d) in
      if starts cs \<noteq> Started
      then Some (d1\<lparr>adapRunning := (starts cs = NoConfigure \<or> starts cs = NoCollector \<or> adapRunning d1)\<rparr>, 0, Some DriverError)
      else let d2 = d1\<lparr>adapRunning := True, collRunning := True\<rparr> in
        (case align_loop 100 0 (reads cs) of
           None \<Rightarrow> None
         | Some (Inl released) \<Rightarrow> Some (d2, released, None)
         | Some (Inr err) \<Rightarrow> Some (d2, 0, Some err)))"

text \<open>\<open>StartRun\<close>: the cards one after the other, then the reader with an empty channel of buffers.\<close>

fun start_active ::
  "(int \<Rightarrow> card_sample) \<Rightarrow> LanceroSource \<Rightarrow> int list \<Rightarrow> (LanceroSource \<times> lancero_error option) go option" where
  "start_active cards ls [] = Some (Inr (ls, None))"
| "start_active cards ls (c # cs) = (case device_of ls c of
     Inl p \<Rightarrow> Some (Inl p)
   | Inr d \<Rightarrow> (case start_card d (cards c) of
       None \<Rightarrow> None
     | Some (d1, _, Some err) \<Rightarrow> Some (Inr (store_device ls c d1, Some err))
     | Some (d1, _, None) \<Rightarrow> start_active cards (store_device ls c d1) cs))"

definition lancero_StartRun ::
  "(int \<Rightarrow> card_sample) \<Rightarrow> LanceroSource \<Rightarrow> (LanceroSource \<times> lancero_error option) go option" where
  "lancero_StartRun cards ls = map_option (\<lambda>m. bind_go m (\<lambda>(ls1, err).
     Inr (if err \<noteq> None then (ls1, err) else (ls1\<lparr>buffersChan := []\<rparr>, None)))) (start_active cards ls (lsActive ls))"

definition lancero_stop_device :: "LanceroDevice \<Rightarrow> LanceroDevice" where
  "lancero_stop_device d = d\<lparr>collRunning := False, adapRunning := False\<rparr>"

definition lancero_stop :: "LanceroSource \<Rightarrow> LanceroSource go" where
  "lancero_stop ls = foldM_go (\<lambda>ls c. bind_go (device_of ls c) (\<lambda>d.
     Inr (store_device ls c (lancero_stop_device d)))) ls (lsActive ls)"

subsection \<open>The reader\<close>

text \<open>
  One tick of the goroutine of \<open>launchLanceroReader\<close>: the bytes released to the driver and the message
  for the channel of buffers, if any.
\<close>

definition demux_channel :: "raw list \<Rightarrow> int \<Rightarrow> int \<Rightarrow> int \<Rightarrow> raw list go" where
  "demux_channel buffer n frames i = mapM_go (\<lambda>j. idx buffer (i + j * n)) [0..frames - 1]"

definition demux :: "raw list \<Rightarrow> int \<Rightarrow> int \<Rightarrow> int \<Rightarrow> int \<Rightarrow> raw list list go" where
  "demux buffer n nproc nall frames =
     (if nall < 0 then Inl SliceBounds
      else if nproc > nall \<or> n > nproc then Inl IndexOutOfRange
      else bind_go (mapM_go (demux_channel buffer n frames) [0..n - 1]) (\<lambda>chans.
        Inr (chans @ replicate (nat nproc - length chans) (replicate (nat frames) 0)
          @ replicate (nat (nall - nproc)) [])))"

text \<open>The part of the buffer that is used when it does not begin with a frame.\<close>

definition align_buffer ::
  "LanceroSource \<Rightarrow> LanceroDevice \<Rightarrow> u8 list \<Rightarrow> go_time \<Rightarrow> int \<Rightarrow> (int \<times> u8 list \<times> go_time \<times> bool) go" where
  "align_buffer ls d b t firstWord =
     (if firstWord = devCols d * devRows d then Inr (0, b, t, False)
      else let dropFromStart = firstWord * 4; dropFromEnd = frameSize d - dropFromStart in
        if firstWord = 0 then Inl (ExplicitPanic ''not sure what to do here, but it wont self fix'')
        else if dropFromEnd \<le> 0 then Inl (ExplicitPanic ''expect dropFromEnd>0'')
        else bind_go (slice_go b dropFromStart (int (length b) - dropFromEnd)) (\<lambda>b1.
          let fraction = fdiv r64 (f64_of_int dropFromEnd) (f64_of_int (frameSize d)) in
          Inr (dropFromStart, b1, t + (- samplePeriod (lsSource ls)) * int_of_f64 fraction, True)))"

definition read_frames ::
  "LanceroSource \<Rightarrow> LanceroDevice \<Rightarrow> u8 list \<Rightarrow> go_time \<Rightarrow> int \<Rightarrow> (LanceroSource \<times> int) go" where
  "read_frames ls d b t firstWord =
     bind_go (align_buffer ls d b t firstWord) (\<lambda>(dropped, b1, t1, drop).
     bind_go (div_go (int (length b1)) (frameSize d)) (\<lambda>frames.
       if frames = 0 then Inl (ExplicitPanic ''should not get here'')
       else bind_go (demux (bytesToRawType b1) (card_channels d) (int (length (processors (lsSource ls))))
           (nchan (lsSource ls)) frames) (\<lambda>datacopies.
         let release = frames * frameSize d;
             msg = \<lparr>datacopies = datacopies, lastSampleTime = t1, timeDiff = t1 - lastread (lsSource ls),
                    totalBytes = release, dataDropDetected = drop\<rparr>
         in if length (buffersChan ls) = 100 then Inl (ExplicitPanic ''internal buffersChan full'')
            else Inr (ls\<lparr>lsSource := (lsSource ls)\<lparr>lastread := t1\<rparr>, buffersChan := buffersChan ls @ [msg]\<rparr>,
              dropped + release))))"

definition lancero_read ::
  "LanceroSource \<Rightarrow> go_duration \<Rightarrow> u8 list \<Rightarrow> go_time \<Rightarrow> (LanceroSource \<times> int) go" where
  "lancero_read ls sinceSuccess b t =
     (if sinceSuccess > 10000000000 then Inl (ExplicitPanic ''too long since last succesful read'')
      else if length (lsActive ls) > 1 then Inl (ExplicitPanic ''Handling multiple devices not yet implemented'')
      else bind_go (idx (lsActive ls) 0) (\<lambda>c. bind_go (device_of ls c) (\<lambda>d.
        if int (length b) < 3 * frameSize d then Inr (ls, 0)
        else let (q, p, ncols, err) = FindFrameBits b lanceroFBOffset in
          bind_go (div_go (int p - int q) (int ncols)) (\<lambda>nrows.
            if int ncols \<noteq> devCols d \<or> nrows \<noteq> devRows d \<or> err \<noteq> None then Inr (ls, int (length b))
            else read_frames ls d b t (int q)))))"

subsection \<open>Distributing a block\<close>

definition trigger_bit :: "raw \<Rightarrow> bool" where "trigger_bit v = (v AND 2 = 2)"

definition scan_step ::
  "raw list list \<Rightarrow> bool \<Rightarrow> frame_index \<Rightarrow> int \<Rightarrow> int list \<times> bool \<Rightarrow> int \<times> int \<Rightarrow> (int list \<times> bool) go" where
  "scan_step copies mixed next nrows = (\<lambda>(found, prev) (frame, row).
     bind_go (idx copies (row * 2 + 1)) (\<lambda>c. bind_go (idx c frame) (\<lambda>v.
       let s = trigger_bit v in
       if s \<and> \<not> prev
       then if mixed then Inl (ExplicitPanic ''We cannot accurately time external triggers'')
            else Inr (found @ [(frame + next) * nrows + row], s)
       else Inr (found, s))))"

definition scan_triggers ::
  "raw list list \<Rightarrow> bool \<Rightarrow> frame_index \<Rightarrow> int \<Rightarrow> int \<Rightarrow> bool \<Rightarrow> (int list \<times> bool) go" where
  "scan_triggers copies mixed next nrows frames prev =
     foldM_go (scan_step copies mixed next nrows) ([], prev) (List.product [0..frames - 1] [0..nrows - 1])"

record segment_header =
  shPeriod :: go_duration
  shFirst :: frame_index
  shTime :: go_time
  shDropped :: int

text \<open>
  One channel.  Mixing changes the feedback samples in the reader's buffer, which the segment shares.
\<close>

definition distribute_channel ::
  "int list \<Rightarrow> segment_header \<Rightarrow> Mix list \<times> raw list list \<times> data_segment list \<Rightarrow> int
   \<Rightarrow> (Mix list \<times> raw list list \<times> data_segment list) go" where
  "distribute_channel order h = (\<lambda>(mixes, copies, segs) ch.
     bind_go (idx order ch) (\<lambda>r. bind_go (idx copies r) (\<lambda>data.
     let feedback = (rem_int ch 2 = 1) in
     bind_go (if feedback
              then bind_go (idx mixes ch) (\<lambda>m. bind_go (idx order (ch - 1)) (\<lambda>r1. bind_go (idx copies r1) (\<lambda>errs.
                bind_go (MixRetardFb m data errs) (\<lambda>(m1, data1).
                  Inr (mixes[nat ch := m1], copies[nat r := data1], data1)))))
              else Inr (mixes, copies, data)) (\<lambda>(mixes1, copies1, data1).
       Inr (mixes1, copies1, segs @ [\<lparr>rawData = data1, signedData = \<not> feedback, framesPerSample = 1,
         firstFrameIndex = shFirst h, firstTime = shTime h, framePeriod = shPeriod h, voltsPerArb = Fin 0,
         processed = False, droppedFrames = shDropped h\<rparr>])))))"

definition dropped_frames :: "LanceroSource \<Rightarrow> BuffersChanType \<Rightarrow> int" where
  "dropped_frames ls msg =
     (if dataDropDetected msg
      then roundint (fmul r64 (duration_seconds (lastSampleTime msg - previousLastSampleTime ls))
        (srcSampleRate (lsSource ls)))
      else 0)"

definition distributeData :: "LanceroSource \<Rightarrow> BuffersChanType \<Rightarrow> (LanceroSource \<times> dataBlock) go" where
  "distributeData ls msg =
     bind_go (idx (datacopies msg) 0) (\<lambda>first.
     let src = lsSource ls;
         frames = int (length first);
         segDuration = roundint (fdiv r64 (fmul r64 (Fin 1000000000) (f64_of_int (frames - 1))) (srcSampleRate src));
         dropped = dropped_frames ls msg;
         h = \<lparr>shPeriod = samplePeriod src, shFirst = nextFrameNum src + dropped,
              shTime = lastSampleTime msg - segDuration, shDropped = dropped\<rparr>
     in bind_go (device_of ls 0) (\<lambda>d0.
        bind_go (scan_triggers (datacopies msg) (mixedRowCounts ls) (nextFrameNum src) (devRows d0) frames
          (externalTriggerLastState ls)) (\<lambda>(trigs, bit).
        bind_go (foldM_go (distribute_channel (chan2readoutOrder ls) h) (lsMix ls, datacopies msg, [])
          [0..int (length (datacopies msg)) - 1]) (\<lambda>(mixes, copies, segs).
          Inr (ls\<lparr>lsMix := mixes, externalTriggerLastState := bit, previousLastSampleTime := lastSampleTime msg,
                 lsSource := src\<lparr>nextFrameNum := nextFrameNum src + frames\<rparr>\<rparr>,
               \<lparr>segments = segs, externalTriggerRowcounts = trigs,
                blockNSamp = (if segs = [] then 0 else int (length (rawData (last segs)))), blockErr = False\<rparr>)))))"

subsection \<open>Mix requests and the next block\<close>

definition check_mix :: "LanceroSource \<Rightarrow> int list \<Rightarrow> lancero_error option" where
  "check_mix ls chans =
     (case find (\<lambda>i. i \<ge> int (length (lsMix ls)) \<or> i < 0 \<or> i mod 2 = 0) chans of
        None \<Rightarrow> None
      | Some i \<Rightarrow> Some (if i \<ge> int (length (lsMix ls)) \<or> i < 0 then MixOutOfBounds i else MixEvenChannel i))"

definition set_mix :: "int \<Rightarrow> go_float list \<Rightarrow> Mix list \<Rightarrow> int \<times> int \<Rightarrow> Mix list go" where
  "set_mix ns fractions mixes = (\<lambda>(i, index).
     bind_go (idx fractions i) (\<lambda>f. bind_go (idx mixes index) (\<lambda>m.
       Inr (mixes[nat index := m\<lparr>errorScale := fdiv r64 f (f64_of_int ns)\<rparr>]))))"

definition apply_mix_request ::
  "LanceroSource \<Rightarrow> int list \<Rightarrow> go_float list \<Rightarrow> (LanceroSource \<times> go_float list) go" where
  "apply_mix_request ls chans fractions =
     bind_go (foldM_go (set_mix (lsNsamp ls) fractions) (lsMix ls) (zip [0..int (length chans) - 1] chans)) (\<lambda>mixes.
       Inr (ls\<lparr>lsMix := mixes\<rparr>, map (\<lambda>m. fmul r64 (errorScale m) (f64_of_int (lsNsamp ls))) mixes))"

text \<open>The request goes through a channel to \<open>getNextBlock\<close>, which answers with the current fractions.\<close>

definition ConfigureMixFraction ::
  "LanceroSource \<Rightarrow> int list \<Rightarrow> go_float list \<Rightarrow> (LanceroSource \<times> (lancero_error + go_float list)) go" where
  "ConfigureMixFraction ls chans fractions = (case check_mix ls chans of
     Some err \<Rightarrow> Inr (ls, Inl err)
   | None \<Rightarrow> bind_go (apply_mix_request ls chans fractions) (\<lambda>(ls1, current). Inr (ls1, Inr current)))"

text \<open>
  Taking the next message of the reader.  An empty queue stands for the closed channel, which ends the
  run; an open empty channel is waited for.
\<close>

definition take_block :: "LanceroSource \<Rightarrow> (LanceroSource \<times> dataBlock option) go" where
  "take_block ls = (case buffersChan ls of
     [] \<Rightarrow> bind_go (lancero_stop ls) (\<lambda>ls1. Inr (ls1, None))
   | msg # rest \<Rightarrow> bind_go (distributeData (ls\<lparr>buffersChan := rest\<rparr>) msg) (\<lambda>(ls1, block).
       Inr (ls1\<lparr>dataBlockCount := dataBlockCount ls1 + 1\<rparr>, Some block)))"

subsection \<open>Coupling of error and feedback\<close>

definition pair_starts :: "int \<Rightarrow> int list" where
  "pair_starts n = filter (\<lambda>i. i mod 2 = 0) [0..n - 1]"

definition couple_pairs :: "bool \<Rightarrow> bool \<Rightarrow> int \<Rightarrow> TriggerBroker \<Rightarrow> TriggerBroker" where
  "couple_pairs turnon err_to_fb n b =
     foldl (\<lambda>b i. let (s, r) = (if err_to_fb then (i, i + 1) else (i + 1, i)) in
       fst (if turnon then AddConnection b s r else DeleteConnection b s r)) b (pair_starts n)"

definition lancero_SetCoupling :: "LanceroSource \<Rightarrow> CouplingStatus \<Rightarrow> LanceroSource go" where
  "lancero_SetCoupling ls status = (case broker (lsSource ls) of
     None \<Rightarrow> if nchan (lsSource ls) > 0 then Inl NilDereference else Inr ls
   | Some b \<Rightarrow>
       (let n = nchan (lsSource ls);
            b1 = couple_pairs (status = ErrToFB) True n b;
            b2 = couple_pairs (status = FBToErr) False n b1
        in Inr (ls\<lparr>lsSource := (lsSource ls)\<lparr>broker := Some b2\<rparr>\<rparr>)))"

end
