(* ===== verification/LanceroLaws.thy ===== *)
theory LanceroLaws
  imports Lancero SourceLaws
begin

text \<open>
  What the TDM source guarantees: the search for frame bits finds the frames, the reader cuts whole
  frames and stays aligned with them, the channels are a permutation of the readout, their numbers
  are unique, and what a block carries of each channel.
\<close>

subsection \<open>Frame bits of regular data\<close>

text \<open>
  Data of frames of \<open>F\<close> words whose first \<open>C\<close> words carry the frame bit; the buffer begins at word
  \<open>ph\<close> of a frame.
\<close>

definition framed :: "nat \<Rightarrow> nat \<Rightarrow> nat \<Rightarrow> u8 list \<Rightarrow> bool" where
  "framed F C ph b \<longleftrightarrow> 4 dvd length b
     \<and> (\<forall>w < length b div 4. frame_bit (b ! (4 * w + 2)) \<longleftrightarrow> (w + ph) mod F < C)"

abbreviation word_bit :: "u8 list \<Rightarrow> nat \<Rightarrow> bool" where
  "word_bit b w \<equiv> frame_bit (b ! (4 * w + 2))"

lemma word_in: "4 dvd length (b :: u8 list) \<Longrightarrow> w < length b div 4 \<Longrightarrow> 4 * w + 2 < length b"
  by (elim dvdE) simp

lemma q_loop_skip:
  assumes "\<forall>j<k. 4 * (w + j) + 2 < length b \<and> word_bit b (w + j) = (\<not> seen)"
  shows "q_loop b (4 * w + 2) seen False = q_loop b (4 * (w + k) + 2) seen False"
  using assms
proof (induction k)
  case (Suc k)
  then have "4 * (w + k) + 2 < length b" "word_bit b (w + k) = (\<not> seen)" by simp_all
  then have "q_loop b (4 * (w + k) + 2) seen False = q_loop b (4 * (w + k) + 2 + 4) seen False"
    by (subst q_loop.simps) (cases seen; simp)
  then show ?case using Suc by (simp add: algebra_simps)
qed simp

lemma n_loop_count:
  assumes "\<forall>j<k. 4 * (w + j) + 2 < length b \<and> word_bit b (w + j)"
    and "4 * (w + k) + 2 < length b \<Longrightarrow> \<not> word_bit b (w + k)"
  shows "n_loop b (4 * w + 2) = k"
  using assms
proof (induction k arbitrary: w)
  case 0
  then show ?case by (subst n_loop.simps) auto
next
  case (Suc k)
  have "\<forall>j<k. 4 * (Suc w + j) + 2 < length b \<and> word_bit b (Suc w + j)"
    using Suc.prems(1) by (metis Suc_less_eq add_Suc_shift)
  then have "n_loop b (4 * Suc w + 2) = k" using Suc.prems(2) by (intro Suc.IH) simp_all
  moreover have "4 * w + 2 < length b" "word_bit b w" using Suc.prems(1) by (metis add.right_neutral zero_less_Suc)+
  ultimately show ?case by (subst n_loop.simps) (simp add: algebra_simps)
qed

lemma p_loop_skip:
  assumes "\<forall>j<k. 4 * (w + j) + 2 < length b \<and> \<not> word_bit b (w + j)"
  shows "p_loop b (4 * w + 2) False = p_loop b (4 * (w + k) + 2) False"
  using assms
proof (induction k)
  case (Suc k)
  then have "4 * (w + k) + 2 < length b" "\<not> word_bit b (w + k)" by simp_all
  then have "p_loop b (4 * (w + k) + 2) False = p_loop b (4 * (w + k) + 2 + 4) False"
    by (subst p_loop.simps) simp
  then show ?case using Suc by (simp add: algebra_simps)
qed simp

text \<open>The bits of the words of such data.\<close>

lemma framed_bit:
  assumes "framed F C ph b" "w < length b div 4"
  shows "4 * w + 2 < length b" "word_bit b w \<longleftrightarrow> (w + ph) mod F < C"
  using assms word_in [of b w] by (auto simp: framed_def)

lemma framed_in_frame:
  assumes "framed F C ph b" "w < length b div 4" "w + ph = m * F + r" "r < F"
  shows "4 * w + 2 < length b \<and> word_bit b w = (r < C)"
  using framed_bit [OF assms(1,2)] assms(3,4) by simp

lemma q_loop_framed:
  assumes "framed F C ph b" "0 < C" "C < F" "ph < F" "F - ph < length b div 4"
  shows "q_loop b 2 False False = 4 * (F - ph) + 2"
proof -
  have found: "q_loop b (4 * (F - ph) + 2) True False = 4 * (F - ph) + 2"
    using framed_in_frame [OF assms(1,5), of 1 0] assms(2-4) by (subst q_loop.simps) simp
  have seen: "q_loop b (4 * w + 2) False False = 4 * (F - ph) + 2"
    if w: "w < F - ph" "C \<le> w + ph" for w
  proof -
    have "4 * w + 2 < length b \<and> word_bit b w = False"
      using framed_in_frame [OF assms(1), of w 0 "w + ph"] w assms(5) by simp
    then have "q_loop b (4 * w + 2) False False = q_loop b (4 * Suc w + 2) True False"
      by (subst q_loop.simps) simp
    also have "\<dots> = q_loop b (4 * (Suc w + (F - ph - Suc w)) + 2) True False"
    proof (rule q_loop_skip, intro allI impI)
      fix j assume "j < F - ph - Suc w"
      then show "4 * (Suc w + j) + 2 < length b \<and> word_bit b (Suc w + j) = (\<not> True)"
        using framed_in_frame [OF assms(1), of "Suc w + j" 0 "Suc w + j + ph"] w assms(5) by simp
    qed
    also have "Suc w + (F - ph - Suc w) = F - ph" using w(1) by simp
    finally show ?thesis using found by simp
  qed
  show ?thesis
  proof (cases "ph < C")
    case True
    have "q_loop b (4 * 0 + 2) False False = q_loop b (4 * (0 + (C - ph)) + 2) False False"
    proof (rule q_loop_skip, intro allI impI)
      fix j assume "j < C - ph"
      then show "4 * (0 + j) + 2 < length b \<and> word_bit b (0 + j) = (\<not> False)"
        using framed_in_frame [OF assms(1), of j 0 "j + ph"] True assms(3-5) by simp
    qed
    then show ?thesis using seen [of "C - ph"] True assms(3) by (simp add: numeral_2_eq_2)
  next
    case False
    then show ?thesis using seen [of 0] assms(4) by (simp add: numeral_2_eq_2)
  qed
qed

lemma frame_bits_found:
  assumes "framed F C ph b" "0 < C" "C < F" "ph < F" "2 * F - ph < length b div 4"
  shows "FindFrameBits b lanceroFBOffset = (F - ph, 2 * F - ph, C, None)"
proof -
  have q: "q_loop b 2 False False = 4 * (F - ph) + 2"
    using q_loop_framed [OF assms(1-4)] assms(4,5) by simp
  have n: "n_loop b (4 * (F - ph) + 2) = C"
  proof (rule n_loop_count)
    show "\<forall>j<C. 4 * (F - ph + j) + 2 < length b \<and> word_bit b (F - ph + j)"
    proof (intro allI impI)
      fix j assume "j < C"
      then show "4 * (F - ph + j) + 2 < length b \<and> word_bit b (F - ph + j)"
        using framed_in_frame [OF assms(1), of "F - ph + j" 1 j] assms(3-5) by simp
    qed
    show "\<not> word_bit b (F - ph + C)"
      using framed_in_frame [OF assms(1), of "F - ph + C" 1 C] assms(3-5) by simp
  qed
  have off: "4 * (F - ph) + 2 + 4 * C = 4 * (F - ph + C) + 2" by (simp add: algebra_simps)
  have "p_loop b (4 * (F - ph + C) + 2) True = p_loop b (4 * Suc (F - ph + C) + 2) False"
    using framed_in_frame [OF assms(1), of "F - ph + C" 1 C] assms(3-5) by (subst p_loop.simps) simp
  also have "\<dots> = p_loop b (4 * (Suc (F - ph + C) + (F - Suc C)) + 2) False"
  proof (rule p_loop_skip, intro allI impI)
    fix j assume "j < F - Suc C"
    then show "4 * (Suc (F - ph + C) + j) + 2 < length b \<and> \<not> word_bit b (Suc (F - ph + C) + j)"
      using framed_in_frame [OF assms(1), of "Suc (F - ph + C) + j" 1 "Suc C + j"] assms(3-5) by simp
  qed
  also have "Suc (F - ph + C) + (F - Suc C) = 2 * F - ph" using assms(3,4) by simp
  also have "p_loop b (4 * (2 * F - ph) + 2) False = Some (4 * (2 * F - ph) + 2)"
    using framed_in_frame [OF assms(1), of "2 * F - ph" 2 0] assms(2-5) by (subst p_loop.simps) simp
  finally have p: "p_loop b (4 * (F - ph) + 2 + 4 * C) True = Some (4 * (2 * F - ph) + 2)" by (simp only: off)
  have "(4 * x + 2) div 4 = (x :: nat)" for x by simp
  then show ?thesis using q n p assms(2) by (simp add: FindFrameBits_def lanceroFBOffset_def Let_def)
qed

text \<open>
  On data of whole frames the search for frame bits finds the next two starts of a frame, whatever
  word of a frame the buffer begins with, and the number of columns: the distance of the starts is the
  number of words of a frame.
\<close>

theorem find_frame_bits_exact:
  assumes "framed F C ph b" "0 < C" "C < F" "ph < F" "2 * F - ph < length b div 4"
  shows "FindFrameBits b lanceroFBOffset = (F - ph, 2 * F - ph, C, None)"
  using assms by (rule frame_bits_found)

subsection \<open>The reader\<close>

lemma raw_length: "length (bytesToRawType b) = length b div 2"
  by (simp add: bytesToRawType_def)

lemma raw_nth: "k < length b div 2 \<Longrightarrow> bytesToRawType b ! k = dec_u16 (take 2 (drop (2 * k) b))"
  by (auto simp: bytesToRawType_def)

lemma raw_of_slice:
  assumes "k < m div 2" "2 * s + m \<le> length b"
  shows "bytesToRawType (take m (drop (2 * s) b)) ! k = bytesToRawType b ! (s + k)"
proof -
  have "take 2 (drop (2 * k) (take m (drop (2 * s) b))) = take 2 (drop (2 * (s + k)) b)"
    using assms by (simp add: drop_take take_take min_def algebra_simps)
  moreover have "k < length (take m (drop (2 * s) b)) div 2" "s + k < length b div 2" using assms by auto
  ultimately show ?thesis by (simp only: raw_nth)
qed

lemma demux_channel_nth:
  assumes "i + n * frames \<le> length buf + i" "i < n" "n * frames \<le> length buf"
  shows "demux_channel buf (int n) (int frames) (int i) = Inr (map (\<lambda>j. buf ! (i + j * n)) [0..<frames])"
proof -
  have "idx buf (int i + int j * int n) = Inr (buf ! (i + j * n))" if "j < frames" for j
  proof -
    have "i + j * n < n * frames"
    proof -
      have "i + j * n < n + j * n" using assms(2) by simp
      also have "\<dots> = Suc j * n" by simp
      also have "\<dots> \<le> frames * n" using that by (intro mult_le_mono1) simp
      finally show ?thesis by (simp add: mult.commute)
    qed
    then have "i + j * n < length buf" using assms(3) by simp
    moreover have "int i + int j * int n = int (i + j * n)" by simp
    ultimately show ?thesis by (simp only: idx_of_nat)
  qed
  then have "mapM_go (\<lambda>j. idx buf (int i + j * int n)) (map int [0..<frames])
      = Inr (map (\<lambda>j. buf ! (i + nat j * n)) (map int [0..<frames]))"
    by (intro mapM_go_pure) auto
  then show ?thesis by (simp add: demux_channel_def upto_int o_def)
qed

lemma demux_nth:
  assumes "n * frames \<le> length buf" "n \<le> N"
  shows "\<exists>copies. demux buf (int n) (int N) (int N) (int frames) = Inr copies \<and> length copies = N
    \<and> (\<forall>i<n. copies ! i = map (\<lambda>j. buf ! (i + j * n)) [0..<frames])"
proof -
  have "mapM_go (demux_channel buf (int n) (int frames)) (map int [0..<n])
      = Inr (map (\<lambda>i. map (\<lambda>j. buf ! (nat i + j * n)) [0..<frames]) (map int [0..<n]))"
    using demux_channel_nth [OF _ _ assms(1)] assms(1) by (intro mapM_go_pure) auto
  then have "demux buf (int n) (int N) (int N) (int frames) = Inr (map (\<lambda>i. map (\<lambda>j. buf ! (i + j * n)) [0..<frames]) [0..<n]
      @ replicate (N - n) (replicate frames 0))"
    using assms(2) by (simp add: demux_def upto_int o_def)
  then show ?thesis using assms(2) by (auto simp: nth_append)
qed

text \<open>
  C28: The reader keeps whole frames.  When a buffer begins inside a frame, the reader notices it, skips to
  the next frame, drops the incomplete frame at the end, and sorts the samples of every whole frame by
  their place in the readout.  The bytes it releases end at the end of a frame, so the next buffer
  begins with a frame again.
\<close>

theorem reader_stays_aligned:
  assumes "lsActive ls = [c]" "device_of ls c = Inr d" "devCols d = int C" "devRows d = int R" "0 < C" "2 \<le> R"
    and "frameSize d = 4 * int F" "F = C * R" "nchan (lsSource ls) = int N" "length (processors (lsSource ls)) = N" "2 * F \<le> N"
    and "framed F C ph b" "ph < F" "12 * F \<le> length b" "since \<le> 10000000000" "length (buffersChan ls) < 100"
    and "start = (if ph = 0 then 0 else 4 * (F - ph))"
    and "frames = (length b - (if ph = 0 then 0 else 4 * F)) div (4 * F)"
  shows "\<exists>ls' msg. lancero_read ls since b t = Inr (ls', int (start + 4 * F * frames))
    \<and> buffersChan ls' = buffersChan ls @ [msg] \<and> dataDropDetected msg = (ph \<noteq> 0)
    \<and> length (datacopies msg) = N \<and> 0 < frames
    \<and> (\<forall>i<2 * F. \<forall>j<frames. length (datacopies msg ! i) = frames
        \<and> datacopies msg ! i ! j = bytesToRawType b ! (start div 2 + 2 * F * j + i))
    \<and> (ph + (start + 4 * F * frames) div 4) mod F = 0"
proof -
  have F: "0 < F" "C < F" using assms(5,6,8) by simp_all
  have dvd: "4 dvd length b" using assms(12) by (simp add: framed_def)
  have words: "3 * F \<le> length b div 4" using assms(14) by simp
  have "FindFrameBits b lanceroFBOffset = (F - ph, 2 * F - ph, C, None)"
    using frame_bits_found [OF assms(12,5) F(2) assms(13)] words F by simp
  moreover have "quot_int (int (2 * F - ph) - int (F - ph)) (int C) = int R"
    using assms(5,8,13) F by (simp add: of_nat_diff)
  moreover have "\<not> int (length b) < 3 * frameSize d" using assms(7,14) by simp
  ultimately have read: "lancero_read ls since b t = read_frames ls d b t (int (F - ph))"
    using assms(1-6,15) by (simp add: lancero_read_def div_go_def)
  define m where "m = 4 * F * frames"
  have fr: "0 < frames" "start + (if ph = 0 then 0 else 4 * ph) + m \<le> length b"
  proof -
    show "0 < frames" using assms(14,18) F by (auto simp: div_greater_zero_iff)
    have "m \<le> length b - (if ph = 0 then 0 else 4 * F)"
      unfolding m_def assms(18) by (metis div_times_less_eq_dividend mult.commute)
    then show "start + (if ph = 0 then 0 else 4 * ph) + m \<le> length b" using assms(13,14,17) by (auto split: if_splits)
  qed
  define b1 where "b1 = take (length b - (if ph = 0 then 0 else 4 * F)) (drop start b)"
  have len1: "length b1 = length b - (if ph = 0 then 0 else 4 * F)"
    using assms(13,14,17) by (auto simp: b1_def)
  have align: "\<exists>t1. align_buffer ls d b t (int (F - ph)) = Inr (int start, b1, t1, ph \<noteq> 0)"
  proof (cases "ph = 0")
    case True
    then show ?thesis using assms(3,4,8,17) by (simp add: align_buffer_def b1_def)
  next
    case False
    define q where "q = int (F - ph)"
    have q: "q * 4 = int start" "q \<noteq> int F" "q \<noteq> 0" using False assms(13,17) by (simp_all add: q_def of_nat_diff)
    have e: "frameSize d - int start = int (4 * ph)" "\<not> int (4 * ph) \<le> 0" "devCols d * devRows d = int F"
      using False assms(3,4,7,8,13,17) by (simp_all add: of_nat_diff)
    have "slice_go b (int start) (int (length b) - int (4 * ph)) = Inr b1"
    proof -
      have "start = 4 * (F - ph)" "4 * F \<le> length b" using False assms(14,17) by simp_all
      then have "int (length b) - int (4 * ph) - int start = int (length b - 4 * F)" "start + 4 * ph \<le> length b"
        using assms(13) by (simp_all add: of_nat_diff)
      then show ?thesis using False by (simp add: slice_go_def b1_def)
    qed
    then show ?thesis
      unfolding q_def [symmetric] align_buffer_def e Let_def q(1) using q(2,3) e(2) False by simp
  qed
  then obtain t1 where t1: "align_buffer ls d b t (int (F - ph)) = Inr (int start, b1, t1, ph \<noteq> 0)" by blast
  have "div_go (int (length b1)) (frameSize d) = Inr (int frames)"
    using F(1) by (simp add: div_go_def assms(7) len1 assms(18) zdiv_int)
  moreover obtain copies where copies: "demux (bytesToRawType b1) (int (2 * F)) (int N) (int N) (int frames) = Inr copies"
    "length copies = N" "\<forall>i<2 * F. copies ! i = map (\<lambda>j. bytesToRawType b1 ! (i + j * (2 * F))) [0..<frames]"
  proof -
    have "2 * F * frames \<le> length (bytesToRawType b1)"
    proof -
      have "m \<le> length b1" unfolding len1 m_def assms(18) by (metis div_times_less_eq_dividend mult.commute)
      then have "m div 2 \<le> length b1 div 2" by (rule div_le_mono)
      then show ?thesis by (simp add: raw_length m_def)
    qed
    from demux_nth [OF this assms(11)] that show ?thesis by blast
  qed
  moreover have "card_channels d = int (2 * F)" using assms(3,4,8) by (simp add: card_channels_def)
  ultimately have run: "read_frames ls d b t (int (F - ph)) = Inr (ls\<lparr>lsSource := (lsSource ls)\<lparr>lastread := t1\<rparr>,
      buffersChan := buffersChan ls @ [\<lparr>datacopies = copies, lastSampleTime = t1, timeDiff = t1 - lastread (lsSource ls),
        totalBytes = int m, dataDropDetected = (ph \<noteq> 0)\<rparr>]\<rparr>, int start + int m)"
    using t1 fr(1) assms(7,9,10,16) by (simp add: read_frames_def m_def Let_def algebra_simps)
  have sample: "bytesToRawType b1 ! (i + j * (2 * F)) = bytesToRawType b ! (start div 2 + 2 * F * j + i)"
    if i: "i < 2 * F" and j: "j < frames" for i j
  proof -
    have k: "i + j * (2 * F) < m div 2"
    proof -
      have "i + j * (2 * F) < Suc j * (2 * F)" using i by simp
      also have "\<dots> \<le> frames * (2 * F)" using j by (intro mult_le_mono1) simp
      finally show ?thesis by (simp add: m_def algebra_simps)
    qed
    have "m \<le> length b1" "start + length b1 \<le> length b" "even start"
      using fr(2) assms(13,14,17) by (auto simp: len1 split: if_splits)
    then have "i + j * (2 * F) < length b1 div 2" "2 * (start div 2) + length b1 \<le> length b" using k by simp_all
    from raw_of_slice [OF this] show ?thesis using \<open>even start\<close> len1 by (simp add: b1_def algebra_simps)
  qed
  have "(ph + (start + m) div 4) mod F = 0"
  proof (cases "ph = 0")
    case False
    then have "(start + m) div 4 = F - ph + F * frames" using assms(17) by (simp add: m_def)
    then have "ph + (start + m) div 4 = F * Suc frames" using assms(13) by simp
    then show ?thesis by (simp only: mod_mult_self1_is_0)
  qed (use assms(17) in \<open>simp add: m_def\<close>)
  moreover have "int start + int m = int (start + 4 * F * frames)" by (simp add: m_def)
  ultimately show ?thesis
    unfolding read run using copies(2,3) sample fr(1) by (simp add: m_def)
qed

subsection \<open>Channels and readout\<close>

text \<open>The place of a channel in the readout, and the channel at a place, for one card.\<close>

definition readout_of :: "nat \<Rightarrow> nat \<Rightarrow> nat \<Rightarrow> nat" where
  "readout_of R C p = p mod 2 + 2 * ((p div 2 mod R) * C + p div 2 div R)"

definition channel_at :: "nat \<Rightarrow> nat \<Rightarrow> nat \<Rightarrow> nat" where
  "channel_at R C i = i mod 2 + 2 * (i div 2 div C + R * (i div 2 mod C))"

lemma pair_index:
  assumes "e < 2" "r < R" "c < C"
  shows "e + 2 * (r * C + c) < 2 * (R * C :: nat)"
proof -
  have "r * C + c < Suc r * C" using assms(3) by simp
  also have "\<dots> \<le> R * C" using assms(2) by (intro mult_le_mono1) simp
  finally show ?thesis using assms(1) by simp
qed

lemma pair_of: "e < 2 \<Longrightarrow> (e + 2 * k) mod 2 = (e :: nat)" "e < 2 \<Longrightarrow> (e + 2 * k) div 2 = k"
  by simp_all

lemma cell_of: "r < R \<Longrightarrow> (c * R + r) mod R = (r :: nat)" "r < R \<Longrightarrow> (c * R + r) div R = c"
  by simp_all

lemma readout_of_pixel: "e < 2 \<Longrightarrow> r < R \<Longrightarrow> readout_of R C (e + 2 * (c * R + r)) = e + 2 * (r * C + c)"
  by (simp only: readout_of_def pair_of cell_of)

lemma channel_at_pixel: "e < 2 \<Longrightarrow> c < C \<Longrightarrow> channel_at R C (e + 2 * (r * C + c)) = e + 2 * (c * R + r)"
  by (simp only: channel_at_def pair_of cell_of) (simp only: mult.commute add.commute)

lemma pixel_of:
  assumes "p < 2 * (R * C :: nat)"
  obtains e r c where "e < 2" "r < R" "c < C" "p = e + 2 * (c * R + r)"
proof -
  have "p div 2 < C * R" using assms by (simp add: mult.commute)
  then have "p div 2 div R < C" "0 < R" by (auto simp: less_mult_imp_div_less intro: Nat.gr0I)
  then show thesis by (intro that [of "p mod 2" "p div 2 mod R" "p div 2 div R"]) simp_all
qed

lemma readout_channel:
  assumes "p < 2 * (R * C)"
  shows "readout_of R C p < 2 * (R * C)" "channel_at R C (readout_of R C p) = p"
  using assms
proof -
  obtain e r c where p: "e < 2" "r < R" "c < C" "p = e + 2 * (c * R + r)" using assms by (rule pixel_of)
  then show "readout_of R C p < 2 * (R * C)" "channel_at R C (readout_of R C p) = p"
    using pair_index [OF p(1-3)] by (simp_all only: p(4) readout_of_pixel channel_at_pixel)
qed

lemma channel_readout:
  assumes "i < 2 * (R * C)"
  shows "channel_at R C i < 2 * (R * C)" "readout_of R C (channel_at R C i) = i"
proof -
  obtain e c r where i: "e < 2" "c < C" "r < R" "i = e + 2 * (r * C + c)"
    using assms by (elim pixel_of [of i C R, unfolded mult.commute [of C R]])
  then show "channel_at R C i < 2 * (R * C)" "readout_of R C (channel_at R C i) = i"
    using pair_index [OF i(1-3)] by (simp_all only: i(4) readout_of_pixel channel_at_pixel mult.commute [of R C])
qed

definition channels_of :: "LanceroDevice \<Rightarrow> nat" where
  "channels_of d = 2 * (nat (devRows d) * nat (devCols d))"

definition card_order :: "nat \<Rightarrow> LanceroDevice \<Rightarrow> int list" where
  "card_order base d = map (\<lambda>p. int (base + readout_of (nat (devRows d)) (nat (devCols d)) p)) [0..<channels_of d]"

fun readout_order :: "nat \<Rightarrow> LanceroDevice list \<Rightarrow> int list" where
  "readout_order base [] = []"
| "readout_order base (d # ds) = card_order base d @ readout_order (base + channels_of d) ds"

definition real_card :: "LanceroDevice \<Rightarrow> bool" where
  "real_card d \<longleftrightarrow> 0 < devRows d \<and> 0 < devCols d"

lemma real_card_channels: "real_card d \<Longrightarrow> card_channels d = int (channels_of d)"
  by (simp add: real_card_def card_channels_def channels_of_def)

lemma order_step_at:
  assumes "real_card d" "i < channels_of d"
  shows "order_step d prev order (int i)
    = put_go order (int (channel_at (nat (devRows d)) (nat (devCols d)) i) + prev) (int i + prev)"
proof -
  obtain R C where RC: "devRows d = int R" "devCols d = int C" "0 < C"
    using assms(1) by (metis nat_0_le less_imp_le real_card_def zero_less_nat_eq)
  have "quot_int (int i) 2 = int (i div 2)" "rem_int (int i) 2 = int (i mod 2)" by (simp_all add: zdiv_int zmod_int)
  then show ?thesis
    using RC by (simp add: order_step_def div_go_def channel_at_def zdiv_int zmod_int Let_def algebra_simps)
qed

lemma order_device_run:
  assumes "real_card d" "length pre = base"
  shows "order_device (pre @ replicate (channels_of d) 0 @ post, int base) d
    = Inr (pre @ card_order base d @ post, int (base + channels_of d))"
proof -
  define R C n where "R = nat (devRows d)" and "C = nat (devCols d)" and "n = channels_of d"
  have n: "n = 2 * (R * C)" by (simp add: n_def R_def C_def channels_of_def)
  define A where "A i = pre @ map (\<lambda>p. if readout_of R C p < i then int (base + readout_of R C p) else 0) [0..<n] @ post" for i
  have step: "order_step d (int base) (A i) (int i) = Inr (A (Suc i))" if i: "i < n" for i
  proof -
    let ?c = "channel_at R C i"
    have c: "?c < n" "readout_of R C ?c = i" using channel_readout [of i R C] i by (simp_all add: n)
    have "(map (\<lambda>p. if readout_of R C p < i then int (base + readout_of R C p) else 0) [0..<n])[?c := int i + int base]
        = map (\<lambda>p. if readout_of R C p < Suc i then int (base + readout_of R C p) else 0) [0..<n]"
    proof (rule nth_equalityI)
      fix p assume "p < length ((map (\<lambda>p. if readout_of R C p < i then int (base + readout_of R C p) else 0) [0..<n])[?c := int i + int base])"
      then have p: "p < n" by simp
      then have "readout_of R C p = i \<longleftrightarrow> p = ?c" using c readout_channel(2) [of p R C] by (auto simp: n)
      then show "(map (\<lambda>p. if readout_of R C p < i then int (base + readout_of R C p) else 0) [0..<n])[?c := int i + int base] ! p
          = map (\<lambda>p. if readout_of R C p < Suc i then int (base + readout_of R C p) else 0) [0..<n] ! p"
        using p c by (cases "p = ?c") (auto simp: less_Suc_eq)
    qed simp
    moreover have "nat (int ?c + int base) = base + ?c" "int ?c + int base < int (length (A i))"
      using c(1) assms(2) by (simp_all add: A_def)
    ultimately show ?thesis
      using i c(1) assms by (simp add: order_step_at [OF assms(1)] n_def [symmetric] R_def [symmetric] C_def [symmetric]
        put_go_def A_def list_update_append)
  qed
  have "foldM_go (order_step d (int base)) (A 0) [0..int n - 1] = Inr (A n)"
    using foldM_go_upto [of n "order_step d (int base)" A] step by blast
  moreover have "A 0 = pre @ replicate n 0 @ post"
    by (simp add: A_def map_replicate_const)
  moreover have "A n = pre @ card_order base d @ post"
    using readout_channel(1) [of _ R C] by (auto simp: A_def card_order_def n_def [symmetric] R_def [symmetric] C_def [symmetric] n)
  ultimately show ?thesis
    by (simp add: order_device_def real_card_channels [OF assms(1)] n_def)
qed

lemma order_devices_run:
  assumes "\<forall>d\<in>set devs. real_card d" "length pre = base"
  shows "foldM_go order_device (pre @ replicate (sum_list (map channels_of devs)) 0, int base) devs
    = Inr (pre @ readout_order base devs, int (base + sum_list (map channels_of devs)))"
  using assms
proof (induction devs arbitrary: pre base)
  case (Cons d devs)
  have "order_device (pre @ replicate (channels_of d) 0 @ replicate (sum_list (map channels_of devs)) 0, int base) d
      = Inr (pre @ card_order base d @ replicate (sum_list (map channels_of devs)) 0, int (base + channels_of d))"
    using Cons.prems by (intro order_device_run) simp_all
  moreover have "length (pre @ card_order base d) = base + channels_of d" using Cons.prems(2) by (simp add: card_order_def)
  from Cons.IH [OF _ this] Cons.prems(1) have "foldM_go order_device
      ((pre @ card_order base d) @ replicate (sum_list (map channels_of devs)) 0, int (base + channels_of d)) devs
    = Inr ((pre @ card_order base d) @ readout_order (base + channels_of d) devs,
        int (base + channels_of d + sum_list (map channels_of devs)))" by simp
  ultimately show ?case by (simp add: replicate_add add.assoc)
qed simp

lemma readout_order_set:
  "length (readout_order base devs) = sum_list (map channels_of devs)
   \<and> set (readout_order base devs) = {int base..<int (base + sum_list (map channels_of devs))}"
proof (induction devs arbitrary: base)
  case (Cons d devs)
  define R C where "R = nat (devRows d)" and "C = nat (devCols d)"
  have n: "channels_of d = 2 * (R * C)" by (simp add: R_def C_def channels_of_def)
  have "readout_of R C ` {0..<channels_of d} = {0..<channels_of d}"
  proof
    show "readout_of R C ` {0..<channels_of d} \<subseteq> {0..<channels_of d}" using readout_channel(1) by (auto simp: n)
    show "{0..<channels_of d} \<subseteq> readout_of R C ` {0..<channels_of d}"
    proof
      fix i assume "i \<in> {0..<channels_of d}"
      then show "i \<in> readout_of R C ` {0..<channels_of d}"
        using channel_readout [of i R C] by (intro image_eqI [of _ _ "channel_at R C i"]) (simp_all add: n)
    qed
  qed
  moreover have "set (card_order base d) = (\<lambda>i. int (base + i)) ` (readout_of R C ` {0..<channels_of d})"
    by (simp only: card_order_def R_def [symmetric] C_def [symmetric] image_image set_map set_upt)
  ultimately have "set (card_order base d) = (\<lambda>i. int (base + i)) ` {0..<channels_of d}" by simp
  also have "\<dots> = {int base..<int (base + channels_of d)}"
  proof -
    have "(\<lambda>i. int (base + i)) ` {0..<channels_of d} = int ` ((+) base ` {0..<channels_of d})" by (simp only: image_image)
    then show ?thesis by (simp only: image_add_atLeastLessThan image_int_atLeastLessThan) (simp add: add.commute)
  qed
  finally have "set (card_order base d) = {int base..<int (base + channels_of d)}" .
  moreover have "length (card_order base d) = channels_of d" by (simp add: card_order_def)
  ultimately show ?case using Cons [of "base + channels_of d"] by auto
qed simp

lemma readout_order_nth:
  assumes "k < length devs" "p < channels_of (devs ! k)"
  shows "readout_order base devs ! (sum_list (map channels_of (take k devs)) + p)
    = int (base + sum_list (map channels_of (take k devs)) + readout_of (nat (devRows (devs ! k))) (nat (devCols (devs ! k))) p)"
  using assms
proof (induction devs arbitrary: base k)
  case (Cons d devs)
  have len: "length (card_order base d) = channels_of d" by (simp add: card_order_def)
  show ?case
  proof (cases k)
    case 0
    then show ?thesis using Cons.prems(2) len by (simp add: nth_append card_order_def)
  next
    case (Suc j)
    then show ?thesis using Cons.IH [of j "base + channels_of d"] Cons.prems len
      by (simp add: nth_append add.assoc)
  qed
qed simp

lemma updateChanOrderMap_order:
  assumes "active_devices ls = Inr devs" "\<forall>d\<in>set devs. real_card d" "n = sum_list (map channels_of devs)"
  shows "updateChanOrderMap ls = Inr (ls\<lparr>lsMix := replicate n \<lparr>errorScale = Fin 0, lastFb = 0\<rparr>,
    chan2readoutOrder := readout_order 0 devs\<rparr>)"
proof -
  have "sum_list (map card_channels devs) = int n"
    unfolding assms(3) using assms(2) by (induction devs) (auto simp: real_card_channels)
  then show ?thesis
    using order_devices_run [OF assms(2), of "[]" 0] assms(1,3) by (simp add: updateChanOrderMap_def)
qed

text \<open>
  After sampling, the map from channels to the readout is a permutation of all channels of all
  cards: the error and feedback channels of column \<open>col\<close>, row \<open>row\<close> of the \<open>k\<close>-th card are numbered column
  by column and are found where the card reads them out, row by row.
\<close>

theorem chan_order_permutation:
  assumes "active_devices ls = Inr devs" "\<forall>d\<in>set devs. real_card d" "n = sum_list (map channels_of devs)"
  shows "\<exists>ls'. updateChanOrderMap ls = Inr ls' \<and> length (lsMix ls') = n \<and> length (chan2readoutOrder ls') = n
    \<and> distinct (chan2readoutOrder ls') \<and> set (chan2readoutOrder ls') = {0..<int n}
    \<and> (\<forall>k<length devs. \<forall>row<nat (devRows (devs ! k)). \<forall>col<nat (devCols (devs ! k)). \<forall>e<2.
        let base = sum_list (map channels_of (take k devs)) in
        chan2readoutOrder ls' ! (base + (e + 2 * (col * nat (devRows (devs ! k)) + row)))
          = int (base + (e + 2 * (row * nat (devCols (devs ! k)) + col))))"
proof -
  have all: "length (readout_order 0 devs) = n" "set (readout_order 0 devs) = {0..<int n}"
    using readout_order_set [of 0 devs] by (simp_all add: assms(3))
  then have "distinct (readout_order 0 devs)" by (intro card_distinct) simp
  moreover have "readout_order 0 devs ! (sum_list (map channels_of (take k devs)) + (e + 2 * (col * nat (devRows (devs ! k)) + row)))
      = int (sum_list (map channels_of (take k devs)) + (e + 2 * (row * nat (devCols (devs ! k)) + col)))"
    if "k < length devs" "row < nat (devRows (devs ! k))" "col < nat (devCols (devs ! k))" "e < 2" for k row col e
  proof -
    have "e + 2 * (col * nat (devRows (devs ! k)) + row) < channels_of (devs ! k)"
      using pair_index [OF that(4,3,2)] by (simp only: channels_of_def mult.commute)
    from readout_order_nth [OF that(1) this, of 0] show ?thesis by (simp only: readout_of_pixel [OF that(4,2)] add_0)
  qed
  ultimately show ?thesis
    unfolding updateChanOrderMap_order [OF assms] using all by (simp add: Let_def)
qed

subsection \<open>Concrete cards\<close>

text \<open>Words of a card with one column and two rows, beginning at word \<open>ph\<close> of a frame.\<close>

definition demo_bytes :: "nat \<Rightarrow> nat \<Rightarrow> u8 list" where
  "demo_bytes ph n = concat (map (\<lambda>w. [of_nat w, 0, (if (w + ph) mod 2 < 1 then 1 else 0), 0]) [0..<n])"

definition demo_card :: "int \<Rightarrow> int \<Rightarrow> int \<Rightarrow> LanceroDevice" where
  "demo_card num rows cols = \<lparr>devnum = num, devRows = rows, devCols = cols, lsync = 20, fiberMask = 65535, cardDelay = 1,
     devClockMHz = 125, frameSize = 4 * (rows * cols), adapRunning = True, collRunning = True\<rparr>"

definition demo_lancero :: "LanceroDevice list \<Rightarrow> nat \<Rightarrow> LanceroSource" where
  "demo_lancero ds n = \<lparr>lsSource = demo_source\<lparr>nchan := int n, processors := replicate n (demo_processor False 1)\<rparr>,
     lsDevices = map (\<lambda>d. (devnum d, d)) ds, lsClockMHz = 125, lsNsamp = 4, lsActive = map devnum ds,
     chan2readoutOrder = readout_order 0 ds, lsMix = replicate n \<lparr>errorScale = Fin 0, lastFb = 0\<rparr>,
     dataBlockCount = 0, buffersChan = [], firstRowChanNum = 1, chanSepCards = 0, chanSepColumns = 0,
     externalTriggerLastState = False, mixedRowCounts = False, previousLastSampleTime = 0\<rparr>"

lemma demo_framed: "framed 2 1 1 (demo_bytes 1 8)" "length (demo_bytes 1 8) = 32"
  by code_simp+

theorem find_frame_bits_exact_witness: "FindFrameBits (demo_bytes 1 8) lanceroFBOffset = (1, 3, 1, None)"
  using find_frame_bits_exact [OF demo_framed(1)] demo_framed(2) by simp

theorem reader_stays_aligned_witness:
  "\<exists>ls' msg. lancero_read (demo_lancero [demo_card 0 2 1] 4) 0 (demo_bytes 1 8) 5 = Inr (ls', 28)
    \<and> buffersChan ls' = [msg] \<and> dataDropDetected msg \<and> length (datacopies msg ! 3) = 3"
proof -
  let ?ls = "demo_lancero [demo_card 0 2 1] 4"
  have "\<exists>ls' msg. lancero_read ?ls 0 (demo_bytes 1 8) 5 = Inr (ls', int (4 + 4 * 2 * 3))
    \<and> buffersChan ls' = buffersChan ?ls @ [msg] \<and> dataDropDetected msg = ((1 :: nat) \<noteq> 0)
    \<and> length (datacopies msg) = 4 \<and> 0 < (3 :: nat)
    \<and> (\<forall>i<2 * 2. \<forall>j<3. length (datacopies msg ! i) = 3
        \<and> datacopies msg ! i ! j = bytesToRawType (demo_bytes 1 8) ! (4 div 2 + 2 * 2 * j + i))
    \<and> (1 + (4 + 4 * 2 * 3) div 4) mod 2 = (0 :: nat)"
    by (rule reader_stays_aligned [where c = 0 and d = "demo_card 0 2 1" and C = 1 and R = 2])
      (simp_all add: demo_lancero_def demo_card_def device_of_def demo_framed [unfolded One_nat_def])
  then obtain ls' msg where r: "lancero_read ?ls 0 (demo_bytes 1 8) 5 = Inr (ls', int (4 + 4 * 2 * 3))"
    "buffersChan ls' = buffersChan ?ls @ [msg]" "dataDropDetected msg = ((1 :: nat) \<noteq> 0)"
    and all: "\<forall>i<2 * 2. \<forall>j<3. length (datacopies msg ! i) = 3
        \<and> datacopies msg ! i ! j = bytesToRawType (demo_bytes 1 8) ! (4 div 2 + 2 * 2 * j + i)" by blast
  have "length (datacopies msg ! 3) = 3" using all [rule_format, of 3 0] by simp
  moreover have "buffersChan ?ls = []" by (simp add: demo_lancero_def)
  ultimately show ?thesis using r by auto
qed

theorem chan_order_permutation_witness:
  "\<exists>ls'. updateChanOrderMap (demo_lancero [demo_card 0 2 3, demo_card 1 2 1] 16) = Inr ls'
    \<and> set (chan2readoutOrder ls') = {0..<16} \<and> chan2readoutOrder ls' ! 2 = 6"
proof -
  let ?ds = "[demo_card 0 2 3, demo_card 1 2 1]"
  have "active_devices (demo_lancero ?ds 16) = Inr ?ds" "\<forall>d\<in>set ?ds. real_card d" "16 = sum_list (map channels_of ?ds)"
    by (simp_all add: active_devices_def demo_lancero_def device_of_def demo_card_def real_card_def channels_of_def)
  from chan_order_permutation [OF this] obtain ls' where ls': "updateChanOrderMap (demo_lancero ?ds 16) = Inr ls'"
    "set (chan2readoutOrder ls') = {0..<16}"
    and all: "\<forall>k<length ?ds. \<forall>row<nat (devRows (?ds ! k)). \<forall>col<nat (devCols (?ds ! k)). \<forall>e<2.
        let base = sum_list (map channels_of (take k ?ds)) in
        chan2readoutOrder ls' ! (base + (e + 2 * (col * nat (devRows (?ds ! k)) + row)))
          = int (base + (e + 2 * (row * nat (devCols (?ds ! k)) + col)))" by auto
  have "chan2readoutOrder ls' ! (0 + (0 + 2 * (0 * 2 + 1))) = int (0 + (0 + 2 * (1 * 3 + 0)))"
    using all [rule_format, of 0 1 0 0] by (simp add: demo_card_def)
  then show ?thesis using ls' by (simp add: numeral_2_eq_2)
qed

end
