(* ===== verification/LanceroBlocks.thy ===== *)
theory LanceroBlocks
  imports LanceroLaws
begin

text \<open>
  Blocks of the TDM source: what a block carries of each pixel, the external triggers and the frame
  numbers it reports, the numbering of the channels and the coupling of error and feedback channels.
\<close>

subsection \<open>Samples of a block\<close>

lemma MixRetardFb_zip:
  "length fbs = length errs \<Longrightarrow> MixRetardFb m fbs errs = Inr (mix_filter m (zip fbs errs))"
  using MixRetardFb_pairs [of m "zip fbs errs"] by (simp add: mix_filter_eq)

lemma mix_filter_length: "length (snd (mix_filter m ps)) = length ps"
  by (simp add: mix_filter_eq)

text \<open>The samples of channel \<open>ch\<close>, from the reader's buffers and the mixers before the block.\<close>

definition channel_out :: "int list \<Rightarrow> Mix list \<Rightarrow> raw list list \<Rightarrow> nat \<Rightarrow> raw list" where
  "channel_out order mixes copies ch =
     (if even ch then copies ! nat (order ! ch)
      else snd (mix_filter (mixes ! ch) (zip (copies ! nat (order ! ch)) (copies ! nat (order ! (ch - 1))))))"

definition channel_segment :: "segment_header \<Rightarrow> raw list \<Rightarrow> nat \<Rightarrow> data_segment" where
  "channel_segment h data ch = \<lparr>rawData = data, signedData = even ch, framesPerSample = 1,
     firstFrameIndex = shFirst h, firstTime = shTime h, framePeriod = shPeriod h, voltsPerArb = Fin 0,
     processed = False, droppedFrames = shDropped h\<rparr>"

definition order_ok :: "int list \<Rightarrow> nat \<Rightarrow> bool" where
  "order_ok order n \<longleftrightarrow> length order = n \<and> distinct order \<and> set order = {0..<int n}"

lemma order_ok_nth:
  assumes "order_ok order n" "ch < n"
  shows "0 \<le> order ! ch" "order ! ch < int n" "nat (order ! ch) < n"
proof -
  have "order ! ch \<in> {0..<int n}" using assms nth_mem [of ch order] by (simp add: order_ok_def)
  then show "0 \<le> order ! ch" "order ! ch < int n" "nat (order ! ch) < n" by auto
qed

lemma order_ok_inj:
  assumes "order_ok order n" "a < n" "b < n" "a \<noteq> b"
  shows "nat (order ! a) \<noteq> nat (order ! b)"
  using assms order_ok_nth [OF assms(1)] nth_eq_iff_index_eq [of order a b] by (simp add: order_ok_def nat_eq_iff)

lemma distribute_run:
  assumes "order_ok order n" "length mixes = n" "length copies = n" "\<forall>c\<in>set copies. length c = L" "k \<le> n"
  shows "\<exists>mk ck. foldM_go (distribute_channel order h) (mixes, copies, []) (map int [0..<k])
      = Inr (mk, ck, map (\<lambda>ch. channel_segment h (channel_out order mixes copies ch) ch) [0..<k])
    \<and> length mk = n \<and> length ck = n \<and> (\<forall>ch<n. even ch \<or> k \<le> ch \<longrightarrow> mk ! ch = mixes ! ch)
    \<and> (\<forall>ch<n. even ch \<or> k \<le> ch \<longrightarrow> ck ! nat (order ! ch) = copies ! nat (order ! ch))"
  using assms(5)
proof (induction k)
  case 0
  then show ?case using assms(2,3) by simp
next
  case (Suc k)
  then obtain mk ck where run: "foldM_go (distribute_channel order h) (mixes, copies, []) (map int [0..<k])
      = Inr (mk, ck, map (\<lambda>ch. channel_segment h (channel_out order mixes copies ch) ch) [0..<k])"
    and len: "length mk = n" "length ck = n" and mk: "\<forall>ch<n. even ch \<or> k \<le> ch \<longrightarrow> mk ! ch = mixes ! ch"
    and ck: "\<forall>ch<n. even ch \<or> k \<le> ch \<longrightarrow> ck ! nat (order ! ch) = copies ! nat (order ! ch)"
    by auto
  have k: "k < n" using Suc.prems by simp
  note o = order_ok_nth [OF assms(1) k]
  have idx_o: "idx order (int k) = Inr (order ! k)" using assms(1) k by (simp add: order_ok_def)
  have idx_c: "idx ck (order ! k) = Inr (copies ! nat (order ! k))" using ck k len o by simp
  show ?case
  proof (cases "even k")
    case True
    then have "rem_int (int k) 2 \<noteq> 1" by simp
    then have step: "distribute_channel order h (mk, ck, segs) (int k)
        = Inr (mk, ck, segs @ [channel_segment h (channel_out order mixes copies k) k])" for segs
      using True by (simp add: distribute_channel_def idx_o idx_c channel_segment_def channel_out_def)
    show ?thesis
      using run len mk ck True by (auto simp: foldM_go_append step)
  next
    case False
    then have odd: "rem_int (int k) 2 = 1" "int k - 1 = int (k - 1)" "even (k - 1)" "k - 1 < n"
    proof -
      obtain j where "k = 2 * j + 1" using False by (elim oddE)
      then show "rem_int (int k) 2 = 1" "int k - 1 = int (k - 1)" "even (k - 1)" "k - 1 < n" using k by simp_all
    qed
    note o1 = order_ok_nth [OF assms(1) odd(4)]
    have idx_o1: "idx order (int k - 1) = Inr (order ! (k - 1))"
      unfolding odd(2) using assms(1) odd(4) by (simp only: idx_of_nat order_ok_def)
    have idx_c1: "idx ck (order ! (k - 1)) = Inr (copies ! nat (order ! (k - 1)))" using ck odd(3,4) len o1 by simp
    have idx_m: "idx mk (int k) = Inr (mixes ! k)" using mk k len by simp
    define r where "r = mix_filter (mixes ! k) (zip (copies ! nat (order ! k)) (copies ! nat (order ! (k - 1))))"
    have mix: "MixRetardFb (mixes ! k) (copies ! nat (order ! k)) (copies ! nat (order ! (k - 1))) = Inr (fst r, snd r)"
      using assms(3,4) o(3) o1(3) by (simp add: r_def MixRetardFb_zip)
    have step: "distribute_channel order h (mk, ck, segs) (int k)
        = Inr (mk[k := fst r], ck[nat (order ! k) := snd r], segs @ [channel_segment h (channel_out order mixes copies k) k])" for segs
    proof -
      have "channel_out order mixes copies k = snd r" using False by (simp add: channel_out_def r_def)
      then show ?thesis
        using False odd(1) by (simp add: distribute_channel_def idx_o idx_c idx_o1 idx_c1 [unfolded One_nat_def]
          idx_m mix [unfolded One_nat_def] channel_segment_def case_prod_beta)
    qed
    have c: "\<forall>ch<n. even ch \<or> Suc k \<le> ch \<longrightarrow> ck[nat (order ! k) := snd r] ! nat (order ! ch) = copies ! nat (order ! ch)"
    proof (intro allI impI)
      fix ch assume ch: "ch < n" "even ch \<or> Suc k \<le> ch"
      then have "ch \<noteq> k" using False by auto
      then show "ck[nat (order ! k) := snd r] ! nat (order ! ch) = copies ! nat (order ! ch)"
        using ck ch order_ok_inj [OF assms(1) k ch(1)] by auto
    qed
    have m: "\<forall>ch<n. even ch \<or> Suc k \<le> ch \<longrightarrow> mk[k := fst r] ! ch = mixes ! ch"
    proof (intro allI impI)
      fix ch assume ch: "ch < n" "even ch \<or> Suc k \<le> ch"
      then have "ch \<noteq> k" using False by auto
      then show "mk[k := fst r] ! ch = mixes ! ch" using mk ch by auto
    qed
    have "foldM_go (distribute_channel order h) (mixes, copies, []) (map int [0..<Suc k])
      = Inr (mk[k := fst r], ck[nat (order ! k) := snd r],
          map (\<lambda>ch. channel_segment h (channel_out order mixes copies ch) ch) [0..<Suc k])"
      using run by (simp add: foldM_go_append step)
    then show ?thesis using c m len by (intro exI conjI) (assumption | simp)+
  qed
qed

subsection \<open>External triggers\<close>

text \<open>The places where a bit rises, given the bit before the first place.\<close>

fun rises :: "bool \<Rightarrow> ('a \<times> bool) list \<Rightarrow> 'a list" where
  "rises prev [] = []"
| "rises prev ((x, s) # xs) = (if s \<and> \<not> prev then [x] else []) @ rises s xs"

definition last_bit :: "bool \<Rightarrow> ('a \<times> bool) list \<Rightarrow> bool" where
  "last_bit prev xs = (if xs = [] then prev else snd (last xs))"

lemma scan_run:
  assumes "\<forall>(f, r)\<in>set ps. idx copies (r * 2 + 1) = Inr (col r) \<and> idx (col r) f = Inr (v f r)"
  shows "foldM_go (scan_step copies False next nrows) (found, prev) ps
    = Inr (found @ map (\<lambda>(f, r). (f + next) * nrows + r) (rises prev (map (\<lambda>(f, r). ((f, r), trigger_bit (v f r))) ps)),
        last_bit prev (map (\<lambda>(f, r). ((f, r), trigger_bit (v f r))) ps))"
  using assms
proof (induction ps arbitrary: found prev)
  case (Cons p ps)
  obtain f r where p: "p = (f, r)" by (cases p)
  have step: "scan_step copies False next nrows (found, prev) (f, r)
      = Inr (found @ (if trigger_bit (v f r) \<and> \<not> prev then [(f + next) * nrows + r] else []), trigger_bit (v f r))"
    using Cons.prems by (auto simp: p scan_step_def Let_def)
  have "foldM_go (scan_step copies False next nrows) (found', prev') ps
    = Inr (found' @ map (\<lambda>(f, r). (f + next) * nrows + r) (rises prev' (map (\<lambda>(f, r). ((f, r), trigger_bit (v f r))) ps)),
        last_bit prev' (map (\<lambda>(f, r). ((f, r), trigger_bit (v f r))) ps))" for found' prev'
    using Cons.prems by (intro Cons.IH) simp
  then show ?case by (simp add: p step last_bit_def)
qed (simp add: last_bit_def)

text \<open>The positions of a block, frame by frame and row by row.\<close>

definition positions :: "nat \<Rightarrow> nat \<Rightarrow> (int \<times> int) list" where
  "positions L R = List.product [0..int L - 1] [0..int R - 1]"

lemma positions_set: "(f, r) \<in> set (positions L R) \<longleftrightarrow> 0 \<le> f \<and> f < int L \<and> 0 \<le> r \<and> r < int R"
  by (auto simp: positions_def)

lemma scan_positions:
  assumes "\<forall>r<R. 2 * r + 1 < length copies \<and> L \<le> length (copies ! (2 * r + 1))"
  shows "scan_triggers copies False next (int R) (int L) prev
    = Inr (map (\<lambda>(f, r). (f + next) * int R + r)
        (rises prev (map (\<lambda>(f, r). ((f, r), trigger_bit (copies ! (2 * nat r + 1) ! nat f))) (positions L R))),
      last_bit prev (map (\<lambda>(f, r). ((f, r), trigger_bit (copies ! (2 * nat r + 1) ! nat f))) (positions L R)))"
proof -
  have "\<forall>(f, r)\<in>set (positions L R). idx copies (r * 2 + 1) = Inr (copies ! (2 * nat r + 1))
      \<and> idx (copies ! (2 * nat r + 1)) f = Inr (copies ! (2 * nat r + 1) ! nat f)"
  proof safe
    fix f r assume "(f, r) \<in> set (positions L R)"
    then have p: "0 \<le> f" "nat f < L" "0 \<le> r" "nat r < R" by (auto simp: positions_set)
    have "r * 2 + 1 = int (2 * nat r + 1)" using p by simp
    then show "idx copies (r * 2 + 1) = Inr (copies ! (2 * nat r + 1))"
      using assms p(4) by (simp only: idx_of_nat)
    have "f = int (nat f)" "nat f < length (copies ! (2 * nat r + 1))" using assms p by (simp, fastforce)
    then show "idx (copies ! (2 * nat r + 1)) f = Inr (copies ! (2 * nat r + 1) ! nat f)"
      by (metis idx_of_nat)
  qed
  from scan_run [OF this, of "next" "int R" "[]" prev] show ?thesis
    by (simp add: scan_triggers_def positions_def)
qed

subsection \<open>Blocks\<close>

text \<open>The reader's message and the state that a block of \<open>n\<close> channels with \<open>L\<close> samples is made from.\<close>

definition block_input :: "LanceroSource \<Rightarrow> LanceroDevice \<Rightarrow> nat \<Rightarrow> nat \<Rightarrow> BuffersChanType \<Rightarrow> bool" where
  "block_input ls d n L msg \<longleftrightarrow> order_ok (chan2readoutOrder ls) n \<and> length (lsMix ls) = n \<and> 0 < n
     \<and> device_of ls 0 = Inr d \<and> 0 < devRows d \<and> 2 * devRows d \<le> int n \<and> \<not> mixedRowCounts ls
     \<and> length (datacopies msg) = n \<and> (\<forall>c\<in>set (datacopies msg). length c = L)"

definition block_header :: "LanceroSource \<Rightarrow> BuffersChanType \<Rightarrow> nat \<Rightarrow> segment_header" where
  "block_header ls msg L = \<lparr>shPeriod = samplePeriod (lsSource ls),
     shFirst = nextFrameNum (lsSource ls) + dropped_frames ls msg,
     shTime = lastSampleTime msg - roundint (fdiv r64 (fmul r64 (Fin 1000000000) (f64_of_int (int L - 1)))
       (srcSampleRate (lsSource ls))),
     shDropped = dropped_frames ls msg\<rparr>"

definition trigger_bits :: "raw list list \<Rightarrow> nat \<Rightarrow> nat \<Rightarrow> ((int \<times> int) \<times> bool) list" where
  "trigger_bits copies L R =
     map (\<lambda>(f, r). ((f, r), trigger_bit (copies ! (2 * nat r + 1) ! nat f))) (positions L R)"

lemma distributeData_run:
  assumes "block_input ls d n L msg"
  shows "\<exists>ls' block. distributeData ls msg = Inr (ls', block)
    \<and> segments block = map (\<lambda>ch. channel_segment (block_header ls msg L)
        (channel_out (chan2readoutOrder ls) (lsMix ls) (datacopies msg) ch) ch) [0..<n]
    \<and> externalTriggerRowcounts block = map (\<lambda>(f, r). (f + nextFrameNum (lsSource ls)) * devRows d + r)
        (rises (externalTriggerLastState ls) (trigger_bits (datacopies msg) L (nat (devRows d))))
    \<and> blockNSamp block = int L \<and> \<not> blockErr block
    \<and> (\<exists>mk prev. length mk = n \<and> ls' = ls\<lparr>lsMix := mk, externalTriggerLastState := prev,
        previousLastSampleTime := lastSampleTime msg,
        lsSource := (lsSource ls)\<lparr>nextFrameNum := nextFrameNum (lsSource ls) + int L\<rparr>\<rparr>)"
proof -
  note in' = assms [unfolded block_input_def]
  obtain R where R: "devRows d = int R" using in' by (metis nonneg_int_cases less_imp_le)
  have first: "idx (datacopies msg) 0 = Inr (datacopies msg ! 0)" "length (datacopies msg ! 0) = L"
    using in' by (simp_all add: idx_def)
  have scan: "scan_triggers (datacopies msg) (mixedRowCounts ls) (nextFrameNum (lsSource ls)) (devRows d) (int L)
      (externalTriggerLastState ls)
    = Inr (map (\<lambda>(f, r). (f + nextFrameNum (lsSource ls)) * devRows d + r)
        (rises (externalTriggerLastState ls) (trigger_bits (datacopies msg) L (nat (devRows d)))),
      last_bit (externalTriggerLastState ls) (trigger_bits (datacopies msg) L (nat (devRows d))))"
    using scan_positions [of R "datacopies msg" L] in' by (simp add: R trigger_bits_def)
  obtain mk ck where run: "foldM_go (distribute_channel (chan2readoutOrder ls) (block_header ls msg L)) (lsMix ls, datacopies msg, [])
      (map int [0..<n]) = Inr (mk, ck, map (\<lambda>ch. channel_segment (block_header ls msg L)
        (channel_out (chan2readoutOrder ls) (lsMix ls) (datacopies msg) ch) ch) [0..<n])" "length mk = n"
    using distribute_run [of "chan2readoutOrder ls" n "lsMix ls" "datacopies msg" L n] in' by blast
  have len: "length (channel_out (chan2readoutOrder ls) (lsMix ls) (datacopies msg) ch) = L" if "ch < n" for ch
    using in' that order_ok_nth [of "chan2readoutOrder ls" n] by (simp add: channel_out_def mix_filter_length)
  have "last [0..<n] = n - 1" "[0..<n] \<noteq> []" using in' by (simp_all add: last_upt)
  then have lastseg: "length (rawData (last (map (\<lambda>ch. channel_segment (block_header ls msg L)
        (channel_out (chan2readoutOrder ls) (lsMix ls) (datacopies msg) ch) ch) [0..<n]))) = L"
    using len [of "n - 1"] in' by (simp add: last_map channel_segment_def)
  have h: "\<lparr>shPeriod = samplePeriod (lsSource ls), shFirst = nextFrameNum (lsSource ls) + dropped_frames ls msg,
      shTime = lastSampleTime msg - roundint (fdiv r64 (fmul r64 (Fin 1000000000) (f64_of_int (int L - 1)))
        (srcSampleRate (lsSource ls))), shDropped = dropped_frames ls msg\<rparr> = block_header ls msg L"
    by (simp add: block_header_def)
  have "distributeData ls msg = Inr (ls\<lparr>lsMix := mk, externalTriggerLastState := last_bit (externalTriggerLastState ls)
        (trigger_bits (datacopies msg) L (nat (devRows d))), previousLastSampleTime := lastSampleTime msg,
        lsSource := (lsSource ls)\<lparr>nextFrameNum := nextFrameNum (lsSource ls) + int L\<rparr>\<rparr>,
      \<lparr>segments = map (\<lambda>ch. channel_segment (block_header ls msg L)
         (channel_out (chan2readoutOrder ls) (lsMix ls) (datacopies msg) ch) ch) [0..<n],
       externalTriggerRowcounts = map (\<lambda>(f, r). (f + nextFrameNum (lsSource ls)) * devRows d + r)
        (rises (externalTriggerLastState ls) (trigger_bits (datacopies msg) L (nat (devRows d)))),
       blockNSamp = int L, blockErr = False\<rparr>)"
    unfolding distributeData_def first(1) Let_def bind_go_simps first(2) h
    using in' scan run lastseg by (simp add: upto_int)
  then show ?thesis using run(2) by (intro exI conjI) (assumption | simp)+
qed

text \<open>
  C29: A block of a single card carries, for the pixel of row \<open>row\<close> and column \<open>col\<close>, the error samples
  as they were read out and the feedback samples mixed with the error samples of the same pixel; all
  channels begin at the same frame, and the source moves on by the number of samples.
\<close>

theorem block_carries_pixels:
  assumes "block_input ls d (channels_of d) L msg" "real_card d" "chan2readoutOrder ls = readout_order 0 [d]"
    and "R = nat (devRows d)" "C = nat (devCols d)"
  shows "\<exists>ls' block. distributeData ls msg = Inr (ls', block) \<and> length (segments block) = channels_of d
    \<and> nextFrameNum (lsSource ls') = nextFrameNum (lsSource ls) + int L
    \<and> (\<forall>seg\<in>set (segments block). length (rawData seg) = L
        \<and> firstFrameIndex seg = nextFrameNum (lsSource ls) + dropped_frames ls msg)
    \<and> (\<forall>row<R. \<forall>col<C. let ch = 2 * (col * R + row); place = 2 * (row * C + col) in
        rawData (segments block ! ch) = datacopies msg ! place
        \<and> rawData (segments block ! (ch + 1))
          = snd (mix_filter (lsMix ls ! (ch + 1)) (zip (datacopies msg ! (place + 1)) (datacopies msg ! place))))"
proof -
  have n: "channels_of d = 2 * (R * C)" by (simp add: channels_of_def assms(4,5))
  obtain ls' block where run: "distributeData ls msg = Inr (ls', block)"
    "segments block = map (\<lambda>ch. channel_segment (block_header ls msg L)
        (channel_out (chan2readoutOrder ls) (lsMix ls) (datacopies msg) ch) ch) [0..<channels_of d]"
    "nextFrameNum (lsSource ls') = nextFrameNum (lsSource ls) + int L"
    using distributeData_run [OF assms(1)] by fastforce
  have in': "order_ok (chan2readoutOrder ls) (channels_of d)" "length (datacopies msg) = channels_of d"
    "\<forall>c\<in>set (datacopies msg). length c = L" using assms(1) by (simp_all add: block_input_def)
  have "length (channel_out (chan2readoutOrder ls) (lsMix ls) (datacopies msg) ch) = L" if "ch < channels_of d" for ch
    using in' that order_ok_nth [OF in'(1)] by (simp add: channel_out_def mix_filter_length)
  then have each: "\<forall>seg\<in>set (segments block). length (rawData seg) = L
        \<and> firstFrameIndex seg = nextFrameNum (lsSource ls) + dropped_frames ls msg"
    by (auto simp: run(2) channel_segment_def block_header_def)
  have place: "chan2readoutOrder ls ! (e + 2 * (col * R + row)) = int (e + 2 * (row * C + col))"
    "e + 2 * (col * R + row) < channels_of d" if "e < 2" "row < R" "col < C" for e row col
  proof -
    show lt: "e + 2 * (col * R + row) < channels_of d"
      using pair_index [OF that(1,3,2)] by (simp only: n mult.commute)
    show "chan2readoutOrder ls ! (e + 2 * (col * R + row)) = int (e + 2 * (row * C + col))"
      using readout_order_nth [of 0 "[d]" "e + 2 * (col * R + row)" 0] lt readout_of_pixel [OF that(1,2)]
      by (simp add: assms(3-5))
  qed
  have "rawData (segments block ! (2 * (col * R + row))) = datacopies msg ! (2 * (row * C + col))
      \<and> rawData (segments block ! (2 * (col * R + row) + 1)) = snd (mix_filter (lsMix ls ! (2 * (col * R + row) + 1))
          (zip (datacopies msg ! (2 * (row * C + col) + 1)) (datacopies msg ! (2 * (row * C + col)))))"
    if "row < R" "col < C" for row col
    using place [of 0 row col] place [of 1 row col] that
    by (simp add: run(2) channel_segment_def channel_out_def nat_add_distrib nat_mult_distrib flip: of_nat_add of_nat_mult)
  then show ?thesis using run(1,3) each by (auto simp: run(2) Let_def)
qed

text \<open>
  After lost data the frame numbers run backwards: the number of lost frames is added to the first
  frame of the block in which the loss was noticed, but not to the count of frames, so the next block
  begins that many frames before the end of this one.
\<close>

theorem frames_repeat_after_drop:
  assumes "block_input ls d n L msg" "block_input ls d n L2 msg2" "dataDropDetected msg" "\<not> dataDropDetected msg2"
  shows "\<exists>ls1 b1 ls2 b2. distributeData ls msg = Inr (ls1, b1) \<and> distributeData ls1 msg2 = Inr (ls2, b2)
    \<and> droppedFrames (hd (segments b1)) = dropped_frames ls msg
    \<and> firstFrameIndex (hd (segments b2))
      = firstFrameIndex (hd (segments b1)) + int L - droppedFrames (hd (segments b1))"
proof -
  have n: "0 < n" using assms(1) by (simp add: block_input_def)
  obtain ls1 b1 where 1: "distributeData ls msg = Inr (ls1, b1)"
    "segments b1 = map (\<lambda>ch. channel_segment (block_header ls msg L)
        (channel_out (chan2readoutOrder ls) (lsMix ls) (datacopies msg) ch) ch) [0..<n]"
    and ls1: "\<exists>mk prev. length mk = n \<and> ls1 = ls\<lparr>lsMix := mk, externalTriggerLastState := prev,
        previousLastSampleTime := lastSampleTime msg,
        lsSource := (lsSource ls)\<lparr>nextFrameNum := nextFrameNum (lsSource ls) + int L\<rparr>\<rparr>"
    using distributeData_run [OF assms(1)] by blast
  have "block_input ls1 d n L2 msg2" "nextFrameNum (lsSource ls1) = nextFrameNum (lsSource ls) + int L"
    using assms(2) ls1 by (auto simp: block_input_def device_of_def)
  moreover from distributeData_run [OF this(1)] obtain ls2 b2 where 2: "distributeData ls1 msg2 = Inr (ls2, b2)"
    "segments b2 = map (\<lambda>ch. channel_segment (block_header ls1 msg2 L2)
        (channel_out (chan2readoutOrder ls1) (lsMix ls1) (datacopies msg2) ch) ch) [0..<n]" by blast
  moreover have "dropped_frames ls1 msg2 = 0" using assms(4) by (simp add: dropped_frames_def)
  ultimately show ?thesis
    using 1 n by (intro exI conjI) (assumption | simp add: hd_map channel_segment_def block_header_def)+
qed

text \<open>
  External triggers are looked for in the wrong channels.  The trigger state of a row is seen in the
  feedback samples of all columns of that row; the scan walks the readout order, so its row number \<open>r\<close>
  reads row \<open>r div C\<close>: with more than one column a change is reported at the wrong row, and a change
  that only concerns the later rows is never seen.
\<close>

theorem external_triggers_misplaced:
  assumes "block_input ls d (channels_of d) L msg" "R = nat (devRows d)" "C = nat (devCols d)" "0 < C"
    and "\<forall>f<L. \<forall>row<R. \<forall>col<C. trigger_bit (datacopies msg ! (2 * (row * C + col) + 1) ! f) = T f row"
  shows "\<exists>ls' block. distributeData ls msg = Inr (ls', block)
    \<and> externalTriggerRowcounts block = map (\<lambda>(f, r). (f + nextFrameNum (lsSource ls)) * int R + r)
        (rises (externalTriggerLastState ls) (map (\<lambda>(f, r). ((f, r), T (nat f) (nat r div C))) (positions L R)))
    \<and> ((\<forall>f<L. \<forall>row\<le>(R - 1) div C. \<not> T f row) \<longrightarrow> externalTriggerRowcounts block = [])"
proof -
  have R: "0 < R" "devRows d = int R" using assms(1,2) by (simp_all add: block_input_def)
  obtain ls' block where run: "distributeData ls msg = Inr (ls', block)"
    and trigs: "externalTriggerRowcounts block = map (\<lambda>(f, r). (f + nextFrameNum (lsSource ls)) * devRows d + r)
        (rises (externalTriggerLastState ls) (trigger_bits (datacopies msg) L (nat (devRows d))))"
    using distributeData_run [OF assms(1)] by blast
  have bits: "trigger_bits (datacopies msg) L R = map (\<lambda>(f, r). ((f, r), T (nat f) (nat r div C))) (positions L R)"
    unfolding trigger_bits_def
  proof (rule map_cong [OF refl])
    fix x assume "x \<in> set (positions L R)"
    moreover obtain f r where x: "x = (f, r)" by (cases x)
    ultimately have p: "nat f < L" "nat r < R" using R by (auto simp: positions_set)
    have "nat r div C * C + nat r mod C = nat r" "nat r mod C < C" using assms(4) by simp_all
    moreover have "nat r div C < R" using p(2) by (rule le_less_trans [OF div_le_dividend])
    ultimately have "trigger_bit (datacopies msg ! (2 * nat r + 1) ! nat f) = T (nat f) (nat r div C)"
      using assms(5) p(1) by metis
    then show "(case x of (f, r) \<Rightarrow> ((f, r), trigger_bit (datacopies msg ! (2 * nat r + 1) ! nat f)))
        = (case x of (f, r) \<Rightarrow> ((f, r), T (nat f) (nat r div C)))" by (simp add: x)
  qed
  have none: "rises prev xs = []" if "\<forall>(p, s)\<in>set xs. \<not> s" for prev and xs :: "((int \<times> int) \<times> bool) list"
    using that by (induction xs arbitrary: prev) auto
  have "externalTriggerRowcounts block = []" if "\<forall>f<L. \<forall>row\<le>(R - 1) div C. \<not> T f row"
  proof -
    have "\<not> T (nat f) (nat r div C)" if "(f, r) \<in> set (positions L R)" for f r
    proof -
      have p: "nat f < L" "nat r \<le> R - 1" using that R by (auto simp: positions_set)
      then show ?thesis using \<open>\<forall>f<L. \<forall>row\<le>(R - 1) div C. \<not> T f row\<close> div_le_mono [OF p(2), of C] by blast
    qed
    then have "rises (externalTriggerLastState ls) (trigger_bits (datacopies msg) L R) = []"
      unfolding bits by (intro none) auto
    then show ?thesis by (simp add: trigs R)
  qed
  then show ?thesis using run trigs by (auto simp: R bits)
qed

subsection \<open>Channel numbers\<close>

text \<open>The two channels of a pixel as numbers with names, and the numbers of a group.\<close>

definition pixel_labels :: "int \<Rightarrow> (int \<times> string) list" where
  "pixel_labels x = [(x, ''err'' @ fmt_d x), (x, ''chan'' @ fmt_d x)]"

definition labels :: "numbering \<Rightarrow> (int \<times> string) list" where
  "labels nm = map (\<lambda>e. (ceNumber e, ceName e)) (nmEntries nm)"

definition group_range :: "GroupIndex \<Rightarrow> int list" where
  "group_range g = [Firstchan g..Firstchan g + Nchan g - 1]"

definition next_start :: "int \<Rightarrow> numbering \<Rightarrow> int" where
  "next_start sepCol nm = (if sepCol > 0 then nmFirst nm + sepCol else nmCnum nm)"

definition column_step :: "int \<Rightarrow> LanceroDevice \<Rightarrow> int" where
  "column_step sepCol d = (if sepCol > 0 then sepCol else devRows d)"

text \<open>What a part of the numbering appends: the pixels \<open>ns\<close>, in groups that list exactly them.\<close>

definition numbers_added :: "numbering \<Rightarrow> numbering \<Rightarrow> int list \<Rightarrow> bool" where
  "numbers_added nm nm' ns \<longleftrightarrow> labels nm' = labels nm @ concat (map pixel_labels ns)
     \<and> (\<exists>gs. nmGroups nm' = nmGroups nm @ gs \<and> concat (map group_range gs) = ns)"

lemma numbers_added_none: "numbers_added nm nm []"
  by (simp add: numbers_added_def exI [of _ "[]"])

lemma numbers_added_trans:
  assumes "numbers_added nm nm1 xs" "numbers_added nm1 nm2 ys"
  shows "numbers_added nm nm2 (xs @ ys)"
proof -
  obtain gs where gs: "nmGroups nm1 = nmGroups nm @ gs" "concat (map group_range gs) = xs"
    using assms(1) by (auto simp: numbers_added_def)
  obtain hs where hs: "nmGroups nm2 = nmGroups nm1 @ hs" "concat (map group_range hs) = ys"
    using assms(2) by (auto simp: numbers_added_def)
  have "nmGroups nm2 = nmGroups nm @ (gs @ hs)" "concat (map group_range (gs @ hs)) = xs @ ys"
    using gs hs by simp_all
  then show ?thesis using assms by (auto simp: numbers_added_def)
qed

lemma number_column_run:
  assumes "real_card d"
  shows "numbers_added nm (number_column sepCol d nm col) [next_start sepCol nm..next_start sepCol nm + devRows d - 1]"
    "next_start sepCol (number_column sepCol d nm col) = next_start sepCol nm + column_step sepCol d"
proof -
  define x where "x = next_start sepCol nm"
  have pix: "map (\<lambda>e. (ceNumber e, ceName e)) (pixel_entries d col x row) = pixel_labels (x + row)" for row
    by (simp add: pixel_entries_def pixel_labels_def Let_def)
  have "map ((+) x) [0..devRows d - 1] = [x..x + devRows d - 1]"
    by (rule nth_equalityI) simp_all
  then have "concat (map (\<lambda>row. pixel_labels (x + row)) [0..devRows d - 1]) = concat (map pixel_labels [x..x + devRows d - 1])"
    by (metis (no_types, lifting) map_map o_def map_cong)
  then show "numbers_added nm (number_column sepCol d nm col) [next_start sepCol nm..next_start sepCol nm + devRows d - 1]"
    using pix by (auto simp: numbers_added_def number_column_def labels_def next_start_def x_def group_range_def
      map_concat o_def Let_def)
  show "next_start sepCol (number_column sepCol d nm col) = next_start sepCol nm + column_step sepCol d"
    using assms by (simp add: number_column_def next_start_def column_step_def Let_def real_card_def)
qed

lemma number_columns_run:
  assumes "real_card d" "sepCol > 0 \<Longrightarrow> devRows d \<le> sepCol"
  shows "\<exists>ns. numbers_added nm (foldl (number_column sepCol d) nm cols) ns \<and> distinct ns
    \<and> (\<forall>x\<in>set ns. next_start sepCol nm \<le> x \<and> x < next_start sepCol nm + int (length cols) * column_step sepCol d)
    \<and> next_start sepCol (foldl (number_column sepCol d) nm cols)
      = next_start sepCol nm + int (length cols) * column_step sepCol d
    \<and> int (length ns) = int (length cols) * devRows d"
proof (induction cols arbitrary: nm)
  case Nil
  then show ?case by (intro exI [of _ "[]"]) (simp add: numbers_added_none)
next
  case (Cons c cols)
  define x where "x = next_start sepCol nm"
  note col = number_column_run [OF assms(1), where nm = nm and sepCol = sepCol and col = c, folded x_def]
  have step: "devRows d \<le> column_step sepCol d" "0 \<le> column_step sepCol d" using assms by (simp_all add: column_step_def real_card_def)
  from Cons.IH [of "number_column sepCol d nm c"] obtain ns where
    ns: "numbers_added (number_column sepCol d nm c) (foldl (number_column sepCol d) (number_column sepCol d nm c) cols) ns"
      "distinct ns" "\<forall>y\<in>set ns. x + column_step sepCol d \<le> y
        \<and> y < x + column_step sepCol d + int (length cols) * column_step sepCol d"
      "next_start sepCol (foldl (number_column sepCol d) (number_column sepCol d nm c) cols)
        = x + column_step sepCol d + int (length cols) * column_step sepCol d"
      "int (length ns) = int (length cols) * devRows d"
    unfolding col(2) by blast
  have "0 \<le> devRows d" using assms(1) by (simp add: real_card_def)
  then have "int (length ([x..x + devRows d - 1] @ ns)) = int (length (c # cols)) * devRows d"
    using ns(5) by (simp add: algebra_simps)
  moreover have "distinct ([x..x + devRows d - 1] @ ns)" using ns(2,3) step by fastforce
  moreover have "\<forall>y\<in>set ([x..x + devRows d - 1] @ ns). x \<le> y \<and> y < x + int (length (c # cols)) * column_step sepCol d"
  proof -
    define K where "K = int (length cols) * column_step sepCol d"
    have K: "0 \<le> K" "int (length (c # cols)) * column_step sepCol d = column_step sepCol d + K"
      using step by (simp_all add: K_def algebra_simps)
    show ?thesis unfolding K(2) using ns(3) [folded K_def] step K(1) by auto
  qed
  ultimately show ?case
    using numbers_added_trans [OF col(1) ns(1)] ns(4) by (intro exI [of _ "[x..x + devRows d - 1] @ ns"])
      (simp add: x_def [symmetric] algebra_simps)
qed

definition separated :: "int \<Rightarrow> int \<Rightarrow> LanceroDevice list \<Rightarrow> bool" where
  "separated sepCol sepCard devs \<longleftrightarrow> 0 \<le> sepCol \<and> 0 \<le> sepCard \<and> (\<forall>d\<in>set devs. real_card d
     \<and> (sepCol > 0 \<longrightarrow> devRows d \<le> sepCol) \<and> (sepCard > 0 \<longrightarrow> column_step sepCol d * devCols d \<le> sepCard))"

lemma number_device_run:
  fixes nm :: numbering and firstRow :: int
  assumes "separated sepCol sepCard (d # devs)"
  defines "start \<equiv> (if sepCard > 0 then devnum d * sepCard + firstRow else next_start sepCol nm)"
  shows "\<exists>ns. numbers_added nm (number_device sepCol sepCard firstRow nm d) ns \<and> distinct ns
    \<and> (\<forall>x\<in>set ns. start \<le> x \<and> x < start + column_step sepCol d * devCols d)
    \<and> next_start sepCol (number_device sepCol sepCard firstRow nm d) = start + column_step sepCol d * devCols d
    \<and> 2 * int (length ns) = card_channels d"
proof -
  define nm1 where "nm1 = (if sepCard > 0 then let cnum = devnum d * sepCard + firstRow in nm\<lparr>nmCnum := cnum, nmFirst := cnum - sepCol\<rparr> else nm)"
  have d: "real_card d" "sepCol > 0 \<Longrightarrow> devRows d \<le> sepCol" using assms(1) by (simp_all add: separated_def)
  have same: "numbers_added nm1 nm' ns = numbers_added nm nm' ns" for nm' ns
    by (simp add: nm1_def numbers_added_def labels_def Let_def)
  have start: "next_start sepCol nm1 = start"
    using assms(1) by (auto simp: nm1_def next_start_def start_def separated_def Let_def)
  have "int (length [0..devCols d - 1]) = devCols d" using d(1) by (simp add: real_card_def)
  moreover have "number_device sepCol sepCard firstRow nm d = foldl (number_column sepCol d) nm1 [0..devCols d - 1]"
    by (simp add: number_device_def nm1_def)
  ultimately show ?thesis
    using number_columns_run [OF d, of nm1 "[0..devCols d - 1]"]
    unfolding start same card_channels_def by (simp add: mult.commute)
qed

lemma number_devices_in_sequence:
  assumes "separated sepCol 0 devs"
  shows "\<exists>ns. numbers_added nm (foldl (number_device sepCol 0 firstRow) nm devs) ns \<and> distinct ns
    \<and> (\<forall>x\<in>set ns. next_start sepCol nm \<le> x) \<and> 2 * int (length ns) = sum_list (map card_channels devs)"
  using assms
proof (induction devs arbitrary: nm)
  case Nil
  then show ?case by (intro exI [of _ "[]"]) (simp add: numbers_added_none)
next
  case (Cons d devs)
  define s where "s = next_start sepCol nm"
  obtain xs where xs: "numbers_added nm (number_device sepCol 0 firstRow nm d) xs" "distinct xs"
    "\<forall>x\<in>set xs. s \<le> x \<and> x < s + column_step sepCol d * devCols d"
    "next_start sepCol (number_device sepCol 0 firstRow nm d) = s + column_step sepCol d * devCols d"
    "2 * int (length xs) = card_channels d"
    using number_device_run [OF Cons.prems, where firstRow = firstRow and nm = nm] by (auto simp: s_def)
  obtain ys where ys: "numbers_added (number_device sepCol 0 firstRow nm d) (foldl (number_device sepCol 0 firstRow) nm (d # devs)) ys"
    "distinct ys" "\<forall>y\<in>set ys. s + column_step sepCol d * devCols d \<le> y"
    "2 * int (length ys) = sum_list (map card_channels devs)"
    using Cons.IH [of "number_device sepCol 0 firstRow nm d"] Cons.prems by (auto simp: separated_def xs(4))
  have "0 \<le> column_step sepCol d * devCols d"
    using Cons.prems by (auto simp: separated_def column_step_def real_card_def)
  then have "\<forall>x\<in>set (xs @ ys). s \<le> x" "distinct (xs @ ys)" using xs(2,3) ys(2,3) by fastforce+
  moreover have "2 * int (length (xs @ ys)) = sum_list (map card_channels (d # devs))" using xs(5) ys(4) by simp
  ultimately show ?case using numbers_added_trans [OF xs(1) ys(1)] unfolding s_def by blast
qed

lemma number_devices_apart:
  assumes "separated sepCol sepCard devs" "0 < sepCard" "distinct (map devnum devs)"
  shows "\<exists>ns. numbers_added nm (foldl (number_device sepCol sepCard firstRow) nm devs) ns \<and> distinct ns
    \<and> (\<forall>x\<in>set ns. \<exists>d\<in>set devs. (x - firstRow) div sepCard = devnum d)
    \<and> 2 * int (length ns) = sum_list (map card_channels devs)"
  using assms
proof (induction devs arbitrary: nm)
  case Nil
  then show ?case by (intro exI [of _ "[]"]) (simp add: numbers_added_none)
next
  case (Cons d devs)
  define s where "s = devnum d * sepCard + firstRow"
  obtain xs where xs: "numbers_added nm (number_device sepCol sepCard firstRow nm d) xs" "distinct xs"
    "\<forall>x\<in>set xs. s \<le> x \<and> x < s + column_step sepCol d * devCols d" "2 * int (length xs) = card_channels d"
    using number_device_run [OF Cons.prems(1), where firstRow = firstRow and nm = nm] Cons.prems(2) by (auto simp: s_def)
  have own: "(x - firstRow) div sepCard = devnum d" if "x \<in> set xs" for x
  proof -
    have "s \<le> x" "x < s + sepCard" using xs(3) that Cons.prems(1,2) by (fastforce simp: separated_def)+
    then show ?thesis by (intro int_div_pos_eq [of _ _ _ "x - s"]) (simp_all add: s_def algebra_simps)
  qed
  obtain ys where ys: "numbers_added (number_device sepCol sepCard firstRow nm d) (foldl (number_device sepCol sepCard firstRow) nm (d # devs)) ys"
    "distinct ys" "\<forall>y\<in>set ys. \<exists>d\<in>set devs. (y - firstRow) div sepCard = devnum d"
    "2 * int (length ys) = sum_list (map card_channels devs)"
    using Cons.IH [of "number_device sepCol sepCard firstRow nm d"] Cons.prems by (auto simp: separated_def)
  have "set xs \<inter> set ys = {}"
  proof (rule ccontr)
    assume "set xs \<inter> set ys \<noteq> {}"
    then obtain x where "x \<in> set xs" "x \<in> set ys" by blast
    then show False using own ys(3) Cons.prems(3) by force
  qed
  then have "distinct (xs @ ys)" using xs(2) ys(2) by simp
  moreover have "\<forall>x\<in>set (xs @ ys). \<exists>d\<in>set (d # devs). (x - firstRow) div sepCard = devnum d" using own ys(3) by auto
  moreover have "2 * int (length (xs @ ys)) = sum_list (map card_channels (d # devs))" using xs(4) ys(4) by simp
  ultimately show ?case using numbers_added_trans [OF xs(1) ys(1)] by blast
qed

lemma check_separations_ok:
  assumes "check_separations ls devs = (ls1, None)" "\<forall>d\<in>set devs. real_card d"
  shows "ls1 = ls \<and> separated (chanSepColumns ls) (chanSepCards ls) devs"
  using assms unfolding check_separations_def Let_def separated_def column_step_def
  by (auto split: if_splits option.splits simp: find_None_iff not_less)

text \<open>
  C30: When the channels are prepared successfully, every pixel of every card has its own number: the
  error and the feedback channel of a pixel share it and are named after it, no two pixels have the
  same one, and the channel groups list exactly the numbers in use.  This holds for every choice of
  the separations that the checks accept.
\<close>

theorem pixel_numbers_unique:
  assumes "lancero_PrepareChannels ls = Inr (ls', None)" "active_devices ls = Inr devs" "distinct (map devnum devs)"
    and "\<forall>d\<in>set devs. real_card d" "nchan (lsSource ls) = sum_list (map card_channels devs)"
  shows "\<exists>ns. distinct ns \<and> zip (chanNumbers (lsSource ls')) (chanNames (lsSource ls')) = concat (map pixel_labels ns)
    \<and> length (chanNumbers (lsSource ls')) = 2 * length ns
    \<and> concat (map group_range (groupKeysSorted (lsSource ls'))) = ns"
proof -
  define ls0 where "ls0 = ls\<lparr>lsSource := (lsSource ls)\<lparr>channelsPerPixel := 2\<rparr>\<rparr>"
  have devs: "active_devices ls0 = Inr devs" using assms(2) by (simp add: ls0_def active_devices_def device_of_def [abs_def])
  obtain ls1 err where check: "check_separations ls0 devs = (ls1, err)" by fastforce
  have "err = None" using assms(1) devs check by (auto simp: lancero_PrepareChannels_def ls0_def [symmetric] Let_def split: if_splits)
  with check_separations_ok [OF check [unfolded this] assms(4)] have ls1: "ls1 = ls0"
    and sep: "separated (chanSepColumns ls0) (chanSepCards ls0) devs" by simp_all
  define nm0 where "nm0 = \<lparr>nmCnum = firstRowChanNum ls0, nmFirst = firstRowChanNum ls0 - chanSepColumns ls0, nmGroups = [], nmEntries = []\<rparr>"
  define nm where "nm = foldl (number_device (chanSepColumns ls0) (chanSepCards ls0) (firstRowChanNum ls0)) nm0 devs"
  obtain ns where ns: "numbers_added nm0 nm ns" "distinct ns" "2 * int (length ns) = sum_list (map card_channels devs)"
  proof (cases "chanSepCards ls0 > 0")
    case True
    then show ?thesis using number_devices_apart [OF sep True assms(3), of nm0 "firstRowChanNum ls0"] that by (auto simp: nm_def)
  next
    case False
    then have "chanSepCards ls0 = 0" using sep by (simp add: separated_def)
    then show ?thesis using number_devices_in_sequence [of "chanSepColumns ls0" devs nm0 "firstRowChanNum ls0"] sep that
      by (auto simp: nm_def)
  qed
  have lab: "labels nm = concat (map pixel_labels ns)" "concat (map group_range (nmGroups nm)) = ns"
    using ns(1) by (auto simp: numbers_added_def nm0_def labels_def)
  define rest where "rest = nat (nchan (lsSource ls0)) - length (nmEntries nm)"
  have out: "chanNumbers (lsSource ls') = map ceNumber (nmEntries nm) @ replicate rest 0"
    "chanNames (lsSource ls') = map ceName (nmEntries nm) @ replicate rest []" "groupKeysSorted (lsSource ls') = nmGroups nm"
    using assms(1) devs check \<open>err = None\<close> ls1
    by (auto simp: lancero_PrepareChannels_def ls0_def [symmetric] nm0_def [symmetric] nm_def [symmetric] rest_def
      Let_def case_prod_beta split: if_splits)
  have len: "length (nmEntries nm) = 2 * length ns"
  proof -
    have "length (labels nm) = 2 * length ns" unfolding lab(1) by (induction ns) (simp_all add: pixel_labels_def)
    then show ?thesis by (simp add: labels_def)
  qed
  have "rest = 0" using len ns(3) assms(5) by (simp add: rest_def ls0_def)
  then show ?thesis
    using ns(2) lab len by (intro exI [of _ ns]) (simp add: out labels_def zip_map_map zip_same_conv_map o_def)
qed

subsection \<open>Concrete blocks\<close>

definition demo_message :: "bool \<Rightarrow> raw list list \<Rightarrow> BuffersChanType" where
  "demo_message lost copies = \<lparr>datacopies = copies, lastSampleTime = 3000000000, timeDiff = 0, totalBytes = 0,
     dataDropDetected = lost\<rparr>"

lemma demo_block_input:
  assumes "0 < rows" "0 < cols" "n = channels_of (demo_card 0 rows cols)" "length copies = n" "\<forall>c\<in>set copies. length c = L"
  shows "block_input (demo_lancero [demo_card 0 rows cols] n) (demo_card 0 rows cols) n L (demo_message lost copies)"
proof -
  have "order_ok (readout_order 0 [demo_card 0 rows cols]) n"
    using readout_order_set [of 0 "[demo_card 0 rows cols]"] assms(3) by (simp add: order_ok_def card_distinct)
  moreover have n: "int n = 2 * (rows * cols)" using assms(1-3) by (simp add: channels_of_def demo_card_def)
  moreover have "rows * 1 \<le> rows * cols" using assms(1,2) by (intro mult_left_mono) simp_all
  moreover have "0 < n" using assms(1-3) by (simp add: channels_of_def demo_card_def)
  ultimately show ?thesis
    using assms by (simp add: block_input_def demo_lancero_def demo_message_def device_of_def demo_card_def)
qed

theorem block_carries_pixels_witness:
  "\<exists>ls' block. distributeData (demo_lancero [demo_card 0 2 1] 4) (demo_message False [[1, 2], [3, 4], [5, 6], [7, 8]])
      = Inr (ls', block) \<and> rawData (segments block ! 2) = [5, 6]"
proof -
  let ?d = "demo_card 0 2 1" and ?m = "demo_message False [[1, 2], [3, 4], [5, 6], [7, 8]]"
  have n: "channels_of ?d = 4" by (simp add: channels_of_def demo_card_def)
  have i: "block_input (demo_lancero [?d] 4) ?d (channels_of ?d) 2 ?m"
    unfolding n by (rule demo_block_input) (simp_all add: n)
  have r: "real_card ?d" "chan2readoutOrder (demo_lancero [?d] 4) = readout_order 0 [?d]"
    by (simp_all add: real_card_def demo_card_def demo_lancero_def)
  obtain ls' block where b: "distributeData (demo_lancero [?d] 4) ?m = Inr (ls', block)"
    and all: "\<forall>row<nat (devRows ?d). \<forall>col<nat (devCols ?d). let ch = 2 * (col * nat (devRows ?d) + row); place = 2 * (row * nat (devCols ?d) + col) in
        rawData (segments block ! ch) = datacopies ?m ! place
        \<and> rawData (segments block ! (ch + 1))
          = snd (mix_filter (lsMix (demo_lancero [?d] 4) ! (ch + 1)) (zip (datacopies ?m ! (place + 1)) (datacopies ?m ! place)))"
    using block_carries_pixels [OF i r refl refl] by blast
  have "rawData (segments block ! 2) = [5, 6]"
    using all [rule_format, of 1 0] by (simp add: demo_card_def demo_message_def)
  then show ?thesis using b by blast
qed

theorem frames_repeat_after_drop_witness:
  "\<exists>ls1 b1 ls2 b2. distributeData (demo_lancero [demo_card 0 2 1] 4) (demo_message True (replicate 4 [1, 2])) = Inr (ls1, b1)
    \<and> distributeData ls1 (demo_message False (replicate 4 [5])) = Inr (ls2, b2)
    \<and> firstFrameIndex (hd (segments b2)) = firstFrameIndex (hd (segments b1)) - 1"
proof -
  let ?ls = "demo_lancero [demo_card 0 2 1] 4" and ?m = "demo_message True (replicate 4 [1, 2])"
  have n: "4 = channels_of (demo_card 0 2 1)" by (simp add: channels_of_def demo_card_def)
  have i: "block_input ?ls (demo_card 0 2 1) 4 2 ?m"
    "block_input ?ls (demo_card 0 2 1) 4 1 (demo_message False (replicate 4 [5]))"
    by (rule demo_block_input [OF _ _ n]; simp)+
  have "srcSampleRate (lsSource ?ls) = Fin 1" by (simp add: demo_lancero_def demo_source_def)
  moreover have "roundint (fmul r64 (duration_seconds 3000000000) (Fin 1)) = 3"
  proof -
    have "fadd r64 (Fin 3) (Fin 0) = Fin 3" "fmul r64 (Fin 3) (Fin 1) = Fin 3" using r64_int [of 3] by simp_all
    moreover have "fdiv r64 (Fin 0) (Fin 1000000000) = Fin 0" using r64_int [of 0] by simp
    ultimately have "fmul r64 (duration_seconds 3000000000) (Fin 1) = Fin 3"
      using f64_of_int_exact [of 3] f64_of_int_exact [of 0] by (simp add: duration_seconds_def)
    then show ?thesis using roundint_between [of 3 3 3] by simp
  qed
  ultimately have "dropped_frames ?ls ?m = 3"
    by (simp add: dropped_frames_def demo_message_def) (simp add: demo_lancero_def)
  then show ?thesis
    using frames_repeat_after_drop [OF i] by (fastforce simp: demo_message_def)
qed

theorem external_triggers_misplaced_witness:
  "\<exists>ls' block. distributeData (demo_lancero [demo_card 0 4 2] 16)
      (demo_message False (map (\<lambda>place. [if place \<ge> 12 then 2 else 0]) [0..<16])) = Inr (ls', block)
    \<and> externalTriggerRowcounts block = []"
proof -
  let ?d = "demo_card 0 4 2" and ?m = "demo_message False (map (\<lambda>place. [if place \<ge> 12 then 2 else 0]) [0..<16])"
  have n: "channels_of ?d = 16" by (simp add: channels_of_def demo_card_def)
  have i: "block_input (demo_lancero [?d] 16) ?d (channels_of ?d) 1 ?m"
    unfolding n by (rule demo_block_input) (simp_all add: n)
  have dims: "(4 :: nat) = nat (devRows ?d)" "(2 :: nat) = nat (devCols ?d)" by (simp_all add: demo_card_def)
  have bits: "trigger_bit 2" "\<not> trigger_bit 0" by code_simp+
  have T: "\<forall>f<1. \<forall>row<4. \<forall>col<2. trigger_bit (datacopies ?m ! (2 * (row * 2 + col) + 1) ! f) = (\<lambda>f row. row = 3) f row"
  proof (intro allI impI)
    fix f row col :: nat assume lt: "f < 1" "row < 4" "col < 2"
    then have "2 * (row * 2 + col) + 1 < 16" "2 * (row * 2 + col) + 1 \<ge> 12 \<longleftrightarrow> row = 3" by presburger+
    then show "trigger_bit (datacopies ?m ! (2 * (row * 2 + col) + 1) ! f) = (\<lambda>f row. row = 3) f row"
      using lt bits by (simp add: demo_message_def)
  qed
  from external_triggers_misplaced [OF i dims _ T] show ?thesis by auto
qed

theorem pixel_numbers_unique_witness:
  "\<exists>ls'. lancero_PrepareChannels ((demo_lancero [demo_card 0 2 2, demo_card 1 2 1] 12)\<lparr>chanSepCards := 10, chanSepColumns := 5\<rparr>)
      = Inr (ls', None)
    \<and> (\<exists>ns. distinct ns \<and> zip (chanNumbers (lsSource ls')) (chanNames (lsSource ls')) = concat (map pixel_labels ns)
      \<and> length (chanNumbers (lsSource ls')) = 2 * length ns
      \<and> concat (map group_range (groupKeysSorted (lsSource ls'))) = ns)"
proof -
  let ?ds = "[demo_card 0 2 2, demo_card 1 2 1]" let ?ls = "(demo_lancero ?ds 12)\<lparr>chanSepCards := 10, chanSepColumns := 5\<rparr>"
  define ls ls0 where "ls = ?ls" and "ls0 = ls\<lparr>lsSource := (lsSource ls)\<lparr>channelsPerPixel := 2\<rparr>\<rparr>"
  have devs: "active_devices ls0 = Inr ?ds"
    by (simp add: ls0_def ls_def active_devices_def demo_lancero_def device_of_def demo_card_def)
  have seps: "chanSepColumns ls0 = 5" "chanSepCards ls0 = 10" "firstRowChanNum ls0 = 1" "nchan (lsSource ls0) = 12"
    by (simp_all add: ls0_def ls_def demo_lancero_def)
  have check: "check_separations ls0 ?ds = (ls0, None)"
    by (simp add: check_separations_def seps demo_card_def)
  have nums: "[0..(0 :: int)] = [0]" "[0..(1 :: int)] = [0, 1]" by code_simp+
  have "length (nmEntries (foldl (number_device 5 10 1) \<lparr>nmCnum = 1, nmFirst = 1 - 5, nmGroups = [], nmEntries = []\<rparr> ?ds)) = 12"
    by (simp add: number_device_def number_column_def pixel_entries_def demo_card_def nums Let_def)
  then have "\<exists>ls'. lancero_PrepareChannels ls = Inr (ls', None)"
    by (simp add: lancero_PrepareChannels_def ls0_def [symmetric] devs check seps case_prod_beta Let_def)
  then obtain ls' where p: "lancero_PrepareChannels ?ls = Inr (ls', None)" by (auto simp: ls_def)
  have "active_devices ?ls = Inr ?ds" "distinct (map devnum ?ds)" "\<forall>d\<in>set ?ds. real_card d"
    "nchan (lsSource ?ls) = sum_list (map card_channels ?ds)"
    by (simp_all add: active_devices_def demo_lancero_def device_of_def demo_card_def real_card_def card_channels_def)
  note unique = pixel_numbers_unique [OF p this]
  show ?thesis by (rule exI [of _ ls'], rule conjI, rule p, rule unique)
qed

end
