(* ===== verification/LanceroControl.thy ===== *)
theory LanceroControl
  imports LanceroBlocks
begin

text \<open>
  Requests to the TDM source: the coupling of error and feedback channels and the mixing fractions;
  and what the reader does with data that has no frame bits.
\<close>

subsection \<open>Coupling\<close>

lemma pair_starts_set: "i \<in> set (pair_starts n) \<longleftrightarrow> 0 \<le> i \<and> i < n \<and> even i"
  by (auto simp: pair_starts_def)

text \<open>The ends of the connection of the pair that begins at \<open>i\<close>.\<close>

definition pair_ends :: "bool \<Rightarrow> int \<Rightarrow> int \<times> int" where
  "pair_ends err_to_fb i = (if err_to_fb then (i, i + 1) else (i + 1, i))"

lemma couple_fold:
  assumes "broker_ok b" "nchannels b = n" "\<forall>i\<in>set js. 0 \<le> i \<and> i + 1 < n"
  shows "let b' = foldl (\<lambda>b i. let (s, r) = pair_ends dir i in
        fst (if turnon then AddConnection b s r else DeleteConnection b s r)) b js
    in broker_ok b' \<and> nchannels b' = n
      \<and> (\<forall>s r. isConnected b' s r \<longleftrightarrow> (if (s, r) \<in> pair_ends dir ` set js then turnon else isConnected b s r))"
  using assms
proof (induction js arbitrary: b)
  case (Cons i js)
  obtain s r where sr: "pair_ends dir i = (s, r)" by (cases "pair_ends dir i")
  have range: "0 \<le> r" "r < n" "s \<noteq> r" using Cons.prems(3) sr by (auto simp: pair_ends_def split: if_splits)
  define b1 where "b1 = fst (if turnon then AddConnection b s r else DeleteConnection b s r)"
  have b1: "broker_ok b1" "nchannels b1 = n"
    "isConnected b1 s' r' \<longleftrightarrow> (if (s', r') = (s, r) then turnon else isConnected b s' r')" for s' r'
    using AddConnection_ok [OF Cons.prems(1), of s r s' r'] DeleteConnection_ok [OF Cons.prems(1), of s r s' r']
      range Cons.prems(2) by (auto simp: b1_def)
  have "\<forall>i\<in>set js. 0 \<le> i \<and> i + 1 < n" using Cons.prems(3) by simp
  from Cons.IH [OF b1(1,2) this] show ?case
    by (auto simp: sr b1_def [symmetric] b1(3) Let_def)
qed simp

definition partners :: "int \<Rightarrow> int \<Rightarrow> int \<Rightarrow> bool" where
  "partners n s r \<longleftrightarrow> 0 \<le> s \<and> s < n \<and> 0 \<le> r \<and> r < n \<and> s \<noteq> r \<and> s div 2 = r div 2"

lemma pair_ends_partners:
  assumes "even n"
  shows "(s, r) \<in> pair_ends dir ` set (pair_starts n) \<longleftrightarrow> partners n s r \<and> even s = dir"
proof
  assume "(s, r) \<in> pair_ends dir ` set (pair_starts n)"
  then obtain i where i: "0 \<le> i" "i < n" "even i" "(s, r) = pair_ends dir i" by (auto simp: pair_starts_set)
  then have "i + 1 < n" using assms by presburger
  then show "partners n s r \<and> even s = dir" using i by (auto simp: partners_def pair_ends_def split: if_splits)
next
  assume p: "partners n s r \<and> even s = dir"
  define i where "i = 2 * (s div 2)"
  have "i \<in> set (pair_starts n)" using p by (auto simp: partners_def pair_starts_set i_def)
  moreover have "(s, r) = pair_ends dir i"
    using p unfolding partners_def pair_ends_def i_def by (auto; presburger)
  ultimately show "(s, r) \<in> pair_ends dir ` set (pair_starts n)" by blast
qed

lemma couple_pairs_connected:
  assumes "broker_ok b" "nchannels b = n" "even n"
  shows "broker_ok (couple_pairs turnon dir n b)" "nchannels (couple_pairs turnon dir n b) = n"
    "isConnected (couple_pairs turnon dir n b) s r
      \<longleftrightarrow> (if partners n s r \<and> even s = dir then turnon else isConnected b s r)"
proof -
  have "\<forall>i\<in>set (pair_starts n). 0 \<le> i \<and> i + 1 < n" using assms(3) by (auto simp: pair_starts_set) presburger
  from couple_fold [OF assms(1,2) this, of dir turnon]
  show "broker_ok (couple_pairs turnon dir n b)" "nchannels (couple_pairs turnon dir n b) = n"
    "isConnected (couple_pairs turnon dir n b) s r
      \<longleftrightarrow> (if partners n s r \<and> even s = dir then turnon else isConnected b s r)"
    unfolding couple_pairs_def pair_ends_def [symmetric] Let_def pair_ends_partners [OF assms(3)] by blast+
qed

text \<open>
  Setting the coupling replaces the connections between the error and the feedback channel of every
  pixel by those of the requested direction, whatever they were, and leaves all other group
  triggers alone.
\<close>

theorem coupling_is_relation:
  assumes "broker (lsSource ls) = Some b" "broker_ok b" "nchannels b = nchan (lsSource ls)" "even (nchan (lsSource ls))"
  shows "\<exists>ls' b'. lancero_SetCoupling ls status = Inr ls' \<and> broker (lsSource ls') = Some b' \<and> broker_ok b'
    \<and> (\<forall>s r. isConnected b' s r \<longleftrightarrow>
        (if partners (nchan (lsSource ls)) s r then (if even s then status = ErrToFB else status = FBToErr)
         else isConnected b s r))"
proof -
  let ?n = "nchan (lsSource ls)"
  note c1 = couple_pairs_connected [OF assms(2-4), of "status = ErrToFB" True]
  note c2 = couple_pairs_connected [OF c1(1,2) assms(4), of "status = FBToErr" False]
  have "\<forall>s r. isConnected (couple_pairs (status = FBToErr) False ?n (couple_pairs (status = ErrToFB) True ?n b)) s r \<longleftrightarrow>
      (if partners ?n s r then (if even s then status = ErrToFB else status = FBToErr) else isConnected b s r)"
    unfolding c2(3) c1(3) by auto
  then show ?thesis using assms(1) c2(1) by (simp add: lancero_SetCoupling_def Let_def)
qed

subsection \<open>Data without frame bits\<close>

lemma q_loop_blank:
  assumes "\<forall>j. 4 * (w + j) + 2 < length b \<longrightarrow> \<not> word_bit b (w + j)"
  shows "q_loop b (4 * w + 2) seen False = 0"
  using assms
proof (induction "length b - w" arbitrary: w seen rule: less_induct)
  case less
  show ?case
  proof (cases "4 * w + 2 < length b")
    case True
    have "\<not> word_bit b w" using less.prems [rule_format, of 0] True by simp
    then have "q_loop b (4 * w + 2) seen False = q_loop b (4 * Suc w + 2) True False"
      using True by (subst q_loop.simps) (cases seen; simp)
    also have "\<dots> = 0"
    proof (rule less.hyps)
      show "length b - Suc w < length b - w" using True by simp
      show "\<forall>j. 4 * (Suc w + j) + 2 < length b \<longrightarrow> \<not> word_bit b (Suc w + j)"
        using less.prems by (metis add_Suc_shift)
    qed
    finally show ?thesis .
  next
    case False
    then show ?thesis by (subst q_loop.simps) simp
  qed
qed

text \<open>
  When no word of a buffer carries the frame bit, the search looks at the error bytes instead; if
  the first one is even the reader divides by the number of columns it did not find, and the program
  ends with a panic instead of the warning that the code after the division prints.
\<close>

theorem blank_data_stops_program:
  assumes "lsActive ls = [c]" "device_of ls c = Inr d" "3 * frameSize d \<le> int (length b)" "since \<le> 10000000000"
    and "\<forall>w. 4 * w + 2 < length b \<longrightarrow> \<not> word_bit b w" "b = x # rest" "\<not> frame_bit x"
  shows "lancero_read ls since b t = Inl DivideByZero"
proof -
  have "q_loop b 2 False False = 0"
    using q_loop_blank [of 0 b False] assms(5) by (simp add: numeral_2_eq_2)
  moreover have "n_loop b 0 = 0" using assms(6,7) by (subst n_loop.simps) simp
  ultimately have "FindFrameBits b lanceroFBOffset = (0, 0, 0, Some NoFrameBits)"
    by (simp add: FindFrameBits_def lanceroFBOffset_def)
  then show ?thesis using assms(1-4) by (simp add: lancero_read_def div_go_def)
qed

subsection \<open>Mixing fractions\<close>

lemma check_mix_none:
  "check_mix ls chans = None \<longleftrightarrow> (\<forall>i\<in>set chans. 0 \<le> i \<and> i < int (length (lsMix ls)) \<and> odd i)"
proof -
  have "check_mix ls chans = None
      \<longleftrightarrow> find (\<lambda>i. i \<ge> int (length (lsMix ls)) \<or> i < 0 \<or> i mod 2 = 0) chans = None"
    by (simp add: check_mix_def split: option.split)
  then show ?thesis unfolding find_None_iff by (meson not_le odd_iff_mod_2_eq_one not_mod_2_eq_0_eq_1)
qed

lemma set_mix_run:
  assumes "\<forall>i\<in>set chans. 0 \<le> i \<and> i < int (length mixes)" "distinct chans" "k + length chans \<le> length fractions"
  shows "\<exists>ms. foldM_go (set_mix ns fractions) mixes (zip (map int [k..<k + length chans]) chans) = Inr ms
    \<and> length ms = length mixes \<and> (\<forall>j. lastFb (ms ! j) = lastFb (mixes ! j))
    \<and> (\<forall>j<length chans. errorScale (ms ! nat (chans ! j)) = fdiv r64 (fractions ! (k + j)) (f64_of_int ns))
    \<and> (\<forall>j<length mixes. int j \<notin> set chans \<longrightarrow> ms ! j = mixes ! j)"
  using assms
proof (induction chans arbitrary: mixes k)
  case (Cons c chans)
  define m1 where "m1 = mixes[nat c := (mixes ! nat c)\<lparr>errorScale := fdiv r64 (fractions ! k) (f64_of_int ns)\<rparr>]"
  have c: "0 \<le> c" "nat c < length mixes" "k < length fractions" using Cons.prems by auto
  have step: "set_mix ns fractions mixes (int k, c) = Inr m1"
    using c by (simp add: set_mix_def m1_def)
  have "\<forall>i\<in>set chans. 0 \<le> i \<and> i < int (length m1)" "distinct chans" "Suc k + length chans \<le> length fractions"
    using Cons.prems by (auto simp: m1_def)
  from Cons.IH [OF this] obtain ms where ms: "foldM_go (set_mix ns fractions) m1 (zip (map int [Suc k..<Suc k + length chans]) chans) = Inr ms"
    "length ms = length mixes" "\<forall>j. lastFb (ms ! j) = lastFb (m1 ! j)"
    "\<forall>j<length chans. errorScale (ms ! nat (chans ! j)) = fdiv r64 (fractions ! (Suc k + j)) (f64_of_int ns)"
    "\<forall>j<length mixes. int j \<notin> set chans \<longrightarrow> ms ! j = m1 ! j"
    by (auto simp: m1_def)
  have fb: "lastFb (m1 ! j) = lastFb (mixes ! j)" for j by (cases "j = nat c") (use c in \<open>auto simp: m1_def\<close>)
  have "c \<notin> set chans" using Cons.prems(2) by simp
  then have own: "errorScale (ms ! nat c) = fdiv r64 (fractions ! k) (f64_of_int ns)"
    using ms(5) c by (simp add: m1_def)
  have others: "\<forall>j<length mixes. int j \<notin> set (c # chans) \<longrightarrow> ms ! j = mixes ! j"
    using ms(5) c by (auto simp: m1_def)
  have "[k..<k + length (c # chans)] = k # [Suc k..<Suc k + length chans]" by (subst upt_conv_Cons) simp_all
  then have "foldM_go (set_mix ns fractions) mixes (zip (map int [k..<k + length (c # chans)]) (c # chans)) = Inr ms"
    using step ms(1) by simp
  moreover have "\<forall>j<length (c # chans). errorScale (ms ! nat ((c # chans) ! j)) = fdiv r64 (fractions ! (k + j)) (f64_of_int ns)"
    using own ms(4) by (auto simp: less_Suc_eq_0_disj)
  ultimately show ?case using ms(2,3) fb others by (intro exI [of _ ms]) simp
qed simp

lemma set_mix_short:
  assumes "\<forall>i\<in>set chans. 0 \<le> i \<and> i < int (length mixes)" "k \<le> length fractions" "length fractions < k + length chans"
  shows "foldM_go (set_mix ns fractions) mixes (zip (map int [k..<k + length chans]) chans) = Inl IndexOutOfRange"
  using assms
proof (induction chans arbitrary: mixes k)
  case (Cons c chans)
  have split: "[k..<k + length (c # chans)] = k # [Suc k..<Suc k + length chans]" by (subst upt_conv_Cons) simp_all
  show ?case
  proof (cases "k < length fractions")
    case True
    define m1 where "m1 = mixes[nat c := (mixes ! nat c)\<lparr>errorScale := fdiv r64 (fractions ! k) (f64_of_int ns)\<rparr>]"
    have "set_mix ns fractions mixes (int k, c) = Inr m1" using Cons.prems True by (simp add: set_mix_def m1_def)
    moreover have "foldM_go (set_mix ns fractions) m1 (zip (map int [Suc k..<Suc k + length chans]) chans) = Inl IndexOutOfRange"
      using Cons.prems True by (intro Cons.IH) (auto simp: m1_def)
    ultimately show ?thesis unfolding split by simp
  next
    case False
    then have "set_mix ns fractions mixes (int k, c) = Inl IndexOutOfRange" by (simp add: set_mix_def idx_def)
    then show ?thesis unfolding split by simp
  qed
qed simp

text \<open>
  A request for mixing fractions that names an invalid channel is refused and changes nothing.  A
  valid one sets the scale of each named feedback channel to its fraction over the number of samples
  that the firmware adds up, keeps all other mixers and the feedback sample each one remembers, and
  returns one current fraction per channel.  With fewer fractions than channels the program panics.
\<close>

theorem mix_request_effect:
  assumes "distinct chans"
  shows "(\<not> (\<forall>i\<in>set chans. 0 \<le> i \<and> i < int (length (lsMix ls)) \<and> odd i)
      \<longrightarrow> (\<exists>err. ConfigureMixFraction ls chans fractions = Inr (ls, Inl err)))
    \<and> ((\<forall>i\<in>set chans. 0 \<le> i \<and> i < int (length (lsMix ls)) \<and> odd i) \<and> length fractions < length chans
      \<longrightarrow> ConfigureMixFraction ls chans fractions = Inl IndexOutOfRange)
    \<and> ((\<forall>i\<in>set chans. 0 \<le> i \<and> i < int (length (lsMix ls)) \<and> odd i) \<and> length chans \<le> length fractions
      \<longrightarrow> (\<exists>ms current. ConfigureMixFraction ls chans fractions = Inr (ls\<lparr>lsMix := ms\<rparr>, Inr current)
        \<and> length ms = length (lsMix ls) \<and> length current = length (lsMix ls)
        \<and> (\<forall>j. lastFb (ms ! j) = lastFb (lsMix ls ! j))
        \<and> (\<forall>j<length chans. errorScale (ms ! nat (chans ! j)) = fdiv r64 (fractions ! j) (f64_of_int (lsNsamp ls)))
        \<and> (\<forall>j<length (lsMix ls). int j \<notin> set chans \<longrightarrow> ms ! j = lsMix ls ! j)))"
proof -
  let ?ok = "\<forall>i\<in>set chans. 0 \<le> i \<and> i < int (length (lsMix ls)) \<and> odd i"
  have "\<exists>err. ConfigureMixFraction ls chans fractions = Inr (ls, Inl err)" if "\<not> ?ok"
    using that check_mix_none [of ls chans] by (cases "check_mix ls chans") (auto simp: ConfigureMixFraction_def)
  moreover have "ConfigureMixFraction ls chans fractions = Inl IndexOutOfRange" if ok: ?ok and short: "length fractions < length chans"
  proof -
    have "foldM_go (set_mix (lsNsamp ls) fractions) (lsMix ls) (zip (map int [0..<0 + length chans]) chans) = Inl IndexOutOfRange"
      using ok short by (intro set_mix_short) simp_all
    then show ?thesis using check_mix_none [of ls chans] ok
      by (simp add: ConfigureMixFraction_def apply_mix_request_def upto_int)
  qed
  moreover have "\<exists>ms current. ConfigureMixFraction ls chans fractions = Inr (ls\<lparr>lsMix := ms\<rparr>, Inr current)
        \<and> length ms = length (lsMix ls) \<and> length current = length (lsMix ls)
        \<and> (\<forall>j. lastFb (ms ! j) = lastFb (lsMix ls ! j))
        \<and> (\<forall>j<length chans. errorScale (ms ! nat (chans ! j)) = fdiv r64 (fractions ! j) (f64_of_int (lsNsamp ls)))
        \<and> (\<forall>j<length (lsMix ls). int j \<notin> set chans \<longrightarrow> ms ! j = lsMix ls ! j)"
    if ok: ?ok and enough: "length chans \<le> length fractions"
  proof -
    obtain ms where ms: "foldM_go (set_mix (lsNsamp ls) fractions) (lsMix ls) (zip (map int [0..<0 + length chans]) chans) = Inr ms"
      "length ms = length (lsMix ls)" "\<forall>j. lastFb (ms ! j) = lastFb (lsMix ls ! j)"
      "\<forall>j<length chans. errorScale (ms ! nat (chans ! j)) = fdiv r64 (fractions ! (0 + j)) (f64_of_int (lsNsamp ls))"
      "\<forall>j<length (lsMix ls). int j \<notin> set chans \<longrightarrow> ms ! j = lsMix ls ! j"
      using set_mix_run [of chans "lsMix ls" 0 fractions "lsNsamp ls"] ok enough assms by auto
    have "ConfigureMixFraction ls chans fractions = Inr (ls\<lparr>lsMix := ms\<rparr>,
        Inr (map (\<lambda>m. fmul r64 (errorScale m) (f64_of_int (lsNsamp ls))) ms))"
      using check_mix_none [of ls chans] ok ms(1) by (simp add: ConfigureMixFraction_def apply_mix_request_def upto_int)
    then show ?thesis using ms(2-5) by auto
  qed
  ultimately show ?thesis by blast
qed

subsection \<open>Concrete requests\<close>

theorem coupling_is_relation_witness:
  "\<exists>ls' b'. lancero_SetCoupling ((demo_lancero [demo_card 0 1 1] 2)) FBToErr = Inr ls' \<and> broker (lsSource ls') = Some b'
    \<and> isConnected b' 1 0 \<and> \<not> isConnected b' 0 1"
proof -
  let ?ls = "demo_lancero [demo_card 0 1 1] 2" and ?b = "fst (AddConnection demo_broker 0 1)"
  have b: "broker (lsSource ?ls) = Some ?b" "nchan (lsSource ?ls) = 2" by (simp_all add: demo_lancero_def demo_source_def)
  have ok: "broker_ok ?b" "nchannels ?b = 2"
    using AddConnection_ok [OF demo_broker_ok(1), of 0 1] demo_broker_ok(2) by simp_all
  have "partners 2 1 0" "partners 2 0 1" by (simp_all add: partners_def)
  then show ?thesis using coupling_is_relation [OF b(1) ok(1), of FBToErr] ok(2) b(2) by fastforce
qed

theorem blank_data_stops_program_witness:
  "lancero_read (demo_lancero [demo_card 0 2 1] 4) 0 (replicate 24 0) 5 = Inl DivideByZero"
proof -
  have f: "\<not> frame_bit 0" by code_simp
  have z: "replicate 24 (0 :: u8) = 0 # replicate 23 0" by (simp add: numeral_eq_Suc)
  show ?thesis
    by (rule blank_data_stops_program [where c = 0 and d = "demo_card 0 2 1" and x = 0 and rest = "replicate 23 0"])
      (use f in \<open>simp_all add: demo_lancero_def demo_card_def device_of_def z [symmetric]\<close>)
qed

theorem mix_request_effect_witness:
  "ConfigureMixFraction (demo_lancero [demo_card 0 2 1] 4) [1, 3] [Fin 1] = Inl IndexOutOfRange"
proof -
  have "\<forall>i\<in>set [1, 3]. 0 \<le> i \<and> i < int (length (lsMix (demo_lancero [demo_card 0 2 1] 4))) \<and> odd (i :: int)"
    by (simp add: demo_lancero_def)
  then show ?thesis using mix_request_effect [of "[1, 3]" "demo_lancero [demo_card 0 2 1] 4" "[Fin 1]"] by simp
qed

end
