(* ===== verification/SimSources.thy ===== *)
theory SimSources
  imports SourceLaws
begin

text \<open>
  The simulated sources (\<open>simulated_data_sources.go\<close>): triangle waves, pulses with noise, and the
  source whose only block is an error.  The clock and the random numbers are arguments.  The locale
  \<open>block_producer\<close> states what the processing of blocks relies on and what any run of such a source
  then guarantees; both generators are instances of it.
\<close>

subsection \<open>State and configuration\<close>

datatype sim_error = FewChannels int | MinAboveMax raw raw | SimNotInactive | BufferTooLong go_duration

record TriangleSource =
  tsSource :: AnySource
  minval :: raw
  maxval :: raw
  tsTimeperbuf :: go_duration
  tsOnecycle :: "raw list"
  tsCycleLen :: int

record TriangleSourceConfig =
  tcNchan :: int
  tcSampleRate :: go_float
  tcMin :: raw
  tcMax :: raw

definition period_of_rate :: "go_float \<Rightarrow> go_duration" where
  "period_of_rate rate = roundint (fdiv r64 (Fin 1000000000) rate)"

definition buffer_time :: "int \<Rightarrow> go_float \<Rightarrow> go_duration" where
  "buffer_time len rate = int_of_f64 (fmul r64 (Fin 1000000000) (fdiv r64 (f64_of_int len) rate))"

text \<open>One cycle: up from the minimum, down from the maximum; a flat line when they are equal.\<close>

definition triangle_cycle :: "raw \<Rightarrow> raw \<Rightarrow> go_float \<Rightarrow> raw list go" where
  "triangle_cycle lo hi rate =
     (let nrise = hi - lo in
      if nrise > 0
      then Inr (map (\<lambda>i. lo + of_nat i) [0..<unat nrise] @ map (\<lambda>i. hi - of_nat i) [0..<unat nrise])
      else let n = roundint (fdiv r64 rate (Fin 10)) + 1 in
        if n < 0 then Inl SliceBounds else Inr (replicate (nat n) hi))"

definition triangle_Configure ::
  "TriangleSource \<Rightarrow> TriangleSourceConfig \<Rightarrow> (TriangleSource \<times> sim_error option) go" where
  "triangle_Configure ts config =
     (if tcNchan config < 1 then Inr (ts, Some (FewChannels (tcNchan config)))
      else if tcMin config > tcMax config then Inr (ts, Some (MinAboveMax (tcMin config) (tcMax config)))
      else if sourceState (tsSource ts) \<noteq> Inactive then Inr (ts, Some SimNotInactive)
      else let rate = tcSampleRate config;
               src = (tsSource ts)\<lparr>nchan := tcNchan config, srcSampleRate := rate, samplePeriod := period_of_rate rate\<rparr> in
        bind_go (triangle_cycle (tcMin config) (tcMax config) rate) (\<lambda>cycle.
          let len = int (length cycle); t = buffer_time len rate;
              ts1 = ts\<lparr>tsSource := src, tsCycleLen := len, tsOnecycle := cycle, minval := tcMin config,
                maxval := tcMax config, tsTimeperbuf := t\<rparr>
          in Inr (ts1, if t > 4000000000 then Some (BufferTooLong t) else None)))"

text \<open>Both simulated sources name their channels from 1 and see them as one row.\<close>

definition sim_Sample :: "AnySource \<Rightarrow> AnySource go" where
  "sim_Sample src =
     (if nchan src < 0 then Inl SliceBounds
      else Inr (src\<lparr>chanNames := map (\<lambda>i. ''chan'' @ fmt_d (i + 1)) [0..nchan src - 1],
        chanNumbers := map (\<lambda>i. i + 1) [0..nchan src - 1],
        rowColCodes := map (\<lambda>i. rcCode 0 i 1 (nchan src)) [0..nchan src - 1]\<rparr>))"

record SimPulseSource =
  spSource :: AnySource
  spTimeperbuf :: go_duration
  spOnecycle :: "raw list"
  spCycleLen :: int

record SimPulseSourceConfig =
  scNchan :: int
  scSampleRate :: go_float
  Pedestal :: go_float
  Amplitudes :: "go_float list"
  scNsamp :: int

text \<open>
  One sample of the cycle, from the two exponentials of the present pulse.  \<open>RawType(x)\<close> of a value
  outside the range keeps the low bits.
\<close>

definition pulse_value :: "SimPulseSourceConfig \<Rightarrow> (go_float \<times> go_float) \<Rightarrow> int \<Rightarrow> ((go_float \<times> go_float) \<times> raw) go" where
  "pulse_value config amp i =
     bind_go (if rem_int i (scNsamp config) = 5
              then bind_go (div_go i (scNsamp config)) (\<lambda>j. bind_go (idx (Amplitudes config) j) (\<lambda>a. Inr (a, fneg a)))
              else Inr amp) (\<lambda>(a0, a1).
       let v = fadd r64 (fadd r64 (Pedestal config) a0) a1 in
       Inr ((fmul r64 a0 (r64 (99 / 100)), fmul r64 a1 (r64 (96 / 100))),
         word_of_int (int_of_f64 (fadd r64 v (Fin (1 / 2))))))"

definition pulse_cycle :: "SimPulseSourceConfig \<Rightarrow> raw list go" where
  "pulse_cycle config =
     (let n = int (length (Amplitudes config)) * scNsamp config in
      if n < 0 then Inl SliceBounds
      else bind_go (foldM_go (\<lambda>(amp, out) i. bind_go (pulse_value config amp i) (\<lambda>(amp1, x). Inr (amp1, out @ [x])))
        ((Fin 0, Fin 0), []) [0..n - 1]) (\<lambda>(_, out). Inr out))"

definition simpulse_Configure ::
  "SimPulseSource \<Rightarrow> SimPulseSourceConfig \<Rightarrow> (SimPulseSource \<times> sim_error option) go" where
  "simpulse_Configure sps config =
     (if scNchan config < 1 then Inr (sps, Some (FewChannels (scNchan config)))
      else if sourceState (spSource sps) \<noteq> Inactive then Inr (sps, Some SimNotInactive)
      else let rate = scSampleRate config;
               src = (spSource sps)\<lparr>nchan := scNchan config, srcSampleRate := rate, samplePeriod := period_of_rate rate,
                 subframeDivisions := scNchan config\<rparr> in
        bind_go (pulse_cycle config) (\<lambda>cycle.
          let len = int (length cycle); t = buffer_time len rate;
              sps1 = sps\<lparr>spSource := src, spCycleLen := len, spOnecycle := cycle, spTimeperbuf := t\<rparr>
          in Inr (sps1, if t > 4000000000 then Some (BufferTooLong t) else None)))"

subsection \<open>Blocks\<close>

definition sim_segment :: "AnySource \<Rightarrow> go_time \<Rightarrow> raw list \<Rightarrow> data_segment" where
  "sim_segment src t data = \<lparr>rawData = data, signedData = False, framesPerSample = 1,
     firstFrameIndex = nextFrameNum src, firstTime = t, framePeriod = samplePeriod src, voltsPerArb = Fin 0,
     processed = False, droppedFrames = 0\<rparr>"

definition sim_block :: "data_segment list \<Rightarrow> dataBlock" where
  "sim_block segs = \<lparr>segments = segs, externalTriggerRowcounts = [], blockNSamp = 0, blockErr = False\<rparr>"

text \<open>One turn of the triangle generator at time \<open>now\<close>; \<open>onecycle\<close> has \<open>cycleLen\<close> samples.\<close>

definition triangle_next :: "TriangleSource \<Rightarrow> go_time \<Rightarrow> TriangleSource \<times> dataBlock" where
  "triangle_next ts now =
     (let src = tsSource ts;
          data = take (nat (tsCycleLen ts)) (tsOnecycle ts) @ replicate (nat (tsCycleLen ts) - length (tsOnecycle ts)) 0;
          segs = map (\<lambda>_. sim_segment src (now - tsTimeperbuf ts) data) [0..nchan src - 1]
      in (ts\<lparr>tsSource := src\<lparr>lastread := lastread src + tsTimeperbuf ts,
            nextFrameNum := nextFrameNum src + tsCycleLen ts\<rparr>\<rparr>, sim_block segs))"

text \<open>
  The goroutine that \<open>StartRun\<close> launches begins with a ticker of the time per buffer, which panics when that
  is not positive.
\<close>

definition simpulse_StartRun :: "SimPulseSource \<Rightarrow> SimPulseSource go" where
  "simpulse_StartRun sps =
     (let src = spSource sps; n = nchan src in
      if n > int (length (subframeOffsets src)) then Inl IndexOutOfRange
      else if spTimeperbuf sps \<le> 0 then Inl (ExplicitPanic ''non-positive interval for NewTicker'')
      else Inr (sps\<lparr>spSource := src\<lparr>subframeOffsets := [0..n - 1] @ drop (nat n) (subframeOffsets src)\<rparr>\<rparr>))"

text \<open>
  One turn of the pulse generator; \<open>noise ch i\<close> is what \<open>rand.Intn(21)\<close> returns for sample \<open>i\<close> of
  channel \<open>ch\<close>, a number from 0 to 20.
\<close>

definition simpulse_next :: "SimPulseSource \<Rightarrow> go_time \<times> (nat \<Rightarrow> nat \<Rightarrow> int) \<Rightarrow> SimPulseSource \<times> dataBlock" where
  "simpulse_next sps = (\<lambda>(now, noise).
     let src = spSource sps;
         data = take (nat (spCycleLen sps)) (spOnecycle sps) @ replicate (nat (spCycleLen sps) - length (spOnecycle sps)) 0;
         segs = map (\<lambda>ch. sim_segment src (now - spTimeperbuf sps)
           (map (\<lambda>i. data ! i + word_of_int (noise (nat ch) i - 10)) [0..<length data])) [0..nchan src - 1]
     in (sps\<lparr>spSource := src\<lparr>lastread := now, nextFrameNum := nextFrameNum src + spCycleLen sps\<rparr>\<rparr>, sim_block segs))"

record ErroringSource =
  esSource :: AnySource
  nStarts :: int

definition erroring_StartRun :: "ErroringSource \<Rightarrow> ErroringSource \<times> dataBlock" where
  "erroring_StartRun es = (es\<lparr>nStarts := nStarts es + 1\<rparr>, (sim_block [])\<lparr>blockErr := True\<rparr>)"

subsection \<open>Producers of blocks\<close>

text \<open>Segments of one channel that follow each other without a gap, from frame \<open>f\<close> on.\<close>

fun gapless :: "frame_index \<Rightarrow> data_segment list \<Rightarrow> bool" where
  "gapless f [] = True"
| "gapless f (seg # segs) \<longleftrightarrow> firstFrameIndex seg = f \<and> gapless (f + int (length (rawData seg))) segs"

lemma gapless_append:
  "gapless f (xs @ ys) \<longleftrightarrow> gapless f xs \<and> gapless (f + int (length (concat (map rawData xs)))) ys"
  by (induction xs arbitrary: f) (auto simp: algebra_simps)

text \<open>What a run of a generator gives on a list of events (times, random numbers).\<close>

fun run_source :: "('s \<Rightarrow> 'e \<Rightarrow> 's \<times> dataBlock) \<Rightarrow> 's \<Rightarrow> 'e list \<Rightarrow> 's \<times> dataBlock list" where
  "run_source next_block s [] = (s, [])"
| "run_source next_block s (e # es) =
     (let (s1, b) = next_block s e; (s2, bs) = run_source next_block s1 es in (s2, b # bs))"

locale block_producer =
  fixes next_block :: "'s \<Rightarrow> 'e \<Rightarrow> 's \<times> dataBlock"
    and good :: "'s \<Rightarrow> bool" and fits :: "'s \<Rightarrow> 'e \<Rightarrow> bool"
    and width :: "'s \<Rightarrow> nat" and frames :: "'s \<Rightarrow> int"
  assumes keeps_good: "good s \<Longrightarrow> fits s e \<Longrightarrow> good (fst (next_block s e))"
    and keeps_fits: "good s \<Longrightarrow> fits s e \<Longrightarrow> fits s e' \<Longrightarrow> fits (fst (next_block s e)) e'"
    and keeps_width: "good s \<Longrightarrow> fits s e \<Longrightarrow> width (fst (next_block s e)) = width s"
    and block_width: "good s \<Longrightarrow> fits s e \<Longrightarrow> length (segments (snd (next_block s e))) = width s"
    and block_frames: "good s \<Longrightarrow> fits s e \<Longrightarrow> seg \<in> set (segments (snd (next_block s e)))
      \<Longrightarrow> firstFrameIndex seg = frames s \<and> framesPerSample seg = 1
        \<and> frames (fst (next_block s e)) = frames s + int (length (rawData seg))"
begin

lemma run_good:
  assumes "good s" "\<forall>e\<in>set es. fits s e"
  shows "good (fst (run_source next_block s es)) \<and> width (fst (run_source next_block s es)) = width s \<and> length (snd (run_source next_block s es)) = length es
    \<and> (\<forall>b\<in>set (snd (run_source next_block s es)). length (segments b) = width s)"
  using assms
proof (induction es arbitrary: s)
  case (Cons e es)
  obtain s1 b where n: "next_block s e = (s1, b)" by fastforce
  have s1: "good s1" "\<forall>e\<in>set es. fits s1 e" "width s1 = width s" "length (segments b) = width s"
    using keeps_good [of s e] keeps_fits [of s e] keeps_width [of s e] block_width [of s e] Cons.prems n by auto
  from Cons.IH [OF s1(1,2)] show ?case using s1 n by (auto simp: case_prod_beta)
qed simp

theorem run_gapless:
  assumes "good s" "\<forall>e\<in>set es. fits s e" "ch < width s"
  shows "gapless (frames s) (map (\<lambda>b. segments b ! ch) (snd (run_source next_block s es)))"
  using assms
proof (induction es arbitrary: s)
  case (Cons e es)
  obtain s1 b where n: "next_block s e = (s1, b)" by fastforce
  have s1: "good s1" "\<forall>e\<in>set es. fits s1 e" "width s1 = width s" "length (segments b) = width s"
    using keeps_good [of s e] keeps_fits [of s e] keeps_width [of s e] block_width [of s e] Cons.prems n by auto
  have "segments b ! ch \<in> set (segments b)" using Cons.prems(3) s1(4) by simp
  then have "firstFrameIndex (segments b ! ch) = frames s"
    "frames s1 = frames s + int (length (rawData (segments b ! ch)))"
    using block_frames [of s e "segments b ! ch"] Cons.prems(1,2) n by auto
  then show ?case using Cons.IH [OF s1(1,2)] Cons.prems(3) s1(3) n by (simp add: case_prod_beta)
qed simp

end

lemma concat_replicate_nth:
  "k < m * length xs \<Longrightarrow> concat (replicate m xs) ! k = xs ! (k mod length xs)"
proof (induction m arbitrary: k)
  case (Suc m)
  show ?case
  proof (cases "k < length xs")
    case False
    then have "k - length xs < m * length xs" using Suc.prems by simp
    from Suc.IH [OF this] show ?thesis using False by (simp add: nth_append le_mod_geq)
  qed (simp add: nth_append)
qed simp

subsection \<open>The triangle generator\<close>

definition triangle_good :: "TriangleSource \<Rightarrow> bool" where
  "triangle_good ts \<longleftrightarrow> 0 \<le> tsCycleLen ts \<and> length (tsOnecycle ts) = nat (tsCycleLen ts)"

lemma triangle_next_segments:
  assumes "triangle_good ts"
  shows "segments (snd (triangle_next ts now)) =
    replicate (nat (nchan (tsSource ts))) (sim_segment (tsSource ts) (now - tsTimeperbuf ts) (tsOnecycle ts))"
  using assms
  by (simp add: triangle_next_def sim_block_def triangle_good_def Let_def map_replicate_const)

lemma triangle_next_keeps:
  "tsOnecycle (fst (triangle_next ts now)) = tsOnecycle ts"
  "tsCycleLen (fst (triangle_next ts now)) = tsCycleLen ts"
  "nchan (tsSource (fst (triangle_next ts now))) = nchan (tsSource ts)"
  "nextFrameNum (tsSource (fst (triangle_next ts now))) = nextFrameNum (tsSource ts) + tsCycleLen ts"
  by (simp_all add: triangle_next_def Let_def)

interpretation triangle: block_producer triangle_next triangle_good "\<lambda>_ _. True"
    "\<lambda>ts. nat (nchan (tsSource ts))" "\<lambda>ts. nextFrameNum (tsSource ts)"
  by unfold_locales
    (auto simp: triangle_next_segments triangle_next_keeps sim_segment_def, auto simp: triangle_good_def triangle_next_keeps)

lemma triangle_run_data:
  assumes "triangle_good ts" "ch < nat (nchan (tsSource ts))"
  shows "map (\<lambda>b. rawData (segments b ! ch)) (snd (run_source triangle_next ts nows))
    = replicate (length nows) (tsOnecycle ts)"
  using assms
proof (induction nows arbitrary: ts)
  case (Cons now nows)
  have good: "triangle_good (fst (triangle_next ts now))" using Cons.prems by (simp add: triangle_good_def triangle_next_keeps)
  show ?case
    using Cons.IH [OF good] Cons.prems triangle_next_segments [OF Cons.prems(1), of now]
    by (simp add: case_prod_beta triangle_next_keeps sim_segment_def)
qed simp

lemma triangle_cycle_length:
  assumes "lo < hi" "triangle_cycle lo hi rate = Inr c"
  shows "length c = 2 * unat (hi - lo)"
    and "r < 2 * unat (hi - lo) \<Longrightarrow>
      c ! r = lo + of_nat (if r < unat (hi - lo) then r else 2 * unat (hi - lo) - r)"
proof -
  have pos: "hi - lo > 0" using assms(1) by (simp add: word_neq_0_conv [symmetric] del: word_neq_0_conv) 
  have c: "c = map (\<lambda>i. lo + of_nat i) [0..<unat (hi - lo)] @ map (\<lambda>i. hi - of_nat i) [0..<unat (hi - lo)]"
    using assms(2) pos by (simp add: triangle_cycle_def Let_def)
  show "length c = 2 * unat (hi - lo)" by (simp add: c)
  show "c ! r = lo + of_nat (if r < unat (hi - lo) then r else 2 * unat (hi - lo) - r)"
    if r: "r < 2 * unat (hi - lo)"
  proof (cases "r < unat (hi - lo)")
    case False
    let ?n = "unat (hi - lo)"
    have "(of_nat (2 * ?n - r) :: raw) = of_nat (?n + ?n - r)" by (simp add: mult_2)
    also have "\<dots> = of_nat ?n + of_nat ?n - of_nat r" using r by (subst of_nat_diff) simp_all
    finally have e: "(of_nat (2 * ?n - r) :: raw) = (hi - lo) + (hi - lo) - of_nat r" by simp
    have "(of_nat (r - ?n) :: raw) = of_nat r - of_nat ?n" using False by (subst of_nat_diff) simp_all
    then show ?thesis using False r e by (simp add: c nth_append)
  qed (simp add: c nth_append)
qed

lemma triangle_Configure_ok:
  assumes "triangle_Configure ts config = Inr (ts1, None)"
  shows "triangle_good ts1" "nchan (tsSource ts1) = tcNchan config" "1 \<le> tcNchan config"
    "nextFrameNum (tsSource ts1) = nextFrameNum (tsSource ts)"
    "triangle_cycle (tcMin config) (tcMax config) (tcSampleRate config) = Inr (tsOnecycle ts1)"
  using assms
  by (auto simp: triangle_Configure_def Let_def bind_go_def triangle_good_def split: if_splits sum.splits)

text \<open>
  after a successful \<open>Configure\<close> with the minimum below the maximum, every channel of every run
  carries one and the same triangle wave without a gap: sample \<open>k\<close> rises by one from the minimum for
  \<open>n = max - min\<close> samples and falls by one from the maximum for the next \<open>n\<close>, with period \<open>2 n\<close>, and the
  frame numbers of the blocks follow each other from the source's next frame.
\<close>

theorem triangle_wave:
  assumes conf: "triangle_Configure ts config = Inr (ts1, None)" and "tcMin config < tcMax config"
    and ch: "int ch < tcNchan config"
  shows "let n = unat (tcMax config - tcMin config);
             segs = map (\<lambda>b. segments b ! ch) (snd (run_source triangle_next ts1 nows));
             wave = concat (map rawData segs)
         in length segs = length nows \<and> length wave = length nows * (2 * n)
            \<and> gapless (nextFrameNum (tsSource ts)) segs
            \<and> (\<forall>k<length wave. wave ! k = tcMin config +
                 of_nat (if k mod (2 * n) < n then k mod (2 * n) else 2 * n - k mod (2 * n)))"
proof -
  let ?n = "unat (tcMax config - tcMin config)"
  note ok = triangle_Configure_ok [OF conf]
  note cyc = triangle_cycle_length [OF assms(2) ok(5)]
  have w: "ch < nat (nchan (tsSource ts1))" using ch ok(2) by simp
  have data: "map (rawData \<circ> (\<lambda>b. segments b ! ch)) (snd (run_source triangle_next ts1 nows))
      = replicate (length nows) (tsOnecycle ts1)"
    using triangle_run_data [OF ok(1) w, of nows] by (simp add: comp_def)
  have cont: "gapless (nextFrameNum (tsSource ts)) (map (\<lambda>b. segments b ! ch) (snd (run_source triangle_next ts1 nows)))"
    using triangle.run_gapless [OF ok(1) _ w, of nows] ok(4) by simp
  have len: "length (snd (run_source triangle_next ts1 nows)) = length nows"
    using triangle.run_good [OF ok(1), of nows] by simp
  have wave: "concat (replicate (length nows) (tsOnecycle ts1)) ! k = tcMin config +
       of_nat (if k mod (2 * ?n) < ?n then k mod (2 * ?n) else 2 * ?n - k mod (2 * ?n))"
    if k: "k < length nows * (2 * ?n)" for k
  proof -
    have "0 < ?n" using k by (cases "?n = 0") auto
    then show ?thesis using k cyc(2) [of "k mod (2 * ?n)"] concat_replicate_nth [of k "length nows" "tsOnecycle ts1"]
      by (simp add: cyc(1))
  qed
  show ?thesis
    unfolding Let_def map_map data
    using cont len wave by (simp add: length_concat sum_list_replicate cyc(1))
qed

definition demo_triangle :: "AnySource \<Rightarrow> TriangleSource" where
  "demo_triangle src = \<lparr>tsSource = src, minval = 0, maxval = 0, tsTimeperbuf = 0, tsOnecycle = [], tsCycleLen = 0\<rparr>"

definition demo_triangle_config :: TriangleSourceConfig where
  "demo_triangle_config = \<lparr>tcNchan = 2, tcSampleRate = Fin 2, tcMin = 5, tcMax = 8\<rparr>"

subsection \<open>The pulse generator\<close>

definition simpulse_good :: "SimPulseSource \<Rightarrow> bool" where
  "simpulse_good sps \<longleftrightarrow> 0 \<le> spCycleLen sps \<and> length (spOnecycle sps) = nat (spCycleLen sps)"

lemma simpulse_next_segments:
  assumes "simpulse_good sps"
  shows "segments (snd (simpulse_next sps (now, noise))) =
    map (\<lambda>ch. sim_segment (spSource sps) (now - spTimeperbuf sps)
      (map (\<lambda>i. spOnecycle sps ! i + word_of_int (noise (nat ch) i - 10)) [0..<length (spOnecycle sps)]))
      [0..nchan (spSource sps) - 1]"
  using assms by (simp add: simpulse_next_def sim_block_def simpulse_good_def Let_def)

lemma simpulse_next_keeps:
  "spOnecycle (fst (simpulse_next sps e)) = spOnecycle sps"
  "spCycleLen (fst (simpulse_next sps e)) = spCycleLen sps"
  "nchan (spSource (fst (simpulse_next sps e))) = nchan (spSource sps)"
  "nextFrameNum (spSource (fst (simpulse_next sps e))) = nextFrameNum (spSource sps) + spCycleLen sps"
  by (simp_all add: simpulse_next_def Let_def case_prod_beta)

interpretation simpulse: block_producer simpulse_next simpulse_good "\<lambda>_ _. True"
    "\<lambda>sps. nat (nchan (spSource sps))" "\<lambda>sps. nextFrameNum (spSource sps)"
proof unfold_locales
  fix s :: SimPulseSource and e :: "go_time \<times> (nat \<Rightarrow> nat \<Rightarrow> int)" and seg
  obtain now noise where e: "e = (now, noise)" by fastforce
  assume g: "simpulse_good s"
  show "length (segments (snd (simpulse_next s e))) = nat (nchan (spSource s))"
    by (simp add: e simpulse_next_segments [OF g])
  assume "seg \<in> set (segments (snd (simpulse_next s e)))"
  then show "firstFrameIndex seg = nextFrameNum (spSource s) \<and> framesPerSample seg = 1
      \<and> nextFrameNum (spSource (fst (simpulse_next s e))) = nextFrameNum (spSource s) + int (length (rawData seg))"
    using g by (auto simp: e simpulse_next_segments [OF g] simpulse_next_keeps sim_segment_def simpulse_good_def)
qed (auto simp: simpulse_good_def simpulse_next_keeps)

lemma simpulse_Configure_ok:
  assumes "simpulse_Configure sps config = Inr (sps1, None)"
  shows "simpulse_good sps1" "nchan (spSource sps1) = scNchan config" "1 \<le> scNchan config"
    "nextFrameNum (spSource sps1) = nextFrameNum (spSource sps)"
    "pulse_cycle config = Inr (spOnecycle sps1)"
  using assms
  by (auto simp: simpulse_Configure_def Let_def bind_go_def simpulse_good_def split: if_splits sum.splits)

text \<open>What a sample is when noise between -10 and 10 is added to it: the addition wraps at the ends.\<close>

definition near :: "raw \<Rightarrow> raw \<Rightarrow> bool" where
  "near c x \<longleftrightarrow> (if uint c < 10 then uint x \<le> uint c + 10 \<or> uint c + 65526 \<le> uint x
     else if uint c \<le> 65525 then \<bar>uint x - uint c\<bar> \<le> 10
     else uint c - 10 \<le> uint x \<or> uint x \<le> uint c - 65526)"

lemma mod_wrap_below: "x < 0 \<Longrightarrow> - m \<le> x \<Longrightarrow> x mod m = x + m" for x m :: int
  using mod_pos_pos_trivial [of "x + m" m] by simp

lemma mod_wrap_above: "m \<le> x \<Longrightarrow> x < 2 * m \<Longrightarrow> x mod m = x - m" for x m :: int
  using mod_pos_pos_trivial [of "x - m" m] by simp

lemma near_noise:
  fixes c :: raw
  assumes "0 \<le> d" "d \<le> 20"
  shows "near c (c + word_of_int (d - 10))"
proof -
  have x: "uint (c + word_of_int (d - 10)) = (uint c + (d - 10)) mod 65536"
    by (simp add: uint_word_ariths uint_word_of_int mod_simps)
  have c: "0 \<le> uint c" "uint c < 65536" using uint_lt2p [of c] by simp_all
  show ?thesis
  proof -
    consider (lo) "uint c + (d - 10) < 0" | (mid) "0 \<le> uint c + (d - 10)" "uint c + (d - 10) < 65536"
      | (hi) "65536 \<le> uint c + (d - 10)" by linarith
    then show ?thesis
    proof cases
      case lo
      then have "(uint c + (d - 10)) mod 65536 = uint c + (d - 10) + 65536" using c assms by (intro mod_wrap_below) simp_all
      then show ?thesis unfolding near_def x using lo c assms by simp
    next
      case mid
      then have "(uint c + (d - 10)) mod 65536 = uint c + (d - 10)" by simp
      then show ?thesis unfolding near_def x using mid c assms by auto
    next
      case hi
      then have "(uint c + (d - 10)) mod 65536 = uint c + (d - 10) - 65536" using c assms by (intro mod_wrap_above) linarith+
      then show ?thesis unfolding near_def x using hi c assms by simp
    qed
  qed
qed

text \<open>
  C31: the pulse generator's blocks follow each other without a gap from the source's next frame, each
  holds one cycle for each channel, and every sample is within 10 of the noiseless cycle, except within 10
  of the ends of the 16-bit range, where the noise wraps around to the other end.
\<close>

theorem simulated_noise_bounds:
  assumes conf: "simpulse_Configure sps config = Inr (sps1, None)"
    and noise: "\<forall>e\<in>set es. \<forall>c i. 0 \<le> snd e c i \<and> snd e c i \<le> 20"
    and ch: "int ch < scNchan config"
  shows "let segs = map (\<lambda>b. segments b ! ch) (snd (run_source simpulse_next sps1 es)) in
    gapless (nextFrameNum (spSource sps)) segs \<and> length segs = length es
    \<and> list_all (\<lambda>seg. list_all2 near (spOnecycle sps1) (rawData seg)) segs"
proof -
  note ok = simpulse_Configure_ok [OF conf]
  have w: "ch < nat (nchan (spSource sps1))" using ch ok(2) by simp
  have "list_all (\<lambda>seg. list_all2 near (spOnecycle s) (rawData seg))
      (map (\<lambda>b. segments b ! ch) (snd (run_source simpulse_next s es)))"
    if "simpulse_good s" "ch < nat (nchan (spSource s))" for s
    using that noise
  proof (induction es arbitrary: s)
    case (Cons e es)
    have good: "simpulse_good (fst (simpulse_next s e))" using Cons.prems by (simp add: simpulse_good_def simpulse_next_keeps)
    have "list_all2 near (spOnecycle s) (rawData (segments (snd (simpulse_next s e)) ! ch))"
      using Cons.prems simpulse_next_segments [OF Cons.prems(1), of "fst e" "snd e"]
      by (auto simp: sim_segment_def list_all2_conv_all_nth intro!: near_noise [simplified])
    then show ?case
      using Cons.IH [OF good] Cons.prems by (simp add: case_prod_beta simpulse_next_keeps)
  qed simp
  then show ?thesis
    using ok(1,4) w simpulse.run_gapless [OF ok(1) _ w, of es] simpulse.run_good [OF ok(1), of es] by (simp add: Let_def)
qed

definition demo_simpulse :: "AnySource \<Rightarrow> SimPulseSource" where
  "demo_simpulse src = \<lparr>spSource = src, spTimeperbuf = 0, spOnecycle = [], spCycleLen = 0\<rparr>"

definition demo_simpulse_config :: SimPulseSourceConfig where
  "demo_simpulse_config = \<lparr>scNchan = 2, scSampleRate = Fin 2, Pedestal = Fin 5, Amplitudes = [Fin 100], scNsamp = 4\<rparr>"

definition demo_noise :: "go_time \<times> (nat \<Rightarrow> nat \<Rightarrow> int)" where
  "demo_noise = (0, \<lambda>c i. if even i then 0 else 20)"

lemma r64_small_int: "\<bar>n\<bar> < 2 ^ 53 \<Longrightarrow> r64 (of_int n) = Fin (of_int n)"
  using f64_of_int_exact [of n] by (simp add: f64_of_int_def)

lemma buffer_time_demo: "buffer_time 6 (Fin 2) = 3000000000" "buffer_time 4 (Fin 2) = 2000000000"
  using r64_small_int [of 3] r64_small_int [of 2] r64_small_int [of 3000000000] r64_small_int [of 2000000000]
    trunc_rat_of_int [of 3000000000] trunc_rat_of_int [of 2000000000]
  by (simp_all add: buffer_time_def f64_of_int_exact)

subsection \<open>Witnesses\<close>

theorem triangle_wave_witness:
  "\<exists>ts1. triangle_Configure (demo_triangle (demo_source\<lparr>sourceState := Inactive\<rparr>)) demo_triangle_config = Inr (ts1, None)
    \<and> gapless 0 (map (\<lambda>b. segments b ! 1) (snd (run_source triangle_next ts1 [0, 1, 2])))
    \<and> length (concat (map rawData (map (\<lambda>b. segments b ! 1) (snd (run_source triangle_next ts1 [0, 1, 2]))))) = 18"
proof -
  have t: "buffer_time 6 (Fin 2) \<le> 4000000000" by (simp add: buffer_time_demo)
  have "case triangle_Configure (demo_triangle (demo_source\<lparr>sourceState := Inactive\<rparr>)) demo_triangle_config of
      Inr (ts1, None) \<Rightarrow> True | _ \<Rightarrow> False"
    using t by (simp add: triangle_Configure_def triangle_cycle_def demo_triangle_def demo_triangle_config_def Let_def)
  then obtain ts1 where c: "triangle_Configure (demo_triangle (demo_source\<lparr>sourceState := Inactive\<rparr>)) demo_triangle_config
      = Inr (ts1, None)" by (auto split: sum.splits prod.splits option.splits)
  have "tcMin demo_triangle_config < tcMax demo_triangle_config" "int 1 < tcNchan demo_triangle_config"
    by (simp_all add: demo_triangle_config_def)
  from triangle_wave [OF c this, where nows = "[0, 1, 2]"] c show ?thesis
    by (intro exI [of _ ts1]) (simp add: Let_def demo_triangle_def demo_source_def demo_triangle_config_def)
qed

theorem simulated_noise_bounds_witness:
  "\<exists>sps1. simpulse_Configure (demo_simpulse (demo_source\<lparr>sourceState := Inactive\<rparr>)) demo_simpulse_config = Inr (sps1, None)
    \<and> list_all (\<lambda>seg. list_all2 near (spOnecycle sps1) (rawData seg))
        (map (\<lambda>b. segments b ! 1) (snd (run_source simpulse_next sps1 [demo_noise])))"
proof -
  have "case pulse_cycle demo_simpulse_config of Inr c \<Rightarrow> length c = 4 | Inl e \<Rightarrow> False"
    by (simp add: pulse_cycle_def pulse_value_def demo_simpulse_config_def Let_def upto_rec1 rem_int_def bind_go_def
        del: fadd.simps fmul.simps)
  then obtain c where p: "pulse_cycle demo_simpulse_config = Inr c" "length c = 4" by (auto split: sum.splits)
  have t: "buffer_time 4 (Fin 2) \<le> 4000000000" by (simp add: buffer_time_demo)
  have "case simpulse_Configure (demo_simpulse (demo_source\<lparr>sourceState := Inactive\<rparr>)) demo_simpulse_config of
      Inr (sps1, None) \<Rightarrow> True | _ \<Rightarrow> False"
    using p t by (simp add: simpulse_Configure_def demo_simpulse_def Let_def) (simp add: demo_simpulse_config_def)
  then obtain sps1 where c: "simpulse_Configure (demo_simpulse (demo_source\<lparr>sourceState := Inactive\<rparr>)) demo_simpulse_config
      = Inr (sps1, None)" by (auto split: sum.splits prod.splits option.splits)
  have n: "\<forall>e\<in>set [demo_noise]. \<forall>c i. 0 \<le> snd e c i \<and> snd e c i \<le> 20" "int 1 < scNchan demo_simpulse_config"
    by (simp_all add: demo_noise_def demo_simpulse_config_def)
  from simulated_noise_bounds [OF c n] c show ?thesis by (auto simp: Let_def)
qed

end
