(* ===== verification/Requests.thy ===== *)
theory Requests
  imports SimSources Lancero
begin

text \<open>
  The RPC services of \<open>SourceControl\<close> (\<open>rpc_server.go\<close>).  A service either answers at once or hands a
  closure to the core loop of the running source (\<open>runLaterIfActive\<close>) and answers with the result that the
  closure sends back.  A closure is a function of the control state and the world; it yields the client
  updates and the list of the results it sends.  How closures, callers and the core loop interleave is
  modelled in \<open>Lifecycle\<close>.  Decoding of base64 and the JSON transport are library code; a request carries
  its decoded arguments.
\<close>

subsection \<open>State of the server\<close>

datatype source_kind = SimPulses | Triangles | LanceroTDM | RoachKind | ResonatorKind | ErroringKind

record ServerStatus =
  stRunning :: bool
  SourceName :: string
  stNchannels :: int
  stNsamples :: int
  stNpresamp :: int
  stSamplePeriod :: go_duration
  stChanGroups :: "GroupIndex list"
  stProjectors :: "int list"

text \<open>
  The sources are shared objects: \<open>anySource\<close> holds the common part of each, \<open>lanceroPart\<close> what the TDM
  source adds to it.  \<open>ActiveSource\<close> says which one the server talks to.
\<close>

record SourceControl =
  anySource :: "source_kind \<Rightarrow> AnySource"
  lanceroPart :: LanceroSource
  ActiveSource :: source_kind
  isSourceActive :: bool
  status :: ServerStatus
  theMap :: "MapFile option"

datatype rpc_error =
    NoSourceActive | HaveActiveSource | UnknownSource string
  | SourceErr source_error | EMTErr emt_error | MixErr lancero_error | NoMixSupport
  | NonPositiveLengths int int | StopWritingFirst | MapInvalidated source_error
  | EmptyLabel | EmptyComment | FileErr string | NotZeroArgument int | NotWriting
  | UndecodableMatrix | StartFailed | MapUnreadable | WrongMapNumber int int

datatype client_update =
    UpdStatus ServerStatus | UpdTrigger "FullTriggerState list" | UpdGroupTrigger "(int \<times> int list) list"
  | UpdTrigCoupling CouplingStatus | UpdWriting WritingState | UpdMix "go_float list"
  | UpdChannelNames "string list" | UpdStateLabel string | UpdSendAll | UpdRawDataBlock string
  | UpdHeartbeat bool | UpdMapFile string | UpdMap MapFile | UpdNoMap

definition active :: "SourceControl \<Rightarrow> AnySource" where
  "active sc = anySource sc (ActiveSource sc)"

definition set_active :: "AnySource \<Rightarrow> SourceControl \<Rightarrow> SourceControl" where
  "set_active src sc = sc\<lparr>anySource := (anySource sc)(ActiveSource sc := src)\<rparr>"

type_synonym closure =
  "SourceControl \<times> world \<Rightarrow> ((SourceControl \<times> world) \<times> client_update list \<times> rpc_error option list) go"

subsection \<open>Broadcasts\<close>

definition handlePossibleStoppedSource :: "SourceControl \<Rightarrow> SourceControl \<times> client_update list" where
  "handlePossibleStoppedSource sc =
     (if isSourceActive sc \<and> \<not> Running (active sc)
      then let sc1 = sc\<lparr>status := (status sc)\<lparr>stRunning := False\<rparr>, isSourceActive := False\<rparr> in
        (sc1, [UpdStatus (status sc1), UpdHeartbeat False])
      else (sc, []))"

definition broadcastStatus :: "SourceControl \<Rightarrow> SourceControl \<times> client_update list" where
  "broadcastStatus sc = (let (sc1, us) = handlePossibleStoppedSource sc in (sc1, us @ [UpdStatus (status sc1)]))"

definition when_running :: "SourceControl \<Rightarrow> client_update list \<Rightarrow> client_update list" where
  "when_running sc us = (if isSourceActive sc \<and> stRunning (status sc) then us else [])"

definition broadcastWritingState :: "SourceControl \<Rightarrow> client_update list" where
  "broadcastWritingState sc = when_running sc [UpdWriting (ComputeState (writingState (active sc)))]"

definition broadcastTriggerState :: "SourceControl \<Rightarrow> client_update list" where
  "broadcastTriggerState sc = when_running sc [UpdTrigger (ComputeFullTriggerState (active sc))]"

definition group_state :: "AnySource \<Rightarrow> (int \<times> int list) list go" where
  "group_state src = (case broker src of None \<Rightarrow> Inl NilDereference | Some b \<Rightarrow> Inr (computeGroupTriggerState b))"

definition broadcastGroupTriggerState :: "SourceControl \<Rightarrow> client_update list go" where
  "broadcastGroupTriggerState sc =
     (if isSourceActive sc \<and> stRunning (status sc)
      then bind_go (group_state (active sc)) (\<lambda>g. Inr [UpdGroupTrigger g]) else Inr [])"

definition broadcastChannelNames :: "SourceControl \<Rightarrow> client_update list" where
  "broadcastChannelNames sc = when_running sc [UpdChannelNames (chanNames (active sc))]"

subsection \<open>Map server\<close>

text \<open>\<open>readMap\<close> on what \<open>fmt.Fscanf\<close> returns: the spacing, then one result for each line.\<close>

datatype scanned = Scanned int Pixel | ScanEOF | ScanError

definition map_number_ok :: "bool \<Rightarrow> int \<Rightarrow> int \<Rightarrow> bool" where
  "map_number_ok matter n chnum \<longleftrightarrow> n \<le> 2 \<or> chnum = (if matter then 2 * n - 1 else n)"

fun readMap_loop :: "bool \<Rightarrow> Pixel list \<Rightarrow> scanned list \<Rightarrow> (rpc_error + Pixel list)" where
  "readMap_loop matter ps [] = Inr ps"
| "readMap_loop matter ps (ScanEOF # _) = Inr ps"
| "readMap_loop matter ps (ScanError # _) = Inl MapUnreadable"
| "readMap_loop matter ps (Scanned chnum p # rest) =
     (let ps1 = ps @ [p]; n = int (length ps1); matter1 = (matter \<or> n = 2 \<and> chnum = 3) in
      if map_number_ok matter1 n chnum then readMap_loop matter1 ps1 rest
      else Inl (WrongMapNumber chnum (if matter1 then 2 * n - 1 else n)))"

definition readMap :: "string \<Rightarrow> int option \<Rightarrow> scanned list \<Rightarrow> rpc_error + MapFile" where
  "readMap filename spacing items = (case spacing of
     None \<Rightarrow> Inl MapUnreadable
   | Some sp \<Rightarrow> (case readMap_loop False [] items of
       Inl err \<Rightarrow> Inl err
     | Inr ps \<Rightarrow> Inr \<lparr>mapSpacing = sp, mapPixels = ps, mapFilename = filename\<rparr>))"

definition broadcastMap :: "MapFile option \<Rightarrow> client_update list" where
  "broadcastMap m = (case m of None \<Rightarrow> [UpdMapFile ''no map file'', UpdNoMap]
     | Some mf \<Rightarrow> [UpdMapFile (mapFilename mf), UpdMap mf])"

definition map_Load ::
  "SourceControl \<Rightarrow> string \<Rightarrow> int option \<Rightarrow> scanned list \<Rightarrow> SourceControl \<times> client_update list \<times> rpc_error option" where
  "map_Load sc filename spacing items = (case readMap filename spacing items of
     Inl err \<Rightarrow> (sc, [], Some err)
   | Inr m \<Rightarrow> (sc\<lparr>theMap := Some m\<rparr>, broadcastMap (Some m), None))"

definition map_Unload :: "SourceControl \<Rightarrow> SourceControl \<times> client_update list" where
  "map_Unload sc = (sc\<lparr>theMap := None\<rparr>, broadcastMap None)"

subsection \<open>Closures\<close>

definition trigger_closure :: "FullTriggerState \<Rightarrow> closure" where
  "trigger_closure state = (\<lambda>(sc, w). bind_go (ChangeTriggerState (active sc) state) (\<lambda>(src, err).
     let sc1 = set_active src sc in Inr ((sc1, w), broadcastTriggerState sc1, [map_option SourceErr err])))"

definition projectors_closure :: "int \<Rightarrow> dense \<Rightarrow> dense \<Rightarrow> string \<Rightarrow> closure" where
  "projectors_closure i projs bas description = (\<lambda>(sc, w).
     let (src, err) = ConfigureProjectorsBases (active sc) i projs bas description;
         sc1 = set_active src sc;
         sc2 = (if err = None then sc1\<lparr>status := (status sc1)\<lparr>stProjectors := ChannelsWithProjectors src\<rparr>\<rparr> else sc1)
     in Inr ((sc2, w), [], [map_option SourceErr err]))"

definition lengths_closure :: "int \<Rightarrow> int \<Rightarrow> closure" where
  "lengths_closure nsamps npres = (\<lambda>(sc, w).
     bind_go (ConfigurePulseLengths (active sc) nsamps npres) (\<lambda>(src, err).
       let sc1 = set_active src sc;
           sc2 = (if err = None then sc1\<lparr>status := (status sc1)\<lparr>stNpresamp := npres, stNsamples := nsamps\<rparr>\<rparr> else sc1);
           (sc3, us) = broadcastStatus sc2
       in Inr ((sc3, w), us, [map_option SourceErr err])))"

definition write_closure :: "source_env \<Rightarrow> WriteControlConfig \<Rightarrow> closure" where
  "write_closure env config = (\<lambda>(sc, w). bind_go (WriteControl env w (active sc) config) (\<lambda>(src, w1, err).
     let sc1 = set_active src sc in
     Inr ((sc1, w1), if err = None then broadcastWritingState sc1 else [], [map_option SourceErr err])))"

definition label_closure :: "source_env \<Rightarrow> go_time \<Rightarrow> string \<Rightarrow> closure" where
  "label_closure env t label = (\<lambda>(sc, w).
     let (d, ws, err) = SetExperimentStateLabel (file_sys env) (w_disk w) (writingState (active sc)) t label;
         sc1 = set_active ((active sc)\<lparr>writingState := ws\<rparr>) sc
     in Inr ((sc1, w\<lparr>w_disk := d\<rparr>), if err = None then [UpdStateLabel label] else [],
          [map_option (SourceErr \<circ> WsError) err]))"

text \<open>\<open>filepath.Dir\<close>: what stands before the last slash, cleaned.\<close>

definition dir_of :: "string \<Rightarrow> string" where
  "dir_of p = path_clean (rev (dropWhile (\<lambda>c. c \<noteq> CHR ''/'') (rev p)))"

definition comment_file :: "AnySource \<Rightarrow> string" where
  "comment_file src = path_join (dir_of (FilenamePattern (writingState src))) ''comment.txt''"

text \<open>
  When the file cannot be created the closure sends the error, goes on with the nil file, whose methods
  only return errors, and sends a second result at its end.
\<close>

definition comment_closure :: "source_env \<Rightarrow> string \<Rightarrow> closure" where
  "comment_closure env comment = (\<lambda>(sc, w).
     let ws = writingState (active sc) in
     if \<not> wsActive ws then Inr ((sc, w), [], [None])
     else let path = comment_file (active sc) in
       case os_create (file_sys env) (w_disk w) path of
         (d, False) \<Rightarrow> Inr ((sc, w\<lparr>w_disk := d\<rparr>), [], [Some (FileErr path), None])
       | (d, True) \<Rightarrow>
           let (d1, _) = os_write (file_sys env) d path (text_bytes comment);
               (d2, _) = (if comment = [] \<or> last comment \<noteq> CHR 0x0A
                          then os_write (file_sys env) d1 path (text_bytes nl) else (d1, True))
           in Inr ((sc, w\<lparr>w_disk := d2\<rparr>), [], [None]))"

definition couple_source :: "SourceControl \<Rightarrow> CouplingStatus \<Rightarrow> (SourceControl \<times> source_error option) go" where
  "couple_source sc c =
     (if ActiveSource sc = LanceroTDM
      then bind_go (lancero_SetCoupling ((lanceroPart sc)\<lparr>lsSource := active sc\<rparr>) c) (\<lambda>ls.
        Inr (set_active (lsSource ls) (sc\<lparr>lanceroPart := ls\<rparr>), None))
      else Inr (sc, SetCoupling c))"

definition couple_closure :: "CouplingStatus \<Rightarrow> closure" where
  "couple_closure c = (\<lambda>(sc, w). bind_go (couple_source sc c) (\<lambda>(sc1, err).
     Inr ((sc1, w), [UpdTrigCoupling c], [map_option SourceErr err])))"

definition group_closure :: "bool \<Rightarrow> (int \<times> int list) list \<Rightarrow> closure" where
  "group_closure turnon conns = (\<lambda>(sc, w). bind_go (ChangeGroupTrigger (active sc) turnon conns) (\<lambda>src.
     bind_go (group_state src) (\<lambda>g. Inr ((set_active src sc, w), [UpdGroupTrigger g], [None]))))"

definition stop_coupling_closure :: closure where
  "stop_coupling_closure = (\<lambda>(sc, w). bind_go (source_StopTriggerCoupling (active sc)) (\<lambda>src.
     bind_go (group_state src) (\<lambda>g. bind_go (couple_source (set_active src sc) NoCoupling) (\<lambda>(sc1, err).
       Inr ((sc1, w), [UpdGroupTrigger g, UpdTrigCoupling NoCoupling], [map_option SourceErr err])))))"

definition archive_closure :: "go_time \<Rightarrow> int \<Rightarrow> closure" where
  "archive_closure now n = (\<lambda>(sc, w). let (src, err) = ArchiveDataBlock now (active sc) n in
     Inr ((set_active src sc, w), [], [map_option SourceErr err]))"

subsection \<open>Services\<close>

text \<open>
  What a service does when it is called: answer, hand over a closure and answer with what \<open>post\<close> makes of
  its result, or leave a closure to a goroutine of its own that panics on an error.
\<close>

datatype rpc_reply = ReplyBool bool | ReplyText string | ReplyNone

datatype plan =
    Answer SourceControl "client_update list" rpc_reply "rpc_error option"
  | RunLater "client_update list" closure
      "SourceControl \<Rightarrow> rpc_error option \<Rightarrow> SourceControl \<times> client_update list \<times> rpc_reply \<times> rpc_error option"
  | Detached closure

definition plain_post ::
  "SourceControl \<Rightarrow> rpc_error option \<Rightarrow> SourceControl \<times> client_update list \<times> rpc_reply \<times> rpc_error option" where
  "plain_post sc err = (sc, [], ReplyBool (err = None), err)"

definition runLaterIfActive :: "SourceControl \<Rightarrow> closure \<Rightarrow> plan" where
  "runLaterIfActive sc f =
     (if \<not> isSourceActive sc then Answer sc [] (ReplyBool False) (Some NoSourceActive)
      else RunLater [] f plain_post)"

definition rpc_ConfigureTriggers :: "SourceControl \<Rightarrow> FullTriggerState \<Rightarrow> plan" where
  "rpc_ConfigureTriggers sc state =
     (let ts = ftsState state in
      if EdgeMulti ts \<and> emtState ts = EMTState_zero
      then case toEMTState (emtRPCFields ts) of
          Inl err \<Rightarrow> Answer sc [] (ReplyBool False) (Some (EMTErr err))
        | Inr e \<Rightarrow> runLaterIfActive sc (trigger_closure (state\<lparr>ftsState := ts\<lparr>emtState := e\<rparr>\<rparr>))
      else runLaterIfActive sc (trigger_closure state))"

text \<open>\<open>None\<close> is a matrix that cannot be decoded.\<close>

definition rpc_ConfigureProjectorsBasis ::
  "SourceControl \<Rightarrow> int \<Rightarrow> dense option \<Rightarrow> dense option \<Rightarrow> string \<Rightarrow> plan" where
  "rpc_ConfigureProjectorsBasis sc i projs bas description = (case (projs, bas) of
     (Some p, Some b) \<Rightarrow> runLaterIfActive sc (projectors_closure i p b description)
   | _ \<Rightarrow> Answer sc [] (ReplyBool False) (Some UndecodableMatrix))"

definition rpc_ConfigurePulseLengths :: "SourceControl \<Rightarrow> int \<Rightarrow> int \<Rightarrow> plan" where
  "rpc_ConfigurePulseLengths sc nsamps npres =
     (if \<not> isSourceActive sc then Answer sc [] (ReplyBool False) (Some NoSourceActive)
      else if nsamps \<le> 0 \<or> npres \<le> 0
        then Answer sc [] (ReplyBool False) (Some (NonPositiveLengths nsamps npres))
      else if stNpresamp (status sc) = npres \<and> stNsamples (status sc) = nsamps
        then Answer sc [] (ReplyBool False) None
      else if wsActive (writingState (active sc)) then Answer sc [] (ReplyBool False) (Some StopWritingFirst)
      else runLaterIfActive sc (lengths_closure nsamps npres))"

definition map_post ::
  "SourceControl \<Rightarrow> rpc_error option \<Rightarrow> SourceControl \<times> client_update list \<times> rpc_reply \<times> rpc_error option" where
  "map_post sc err = (case err of
     Some (SourceErr (MapError a b)) \<Rightarrow>
       let (sc1, us) = map_Unload sc in (sc1, us, ReplyBool False, Some (MapInvalidated (MapError a b)))
   | _ \<Rightarrow> (sc, [], ReplyBool (err = None), err))"

definition rpc_WriteControl :: "source_env \<Rightarrow> SourceControl \<Rightarrow> WriteControlConfig \<Rightarrow> plan" where
  "rpc_WriteControl env sc config =
     (case runLaterIfActive sc (write_closure env (config\<lparr>MapInternalOnly := theMap sc\<rparr>)) of
        RunLater us f _ \<Rightarrow> RunLater us f map_post
      | p \<Rightarrow> p)"

definition rpc_SetExperimentStateLabel :: "source_env \<Rightarrow> SourceControl \<Rightarrow> go_time \<Rightarrow> string \<Rightarrow> bool \<Rightarrow> plan" where
  "rpc_SetExperimentStateLabel env sc t label waitForError =
     (if label = [] then Answer sc [] (ReplyBool False) (Some EmptyLabel)
      else if waitForError then runLaterIfActive sc (label_closure env t label)
      else Detached (label_closure env t label))"

definition rpc_WriteComment :: "source_env \<Rightarrow> SourceControl \<Rightarrow> string \<Rightarrow> plan" where
  "rpc_WriteComment env sc comment =
     (if comment = [] then Answer sc [] (ReplyBool False) (Some EmptyComment)
      else runLaterIfActive sc (comment_closure env comment))"

definition rpc_ReadComment :: "SourceControl \<Rightarrow> world \<Rightarrow> int \<Rightarrow> plan" where
  "rpc_ReadComment sc w zero =
     (if \<not> isSourceActive sc then Answer sc [] ReplyNone (Some NoSourceActive)
      else if zero \<noteq> 0 then Answer sc [] ReplyNone (Some (NotZeroArgument zero))
      else if \<not> wsActive (writingState (active sc)) then Answer sc [] ReplyNone (Some NotWriting)
      else let path = comment_file (active sc) in case w_disk w path of
          None \<Rightarrow> Answer sc [] ReplyNone (Some (FileErr path))
        | Some bytes \<Rightarrow> Answer sc [] (ReplyText (map (\<lambda>b. char_of (unat b)) bytes)) None)"

definition rpc_CoupleErrToFB :: "SourceControl \<Rightarrow> bool \<Rightarrow> plan" where
  "rpc_CoupleErrToFB sc couple = runLaterIfActive sc (couple_closure (if couple then ErrToFB else NoCoupling))"

definition rpc_CoupleFBToErr :: "SourceControl \<Rightarrow> bool \<Rightarrow> plan" where
  "rpc_CoupleFBToErr sc couple = runLaterIfActive sc (couple_closure (if couple then FBToErr else NoCoupling))"

definition changeGroupTriggerCoupling :: "SourceControl \<Rightarrow> bool \<Rightarrow> (int \<times> int list) list \<Rightarrow> plan" where
  "changeGroupTriggerCoupling sc turnon conns = runLaterIfActive sc (group_closure turnon conns)"

definition rpc_StopTriggerCoupling :: "SourceControl \<Rightarrow> plan" where
  "rpc_StopTriggerCoupling sc = runLaterIfActive sc stop_coupling_closure"

definition rpc_SendAllStatus :: "SourceControl \<Rightarrow> plan" where
  "rpc_SendAllStatus sc = (let (sc1, us) = broadcastStatus sc in Answer sc1 (us @ [UpdSendAll]) ReplyNone None)"

text \<open>\<open>tempname\<close> is the temporary file's name, \<open>None\<close> when it cannot be created.\<close>

definition rpc_StoreRawDataBlock :: "SourceControl \<Rightarrow> go_time \<Rightarrow> int \<Rightarrow> string option \<Rightarrow> plan" where
  "rpc_StoreRawDataBlock sc now n tempname = (case tempname of
     None \<Rightarrow> Answer sc [] ReplyNone (Some (FileErr []))
   | Some name \<Rightarrow> (case runLaterIfActive sc (archive_closure now n) of
        RunLater us f post \<Rightarrow> RunLater (UpdRawDataBlock name # us) f (\<lambda>sc err. (sc, [], ReplyText name, err))
      | Answer sc us _ err \<Rightarrow> Answer sc (UpdRawDataBlock name # us) (ReplyText name) err
      | p \<Rightarrow> p))"

text \<open>\<open>ConfigureMixFraction\<close> talks to the source at once; only the TDM source supports it.\<close>

definition rpc_ConfigureMixFraction :: "SourceControl \<Rightarrow> int list \<Rightarrow> go_float list \<Rightarrow> plan go" where
  "rpc_ConfigureMixFraction sc chans fractions =
     (if ActiveSource sc \<noteq> LanceroTDM then Inr (Answer sc [UpdMix []] (ReplyBool False) (Some NoMixSupport))
      else bind_go (ConfigureMixFraction ((lanceroPart sc)\<lparr>lsSource := active sc\<rparr>) chans fractions) (\<lambda>(ls, r).
        let sc1 = set_active (lsSource ls) (sc\<lparr>lanceroPart := ls\<rparr>) in
        Inr (case r of Inl err \<Rightarrow> Answer sc1 [UpdMix []] (ReplyBool False) (Some (MixErr err))
          | Inr mix \<Rightarrow> Answer sc1 [UpdMix mix] (ReplyBool True) None)))"

subsection \<open>The services as one function\<close>

datatype sc_request =
    ReqTriggers FullTriggerState | ReqProjectors int "dense option" "dense option" string
  | ReqLengths int int | ReqWrite WriteControlConfig | ReqLabel go_time string bool
  | ReqComment string | ReqReadComment int | ReqErrToFB bool | ReqFBToErr bool
  | ReqGroup bool "(int \<times> int list) list" | ReqStopCoupling | ReqSendAll
  | ReqRawData go_time int "string option" | ReqMix "int list" "go_float list"

fun serve :: "source_env \<Rightarrow> SourceControl \<Rightarrow> world \<Rightarrow> sc_request \<Rightarrow> plan go" where
  "serve env sc w (ReqTriggers state) = Inr (rpc_ConfigureTriggers sc state)"
| "serve env sc w (ReqProjectors i p b descr) = Inr (rpc_ConfigureProjectorsBasis sc i p b descr)"
| "serve env sc w (ReqLengths nsamps npres) = Inr (rpc_ConfigurePulseLengths sc nsamps npres)"
| "serve env sc w (ReqWrite config) = Inr (rpc_WriteControl env sc config)"
| "serve env sc w (ReqLabel t label waiting) = Inr (rpc_SetExperimentStateLabel env sc t label waiting)"
| "serve env sc w (ReqComment comment) = Inr (rpc_WriteComment env sc comment)"
| "serve env sc w (ReqReadComment zero) = Inr (rpc_ReadComment sc w zero)"
| "serve env sc w (ReqErrToFB couple) = Inr (rpc_CoupleErrToFB sc couple)"
| "serve env sc w (ReqFBToErr couple) = Inr (rpc_CoupleFBToErr sc couple)"
| "serve env sc w (ReqGroup turnon conns) = Inr (changeGroupTriggerCoupling sc turnon conns)"
| "serve env sc w ReqStopCoupling = Inr (rpc_StopTriggerCoupling sc)"
| "serve env sc w ReqSendAll = Inr (rpc_SendAllStatus sc)"
| "serve env sc w (ReqRawData now n tempname) = Inr (rpc_StoreRawDataBlock sc now n tempname)"
| "serve env sc w (ReqMix chans fractions) = rpc_ConfigureMixFraction sc chans fractions"

subsection \<open>Starting a source\<close>

definition source_named :: "string \<Rightarrow> (source_kind \<times> string) option" where
  "source_named name = map_of
     [(''SIMPULSESOURCE'', SimPulses, ''SimPulses''), (''TRIANGLESOURCE'', Triangles, ''Triangles''),
      (''LANCEROSOURCE'', LanceroTDM, ''Lancero''), (''ROACHSOURCE'', RoachKind, ''Roach''),
      (''RESONATORSOURCE'', ResonatorKind, ''Resonator''), (''ERRORINGSOURCE'', ErroringKind, ''Erroring'')]
     (map upper name)"

text \<open>The part of \<open>Start\<close> before the source is asked to start, and the parts after that failed or succeeded.\<close>

definition start_select :: "SourceControl \<Rightarrow> string \<Rightarrow> rpc_error + (source_kind \<times> SourceControl)" where
  "start_select sc name =
     (if isSourceActive sc then Inl HaveActiveSource
      else case source_named name of None \<Rightarrow> Inl (UnknownSource name)
        | Some (k, sname) \<Rightarrow> Inr (k, sc\<lparr>ActiveSource := k, status := (status sc)\<lparr>SourceName := sname, stRunning := True\<rparr>\<rparr>))"

definition start_failed :: "SourceControl \<Rightarrow> SourceControl" where
  "start_failed sc = sc\<lparr>status := (status sc)\<lparr>stRunning := False\<rparr>, isSourceActive := False\<rparr>"

definition start_succeeded :: "SourceControl \<Rightarrow> (SourceControl \<times> client_update list) go" where
  "start_succeeded sc =
     (let src = active sc;
          sc1 = sc\<lparr>isSourceActive := True, status := (status sc)\<lparr>stSamplePeriod := samplePeriod src,
            stNchannels := nchan src, stChanGroups := groupKeysSorted src\<rparr>\<rparr>;
          (sc2, us) = broadcastStatus sc1 in
      bind_go (broadcastGroupTriggerState sc2) (\<lambda>g.
        Inr (sc2, us @ broadcastChannelNames sc2 @ broadcastTriggerState sc2 @ g)))"

text \<open>Settings that the server fills in when no usable ones are stored.\<close>

definition default_status :: "ServerStatus \<Rightarrow> ServerStatus" where
  "default_status st =
     (let st1 = (if stNpresamp st \<le> 0 then st\<lparr>stNpresamp := 400\<rparr> else st);
          st2 = (if stNsamples st1 \<le> stNpresamp st1 then st1\<lparr>stNsamples := 2 * stNpresamp st1\<rparr> else st1);
          st3 = (if stSamplePeriod st2 \<le> 0 then st2\<lparr>stSamplePeriod := 10000\<rparr> else st2)
      in st3\<lparr>stRunning := False\<rparr>)"

subsection \<open>Heartbeats\<close>

record Heartbeat =
  hbRunning :: bool
  hbTime :: go_float
  HWactualMB :: go_float
  DataMB :: go_float

definition add_heartbeat :: "Heartbeat \<Rightarrow> Heartbeat \<Rightarrow> Heartbeat" where
  "add_heartbeat tot h = tot\<lparr>HWactualMB := fadd r64 (HWactualMB tot) (HWactualMB h),
     DataMB := fadd r64 (DataMB tot) (DataMB h), hbTime := fadd r64 (hbTime tot) (hbTime h), hbRunning := hbRunning h\<rparr>"

definition broadcastHeartbeat :: "Heartbeat \<Rightarrow> Heartbeat \<times> Heartbeat" where
  "broadcastHeartbeat tot = (tot\<lparr>HWactualMB := Fin 0, DataMB := Fin 0, hbTime := Fin 0\<rparr>, tot)"

record AsciiBouncer =
  bWidth :: int
  xposition :: int
  direction :: int

definition bouncer_move :: "AsciiBouncer \<Rightarrow> AsciiBouncer" where
  "bouncer_move b =
     (let x = xposition b + direction b;
          d = (if direction b = 0 then 1 else direction b);
          w = (if bWidth b \<le> 0 then 20 else bWidth b) in
      if x \<ge> w then \<lparr>bWidth = w, xposition = w - 2, direction = - 1\<rparr>
      else if x < 0 then \<lparr>bWidth = w, xposition = 1, direction = 1\<rparr>
      else \<lparr>bWidth = w, xposition = x, direction = d\<rparr>)"

definition bouncer_String :: "AsciiBouncer \<Rightarrow> (AsciiBouncer \<times> string) go" where
  "bouncer_String b0 =
     (let b = bouncer_move b0 in
      if xposition b < 0 then Inl (ExplicitPanic ''strings: negative Repeat count'')
      else let s = ''Dastard status ['' @ replicate (nat (xposition b)) CHR ''.'' @ ''|-*-|''
             @ (if xposition b < bWidth b then replicate (nat (bWidth b - xposition b)) CHR ''.'' else []) @ '']''
        in Inr (b, s @ replicate (length s) CHR 0x08))"

end
