(* ===== verification/Lifecycle.thy ===== *)
theory Lifecycle
  imports Requests
begin

text \<open>
  The life of a run (\<open>Start\<close>, \<open>CoreLoop\<close>, \<open>Stop\<close> of \<open>data_source.go\<close>) together with the callers of the
  RPC services.  Callers, core loops and the goroutines that produce data interleave; they meet in the
  locked state of a source, the wait group \<open>runDone\<close>, the channel \<open>abortSelf\<close> and the unbuffered channels
  \<open>nextBlock\<close>, \<open>queuedRequests\<close> and \<open>queuedResults\<close>.  The step relation has one rule for each atomic part
  of that code; the services, closures, \<open>PrepareRun\<close> and \<open>ProcessSegments\<close> are the modelled functions.
\<close>

subsection \<open>Operations on the state of a run\<close>

definition RunDoneActivate :: "AnySource \<Rightarrow> AnySource" where
  "RunDoneActivate src = src\<lparr>sourceState := Active, runDone := runDone src + 1\<rparr>"

definition RunDoneDeactivate :: "AnySource \<Rightarrow> AnySource" where
  "RunDoneDeactivate src = src\<lparr>sourceState := Inactive, runDone := runDone src - 1\<rparr>"

definition closeIfOpen :: "bool option \<Rightarrow> bool option go" where
  "closeIfOpen c = (case c of None \<Rightarrow> Inl (ExplicitPanic ''close of nil channel'') | Some _ \<Rightarrow> Inr (Some True))"

text \<open>\<open>AnySource.Stop\<close> up to the wait, and the part after it; \<open>True\<close> says that it waits.\<close>

definition source_Stop :: "AnySource \<Rightarrow> (AnySource \<times> bool) go" where
  "source_Stop src = (case sourceState src of
     Inactive \<Rightarrow> Inr (src, False)
   | Starting \<Rightarrow> Inl (ExplicitPanic ''Called Stop on a Starting source; how to handle this??'')
   | Active \<Rightarrow> bind_go (closeIfOpen (abortSelf src)) (\<lambda>c. Inr (src\<lparr>sourceState := Stopping, abortSelf := c\<rparr>, True))
   | Stopping \<Rightarrow> Inr (src, False))"

definition stop_request :: WriteControlConfig where
  "stop_request = \<lparr>Request = ''STOP'', cfgPath = [], cfgWriteLJH22 = False, cfgWriteOFF = False, cfgWriteLJH3 = False,
     cfgFlushAlsoSyncs = False, Intention = [], Users = [], Sample = [], Purpose = [], MapInternalOnly = None\<rparr>"

definition source_Stop_end :: "source_env \<Rightarrow> AnySource \<times> world \<Rightarrow> (AnySource \<times> world) go" where
  "source_Stop_end env = (\<lambda>(src, w). let src1 = src\<lparr>groupKeysSorted := []\<rparr> in
     if wsActive (writingState src1)
     then bind_go (WriteControl env w src1 stop_request) (\<lambda>(src2, w1, _). Inr (src2, w1)) else Inr (src1, w))"

text \<open>The end of the service \<open>Stop\<close>.\<close>

definition after_stop :: "SourceControl \<Rightarrow> SourceControl" where
  "after_stop sc = fst (broadcastStatus (fst (handlePossibleStoppedSource sc)))"

definition set_source :: "source_kind \<Rightarrow> AnySource \<Rightarrow> SourceControl \<Rightarrow> SourceControl" where
  "set_source k src sc = sc\<lparr>anySource := (anySource sc)(k := src)\<rparr>"

text \<open>What of a source the life of a run depends on.\<close>

definition life :: "AnySource \<Rightarrow> SourceState \<times> int \<times> bool option" where
  "life src = (sourceState src, runDone src, abortSelf src)"

subsection \<open>Callers, core loops and producers as steps\<close>

text \<open>
  A core loop waits in its select, or owes results to the caller whose closure it has run, or is about to
  return.  The goroutine that produces blocks may have been started, may have sent an error as its last
  block, or may have closed \<open>nextBlock\<close>.  A caller between two calls is \<open>Idle\<close>; the others are inside
  \<open>Start\<close>, inside \<open>Stop\<close>, or inside a service: waiting for the core loop to take the closure, or for its
  result.  The flag of the last two marks the goroutine of a detached request; \<open>Awaiting\<close> records the
  results the closure owes.  \<open>StopCalled\<close> is a caller of \<open>Stop\<close> that has given back the lock and has not yet
  looked at the wait group; a new run may start before it does.
\<close>

datatype core_pc = Selecting | Replying nat "rpc_error option list" | Returning

datatype producer_pc = NotProducing | Producing | Failed | Closed

type_synonym rpc_post =
  "SourceControl \<Rightarrow> rpc_error option \<Rightarrow> SourceControl \<times> client_update list \<times> rpc_reply \<times> rpc_error option"

datatype client_pc =
    Idle | Chosen source_kind | Sampling source_kind | Launching source_kind | Launched source_kind
  | Detaching closure | Queueing bool closure rpc_post | Awaiting bool rpc_post "rpc_error option list"
  | StopCalled source_kind | StopWaiting source_kind | StopTail source_kind

record server =
  ctl :: SourceControl
  wld :: world
  loops :: "(source_kind \<times> core_pc) list"
  producers :: "source_kind \<Rightarrow> producer_pc"
  clients :: "nat \<Rightarrow> client_pc"
  crashed :: bool

definition set_client :: "nat \<Rightarrow> client_pc \<Rightarrow> server \<Rightarrow> server" where
  "set_client c pc s = s\<lparr>clients := (clients s)(c := pc)\<rparr>"

definition src_of :: "server \<Rightarrow> source_kind \<Rightarrow> AnySource" where
  "src_of s k = anySource (ctl s) k"

definition put_src :: "source_kind \<Rightarrow> AnySource \<Rightarrow> server \<Rightarrow> server" where
  "put_src k src s = s\<lparr>ctl := set_source k src (ctl s)\<rparr>"

definition loop_at :: "nat \<Rightarrow> core_pc \<Rightarrow> server \<Rightarrow> server" where
  "loop_at i pc s = s\<lparr>loops := (loops s)[i := (fst (loops s ! i), pc)]\<rparr>"

text \<open>\<open>RunDoneDeactivate\<close> wakes the callers of \<open>Stop\<close> when the count of runs reaches zero.\<close>

definition deactivate :: "source_kind \<Rightarrow> server \<Rightarrow> server" where
  "deactivate k s = (let src = RunDoneDeactivate (src_of s k); s1 = put_src k src s in
     if runDone src = 0
     then s1\<lparr>clients := (\<lambda>c. if clients s c = StopWaiting k then StopTail k else clients s c)\<rparr> else s1)"

datatype event =
    Call nat sc_request | RunDetached nat | Accept nat nat | Deliver nat nat "rpc_error option" | EndReply nat
  | Block nat dataBlock | BadBlock nat | ProducerStops source_kind | ProducerGivesUp source_kind | SeeClosed nat
  | LoopReturns nat
  | Select nat string | Begin nat | Prepare nat | Abandon nat | Launch nat | LaunchFails nat | Finish nat
  | StopCall nat | StopWaits nat | StopReturns nat

text \<open>
  A call that is refused without any effect (\<open>Start\<close> while a source is active or with an unknown name,
  \<open>Stop\<close> while none is) has no rule.  The goroutines that receive client updates and heartbeats are taken to
  be always ready.  A producer closes \<open>nextBlock\<close> when it finds \<open>abortSelf\<close> closed (\<open>producer_stops\<close>), or
  of its own when its device fails or falls silent (\<open>producer_gives_up\<close>).  A panic, and an error of
  \<open>ProcessSegments\<close>, ends the program: the flag \<open>crashed\<close>, after which there are no more steps.
\<close>

inductive server_step :: "source_env \<Rightarrow> server \<Rightarrow> event \<Rightarrow> server \<Rightarrow> bool" for env where
  call_answer: "\<not> crashed s \<Longrightarrow> clients s c = Idle \<Longrightarrow> serve env (ctl s) (wld s) req = Inr (Answer sc us rep err)
    \<Longrightarrow> server_step env s (Call c req) (s\<lparr>ctl := sc\<rparr>)"
| call_later: "\<not> crashed s \<Longrightarrow> clients s c = Idle \<Longrightarrow> serve env (ctl s) (wld s) req = Inr (RunLater us f post)
    \<Longrightarrow> server_step env s (Call c req) (set_client c (Queueing False f post) s)"
| call_detached: "\<not> crashed s \<Longrightarrow> clients s c = Idle \<Longrightarrow> clients s d = Idle \<Longrightarrow> c \<noteq> d
    \<Longrightarrow> serve env (ctl s) (wld s) req = Inr (Detached f)
    \<Longrightarrow> server_step env s (Call c req) (set_client d (Detaching f) s)"
| call_panics: "\<not> crashed s \<Longrightarrow> clients s c = Idle \<Longrightarrow> serve env (ctl s) (wld s) req = Inl p
    \<Longrightarrow> server_step env s (Call c req) (s\<lparr>crashed := True\<rparr>)"
| detached_runs: "\<not> crashed s \<Longrightarrow> clients s c = Detaching f \<Longrightarrow> isSourceActive (ctl s)
    \<Longrightarrow> server_step env s (RunDetached c) (set_client c (Queueing True f plain_post) s)"
| detached_panics: "\<not> crashed s \<Longrightarrow> clients s c = Detaching f \<Longrightarrow> \<not> isSourceActive (ctl s)
    \<Longrightarrow> server_step env s (RunDetached c) (s\<lparr>crashed := True\<rparr>)"
| accept: "\<not> crashed s \<Longrightarrow> i < length (loops s) \<Longrightarrow> loops s ! i = (k, Selecting) \<Longrightarrow> clients s c = Queueing b f post
    \<Longrightarrow> f (ctl s, wld s) = Inr ((sc, w), us, rs)
    \<Longrightarrow> server_step env s (Accept i c) (set_client c (Awaiting b post rs) (loop_at i (Replying c rs) (s\<lparr>ctl := sc, wld := w\<rparr>)))"
| accept_panics: "\<not> crashed s \<Longrightarrow> i < length (loops s) \<Longrightarrow> loops s ! i = (k, Selecting) \<Longrightarrow> clients s c = Queueing b f post
    \<Longrightarrow> f (ctl s, wld s) = Inl p \<Longrightarrow> server_step env s (Accept i c) (s\<lparr>crashed := True\<rparr>)"
| deliver: "\<not> crashed s \<Longrightarrow> i < length (loops s) \<Longrightarrow> loops s ! i = (k, Replying c (r # rs)) \<Longrightarrow> clients s d = Awaiting b post qs
    \<Longrightarrow> \<not> (b \<and> r \<noteq> None)
    \<Longrightarrow> server_step env s (Deliver i d r)
      (set_client d Idle (loop_at i (Replying c rs) (s\<lparr>ctl := fst (post (ctl s) r)\<rparr>)))"
| deliver_panics: "\<not> crashed s \<Longrightarrow> i < length (loops s) \<Longrightarrow> loops s ! i = (k, Replying c (r # rs))
    \<Longrightarrow> clients s d = Awaiting True post qs \<Longrightarrow> r \<noteq> None \<Longrightarrow> server_step env s (Deliver i d r) (s\<lparr>crashed := True\<rparr>)"
| end_reply: "\<not> crashed s \<Longrightarrow> i < length (loops s) \<Longrightarrow> loops s ! i = (k, Replying c [])
    \<Longrightarrow> server_step env s (EndReply i) (loop_at i Selecting s)"
| block: "\<not> crashed s \<Longrightarrow> i < length (loops s) \<Longrightarrow> loops s ! i = (k, Selecting) \<Longrightarrow> producers s k = Producing
    \<Longrightarrow> \<not> blockErr b \<Longrightarrow> ProcessSegments env tk (wld s) (src_of s k) b = Some (Inr (src, w, rates, msgs, None))
    \<Longrightarrow> server_step env s (Block i b) (put_src k src (s\<lparr>wld := w\<rparr>))"
| block_panics: "\<not> crashed s \<Longrightarrow> i < length (loops s) \<Longrightarrow> loops s ! i = (k, Selecting) \<Longrightarrow> producers s k = Producing
    \<Longrightarrow> \<not> blockErr b \<Longrightarrow> ProcessSegments env tk (wld s) (src_of s k) b = Some r
    \<Longrightarrow> \<forall>src w rates msgs. r \<noteq> Inr (src, w, rates, msgs, None)
    \<Longrightarrow> server_step env s (Block i b) (s\<lparr>crashed := True\<rparr>)"
| bad_block: "\<not> crashed s \<Longrightarrow> i < length (loops s) \<Longrightarrow> loops s ! i = (k, Selecting) \<Longrightarrow> producers s k = Producing
    \<Longrightarrow> server_step env s (BadBlock i) (loop_at i Returning (s\<lparr>producers := (producers s)(k := Failed)\<rparr>))"
| producer_stops: "\<not> crashed s \<Longrightarrow> producers s k = Producing \<Longrightarrow> abortSelf (src_of s k) = Some True
    \<Longrightarrow> server_step env s (ProducerStops k) (s\<lparr>producers := (producers s)(k := Closed)\<rparr>)"
| producer_gives_up: "\<not> crashed s \<Longrightarrow> producers s k = Producing
    \<Longrightarrow> server_step env s (ProducerGivesUp k) (s\<lparr>producers := (producers s)(k := Closed)\<rparr>)"
| see_closed: "\<not> crashed s \<Longrightarrow> i < length (loops s) \<Longrightarrow> loops s ! i = (k, Selecting) \<Longrightarrow> producers s k = Closed
    \<Longrightarrow> server_step env s (SeeClosed i) (loop_at i Returning s)"
| loop_returns: "\<not> crashed s \<Longrightarrow> i < length (loops s) \<Longrightarrow> loops s ! i = (k, Returning)
    \<Longrightarrow> server_step env s (LoopReturns i) (deactivate k (s\<lparr>loops := take i (loops s) @ drop (Suc i) (loops s)\<rparr>))"
| select_source: "\<not> crashed s \<Longrightarrow> clients s c = Idle \<Longrightarrow> start_select (ctl s) name = Inr (k, sc)
    \<Longrightarrow> server_step env s (Select c name) (set_client c (Chosen k) (s\<lparr>ctl := sc\<rparr>))"
| begin_start: "\<not> crashed s \<Longrightarrow> clients s c = Chosen k \<Longrightarrow> SetStateStarting (src_of s k) = (src, None)
    \<Longrightarrow> server_step env s (Begin c) (set_client c (Sampling k) (put_src k src s))"
| begin_refused: "\<not> crashed s \<Longrightarrow> clients s c = Chosen k \<Longrightarrow> SetStateStarting (src_of s k) = (src, Some err)
    \<Longrightarrow> server_step env s (Begin c) (set_client c Idle (s\<lparr>ctl := start_failed (ctl s)\<rparr>))"
| prepare: "\<not> crashed s \<Longrightarrow> clients s c = Sampling k \<Longrightarrow> life src0 = life (src_of s k)
    \<Longrightarrow> PrepareRun now stored src0 (stNpresamp (status (ctl s))) (stNsamples (status (ctl s))) = Inr (src, None)
    \<Longrightarrow> server_step env s (Prepare c) (set_client c (Launching k)
      (put_src k (RunDoneActivate src) (s\<lparr>producers := (producers s)(k := NotProducing)\<rparr>)))"
| abandon: "\<not> crashed s \<Longrightarrow> clients s c = Sampling k \<Longrightarrow> runDone src0 = runDone (src_of s k)
    \<Longrightarrow> server_step env s (Abandon c) (set_client c Idle
      (put_src k (SetStateInactive src0) (s\<lparr>ctl := start_failed (ctl s)\<rparr>)))"
| launch: "\<not> crashed s \<Longrightarrow> clients s c = Launching k
    \<Longrightarrow> server_step env s (Launch c) (set_client c (Launched k)
      (s\<lparr>producers := (producers s)(k := Producing), loops := loops s @ [(k, Selecting)]\<rparr>))"
| launch_fails: "\<not> crashed s \<Longrightarrow> clients s c = Launching k
    \<Longrightarrow> server_step env s (LaunchFails c) (set_client c Idle (deactivate k (s\<lparr>ctl := start_failed (ctl s)\<rparr>)))"
| finish: "\<not> crashed s \<Longrightarrow> clients s c = Launched k \<Longrightarrow> start_succeeded (ctl s) = Inr (sc, us)
    \<Longrightarrow> server_step env s (Finish c) (set_client c Idle (s\<lparr>ctl := sc\<rparr>))"
| stop_called: "\<not> crashed s \<Longrightarrow> clients s c = Idle \<Longrightarrow> isSourceActive (ctl s) \<Longrightarrow> k = ActiveSource (ctl s)
    \<Longrightarrow> source_Stop (src_of s k) = Inr (src, True)
    \<Longrightarrow> server_step env s (StopCall c) (set_client c (StopCalled k) (put_src k src s))"
| stop_waits: "\<not> crashed s \<Longrightarrow> clients s c = StopCalled k \<Longrightarrow> runDone (src_of s k) \<noteq> 0
    \<Longrightarrow> server_step env s (StopWaits c) (set_client c (StopWaiting k) s)"
| stop_passes: "\<not> crashed s \<Longrightarrow> clients s c = StopCalled k \<Longrightarrow> runDone (src_of s k) = 0
    \<Longrightarrow> server_step env s (StopWaits c) (set_client c (StopTail k) s)"
| stop_returns_early: "\<not> crashed s \<Longrightarrow> clients s c = Idle \<Longrightarrow> isSourceActive (ctl s)
    \<Longrightarrow> source_Stop (active (ctl s)) = Inr (src, False)
    \<Longrightarrow> server_step env s (StopCall c) (s\<lparr>ctl := after_stop (ctl s)\<rparr>)"
| stop_panics: "\<not> crashed s \<Longrightarrow> clients s c = Idle \<Longrightarrow> isSourceActive (ctl s) \<Longrightarrow> source_Stop (active (ctl s)) = Inl p
    \<Longrightarrow> server_step env s (StopCall c) (s\<lparr>crashed := True\<rparr>)"
| stop_returns: "\<not> crashed s \<Longrightarrow> clients s c = StopTail k \<Longrightarrow> source_Stop_end env (src_of s k, wld s) = Inr (src, w)
    \<Longrightarrow> server_step env s (StopReturns c) (set_client c Idle
      (s\<lparr>ctl := after_stop (set_source k src (ctl s)), wld := w\<rparr>))"

inductive_cases stop_callE: "server_step env s (StopCall c) t"
inductive_cases deliverE: "server_step env s (Deliver i d r) t"

inductive server_run :: "source_env \<Rightarrow> server \<Rightarrow> event list \<Rightarrow> server \<Rightarrow> bool" for env where
  run_done: "server_run env s [] s"
| run_step: "server_step env s e t \<Longrightarrow> server_run env t es u \<Longrightarrow> server_run env s (e # es) u"

text \<open>The server before its first call: no source runs and no caller is inside a service.\<close>

definition fresh_server :: "server \<Rightarrow> bool" where
  "fresh_server s \<longleftrightarrow> \<not> crashed s \<and> loops s = [] \<and> (\<forall>c. clients s c = Idle) \<and> \<not> isSourceActive (ctl s)
     \<and> (\<forall>k. sourceState (src_of s k) = Inactive \<and> runDone (src_of s k) = 0 \<and> producers s k = NotProducing)"

inductive reachable :: "source_env \<Rightarrow> server \<Rightarrow> bool" for env where
  reach_fresh: "fresh_server s \<Longrightarrow> reachable env s"
| reach_step: "reachable env s \<Longrightarrow> server_step env s e t \<Longrightarrow> reachable env t"

end
