(* ===== verification/RunLaws.thy ===== *)
theory RunLaws
  imports Lifecycle
begin

text \<open>
  Laws of the life of a run: configuration and data processing leave it alone; the invariant of a source in
  every reachable state; what \<open>Stop\<close> and the callers of services can rely on; and the two ways in which the
  server loses a run.
\<close>

subsection \<open>Frames\<close>

text \<open>Configuration and data processing leave the life of a source alone.\<close>

named_theorems frame

lemma frame_ConfigurePulseLengths [frame]: "ConfigurePulseLengths src a b = Inr (src', err) \<Longrightarrow> life src' = life src"
  by (auto simp: ConfigurePulseLengths_def life_def bind_go_def split: if_splits sum.splits)

lemma frame_ChangeTriggerState [frame]: "ChangeTriggerState src fts = Inr (src', err) \<Longrightarrow> life src' = life src"
  by (auto simp: ChangeTriggerState_def life_def bind_go_def split: if_splits sum.splits)

lemma frame_ConfigureProjectorsBases [frame]:
  "ConfigureProjectorsBases src i p b descr = (src', err) \<Longrightarrow> life src' = life src"
  by (auto simp: ConfigureProjectorsBases_def life_def split: if_splits prod.splits)

lemma frame_ChangeGroupTrigger [frame]: "ChangeGroupTrigger src on cs = Inr src' \<Longrightarrow> life src' = life src"
  by (auto simp: ChangeGroupTrigger_def life_def split: option.splits)

lemma frame_StopTriggerCoupling [frame]: "source_StopTriggerCoupling src = Inr src' \<Longrightarrow> life src' = life src"
  by (auto simp: source_StopTriggerCoupling_def life_def split: option.splits)

lemma frame_ArchiveDataBlock [frame]: "ArchiveDataBlock now src n = (src', err) \<Longrightarrow> life src' = life src"
  by (auto simp: ArchiveDataBlock_def life_def Let_def split: if_splits)

lemma frame_pause_all [simp]: "life (pause_all p src) = life src"
  by (simp add: life_def pause_all_def)

lemma frame_writeControlStart [frame]: "writeControlStart env w src c = Inr (src', w', err) \<Longrightarrow> life src' = life src"
  by (auto simp: writeControlStart_def life_def bind_go_def Let_def split: if_splits sum.splits prod.splits option.splits)

lemma frame_WriteControl [frame]: "WriteControl env w src c = Inr (src', w', err) \<Longrightarrow> life src' = life src"
  unfolding WriteControl_def Let_def
  by (auto simp: bind_go_def frame_writeControlStart life_def [symmetric] split: if_splits sum.splits prod.splits)
    (auto simp: life_def pause_all_def)

lemma frame_lancero_SetCoupling [frame]: "lancero_SetCoupling ls c = Inr ls' \<Longrightarrow> life (lsSource ls') = life (lsSource ls)"
  by (auto simp: lancero_SetCoupling_def life_def Let_def split: option.splits if_splits)

lemma frame_after_block: "after_block env tk w src block = Inr (src', w', ms, err) \<Longrightarrow> life src' = life src"
  by (auto simp: after_block_def life_def bind_go_def Let_def split: if_splits sum.splits prod.splits)

lemma frame_ProcessSegments [frame]:
  assumes "ProcessSegments env tk w src block = Some (Inr (src', w', rates, ms, err))"
  shows "life src' = life src"
proof -
  let ?arch = "if abActive (archiveBlock src)
    then bind_go (archiveNewDataBlock (nchan src) (archiveBlock src) block) (\<lambda>ab. Inr (src\<lparr>archiveBlock := ab\<rparr>))
    else Inr src"
  have len: "length (processors src) = length (segments block)"
    using assms by (simp add: ProcessSegments_def split: if_splits)
  obtain src1 where a: "?arch = Inr src1"
    using assms len by (cases ?arch) (simp_all add: ProcessSegments_def)
  have m: "life src1 = life src"
    using a by (auto simp: life_def bind_go_def split: if_splits sum.splits)
  have p: "(case broker src1 of None \<Rightarrow> Some (Inl NilDereference)
     | Some b \<Rightarrow> map_option (\<lambda>m. bind_go m (\<lambda>(b1, ds, rates).
         let src2 = src1\<lparr>broker := Some b1, processors := ds, readCounter := readCounter src1 + 1\<rparr> in
         bind_go (after_block env tk w src2 block) (\<lambda>(src3, w3, msgs, err). Inr (src3, w3, rates, msgs, err))))
       (process_channels (channel_env env) b (processors src1) (segments block)))
      = Some (Inr (src', w', rates, ms, err))"
    using assms len unfolding ProcessSegments_def a by simp
  obtain b where b: "broker src1 = Some b" using p by (cases "broker src1") simp_all
  obtain b1 ds rs where c: "process_channels (channel_env env) b (processors src1) (segments block) = Some (Inr (b1, ds, rs))"
    using p b by (cases "process_channels (channel_env env) b (processors src1) (segments block)")
      (auto simp: bind_go_def split: sum.split_asm)
  have "after_block env tk w (src1\<lparr>broker := Some b1, processors := ds, readCounter := readCounter src1 + 1\<rparr>) block
      = Inr (src', w', ms, err)"
    using p by (cases "after_block env tk w
      (src1\<lparr>broker := Some b1, processors := ds, readCounter := readCounter src1 + 1\<rparr>) block") (auto simp: b c)
  from frame_after_block [OF this] m show ?thesis by (simp add: life_def)
qed

lemma PrepareRun_life:
  "PrepareRun now stored src a b = Inr (src', None) \<Longrightarrow> life src' = (sourceState src, runDone src, Some False)"
  by (auto simp: PrepareRun_def life_def VoltsPerArb_def bind_go_def Let_def split: if_splits sum.splits)

text \<open>The same for the whole control state: the closures and services leave the lives of all sources alone.\<close>

definition same_lives :: "SourceControl \<Rightarrow> SourceControl \<Rightarrow> bool" where
  "same_lives sc sc' \<longleftrightarrow> (\<forall>k. life (anySource sc' k) = life (anySource sc k)) \<and> (isSourceActive sc' \<longrightarrow> isSourceActive sc)"

lemma same_lives_refl [simp]: "same_lives sc sc"
  by (simp add: same_lives_def)

lemma same_lives_trans: "same_lives a b \<Longrightarrow> same_lives b c \<Longrightarrow> same_lives a c"
  by (auto simp: same_lives_def)

lemma same_lives_set_active: "life src = life (active sc) \<Longrightarrow> same_lives sc (set_active src sc)"
  by (auto simp: same_lives_def set_active_def active_def)

lemma same_lives_status [simp]:
  "same_lives sc (sc\<lparr>status := st\<rparr>)" "same_lives sc (sc\<lparr>lanceroPart := ls\<rparr>)" "same_lives sc (sc\<lparr>theMap := m\<rparr>)"
  by (simp_all add: same_lives_def)

lemma same_lives_stopped: "same_lives sc (fst (handlePossibleStoppedSource sc))"
  by (simp add: handlePossibleStoppedSource_def same_lives_def Let_def)

lemma same_lives_broadcast: "same_lives sc (fst (broadcastStatus sc))"
  using same_lives_stopped [of sc] by (simp add: broadcastStatus_def case_prod_beta Let_def)

lemma same_lives_after_stop: "same_lives sc (after_stop sc)"
  unfolding after_stop_def by (rule same_lives_trans [OF same_lives_stopped same_lives_broadcast])

definition good_closure :: "bool \<Rightarrow> closure \<Rightarrow> bool" where
  "good_closure one f \<longleftrightarrow> (\<forall>sc w sc' w' us rs. f (sc, w) = Inr ((sc', w'), us, rs) \<longrightarrow>
     same_lives sc sc' \<and> rs \<noteq> [] \<and> (one \<longrightarrow> length rs = 1))"

lemma good_closureI:
  assumes "\<And>sc w sc' w' us rs. f (sc, w) = Inr ((sc', w'), us, rs) \<Longrightarrow> same_lives sc sc' \<and> length rs = 1"
  shows "good_closure one f"
  unfolding good_closure_def using assms by (metis length_0_conv zero_neq_one)

lemma couple_source_lives: "couple_source sc c = Inr (sc', err) \<Longrightarrow> same_lives sc sc'"
proof -
  assume h: "couple_source sc c = Inr (sc', err)"
  show ?thesis
  proof (cases "ActiveSource sc = LanceroTDM")
    case True
    with h obtain ls where ls: "lancero_SetCoupling ((lanceroPart sc)\<lparr>lsSource := active sc\<rparr>) c = Inr ls"
      "sc' = set_active (lsSource ls) (sc\<lparr>lanceroPart := ls\<rparr>)"
      by (auto simp: couple_source_def bind_go_def split: sum.splits)
    from frame_lancero_SetCoupling [OF ls(1)] show ?thesis
      unfolding ls(2) by (auto simp: same_lives_def set_active_def active_def)
  qed (use h in \<open>simp add: couple_source_def\<close>)
qed

lemma good_trigger_closure: "good_closure one (trigger_closure state)"
  by (rule good_closureI)
    (auto simp: trigger_closure_def bind_go_def Let_def frame intro!: same_lives_set_active split: sum.splits)

lemma good_projectors_closure: "good_closure one (projectors_closure i p b descr)"
proof (rule good_closureI)
  fix sc w sc' w' us rs
  assume h: "projectors_closure i p b descr (sc, w) = Inr ((sc', w'), us, rs)"
  obtain src err where c: "ConfigureProjectorsBases (active sc) i p b descr = (src, err)" by fastforce
  have "same_lives sc (set_active src sc)" using frame_ConfigureProjectorsBases [OF c] by (rule same_lives_set_active)
  moreover have "same_lives (set_active src sc) sc'" using h c by (auto simp: projectors_closure_def Let_def split: if_splits)
  ultimately show "same_lives sc sc' \<and> length rs = 1"
    using h c by (auto simp: projectors_closure_def Let_def intro: same_lives_trans)
qed

lemma good_lengths_closure: "good_closure one (lengths_closure a b)"
proof (rule good_closureI)
  fix sc w sc' w' us rs
  assume h: "lengths_closure a b (sc, w) = Inr ((sc', w'), us, rs)"
  then obtain src err where c: "ConfigurePulseLengths (active sc) a b = Inr (src, err)"
    by (auto simp: lengths_closure_def bind_go_def split: sum.splits)
  let ?sc2 = "if err = None then (set_active src sc)\<lparr>status := (status (set_active src sc))\<lparr>stNpresamp := b, stNsamples := a\<rparr>\<rparr>
    else set_active src sc"
  have r: "sc' = fst (broadcastStatus ?sc2)" "length rs = 1"
    using h c by (auto simp: lengths_closure_def bind_go_def Let_def case_prod_beta)
  have "same_lives sc (set_active src sc)" using frame_ConfigurePulseLengths [OF c] by (rule same_lives_set_active)
  moreover have "same_lives (set_active src sc) ?sc2" by simp
  ultimately show "same_lives sc sc' \<and> length rs = 1"
    unfolding r(1) using r(2) by (blast intro: same_lives_trans same_lives_broadcast)
qed

lemma good_write_closure: "good_closure one (write_closure env c)"
  by (rule good_closureI)
    (auto simp: write_closure_def bind_go_def Let_def frame intro!: same_lives_set_active split: sum.splits prod.splits)

lemma good_label_closure: "good_closure one (label_closure env t label)"
  by (rule good_closureI)
    (auto simp: label_closure_def Let_def life_def intro!: same_lives_set_active split: prod.splits)

lemma good_couple_closure: "good_closure one (couple_closure c)"
  by (rule good_closureI)
    (auto simp: couple_closure_def bind_go_def couple_source_lives split: sum.splits prod.splits)

lemma good_group_closure: "good_closure one (group_closure on cs)"
  by (rule good_closureI)
    (auto simp: group_closure_def bind_go_def frame intro!: same_lives_set_active split: sum.splits)

lemma good_archive_closure: "good_closure one (archive_closure now n)"
  by (rule good_closureI)
    (auto simp: archive_closure_def Let_def frame intro!: same_lives_set_active split: prod.splits)

lemma good_stop_coupling_closure: "good_closure one stop_coupling_closure"
proof (rule good_closureI)
  fix sc w sc' w' us rs
  assume h: "stop_coupling_closure (sc, w) = Inr ((sc', w'), us, rs)"
  then obtain src err where s: "source_StopTriggerCoupling (active sc) = Inr src"
    "couple_source (set_active src sc) NoCoupling = Inr (sc', err)" "length rs = 1"
    by (auto simp: stop_coupling_closure_def bind_go_def split: sum.splits prod.splits)
  from same_lives_trans [OF same_lives_set_active [OF frame_StopTriggerCoupling [OF s(1)]] couple_source_lives [OF s(2)]]
  show "same_lives sc sc' \<and> length rs = 1" using s(3) by simp
qed

text \<open>Only the comment may send two results: when its file cannot be created.\<close>

lemma comment_results:
  "comment_closure env comment (sc, w) = Inr ((sc', w'), us, rs) \<Longrightarrow>
    sc' = sc \<and> rs = (if wsActive (writingState (active sc)) \<and> \<not> os_create_ok (file_sys env) (comment_file (active sc))
      then [Some (FileErr (comment_file (active sc))), None] else [None])"
  by (auto simp: comment_closure_def os_create_def Let_def case_prod_beta split: if_splits)

lemma good_comment_closure: "(one \<Longrightarrow> \<forall>p. os_create_ok (file_sys env) p) \<Longrightarrow> good_closure one (comment_closure env comment)"
  unfolding good_closure_def by (auto dest!: comment_results split: if_splits)

lemmas good_closures = good_trigger_closure good_projectors_closure good_lengths_closure good_write_closure
  good_label_closure good_couple_closure good_group_closure good_archive_closure good_stop_coupling_closure

text \<open>What a service may do, of whatever kind it is.\<close>

definition keeps_lives ::
  "(SourceControl \<Rightarrow> rpc_error option \<Rightarrow> SourceControl \<times> client_update list \<times> rpc_reply \<times> rpc_error option) \<Rightarrow> bool" where
  "keeps_lives post \<longleftrightarrow> (\<forall>sc err. same_lives sc (fst (post sc err)))"

fun good_plan :: "bool \<Rightarrow> SourceControl \<Rightarrow> plan \<Rightarrow> bool" where
  "good_plan one sc (Answer sc' us rep err) \<longleftrightarrow> same_lives sc sc'"
| "good_plan one sc (RunLater us f post) \<longleftrightarrow> isSourceActive sc \<and> good_closure one f \<and> keeps_lives post"
| "good_plan one sc (Detached f) \<longleftrightarrow> good_closure one f"

lemma keeps_lives_posts [simp]:
  "keeps_lives plain_post" "keeps_lives map_post" "keeps_lives (\<lambda>sc err. (sc, us, rep, err))"
  by (auto simp: keeps_lives_def plain_post_def map_post_def map_Unload_def split: option.splits rpc_error.splits source_error.splits)

lemma good_runLater: "good_closure one f \<Longrightarrow> good_plan one sc (runLaterIfActive sc f)"
  by (simp add: runLaterIfActive_def)

lemma good_serve:
  assumes "serve env sc w req = Inr p" "one \<Longrightarrow> \<forall>p. os_create_ok (file_sys env) p"
  shows "good_plan one sc p"
proof (cases req)
  case (ReqMix chans fractions)
  show ?thesis
  proof (cases "ActiveSource sc = LanceroTDM")
    case True
    have life_mix: "life (lsSource ls') = life (lsSource ls)" if "ConfigureMixFraction ls chans fractions = Inr (ls', r)" for ls ls' r
      using that by (auto simp: ConfigureMixFraction_def apply_mix_request_def bind_go_def life_def
        split: option.splits sum.splits prod.splits if_splits)
    from True assms(1) ReqMix obtain ls r where
      "ConfigureMixFraction ((lanceroPart sc)\<lparr>lsSource := active sc\<rparr>) chans fractions = Inr (ls, r)"
      "\<exists>us rep err. p = Answer (set_active (lsSource ls) (sc\<lparr>lanceroPart := ls\<rparr>)) us rep err"
      by (auto simp: rpc_ConfigureMixFraction_def bind_go_def Let_def split: sum.splits)
    then show ?thesis using life_mix by (auto simp: same_lives_def set_active_def active_def)
  next
    case False
    with assms(1) ReqMix show ?thesis by (auto simp: rpc_ConfigureMixFraction_def)
  qed
next
  case (ReqComment comment)
  have "good_closure one (comment_closure env comment)" using assms(2) by (rule good_comment_closure)
  then show ?thesis using assms(1) ReqComment by (auto simp: rpc_WriteComment_def good_runLater)
next
  case ReqSendAll
  then show ?thesis using assms same_lives_broadcast [of sc] by (auto simp: rpc_SendAllStatus_def case_prod_beta Let_def)
next
  case (ReqWrite config)
  then show ?thesis using assms
    by (auto simp: rpc_WriteControl_def runLaterIfActive_def good_closures split: plan.splits if_splits)
next
  case (ReqRawData now n tempname)
  then show ?thesis using assms
    by (auto simp: rpc_StoreRawDataBlock_def runLaterIfActive_def good_closures split: option.splits plan.splits if_splits)
next
  case (ReqReadComment zero)
  then show ?thesis using assms by (auto simp: rpc_ReadComment_def Let_def split: option.splits)
next
  case (ReqTriggers state)
  then show ?thesis using assms
    by (auto simp: rpc_ConfigureTriggers_def Let_def good_closures good_runLater split: sum.splits)
next
  case (ReqProjectors i projs bas descr)
  then show ?thesis using assms
    by (auto simp: rpc_ConfigureProjectorsBasis_def good_closures good_runLater split: option.splits)
next
  case (ReqLengths a b)
  then show ?thesis using assms
    by (auto simp: rpc_ConfigurePulseLengths_def good_closures good_runLater)
next
  case (ReqLabel t label waiting)
  then show ?thesis using assms
    by (auto simp: rpc_SetExperimentStateLabel_def good_closures good_runLater)
qed (use assms in \<open>auto simp: rpc_CoupleErrToFB_def rpc_CoupleFBToErr_def changeGroupTriggerCoupling_def
  rpc_StopTriggerCoupling_def good_closures good_runLater\<close>)

subsection \<open>The invariant of a run\<close>

text \<open>
  For one kind of source: the state, the count and the abort channel; the callers sampling it, launching
  it and waiting for its end; its core loops; its producer.
\<close>

fun kind_inv ::
  "SourceState \<times> int \<times> bool option \<Rightarrow> nat set \<Rightarrow> nat set \<Rightarrow> nat set \<Rightarrow> core_pc list \<Rightarrow> producer_pc \<Rightarrow> bool" where
  "kind_inv (Inactive, n, ab) S L W R p \<longleftrightarrow> n = 0 \<and> S = {} \<and> L = {} \<and> W = {} \<and> R = []"
| "kind_inv (Starting, n, ab) S L W R p \<longleftrightarrow> n = 0 \<and> (\<exists>c. S = {c}) \<and> L = {} \<and> W = {} \<and> R = []"
| "kind_inv (Active, n, ab) S L W R p \<longleftrightarrow> n = 1 \<and> S = {} \<and> ab \<noteq> None
     \<and> ((\<exists>c. L = {c}) \<and> R = [] \<or> L = {} \<and> (\<exists>pc. R = [pc] \<and> (pc \<noteq> Returning \<longrightarrow> p = Producing \<or> p = Closed)))"
| "kind_inv (Stopping, n, ab) S L W R p \<longleftrightarrow> n = 1 \<and> S = {} \<and> ab = Some True
     \<and> ((\<exists>c. L = {c}) \<and> R = [] \<or> L = {} \<and> (\<exists>pc. R = [pc] \<and> (pc \<noteq> Returning \<longrightarrow> p = Producing \<or> p = Closed)))"

definition callers :: "server \<Rightarrow> client_pc \<Rightarrow> nat set" where
  "callers s pc = {c. clients s c = pc}"

definition loops_of :: "source_kind \<Rightarrow> (source_kind \<times> core_pc) list \<Rightarrow> core_pc list" where
  "loops_of k ls = map snd (filter (\<lambda>p. fst p = k) ls)"

definition kind_ok :: "server \<Rightarrow> source_kind \<Rightarrow> bool" where
  "kind_ok s k \<longleftrightarrow> kind_inv (life (src_of s k)) (callers s (Sampling k)) (callers s (Launching k))
     (callers s (StopWaiting k)) (loops_of k (loops s)) (producers s k)"

fun client_ok :: "bool \<Rightarrow> client_pc \<Rightarrow> bool" where
  "client_ok one (Detaching f) \<longleftrightarrow> good_closure one f"
| "client_ok one (Queueing b f post) \<longleftrightarrow> good_closure one f \<and> keeps_lives post"
| "client_ok one (Awaiting b post rs) \<longleftrightarrow> keeps_lives post"
| "client_ok one _ \<longleftrightarrow> True"

lemma callers_set_client:
  "callers (set_client c pc s) x = (if pc = x then insert c (callers s x) else callers s x - {c})"
  by (auto simp: callers_def set_client_def)

lemma callers_fields [simp]:
  "callers (s\<lparr>ctl := a\<rparr>) x = callers s x" "callers (s\<lparr>wld := w\<rparr>) x = callers s x"
  "callers (s\<lparr>loops := l\<rparr>) x = callers s x" "callers (s\<lparr>producers := p\<rparr>) x = callers s x"
  "callers (s\<lparr>crashed := b\<rparr>) x = callers s x" "callers (loop_at i pc s) x = callers s x"
  "callers (put_src k src s) x = callers s x"
  by (simp_all add: callers_def loop_at_def put_src_def)

lemma not_caller: "clients s c = pc \<Longrightarrow> pc \<noteq> x \<Longrightarrow> callers s x - {c} = callers s x"
  by (auto simp: callers_def)

lemma caller: "clients s c = pc \<Longrightarrow> c \<in> callers s pc"
  by (simp add: callers_def)

lemma set_client_fields [simp]:
  "ctl (set_client c pc s) = ctl s" "wld (set_client c pc s) = wld s" "loops (set_client c pc s) = loops s"
  "producers (set_client c pc s) = producers s" "crashed (set_client c pc s) = crashed s"
  "src_of (set_client c pc s) k = src_of s k"
  "clients (set_client c pc s) = (clients s)(c := pc)"
  by (simp_all add: set_client_def src_of_def)

lemma put_src_fields [simp]:
  "src_of (put_src k src s) k' = (if k' = k then src else src_of s k')"
  "loops (put_src k src s) = loops s" "producers (put_src k src s) = producers s"
  "clients (put_src k src s) = clients s" "wld (put_src k src s) = wld s" "crashed (put_src k src s) = crashed s"
  by (simp_all add: src_of_def put_src_def set_source_def)

lemma src_of_fields [simp]:
  "src_of (s\<lparr>wld := w\<rparr>) k = src_of s k" "src_of (s\<lparr>loops := l\<rparr>) k = src_of s k"
  "src_of (s\<lparr>producers := p\<rparr>) k = src_of s k" "src_of (s\<lparr>crashed := b\<rparr>) k = src_of s k"
  "src_of (loop_at i pc s) k = src_of s k" "src_of (s\<lparr>ctl := a\<rparr>) k = anySource a k"
  by (simp_all add: src_of_def loop_at_def)

lemma loop_at_fields [simp]:
  "ctl (loop_at i pc s) = ctl s" "wld (loop_at i pc s) = wld s" "producers (loop_at i pc s) = producers s"
  "clients (loop_at i pc s) = clients s" "crashed (loop_at i pc s) = crashed s"
  by (simp_all add: loop_at_def)

lemma loops_of_split:
  assumes "i < length ls" "ls ! i = (k, pc0)"
  obtains xs ys where "loops_of k ls = xs @ pc0 # ys"
    "\<And>pc. loops_of k (ls[i := (k, pc)]) = xs @ pc # ys"
    "loops_of k (take i ls @ drop (Suc i) ls) = xs @ ys"
    "\<And>k' pc. k' \<noteq> k \<Longrightarrow> loops_of k' (ls[i := (k, pc)]) = loops_of k' ls"
    "\<And>k'. k' \<noteq> k \<Longrightarrow> loops_of k' (take i ls @ drop (Suc i) ls) = loops_of k' ls"
proof -
  have ls: "ls = take i ls @ (k, pc0) # drop (Suc i) ls" using assms id_take_nth_drop by metis
  have up: "ls[i := (k, pc)] = take i ls @ (k, pc) # drop (Suc i) ls" for pc
    using assms(1) by (rule upd_conv_take_nth_drop)
  have app: "loops_of k' (xs @ ys) = loops_of k' xs @ loops_of k' ys" for k' xs ys by (simp add: loops_of_def)
  have cons: "loops_of k' ((k, pc) # ys) = (if k' = k then pc # loops_of k' ys else loops_of k' ys)" for k' pc ys
    by (simp add: loops_of_def)
  show ?thesis
  proof (rule that [of "loops_of k (take i ls)" "loops_of k (drop (Suc i) ls)"])
    show "loops_of k ls = loops_of k (take i ls) @ pc0 # loops_of k (drop (Suc i) ls)"
      by (subst ls, simp only: app cons) simp
    show "loops_of k' (take i ls @ drop (Suc i) ls) = loops_of k' ls" if "k' \<noteq> k" for k'
      using that by (subst (3) ls) (simp only: app cons if_False)
    show "loops_of k' (ls[i := (k, pc)]) = loops_of k' ls" if "k' \<noteq> k" for k' pc
      using that unfolding up by (subst (3) ls) (simp only: app cons if_False)
  qed (simp_all add: up app cons)
qed

text \<open>Steps that leave the view of a kind alone, or change one loop of it.\<close>

fun plain :: "client_pc \<Rightarrow> bool" where
  "plain (Sampling k) = False"
| "plain (Launching k) = False"
| "plain (StopWaiting k) = False"
| "plain _ = True"

lemma kind_ok_client [simp]:
  "plain (clients s c) \<Longrightarrow> plain pc \<Longrightarrow> kind_ok (set_client c pc s) k = kind_ok s k"
proof -
  assume a: "plain (clients s c)" "plain pc"
  have "callers (set_client c pc s) x = callers s x" if "\<not> plain x" for x
  proof -
    have "pc \<noteq> x" "clients s c \<noteq> x" using a that by auto
    then show ?thesis by (simp add: callers_set_client not_caller [of s c "clients s c"])
  qed
  then show ?thesis by (simp add: kind_ok_def)
qed

lemma kind_ok_ctl: "life (anySource sc k) = life (src_of s k) \<Longrightarrow> kind_ok (s\<lparr>ctl := sc\<rparr>) k = kind_ok s k"
  by (simp add: kind_ok_def)

lemma kind_ok_wld [simp]: "kind_ok (s\<lparr>wld := w\<rparr>) k = kind_ok s k" "kind_ok (s\<lparr>crashed := b\<rparr>) k = kind_ok s k"
  by (simp_all add: kind_ok_def)

lemma kind_ok_put_src: "life src = life (src_of s k) \<Longrightarrow> kind_ok (put_src k src s) k' = kind_ok s k'"
  by (simp add: kind_ok_def)

lemma kind_inv_loop:
  assumes "kind_inv (st, n, ab) S L W R p" "R = xs @ pc0 # ys" "pc \<noteq> Returning \<Longrightarrow> pc0 \<noteq> Returning"
  shows "kind_inv (st, n, ab) S L W (xs @ pc # ys) p"
  using assms by (cases st) (auto simp: append_eq_Cons_conv)

lemma kind_ok_loop_at:
  assumes "kind_ok s k'" "i < length (loops s)" "loops s ! i = (k, pc0)" "pc \<noteq> Returning \<Longrightarrow> pc0 \<noteq> Returning"
  shows "kind_ok (loop_at i pc s) k'"
proof -
  have up: "loops (loop_at i pc s) = (loops s)[i := (k, pc)]" using assms(3) by (simp add: loop_at_def)
  obtain xs ys where l: "loops_of k (loops s) = xs @ pc0 # ys"
    "\<And>pc. loops_of k ((loops s)[i := (k, pc)]) = xs @ pc # ys"
    "\<And>k' pc. k' \<noteq> k \<Longrightarrow> loops_of k' ((loops s)[i := (k, pc)]) = loops_of k' (loops s)"
    using loops_of_split [OF assms(2,3)] by metis
  obtain st n ab where v: "life (src_of s k') = (st, n, ab)" by (cases "life (src_of s k')")
  show ?thesis
  proof (cases "k' = k")
    case True
    with assms(1) v kind_inv_loop [OF _ l(1) assms(4)] show ?thesis by (simp add: kind_ok_def up l(2))
  qed (use assms(1) in \<open>simp add: kind_ok_def up l(3)\<close>)
qed

lemma kind_of_loop:
  assumes "kind_ok s k" "i < length (loops s)" "loops s ! i = (k, pc)"
  shows "(sourceState (src_of s k) = Active \<or> sourceState (src_of s k) = Stopping) \<and> runDone (src_of s k) = 1
    \<and> callers s (Sampling k) = {} \<and> callers s (Launching k) = {} \<and> loops_of k (loops s) = [pc]
    \<and> (pc \<noteq> Returning \<longrightarrow> producers s k = Producing \<or> producers s k = Closed)"
proof -
  obtain xs ys where l: "loops_of k (loops s) = xs @ pc # ys" using loops_of_split [OF assms(2,3)] by metis
  show ?thesis
    using assms(1) l by (cases "sourceState (src_of s k)") (auto simp: kind_ok_def life_def append_eq_Cons_conv)
qed

lemma callers_deactivate:
  "runDone (src_of s k) = 1 \<Longrightarrow> callers (deactivate k s) x
    = (if x = StopWaiting k then {} else if x = StopTail k then callers s x \<union> callers s (StopWaiting k) else callers s x)"
  by (auto simp: deactivate_def Let_def callers_def RunDoneDeactivate_def put_src_def)

lemma deactivate_fields [simp]:
  "loops (deactivate k s) = loops s" "producers (deactivate k s) = producers s" "wld (deactivate k s) = wld s"
  "crashed (deactivate k s) = crashed s"
  "src_of (deactivate k s) k' = (if k' = k then RunDoneDeactivate (src_of s k) else src_of s k')"
  by (simp_all add: deactivate_def Let_def src_of_def put_src_def set_source_def)

lemma kind_ok_returns:
  assumes ok: "\<forall>k. kind_ok s k" and "i < length (loops s)" "loops s ! i = (k, Returning)"
  shows "kind_ok (deactivate k (s\<lparr>loops := take i (loops s) @ drop (Suc i) (loops s)\<rparr>)) k'"
proof -
  note kl = kind_of_loop [OF spec [OF ok] assms(2,3)]
  obtain xs ys where l: "loops_of k (loops s) = xs @ Returning # ys"
    "loops_of k (take i (loops s) @ drop (Suc i) (loops s)) = xs @ ys"
    "\<And>k'. k' \<noteq> k \<Longrightarrow> loops_of k' (take i (loops s) @ drop (Suc i) (loops s)) = loops_of k' (loops s)"
    using loops_of_split [OF assms(2,3)] by metis
  have e: "xs @ ys = []" using l(1) kl by (cases xs) auto
  show ?thesis
  proof (cases "k' = k")
    case True
    then show ?thesis using kl e l(2)
      by (simp add: kind_ok_def callers_deactivate life_def RunDoneDeactivate_def)
  next
    case False
    then show ?thesis using spec [OF ok, of k'] kl l(3) [OF False]
      by (simp add: kind_ok_def callers_deactivate)
  qed
qed

lemma start_failed_lives [simp]: "anySource (start_failed sc) = anySource sc"
  by (simp add: start_failed_def)

lemma start_select_lives: "start_select sc name = Inr (k, sc') \<Longrightarrow> anySource sc' = anySource sc \<and> isSourceActive sc' = isSourceActive sc"
  by (auto simp: start_select_def split: if_splits option.splits)

lemma start_succeeded_lives: "start_succeeded sc = Inr (sc', us) \<Longrightarrow> life (anySource sc' k) = life (anySource sc k)"
proof -
  assume h: "start_succeeded sc = Inr (sc', us)"
  let ?sc1 = "sc\<lparr>isSourceActive := True, status := (status sc)\<lparr>stSamplePeriod := samplePeriod (active sc),
    stNchannels := nchan (active sc), stChanGroups := groupKeysSorted (active sc)\<rparr>\<rparr>"
  have "sc' = fst (broadcastStatus ?sc1)"
    using h by (auto simp: start_succeeded_def Let_def bind_go_def case_prod_beta split: sum.splits)
  then show ?thesis using same_lives_broadcast [of ?sc1] by (simp add: same_lives_def)
qed

lemma source_Stop_end_lives:
  "source_Stop_end env (src, w) = Inr (src', w') \<Longrightarrow> life src' = life src"
  by (auto simp: source_Stop_end_def Let_def bind_go_def life_def split: if_splits sum.splits
    dest!: frame_WriteControl)

lemma source_Stop_life:
  "source_Stop src = Inr (src', True) \<Longrightarrow> sourceState src = Active \<and> life src' = (Stopping, runDone src, Some True)"
  "source_Stop src = Inr (src', False) \<Longrightarrow> src' = src"
  by (auto simp: source_Stop_def closeIfOpen_def life_def bind_go_def split: SourceState.splits option.splits)

lemma src_of_start_failed: "anySource (start_failed (ctl s)) k = src_of s k"
  by (simp add: src_of_def)

text \<open>The steps that move a caller of \<open>Start\<close> or \<open>Stop\<close>.\<close>

lemma kind_ok_begin:
  assumes "\<forall>k. kind_ok s k" "clients s c = Chosen k" "SetStateStarting (src_of s k) = (src, None)"
  shows "kind_ok (set_client c (Sampling k) (put_src k src s)) k'"
proof -
  have st: "sourceState (src_of s k) = Inactive" "src = (src_of s k)\<lparr>sourceState := Starting\<rparr>"
    using assms(3) by (auto simp: SetStateStarting_def split: if_splits)
  show ?thesis using spec [OF assms(1), of k'] st(1) assms(2)
    by (cases "k' = k") (auto simp: kind_ok_def callers_set_client st(2) life_def not_caller)
qed

lemma kind_ok_prepare:
  assumes "\<forall>k. kind_ok s k" "clients s c = Sampling k" "life src0 = life (src_of s k)"
    "PrepareRun now stored src0 a b = Inr (src, None)"
  shows "kind_ok (set_client c (Launching k)
    (put_src k (RunDoneActivate src) (s\<lparr>producers := (producers s)(k := NotProducing)\<rparr>))) k'"
proof -
  have c: "c \<in> callers s (Sampling k)" using assms(2) by (simp add: callers_def)
  have k: "kind_ok s k" using assms(1) by simp
  have st: "sourceState (src_of s k) = Starting \<and> callers s (Sampling k) = {c} \<and> callers s (Launching k) = {}
      \<and> callers s (StopWaiting k) = {} \<and> loops_of k (loops s) = [] \<and> runDone (src_of s k) = 0"
    using k c by (cases "sourceState (src_of s k)") (auto simp: kind_ok_def life_def)
  have l: "life (RunDoneActivate src) = (Active, 1, Some False)"
    using PrepareRun_life [OF assms(4)] assms(3) st by (simp add: life_def RunDoneActivate_def)
  show ?thesis
  proof (cases "k' = k")
    case True
    then show ?thesis using st l by (simp add: kind_ok_def callers_set_client)
  next
    case False
    then show ?thesis using spec [OF assms(1), of k'] assms(2)
      by (simp add: kind_ok_def callers_set_client not_caller)
  qed
qed

lemma kind_ok_abandon:
  assumes "\<forall>k. kind_ok s k" "clients s c = Sampling k" "runDone src0 = runDone (src_of s k)"
  shows "kind_ok (set_client c Idle (put_src k (SetStateInactive src0) (s\<lparr>ctl := start_failed (ctl s)\<rparr>))) k'"
proof -
  have c: "c \<in> callers s (Sampling k)" using assms(2) by (simp add: callers_def)
  have k: "kind_ok s k" using assms(1) by simp
  have st: "callers s (Sampling k) = {c} \<and> callers s (Launching k) = {} \<and> callers s (StopWaiting k) = {}
      \<and> loops_of k (loops s) = [] \<and> runDone (src_of s k) = 0"
    using k c by (cases "sourceState (src_of s k)") (auto simp: kind_ok_def life_def)
  show ?thesis
  proof (cases "k' = k")
    case True
    then show ?thesis using st assms(3) by (simp add: kind_ok_def callers_set_client life_def SetStateInactive_def)
  next
    case False
    then show ?thesis using spec [OF assms(1), of k'] assms(2)
      by (simp add: kind_ok_def callers_set_client not_caller src_of_start_failed del: start_failed_lives)
  qed
qed

lemma launching_kind:
  assumes "\<forall>k. kind_ok s k" "clients s c = Launching k"
  shows "(sourceState (src_of s k) = Active \<or> sourceState (src_of s k) = Stopping) \<and> runDone (src_of s k) = 1
    \<and> callers s (Sampling k) = {} \<and> callers s (Launching k) = {c} \<and> loops_of k (loops s) = []"
proof -
  have c: "c \<in> callers s (Launching k)" using assms(2) by (simp add: callers_def)
  have "kind_ok s k" using assms(1) by simp
  then show ?thesis using c by (cases "sourceState (src_of s k)") (auto simp: kind_ok_def life_def)
qed

lemma kind_ok_launch:
  assumes "\<forall>k. kind_ok s k" "clients s c = Launching k"
  shows "kind_ok (set_client c (Launched k)
    (s\<lparr>producers := (producers s)(k := Producing), loops := loops s @ [(k, Selecting)]\<rparr>)) k'"
proof (cases "k' = k")
  case True
  have "kind_ok s k" using assms(1) by simp
  then show ?thesis using True launching_kind [OF assms]
    by (cases "sourceState (src_of s k)") (auto simp: kind_ok_def callers_set_client life_def loops_of_def not_caller [OF assms(2)])
next
  case False
  then show ?thesis using spec [OF assms(1), of k'] assms(2)
    by (simp add: kind_ok_def callers_set_client not_caller loops_of_def)
qed

lemma kind_ok_launch_fails:
  assumes "\<forall>k. kind_ok s k" "clients s c = Launching k"
  shows "kind_ok (set_client c Idle (deactivate k (s\<lparr>ctl := start_failed (ctl s)\<rparr>))) k'"
proof -
  note lk = launching_kind [OF assms]
  have r: "runDone (src_of (s\<lparr>ctl := start_failed (ctl s)\<rparr>) k) = 1" using lk by (simp add: src_of_def)
  show ?thesis
  proof (cases "k' = k")
    case True
    then show ?thesis using lk
      by (simp add: kind_ok_def callers_set_client callers_deactivate [OF r] life_def RunDoneDeactivate_def src_of_start_failed del: start_failed_lives)
  next
    case False
    then show ?thesis using spec [OF assms(1), of k'] assms(2)
      by (simp add: kind_ok_def callers_set_client callers_deactivate [OF r] not_caller src_of_start_failed del: start_failed_lives)
  qed
qed

lemma kind_ok_stop:
  assumes "\<forall>k. kind_ok s k" "clients s c = Idle" "source_Stop (src_of s k) = Inr (src, True)"
  shows "kind_ok (set_client c (StopCalled k) (put_src k src s)) k'"
proof (cases "k' = k")
  case True
  have "kind_ok s k" using assms(1) by simp
  then show ?thesis using True source_Stop_life(1) [OF assms(3)]
    by (auto simp: kind_ok_def callers_set_client life_def not_caller [OF assms(2)])
next
  case False
  then show ?thesis using spec [OF assms(1), of k'] assms(2)
    by (simp add: kind_ok_def callers_set_client not_caller)
qed

lemma kind_ok_wait:
  assumes "\<forall>k. kind_ok s k" "clients s c = StopCalled k" "runDone (src_of s k) \<noteq> 0"
  shows "kind_ok (set_client c (StopWaiting k) s) k'"
  using spec [OF assms(1), of k'] assms(2,3)
  by (cases "sourceState (src_of s k')") (auto simp: kind_ok_def callers_set_client life_def not_caller)

text \<open>The whole invariant, and that every step keeps it.\<close>

definition server_ok :: "bool \<Rightarrow> server \<Rightarrow> bool" where
  "server_ok one s \<longleftrightarrow> (\<forall>k. kind_ok s k) \<and> (\<forall>c. client_ok one (clients s c))"

lemma kind_ok_producer:
  assumes "\<forall>k. kind_ok s k" "producers s k = Producing"
  shows "kind_ok (s\<lparr>producers := (producers s)(k := Closed)\<rparr>) k'"
  using spec [OF assms(1), of k'] assms(2)
  by (cases "sourceState (src_of s k')") (auto simp: kind_ok_def life_def)

lemma kind_ok_failed:
  assumes "\<forall>k. kind_ok s k" "i < length (loops s)" "loops s ! i = (k, Selecting)"
  shows "kind_ok (loop_at i Returning (s\<lparr>producers := (producers s)(k := Failed)\<rparr>)) k'"
proof -
  have k: "kind_ok s k" using assms(1) by simp
  note kl = kind_of_loop [OF k assms(2,3)]
  have up: "loops (loop_at i Returning (s\<lparr>producers := (producers s)(k := Failed)\<rparr>)) = (loops s)[i := (k, Returning)]"
    using assms(3) by (simp add: loop_at_def)
  obtain xs ys where l: "loops_of k (loops s) = xs @ Selecting # ys"
    "loops_of k ((loops s)[i := (k, Returning)]) = xs @ Returning # ys"
    "\<And>k'. k' \<noteq> k \<Longrightarrow> loops_of k' ((loops s)[i := (k, Returning)]) = loops_of k' (loops s)"
    using loops_of_split [OF assms(2,3)] by metis
  have e: "xs = []" "ys = []" using l(1) kl by (cases xs; auto)+
  show ?thesis
  proof (cases "k' = k")
    case True
    then show ?thesis using k kl e l(2)
      by (cases "sourceState (src_of s k)") (auto simp: kind_ok_def up life_def)
  next
    case False
    then show ?thesis using spec [OF assms(1), of k'] l(3) by (simp add: kind_ok_def up)
  qed
qed

lemma kind_ok_step:
  assumes "server_step env s e t" "server_ok one s"
  shows "kind_ok t k'"
proof -
  have ok: "\<forall>k. kind_ok s k" and cl: "\<And>c. client_ok one (clients s c)" using assms(2) by (simp_all add: server_ok_def)
  note k = spec [OF ok, of k']
  from assms(1) show ?thesis
  proof cases
    case (call_answer c req sc us rep err)
    have "good_plan False (ctl s) (Answer sc us rep err)" by (rule good_serve [OF call_answer(5)]) simp
    then show ?thesis using k by (simp add: call_answer kind_ok_ctl same_lives_def src_of_def)
  next
    case (accept i k c b f post sc w us rs)
    have "same_lives (ctl s) sc" using cl [of c] accept(6,7) by (auto simp: good_closure_def)
    then have "kind_ok (s\<lparr>ctl := sc, wld := w\<rparr>) k'" using k by (simp add: kind_ok_ctl same_lives_def src_of_def)
    then have "kind_ok (loop_at i (Replying c rs) (s\<lparr>ctl := sc, wld := w\<rparr>)) k'"
      by (rule kind_ok_loop_at [where k = k and ?pc0.0 = Selecting]) (use accept in simp_all)
    then show ?thesis by (simp add: accept)
  next
    case (deliver i k c r rs d b post qs)
    have "keeps_lives post" using cl [of d] deliver(6) by auto
    then have "kind_ok (s\<lparr>ctl := fst (post (ctl s) r)\<rparr>) k'"
      using k by (simp add: kind_ok_ctl keeps_lives_def same_lives_def src_of_def)
    then have "kind_ok (loop_at i (Replying c rs) (s\<lparr>ctl := fst (post (ctl s) r)\<rparr>)) k'"
      by (rule kind_ok_loop_at [where k = k and ?pc0.0 = "Replying c (r # rs)"]) (use deliver in simp_all)
    then show ?thesis by (simp add: deliver)
  next
    case (end_reply i k c)
    show ?thesis unfolding end_reply(2) by (rule kind_ok_loop_at [OF k end_reply(4,5)]) simp
  next
    case (block i k b tk src w rates msgs)
    then show ?thesis using k frame_ProcessSegments [OF block(8)] by (simp add: kind_ok_put_src)
  next
    case (bad_block i k)
    show ?thesis unfolding bad_block(2) by (rule kind_ok_failed [OF ok bad_block(4,5)])
  next
    case (producer_stops k)
    then show ?thesis using kind_ok_producer [OF ok] by simp
  next
    case (producer_gives_up k)
    then show ?thesis using kind_ok_producer [OF ok] by simp
  next
    case (see_closed i k)
    show ?thesis unfolding see_closed(2) by (rule kind_ok_loop_at [OF k see_closed(4,5)]) simp
  next
    case (loop_returns i k)
    then show ?thesis using kind_ok_returns [OF ok] by simp
  next
    case (select_source c name k sc)
    then show ?thesis using k start_select_lives [OF select_source(5)] by (simp add: kind_ok_ctl src_of_def)
  next
    case (begin_start c k src)
    then show ?thesis using kind_ok_begin [OF ok] by simp
  next
    case (begin_refused c k src err)
    then show ?thesis using k by (simp add: kind_ok_ctl src_of_def)
  next
    case (prepare c k src0 now stored src)
    then show ?thesis using kind_ok_prepare [OF ok] by simp
  next
    case (abandon c k src0)
    then show ?thesis using kind_ok_abandon [OF ok] by simp
  next
    case (launch c k)
    then show ?thesis using kind_ok_launch [OF ok] by simp
  next
    case (launch_fails c k)
    then show ?thesis using kind_ok_launch_fails [OF ok] by simp
  next
    case (finish c k sc us)
    then show ?thesis using k start_succeeded_lives [OF finish(5)] by (simp add: kind_ok_ctl src_of_def)
  next
    case (stop_called c k src)
    then show ?thesis using kind_ok_stop [OF ok] by simp
  next
    case (stop_waits c k)
    then show ?thesis using kind_ok_wait [OF ok] by simp
  next
    case (stop_returns_early c src)
    then show ?thesis using k same_lives_after_stop [of "ctl s"] by (simp add: kind_ok_ctl same_lives_def src_of_def)
  next
    case (stop_returns c k src w)
    have "life (anySource (after_stop (set_source k src (ctl s))) k') = life (src_of s k')"
      using same_lives_after_stop [of "set_source k src (ctl s)"] source_Stop_end_lives [OF stop_returns(5)]
      by (auto simp: same_lives_def set_source_def src_of_def)
    then show ?thesis using k stop_returns by (simp add: kind_ok_ctl)
  qed (use k in simp_all)
qed

lemma client_ok_step:
  assumes "server_step env s e t" "server_ok one s" "one \<Longrightarrow> \<forall>p. os_create_ok (file_sys env) p"
  shows "client_ok one (clients t c')"
proof -
  have cl: "client_ok one (clients s c)" for c using assms(2) by (simp add: server_ok_def)
  have serve_ok: "good_plan one (ctl s) p" if "serve env (ctl s) (wld s) req = Inr p" for req p
    using good_serve [OF that assms(3)] .
  have wake: "client_ok one (clients (deactivate k s') c')" if "\<forall>c. client_ok one (clients s' c)" for k s'
    using that by (simp add: deactivate_def Let_def put_src_def)
  from assms(1) show ?thesis
  proof cases
    case (call_later c req us f post)
    then show ?thesis using cl serve_ok [OF call_later(5)] by simp
  next
    case (call_detached c d req f)
    then show ?thesis using cl serve_ok [OF call_detached(7)] by simp
  next
    case (detached_runs c f)
    then show ?thesis using cl [of c'] cl [of c] by simp
  next
    case (accept i k c b f post sc w us rs)
    then show ?thesis using cl [of c'] cl [of c] by simp
  next
    case (launch_fails c k)
    then show ?thesis using wake [of "s\<lparr>ctl := start_failed (ctl s)\<rparr>" k] cl by simp
  next
    case (loop_returns i k)
    then show ?thesis using wake [of "s\<lparr>loops := take i (loops s) @ drop (Suc i) (loops s)\<rparr>" k] cl by simp
  qed (use cl in \<open>simp_all add: put_src_def\<close>)
qed

lemma server_ok_step:
  "server_step env s e t \<Longrightarrow> server_ok one s \<Longrightarrow> (one \<Longrightarrow> \<forall>p. os_create_ok (file_sys env) p) \<Longrightarrow> server_ok one t"
  using kind_ok_step client_ok_step by (metis server_ok_def)

lemma server_ok_fresh: "fresh_server s \<Longrightarrow> server_ok one s"
  by (simp add: server_ok_def fresh_server_def kind_ok_def life_def callers_def loops_of_def)

lemma reachable_ok: "reachable env s \<Longrightarrow> server_ok False s"
  by (induction rule: reachable.induct) (auto intro: server_ok_fresh server_ok_step)

text \<open>
  C3: in every state that callers, core loops and producers can reach in any interleaving, each source has
  at most one core loop; the count \<open>runDone\<close> is 1 exactly while the source is active or stopping, and then
  its run is either being launched by one caller of \<open>Start\<close> or served by its one loop; only while the count is 1
  does a caller of \<open>Stop\<close> wait for its end; an inactive source has neither a loop nor such a caller, and a source
  that is stopping has its channel \<open>abortSelf\<close> closed.
\<close>

theorem run_invariant:
  assumes "reachable env s"
  shows "let st = sourceState (src_of s k); R = loops_of k (loops s) in
    length R \<le> 1 \<and> (runDone (src_of s k) = 1 \<longleftrightarrow> st = Active \<or> st = Stopping)
    \<and> (runDone (src_of s k) = 0 \<longleftrightarrow> st = Inactive \<or> st = Starting)
    \<and> (st = Inactive \<longrightarrow> R = [] \<and> callers s (StopWaiting k) = {})
    \<and> (st = Active \<or> st = Stopping \<longrightarrow> (R = []) = (\<exists>c. callers s (Launching k) = {c}))
    \<and> (st = Stopping \<longrightarrow> abortSelf (src_of s k) = Some True)
    \<and> (callers s (StopWaiting k) \<noteq> {} \<longrightarrow> runDone (src_of s k) = 1)"
proof -
  have "kind_ok s k" using reachable_ok [OF assms] by (simp add: server_ok_def)
  then show ?thesis by (cases "sourceState (src_of s k)") (auto simp: kind_ok_def life_def Let_def)
qed

text \<open>
  C4: a call of \<open>Stop\<close> that waits for a run goes on only when that run is over: at the step that wakes
  it the core loop of the source is gone, the count of runs is 0 and the source is inactive.
\<close>

theorem stop_returns_after_run:
  assumes "reachable env s" "server_step env s e t"
    and "clients s c = StopWaiting k" "clients t c \<noteq> StopWaiting k"
  shows "clients t c = StopTail k \<and> loops_of k (loops t) = [] \<and> callers t (Launching k) = {}
    \<and> sourceState (src_of t k) = Inactive \<and> runDone (src_of t k) = 0"
proof -
  have ok: "\<forall>k. kind_ok t k" using server_ok_step [OF assms(2) reachable_ok [OF assms(1)]] by (simp add: server_ok_def)
  have wake: "clients t c = StopTail k \<and> sourceState (src_of t k) = Inactive"
    using assms(2)
  proof cases
    case (launch_fails c' k')
    then show ?thesis using assms(3,4)
      by (auto simp: deactivate_def Let_def RunDoneDeactivate_def src_of_def put_src_def set_source_def split: if_splits)
  next
    case (loop_returns i k')
    then show ?thesis using assms(3,4)
      by (auto simp: deactivate_def Let_def RunDoneDeactivate_def src_of_def put_src_def set_source_def split: if_splits)
  qed (use assms(3,4) in \<open>auto simp: put_src_def loop_at_def split: if_splits\<close>)
  then show ?thesis using spec [OF ok, of k] by (simp add: kind_ok_def life_def)
qed

subsection \<open>Results and their askers\<close>

text \<open>States reached while at most one core loop runs at a time.\<close>

inductive calm :: "source_env \<Rightarrow> server \<Rightarrow> bool" for env where
  calm_fresh: "fresh_server s \<Longrightarrow> calm env s"
| calm_step: "calm env s \<Longrightarrow> server_step env s e t \<Longrightarrow> length (loops t) \<le> 1 \<Longrightarrow> calm env t"

lemma calm_reachable: "calm env s \<Longrightarrow> reachable env s \<and> length (loops s) \<le> 1"
  by (induction rule: calm.induct) (auto intro: reach_fresh reach_step simp: fresh_server_def)

definition replies_ok :: "server \<Rightarrow> bool" where
  "replies_ok s \<longleftrightarrow>
     (\<forall>c b post rs. clients s c = Awaiting b post rs \<longrightarrow> length rs = 1 \<and> (\<exists>k. loops s = [(k, Replying c rs)]))
     \<and> (\<forall>k c rs. (k, Replying c rs) \<in> set (loops s) \<and> rs \<noteq> [] \<longrightarrow> (\<exists>b post. clients s c = Awaiting b post rs))"

lemma single_loop: "i < length xs \<Longrightarrow> length xs \<le> 1 \<Longrightarrow> xs ! i = x \<Longrightarrow> i = 0 \<and> xs = [x]"
  by (cases xs) auto

lemma loop_at_single: "loops s = [(k, pc0)] \<Longrightarrow> loops (loop_at 0 pc s) = [(k, pc)]"
  by (simp add: loop_at_def)

lemma replies_ok_cong:
  "loops t = loops s \<Longrightarrow> (\<And>c b post rs. (clients t c = Awaiting b post rs) = (clients s c = Awaiting b post rs))
    \<Longrightarrow> replies_ok t = replies_ok s"
  by (simp add: replies_ok_def)

lemma replies_ok_step:
  assumes "server_step env s e t" "server_ok True s" "replies_ok s" "length (loops s) \<le> 1" "length (loops t) \<le> 1"
  shows "replies_ok t"
proof -
  have w: "length rs = 1 \<and> (\<exists>k. loops s = [(k, Replying c rs)])" if "clients s c = Awaiting b post rs" for c b post rs
    using assms(3) that by (simp add: replies_ok_def)
  have r: "\<exists>b post. clients s c = Awaiting b post rs" if "(k, Replying c rs) \<in> set (loops s)" "rs \<noteq> []" for k c rs
    using assms(3) that by (simp add: replies_ok_def)
  have wake: "clients (deactivate k s') c = Awaiting b post rs \<longleftrightarrow> clients s' c = Awaiting b post rs" for k s' c b post rs
    by (simp add: deactivate_def Let_def put_src_def)
  from assms(1) show ?thesis
  proof cases
    case (accept i k c b f post sc w' us rs)
    have l: "i = 0" "loops s = [(k, Selecting)]" using single_loop [OF accept(4) assms(4) accept(5)] by auto
    have "client_ok True (clients s c)" using assms(2) by (simp add: server_ok_def)
    then have "length rs = 1" using accept(6,7) by (auto simp: good_closure_def)
    moreover have "clients s c' \<noteq> Awaiting b' post' rs'" for c' b' post' rs' using w [of c' b' post' rs'] l(2) by auto
    ultimately show ?thesis unfolding accept(2) using l by (auto simp: replies_ok_def loop_at_def)
  next
    case (deliver i k c r' rs d b post qs)
    have l: "i = 0" "loops s = [(k, Replying c (r' # rs))]" using single_loop [OF deliver(4) assms(4) deliver(5)] by auto
    have d: "d = c" "qs = r' # rs" "rs = []" using w [OF deliver(6)] l(2) by auto
    have "clients s c' \<noteq> Awaiting b' post' rs'" if "c' \<noteq> c" for c' b' post' rs' using w [of c' b' post' rs'] l(2) that by auto
    then show ?thesis unfolding deliver(2) using l d by (auto simp: replies_ok_def loop_at_def)
  next
    case (end_reply i k c)
    have l: "i = 0" "loops s = [(k, Replying c [])]" using single_loop [OF end_reply(4) assms(4) end_reply(5)] by auto
    have "clients s c' \<noteq> Awaiting b' post' rs'" for c' b' post' rs' using w [of c' b' post' rs'] l(2) by auto
    then show ?thesis unfolding end_reply(2) using l by (auto simp: replies_ok_def loop_at_def)
  next
    case (bad_block i k)
    have l: "i = 0" "loops s = [(k, Selecting)]" using single_loop [OF bad_block(4) assms(4) bad_block(5)] by auto
    have "clients s c' \<noteq> Awaiting b' post' rs'" for c' b' post' rs' using w [of c' b' post' rs'] l(2) by auto
    then show ?thesis unfolding bad_block(2) using l by (auto simp: replies_ok_def loop_at_def)
  next
    case (see_closed i k)
    have l: "i = 0" "loops s = [(k, Selecting)]" using single_loop [OF see_closed(4) assms(4) see_closed(5)] by auto
    have "clients s c' \<noteq> Awaiting b' post' rs'" for c' b' post' rs' using w [of c' b' post' rs'] l(2) by auto
    then show ?thesis unfolding see_closed(2) using l by (auto simp: replies_ok_def loop_at_def)
  next
    case (loop_returns i k)
    have l: "i = 0" "loops s = [(k, Returning)]" using single_loop [OF loop_returns(4) assms(4) loop_returns(5)] by auto
    have "clients s c' \<noteq> Awaiting b' post' rs'" for c' b' post' rs' using w [of c' b' post' rs'] l(2) by auto
    then show ?thesis unfolding loop_returns(2) replies_ok_def using l by (simp add: wake)
  next
    case (launch c k)
    have l: "loops s = []" using assms(5) launch(2) by (cases "loops s") auto
    have "clients s c' \<noteq> Awaiting b' post' rs'" for c' b' post' rs' using w [of c' b' post' rs'] l by auto
    then show ?thesis unfolding launch(2) using l by (auto simp: replies_ok_def)
  next
    case (launch_fails c k)
    show ?thesis by (rule iffD2 [OF replies_ok_cong assms(3)]) (use launch_fails in \<open>auto simp: wake\<close>)
  qed ((rule iffD2 [OF replies_ok_cong assms(3)]; auto simp: put_src_def)+)
qed

lemma calm_ok:
  assumes "calm env s" "\<forall>p. os_create_ok (file_sys env) p"
  shows "server_ok True s \<and> replies_ok s"
  using assms(1)
proof (induction rule: calm.induct)
  case (calm_fresh s)
  have "server_ok True s" by (rule server_ok_fresh) (rule calm_fresh)
  then show ?case using calm_fresh by (simp add: replies_ok_def fresh_server_def)
next
  case (calm_step s e t)
  have l: "length (loops s) \<le> 1" using calm_reachable [OF calm_step(1)] by simp
  have "server_ok True t" by (rule server_ok_step [OF calm_step(2)]) (use calm_step assms(2) in simp_all)
  moreover have "replies_ok t" by (rule replies_ok_step [OF calm_step(2)]) (use calm_step l in simp_all)
  ultimately show ?case by simp
qed

text \<open>
  C5: as long as one core loop runs at a time and no comment file fails to be created, every result goes to
  the caller whose closure produced it: whoever takes a result from \<open>queuedResults\<close>, however many callers
  there are, takes the only result of the closure that it had put into \<open>queuedRequests\<close>, and after the
  delivery the core loop owes nothing more.
\<close>

theorem answers_reach_askers:
  assumes "calm env s" "\<forall>p. os_create_ok (file_sys env) p" "server_step env s (Deliver i d r) t" "\<not> crashed t"
  shows "\<exists>b post k. clients s d = Awaiting b post [r] \<and> loops s = [(k, Replying d [r])]
    \<and> loops t = [(k, Replying d [])] \<and> (\<forall>c b post rs. clients t c \<noteq> Awaiting b post rs)"
proof -
  have ok: "replies_ok s" using calm_ok [OF assms(1,2)] by simp
  have l: "length (loops s) \<le> 1" using calm_reachable [OF assms(1)] by simp
  have w: "length rs = 1 \<and> (\<exists>k. loops s = [(k, Replying c rs)])" if "clients s c = Awaiting b post rs" for c b post rs
    using ok that by (simp add: replies_ok_def)
  from assms(3) show ?thesis
  proof cases
    case (deliver k c rs b post qs)
    have s: "i = 0" "loops s = [(k, Replying c (r # rs))]" using single_loop [OF deliver(3) l deliver(4)] by auto
    have d: "d = c" "qs = r # rs" "rs = []" using w [OF deliver(5)] s(2) by auto
    have "clients t c' \<noteq> Awaiting b' post' rs'" for c' b' post' rs'
      using w [of c' b' post' rs'] s(2) d unfolding deliver(1) by auto
    then show ?thesis using s d deliver(1,5) by (auto simp: loop_at_def)
  next
    case deliver_panics
    then show ?thesis using assms(4) by simp
  qed
qed

subsection \<open>Stopping\<close>

text \<open>
  The steps that only a run in hand, its producer and those who wait for it take: no new call, no time-out,
  no failure.
\<close>

fun finishing :: "source_kind \<Rightarrow> event \<Rightarrow> bool" where
  "finishing k (Launch c) = True"
| "finishing k (Deliver i d r) = True"
| "finishing k (EndReply i) = True"
| "finishing k (ProducerStops k') = (k' = k)"
| "finishing k (SeeClosed i) = True"
| "finishing k (LoopReturns i) = True"
| "finishing k _ = False"

definition can_finish :: "source_env \<Rightarrow> nat \<Rightarrow> source_kind \<Rightarrow> server \<Rightarrow> bool" where
  "can_finish env c k s \<longleftrightarrow> (\<exists>es t. server_run env s es t \<and> list_all (finishing k) es \<and> \<not> crashed t \<and> clients t c = StopTail k)"

lemma can_finish_step: "server_step env s e t \<Longrightarrow> finishing k e \<Longrightarrow> can_finish env c k t \<Longrightarrow> can_finish env c k s"
  unfolding can_finish_def by (metis run_step list.pred_inject(2))

lemma finish_returning:
  assumes "\<not> crashed s" "i < length (loops s)" "loops s ! i = (k, Returning)" "clients s c = StopWaiting k"
    and "runDone (src_of s k) = 1"
  shows "can_finish env c k s"
proof (rule can_finish_step [OF loop_returns [OF assms(1-3)]])
  let ?t = "deactivate k (s\<lparr>loops := take i (loops s) @ drop (Suc i) (loops s)\<rparr>)"
  have "clients ?t c = StopTail k" using assms(4,5) by (simp add: deactivate_def Let_def RunDoneDeactivate_def)
  moreover have "\<not> crashed ?t" using assms(1) by simp
  ultimately show "can_finish env c k ?t" unfolding can_finish_def using run_done by (metis list.pred_inject(1))
qed simp

text \<open>A run whose channel \<open>abortSelf\<close> is closed and which its producer has not failed.\<close>

definition ending :: "source_kind \<Rightarrow> server \<Rightarrow> bool" where
  "ending k s \<longleftrightarrow> runDone (src_of s k) = 1 \<and> abortSelf (src_of s k) = Some True \<and> (producers s k = Producing \<or> producers s k = Closed)"

lemma finish_selecting:
  assumes s: "\<not> crashed s" "i < length (loops s)" "loops s ! i = (k, Selecting)" "clients s c = StopWaiting k" "ending k s"
  shows "can_finish env c k s"
proof -
  have closed: "can_finish env c k s'"
    if "\<not> crashed s'" "i < length (loops s')" "loops s' ! i = (k, Selecting)" "clients s' c = StopWaiting k"
      "runDone (src_of s' k) = 1" "producers s' k = Closed" for s'
  proof (rule can_finish_step [OF see_closed [OF that(1-3,6)]])
    show "can_finish env c k (loop_at i Returning s')"
      by (rule finish_returning [where i = i]) (use that in \<open>simp_all add: loop_at_def src_of_def\<close>)
  qed simp
  show ?thesis
  proof (cases "producers s k = Closed")
    case True
    then show ?thesis using closed [OF s(1-4)] s(5) by (simp add: ending_def)
  next
    case False
    with s(5) have pr: "producers s k = Producing" "abortSelf (src_of s k) = Some True" by (simp_all add: ending_def)
    show ?thesis
      by (rule can_finish_step [OF producer_stops [OF s(1) pr]], simp, rule closed) (use s in \<open>simp_all add: ending_def\<close>)
  qed
qed

lemma finish_replied:
  assumes s: "\<not> crashed s" "i < length (loops s)" "loops s ! i = (k, Replying c' [])" "clients s c = StopWaiting k" "ending k s"
  shows "can_finish env c k s"
  by (rule can_finish_step [OF end_reply [OF s(1-3)]], simp, rule finish_selecting [where i = i])
    (use assms in \<open>simp_all add: loop_at_def src_of_def ending_def\<close>)

text \<open>
  C6: who waits in \<open>Stop\<close> for a source that is stopping is never stuck, whatever the callers were doing when it
  was called: as long as one core loop runs at a time and comment files can be created, from every such
  state in which no detached request is owed an error (which ends the program), the program can go on
  to the state in which that caller is woken, without a crash and by nothing but the launch that is under
  way, the result that is owed, the producer that looks at \<open>abortSelf\<close> and finds it closed, and the end of the core loop.
\<close>

theorem stop_can_finish:
  assumes "calm env s" "\<forall>p. os_create_ok (file_sys env) p" "\<not> crashed s"
    and "clients s c = StopWaiting k" "sourceState (src_of s k) = Stopping"
    and "\<forall>d post rs. clients s d = Awaiting True post rs \<longrightarrow> rs = [None]"
  shows "\<exists>es t. server_run env s es t \<and> list_all (finishing k) es \<and> \<not> crashed t \<and> clients t c = StopTail k"
proof -
  have ok: "\<forall>k. kind_ok s k" "replies_ok s" using calm_ok [OF assms(1,2)] by (simp_all add: server_ok_def)
  have kk: "runDone (src_of s k) = 1" "abortSelf (src_of s k) = Some True"
    and alt: "(\<exists>c'. callers s (Launching k) = {c'}) \<and> loops_of k (loops s) = []
      \<or> (\<exists>pc. loops_of k (loops s) = [pc] \<and> (pc \<noteq> Returning \<longrightarrow> producers s k = Producing \<or> producers s k = Closed))"
    using spec [OF ok(1), of k] assms(5) by (auto simp: kind_ok_def life_def)
  from alt consider (launching) c' where "clients s c' = Launching k"
    | (loop) pc where "loops_of k (loops s) = [pc]" "pc \<noteq> Returning \<longrightarrow> producers s k = Producing \<or> producers s k = Closed"
    by (auto simp: callers_def)
  then have "can_finish env c k s"
  proof cases
    case (launching c')
    have "c' \<noteq> c" using launching assms(4) by auto
    then show ?thesis
      by (intro can_finish_step [OF launch [OF assms(3) launching]]
          finish_selecting [where i = "length (loops s)"]) (use assms(3,4) kk in \<open>simp_all add: nth_append ending_def\<close>)
  next
    case (loop pc)
    have "pc \<in> set (loops_of k (loops s))" using loop by simp
    then have "(k, pc) \<in> set (loops s)" by (auto simp: loops_of_def)
    then obtain i where i: "i < length (loops s)" "loops s ! i = (k, pc)" by (auto simp: in_set_conv_nth)
    show ?thesis
    proof (cases pc)
      case Returning
      then show ?thesis using finish_returning [OF assms(3) i(1) _ assms(4)] i(2) kk by simp
    next
      case Selecting
      then show ?thesis using finish_selecting [OF assms(3) i(1) _ assms(4)] i(2) kk loop(2) by (simp add: ending_def)
    next
      case (Replying c' rs)
      then have ending: "ending k s" using kk loop(2) by (simp add: ending_def)
      show ?thesis
      proof (cases rs)
        case Nil
        then show ?thesis using finish_replied [OF assms(3) i(1) _ assms(4) ending] i(2) Replying by simp
      next
        case (Cons r rs')
        have m: "(k, Replying c' rs) \<in> set (loops s)" using i Replying by (metis nth_mem)
        obtain b post where w: "clients s c' = Awaiting b post rs" using ok(2) m Cons unfolding replies_ok_def by blast
        have "length rs = 1" using ok(2) w unfolding replies_ok_def by blast
        then have one: "rs' = []" using Cons by simp
        have l: "loops s ! i = (k, Replying c' (r # []))" using i(2) Replying Cons one by simp
        have calm_error: "\<not> (b \<and> r \<noteq> None)"
        proof
          assume br: "b \<and> r \<noteq> None"
          then have "clients s c' = Awaiting True post rs" using w by simp
          then have "rs = [None]" using assms(6) by blast
          then show False using br Cons by simp
        qed
        have "keeps_lives post" using calm_ok [OF assms(1,2)] w by (auto simp: server_ok_def dest: spec [where x = c'])
        then have "life (anySource (fst (post (ctl s) r)) k) = life (src_of s k)"
          by (simp add: keeps_lives_def same_lives_def src_of_def)
        then have "runDone (anySource (fst (post (ctl s) r)) k) = 1" "abortSelf (anySource (fst (post (ctl s) r)) k) = Some True"
          using kk by (simp_all add: life_def)
        moreover have "c \<noteq> c'" using w assms(4) by auto
        ultimately show ?thesis
          by (intro can_finish_step [OF deliver [OF assms(3) i(1) l w calm_error]] finish_replied [where i = i])
            (use assms(3,4) i ending in \<open>simp_all add: loop_at_def src_of_def ending_def\<close>)
      qed
    qed
  qed
  then show ?thesis by (simp add: can_finish_def)
qed

subsection \<open>Calls that hang and runs that are lost\<close>

text \<open>A caller that neither starts a source nor awaits a result, and one that waits for the core loop.\<close>

fun bystander :: "client_pc \<Rightarrow> bool" where
  "bystander (Chosen _) = False"
| "bystander (Sampling _) = False"
| "bystander (Launching _) = False"
| "bystander (Launched _) = False"
| "bystander (Awaiting _ _ _) = False"
| "bystander _ = True"

fun waits :: "client_pc \<Rightarrow> bool" where
  "waits (Queueing _ _ _) = True"
| "waits (StopWaiting _) = True"
| "waits _ = False"

text \<open>A core loop that owes a result while nobody awaits one, and no new run is being started.\<close>

definition stuck :: "source_kind \<Rightarrow> nat \<Rightarrow> rpc_error option \<Rightarrow> server \<Rightarrow> bool" where
  "stuck k c r s \<longleftrightarrow> loops s = [(k, Replying c [r])] \<and> (\<forall>d. bystander (clients s d))"

fun is_select :: "event \<Rightarrow> bool" where
  "is_select (Select c name) = True"
| "is_select _ = False"

text \<open>The events in which a core loop takes part.\<close>

fun of_loop :: "event \<Rightarrow> bool" where
  "of_loop (Accept i c) = True"
| "of_loop (Deliver i c r) = True"
| "of_loop (EndReply i) = True"
| "of_loop (Block i b) = True"
| "of_loop (BadBlock i) = True"
| "of_loop (SeeClosed i) = True"
| "of_loop (LoopReturns i) = True"
| "of_loop _ = False"

lemma stuck_step:
  assumes "server_step env s e t" "stuck k c r s" "\<not> is_select e"
  shows "stuck k c r t \<and> \<not> of_loop e \<and> (\<forall>d. waits (clients s d) \<longrightarrow> clients t d = clients s d)"
proof -
  have l: "loops s = [(k, Replying c [r])]" and cl: "\<And>d. bystander (clients s d)"
    using assms(2) by (simp_all add: stuck_def)
  have none: "clients s d \<noteq> Chosen k'" "clients s d \<noteq> Sampling k'" "clients s d \<noteq> Launching k'"
    "clients s d \<noteq> Launched k'" "clients s d \<noteq> Awaiting b post rs" for d k' b post rs
    using cl [of d] by auto
  from assms(1) show ?thesis
    by cases (use l cl none assms(3) in \<open>auto simp: stuck_def\<close>)
qed

lemma stuck_run:
  assumes "server_run env s es t" "stuck k c r s" "\<forall>e\<in>set es. \<not> is_select e"
  shows "stuck k c r t \<and> (\<forall>e\<in>set es. \<not> of_loop e) \<and> (\<forall>d. waits (clients s d) \<longrightarrow> clients t d = clients s d)"
  using assms
proof (induction rule: server_run.induct)
  case (run_step s e t es u)
  then show ?case using stuck_step [OF run_step(1)] by auto
qed simp

text \<open>
  C7: \<open>WriteComment\<close> blocks the core loop for good when the comment file cannot be created: its closure sends
  the error and then a second result that no caller awaits.  Let a comment be queued while files are being
  written, no other caller be in the middle of \<open>Start\<close> or await a result, and the comment file be refused.
  The caller gets the error, but from then on, until a caller gets as far as starting another source,
  the core loop takes no further step: it processes no block, takes no closure and does not return,
  and whoever waits for it, with a closure not yet taken or in \<open>Stop\<close> for the end of the run, waits for good.
  (Services that need no core loop are still answered, and so is a further \<open>Stop\<close> of the source that is stopping.)
\<close>

theorem comment_failure_blocks:
  assumes "\<not> crashed s" "loops s = [(k, Selecting)]"
    and "clients s c = Queueing False (comment_closure env comment) post"
    and "\<forall>d. d \<noteq> c \<longrightarrow> bystander (clients s d)"
    and "wsActive (writingState (active (ctl s)))"
    and "\<not> os_create_ok (file_sys env) (comment_file (active (ctl s)))"
  shows "\<exists>t. server_run env s [Accept 0 c, Deliver 0 c (Some (FileErr (comment_file (active (ctl s)))))] t
    \<and> clients t c = Idle \<and> (\<forall>es u es' v. server_run env t es u \<and> server_run env u es' v
        \<and> (\<forall>e\<in>set (es @ es'). \<not> is_select e) \<longrightarrow>
          loops v = [(k, Replying c [None])] \<and> (\<forall>e\<in>set (es @ es'). \<not> of_loop e)
          \<and> (\<forall>d. waits (clients u d) \<longrightarrow> clients v d = clients u d))"
proof -
  let ?path = "comment_file (active (ctl s))"
  have f: "comment_closure env comment (ctl s, wld s)
      = Inr ((ctl s, wld s), [], [Some (FileErr ?path), None])"
    using assms(5,6) by (simp add: comment_closure_def os_create_def Let_def)
  let ?s1 = "set_client c (Awaiting False post [Some (FileErr ?path), None])
    (loop_at 0 (Replying c [Some (FileErr ?path), None]) (s\<lparr>ctl := ctl s, wld := wld s\<rparr>))"
  have s1: "server_step env s (Accept 0 c) ?s1"
    by (rule accept [where k = k, OF _ _ _ assms(3) f]) (use assms in simp_all)
  let ?t = "set_client c Idle (loop_at 0 (Replying c [None])
    (?s1\<lparr>ctl := fst (post (ctl ?s1) (Some (FileErr ?path)))\<rparr>))"
  have s2: "server_step env ?s1 (Deliver 0 c (Some (FileErr ?path))) ?t"
    by (rule deliver [where k = k and b = False and post = post and qs = "[Some (FileErr ?path), None]"])
      (use assms(1,2) in \<open>simp_all add: loop_at_def\<close>)
  have st: "stuck k c None ?t" using assms(2,4) by (simp add: stuck_def loop_at_def)
  have run: "server_run env s [Accept 0 c, Deliver 0 c (Some (FileErr ?path))] ?t"
    by (rule run_step [OF s1 run_step [OF s2 run_done]])
  have after: "loops v = [(k, Replying c [None])] \<and> (\<forall>e\<in>set (es @ es'). \<not> of_loop e)
      \<and> (\<forall>d. waits (clients u d) \<longrightarrow> clients v d = clients u d)"
    if "server_run env ?t es u" "server_run env u es' v" "\<forall>e\<in>set (es @ es'). \<not> is_select e" for es u es' v
  proof -
    have sel: "\<forall>e\<in>set es. \<not> is_select e" "\<forall>e\<in>set es'. \<not> is_select e" using that(3) by auto
    have u: "stuck k c None u" "\<forall>e\<in>set es. \<not> of_loop e" using stuck_run [OF that(1) st sel(1)] by simp_all
    have "stuck k c None v" "\<forall>e\<in>set es'. \<not> of_loop e" "\<forall>d. waits (clients u d) \<longrightarrow> clients v d = clients u d"
      using stuck_run [OF that(2) u(1) sel(2)] by simp_all
    then show ?thesis using u(2) by (auto simp: stuck_def)
  qed
  show ?thesis
    by (rule exI [of _ ?t], rule conjI, rule run, rule conjI, simp, intro allI impI, elim conjE, rule after)
qed

text \<open>
  two callers that both pass the check of \<open>Start\<close> lose the run: when the first has started the source,
  the failure of the second marks the server as inactive.  The source keeps running, its core loop waits
  for requests and data, but \<open>Stop\<close> and every service that needs the loop are refused, and so is a new
  start of the same source.
\<close>

theorem second_start_loses_run:
  assumes "\<not> crashed s" "\<not> isSourceActive (ctl s)" "clients s c = Idle" "clients s d = Idle" "c \<noteq> d"
    and "source_named name = Some (k, sname)" "sourceState (src_of s k) = Inactive"
    and "PrepareRun now stored ((src_of s k)\<lparr>sourceState := Starting\<rparr>)
      (stNpresamp (status (ctl s))) (stNsamples (status (ctl s))) = Inr (src, None)"
  shows "\<exists>t. server_run env s [Select c name, Select d name, Begin c, Prepare c, Launch c, Finish c, Begin d] t
    \<and> clients t = clients s \<and> \<not> crashed t \<and> loops t = loops s @ [(k, Selecting)]
    \<and> sourceState (src_of t k) = Active \<and> ActiveSource (ctl t) = k \<and> \<not> isSourceActive (ctl t)
    \<and> (\<forall>f. runLaterIfActive (ctl t) f = Answer (ctl t) [] (ReplyBool False) (Some NoSourceActive))
    \<and> (\<forall>c' u. \<not> server_step env t (StopCall c') u) \<and> SetStateStarting (src_of t k) = (src_of t k, Some (NotInactive Active))"
proof -
  let ?sel = "\<lambda>sc. sc\<lparr>ActiveSource := k, status := (status sc)\<lparr>SourceName := sname, stRunning := True\<rparr>\<rparr>"
  let ?s1 = "set_client c (Chosen k) (s\<lparr>ctl := ?sel (ctl s)\<rparr>)"
  let ?s2 = "set_client d (Chosen k) (?s1\<lparr>ctl := ?sel (ctl ?s1)\<rparr>)"
  let ?src0 = "(src_of s k)\<lparr>sourceState := Starting\<rparr>"
  let ?s3 = "set_client c (Sampling k) (put_src k ?src0 ?s2)"
  let ?s4 = "set_client c (Launching k) (put_src k (RunDoneActivate src) (?s3\<lparr>producers := (producers ?s3)(k := NotProducing)\<rparr>))"
  let ?s5 = "set_client c (Launched k) (?s4\<lparr>producers := (producers ?s4)(k := Producing), loops := loops ?s4 @ [(k, Selecting)]\<rparr>)"
  have r1: "server_step env s (Select c name) ?s1"
    by (rule select_source) (use assms in \<open>simp_all add: start_select_def\<close>)
  have r2: "server_step env ?s1 (Select d name) ?s2"
    by (rule select_source) (use assms in \<open>simp_all add: start_select_def\<close>)
  have r3: "server_step env ?s2 (Begin c) ?s3"
    by (rule begin_start) (use assms in \<open>simp_all add: SetStateStarting_def src_of_def\<close>)
  have st: "stNpresamp (status (ctl ?s3)) = stNpresamp (status (ctl s))"
    "stNsamples (status (ctl ?s3)) = stNsamples (status (ctl s))"
    by (simp_all add: put_src_def set_source_def)
  have r4: "server_step env ?s3 (Prepare c) ?s4"
    by (rule prepare [where ?src0.0 = ?src0 and now = now and stored = stored])
      (use assms in \<open>simp_all add: st put_src_def set_source_def src_of_def\<close>)
  have r5: "server_step env ?s4 (Launch c) ?s5"
    by (rule launch) (use assms in simp_all)
  have run_src: "active (ctl ?s5) = RunDoneActivate src"
    by (simp add: active_def put_src_def set_source_def)
  have act: "Running (active (ctl ?s5))" unfolding run_src by (simp add: Running_def RunDoneActivate_def)
  obtain b where b: "broker src = Some b"
    using assms(8) by (auto simp: PrepareRun_def VoltsPerArb_def bind_go_def Let_def split: if_splits sum.splits)
  obtain sc us where fin: "start_succeeded (ctl ?s5) = Inr (sc, us)"
    and sc: "anySource sc = anySource (ctl ?s5)" "ActiveSource sc = k" "isSourceActive sc"
    using act b by (auto simp: start_succeeded_def broadcastStatus_def handlePossibleStoppedSource_def
        broadcastGroupTriggerState_def group_state_def bind_go_def Let_def active_def put_src_def set_source_def
        RunDoneActivate_def)
  let ?s6 = "set_client c Idle (?s5\<lparr>ctl := sc\<rparr>)"
  have r6: "server_step env ?s5 (Finish c) ?s6"
    by (rule finish [OF _ _ fin]) (use assms in simp_all)
  have a6: "src_of ?s6 k = RunDoneActivate src" using run_src sc by (simp add: active_def src_of_def put_src_def set_source_def)
  let ?s7 = "set_client d Idle (?s6\<lparr>ctl := start_failed (ctl ?s6)\<rparr>)"
  have r7: "server_step env ?s6 (Begin d) ?s7"
    by (rule begin_refused [where k = k and src = "src_of ?s6 k" and err = "NotInactive Active"])
      (use assms a6 in \<open>simp_all add: SetStateStarting_def RunDoneActivate_def\<close>)
  have off: "\<not> isSourceActive (ctl ?s7)" by (simp add: start_failed_def)
  have no_stop: "\<not> server_step env ?s7 (StopCall c') u" for c' u
    using off by (auto elim: stop_callE)
  have run: "server_run env s [Select c name, Select d name, Begin c, Prepare c, Launch c, Finish c, Begin d] ?s7"
    by (intro run_step [OF r1] run_step [OF r2] run_step [OF r3] run_step [OF r4] run_step [OF r5] run_step [OF r6]
        run_step [OF r7] run_done)
  have src7: "src_of ?s7 k = RunDoneActivate src" using a6 by (simp add: src_of_def)
  have cl7: "clients ?s7 = clients s" using assms(3-5) by (auto simp: put_src_def)
  have lp7: "loops ?s7 = loops s @ [(k, Selecting)]" "\<not> crashed ?s7" using assms(1) by simp_all
  have ac7: "ActiveSource (ctl ?s7) = k" using sc(2) by (simp add: start_failed_def)
  show ?thesis
    by (rule exI [of _ ?s7])
      (use run src7 cl7 lp7 ac7 off no_stop in
        \<open>simp add: RunDoneActivate_def SetStateStarting_def runLaterIfActive_def del: set_client_fields(7) fun_upd_apply\<close>)
qed

subsection \<open>Witnesses\<close>

definition demo_server :: server where
  "demo_server = \<lparr>ctl = \<lparr>anySource = (\<lambda>_. demo_source\<lparr>sourceState := Inactive, runDone := 0\<rparr>),
       lanceroPart = \<lparr>lsSource = demo_source, lsDevices = [], lsClockMHz = 125, lsNsamp = 4, lsActive = [],
         chan2readoutOrder = [], lsMix = [], dataBlockCount = 0, buffersChan = [], firstRowChanNum = 1,
         chanSepCards = 0, chanSepColumns = 0, externalTriggerLastState = False, mixedRowCounts = False,
         previousLastSampleTime = 0\<rparr>,
       ActiveSource = Triangles, isSourceActive = False,
       status = \<lparr>stRunning = False, SourceName = [], stNchannels = 0, stNsamples = 1000, stNpresamp = 100,
         stSamplePeriod = 10000, stChanGroups = [], stProjectors = []\<rparr>, theMap = None\<rparr>,
     wld = \<lparr>w_disk = Map.empty, w_dirs = []\<rparr>, loops = [], producers = (\<lambda>_. NotProducing), clients = (\<lambda>_. Idle),
     crashed = False\<rparr>"

lemma demo_fresh: "fresh_server demo_server"
  by (simp add: fresh_server_def demo_server_def src_of_def)

definition all_files_env :: source_env where
  "all_files_env = demo_source_env\<lparr>file_sys := \<lparr>os_create_ok = (\<lambda>_. True), os_write_ok = (\<lambda>_. True), os_close_ok = (\<lambda>_. True)\<rparr>\<rparr>"

definition no_files_env :: source_env where
  "no_files_env = demo_source_env\<lparr>file_sys := \<lparr>os_create_ok = (\<lambda>_. False), os_write_ok = (\<lambda>_. False), os_close_ok = (\<lambda>_. False)\<rparr>\<rparr>"

lemma NewDataStreamProcessor_returns: "\<exists>d. NewDataStreamProcessor now i n npres nsamps rate mon = Inr d"
  by (simp add: NewDataStreamProcessor_def NewBaselineMonitor_def quot_int_def Let_def)

lemma demo_prepares:
  "\<exists>src. PrepareRun 0 [] (demo_source\<lparr>sourceState := Starting, runDone := 0\<rparr>) 100 1000 = Inr (src, None)"
proof -
  obtain d0 where d0: "NewDataStreamProcessor 0 0 1 100 1000 (Fin 1) None = Inr d0" using NewDataStreamProcessor_returns by blast
  obtain d1 where d1: "NewDataStreamProcessor 0 1 2 100 1000 (Fin 1) None = Inr d1" using NewDataStreamProcessor_returns by blast
  have l: "[0..(1 :: int)] = [0, 1]" by code_simp
  show ?thesis
    by (simp add: PrepareRun_def NewTriggerBroker_def VoltsPerArb_def stored_states_def demo_source_def Let_def
      prepare_channel_def idx_def l d0 d1)
qed

text \<open>A started source, by the steps of one caller of \<open>Start\<close>.\<close>

lemma demo_running:
  "\<exists>t. calm env t \<and> \<not> crashed t \<and> loops t = [(Triangles, Selecting)] \<and> (\<forall>c. clients t c = Idle) \<and> isSourceActive (ctl t)
    \<and> ActiveSource (ctl t) = Triangles \<and> producers t Triangles = Producing
    \<and> sourceState (src_of t Triangles) = Active \<and> abortSelf (src_of t Triangles) = Some False
    \<and> broker (src_of t Triangles) \<noteq> None \<and> runDone (src_of t Triangles) = 1"
proof -
  obtain src where src: "PrepareRun 0 [] (demo_source\<lparr>sourceState := Starting, runDone := 0\<rparr>) 100 1000 = Inr (src, None)"
    using demo_prepares by blast
  then have lf: "sourceState src = Starting" "runDone src = 0" "abortSelf src = Some False"
    using PrepareRun_life [OF src] by (simp_all add: life_def)
  obtain b where b: "broker src = Some b"
    using src by (auto simp: PrepareRun_def VoltsPerArb_def bind_go_def Let_def split: if_splits sum.splits)
  let ?s = demo_server
  have nm: "source_named ''TRIANGLESOURCE'' = Some (Triangles, ''Triangles'')" by code_simp
  let ?s1 = "set_client 0 (Chosen Triangles) (?s\<lparr>ctl := (ctl ?s)\<lparr>ActiveSource := Triangles,
    status := (status (ctl ?s))\<lparr>SourceName := ''Triangles'', stRunning := True\<rparr>\<rparr>\<rparr>)"
  let ?s2 = "set_client 0 (Sampling Triangles) (put_src Triangles (demo_source\<lparr>sourceState := Starting, runDone := 0\<rparr>) ?s1)"
  let ?s3 = "set_client 0 (Launching Triangles) (put_src Triangles (RunDoneActivate src)
    (?s2\<lparr>producers := (producers ?s2)(Triangles := NotProducing)\<rparr>))"
  let ?s4 = "set_client 0 (Launched Triangles) (?s3\<lparr>producers := (producers ?s3)(Triangles := Producing),
    loops := loops ?s3 @ [(Triangles, Selecting)]\<rparr>)"
  have d: "\<not> crashed ?s" "\<not> isSourceActive (ctl ?s)" "loops ?s = []" "clients ?s = (\<lambda>_. Idle)"
    "src_of ?s Triangles = demo_source\<lparr>sourceState := Inactive, runDone := 0\<rparr>"
    "stNpresamp (status (ctl ?s)) = 100" "stNsamples (status (ctl ?s)) = 1000"
    by (simp_all add: demo_server_def src_of_def)
  have r1: "server_step env ?s (Select 0 ''TRIANGLESOURCE'') ?s1"
    by (rule select_source) (simp_all add: d start_select_def nm)
  have r2: "server_step env ?s1 (Begin 0) ?s2"
    by (rule begin_start) (simp_all add: d(1,4) SetStateStarting_def d(5) [unfolded src_of_def])
  have pst: "status (ctl (put_src k x s')) = status (ctl s')" for k x s' by (simp add: put_src_def set_source_def)
  have r3: "server_step env ?s2 (Prepare 0) ?s3"
    by (rule prepare [where ?src0.0 = "demo_source\<lparr>sourceState := Starting, runDone := 0\<rparr>" and now = 0 and stored = "[]"])
      (simp_all add: d src pst)
  have r4: "server_step env ?s3 (Launch 0) ?s4" by (rule launch) (simp_all add: d)
  have as: "active (ctl ?s4) = RunDoneActivate src" by (simp add: active_def put_src_def set_source_def)
  obtain sc us where fin: "start_succeeded (ctl ?s4) = Inr (sc, us)"
    and sc: "anySource sc = anySource (ctl ?s4)" "ActiveSource sc = Triangles" "isSourceActive sc"
    using as b by (auto simp: start_succeeded_def broadcastStatus_def handlePossibleStoppedSource_def Running_def
        broadcastGroupTriggerState_def group_state_def bind_go_def Let_def active_def put_src_def set_source_def
        RunDoneActivate_def)
  let ?t = "set_client 0 Idle (?s4\<lparr>ctl := sc\<rparr>)"
  have r5: "server_step env ?s4 (Finish 0) ?t" by (rule finish [OF _ _ fin]) (simp_all add: d)
  have "calm env ?t"
    by (rule calm_step [OF calm_step [OF calm_step [OF calm_step [OF calm_step [OF calm_fresh [OF demo_fresh] r1] r2] r3] r4] r5])
      (simp_all add: d)
  moreover have "src_of ?t Triangles = RunDoneActivate src"
    using as sc by (simp add: active_def src_of_def put_src_def set_source_def)
  ultimately show ?thesis using sc lf b
    by (intro exI [of _ ?t]) (simp add: d RunDoneActivate_def del: src_of_fields(6))
qed

text \<open>The same source with a caller waiting in \<open>Stop\<close>, and with the core loop about to return.\<close>

lemma demo_stopping:
  "\<exists>t. calm env t \<and> \<not> crashed t \<and> loops t = [(Triangles, Selecting)] \<and> clients t 1 = StopWaiting Triangles
    \<and> (\<forall>d. d \<noteq> 1 \<longrightarrow> clients t d = Idle) \<and> producers t Triangles = Producing
    \<and> sourceState (src_of t Triangles) = Stopping \<and> abortSelf (src_of t Triangles) = Some True
    \<and> runDone (src_of t Triangles) = 1"
proof -
  obtain s where s: "calm env s" "\<not> crashed s" "loops s = [(Triangles, Selecting)]" "\<forall>c. clients s c = Idle"
    "isSourceActive (ctl s)" "ActiveSource (ctl s) = Triangles" "producers s Triangles = Producing"
    "sourceState (src_of s Triangles) = Active" "abortSelf (src_of s Triangles) = Some False"
    "runDone (src_of s Triangles) = 1"
    using demo_running by blast
  let ?src = "(src_of s Triangles)\<lparr>sourceState := Stopping, abortSelf := Some True\<rparr>"
  let ?t = "set_client 1 (StopCalled Triangles) (put_src Triangles ?src s)"
  let ?u = "set_client 1 (StopWaiting Triangles) ?t"
  have src: "src_of ?t Triangles = ?src" by (simp add: src_of_def put_src_def set_source_def set_client_def)
  have "server_step env s (StopCall 1) ?t"
    by (rule stop_called) (use s in \<open>simp_all add: source_Stop_def closeIfOpen_def\<close>)
  then have t: "calm env ?t" by (rule calm_step [OF s(1)]) (simp add: s)
  have "server_step env ?t (StopWaits 1) ?u"
    by (rule stop_waits) (use s(2,10) in \<open>simp_all add: src del: src_of_fields\<close>)
  then have "calm env ?u" by (rule calm_step [OF t]) (simp add: s)
  moreover have "src_of ?u Triangles = ?src" using src by (simp add: src_of_def)
  ultimately show ?thesis using s by (intro exI [of _ ?u]) (simp del: src_of_fields)
qed

theorem run_invariant_witness:
  "\<exists>s. reachable all_files_env s \<and> length (loops_of Triangles (loops s)) = 1 \<and> runDone (src_of s Triangles) = 1
    \<and> sourceState (src_of s Triangles) = Stopping \<and> abortSelf (src_of s Triangles) = Some True"
proof -
  obtain s where s: "calm all_files_env s" "loops s = [(Triangles, Selecting)]" "sourceState (src_of s Triangles) = Stopping"
    using demo_stopping by blast
  have r: "reachable all_files_env s" using calm_reachable [OF s(1)] by simp
  have "runDone (src_of s Triangles) = 1 \<and> abortSelf (src_of s Triangles) = Some True"
    using run_invariant [OF r, of Triangles] unfolding Let_def s(3) by blast
  then show ?thesis using r s(2,3) by (intro exI [of _ s]) (simp add: loops_of_def)
qed

theorem stop_returns_after_run_witness:
  "\<exists>s t. server_step all_files_env s (LoopReturns 0) t \<and> clients s 1 = StopWaiting Triangles
    \<and> clients t 1 = StopTail Triangles \<and> runDone (src_of t Triangles) = 0"
proof -
  obtain s where s: "calm all_files_env s" "\<not> crashed s" "loops s = [(Triangles, Selecting)]"
    "clients s 1 = StopWaiting Triangles" "producers s Triangles = Producing"
    "abortSelf (src_of s Triangles) = Some True" "runDone (src_of s Triangles) = 1"
    using demo_stopping by blast
  let ?s1 = "s\<lparr>producers := (producers s)(Triangles := Closed)\<rparr>"
  let ?s2 = "loop_at 0 Returning ?s1"
  let ?t = "deactivate Triangles (?s2\<lparr>loops := take 0 (loops ?s2) @ drop (Suc 0) (loops ?s2)\<rparr>)"
  have st1: "server_step all_files_env s (ProducerStops Triangles) ?s1"
    by (rule producer_stops [OF s(2,5,6)])
  have st2: "server_step all_files_env ?s1 (SeeClosed 0) ?s2"
    by (rule see_closed [where k = Triangles]) (simp_all add: s)
  have r: "server_step all_files_env ?s2 (LoopReturns 0) ?t"
    by (rule loop_returns) (simp_all add: s loop_at_def)
  have c: "reachable all_files_env ?s2"
    using reach_step [OF reach_step [OF conjunct1 [OF calm_reachable [OF s(1)]] st1] st2] .
  have w: "clients ?s2 1 = StopWaiting Triangles" "clients ?t 1 \<noteq> StopWaiting Triangles"
    using s(4,7) by (simp_all add: deactivate_def Let_def RunDoneDeactivate_def)
  from stop_returns_after_run [OF c r w] r w(1) show ?thesis by blast
qed

theorem stop_can_finish_witness:
  "\<exists>s es t. clients s 1 = StopWaiting Triangles \<and> server_run all_files_env s es t
    \<and> list_all (finishing Triangles) es \<and> \<not> crashed t \<and> clients t 1 = StopTail Triangles"
proof -
  obtain s where s: "calm all_files_env s" "\<not> crashed s" "clients s 1 = StopWaiting Triangles"
    "\<forall>d. d \<noteq> 1 \<longrightarrow> clients s d = Idle" "sourceState (src_of s Triangles) = Stopping"
    using demo_stopping by blast
  have e: "\<forall>p. os_create_ok (file_sys all_files_env) p" by (simp add: all_files_env_def)
  have a: "\<forall>d post rs. clients s d = Awaiting True post rs \<longrightarrow> rs = [None]"
    using s(3,4) by (metis client_pc.distinct client_pc.simps)
  from stop_can_finish [OF s(1) e s(2,3,5) a] s(3) show ?thesis by blast
qed

theorem answers_reach_askers_witness:
  "\<exists>s t b post. server_step all_files_env s (Deliver 0 1 None) t \<and> clients s 1 = Awaiting b post [None]
    \<and> loops t = [(Triangles, Replying 1 [])]"
proof -
  obtain s where s: "calm all_files_env s" "\<not> crashed s" "loops s = [(Triangles, Selecting)]" "\<forall>c. clients s c = Idle"
    "isSourceActive (ctl s)" "ActiveSource (ctl s) = Triangles" "broker (src_of s Triangles) \<noteq> None"
    using demo_running by blast
  obtain b where b: "broker (src_of s Triangles) = Some b" using s(7) by blast
  let ?f = "group_closure True []"
  let ?s1 = "set_client 1 (Queueing False ?f plain_post) s"
  have c1: "server_step all_files_env s (Call 1 (ReqGroup True [])) ?s1"
    by (rule call_later) (use s in \<open>simp_all add: changeGroupTriggerCoupling_def runLaterIfActive_def\<close>)
  obtain sc us where f: "?f (ctl ?s1, wld ?s1) = Inr ((sc, wld ?s1), us, [None])"
    using b s(6) by (auto simp: group_closure_def ChangeGroupTrigger_def group_state_def active_def src_of_def)
  let ?s2 = "set_client 1 (Awaiting False plain_post [None]) (loop_at 0 (Replying 1 [None]) (?s1\<lparr>ctl := sc, wld := wld ?s1\<rparr>))"
  have c2: "server_step all_files_env ?s1 (Accept 0 1) ?s2"
    by (rule accept [where k = Triangles and s = ?s1 and f = ?f and b = False and post = plain_post, OF _ _ _ _ f]) (simp_all add: s)
  let ?t = "set_client 1 Idle (loop_at 0 (Replying 1 []) (?s2\<lparr>ctl := fst (plain_post (ctl ?s2) None)\<rparr>))"
  have c3: "server_step all_files_env ?s2 (Deliver 0 1 None) ?t"
    by (rule deliver [where k = Triangles and b = False and post = plain_post and qs = "[None]"]) (simp_all add: s loop_at_def)
  have calm2: "calm all_files_env ?s2"
    by (rule calm_step [OF calm_step [OF s(1) c1] c2]) (simp_all add: s loop_at_def)
  have e: "\<forall>p. os_create_ok (file_sys all_files_env) p" by (simp add: all_files_env_def)
  have "\<not> crashed ?t" by (simp add: s)
  from answers_reach_askers [OF calm2 e c3 this] obtain b post k where
    "clients ?s2 1 = Awaiting b post [None]" "loops ?s2 = [(k, Replying 1 [None])]" "loops ?t = [(k, Replying 1 [])]" by blast
  moreover from this(2) have "k = Triangles" by (simp add: s loop_at_def)
  ultimately show ?thesis using c3 by blast
qed

theorem comment_failure_blocks_witness:
  "\<exists>s t path. server_run no_files_env s [Accept 0 0, Deliver 0 0 (Some (FileErr path))] t \<and> clients t 0 = Idle
    \<and> (\<forall>es u es' v. server_run no_files_env t es u \<and> server_run no_files_env u es' v \<and> (\<forall>e\<in>set (es @ es'). \<not> is_select e)
        \<longrightarrow> clients u 1 = StopWaiting Triangles \<longrightarrow> clients v 1 = StopWaiting Triangles)"
proof -
  let ?src = "demo_source\<lparr>writingState := WritingState_zero\<lparr>wsActive := True\<rparr>\<rparr>"
  let ?s = "demo_server\<lparr>ctl := (ctl demo_server)\<lparr>anySource := (\<lambda>_. ?src), isSourceActive := True\<rparr>,
    loops := [(Triangles, Selecting)], clients := (\<lambda>_. Idle)(0 := Queueing False (comment_closure no_files_env ''hi'') plain_post)\<rparr>"
  have h: "\<not> crashed ?s" "loops ?s = [(Triangles, Selecting)]"
    "clients ?s 0 = Queueing False (comment_closure no_files_env ''hi'') plain_post"
    "\<forall>d. d \<noteq> 0 \<longrightarrow> bystander (clients ?s d)"
    "wsActive (writingState (active (ctl ?s)))"
    "\<not> os_create_ok (file_sys no_files_env) (comment_file (active (ctl ?s)))"
    by (simp_all add: demo_server_def active_def no_files_env_def)
  let ?e = "[Accept 0 0, Deliver 0 0 (Some (FileErr (comment_file (active (ctl ?s)))))]"
  from comment_failure_blocks [OF h] obtain t where t: "server_run no_files_env ?s ?e t" "clients t 0 = Idle"
    and after: "\<forall>es u es' v. server_run no_files_env t es u \<and> server_run no_files_env u es' v
        \<and> (\<forall>e\<in>set (es @ es'). \<not> is_select e) \<longrightarrow>
          loops v = [(Triangles, Replying 0 [None])] \<and> (\<forall>e\<in>set (es @ es'). \<not> of_loop e)
          \<and> (\<forall>d. waits (clients u d) \<longrightarrow> clients v d = clients u d)"
    by (elim exE conjE) assumption+
  have "clients v 1 = StopWaiting Triangles"
    if "server_run no_files_env t es u" "server_run no_files_env u es' v" "\<forall>e\<in>set (es @ es'). \<not> is_select e"
      "clients u 1 = StopWaiting Triangles" for es u es' v
  proof -
    have "\<forall>d. waits (clients u d) \<longrightarrow> clients v d = clients u d" using after that(1-3) by blast
    then have "waits (clients u 1) \<longrightarrow> clients v 1 = clients u 1" ..
    then show ?thesis using that(4) by simp
  qed
  with t show ?thesis by blast
qed

theorem second_start_loses_run_witness:
  "\<exists>t. server_run all_files_env demo_server [Select 0 ''TriangleSource'', Select 1 ''TriangleSource'', Begin 0,
      Prepare 0, Launch 0, Finish 0, Begin 1] t
    \<and> loops t = [(Triangles, Selecting)] \<and> sourceState (src_of t Triangles) = Active \<and> \<not> isSourceActive (ctl t)"
proof -
  obtain src where src: "PrepareRun 0 [] (demo_source\<lparr>sourceState := Starting, runDone := 0\<rparr>) 100 1000 = Inr (src, None)"
    using demo_prepares by blast
  have nm: "source_named ''TriangleSource'' = Some (Triangles, ''Triangles'')" by code_simp
  have d: "\<not> crashed demo_server" "\<not> isSourceActive (ctl demo_server)" "clients demo_server 0 = Idle"
    "clients demo_server 1 = Idle" "(0 :: nat) \<noteq> 1" "sourceState (src_of demo_server Triangles) = Inactive"
    by (simp_all add: demo_server_def src_of_def)
  have swap: "demo_source\<lparr>runDone := 0, sourceState := Starting\<rparr> = demo_source\<lparr>sourceState := Starting, runDone := 0\<rparr>"
    by simp
  have p: "PrepareRun 0 [] ((src_of demo_server Triangles)\<lparr>sourceState := Starting\<rparr>)
      (stNpresamp (status (ctl demo_server))) (stNsamples (status (ctl demo_server))) = Inr (src, None)"
    using src unfolding swap [symmetric] by (simp add: demo_server_def src_of_def)
  have "loops demo_server = []" by (simp add: demo_server_def)
  with second_start_loses_run [OF d(1-5) nm d(6) p, of all_files_env] show ?thesis by auto
qed

end
