(* ===== verification/Resonator.thy ===== *)
theory Resonator
  imports Source PhaseMix Packets
begin

text \<open>
  The packet source of the microwave-multiplexed resonators (\<open>resonator.go\<close>): the channel groups with
  their queues of packets, the filling of gaps in the sequence numbers, the alignment of the groups, the
  distribution of the values to the channels, external triggers, and the blocks made of them.  Packets are
  those of \<open>Packets\<close>; what the sockets deliver is an argument.  Go visits the groups, a map, in an order
  of its own each time: the model visits them in the order of a list, and nothing is assumed of it.
\<close>

subsection \<open>Options and groups\<close>

definition resonatorSubframeDivisions :: int where "resonatorSubframeDivisions = 64"
definition muxFractionBits :: nat where "muxFractionBits = 16"
definition muxBitsToDrop :: nat where "muxBitsToDrop = 4"

record ResonatorUnwrapOptions =
  RescaleRaw :: bool
  Unwrap :: bool
  optBias :: bool
  ResetAfter :: int
  PulseSign :: int
  InvertChan :: "int list"

datatype resonator_error =
    UnwrapWithoutRescale | NoProducers | ProducerFailed | ChannelInTwoGroups GroupIndex int
  | WrongGroup GroupIndex GroupIndex | EmptyQueue

definition unwrap_isvalid :: "ResonatorUnwrapOptions \<Rightarrow> resonator_error option" where
  "unwrap_isvalid u = (if Unwrap u \<and> \<not> RescaleRaw u then Some UnwrapWithoutRescale else None)"

text \<open>\<open>math.Round(0.38 * 65536)\<close> is 24904.\<close>

definition calcBiasLevel :: "ResonatorUnwrapOptions \<Rightarrow> int" where
  "calcBiasLevel u = (if optBias u then if PulseSign u < 0 then - 24904 else 24904 else 0)"

definition gIndex :: "Packet \<Rightarrow> GroupIndex go" where
  "gIndex p = bind_go (ChannelInfo p) (\<lambda>(n, first). Inr \<lparr>Firstchan = first, Nchan = n\<rparr>)"

record ResonatorGroup =
  rgIndex :: GroupIndex
  rgNchan :: int
  rgSampleRate :: go_float
  rgUnwrap :: "PhaseUnwrapper option list"
  rgQueue :: "Packet list"
  rgLasttime :: go_time
  seqnumsync :: "32 word"
  lastSN :: "32 word"
  TimestampCountsPerSubframe :: "64 word"
  LastFirmwareTimestamp :: PacketTimestamp
  LastSubframeCount :: frame_index

definition NewResonatorGroup :: "GroupIndex \<Rightarrow> ResonatorUnwrapOptions \<Rightarrow> ResonatorGroup go" where
  "NewResonatorGroup index opt =
     (let bitsToDrop = (if RescaleRaw opt then muxBitsToDrop else 0) in
      if Nchan index < 0 then Inl SliceBounds
      else bind_go (mapM_go (\<lambda>i.
          let invert = i + Firstchan index \<in> set (InvertChan opt) in
          if bitsToDrop > 0 \<or> invert
          then bind_go (NewPhaseUnwrapper muxFractionBits bitsToDrop (Unwrap opt) (calcBiasLevel opt) (ResetAfter opt)
            (PulseSign opt) invert) (\<lambda>u. Inr (Some u))
          else Inr None) [0..Nchan index - 1]) (\<lambda>us.
        Inr \<lparr>rgIndex = index, rgNchan = Nchan index, rgSampleRate = Fin 0, rgUnwrap = us, rgQueue = [], rgLasttime = 0,
          seqnumsync = 0, lastSN = 0, TimestampCountsPerSubframe = 0,
          LastFirmwareTimestamp = \<lparr>tsT = 0, tsRate = Fin 0\<rparr>, LastSubframeCount = 0\<rparr>))"

subsection \<open>Time stamps\<close>

definition updateFrameTiming :: "ResonatorGroup \<Rightarrow> Packet \<Rightarrow> frame_index \<Rightarrow> ResonatorGroup" where
  "updateFrameTiming g p frameIdx = (case pktTimestamp p of
     None \<Rightarrow> g
   | Some ts \<Rightarrow>
       (let newSubframeCount = frameIdx * resonatorSubframeDivisions;
            deltaSubframe = newSubframeCount - LastSubframeCount g;
            deltaTs = tsT ts - tsT (LastFirmwareTimestamp g) in
        if deltaSubframe \<le> 0 \<or> deltaTs = 0 then g
        else g\<lparr>LastFirmwareTimestamp := ts, LastSubframeCount := newSubframeCount,
               TimestampCountsPerSubframe := deltaTs div word_of_int deltaSubframe\<rparr>))"

definition subframeCountFromTimestamp :: "ResonatorGroup \<Rightarrow> 64 word \<Rightarrow> frame_index" where
  "subframeCountFromTimestamp g firmwareTimestamp =
     (if TimestampCountsPerSubframe g = 0 then 0
      else let deltaTs = sint (firmwareTimestamp - tsT (LastFirmwareTimestamp g));
               deltaF = quot_int deltaTs (sint (TimestampCountsPerSubframe g))
           in LastSubframeCount g + deltaF)"

definition enqueuePacket :: "ResonatorGroup \<Rightarrow> Packet \<Rightarrow> go_time \<Rightarrow> ResonatorGroup" where
  "enqueuePacket g p now = g\<lparr>rgQueue := rgQueue g @ [p], rgLasttime := now\<rparr>"

subsection \<open>Sampling a group\<close>

record group_sampling =
  tsInit :: PacketTimestamp
  tsFinal :: PacketTimestamp
  snInit :: "32 word"
  snFinal :: "32 word"
  samplesInPackets :: int
  syncSN :: "32 word"

definition sampling_step :: "group_sampling \<Rightarrow> Packet \<Rightarrow> group_sampling go" where
  "sampling_step a p = bind_go (Frames p) (\<lambda>frames.
     let a1 = a\<lparr>samplesInPackets := samplesInPackets a + frames\<rparr> in
     case pktTimestamp p of
       None \<Rightarrow> Inr a1
     | Some ts \<Rightarrow> if feq (tsRate ts) (Fin 0) then Inr a1
         else let a2 = (if tsT (tsInit a1) = 0
                        then a1\<lparr>tsInit := ts, snInit := sequenceNumber p, syncSN := sequenceNumber p\<rparr> else a1)
              in Inr (if tsT (tsFinal a2) < tsT ts then a2\<lparr>tsFinal := ts, snFinal := sequenceNumber p\<rparr> else a2))"

text \<open>A packet of another group stops the loop with an error, which leaves only the synchronisation behind.\<close>

fun sampling_loop :: "GroupIndex \<Rightarrow> group_sampling \<Rightarrow> Packet list \<Rightarrow> (group_sampling \<times> resonator_error option) go" where
  "sampling_loop index a [] = Inr (a, None)"
| "sampling_loop index a (p # ps) = bind_go (gIndex p) (\<lambda>cidx.
     if cidx \<noteq> index then Inr (a, Some (WrongGroup cidx index))
     else bind_go (sampling_step a p) (\<lambda>a1. sampling_loop index a1 ps))"

definition group_rate :: "group_sampling \<Rightarrow> int \<Rightarrow> go_float option" where
  "group_rate a packetsRead =
     (if tsT (tsInit a) \<noteq> 0 \<and> tsT (tsFinal a) \<noteq> 0 \<and> snFinal a - snInit a > 0
      then let dt = fdiv r64 (f64_of_int (uint (tsT (tsFinal a) - tsT (tsInit a)))) (tsRate (tsInit a));
               avgSampPerPacket = fdiv r64 (f64_of_int (samplesInPackets a)) (f64_of_int packetsRead)
           in Some (fdiv r64 (fmul r64 (f64_of_int (uint (snFinal a - snInit a))) avgSampPerPacket) dt)
      else None)"

definition group_samplePackets :: "ResonatorGroup \<Rightarrow> (ResonatorGroup \<times> resonator_error option) go" where
  "group_samplePackets g =
     (let zero = \<lparr>tsT = 0, tsRate = Fin 0\<rparr>;
          a0 = \<lparr>tsInit = zero, tsFinal = zero, snInit = 0, snFinal = 0, samplesInPackets = 0, syncSN = seqnumsync g\<rparr> in
      bind_go (sampling_loop (rgIndex g) a0 (rgQueue g)) (\<lambda>(a, err).
        let g1 = g\<lparr>seqnumsync := syncSN a\<rparr> in
        if err \<noteq> None then Inr (g1, err)
        else if rgQueue g = [] then Inl IndexOutOfRange
        else Inr (g1\<lparr>lastSN := sequenceNumber (last (rgQueue g)),
               rgSampleRate := (case group_rate a (int (length (rgQueue g))) of None \<Rightarrow> rgSampleRate g | Some r \<Rightarrow> r),
               rgQueue := []\<rparr>, None)))"

definition firstSeqNum :: "ResonatorGroup \<Rightarrow> resonator_error + 32 word" where
  "firstSeqNum g = (case rgQueue g of [] \<Rightarrow> Inl EmptyQueue | p # _ \<Rightarrow> Inr (sequenceNumber p - seqnumsync g))"

subsection \<open>Missing packets\<close>

record fill_state =
  fsExpect :: "32 word"
  fsQueue :: "Packet list"
  fsBytes :: int
  fsPackets :: int
  fsFrames :: int

text \<open>The inner loop counts \<open>snexpect\<close> up to the packet's number, which it does not pass.\<close>

definition missing_before :: "32 word \<Rightarrow> 32 word \<Rightarrow> nat list" where
  "missing_before snexpect sn = [unat snexpect..<unat sn]"

definition fill_step :: "int \<Rightarrow> fill_state \<Rightarrow> Packet \<Rightarrow> fill_state go" where
  "fill_step n a p =
     (let sn = sequenceNumber p; gap = missing_before (fsExpect a) sn in
      if gap = [] then Inr (a\<lparr>fsQueue := fsQueue a @ [p], fsExpect := fsExpect a + 1\<rparr>)
      else bind_go (mapM_go (\<lambda>i. MakePretendPacket p (of_nat i) n) gap) (\<lambda>fakes.
        bind_go (Frames p) (\<lambda>frames.
          Inr \<lparr>fsExpect = sn + 1, fsQueue = fsQueue a @ fakes @ [p],
            fsBytes = fsBytes a + int (length gap) * packetLength p, fsPackets = fsPackets a + int (length gap),
            fsFrames = fsFrames a + int (length gap) * frames\<rparr>)))"

definition fillMissingPackets :: "ResonatorGroup \<Rightarrow> (ResonatorGroup \<times> int \<times> int \<times> int) go" where
  "fillMissingPackets g =
     (if rgQueue g = [] then Inr (g, 0, 0, 0)
      else bind_go (foldM_go (fill_step (rgNchan g))
          \<lparr>fsExpect = lastSN g + 1, fsQueue = [], fsBytes = 0, fsPackets = 0, fsFrames = 0\<rparr> (rgQueue g)) (\<lambda>a.
        let g1 = (if fsPackets a > 0 then g\<lparr>rgQueue := fsQueue a\<rparr> else g) in
        Inr (g1\<lparr>lastSN := sequenceNumber (last (rgQueue g1))\<rparr>, fsBytes a, fsPackets a, fsFrames a)))"

definition trimPacketsBefore :: "ResonatorGroup \<Rightarrow> 32 word \<Rightarrow> ResonatorGroup go" where
  "trimPacketsBefore g firstSn =
     (if rgQueue g = [] then Inl IndexOutOfRange
      else Inr (g\<lparr>rgQueue := dropWhile (\<lambda>p. sequenceNumber p < firstSn + seqnumsync g) (rgQueue g)\<rparr>))"

subsection \<open>From packets to channels\<close>

definition packet_values :: "Packet \<Rightarrow> int list go" where
  "packet_values p = (case Data p of
     Some (Int32s d) \<Rightarrow> Inr d
   | Some (Int16s d) \<Rightarrow> Inr d
   | _ \<Rightarrow> Inl (ExplicitPanic ''Cannot parse packets that aren't of type []int16 or []int32''))"

definition countSamplesInQueue :: "ResonatorGroup \<Rightarrow> int go" where
  "countSamplesInQueue g =
     bind_go (foldM_go (\<lambda>n p. bind_go (packet_values p) (\<lambda>d. Inr (n + int (length d)))) 0 (rgQueue g)) (\<lambda>n.
       div_go n (rgNchan g))"

text \<open>
  A value becomes a sample: 16-bit values as they are, of 32-bit values the quotient by 65536, which Go
  rounds towards zero.
\<close>

definition sample_of :: "Packet \<Rightarrow> int \<Rightarrow> raw" where
  "sample_of p v = (case Data p of Some (Int32s _) \<Rightarrow> word_of_int (quot_int v 65536) | _ \<Rightarrow> word_of_int v)"

definition value_bytes :: "Packet \<Rightarrow> int" where
  "value_bytes p = (case Data p of Some (Int32s _) \<Rightarrow> 4 | _ \<Rightarrow> 2)"

text \<open>One packet into the copies of all channels, at sample \<open>pos\<close>.\<close>

definition demux_packet :: "int \<Rightarrow> Packet \<Rightarrow> int list \<Rightarrow> int \<Rightarrow> raw list list \<Rightarrow> raw list list go" where
  "demux_packet n p d pos dcs = bind_go (div_go (int (length d)) n) (\<lambda>nsamp.
     mapM_go (\<lambda>(c, dc).
       bind_go (mapM_go (\<lambda>i. idx d (c + i * n)) [0..nsamp - 1]) (\<lambda>vs.
         if nsamp > 0 \<and> pos + nsamp > int (length dc) then Inl IndexOutOfRange
         else Inr (take (nat pos) dc @ map (sample_of p) vs @ drop (nat (pos + max 0 nsamp)) dc))) (enumerated dcs))"

record demux_state =
  dmFrames :: int
  dmPos :: int
  dmCopies :: "raw list list"
  dmBytes :: int

text \<open>The loop stops at the first packet that would fill more than the frames that are left.\<close>

fun demux_loop :: "GroupIndex \<Rightarrow> int \<Rightarrow> demux_state \<Rightarrow> Packet list \<Rightarrow> (demux_state \<times> Packet list) go" where
  "demux_loop index n a [] = Inr (a, [])"
| "demux_loop index n a (p # ps) = bind_go (gIndex p) (\<lambda>gidx.
     if gidx \<noteq> index then Inl (ExplicitPanic ''Group received packet for another index'')
     else bind_go (Frames p) (\<lambda>frameAvail.
       if frameAvail > dmFrames a then Inr (a, p # ps)
       else bind_go (packet_values p) (\<lambda>d. bind_go (demux_packet n p d (dmPos a) (dmCopies a)) (\<lambda>dcs.
         bind_go (div_go (int (length d)) n) (\<lambda>nsamp.
           demux_loop index n \<lparr>dmFrames = dmFrames a - frameAvail, dmPos = dmPos a + nsamp, dmCopies = dcs,
             dmBytes = dmBytes a + value_bytes p * int (length d)\<rparr> ps)))))"

definition unwrap_channel :: "PhaseUnwrapper option \<times> raw list \<Rightarrow> PhaseUnwrapper option \<times> raw list" where
  "unwrap_channel = (\<lambda>(u, dc). case u of None \<Rightarrow> (None, dc)
     | Some up \<Rightarrow> (let (up1, dc1) = UnwrapInPlace up dc in (Some up1, dc1)))"

definition demuxData :: "ResonatorGroup \<Rightarrow> raw list list \<Rightarrow> int \<Rightarrow> (ResonatorGroup \<times> raw list list \<times> int) go" where
  "demuxData g dcs frames =
     bind_go (demux_loop (rgIndex g) (rgNchan g) \<lparr>dmFrames = frames, dmPos = 0, dmCopies = dcs, dmBytes = 0\<rparr> (rgQueue g))
       (\<lambda>(a, rest).
         if dmFrames a > 0 then Inl (ExplicitPanic ''there are still frames to fill'')
         else if length (rgUnwrap g) > length (dmCopies a) \<and> (\<exists>u\<in>set (drop (length (dmCopies a)) (rgUnwrap g)). u \<noteq> None)
           then Inl IndexOutOfRange
         else let uds = map unwrap_channel (zip (rgUnwrap g) (dmCopies a)) in
           Inr (g\<lparr>rgQueue := rest, rgUnwrap := map fst uds\<rparr>, map snd uds @ drop (length uds) (dmCopies a), dmBytes a))"

subsection \<open>The source\<close>

record ResonatorSource =
  rsSource :: AnySource
  rsGroups :: "(GroupIndex \<times> ResonatorGroup) list"
  eTrigPackets :: "Packet list"
  unwrapOpts :: ResonatorUnwrapOptions
  udpHosts :: "string list"

record ResonatorSourceConfig =
  HostPortUDP :: "string list"
  rcUnwrapOptions :: ResonatorUnwrapOptions

record ResonatorBuffersType =
  rbCopies :: "raw list list"
  rbLastTime :: go_time
  rbTimeDiff :: go_duration
  rbTotalBytes :: int
  rbDroppedBytes :: int
  rbDroppedFrames :: int

definition resonator_VoltsPerArb :: "ResonatorSource \<Rightarrow> ResonatorSource" where
  "resonator_VoltsPerArb rs =
     (let src = rsSource rs in
      if srcVoltsPerArb src = [] \<or> int (length (srcVoltsPerArb src)) \<noteq> nchan src
      then let vpa = (if RescaleRaw (unwrapOpts rs) then r32 (1 / 4096) else r32 (1 / 65536)) in
        rs\<lparr>rsSource := src\<lparr>srcVoltsPerArb := replicate (nat (nchan src)) vpa\<rparr>\<rparr>
      else rs)"

text \<open>
  \<open>Configure\<close> keeps one of each address, sorted; \<open>resolves\<close> says which addresses the resolver accepts.  An
  address that it refuses ends the list there.
\<close>

definition string_le :: "string \<Rightarrow> string \<Rightarrow> bool" where
  "string_le a b = (a = b \<or> (a, b) \<in> lexord {(c, d). (of_char c :: nat) < of_char d})"

fun insert_string :: "string \<Rightarrow> string list \<Rightarrow> string list" where
  "insert_string a [] = [a]"
| "insert_string a (b # bs) = (if string_le a b then a # b # bs else b # insert_string a bs)"

definition resonator_Configure ::
  "(string \<Rightarrow> bool) \<Rightarrow> ResonatorSource \<Rightarrow> ResonatorSourceConfig \<Rightarrow> ResonatorSource \<times> resonator_error option" where
  "resonator_Configure resolves rs config = (case unwrap_isvalid (rcUnwrapOptions config) of
     Some err \<Rightarrow> (rs, Some err)
   | None \<Rightarrow>
       (let hosts = foldr insert_string (remdups (HostPortUDP config)) [];
            good = takeWhile resolves hosts
        in (rs\<lparr>unwrapOpts := rcUnwrapOptions config, udpHosts := good\<rparr>,
            if good = hosts then None else Some ProducerFailed)))"

text \<open>A packet for a group that was not there when the source was sampled meets a nil pointer.\<close>

definition distribute_step ::
  "go_time \<Rightarrow> ResonatorSource \<times> bool \<Rightarrow> Packet \<Rightarrow> (ResonatorSource \<times> bool) go" where
  "distribute_step now = (\<lambda>(rs, updated) p.
     if IsExternalTrigger p then Inr (rs\<lparr>eTrigPackets := eTrigPackets rs @ [p]\<rparr>, updated)
     else bind_go (gIndex p) (\<lambda>cidx. case map_of (rsGroups rs) cidx of
         None \<Rightarrow> Inl NilDereference
       | Some g \<Rightarrow>
           let g1 = enqueuePacket g p now;
               g2 = (if updated then g1 else updateFrameTiming g1 p (nextFrameNum (rsSource rs)))
           in Inr (rs\<lparr>rsGroups := AList.update cidx g2 (rsGroups rs)\<rparr>, True)))"

definition distributePackets :: "ResonatorSource \<Rightarrow> Packet list \<Rightarrow> go_time \<Rightarrow> ResonatorSource go" where
  "distributePackets rs ps now = bind_go (foldM_go (distribute_step now) (rs, False) ps) (\<lambda>(rs1, _). Inr rs1)"

subsection \<open>Sampling the source\<close>

definition add_group :: "ResonatorSource \<Rightarrow> Packet \<Rightarrow> ResonatorSource go" where
  "add_group rs p =
     (if IsExternalTrigger p then Inr rs
      else bind_go (gIndex p) (\<lambda>cidx.
        if map_of (rsGroups rs) cidx \<noteq> None then Inr rs
        else bind_go (NewResonatorGroup cidx (unwrapOpts rs)) (\<lambda>g.
          Inr (rs\<lparr>rsGroups := rsGroups rs @ [(cidx, g)],
                 rsSource := (rsSource rs)\<lparr>nchan := nchan (rsSource rs) + Nchan cidx\<rparr>\<rparr>))))"

text \<open>What the producers delivered, in the order in which they finish; \<open>None\<close> is an error.\<close>

fun sample_results ::
  "ResonatorSource \<Rightarrow> (Packet list \<times> go_time) option list \<Rightarrow> (ResonatorSource \<times> resonator_error option) go" where
  "sample_results rs [] = Inr (rs, None)"
| "sample_results rs (None # _) = Inr (rs, Some ProducerFailed)"
| "sample_results rs (Some (ps, now) # rest) =
     bind_go (foldM_go add_group rs ps) (\<lambda>rs1. bind_go (distributePackets rs1 ps now) (\<lambda>rs2. sample_results rs2 rest))"

fun check_channels :: "int list \<Rightarrow> GroupIndex list \<Rightarrow> resonator_error option" where
  "check_channels known [] = None"
| "check_channels known (g # gs) =
     (case find (\<lambda>c. c \<in> set known) [Firstchan g..Firstchan g + Nchan g - 1] of
        Some c \<Rightarrow> Some (ChannelInTwoGroups g c)
      | None \<Rightarrow> check_channels (known @ [Firstchan g..Firstchan g + Nchan g - 1]) gs)"

text \<open>The common rate: that of the first group with a rate, from which the others may differ by \<open>10\<^sup>-\<^sup>6\<close> of it.\<close>

definition rate_step :: "go_float \<Rightarrow> go_float \<Rightarrow> go_float go" where
  "rate_step rate r =
     (let rate1 = (if feq rate (Fin 0) then r else rate);
          d = fsub r64 rate1 r; diff = (if flt d (Fin 0) then fneg d else d) in
      if flt (r64 (1 / 1000000)) (fdiv r64 diff rate1)
      then Inl (ExplicitPanic ''Oh crap! Two groups have different sample rates.'') else Inr rate1)"

definition resonator_Sample ::
  "ResonatorSource \<Rightarrow> (Packet list \<times> go_time) option list \<Rightarrow> (ResonatorSource \<times> resonator_error option) go" where
  "resonator_Sample rs results =
     (if udpHosts rs = [] then Inr (rs, Some NoProducers)
      else let rs0 = rs\<lparr>rsSource := (rsSource rs)\<lparr>nchan := 0\<rparr>, rsGroups := []\<rparr> in
      bind_go (sample_results rs0 results) (\<lambda>(rs1, err).
        if err \<noteq> None then Inr (rs1, err)
        else case check_channels [] (map fst (rsGroups rs1)) of
          Some err \<Rightarrow> Inr (rs1, Some err)
        | None \<Rightarrow>
            let rs2 = rs1\<lparr>rsSource := (rsSource rs1)\<lparr>groupKeysSorted := sort_key Firstchan (map fst (rsGroups rs1))\<rparr>\<rparr> in
            bind_go (mapM_go (\<lambda>(k, g). bind_go (group_samplePackets g) (\<lambda>(g1, _). Inr (k, g1))) (rsGroups rs2)) (\<lambda>gs.
            bind_go (foldM_go rate_step (Fin 0) (map (rgSampleRate \<circ> snd) gs)) (\<lambda>rate.
              Inr (rs2\<lparr>rsGroups := gs, rsSource := (rsSource rs2)\<lparr>srcSampleRate := rate,
                samplePeriod := roundint (fdiv r64 (Fin 1000000000) rate)\<rparr>\<rparr>, None)))))"

definition resonator_PrepareChannels :: "ResonatorSource \<Rightarrow> ResonatorSource" where
  "resonator_PrepareChannels rs =
     (let src = rsSource rs; ncol = int (length (rsGroups rs));
          cells = concat (map (\<lambda>(col, g). map (\<lambda>row. (row + Firstchan g, rcCode row col (Nchan g) ncol)) [0..Nchan g - 1])
            (enumerated (groupKeysSorted src))) in
      rs\<lparr>rsSource := src\<lparr>channelsPerPixel := 1, subframeOffsets := replicate (nat (nchan src)) 0,
        chanNames := map (\<lambda>(n, _). ''chan'' @ fmt_d n) cells, chanNumbers := map fst cells,
        rowColCodes := map snd cells\<rparr>\<rparr>)"

subsection \<open>The reader\<close>

text \<open>
  Filling the gaps of all groups, in the order of the map, up to the first group without packets; then the
  largest first sequence number.
\<close>

fun fill_groups ::
  "(GroupIndex \<times> ResonatorGroup) list \<Rightarrow> 32 word \<Rightarrow> int \<Rightarrow> int
   \<Rightarrow> ((GroupIndex \<times> ResonatorGroup) list \<times> 32 word option \<times> int \<times> int) go" where
  "fill_groups [] firstSn bytes frames = Inr ([], Some firstSn, bytes, frames)"
| "fill_groups ((k, g) # gs) firstSn bytes frames =
     bind_go (fillMissingPackets g) (\<lambda>(g1, b, _, f). case firstSeqNum g1 of
        Inl _ \<Rightarrow> Inr ((k, g1) # gs, None, bytes + b, frames + f)
      | Inr sn0 \<Rightarrow> bind_go (fill_groups gs (if sn0 > firstSn then sn0 else firstSn) (bytes + b) (frames + f))
          (\<lambda>(gs1, r). Inr ((k, g1) # gs1, r)))"

definition trim_groups ::
  "32 word \<Rightarrow> (GroupIndex \<times> ResonatorGroup) list \<Rightarrow> ((GroupIndex \<times> ResonatorGroup) list \<times> int) go" where
  "trim_groups firstSn gs =
     bind_go (mapM_go (\<lambda>(k, g). bind_go (trimPacketsBefore g firstSn) (\<lambda>g1.
       bind_go (countSamplesInQueue g1) (\<lambda>n. Inr ((k, g1), n)))) gs) (\<lambda>gns.
     Inr (map fst gns, foldl min (2 ^ 63 - 1) (map snd gns)))"

text \<open>The groups in the order of their first channels, each into its part of the copies.\<close>

fun demux_groups ::
  "GroupIndex list \<Rightarrow> int \<Rightarrow> (GroupIndex \<times> ResonatorGroup) list \<Rightarrow> raw list list
   \<Rightarrow> ((GroupIndex \<times> ResonatorGroup) list \<times> raw list list \<times> int) go" where
  "demux_groups [] frames gs dcs = Inr (gs, dcs, 0)"
| "demux_groups (k # ks) frames gs dcs = (case map_of gs k of
     None \<Rightarrow> Inl NilDereference
   | Some g \<Rightarrow> bind_go (slice_go dcs 0 (rgNchan g)) (\<lambda>dc.
       bind_go (demuxData g dc frames) (\<lambda>(g1, dc1, bytes).
         bind_go (demux_groups ks frames (AList.update k g1 gs) (drop (nat (rgNchan g)) dcs)) (\<lambda>(gs1, rest, more).
           Inr (gs1, dc1 @ rest, bytes + more)))))"

text \<open>One tick of \<open>readerMainLoop\<close>: what each producer delivers, and when.\<close>

definition reader_tick ::
  "ResonatorSource \<Rightarrow> (Packet list \<times> go_time) list \<Rightarrow> (ResonatorSource \<times> ResonatorBuffersType option) go" where
  "reader_tick rs deliveries =
     bind_go (foldM_go (\<lambda>rs (ps, now). distributePackets rs ps now) rs deliveries) (\<lambda>rs1.
     bind_go (fill_groups (rsGroups rs1) 0 0 0) (\<lambda>(gs, first, dropBytes, dropFrames).
       let rs2 = rs1\<lparr>rsGroups := gs\<rparr> in
       case first of None \<Rightarrow> Inr (rs2, None)
     | Some firstSn \<Rightarrow>
         bind_go (trim_groups firstSn gs) (\<lambda>(gs1, frames).
         let rs3 = rs2\<lparr>rsGroups := gs1\<rparr>; src = rsSource rs3; t = (if deliveries = [] then 0 else snd (last deliveries)) in
         if frames \<le> 0 then Inr (rs3, None)
         else bind_go (demux_groups (groupKeysSorted src) frames gs1
             (replicate (nat (nchan src)) (replicate (nat frames) 0))) (\<lambda>(gs2, dcs, bytes).
           Inr (rs3\<lparr>rsGroups := gs2, rsSource := src\<lparr>lastread := t\<rparr>\<rparr>,
                Some \<lparr>rbCopies = dcs, rbLastTime = t, rbTimeDiff = t - lastread src, rbTotalBytes = bytes,
                      rbDroppedBytes = dropBytes, rbDroppedFrames = dropFrames\<rparr>)))))"

subsection \<open>Blocks\<close>

text \<open>
  The payload of a trigger packet is read as big-endian 64-bit numbers through an unsafe pointer, without
  regard to the length of the slice: what lies beyond it is not defined, and is a panic of the model.
\<close>

definition trigger_times :: "Packet \<Rightarrow> (64 word) list go" where
  "trigger_times p = bind_go (Frames p) (\<lambda>n. case Data p of
     Some (Uint8s d) \<Rightarrow>
       if d = [] then Inl IndexOutOfRange
       else if n < 0 \<or> 16 * n > int (length d) then Inl SliceBounds
       else Inr (map (\<lambda>k. word_of_int (of_be (take 8 (drop (16 * k + 8) d)))) [0..<nat n])
   | _ \<Rightarrow> Inr [])"

definition extractExternalTriggers :: "ResonatorSource \<Rightarrow> (ResonatorSource \<times> int list) go" where
  "extractExternalTriggers rs =
     bind_go (mapM_go (\<lambda>p.
       bind_go (idx (groupKeysSorted (rsSource rs)) 0) (\<lambda>key0.
       bind_go (trigger_times p) (\<lambda>ts. case map_of (rsGroups rs) key0 of
         None \<Rightarrow> if ts = [] then Inr [] else Inl NilDereference
       | Some grp0 \<Rightarrow> Inr (map (subframeCountFromTimestamp grp0) ts)))) (eTrigPackets rs)) (\<lambda>fcs.
     Inr (rs\<lparr>eTrigPackets := []\<rparr>, concat fcs))"

definition resonator_distributeData ::
  "ResonatorSource \<Rightarrow> ResonatorBuffersType \<Rightarrow> (ResonatorSource \<times> dataBlock) go" where
  "resonator_distributeData rs msg =
     bind_go (idx (rbCopies msg) 0) (\<lambda>dc0.
       let framesUsed = int (length dc0); src = rsSource rs;
           segDuration = roundint (fdiv r64 (fmul r64 (Fin 1000000000) (f64_of_int (framesUsed - 1))) (srcSampleRate src));
           first = rbLastTime msg - segDuration in
       bind_go (extractExternalTriggers rs) (\<lambda>(rs1, triggers).
         let segs = map (\<lambda>data. \<lparr>rawData = data, signedData = False, framesPerSample = 1,
               firstFrameIndex = nextFrameNum src, firstTime = first, framePeriod = samplePeriod src,
               voltsPerArb = Fin 0, processed = False, droppedFrames = rbDroppedFrames msg\<rparr>) (rbCopies msg) in
         Inr (rs1\<lparr>rsSource := (rsSource rs1)\<lparr>nextFrameNum := nextFrameNum src + framesUsed\<rparr>\<rparr>,
              \<lparr>segments = segs, externalTriggerRowcounts = triggers, blockNSamp = framesUsed, blockErr = False\<rparr>)))"

end
