(* ===== verification/Receiver.thy ===== *)
theory Receiver
  imports Resonator PacketLaws
begin

text \<open>
  The receiver of the packet source (\<open>ResonatorUDPReceiver\<close> of \<open>resonator.go\<close>): the goroutine that reads datagrams
  and queues the packets until they are asked for.  What the socket does is a list of events.  Requests
  and answers go over unbuffered channels: a request that nobody takes blocks the one who makes it.
\<close>

subsection \<open>The goroutine\<close>

definition UDPPacketSize :: nat where "UDPPacketSize = 8192"

text \<open>The buffer is used again for each datagram: what a shorter one leaves of it stays.\<close>

record receiver =
  rcBuffer :: "u8 list"
  rcQueue :: "Packet list"
  rcRuns :: bool

definition receiver_start :: receiver where
  "receiver_start = \<lparr>rcBuffer = replicate UDPPacketSize 0, rcQueue = [], rcRuns = True\<rparr>"

datatype socket_event = ReadTimeout | ReadClosed | Message "u8 list"

definition fill_buffer :: "u8 list \<Rightarrow> u8 list \<Rightarrow> u8 list" where
  "fill_buffer buffer bs = take (length buffer) bs @ drop (length bs) buffer"

definition receiver_step :: "receiver \<Rightarrow> socket_event \<Rightarrow> receiver go" where
  "receiver_step r e =
     (if \<not> rcRuns r then Inr r
      else case e of
        ReadTimeout \<Rightarrow> Inr r
      | ReadClosed \<Rightarrow> Inr (r\<lparr>rcRuns := False\<rparr>)
      | Message bs \<Rightarrow> let r1 = r\<lparr>rcBuffer := fill_buffer (rcBuffer r) bs\<rparr> in
          bind_go (ReadPacket (rcBuffer r1)) (\<lambda>(res, _). case res of
            Inr pack \<Rightarrow> Inr (r1\<lparr>rcQueue := rcQueue r1 @ [pack]\<rparr>)
          | Inl _ \<Rightarrow> Inr (r1\<lparr>rcRuns := False\<rparr>)))"

text \<open>\<open>ReadAllPackets\<close>; \<open>None\<close> when the caller blocks for ever.\<close>

definition ReadAllPackets :: "receiver \<Rightarrow> (receiver \<times> Packet list) option" where
  "ReadAllPackets r = (if rcRuns r then Some (r\<lparr>rcQueue := []\<rparr>, rcQueue r) else None)"

text \<open>Closing; the connection of a goroutine that has ended is nil.\<close>

definition receiver_stop :: "receiver \<Rightarrow> receiver go" where
  "receiver_stop r = (if rcRuns r then Inr (r\<lparr>rcRuns := False\<rparr>) else Inl NilDereference)"

text \<open>
  Sampling asks again and again until it has 100 packets or the time is over: \<open>rounds\<close> holds what the socket
  does before each request that is made in time.
\<close>

definition minPacketsToRead :: nat where "minPacketsToRead = 100"

fun receiver_samplePackets :: "receiver \<Rightarrow> Packet list \<Rightarrow> socket_event list list \<Rightarrow> (receiver \<times> Packet list) option go" where
  "receiver_samplePackets r ps [] = Inr (Some (r, ps))"
| "receiver_samplePackets r ps (es # rounds) =
     (if length ps \<ge> minPacketsToRead then Inr (Some (r, ps))
      else bind_go (foldM_go receiver_step r es) (\<lambda>r1. case ReadAllPackets r1 of
        None \<Rightarrow> Inr None
      | Some (r2, got) \<Rightarrow> receiver_samplePackets r2 (ps @ got) rounds))"

text \<open>Requests in the course of a run, each after some events; the answers in their order.\<close>

fun receiver_run :: "receiver \<Rightarrow> socket_event list list \<Rightarrow> (receiver \<times> Packet list list) option go" where
  "receiver_run r [] = Inr (Some (r, []))"
| "receiver_run r (es # rounds) = bind_go (foldM_go receiver_step r es) (\<lambda>r1. case ReadAllPackets r1 of
     None \<Rightarrow> Inr None
   | Some (r2, ps) \<Rightarrow> bind_go (receiver_run r2 rounds) (\<lambda>res. Inr (map_option (\<lambda>(r3, pss). (r3, ps # pss)) res)))"

subsection \<open>Laws\<close>

lemma dead_stays: "\<not> rcRuns r \<Longrightarrow> foldM_go receiver_step r es = Inr r"
  by (induction es) (simp_all add: receiver_step_def)

text \<open>A queue that is in front of the packets that arrive stays in front of them.\<close>

definition before :: "Packet list \<Rightarrow> receiver \<Rightarrow> receiver" where
  "before q r = r\<lparr>rcQueue := q @ rcQueue r\<rparr>"

lemma before_simps [simp]: "rcQueue (before q r) = q @ rcQueue r" "rcRuns (before q r) = rcRuns r"
  "rcBuffer (before q r) = rcBuffer r" "before q (before p r) = before (q @ p) r" "before [] r = r"
  by (simp_all add: before_def)

lemma step_before: "receiver_step (before q r) e = bind_go (receiver_step r e) (\<lambda>r'. Inr (before q r'))"
proof (cases "rcRuns r")
  case True
  then show ?thesis
  proof (cases e)
    case (Message bs)
    then show ?thesis using True
      by (cases "ReadPacket (fill_buffer (rcBuffer r) bs)")
        (auto simp: receiver_step_def Let_def before_def split: sum.splits prod.splits)
  qed (simp_all add: receiver_step_def before_def)
qed (simp add: receiver_step_def)

lemma steps_before: "foldM_go receiver_step (before q r) es = bind_go (foldM_go receiver_step r es) (\<lambda>r'. Inr (before q r'))"
proof (induction es arbitrary: r)
  case (Cons e es)
  show ?case using Cons.IH by (cases "receiver_step r e") (simp_all add: step_before)
qed simp

text \<open>
  Requests lose no packet, hand out none twice and keep their order: the answers one after the other, with
  what is still queued, are the packets that a receiver which nobody asks would have queued.
\<close>

theorem requests_lose_nothing:
  assumes "receiver_run r rounds = Inr (Some (r', pss))"
  shows "foldM_go receiver_step r (concat rounds) = Inr (r'\<lparr>rcQueue := concat pss @ rcQueue r'\<rparr>)"
proof -
  have "foldM_go receiver_step r (concat rounds) = Inr (before (concat pss) r')"
    using assms
  proof (induction rounds arbitrary: r pss)
    case (Cons es rounds)
    obtain r1 where r1: "foldM_go receiver_step r es = Inr r1" "rcRuns r1"
      using Cons.prems by (auto simp: bind_go_Inr_iff ReadAllPackets_def split: if_splits)
    let ?r2 = "r1\<lparr>rcQueue := []\<rparr>"
    obtain pss' where run: "receiver_run ?r2 rounds = Inr (Some (r', pss'))" "pss = rcQueue r1 # pss'"
      using Cons.prems r1 by (auto simp: bind_go_Inr_iff ReadAllPackets_def)
    have eq: "before (rcQueue r1) ?r2 = r1" by (simp add: before_def)
    show ?case using steps_before [of "rcQueue r1" ?r2 "concat rounds", unfolded eq] Cons.IH [OF run(1)] r1 run(2)
      by (simp add: foldM_go_append)
  qed simp
  then show ?thesis by (simp add: before_def)
qed

text \<open>
  One datagram that is no packet ends the receiver: whoever asks for packets after it, whatever arrives
  later, waits for ever, and closing the device panics.
\<close>

theorem bad_datagram_blocks_reader:
  assumes "rcRuns r" "ReadPacket (fill_buffer (rcBuffer r) bs) = Inr (Inl err, rest)"
  shows "\<exists>r'. foldM_go receiver_step r (Message bs # es) = Inr r' \<and> ReadAllPackets r' = None \<and> receiver_stop r' = Inl NilDereference"
  using assms dead_stays [of "r\<lparr>rcBuffer := fill_buffer (rcBuffer r) bs, rcRuns := False\<rparr>" es]
  by (simp add: receiver_step_def Let_def ReadAllPackets_def receiver_stop_def)

end
