(* ===== verification/ResonatorLaws.thy ===== *)
theory ResonatorLaws
  imports Resonator PacketLaws SimSources
begin

text \<open>
  Laws of the packet source: gaps in the sequence numbers are filled, unless packets were left over from
  the tick before; the values of a queue of packets reach the channels they belong to; and the copies made
  in one tick hold, for all groups, the packets of the same sequence numbers.
\<close>

subsection \<open>Packets of a group\<close>

abbreviation sn :: "Packet \<Rightarrow> nat" where
  "sn p \<equiv> unat (sequenceNumber p)"

definition values_of :: "Packet \<Rightarrow> int list" where
  "values_of p = (case packet_values p of Inr d \<Rightarrow> d | Inl _ \<Rightarrow> [])"

definition frames_of :: "int \<Rightarrow> Packet \<Rightarrow> nat" where
  "frames_of n p = length (values_of p) div nat n"

text \<open>A data packet of the group: whole frames, as many as its header says.\<close>

definition frames_ok :: "GroupIndex \<Rightarrow> int \<Rightarrow> Packet \<Rightarrow> bool" where
  "frames_ok index n p \<longleftrightarrow> gIndex p = Inr index \<and> packet_values p = Inr (values_of p)
     \<and> Frames p = Inr (int (frames_of n p)) \<and> length (values_of p) = frames_of n p * nat n"

lemma sn_less: "sn p < 2 ^ 32"
  using unsigned_less [of "sequenceNumber p", where 'a = nat] by simp

lemma pretend_ok:
  assumes "frames_ok index n p" "0 < n"
  obtains q where "MakePretendPacket p s n = Inr q" "sequenceNumber q = s" "frames_ok index n q"
proof -
  obtain d where d: "Data p = Some (Int16s d) \<or> Data p = Some (Int32s d)" "values_of p = d"
    using assms(1) unfolding frames_ok_def packet_values_def by (auto split: option.splits go_slice.splits)
  let ?x = "map (\<lambda>i. d ! (i mod nat n)) [0..<length d]"
  obtain q where q: "MakePretendPacket p s n = Inr q" "q = p\<lparr>sequenceNumber := s, Data := Data q\<rparr>"
    "Data q = Some (Int16s ?x) \<or> Data q = Some (Int32s ?x)"
    using d(1) assms(2) by (auto simp: MakePretendPacket_def repeat_first_values Let_def)
  have v: "packet_values q = Inr ?x" "values_of q = ?x"
    using q(3) by (auto simp: packet_values_def values_of_def)
  have shape: "pktShape q = pktShape p" "chanOffset q = chanOffset p" "pktFormat q = pktFormat p"
    "payloadLength q = payloadLength p" "sequenceNumber q = s"
    using arg_cong [OF q(2), of pktShape] arg_cong [OF q(2), of chanOffset] arg_cong [OF q(2), of pktFormat]
      arg_cong [OF q(2), of payloadLength] arg_cong [OF q(2), of sequenceNumber] by simp_all
  then have same: "gIndex q = gIndex p" "Frames q = Frames p"
    unfolding gIndex_def ChannelInfo_def Frames_def shape by simp_all
  have "frames_of n q = frames_of n p" using v(2) d(2) by (simp add: frames_of_def)
  then have "frames_ok index n q" using assms(1) v same d(2) by (simp add: frames_ok_def)
  then show ?thesis using q(1) shape(5) that by blast
qed

subsection \<open>Gaps\<close>

lemma filter_full: "length (filter P xs) = length xs \<Longrightarrow> filter P xs = xs"
proof (induction xs)
  case (Cons x xs)
  then show ?case using length_filter_le [of P xs] by (cases "P x") simp_all
qed simp

lemma mapM_pretend:
  assumes "frames_ok index n p" "0 < n" "\<forall>i\<in>set is. i < 2 ^ 32"
  shows "\<exists>fakes. mapM_go (\<lambda>i. MakePretendPacket p (of_nat i) n) is = Inr fakes
    \<and> map sn fakes = is \<and> (\<forall>q\<in>set fakes. frames_ok index n q)"
  using assms(3)
proof (induction "is")
  case (Cons i js)
  obtain q where q: "MakePretendPacket p (of_nat i) n = Inr q" "sequenceNumber q = of_nat i" "frames_ok index n q"
    using pretend_ok [OF assms(1,2)] by metis
  obtain fakes where f: "mapM_go (\<lambda>i. MakePretendPacket p (of_nat i) n) js = Inr fakes"
    "map sn fakes = js" "\<forall>q\<in>set fakes. frames_ok index n q" using Cons by auto
  have "unat (of_nat i :: 32 word) = i" using Cons.prems by (simp add: unat_of_nat)
  then show ?case using q f by simp
qed simp

lemma fill_run:
  assumes "0 < n" "ps \<noteq> []" "\<forall>p\<in>set ps. frames_ok index n p" "sorted_wrt (<) (map sn ps)"
    and "unat (fsExpect a) \<le> sn (hd ps)"
  shows "\<exists>a' new. foldM_go (fill_step n) a ps = Inr a' \<and> fsQueue a' = fsQueue a @ new
    \<and> map sn new = [unat (fsExpect a)..<Suc (sn (last ps))] \<and> filter (\<lambda>q. sn q \<in> sn ` set ps) new = ps
    \<and> (\<forall>q\<in>set new. frames_ok index n q) \<and> fsPackets a' = fsPackets a + int (length new) - int (length ps)"
  using assms(2-5)
proof (induction ps arbitrary: a)
  case (Cons p ps)
  let ?e = "unat (fsExpect a)"
  have ok: "frames_ok index n p" and le: "?e \<le> sn p" using Cons.prems by simp_all
  have small: "\<forall>i\<in>set [?e..<sn p]. i < 2 ^ 32" using sn_less [of p] by auto
  obtain fakes where f: "mapM_go (\<lambda>i. MakePretendPacket p (of_nat i) n) [?e..<sn p] = Inr fakes"
    "map sn fakes = [?e..<sn p]" "\<forall>q\<in>set fakes. frames_ok index n q"
    using mapM_pretend [OF ok assms(1) small] by blast
  have len: "length fakes = sn p - ?e" using f(2) by (metis length_map length_upt)
  obtain a1 where a1: "fill_step n a p = Inr a1" "fsQueue a1 = fsQueue a @ fakes @ [p]"
    "fsExpect a1 = sequenceNumber p + 1" "fsPackets a1 = fsPackets a + int (length fakes)"
  proof (cases "?e = sn p")
    case True
    then have "fsExpect a = sequenceNumber p" "fakes = []" using len by (simp_all add: word_unat_eq_iff)
    then show ?thesis using that by (simp add: fill_step_def missing_before_def)
  next
    case False
    then show ?thesis using that f(1) le len ok by (simp add: fill_step_def missing_before_def frames_ok_def Let_def)
  qed
  have old: "sn q \<notin> sn ` set (p # ps)" if "q \<in> set fakes" for q
  proof -
    have "sn q \<in> set (map sn fakes)" using that by simp
    then have "sn q < sn p" unfolding f(2) by simp
    then show ?thesis using Cons.prems(3) by auto
  qed
  show ?case
  proof (cases "ps = []")
    case True
    have "filter (\<lambda>q. sn q \<in> sn ` set [p]) (fakes @ [p]) = [p]" using old True by (auto simp: filter_empty_conv)
    moreover have "map sn (fakes @ [p]) = [?e..<Suc (sn p)]" using f(2) le by simp
    ultimately show ?thesis using a1 f(3) ok True by (intro exI [of _ a1] exI [of _ "fakes @ [p]"]) auto
  next
    case False
    have lt: "sn p < sn (hd ps)" using Cons.prems(3) False by simp
    have "unat (sequenceNumber p + 1) = Suc (sn p)"
      using lt sn_less [of "hd ps"] by (simp add: unat_word_ariths)
    then have e1: "unat (fsExpect a1) = Suc (sn p)" using a1(3) by simp
    obtain a' new where IH: "foldM_go (fill_step n) a1 ps = Inr a'" "fsQueue a' = fsQueue a1 @ new"
      "map sn new = [unat (fsExpect a1)..<Suc (sn (last ps))]" "filter (\<lambda>q. sn q \<in> sn ` set ps) new = ps"
      "\<forall>q\<in>set new. frames_ok index n q" "fsPackets a' = fsPackets a1 + int (length new) - int (length ps)"
      using Cons.IH [OF False, of a1] Cons.prems lt e1 by auto
    have "sn q \<noteq> sn p" if "q \<in> set new" for q
    proof -
      have "sn q \<in> set (map sn new)" using that by simp
      then show ?thesis unfolding IH(3) e1 by auto
    qed
    then have new: "filter (\<lambda>q. sn q \<in> sn ` set (p # ps)) new = ps" using IH(4) by (metis (no_types, lifting) filter_cong image_insert insert_iff list.simps(15))
    have last: "sn p < sn (last ps)" using Cons.prems(3) False by simp
    have "filter (\<lambda>q. sn q \<in> sn ` set (p # ps)) (fakes @ p # new) = p # ps" using old new by (auto simp: filter_empty_conv)
    moreover have "map sn (fakes @ p # new) = [?e..<Suc (sn (last ps))]"
      using f(2) IH(3) e1 le last upt_add_eq_append [of ?e "sn p" "Suc (sn (last ps)) - sn p"]
      by (simp add: upt_conv_Cons)
    ultimately show ?thesis using a1 IH f(3) ok False
      by (intro exI [of _ a'] exI [of _ "fakes @ p # new"]) auto
  qed
qed simp

text \<open>
  C32: when no packet is left over from before, filling restores the sequence: from packets of the group with
  increasing sequence numbers above the last one seen it makes a queue without a gap, in which the
  received packets stand unchanged and in order and every other one is made up, and it counts those.
\<close>

theorem fill_restores_sequence:
  assumes "0 < rgNchan g" "rgQueue g \<noteq> []" "\<forall>p\<in>set (rgQueue g). frames_ok (rgIndex g) (rgNchan g) p"
    and "sorted_wrt (<) (map sn (rgQueue g))" "unat (lastSN g) < sn (hd (rgQueue g))"
  shows "\<exists>g' bytes frames. fillMissingPackets g = Inr (g', bytes, int (length (rgQueue g') - length (rgQueue g)), frames)
    \<and> map sn (rgQueue g') = [Suc (unat (lastSN g))..<Suc (sn (last (rgQueue g)))]
    \<and> filter (\<lambda>p. sn p \<in> sn ` set (rgQueue g)) (rgQueue g') = rgQueue g
    \<and> (\<forall>p\<in>set (rgQueue g'). frames_ok (rgIndex g) (rgNchan g) p)
    \<and> unat (lastSN g') = sn (last (rgQueue g))"
proof -
  let ?a = "\<lparr>fsExpect = lastSN g + 1, fsQueue = [], fsBytes = 0, fsPackets = 0, fsFrames = 0\<rparr>"
  have e: "unat (lastSN g + 1) = Suc (unat (lastSN g))"
    using assms(5) sn_less [of "hd (rgQueue g)"] by (simp add: unat_word_ariths)
  obtain a new where a: "foldM_go (fill_step (rgNchan g)) ?a (rgQueue g) = Inr a" "fsQueue a = new"
    "map sn new = [Suc (unat (lastSN g))..<Suc (sn (last (rgQueue g)))]"
    "filter (\<lambda>q. sn q \<in> sn ` set (rgQueue g)) new = rgQueue g"
    "\<forall>q\<in>set new. frames_ok (rgIndex g) (rgNchan g) q" "fsPackets a = int (length new) - int (length (rgQueue g))"
    using fill_run [OF assms(1-4), of ?a] assms(5) e by auto
  have len: "length (rgQueue g) \<le> length new" using a(4) by (metis length_filter_le)
  let ?g1 = "if fsPackets a > 0 then g\<lparr>rgQueue := new\<rparr> else g"
  have q1: "rgQueue ?g1 = new"
  proof (cases "fsPackets a > 0")
    case False
    then have "length (filter (\<lambda>q. sn q \<in> sn ` set (rgQueue g)) new) = length new" using a(4,6) len by simp
    from filter_full [OF this] have "filter (\<lambda>q. sn q \<in> sn ` set (rgQueue g)) new = new" .
    then show ?thesis using False a(4) by simp
  qed simp
  have "new \<noteq> []" using len assms(2) by auto
  then have "sn (last new) = last (map sn new)" by (simp add: last_map)
  also have "\<dots> = sn (last (rgQueue g))" unfolding a(3) using \<open>new \<noteq> []\<close> a(3) by (cases "Suc (unat (lastSN g)) < Suc (sn (last (rgQueue g)))") auto
  finally have l: "sn (last new) = sn (last (rgQueue g))" .
  have "fillMissingPackets g = Inr (?g1\<lparr>lastSN := sequenceNumber (last (rgQueue ?g1))\<rparr>, fsBytes a, fsPackets a, fsFrames a)"
    using assms(2) a(1,2) by (simp add: fillMissingPackets_def Let_def)
  then have "fillMissingPackets g = Inr (?g1\<lparr>lastSN := sequenceNumber (last new)\<rparr>, fsBytes a,
      int (length new - length (rgQueue g)), fsFrames a)"
    unfolding q1 using a(6) len by (simp add: of_nat_diff)
  then show ?thesis using a q1 l
    by (intro exI [of _ "?g1\<lparr>lastSN := sequenceNumber (last new)\<rparr>"] exI [of _ "fsBytes a"] exI [of _ "fsFrames a"]) auto
qed

text \<open>
  A packet left over from the tick before is counted a second time as one of the expected numbers: while every
  number is at most the one expected, nothing is filled.
\<close>

lemma fill_none:
  assumes "\<forall>i<length ps. sn (ps ! i) \<le> unat (fsExpect a) + i" "unat (fsExpect a) + length ps < 2 ^ 32"
  shows "foldM_go (fill_step n) a ps
    = Inr (a\<lparr>fsQueue := fsQueue a @ ps, fsExpect := fsExpect a + of_nat (length ps)\<rparr>)"
  using assms
proof (induction ps arbitrary: a)
  case (Cons p ps)
  let ?a = "a\<lparr>fsQueue := fsQueue a @ [p], fsExpect := fsExpect a + 1\<rparr>"
  have "sn p \<le> unat (fsExpect a)" using Cons.prems(1) by auto
  then have step: "fill_step n a p = Inr ?a" by (simp add: fill_step_def missing_before_def)
  have e: "unat (fsExpect ?a) = Suc (unat (fsExpect a))" using Cons.prems(2) by (simp add: unat_word_ariths)
  have "\<forall>i<length ps. sn (ps ! i) \<le> unat (fsExpect ?a) + i"
    using Cons.prems(1) e by (metis Suc_less_eq add_Suc add_Suc_right length_Cons nth_Cons_Suc)
  then show ?case using Cons.IH [of ?a] Cons.prems(2) e step by (simp add: add.assoc add.commute)
qed simp

text \<open>
  C33: packets left over in the queue hide later gaps: with \<open>k\<close> of them, all at or before the last number seen, a
  packet that comes after a gap of up to \<open>k\<close> lost packets is taken as the next one; nothing is filled or counted
  as dropped, and the queue keeps its gap.
\<close>

theorem leftover_hides_gap:
  assumes "rgQueue g = left @ [p]" "\<forall>q\<in>set left. sn q \<le> unat (lastSN g)"
    and "Suc (unat (lastSN g)) < sn p" "sn p \<le> Suc (unat (lastSN g)) + length left"
    and "unat (lastSN g) + length left + 2 < 2 ^ 32"
  shows "fillMissingPackets g = Inr (g\<lparr>lastSN := sequenceNumber p\<rparr>, 0, 0, 0)"
proof -
  let ?a = "\<lparr>fsExpect = lastSN g + 1, fsQueue = [], fsBytes = 0, fsPackets = 0, fsFrames = 0\<rparr>"
  have e: "unat (lastSN g + 1) = Suc (unat (lastSN g))" using assms(5) by (simp add: unat_word_ariths)
  have "\<forall>i<length (left @ [p]). sn ((left @ [p]) ! i) \<le> unat (fsExpect ?a) + i"
  proof (intro allI impI)
    fix i assume i: "i < length (left @ [p])"
    show "sn ((left @ [p]) ! i) \<le> unat (fsExpect ?a) + i"
    proof (cases "i < length left")
      case True
      then have "sn (left ! i) \<le> unat (lastSN g)" using assms(2) by simp
      then show ?thesis using True e by (simp add: nth_append)
    next
      case False
      then show ?thesis using i assms(4) e by (simp add: nth_append)
    qed
  qed
  moreover have "unat (fsExpect ?a) + length (left @ [p]) < 2 ^ 32" using assms(5) e by simp
  ultimately have "foldM_go (fill_step (rgNchan g)) ?a (rgQueue g)
      = Inr (?a\<lparr>fsQueue := fsQueue ?a @ rgQueue g, fsExpect := fsExpect ?a + of_nat (length (rgQueue g))\<rparr>)"
    unfolding assms(1) by (rule fill_none)
  then show ?thesis using assms(1) by (simp add: fillMissingPackets_def Let_def)
qed

subsection \<open>Channels\<close>

text \<open>The samples of channel \<open>c\<close> in a packet of \<open>n\<close> channels.\<close>

definition channel_samples :: "int \<Rightarrow> nat \<Rightarrow> Packet \<Rightarrow> raw list" where
  "channel_samples n c p = map (\<lambda>k. sample_of p (values_of p ! (c + k * nat n))) [0..<frames_of n p]"

lemma length_channel_samples [simp]: "length (channel_samples n c p) = frames_of n p"
  by (simp add: channel_samples_def)

lemma enumerated_upt: "enumerated (map f [0..<m]) = map (\<lambda>c. (int c, f c)) [0..<m]"
  by (simp add: enumerated_def upto_int zip_map_map zip_same_conv_map)

lemma demux_packet_samples:
  assumes "frames_ok index n p" "0 < n"
    and "\<And>c. c < nat n \<Longrightarrow> length (pre c) = pos \<and> frames_of n p \<le> length (free c)"
  shows "demux_packet n p (values_of p) (int pos) (map (\<lambda>c. pre c @ free c) [0..<nat n])
    = Inr (map (\<lambda>c. (pre c @ channel_samples n c p) @ drop (frames_of n p) (free c)) [0..<nat n])"
proof -
  let ?f = "frames_of n p" and ?d = "values_of p"
  have len: "length ?d = ?f * nat n" using assms(1) by (simp add: frames_ok_def)
  have pre: "length (pre c) = pos" and fits: "\<not> length (free c) < ?f" if "c < nat n" for c
    using assms(3) [OF that] by simp_all
  have read: "mapM_go (\<lambda>i. idx ?d (int c + i * n)) [0..int ?f - 1] = Inr (map (\<lambda>k. ?d ! (c + k * nat n)) [0..<?f])"
    if c: "c < nat n" for c
  proof -
    have "idx ?d (int c + int k * n) = Inr (?d ! (c + k * nat n))" if "k < ?f" for k
    proof -
      have "Suc k * nat n \<le> ?f * nat n" using that by (intro mult_le_mono1) simp
      then have "c + k * nat n < length ?d" using c len by simp
      moreover have "int c + int k * n = int (c + k * nat n)" using assms(2) by simp
      ultimately show ?thesis by (metis idx_of_nat)
    qed
    then show ?thesis unfolding upto_int
      by (intro trans [OF mapM_go_pure [where g = "\<lambda>i. ?d ! (c + nat i * nat n)"]]) (auto simp: comp_def)
  qed
  have "div_go (int (length ?d)) n = Inr (int ?f)" using assms(2) len by (simp add: div_go_def)
  moreover have "enumerated (map (\<lambda>c. pre c @ free c) [0..<nat n]) = map (\<lambda>c. (int c, pre c @ free c)) [0..<nat n]"
    by (rule enumerated_upt)
  ultimately show ?thesis unfolding demux_packet_def
    using read pre fits by (auto simp: mapM_go_map channel_samples_def comp_def nat_int_add intro!: mapM_go_pure)
qed

lemma demux_run:
  assumes "0 < n" "\<forall>p\<in>set used. frames_ok index n p" "rest \<noteq> [] \<longrightarrow> frames_ok index n (hd rest) \<and> 0 < frames_of n (hd rest)"
    and "\<And>c. c < nat n \<Longrightarrow> length (pre c) = pos \<and> length (free c) = sum_list (map (frames_of n) used)"
  shows "\<exists>b'. demux_loop index n \<lparr>dmFrames = int (sum_list (map (frames_of n) used)), dmPos = int pos,
        dmCopies = map (\<lambda>c. pre c @ free c) [0..<nat n], dmBytes = b\<rparr> (used @ rest)
    = Inr (\<lparr>dmFrames = 0, dmPos = int (pos + sum_list (map (frames_of n) used)),
        dmCopies = map (\<lambda>c. pre c @ concat (map (channel_samples n c) used)) [0..<nat n], dmBytes = b'\<rparr>, rest)"
  using assms(2,4)
proof (induction used arbitrary: pre free pos b)
  case Nil
  have "map (\<lambda>c. pre c @ free c) [0..<nat n] = map pre [0..<nat n]" using Nil.prems(2) by simp
  then show ?case using assms(3) by (cases rest) (simp_all add: frames_ok_def)
next
  case (Cons p ps)
  let ?f = "frames_of n p"
  have ok: "frames_ok index n p" using Cons.prems(1) by simp
  have len: "length (values_of p) = ?f * nat n" using ok by (simp add: frames_ok_def)
  have divs: "div_go (int (length (values_of p))) n = Inr (int ?f)" using assms(1) len by (simp add: div_go_def)
  have room: "length (pre c) = pos \<and> ?f \<le> length (free c)" if "c < nat n" for c using Cons.prems(2) [OF that] by simp
  have step: "demux_packet n p (values_of p) (int pos) (map (\<lambda>c. pre c @ free c) [0..<nat n])
    = Inr (map (\<lambda>c. (pre c @ channel_samples n c p) @ drop ?f (free c)) [0..<nat n])"
    by (rule demux_packet_samples [OF ok assms(1) room])
  obtain b' where b': "demux_loop index n \<lparr>dmFrames = int (sum_list (map (frames_of n) ps)), dmPos = int (pos + ?f),
        dmCopies = map (\<lambda>c. (pre c @ channel_samples n c p) @ drop ?f (free c)) [0..<nat n],
        dmBytes = b + value_bytes p * int (length (values_of p))\<rparr> (ps @ rest)
    = Inr (\<lparr>dmFrames = 0, dmPos = int (pos + ?f + sum_list (map (frames_of n) ps)),
        dmCopies = map (\<lambda>c. (pre c @ channel_samples n c p) @ concat (map (channel_samples n c) ps)) [0..<nat n],
        dmBytes = b'\<rparr>, rest)"
    using Cons.IH [of "\<lambda>c. pre c @ channel_samples n c p" "pos + ?f" "\<lambda>c. drop ?f (free c)"
        "b + value_bytes p * int (length (values_of p))"] Cons.prems
    by auto
  show ?case using ok step divs b' by (intro exI [of _ b']) (simp add: frames_ok_def add.assoc)
qed

text \<open>
  C34: when the packets at the head of the queue hold just the frames asked for, every channel of the group
  gets its samples of those packets, in order and nothing else, through its unwrapper; the queue
  keeps the packets after them.
\<close>

theorem demux_carries_channels:
  assumes "0 < rgNchan g" "rgQueue g = used @ rest" "\<forall>p\<in>set (used @ rest). frames_ok (rgIndex g) (rgNchan g) p"
    and "rest \<noteq> [] \<longrightarrow> 0 < frames_of (rgNchan g) (hd rest)" "length (rgUnwrap g) = nat (rgNchan g)"
    and "frames = sum_list (map (frames_of (rgNchan g)) used)"
    and "length dcs = nat (rgNchan g)" "\<forall>dc\<in>set dcs. length dc = frames"
  shows "\<exists>g' out bytes. demuxData g dcs (int frames) = Inr (g', out, bytes) \<and> rgQueue g' = rest
    \<and> map2 (\<lambda>u c. unwrap_channel (u, concat (map (channel_samples (rgNchan g) c) used))) (rgUnwrap g) [0..<nat (rgNchan g)]
      = zip (rgUnwrap g') out"
proof -
  let ?n = "rgNchan g" and ?out = "map (\<lambda>c. concat (map (channel_samples (rgNchan g) c) used)) [0..<nat (rgNchan g)]"
  have dcs: "map ((!) dcs) [0..<nat ?n] = dcs" using assms(7) by (intro nth_equalityI) simp_all
  have lens: "length ([] :: raw list) = 0 \<and> length (dcs ! c) = sum_list (map (frames_of ?n) used)" if "c < nat ?n" for c
    using that assms(6-8) by simp
  have after: "rest \<noteq> [] \<longrightarrow> frames_ok (rgIndex g) ?n (hd rest) \<and> 0 < frames_of ?n (hd rest)"
    using assms(3,4) by (cases rest) simp_all
  obtain b where run: "demux_loop (rgIndex g) ?n \<lparr>dmFrames = int frames, dmPos = 0, dmCopies = dcs, dmBytes = 0\<rparr> (used @ rest)
    = Inr (\<lparr>dmFrames = 0, dmPos = int frames, dmCopies = ?out, dmBytes = b\<rparr>, rest)"
    using demux_run [where pre = "\<lambda>_. []" and free = "(!) dcs" and pos = 0 and b = 0, OF assms(1) _ after lens]
      assms(3,6) dcs by auto
  let ?uds = "map unwrap_channel (zip (rgUnwrap g) ?out)"
  have "demuxData g dcs (int frames) = Inr (g\<lparr>rgQueue := rest, rgUnwrap := map fst ?uds\<rparr>, map snd ?uds, b)"
    unfolding demuxData_def assms(2) run by (simp add: assms(5) Let_def del: map_map)
  moreover have "map2 (\<lambda>u c. unwrap_channel (u, concat (map (channel_samples ?n c) used))) (rgUnwrap g) [0..<nat ?n] = ?uds"
    by (simp add: zip_map2 comp_def case_prod_unfold)
  ultimately show ?thesis by (simp add: zip_map_fst_snd del: map_map)
qed

subsection \<open>Blocks\<close>

text \<open>
  The source as a producer of blocks: one for each set of copies that the reader hands over.  It is
  ready when the trigger packets that wait can be read, which holds of an empty queue, and stays so.
\<close>

fun resonator_run :: "ResonatorSource \<Rightarrow> ResonatorBuffersType list \<Rightarrow> (ResonatorSource \<times> dataBlock list) go" where
  "resonator_run rs [] = Inr (rs, [])"
| "resonator_run rs (msg # msgs) = bind_go (resonator_distributeData rs msg) (\<lambda>(rs1, b).
     bind_go (resonator_run rs1 msgs) (\<lambda>(rs2, bs). Inr (rs2, b # bs)))"

definition resonator_next :: "ResonatorSource \<Rightarrow> ResonatorBuffersType \<Rightarrow> ResonatorSource \<times> dataBlock" where
  "resonator_next rs msg = (case resonator_distributeData rs msg of Inr r \<Rightarrow> r | Inl _ \<Rightarrow> (rs, sim_block []))"

definition triggers_readable :: "ResonatorSource \<Rightarrow> bool" where
  "triggers_readable rs = (case extractExternalTriggers rs of Inr _ \<Rightarrow> True | Inl _ \<Rightarrow> False)"

definition copies_fit :: "ResonatorSource \<Rightarrow> ResonatorBuffersType \<Rightarrow> bool" where
  "copies_fit rs msg \<longleftrightarrow> rbCopies msg \<noteq> [] \<and> length (rbCopies msg) = nat (nchan (rsSource rs))
     \<and> list_all (\<lambda>dc. length dc = length (rbCopies msg ! 0)) (rbCopies msg)"

lemma distributeData_ok:
  assumes "triggers_readable rs" "copies_fit rs msg"
  obtains rs1 b where "resonator_distributeData rs msg = Inr (rs1, b)" "resonator_next rs msg = (rs1, b)"
    "triggers_readable rs1" "nchan (rsSource rs1) = nchan (rsSource rs)"
    "map rawData (segments b) = rbCopies msg"
    "\<forall>seg\<in>set (segments b). firstFrameIndex seg = nextFrameNum (rsSource rs) \<and> framesPerSample seg = 1
       \<and> nextFrameNum (rsSource rs1) = nextFrameNum (rsSource rs) + int (length (rawData seg))"
proof -
  obtain ts where ts: "extractExternalTriggers rs = Inr (rs\<lparr>eTrigPackets := []\<rparr>, ts)"
    using assms(1) by (auto simp: triggers_readable_def extractExternalTriggers_def bind_go_def split: sum.splits)
  have c: "rbCopies msg \<noteq> []" "\<forall>dc\<in>set (rbCopies msg). length dc = length (rbCopies msg ! 0)"
    using assms(2) by (simp_all add: copies_fit_def list_all_iff)
  obtain rs1 b where r: "resonator_distributeData rs msg = Inr (rs1, b)"
    "rs1 = rs\<lparr>eTrigPackets := [], rsSource := (rsSource rs)\<lparr>nextFrameNum := nextFrameNum (rsSource rs)
       + int (length (rbCopies msg ! 0))\<rparr>\<rparr>"
    "map rawData (segments b) = rbCopies msg"
    "\<forall>seg\<in>set (segments b). firstFrameIndex seg = nextFrameNum (rsSource rs) \<and> framesPerSample seg = 1
       \<and> rawData seg \<in> set (rbCopies msg)"
    using ts c(1) by (simp add: resonator_distributeData_def Let_def comp_def idx_def)
  have "triggers_readable rs1" by (simp add: r(2) triggers_readable_def extractExternalTriggers_def)
  then show ?thesis using r c(2) by (intro that [of rs1 b]) (auto simp: resonator_next_def)
qed

interpretation resonator: block_producer resonator_next triggers_readable copies_fit
    "\<lambda>rs. nat (nchan (rsSource rs))" "\<lambda>rs. nextFrameNum (rsSource rs)"
proof unfold_locales
  fix rs and msg :: ResonatorBuffersType and seg
  assume "triggers_readable rs" "copies_fit rs msg"
  from distributeData_ok [OF this] obtain rs1 b where b: "resonator_next rs msg = (rs1, b)"
    "triggers_readable rs1" "nchan (rsSource rs1) = nchan (rsSource rs)" "map rawData (segments b) = rbCopies msg"
    "\<forall>seg\<in>set (segments b). firstFrameIndex seg = nextFrameNum (rsSource rs) \<and> framesPerSample seg = 1
       \<and> nextFrameNum (rsSource rs1) = nextFrameNum (rsSource rs) + int (length (rawData seg))" by metis
  show "triggers_readable (fst (resonator_next rs msg))" using b by simp
  show "copies_fit (fst (resonator_next rs msg)) msg'" if "copies_fit rs msg'" for msg'
    using that b by (simp add: copies_fit_def)
  show "nat (nchan (rsSource (fst (resonator_next rs msg)))) = nat (nchan (rsSource rs))" using b by simp
  show "length (segments (snd (resonator_next rs msg))) = nat (nchan (rsSource rs))"
    using b(1) arg_cong [OF b(4), of length] \<open>copies_fit rs msg\<close> by (simp add: copies_fit_def)
  show "firstFrameIndex seg = nextFrameNum (rsSource rs) \<and> framesPerSample seg = 1
      \<and> nextFrameNum (rsSource (fst (resonator_next rs msg))) = nextFrameNum (rsSource rs) + int (length (rawData seg))"
    if "seg \<in> set (segments (snd (resonator_next rs msg)))" using that b by auto
qed

lemma resonator_run_blocks:
  assumes "triggers_readable rs" "\<forall>msg\<in>set msgs. copies_fit rs msg"
  shows "resonator_run rs msgs = Inr (run_source resonator_next rs msgs)
    \<and> map (\<lambda>b. map rawData (segments b)) (snd (run_source resonator_next rs msgs)) = map rbCopies msgs"
  using assms
proof (induction msgs arbitrary: rs)
  case (Cons msg msgs)
  obtain rs1 b where b: "resonator_distributeData rs msg = Inr (rs1, b)" "resonator_next rs msg = (rs1, b)"
    "triggers_readable rs1" "nchan (rsSource rs1) = nchan (rsSource rs)" "map rawData (segments b) = rbCopies msg"
    using distributeData_ok [OF Cons.prems(1), of msg] Cons.prems(2) by (metis list.set_intros(1))
  have "\<forall>msg\<in>set msgs. copies_fit rs1 msg" using Cons.prems(2) b(4) by (simp add: copies_fit_def)
  then show ?case using Cons.IH [OF b(3)] b by (simp add: case_prod_beta)
qed simp

text \<open>
  C35: from a state in which the waiting trigger packets can be read, the blocks that the source makes of the
  reader's copies carry, in every channel, all the copied samples, numbered without a gap or overlap
  from the frame number of the source on.
\<close>

theorem resonator_blocks_gapless:
  assumes "triggers_readable rs" "\<forall>msg\<in>set msgs. copies_fit rs msg" "ch < nat (nchan (rsSource rs))"
  shows "\<exists>rs' bs. resonator_run rs msgs = Inr (rs', bs) \<and> gapless (nextFrameNum (rsSource rs)) (map (\<lambda>b. segments b ! ch) bs)
    \<and> map (\<lambda>b. rawData (segments b ! ch)) bs = map (\<lambda>msg. rbCopies msg ! ch) msgs"
proof -
  obtain rs' bs where r: "run_source resonator_next rs msgs = (rs', bs)" by fastforce
  have run: "resonator_run rs msgs = Inr (rs', bs)" "map (\<lambda>b. map rawData (segments b)) bs = map rbCopies msgs"
    using resonator_run_blocks [OF assms(1,2)] r by simp_all
  have "\<forall>b\<in>set bs. ch < length (segments b)" using resonator.run_good [OF assms(1,2)] r assms(3) by simp
  then have "map (\<lambda>b. rawData (segments b ! ch)) bs = map (\<lambda>xs. xs ! ch) (map (\<lambda>b. map rawData (segments b)) bs)" by simp
  also have "\<dots> = map (\<lambda>msg. rbCopies msg ! ch) msgs" unfolding run(2) by simp
  finally show ?thesis using run(1) resonator.run_gapless [OF assms] r by auto
qed

subsection \<open>Witnesses\<close>

text \<open>Packets of two channels with one frame of 16-bit values.\<close>

definition two_channels :: GroupIndex where "two_channels = \<lparr>Firstchan = 0, Nchan = 2\<rparr>"

definition demo_values :: "32 word \<Rightarrow> int list \<Rightarrow> Packet" where
  "demo_values s vs = (NewPacket 10 20 s 0)\<lparr>pktShape := Some \<lparr>Sizes = [2]\<rparr>, payloadLength := 4, Data := Some (Int16s vs),
     pktFormat := Some \<lparr>endian = Some LittleEndian, rawfmt = [], wordlen = 2, nvals = 1, dtype = []\<rparr>\<rparr>"

definition demo_rgroup :: "32 word \<Rightarrow> Packet list \<Rightarrow> ResonatorGroup" where
  "demo_rgroup seen ps = \<lparr>rgIndex = two_channels, rgNchan = 2, rgSampleRate = Fin 1000, rgUnwrap = [None, None], rgQueue = ps,
     rgLasttime = 0, seqnumsync = 0, lastSN = seen, TimestampCountsPerSubframe = 0,
     LastFirmwareTimestamp = \<lparr>tsT = 0, tsRate = Fin 0\<rparr>, LastSubframeCount = 0\<rparr>"

definition demo_resonator :: ResonatorSource where
  "demo_resonator = \<lparr>rsSource = demo_source\<lparr>nchan := 2\<rparr>, rsGroups = [(two_channels, demo_rgroup 0 [])],
     eTrigPackets = [], unwrapOpts = \<lparr>RescaleRaw = False, Unwrap = False, optBias = False, ResetAfter = 0, PulseSign = 1,
       InvertChan = []\<rparr>, udpHosts = []\<rparr>"

definition demo_copies :: "raw list list \<Rightarrow> ResonatorBuffersType" where
  "demo_copies dcs = \<lparr>rbCopies = dcs, rbLastTime = 0, rbTimeDiff = 0, rbTotalBytes = 0, rbDroppedBytes = 0, rbDroppedFrames = 0\<rparr>"

lemma demo_values_ok [simp]: "length vs = 2 \<Longrightarrow> frames_ok two_channels 2 (demo_values s vs)"
  "length vs = 2 \<Longrightarrow> frames_of 2 (demo_values s vs) = 1" "sequenceNumber (demo_values s vs) = s"
  by (simp_all add: frames_ok_def frames_of_def values_of_def packet_values_def demo_values_def gIndex_def ChannelInfo_def
      Frames_def two_channels_def div_go_def NewPacket_def)

lemma demo_rgroup_sel [simp]: "rgIndex (demo_rgroup n ps) = two_channels" "rgNchan (demo_rgroup n ps) = 2"
  "rgQueue (demo_rgroup n ps) = ps" "lastSN (demo_rgroup n ps) = n" "rgUnwrap (demo_rgroup n ps) = [None, None]"
  by (simp_all add: demo_rgroup_def)

theorem fill_restores_sequence_witness:
  "\<exists>g' bytes frames. fillMissingPackets (demo_rgroup 4 [demo_values 5 [1, 2], demo_values 8 [3, 4]]) = Inr (g', bytes, 2, frames)
    \<and> map sn (rgQueue g') = [5, 6, 7, 8]"
proof -
  let ?g = "demo_rgroup 4 [demo_values 5 [1, 2], demo_values 8 [3, 4]]"
  have u: "[Suc 4..<Suc 8] = [5, 6, 7, 8::nat]" by (simp add: upt_rec)
  obtain g' bytes frames where r: "fillMissingPackets ?g = Inr (g', bytes, int (length (rgQueue g') - length (rgQueue ?g)), frames)"
    "map sn (rgQueue g') = [Suc (unat (lastSN ?g))..<Suc (sn (last (rgQueue ?g)))]"
    using fill_restores_sequence [of ?g] by auto
  have m: "map sn (rgQueue g') = [5, 6, 7, 8]" using r(2) u by simp
  have "length (map sn (rgQueue g')) = 4" unfolding m by simp
  then have "length (rgQueue g') = 4" by simp
  then show ?thesis using r(1) m by simp
qed

theorem leftover_hides_gap_witness:
  "fillMissingPackets (demo_rgroup 4 [demo_values 3 [1, 2], demo_values 4 [3, 4], demo_values 7 [5, 6]])
    = Inr (demo_rgroup 7 [demo_values 3 [1, 2], demo_values 4 [3, 4], demo_values 7 [5, 6]], 0, 0, 0)"
  using leftover_hides_gap [of "demo_rgroup 4 [demo_values 3 [1, 2], demo_values 4 [3, 4], demo_values 7 [5, 6]]"
      "[demo_values 3 [1, 2], demo_values 4 [3, 4]]" "demo_values 7 [5, 6]"]
  by (simp add: demo_rgroup_def)

theorem demux_carries_channels_witness:
  "\<exists>g' out bytes. demuxData (demo_rgroup 0 [demo_values 1 [1, 2], demo_values 2 [3, -1], demo_values 3 [5, 6]]) [[0, 0], [0, 0]] 2
      = Inr (g', out, bytes) \<and> rgQueue g' = [demo_values 3 [5, 6]] \<and> zip (rgUnwrap g') out = [(None, [1, 3]), (None, [2, 65535])]"
proof -
  have u: "[0..<2] = [0, 1::nat]" by (simp add: upt_rec)
  have "channel_samples 2 c (demo_values s vs) = [word_of_int (vs ! c)]" if "length vs = 2" for c s vs
    using that by (simp add: channel_samples_def sample_of_def) (simp add: demo_values_def values_of_def packet_values_def)
  then have c: "map2 (\<lambda>u c. unwrap_channel (u, concat (map (channel_samples 2 c) [demo_values 1 [1, 2], demo_values 2 [3, -1]])))
      [None, None] [0..<2] = [(None, [1, 3]), (None, [2, 65535])]" by (simp add: unwrap_channel_def u)
  let ?used = "[demo_values 1 [1, 2], demo_values 2 [3, -1]]" and ?rest = "[demo_values 3 [5, 6]]"
  have "\<exists>g' out bytes. demuxData (demo_rgroup 0 (?used @ ?rest)) [[0, 0], [0, 0]] (int 2) = Inr (g', out, bytes) \<and> rgQueue g' = ?rest
    \<and> map2 (\<lambda>u c. unwrap_channel (u, concat (map (channel_samples (rgNchan (demo_rgroup 0 (?used @ ?rest))) c) ?used)))
        (rgUnwrap (demo_rgroup 0 (?used @ ?rest))) [0..<nat (rgNchan (demo_rgroup 0 (?used @ ?rest)))] = zip (rgUnwrap g') out"
    by (rule demux_carries_channels) simp_all
  then show ?thesis using c by auto
qed

theorem resonator_blocks_gapless_witness:
  "\<exists>rs' bs. resonator_run demo_resonator [demo_copies [[1, 2], [3, 4]], demo_copies [[5], [6]]] = Inr (rs', bs)
    \<and> gapless 0 (map (\<lambda>b. segments b ! 1) bs) \<and> map (\<lambda>b. rawData (segments b ! 1)) bs = [[3, 4], [6]]"
  using resonator_blocks_gapless [of demo_resonator "[demo_copies [[1, 2], [3, 4]], demo_copies [[5], [6]]]" 1]
  by (simp add: triggers_readable_def extractExternalTriggers_def copies_fit_def demo_copies_def demo_resonator_def demo_source_def)

end
