(* ===== verification/Roach.thy ===== *)
theory Roach
  imports Resonator
begin

text \<open>
  The source of ROACH boards (\<open>roach.go\<close>): the packets and their parser, the devices, the bundling of packets
  into blocks, and the source that hands on the blocks of its devices.  What the sockets and the clock
  give is an argument.
\<close>

subsection \<open>Packets\<close>

record packetHeader =
  rhUnused :: u8
  rhFluxramp :: u8
  rhNchan :: "16 word"
  rhNsamp :: "16 word"
  rhFlags :: "16 word"
  rhSampnum :: "64 word"

definition be_at :: "nat \<Rightarrow> nat \<Rightarrow> u8 list \<Rightarrow> int" where
  "be_at k n bs = of_be (take n (drop k bs))"

text \<open>\<open>binary.Read\<close> of a structure of 16 bytes, and of \<open>n\<close> words of two bytes.\<close>

definition read_header :: "u8 list \<Rightarrow> packetHeader go" where
  "read_header p =
     (if length p < 16 then Inl (ExplicitPanic ''binary.Read failed'')
      else Inr \<lparr>rhUnused = p ! 0, rhFluxramp = p ! 1, rhNchan = word_of_int (be_at 2 2 p), rhNsamp = word_of_int (be_at 4 2 p),
        rhFlags = word_of_int (be_at 6 2 p), rhSampnum = word_of_int (be_at 8 8 p)\<rparr>)"

definition read_words :: "nat \<Rightarrow> u8 list \<Rightarrow> raw list go" where
  "read_words n bs =
     (if length bs < 2 * n then Inl (ExplicitPanic ''binary.Read failed'')
      else Inr (map (\<lambda>i. word_of_int (be_at (2 * i) 2 bs)) [0..<n]))"

text \<open>The numbers of values are products of 16-bit words, and wrap.\<close>

definition parsePacket :: "u8 list \<Rightarrow> (packetHeader \<times> raw list) go" where
  "parsePacket p = bind_go (read_header p) (\<lambda>h.
     let n = unat (rhNchan h * rhNsamp h); wordLen = 2 ^ unat (rhFlags h AND 3) in
     if wordLen = (2 :: int) then bind_go (read_words n (drop 16 p)) (\<lambda>data. Inr (h, data))
     else if wordLen = 4 then
       bind_go (read_words (unat (rhNchan h * rhNsamp h * 2)) (drop 16 p)) (\<lambda>data4.
       bind_go (mapM_go (\<lambda>i. idx data4 (2 * int i)) [0..<n]) (\<lambda>data. Inr (h, data)))
     else Inl (ExplicitPanic ''wordLen not implemented''))"

subsection \<open>Devices\<close>

record RoachDevice =
  rdHost :: string
  rdRate :: go_float
  rdPeriod :: go_duration
  rdNchan :: int
  nextS :: frame_index
  rdUnwrapOpts :: ResonatorUnwrapOptions
  rdUnwrap :: "PhaseUnwrapper list"

definition roachFractionBits :: nat where "roachFractionBits = 14"
definition roachBitsToDrop :: nat where "roachBitsToDrop = 2"

definition no_unwrap_options :: ResonatorUnwrapOptions where
  "no_unwrap_options = \<lparr>RescaleRaw = False, Unwrap = False, optBias = False, ResetAfter = 0, PulseSign = 0, InvertChan = []\<rparr>"

text \<open>
  The connection is used before the error of opening it is looked at: when the port cannot be opened it is
  nil.
\<close>

definition NewRoachDevice ::
  "(string \<Rightarrow> bool) \<Rightarrow> (string \<Rightarrow> bool) \<Rightarrow> string \<Rightarrow> go_float \<Rightarrow> RoachDevice option go" where
  "NewRoachDevice resolves listens host rate =
     (if \<not> resolves host then Inr None
      else if \<not> listens host then Inl NilDereference
      else Inr (Some \<lparr>rdHost = host, rdRate = rate, rdPeriod = int_of_f64 (fdiv r64 (Fin 1000000000) rate), rdNchan = 0,
        nextS = 0, rdUnwrapOpts = no_unwrap_options, rdUnwrap = []\<rparr>))"

text \<open>A datagram in its buffer of 16384 bytes; the count of bytes that were read is not used.\<close>

definition packetMaxSize :: nat where "packetMaxSize = 16384"

definition datagram :: "u8 list \<Rightarrow> u8 list" where
  "datagram bs = take packetMaxSize (bs @ replicate packetMaxSize 0)"

datatype sample_attempt = NoDeadline | ReadError | Datagram "u8 list"

definition samplePacket :: "RoachDevice \<Rightarrow> sample_attempt \<Rightarrow> (RoachDevice \<times> bool) go" where
  "samplePacket dev got =
     (if got = NoDeadline then Inr (dev, False)
      else bind_go (parsePacket (datagram (case got of Datagram bs \<Rightarrow> bs | _ \<Rightarrow> []))) (\<lambda>(h, _).
        let opts = rdUnwrapOpts dev in
        bind_go (mapM_go (\<lambda>_. NewPhaseUnwrapper roachFractionBits roachBitsToDrop True (calcBiasLevel opts) 20000
          (PulseSign opts) False) [0..<unat (rhNchan h)]) (\<lambda>us.
        Inr (dev\<lparr>nextS := uint (rhNsamp h) + sint (rhSampnum h), rdNchan := uint (rhNchan h), rdUnwrap := us\<rparr>,
             got \<noteq> ReadError))))"

subsection \<open>Bundles of packets\<close>

definition take_packet :: "RoachDevice \<Rightarrow> u8 list \<Rightarrow> (packetHeader \<times> raw list \<times> int) go" where
  "take_packet dev p = bind_go (parsePacket p) (\<lambda>(h, data).
     bind_go (div_go (int (length data)) (rdNchan dev)) (\<lambda>ns. Inr (h, data, ns)))"

text \<open>The values of channel \<open>c\<close> in one packet, written at the place where the ones before end.\<close>

definition place_values :: "int \<Rightarrow> int \<Rightarrow> raw list \<times> int \<Rightarrow> raw list \<times> int \<Rightarrow> (raw list \<times> int) go" where
  "place_values n c = (\<lambda>(raw, pos) (data, ns).
     bind_go (mapM_go (\<lambda>j. idx data (c + n * j)) [0..ns - 1]) (\<lambda>vs.
       if ns > 0 \<and> pos + ns > int (length raw) then Inl IndexOutOfRange
       else Inr (take (nat pos) raw @ vs @ drop (nat (pos + ns)) raw, pos + ns)))"

definition roach_channel ::
  "RoachDevice \<Rightarrow> int \<Rightarrow> (raw list \<times> int) list \<Rightarrow> int \<Rightarrow> (PhaseUnwrapper \<times> raw list) go" where
  "roach_channel dev nall ds c =
     bind_go (foldM_go (place_values (rdNchan dev) c) (replicate (nat nall) 0, 0) ds) (\<lambda>(raw, _).
     bind_go (idx (rdUnwrap dev) c) (\<lambda>u. Inr (UnwrapInPlace u raw)))"

definition process_bundle :: "RoachDevice \<Rightarrow> u8 list list \<Rightarrow> go_time \<Rightarrow> (RoachDevice \<times> dataBlock) go" where
  "process_bundle dev ps readTime = bind_go (mapM_go (take_packet dev) ps) (\<lambda>hs.
     let nall = sum_list (map (\<lambda>(h, _, _). uint (rhNsamp h)) hs);
         first = sint (rhSampnum (fst (hd hs)));
         start = readTime - (nall - 1) * rdPeriod dev in
     bind_go (mapM_go (roach_channel dev nall (map snd hs)) [0..rdNchan dev - 1]) (\<lambda>us.
       Inr (dev\<lparr>nextS := first + nall, rdUnwrap := map fst us @ drop (length us) (rdUnwrap dev)\<rparr>,
            \<lparr>segments = map (\<lambda>(_, raw). \<lparr>rawData = raw, signedData = True, framesPerSample = 1, firstFrameIndex = first,
               firstTime = start, framePeriod = rdPeriod dev, voltsPerArb = Fin 0, processed = False, droppedFrames = 0\<rparr>) us,
             externalTriggerRowcounts = [], blockNSamp = nall,
             blockErr = list_ex (\<lambda>(h, _, _). rdNchan dev \<noteq> uint (rhNchan h)) hs\<rparr>)))"

text \<open>
  One round of the reader: the packets that come before the deadline, how the reading ends, and the time
  after it.  The result tells whether the reader goes on.
\<close>

datatype bundle_end = BundleTimeout | BundleFailed

record packet_bundle =
  buDeadline :: bool
  buPackets :: "u8 list list"
  buEnd :: bundle_end
  buReadTime :: go_time
  buNow :: go_time

definition packetKeepaliveTime :: go_duration where "packetKeepaliveTime = 2000000000"

definition roach_error_block :: dataBlock where
  "roach_error_block = \<lparr>segments = [], externalTriggerRowcounts = [], blockNSamp = 0, blockErr = True\<rparr>"

definition roach_read :: "RoachDevice \<times> go_time \<Rightarrow> packet_bundle \<Rightarrow> ((RoachDevice \<times> go_time) \<times> dataBlock option \<times> bool) go" where
  "roach_read = (\<lambda>(dev, keepAlive) b.
     if \<not> buDeadline b \<or> buEnd b = BundleFailed then Inr ((dev, keepAlive), Some roach_error_block, False)
     else if buPackets b = []
       then if buNow b > keepAlive then Inr ((dev, keepAlive), Some roach_error_block, False)
            else Inr ((dev, keepAlive), None, True)
     else bind_go (process_bundle dev (map datagram (buPackets b)) (buReadTime b)) (\<lambda>(dev1, block).
       Inr ((dev1, buNow b + packetKeepaliveTime), Some block, \<not> blockErr block)))"

subsection \<open>The source\<close>

datatype roach_error =
    RoachNotInactive | RoachOptions resonator_error | RoachCounts int int | RoachAddress string
  | RoachPeriods go_duration go_duration | RoachRates go_float go_float | NoRoach | SampleFailed

record RoachSource =
  roSource :: AnySource
  roActive :: "RoachDevice list"

record RoachSourceConfig =
  roHostPort :: "string list"
  roRates :: "go_float list"
  roUnwrapOptions :: ResonatorUnwrapOptions

fun open_devices ::
  "(string \<Rightarrow> bool) \<Rightarrow> (string \<Rightarrow> bool) \<Rightarrow> ResonatorUnwrapOptions \<Rightarrow> (string \<times> go_float) list
   \<Rightarrow> (RoachDevice list \<times> roach_error option) go" where
  "open_devices resolves listens opts [] = Inr ([], None)"
| "open_devices resolves listens opts ((host, rate) # hrs) = bind_go (NewRoachDevice resolves listens host rate) (\<lambda>d. case d of
     None \<Rightarrow> Inr ([], Some (RoachAddress host))
   | Some dev \<Rightarrow> bind_go (open_devices resolves listens opts hrs) (\<lambda>(devs, err). Inr (dev\<lparr>rdUnwrapOpts := opts\<rparr> # devs, err)))"

fun compare_rates :: "go_duration \<Rightarrow> go_float \<Rightarrow> RoachDevice list \<Rightarrow> roach_error option" where
  "compare_rates period rate [] = None"
| "compare_rates period rate (dev # devs) =
     (if period \<noteq> rdPeriod dev then Some (RoachPeriods (rdPeriod dev) period)
      else if \<not> feq rate (rdRate dev) then Some (RoachRates (rdRate dev) rate)
      else compare_rates period rate devs)"

definition roach_Configure ::
  "(string \<Rightarrow> bool) \<Rightarrow> (string \<Rightarrow> bool) \<Rightarrow> RoachSource \<Rightarrow> RoachSourceConfig \<Rightarrow> (RoachSource \<times> roach_error option) go" where
  "roach_Configure resolves listens rs config =
     (if sourceState (roSource rs) \<noteq> Inactive then Inr (rs, Some RoachNotInactive)
      else case unwrap_isvalid (roUnwrapOptions config) of
        Some err \<Rightarrow> Inr (rs, Some (RoachOptions err))
      | None \<Rightarrow>
          if length (roHostPort config) \<noteq> length (roRates config)
          then Inr (rs, Some (RoachCounts (int (length (roHostPort config))) (int (length (roRates config)))))
          else bind_go (open_devices resolves listens (roUnwrapOptions config) (zip (roHostPort config) (roRates config)))
            (\<lambda>(devs, err).
              let rs1 = rs\<lparr>roActive := devs\<rparr> in
              if err \<noteq> None then Inr (rs1, err)
              else case devs of [] \<Rightarrow> Inr (rs1, None)
              | dev # rest \<Rightarrow>
                  Inr (rs1\<lparr>roSource := (roSource rs)\<lparr>samplePeriod := rdPeriod dev, srcSampleRate := rdRate dev\<rparr>\<rparr>,
                    compare_rates (rdPeriod dev) (rdRate dev) rest)))"

text \<open>Sampling stops at the first device that fails; it has been changed all the same.\<close>

fun sample_devices ::
  "RoachDevice list \<Rightarrow> sample_attempt list \<Rightarrow> int \<Rightarrow> (RoachDevice list \<times> int \<times> bool) go" where
  "sample_devices (dev # devs) (got # gots) n = bind_go (samplePacket dev got) (\<lambda>(dev1, ok).
     if ok then bind_go (sample_devices devs gots (n + rdNchan dev1)) (\<lambda>(devs1, r). Inr (dev1 # devs1, r))
     else Inr (dev1 # devs, n, False))"
| "sample_devices devs gots n = Inr (devs, n, True)"

definition roach_Sample :: "RoachSource \<Rightarrow> sample_attempt list \<Rightarrow> (RoachSource \<times> roach_error option) go" where
  "roach_Sample rs gots =
     (if roActive rs = [] then Inr (rs, Some NoRoach)
      else bind_go (sample_devices (roActive rs) gots 0) (\<lambda>(devs, n, ok).
        Inr (rs\<lparr>roActive := devs, roSource := (roSource rs)\<lparr>nchan := n\<rparr>\<rparr>, if ok then None else Some SampleFailed)))"

definition roach_PrepareChannels :: "RoachSource \<Rightarrow> RoachSource" where
  "roach_PrepareChannels rs =
     (let src = roSource rs; n = nchan src in
      rs\<lparr>roSource := src\<lparr>channelsPerPixel := 1, subframeOffsets := replicate (nat n) 0,
        chanNames := map (\<lambda>c. ''chan'' @ fmt_d c) [0..n - 1], chanNumbers := [0..n - 1],
        rowColCodes := map (\<lambda>row. rcCode row 0 n 1) [0..n - 1],
        groupKeysSorted := [\<lparr>Firstchan = 0, Nchan = n\<rparr>]\<rparr>\<rparr>)"

definition roach_Delete :: "RoachSource \<Rightarrow> RoachSource" where
  "roach_Delete rs = rs\<lparr>roActive := []\<rparr>"

text \<open>
  While the source runs, each block of a device is handed on as it is.  \<open>i\<close> is the device that delivers next;
  \<open>alive\<close> holds the time up to which each device is taken to live, \<open>None\<close> when its reader has ended.
\<close>

definition roach_forward ::
  "RoachSource \<times> go_time option list \<Rightarrow> nat \<times> packet_bundle \<Rightarrow> ((RoachSource \<times> go_time option list) \<times> dataBlock option) go" where
  "roach_forward = (\<lambda>(rs, alive) (i, b).
     bind_go (idx (roActive rs) (int i)) (\<lambda>dev. bind_go (idx alive (int i)) (\<lambda>t. case t of
       None \<Rightarrow> Inr ((rs, alive), None)
     | Some keepAlive \<Rightarrow> bind_go (roach_read (dev, keepAlive) b) (\<lambda>((dev1, t1), block, more).
         Inr ((rs\<lparr>roActive := (roActive rs)[i := dev1]\<rparr>, alive[i := (if more then Some t1 else None)]), block)))))"

end
