(* ===== verification/RoachLaws.thy ===== *)
theory RoachLaws
  imports Roach PacketLaws SourceLaws
begin

text \<open>
  Laws of the ROACH source: packets are read as the boards write them, a block carries the samples of each
  channel through the channel's unwrapper, and what goes wrong: packets of more channels than expected,
  and more than one board.
\<close>

subsection \<open>The format of the packets\<close>

definition header_wire :: "packetHeader \<Rightarrow> u8 list" where
  "header_wire h = [rhUnused h, rhFluxramp h] @ be_bytes 2 (uint (rhNchan h)) @ be_bytes 2 (uint (rhNsamp h))
     @ be_bytes 2 (uint (rhFlags h)) @ be_bytes 8 (uint (rhSampnum h))"

definition wire16 :: "packetHeader \<Rightarrow> raw list \<Rightarrow> u8 list" where
  "wire16 h data = header_wire h @ concat (map (\<lambda>v. be_bytes 2 (uint v)) data)"

text \<open>Words of four bytes; the lower two are the second components.\<close>

definition wire32 :: "packetHeader \<Rightarrow> raw list \<Rightarrow> raw list \<Rightarrow> u8 list" where
  "wire32 h data lows = header_wire h
     @ concat (map (\<lambda>(v, low). be_bytes 2 (uint v) @ be_bytes 2 (uint low)) (zip data lows))"

definition wire :: "packetHeader \<Rightarrow> raw list \<Rightarrow> raw list \<Rightarrow> u8 list" where
  "wire h data lows = (if rhFlags h AND 3 = 1 then wire16 h data else wire32 h data lows)"

lemma length_header_wire [simp]: "length (header_wire h) = 16"
  by (simp add: header_wire_def)

lemma read_header_wire: "read_header (header_wire h @ r) = Inr h"
proof -
  have small: "uint (w :: 16 word) mod 256 ^ 2 = uint w" "uint (v :: 64 word) mod 256 ^ 8 = uint v" for w v
    using uint_lt2p [of w] uint_lt2p [of v] by (simp_all add: mod_pos_pos_trivial)
  have parts: "be_at 2 2 (header_wire h @ r) = uint (rhNchan h)" "be_at 4 2 (header_wire h @ r) = uint (rhNsamp h)"
    "be_at 6 2 (header_wire h @ r) = uint (rhFlags h)" "be_at 8 8 (header_wire h @ r) = uint (rhSampnum h)"
    by (simp_all add: be_at_def header_wire_def small)
  have "(header_wire h @ r) ! 0 = rhUnused h" "(header_wire h @ r) ! 1 = rhFluxramp h" by (simp_all add: header_wire_def)
  then show ?thesis by (simp add: read_header_def parts)
qed

lemma drop_chunks:
  assumes "\<And>x. length (f x) = k" "i < length xs"
  shows "take k (drop (k * i) (concat (map f xs) @ r)) = f (xs ! i)"
  using assms(2)
proof (induction xs arbitrary: i)
  case (Cons x xs)
  then show ?case using assms(1) by (cases i) simp_all
qed simp

lemma length_chunks: "(\<And>x. length (f x) = k) \<Longrightarrow> length (concat (map f xs)) = k * length xs"
  by (induction xs) simp_all

lemma read_words_chunks:
  assumes "n \<le> length xs"
  shows "read_words n (concat (map (\<lambda>v. be_bytes 2 (uint v)) xs) @ r) = Inr (take n (xs :: raw list))"
proof -
  have small: "uint (w :: 16 word) mod 256 ^ 2 = uint w" for w
    using uint_lt2p [of w] by (simp add: mod_pos_pos_trivial)
  have "be_at (2 * i) 2 (concat (map (\<lambda>v. be_bytes 2 (uint v)) xs) @ r) = uint (xs ! i)" if "i < length xs" for i
    unfolding be_at_def using drop_chunks [of "\<lambda>v. be_bytes 2 (uint v)" 2 i xs r] that by (simp add: small)
  moreover have "length (concat (map (\<lambda>v. be_bytes 2 (uint v)) xs)) = 2 * length xs" by (rule length_chunks) simp
  ultimately show ?thesis using assms by (auto simp: read_words_def intro!: nth_equalityI)
qed

lemma datagram_short: "length bs \<le> packetMaxSize \<Longrightarrow> datagram bs = bs @ replicate (packetMaxSize - length bs) 0"
  by (simp add: datagram_def)

lemma product_small:
  assumes "k = unat (a :: 16 word) * unat (b :: 16 word)" "k < 2 ^ 16"
  shows "unat (a * b) = k"
  using assms by (simp add: unat_word_ariths)

lemma parse_wire16:
  assumes "length data = unat (rhNchan h) * unat (rhNsamp h)" "rhFlags h AND 3 = 1" "length (wire16 h data) \<le> packetMaxSize"
  shows "parsePacket (datagram (wire16 h data)) = Inr (h, data)"
proof -
  have "length (concat (map (\<lambda>v. be_bytes 2 (uint v)) data)) = 2 * length data" by (rule length_chunks) simp
  then have n: "unat (rhNchan h * rhNsamp h) = length data"
    using assms(3) by (intro product_small [OF assms(1)]) (simp add: wire16_def packetMaxSize_def)
  obtain r where r: "datagram (wire16 h data) = header_wire h @ concat (map (\<lambda>v. be_bytes 2 (uint v)) data) @ r"
    unfolding datagram_short [OF assms(3)] by (simp add: wire16_def)
  show ?thesis unfolding r using assms(2) n by (simp add: parsePacket_def read_header_wire read_words_chunks Let_def)
qed

definition halves :: "raw list \<Rightarrow> raw list \<Rightarrow> raw list" where
  "halves data lows = concat (map (\<lambda>(v, low). [v, low]) (zip data lows))"

lemma halves: "length lows = length data \<Longrightarrow> length (halves data lows) = 2 * length data"
  "length lows = length data \<Longrightarrow> i < length data \<Longrightarrow> halves data lows ! (2 * i) = data ! i"
  "concat (map (\<lambda>(v, low). be_bytes 2 (uint v) @ be_bytes 2 (uint low)) (zip data lows))
    = concat (map (\<lambda>v. be_bytes 2 (uint v)) (halves data lows))"
proof -
  show "length (halves data lows) = 2 * length data" if "length lows = length data"
    unfolding halves_def using that by (subst length_chunks [where k = 2]) auto
  show "concat (map (\<lambda>(v, low). be_bytes 2 (uint v) @ be_bytes 2 (uint low)) (zip data lows))
    = concat (map (\<lambda>v. be_bytes 2 (uint v)) (halves data lows))"
    unfolding halves_def by (induction data lows rule: list_induct2') simp_all
  show "halves data lows ! (2 * i) = data ! i" if "length lows = length data" "i < length data"
    unfolding halves_def using that
  proof (induction data arbitrary: lows i)
    case (Cons v vs)
    then show ?case by (cases lows; cases i) simp_all
  qed simp
qed

lemma parse_wire32:
  assumes "length data = unat (rhNchan h) * unat (rhNsamp h)" "rhFlags h AND 3 = 2" "length lows = length data"
    and "length (wire32 h data lows) \<le> packetMaxSize"
  shows "parsePacket (datagram (wire32 h data lows)) = Inr (h, data)"
proof -
  let ?all = "halves data lows"
  have la: "length ?all = 2 * length data" using assms(3) by (rule halves(1))
  have lb: "length (concat (map (\<lambda>v. be_bytes 2 (uint v)) ?all)) = 2 * length ?all" by (rule length_chunks) simp
  have l: "4 * length data < 2 ^ 16" using assms(4) lb la by (simp add: wire32_def packetMaxSize_def halves(3))
  then have n: "unat (rhNchan h * rhNsamp h) = length data" by (intro product_small [OF assms(1)]) simp
  then have n2: "unat (rhNchan h * rhNsamp h * 2) = 2 * length data" using l by (simp add: unat_word_ariths)
  obtain r where r: "datagram (wire32 h data lows) = header_wire h @ concat (map (\<lambda>v. be_bytes 2 (uint v)) ?all) @ r"
    unfolding datagram_short [OF assms(4)] by (simp add: wire32_def halves(3))
  have "mapM_go (\<lambda>i. idx ?all (2 * int i)) [0..<length data] = Inr (map ((!) data) [0..<length data])"
  proof (rule mapM_go_pure)
    fix i assume "i \<in> set [0..<length data]"
    then have "i < length data" by simp
    then show "idx ?all (2 * int i) = Inr (data ! i)"
      using idx_of_nat [of "2 * i" ?all] la halves(2) [OF assms(3)] by simp
  qed
  then show ?thesis unfolding r using assms(2) n n2 la
    by (simp add: parsePacket_def read_header_wire read_words_chunks Let_def map_nth)
qed

text \<open>
  C36: a packet of a board, with a 16-bit or a 32-bit word for each sample of each channel, that fits
  the buffer is read back: header and samples are those of the board, of 32-bit words the upper halves.
\<close>

theorem roach_packet_round_trip:
  assumes "length data = unat (rhNchan h) * unat (rhNsamp h)" "length lows = length data"
    and "rhFlags h AND 3 = 1 \<or> rhFlags h AND 3 = 2" "length (wire h data lows) \<le> packetMaxSize"
  shows "parsePacket (datagram (wire h data lows)) = Inr (h, data)"
  using assms parse_wire16 [OF assms(1)] parse_wire32 [OF assms(1)] by (auto simp: wire_def)

subsection \<open>Blocks\<close>

text \<open>The samples of channel \<open>c\<close> of \<open>n\<close> in the values of one packet with \<open>ns\<close> samples per channel.\<close>

definition strided :: "int \<Rightarrow> nat \<Rightarrow> raw list \<times> int \<Rightarrow> raw list" where
  "strided n c = (\<lambda>(data, ns). map (\<lambda>j. data ! (c + j * nat n)) [0..<nat ns])"

lemma length_strided [simp]: "length (strided n c (data, ns)) = nat ns"
  by (simp add: strided_def)

lemma place_step:
  assumes "c < nat n" "0 \<le> ns" "n * ns \<le> int (length data)" "pos \<le> length raw"
  shows "place_values n (int c) (raw, int pos) (data, ns)
    = (if pos + nat ns \<le> length raw
       then Inr (take pos raw @ strided n c (data, ns) @ drop (pos + nat ns) raw, int (pos + nat ns))
       else Inl IndexOutOfRange)"
proof -
  have n: "0 < n" "n = int (nat n)" using assms(1) by simp_all
  obtain k where k: "ns = int k" using assms(2) nonneg_int_cases by blast
  have "nat n * k \<le> length data" using assms(3) n(2) k by (metis of_nat_le_iff of_nat_mult)
  have get: "idx data (int c + n * int j) = Inr (data ! (c + j * nat n))" if "j < k" for j
  proof -
    have "Suc j * nat n \<le> k * nat n" using that by (intro mult_le_mono1) simp
    then have "c + j * nat n < length data" using assms(1) \<open>nat n * k \<le> length data\<close> by (simp add: mult.commute)
    moreover have "int c + n * int j = int (c + j * nat n)" using n by simp
    ultimately show ?thesis by (metis idx_of_nat)
  qed
  have "mapM_go (\<lambda>j. idx data (int c + n * j)) [0..ns - 1] = Inr (strided n c (data, ns))"
    unfolding k upto_int strided_def using get
    by (intro trans [OF mapM_go_pure [where g = "\<lambda>j. data ! (c + nat j * nat n)"]]) (auto simp: comp_def)
  then show ?thesis using assms(4) k by (auto simp: place_values_def nat_int_add)
qed

lemma place_run:
  assumes "c < nat n" "\<forall>(data, ns)\<in>set ds. 0 \<le> ns \<and> n * ns \<le> int (length data)" "pos \<le> length raw"
  shows "foldM_go (place_values n (int c)) (raw, int pos) ds
    = (if pos + sum_list (map (nat \<circ> snd) ds) \<le> length raw
       then Inr (take pos raw @ concat (map (strided n c) ds) @ drop (pos + sum_list (map (nat \<circ> snd) ds)) raw,
                 int (pos + sum_list (map (nat \<circ> snd) ds)))
       else Inl IndexOutOfRange)"
  using assms(2,3)
proof (induction ds arbitrary: raw pos)
  case (Cons d ds)
  obtain data ns where d: "d = (data, ns)" by fastforce
  have step: "place_values n (int c) (raw, int pos) d
    = (if pos + nat ns \<le> length raw
       then Inr (take pos raw @ strided n c d @ drop (pos + nat ns) raw, int (pos + nat ns)) else Inl IndexOutOfRange)"
    unfolding d using Cons.prems d by (intro place_step [OF assms(1)]) auto
  show ?case
  proof (cases "pos + nat ns \<le> length raw")
    case True
    let ?raw = "take pos raw @ strided n c d @ drop (pos + nat ns) raw"
    have l: "length ?raw = length raw" using True d by simp
    have parts: "take (pos + nat ns) ?raw = take pos raw @ strided n c d"
      "drop (pos + nat ns + k) ?raw = drop (pos + nat ns + k) raw" for k
      using True d by (simp_all add: ac_simps)
    show ?thesis using Cons.IH [of "pos + nat ns" ?raw] Cons.prems True step d
      unfolding l parts by (simp add: add.assoc)
  next
    case False
    then show ?thesis using step d by simp
  qed
qed simp

text \<open>The packets of a bundle as they were read; \<open>pieces\<close> are their values with the number of samples they hold.\<close>

definition announced :: "(packetHeader \<times> raw list) list \<Rightarrow> int" where
  "announced hds = sum_list (map (\<lambda>(h, _). uint (rhNsamp h)) hds)"

definition pieces :: "int \<Rightarrow> (packetHeader \<times> raw list) list \<Rightarrow> (raw list \<times> int) list" where
  "pieces n hds = map (\<lambda>(_, data). (data, int (length data) div n)) hds"

definition held :: "int \<Rightarrow> (packetHeader \<times> raw list) list \<Rightarrow> nat" where
  "held n hds = sum_list (map (nat \<circ> snd) (pieces n hds))"

lemma take_packets:
  assumes "mapM_go parsePacket ps = Inr hds" "0 < rdNchan dev"
  shows "mapM_go (take_packet dev) ps = Inr (map (\<lambda>(h, data). (h, data, int (length data) div rdNchan dev)) hds)"
  using assms(1)
proof (induction ps arbitrary: hds)
  case (Cons p ps)
  then obtain h data hds' where p: "parsePacket p = Inr (h, data)" "mapM_go parsePacket ps = Inr hds'" "hds = (h, data) # hds'"
    by (auto simp: bind_go_Inr_iff)
  then show ?case using Cons.IH [OF p(2)] assms(2) by (simp add: take_packet_def div_go_def)
qed simp

lemma div_times_le: "0 < n \<Longrightarrow> x div n * n \<le> (x :: int)"
  using pos_mod_sign [of n x] div_mult_mod_eq [of x n] by linarith

lemma roach_channel_eq:
  assumes "c < nat (rdNchan dev)" "length (rdUnwrap dev) = nat (rdNchan dev)"
  shows "roach_channel dev (announced hds) (pieces (rdNchan dev) hds) (int c)
    = (if held (rdNchan dev) hds \<le> nat (announced hds)
       then Inr (UnwrapInPlace (rdUnwrap dev ! c) (concat (map (strided (rdNchan dev) c) (pieces (rdNchan dev) hds))
         @ replicate (nat (announced hds) - held (rdNchan dev) hds) 0))
       else Inl IndexOutOfRange)"
proof -
  let ?n = "rdNchan dev"
  have n: "0 < ?n" using assms(1) by simp
  have "\<forall>(data, ns)\<in>set (pieces ?n hds). 0 \<le> ns \<and> ?n * ns \<le> int (length data)"
    using n by (auto simp: pieces_def mult.commute [of ?n] div_times_le pos_imp_zdiv_nonneg_iff)
  from place_run [OF assms(1) this, of 0 "replicate (nat (announced hds)) 0"] show ?thesis
    using assms(2) assms(1) by (simp add: roach_channel_def held_def)
qed

lemma process_bundle_parsed:
  assumes "mapM_go parsePacket ps = Inr hds" "0 < rdNchan dev" "hds \<noteq> []"
  shows "process_bundle dev ps t =
    (let nall = announced hds; first = sint (rhSampnum (fst (hd hds))) in
     bind_go (mapM_go (roach_channel dev nall (pieces (rdNchan dev) hds)) [0..rdNchan dev - 1]) (\<lambda>us.
       Inr (dev\<lparr>nextS := first + nall, rdUnwrap := map fst us @ drop (length us) (rdUnwrap dev)\<rparr>,
            \<lparr>segments = map (\<lambda>(_, raw). \<lparr>rawData = raw, signedData = True, framesPerSample = 1, firstFrameIndex = first,
               firstTime = t - (nall - 1) * rdPeriod dev, framePeriod = rdPeriod dev, voltsPerArb = Fin 0,
               processed = False, droppedFrames = 0\<rparr>) us,
             externalTriggerRowcounts = [], blockNSamp = nall,
             blockErr = list_ex (\<lambda>(h, _). rdNchan dev \<noteq> uint (rhNchan h)) hds\<rparr>)))"
proof -
  have parts: "map (\<lambda>(h, _, _). uint (rhNsamp h)) (map (\<lambda>(h, data). (h, data, int (length data) div rdNchan dev)) hds)
      = map (\<lambda>(h, _). uint (rhNsamp h)) hds"
    "map snd (map (\<lambda>(h, data). (h, data, int (length data) div rdNchan dev)) hds) = pieces (rdNchan dev) hds"
    "fst (hd (map (\<lambda>(h, data). (h, data, int (length data) div rdNchan dev)) hds)) = fst (hd hds)"
    "list_ex (\<lambda>(h, _, _). rdNchan dev \<noteq> uint (rhNchan h)) (map (\<lambda>(h, data). (h, data, int (length data) div rdNchan dev)) hds)
      = list_ex (\<lambda>(h, _). rdNchan dev \<noteq> uint (rhNchan h)) hds"
    using assms(3) by (auto simp: pieces_def hd_map case_prod_unfold list_ex_iff)
  show ?thesis unfolding process_bundle_def take_packets [OF assms(1,2)]
    by (simp only: bind_go_simps Let_def parts announced_def)
qed

text \<open>A packet as the device sends it: as many values as its header says, of the channels that were sampled.\<close>

definition whole_packet :: "int \<Rightarrow> packetHeader \<times> raw list \<Rightarrow> bool" where
  "whole_packet n = (\<lambda>(h, data). uint (rhNchan h) = n \<and> int (length data) = n * uint (rhNsamp h))"

lemma whole_pieces:
  assumes "\<forall>hd\<in>set hds. whole_packet n hd" "0 < n"
  shows "pieces n hds = map (\<lambda>(h, data). (data, uint (rhNsamp h))) hds" "int (held n hds) = announced hds"
proof -
  show p: "pieces n hds = map (\<lambda>(h, data). (data, uint (rhNsamp h))) hds"
    using assms by (auto simp: pieces_def whole_packet_def)
  show "int (held n hds) = announced hds"
    unfolding held_def p announced_def by (induction hds) auto
qed

definition carried :: "RoachDevice \<Rightarrow> (packetHeader \<times> raw list) list \<Rightarrow> (PhaseUnwrapper \<times> raw list) list" where
  "carried dev hds = map (\<lambda>c. UnwrapInPlace (rdUnwrap dev ! c)
     (concat (map (\<lambda>(h, data). strided (rdNchan dev) c (data, uint (rhNsamp h))) hds))) [0..<nat (rdNchan dev)]"

lemma bundle_channels:
  assumes "\<forall>hd\<in>set hds. whole_packet (rdNchan dev) hd" "0 < rdNchan dev" "length (rdUnwrap dev) = nat (rdNchan dev)"
  shows "mapM_go (roach_channel dev (announced hds) (pieces (rdNchan dev) hds)) [0..rdNchan dev - 1] = Inr (carried dev hds)"
proof -
  let ?n = "rdNchan dev"
  have "roach_channel dev (announced hds) (pieces ?n hds) (int c) = Inr (UnwrapInPlace (rdUnwrap dev ! c)
      (concat (map (\<lambda>(h, data). strided ?n c (data, uint (rhNsamp h))) hds)))" if "c < nat ?n" for c
  proof -
    have "held ?n hds = nat (announced hds)" using whole_pieces(2) [OF assms(1,2)] by simp
    then show ?thesis using roach_channel_eq [OF that assms(3), of hds] whole_pieces(1) [OF assms(1,2)]
      by (simp add: comp_def case_prod_unfold)
  qed
  then have "mapM_go (roach_channel dev (announced hds) (pieces ?n hds)) (map int [0..<nat ?n]) = Inr (carried dev hds)"
    unfolding mapM_go_map carried_def by (intro mapM_go_pure) simp
  moreover have "[0..?n - 1] = map int [0..<nat ?n]" using upto_int [of "nat ?n"] assms(2) by simp
  ultimately show ?thesis by simp
qed

lemma bundle_block:
  assumes "mapM_go parsePacket ps = Inr hds" "hds \<noteq> []" "\<forall>hd\<in>set hds. whole_packet (rdNchan dev) hd"
    and "0 < rdNchan dev" "length (rdUnwrap dev) = nat (rdNchan dev)"
  obtains dev' block where "process_bundle dev ps t = Inr (dev', block)" "\<not> blockErr block"
    "nextS dev' = sint (rhSampnum (fst (hd hds))) + blockNSamp block"
    "\<forall>seg\<in>set (segments block). firstFrameIndex seg = sint (rhSampnum (fst (hd hds))) \<and> framesPerSample seg = 1"
    "rdUnwrap dev' = map fst (carried dev hds)" "map rawData (segments block) = map snd (carried dev hds)"
proof -
  have "\<not> list_ex (\<lambda>(h, _). rdNchan dev \<noteq> uint (rhNchan h)) hds"
    using assms(3) by (auto simp: list_ex_iff whole_packet_def)
  moreover have "length (carried dev hds) = length (rdUnwrap dev)" using assms(5) by (simp add: carried_def)
  moreover note eq = process_bundle_parsed [OF assms(1,4,2), of t, unfolded Let_def bundle_channels [OF assms(3-5)] bind_go_simps]
  ultimately show ?thesis by (intro that [OF eq]) (auto simp: comp_def case_prod_unfold)
qed

text \<open>
  C37: a bundle of whole packets becomes one block: it has a segment for each channel of the device, with the
  samples of that channel from all packets in order, passed through its unwrapper; frame numbers start at the
  number in the first packet, and the device expects the number after the last sample next.
\<close>

theorem roach_block_carries_channels:
  assumes "mapM_go parsePacket ps = Inr hds" "hds \<noteq> []" "\<forall>hd\<in>set hds. whole_packet (rdNchan dev) hd"
    and "0 < rdNchan dev" "length (rdUnwrap dev) = nat (rdNchan dev)"
  shows "\<exists>dev' block. process_bundle dev ps t = Inr (dev', block) \<and> \<not> blockErr block
    \<and> nextS dev' = sint (rhSampnum (fst (hd hds))) + blockNSamp block
    \<and> list_all (\<lambda>seg. firstFrameIndex seg = sint (rhSampnum (fst (hd hds))) \<and> framesPerSample seg = 1) (segments block)
    \<and> zip (rdUnwrap dev') (map rawData (segments block))
      = map (\<lambda>c. UnwrapInPlace (rdUnwrap dev ! c)
          (concat (map (\<lambda>(h, data). strided (rdNchan dev) c (data, uint (rhNsamp h))) hds))) [0..<nat (rdNchan dev)]"
proof (rule bundle_block [OF assms, of t])
  fix dev' block
  assume b: "process_bundle dev ps t = Inr (dev', block)" "\<not> blockErr block"
    "nextS dev' = sint (rhSampnum (fst (hd hds))) + blockNSamp block"
    "\<forall>seg\<in>set (segments block). firstFrameIndex seg = sint (rhSampnum (fst (hd hds))) \<and> framesPerSample seg = 1"
    "rdUnwrap dev' = map fst (carried dev hds)" "map rawData (segments block) = map snd (carried dev hds)"
  have "zip (rdUnwrap dev') (map rawData (segments block)) = carried dev hds" unfolding b(5,6) by (simp add: zip_map_fst_snd)
  then show ?thesis using b(1-4) unfolding carried_def by (auto simp: list_all_iff)
qed

lemma le_div: "0 < n \<Longrightarrow> x * n \<le> y \<Longrightarrow> x \<le> y div (n :: int)"
  using zdiv_mono1 [of "x * n" y n] by simp

lemma sum_list_less:
  assumes "\<And>x. x \<in> set xs \<Longrightarrow> f x \<le> (g x :: int)" "y \<in> set xs" "f y < g y"
  shows "sum_list (map f xs) < sum_list (map g xs)"
  using assms
proof (induction xs)
  case (Cons x xs)
  have "sum_list (map f xs) \<le> sum_list (map g xs)" using Cons.prems(1) by (intro sum_list_mono) simp
  then show ?case using Cons by (cases "y = x") (auto intro: add_less_le_mono add_le_less_mono)
qed simp

lemma sum_list_pos: "xs \<noteq> [] \<Longrightarrow> \<forall>n\<in>set xs. 0 < n \<Longrightarrow> 0 < (sum_list xs :: int)"
  by (induction xs rule: list_nonempty_induct) auto

text \<open>
  Packets that hold more samples for the channels that were sampled than their headers announce, as those
  of twice as many channels do, end the program instead of the run.
\<close>

lemma wider_packets_panic:
  assumes "mapM_go parsePacket ps = Inr hds" "hds \<noteq> []" "0 < rdNchan dev" "length (rdUnwrap dev) = nat (rdNchan dev)"
    and "\<forall>(h, data)\<in>set hds. rdNchan dev \<le> uint (rhNchan h) \<and> int (length data) = uint (rhNchan h) * uint (rhNsamp h)"
    and "(h, data) \<in> set hds" "2 * rdNchan dev \<le> uint (rhNchan h)" "0 < rhNsamp h"
  shows "process_bundle dev ps t = Inl IndexOutOfRange"
proof -
  let ?n = "rdNchan dev"
  have at_least: "uint (rhNsamp h) \<le> int (length data) div ?n" if "(h, data) \<in> set hds" for h data
  proof -
    have "uint (rhNsamp h) * ?n \<le> uint (rhNsamp h) * uint (rhNchan h)" using that assms(5) by (intro mult_left_mono) auto
    then have "uint (rhNsamp h) * ?n \<le> int (length data)" using that assms(5) by (auto simp: mult.commute)
    then show ?thesis using assms(3) by (rule le_div [rotated])
  qed
  have "2 * uint (rhNsamp h) * ?n \<le> int (length data)"
    using assms(5,6,7) mult_left_mono [OF assms(7), of "uint (rhNsamp h)"] by (auto simp: ac_simps)
  then have "2 * uint (rhNsamp h) \<le> int (length data) div ?n" using assms(3) by (rule le_div [rotated])
  then have more: "uint (rhNsamp h) < int (length data) div ?n"
    using assms(8) by (simp add: word_less_def)
  have "int (held ?n hds) = sum_list (map (\<lambda>(_, data). int (length data) div ?n) hds)"
    unfolding held_def pieces_def using assms(3) by (induction hds) (auto simp: pos_imp_zdiv_nonneg_iff)
  also have "announced hds < \<dots>" unfolding announced_def
    using at_least more assms(6) by (intro sum_list_less [of hds _ _ "(h, data)"]) auto
  finally have "announced hds < int (held ?n hds)" .
  moreover have "0 \<le> announced hds" by (auto simp: announced_def intro!: sum_list_nonneg)
  ultimately have "\<not> held ?n hds \<le> nat (announced hds)" by linarith
  then have fail: "roach_channel dev (announced hds) (pieces ?n hds) (int 0) = Inl IndexOutOfRange"
    using roach_channel_eq [of 0 dev hds] assms(3,4) by simp
  have "[0..?n - 1] = 0 # [1..?n - 1]" using assms(3) by (simp add: upto_rec1)
  then show ?thesis unfolding process_bundle_parsed [OF assms(1,3,2)] Let_def using fail by simp
qed

subsection \<open>Several boards\<close>

lemma process_bundle_width:
  assumes "process_bundle dev ps t = Inr (dev', block)"
  shows "length (segments block) = nat (rdNchan dev)"
proof -
  obtain nall ds us where us: "mapM_go (roach_channel dev nall ds) [0..rdNchan dev - 1] = Inr us"
    "length (segments block) = length us"
    using assms by (auto simp: process_bundle_def bind_go_Inr_iff Let_def)
  then show ?thesis using mapM_go_Inr [OF us(1)] by simp
qed

text \<open>
  C38: two boards cannot be read together: each block holds the channels of one board only, and the source,
  which has a processor for every channel of all boards, refuses it with a panic.
\<close>

theorem two_boards_stop_program:
  assumes "roach_forward (rs, alive) (i, b) = Inr (st, Some block)" "\<not> blockErr block"
    and "2 \<le> length (roActive rs)" "\<forall>dev\<in>set (roActive rs). 1 \<le> rdNchan dev"
    and "int (length (processors src)) = sum_list (map rdNchan (roActive rs))"
  shows "ProcessSegments env tk w src block
    = Some (Inl (ExplicitPanic ''dataBlock and Source disagree on the number of channels''))"
proof -
  obtain keepAlive st1 more where i: "i < length (roActive rs)"
    "roach_read (roActive rs ! i, keepAlive) b = Inr (st1, Some block, more)"
    using assms(1) by (auto simp: roach_forward_def bind_go_Inr_iff idx_Inr_iff split: option.splits)
  obtain ps t dev' where "process_bundle (roActive rs ! i) ps t = Inr (dev', block)"
    using i(2) assms(2) by (auto simp: roach_read_def roach_error_block_def bind_go_Inr_iff split: if_splits)
  then have width: "length (segments block) = nat (rdNchan (roActive rs ! i))" by (rule process_bundle_width)
  let ?ns = "map rdNchan (roActive rs)"
  have split: "?ns = take i ?ns @ ?ns ! i # drop (Suc i) ?ns" using i(1) by (intro id_take_nth_drop) simp
  have pos: "0 < n" if "n \<in> set (take i ?ns @ drop (Suc i) ?ns)" for n
    using that assms(4) set_take_subset [of i ?ns] set_drop_subset [of "Suc i" ?ns] by fastforce
  have "take i ?ns @ drop (Suc i) ?ns \<noteq> []" using assms(3) i(1) by auto
  then have "0 < sum_list (take i ?ns @ drop (Suc i) ?ns)"
    using pos by (intro sum_list_pos) simp_all
  then have "?ns ! i < sum_list ?ns" by (subst (2) split) simp
  then have "length (processors src) \<noteq> length (segments block)" using width assms(4,5) i(1) nth_mem [OF i(1)] by fastforce
  then show ?thesis by (simp add: ProcessSegments_def)
qed

subsection \<open>Witnesses\<close>

definition demo_board :: RoachDevice where
  "demo_board = \<lparr>rdHost = ''board'', rdRate = Fin 1000, rdPeriod = 1000000, rdNchan = 2, nextS = 0,
     rdUnwrapOpts = no_unwrap_options, rdUnwrap = [PhaseUnwrapper_zero, PhaseUnwrapper_zero]\<rparr>"

definition demo_head :: "16 word \<Rightarrow> 64 word \<Rightarrow> packetHeader" where
  "demo_head ns s = \<lparr>rhUnused = 0, rhFluxramp = 0, rhNchan = 2, rhNsamp = ns, rhFlags = 1, rhSampnum = s\<rparr>"

definition demo_boards :: RoachSource where
  "demo_boards = \<lparr>roSource = demo_source, roActive = [demo_board, demo_board]\<rparr>"

definition demo_bundle :: packet_bundle where
  "demo_bundle = \<lparr>buDeadline = True, buPackets = [wire16 (demo_head 1 100) [7, 8], wire16 (demo_head 2 101) [1, 2, 3, 4]],
     buEnd = BundleTimeout, buReadTime = 0, buNow = 0\<rparr>"

lemma demo_parsed: "mapM_go parsePacket (map datagram (buPackets demo_bundle))
  = Inr [(demo_head 1 100, [7, 8]), (demo_head 2 101, [1, 2, 3, 4])]"
  using parse_wire16 [of "[7, 8]" "demo_head 1 100"] parse_wire16 [of "[1, 2, 3, 4]" "demo_head 2 101"]
  by (simp add: demo_bundle_def demo_head_def wire16_def packetMaxSize_def)

lemma demo_whole: "\<forall>hd\<in>set [(demo_head 1 100, [7, 8]), (demo_head 2 101, [1, 2, 3, 4])]. whole_packet (rdNchan demo_board) hd"
  "0 < rdNchan demo_board" "length (rdUnwrap demo_board) = nat (rdNchan demo_board)"
  by (simp_all add: whole_packet_def demo_head_def demo_board_def)

theorem roach_packet_round_trip_witness:
  "parsePacket (datagram (wire (demo_head 2 100) [1, 2, 3, 4] [9, 9, 9, 9])) = Inr (demo_head 2 100, [1, 2, 3, 4])"
  using roach_packet_round_trip [of "[1, 2, 3, 4]" "demo_head 2 100" "[9, 9, 9, 9]"]
  by (simp add: demo_head_def wire_def wire16_def packetMaxSize_def)

theorem roach_block_carries_channels_witness:
  "\<exists>dev' block. process_bundle demo_board (map datagram (buPackets demo_bundle)) 0 = Inr (dev', block) \<and> nextS dev' = 100 + blockNSamp block
    \<and> zip (rdUnwrap dev') (map rawData (segments block)) = [(PhaseUnwrapper_zero, [7, 1, 3]), (PhaseUnwrapper_zero, [8, 2, 4])]"
proof -
  have u: "[0..<2] = [0, 1::nat]" by (simp add: upt_rec)
  show ?thesis
    using roach_block_carries_channels [OF demo_parsed _ demo_whole, of 0]
    by (auto simp: u demo_board_def demo_head_def strided_def UnwrapInPlace_def PhaseUnwrapper_zero_def)
qed

theorem two_boards_stop_program_witness:
  "\<exists>st block. roach_forward (demo_boards, [Some 0, Some 0]) (1, demo_bundle) = Inr (st, Some block)
    \<and> ProcessSegments demo_source_env quiet demo_world (demo_source\<lparr>processors := replicate 4 (hd (processors demo_source))\<rparr>) block
      = Some (Inl (ExplicitPanic ''dataBlock and Source disagree on the number of channels''))"
proof (rule bundle_block [OF demo_parsed _ demo_whole, of 0])
  fix dev' block
  assume b: "process_bundle demo_board (map datagram (buPackets demo_bundle)) 0 = Inr (dev', block)" "\<not> blockErr block"
  have "\<exists>st. roach_forward (demo_boards, [Some 0, Some 0]) (1, demo_bundle) = Inr (st, Some block)"
    using b by (simp add: roach_forward_def roach_read_def demo_boards_def) (simp add: demo_bundle_def)
  then obtain st where st: "roach_forward (demo_boards, [Some 0, Some 0]) (1, demo_bundle) = Inr (st, Some block)" ..
  then show ?thesis using two_boards_stop_program [OF st b(2), of "demo_source\<lparr>processors := replicate 4 (hd (processors demo_source))\<rparr>"]
    by (auto simp: demo_boards_def demo_board_def)
qed simp

end
