(* ===== verification/ClientUpdates.thy ===== *)
theory ClientUpdates
  imports Prelude "HOL-Library.AList" "HOL-Library.Sublist"
begin

text \<open>
  The client updater (\<open>client_updater.go\<close>): the loop that publishes status messages, remembers the last one
  of each kind for clients that ask for all of them, and saves the state to the configuration file.  The
  encodings as JSON and YAML and the socket are arguments; the settings object is a map of keys to values.
  Go visits a map in an order of its own: the model visits it in the order of a list, and nothing is
  assumed of it.  Time is in the events: the minute's ticker and the delay after a change may fire at any
  time, the latter only while it is set.
\<close>

subsection \<open>Kinds of messages\<close>

definition nopublishMessages :: "string list" where
  "nopublishMessages = [''CURRENTTIME'', ''___1'', ''___2'', ''___3'', ''___4'', ''___5'']"

definition nosaveMessages :: "string list" where
  "nosaveMessages = [''channelnames'', ''alive'', ''triggerrate'', ''numberwritten'', ''newdastard'', ''tesmap'',
     ''externaltrigger'']"

definition lower_char :: "char \<Rightarrow> char" where
  "lower_char c = (if 65 \<le> (of_char c :: nat) \<and> (of_char c :: nat) \<le> 90 then char_of ((of_char c :: nat) + 32) else c)"

definition savable :: "string \<Rightarrow> bool" where
  "savable tag \<longleftrightarrow> map lower_char tag \<notin> set nosaveMessages"

text \<open>\<open>strings.Replace\<close> of the first occurrence.\<close>

fun replace_first :: "string \<Rightarrow> string \<Rightarrow> string \<Rightarrow> string" where
  "replace_first p r [] = []"
| "replace_first p r (c # cs) = (if prefix p (c # cs) then r @ drop (length p) (c # cs) else c # replace_first p r cs)"

subsection \<open>State\<close>

record 'v updater_env =
  to_json :: "'v \<Rightarrow> string option"
  to_yaml :: "(string \<times> 'v) list \<Rightarrow> string option"
  text_value :: "string \<Rightarrow> 'v"
  koanf_mainname :: string

record 'v updater =
  lastMessages :: "(string \<times> 'v) list"
  lastMessageStrings :: "(string \<times> string) list"
  save_armed :: bool
  GlobalKoanf :: "(string \<times> 'v) list"
  disk :: "string \<rightharpoonup> string"
  sent :: "(string \<times> string) list"

text \<open>What the file system does in one attempt to save; a \<open>False\<close> is an error other than a missing file.\<close>

record save_env =
  clock_text :: string
  write_part :: "string option"
  write_ok :: bool
  remove_ok :: bool
  backup_ok :: bool
  rename_ok :: bool

subsection \<open>Publishing\<close>

definition maxSendAttempts :: nat where "maxSendAttempts = 5"

definition publish_update :: "bool list \<Rightarrow> (string \<times> string) list \<Rightarrow> string \<Rightarrow> string \<Rightarrow> (string \<times> string) list go" where
  "publish_update attempts out tag message =
     (if tag \<in> set nopublishMessages then Inr out
      else if True \<in> set (take maxSendAttempts attempts) then Inr (out @ [(tag, message)])
      else Inl (ExplicitPanic ''Could not send a message''))"

definition string_at :: "(string \<times> string) list \<Rightarrow> string \<Rightarrow> string" where
  "string_at m k = (case map_of m k of None \<Rightarrow> [] | Some s \<Rightarrow> s)"

text \<open>A message of a client or of the program, with what the socket does with the messages sent for it.\<close>

definition handle_update :: "'v updater_env \<Rightarrow> 'v updater \<Rightarrow> string \<Rightarrow> 'v \<Rightarrow> (string \<Rightarrow> bool list) \<Rightarrow> 'v updater go" where
  "handle_update env u tag state attempts =
     (if tag = ''SENDALL''
      then bind_go (foldM_go (\<lambda>out (k, _). publish_update (attempts k) out k (string_at (lastMessageStrings u) k))
          (sent u) (lastMessages u)) (\<lambda>out. Inr (u\<lparr>sent := out\<rparr>))
      else let message = (case to_json env state of None \<Rightarrow> [] | Some m \<Rightarrow> m) in
        bind_go (case to_json env state of None \<Rightarrow> Inr (sent u) | Some m \<Rightarrow> publish_update (attempts tag) (sent u) tag m) (\<lambda>out.
          let u1 = u\<lparr>sent := out\<rparr> in
          if tag = ''NEWDASTARD'' \<or> string_at (lastMessageStrings u) tag = message then Inr u1
          else Inr (u1\<lparr>lastMessages := AList.update tag state (lastMessages u),
                 lastMessageStrings := AList.update tag message (lastMessageStrings u),
                 save_armed := (save_armed u \<or> savable tag)\<rparr>)))"

subsection \<open>Saving\<close>

text \<open>
  The states that the disk goes through while the configuration is written: a part of the temporary file,
  all of it, no backup, the old file as the backup, the new file in its place.
\<close>

definition save_files :: "save_env \<Rightarrow> string \<Rightarrow> string option \<Rightarrow> (string \<rightharpoonup> string) \<Rightarrow> (string \<rightharpoonup> string) list" where
  "save_files se mainname yaml fs =
     (let tmpname = replace_first ''.yaml'' ''.tmp.yaml'' mainname; bakname = mainname @ ''.bak'' in
      case yaml of None \<Rightarrow> [fs]
      | Some new \<Rightarrow>
          let f0 = fs(tmpname := write_part se) in
          if \<not> write_ok se then [fs, f0]
          else let f1 = fs(tmpname \<mapsto> new) in
          if \<not> remove_ok se then [fs, f0, f1]
          else let f2 = f1(bakname := None) in
          if \<not> backup_ok se then [fs, f0, f1, f2]
          else let f3 = (case f2 mainname of None \<Rightarrow> f2 | Some old \<Rightarrow> f2(mainname := None, bakname \<mapsto> old)) in
          if \<not> rename_ok se then [fs, f0, f1, f2, f3]
          else [fs, f0, f1, f2, f3, case f3 tmpname of None \<Rightarrow> f3 | Some t \<Rightarrow> f3(tmpname := None, mainname \<mapsto> t)])"

definition set_all :: "(string \<times> 'v) list \<Rightarrow> (string \<times> 'v) list \<Rightarrow> (string \<times> 'v) list" where
  "set_all = foldl (\<lambda>conf (k, v). if savable k then AList.update k v conf else conf)"

definition saveState :: "'v updater_env \<Rightarrow> save_env \<Rightarrow> 'v updater \<Rightarrow> 'v updater" where
  "saveState env se u =
     (let msgs = AList.update ''CURRENTTIME'' (text_value env (clock_text se))
            (AList.update ''___2'' (text_value env ''Human intervention by experts is permitted but not expected.'')
            (AList.update ''___1'' (text_value env ''DASTARD configuration file. Written and read by DASTARD.'') (lastMessages u)));
          conf = set_all (GlobalKoanf u) msgs
      in u\<lparr>lastMessages := msgs, GlobalKoanf := conf,
           disk := last (save_files se (koanf_mainname env) (to_yaml env conf) (disk u))\<rparr>)"

subsection \<open>The loop\<close>

datatype 'v update_event = Update string 'v "string \<Rightarrow> bool list" | SaveTick save_env | SaveTimer save_env

definition updater_step :: "'v updater_env \<Rightarrow> 'v updater \<Rightarrow> 'v update_event \<Rightarrow> 'v updater go" where
  "updater_step env u e = (case e of
     Update tag state attempts \<Rightarrow> handle_update env u tag state attempts
   | SaveTick se \<Rightarrow> Inr (saveState env se u)
   | SaveTimer se \<Rightarrow> if save_armed u then Inr (saveState env se (u\<lparr>save_armed := False\<rparr>)) else Inr u)"

text \<open>At the start nothing is known, and the delay is running.\<close>

definition new_updater :: "(string \<times> 'v) list \<Rightarrow> (string \<rightharpoonup> string) \<Rightarrow> 'v updater" where
  "new_updater conf files = \<lparr>lastMessages = [], lastMessageStrings = [], save_armed = True, GlobalKoanf = conf,
     disk = files, sent = []\<rparr>"

definition RunClientUpdater :: "'v updater_env \<Rightarrow> 'v updater \<Rightarrow> 'v update_event list \<Rightarrow> 'v updater go" where
  "RunClientUpdater env = foldM_go (updater_step env)"

subsection \<open>Clients that ask for everything\<close>

text \<open>The state that was sent last under a tag, of the messages that are remembered.\<close>

fun last_update :: "'v update_event list \<Rightarrow> string \<Rightarrow> 'v option" where
  "last_update [] tag = None"
| "last_update (e # es) tag = (case last_update es tag of Some v \<Rightarrow> Some v
     | None \<Rightarrow> (case e of Update t v _ \<Rightarrow> if t = tag \<and> tag \<noteq> ''SENDALL'' \<and> tag \<noteq> ''NEWDASTARD'' then Some v else None | _ \<Rightarrow> None))"

text \<open>A run in which encoding works and no message fails five times.\<close>

definition goes_out :: "bool list \<Rightarrow> bool" where
  "goes_out attempts \<longleftrightarrow> True \<in> set (take maxSendAttempts attempts)"

definition healthy :: "'v updater_env \<Rightarrow> 'v update_event \<Rightarrow> bool" where
  "healthy env e = (case e of
     Update tag state attempts \<Rightarrow> (\<exists>m. to_json env state = Some m \<and> m \<noteq> []) \<and> (\<forall>k. goes_out (attempts k))
   | _ \<Rightarrow> True)"

definition remembers :: "'v updater_env \<Rightarrow> (string \<Rightarrow> 'v option) \<Rightarrow> 'v updater \<Rightarrow> bool" where
  "remembers env known u \<longleftrightarrow> distinct (map fst (lastMessages u))
     \<and> (\<forall>tag. tag \<notin> set nopublishMessages \<longrightarrow> (tag \<in> fst ` set (lastMessages u) \<longleftrightarrow> known tag \<noteq> None))
     \<and> (\<forall>tag. map_of (lastMessageStrings u) tag = (case known tag of None \<Rightarrow> None | Some v \<Rightarrow> to_json env v))"

definition learn :: "(string \<Rightarrow> 'v option) \<Rightarrow> 'v update_event \<Rightarrow> string \<Rightarrow> 'v option" where
  "learn known e = (case e of
     Update t v _ \<Rightarrow> if t \<noteq> ''SENDALL'' \<and> t \<noteq> ''NEWDASTARD'' then known(t \<mapsto> v) else known | _ \<Rightarrow> known)"

lemma last_update_fold: "foldl learn known es tag = (case last_update es tag of Some v \<Rightarrow> Some v | None \<Rightarrow> known tag)"
proof (induction es arbitrary: known)
  case (Cons e es)
  show ?case unfolding foldl_Cons Cons.IH by (cases e) (auto simp: learn_def split: option.splits)
qed simp

lemma publish_goes_out: "goes_out att \<Longrightarrow> publish_update att out tag m
    = Inr (out @ (if tag \<in> set nopublishMessages then [] else [(tag, m)]))"
  by (simp add: publish_update_def goes_out_def)

lemma publish_all:
  assumes "\<forall>k. goes_out (attempts k)"
  shows "foldM_go (\<lambda>out (k, _). publish_update (attempts k) out k (f k)) out msgs
    = Inr (out @ map (\<lambda>(k, _). (k, f k)) (filter (\<lambda>(k, _). k \<notin> set nopublishMessages) msgs))"
  using assms by (induction msgs arbitrary: out) (auto simp: publish_goes_out)

lemma send_all:
  assumes "\<forall>k. goes_out (attempts k)"
  shows "updater_step env u (Update ''SENDALL'' v attempts) = Inr (u\<lparr>sent := sent u
    @ map (\<lambda>(k, _). (k, string_at (lastMessageStrings u) k)) (filter (\<lambda>(k, _). k \<notin> set nopublishMessages) (lastMessages u))\<rparr>)"
  by (simp add: updater_step_def handle_update_def publish_all [OF assms])

lemma saveState_remembers:
  assumes "remembers env known u"
  shows "remembers env known (saveState env se u)"
proof -
  have "tag \<noteq> ''CURRENTTIME'' \<and> tag \<noteq> ''___1'' \<and> tag \<noteq> ''___2''" if "tag \<notin> set nopublishMessages" for tag
    using that by (auto simp: nopublishMessages_def)
  then show ?thesis
    using assms by (auto simp: remembers_def saveState_def Let_def distinct_update update_keys dom_update)
qed

lemma step_remembers:
  assumes "remembers env known u" "healthy env e"
  shows "\<exists>u'. updater_step env u e = Inr u' \<and> remembers env (learn known e) u'"
proof (cases e)
  case (Update tag state attempts)
  obtain m where m: "to_json env state = Some m" "m \<noteq> []" "\<forall>k. goes_out (attempts k)"
    using assms(2) Update by (auto simp: healthy_def)
  show ?thesis
  proof (cases "tag = ''SENDALL'' \<or> tag = ''NEWDASTARD''")
    case True
    obtain out where "updater_step env u e = Inr (u\<lparr>sent := out\<rparr>)"
    proof (cases "tag = ''SENDALL''")
      case all: True
      show ?thesis by (rule that, unfold Update all, rule send_all [OF m(3)])
    next
      case False
      then show ?thesis using that True Update m by (simp add: updater_step_def handle_update_def publish_goes_out Let_def)
    qed
    then show ?thesis using Update True assms(1) by (auto simp: learn_def remembers_def)
  next
    case False
    have known: "map_of (lastMessageStrings u) tag = (case known tag of None \<Rightarrow> None | Some v \<Rightarrow> to_json env v)"
      using assms(1) by (simp add: remembers_def)
    have out: "publish_update (attempts tag) (sent u) tag m = Inr (sent u @ (if tag \<in> set nopublishMessages then [] else [(tag, m)]))"
      using m(3) by (simp add: publish_goes_out)
    show ?thesis
    proof (cases "string_at (lastMessageStrings u) tag = m")
      case True
      then have s: "map_of (lastMessageStrings u) tag = Some m" using m(2) by (auto simp: string_at_def split: option.splits)
      then have "known tag \<noteq> None" using known by (auto split: option.splits)
      then show ?thesis using Update False True m out s assms(1)
        by (auto simp: updater_step_def handle_update_def learn_def remembers_def Let_def)
    next
      case changed: False
      then show ?thesis using Update False m out assms(1)
        by (auto simp: updater_step_def handle_update_def learn_def remembers_def Let_def distinct_update dom_update update_conv')
    qed
  qed
next
  case (SaveTick se)
  then show ?thesis using saveState_remembers [OF assms(1)] by (simp add: updater_step_def learn_def)
next
  case (SaveTimer se)
  have "remembers env known (u\<lparr>save_armed := False\<rparr>)" using assms(1) by (simp add: remembers_def)
  then show ?thesis using SaveTimer saveState_remembers assms(1) by (auto simp: updater_step_def learn_def)
qed

lemma run_remembers:
  assumes "remembers env known u" "\<forall>e\<in>set es. healthy env e"
  shows "\<exists>u'. RunClientUpdater env u es = Inr u' \<and> remembers env (foldl learn known es) u'"
  using assms
proof (induction es arbitrary: known u)
  case Nil
  then show ?case by (simp add: RunClientUpdater_def)
next
  case (Cons e es)
  obtain u1 where "updater_step env u e = Inr u1" "remembers env (learn known e) u1"
    using step_remembers [OF Cons.prems(1), of e] Cons.prems(2) by auto
  then show ?case using Cons.IH [of "learn known e" u1] Cons.prems(2) by (simp add: RunClientUpdater_def)
qed

text \<open>
  C39: a client that asks for everything learns the present state: after any run of messages and saves in
  which encoding works and the socket recovers, the answer holds, for each kind of message that was sent
  (other than the greeting and what is kept for the file only), the text of its last state, once.
\<close>

theorem sendall_repeats_state:
  assumes "\<forall>e\<in>set es. healthy env e" "\<forall>k. goes_out (attempts k)"
  shows "\<exists>u news. RunClientUpdater env (new_updater conf files) es = Inr u
    \<and> updater_step env u (Update ''SENDALL'' v attempts) = Inr (u\<lparr>sent := sent u @ news\<rparr>)
    \<and> distinct (map fst news)
    \<and> set news = {(tag, m). tag \<notin> set nopublishMessages \<and> (\<exists>state. last_update es tag = Some state \<and> to_json env state = Some m)}"
proof -
  have "remembers env (\<lambda>_. None) (new_updater conf files)" by (simp add: remembers_def new_updater_def)
  from run_remembers [OF this assms(1)] obtain u where u: "RunClientUpdater env (new_updater conf files) es = Inr u"
    "remembers env (foldl learn (\<lambda>_. None) es) u" by blast
  have "foldl learn (\<lambda>_. None) es = last_update es" by (rule ext) (simp add: last_update_fold split: option.split)
  then have r: "remembers env (last_update es) u" using u(2) by simp
  let ?news = "map (\<lambda>(k, _). (k, string_at (lastMessageStrings u) k)) (filter (\<lambda>(k, _). k \<notin> set nopublishMessages) (lastMessages u))"
  have json: "\<exists>m. to_json env state = Some m" if "last_update es tag = Some state" for tag state
    using that assms(1)
  proof (induction es)
    case (Cons e es)
    then show ?case by (cases e) (auto simp: healthy_def split: option.splits if_splits)
  qed simp
  have step: "updater_step env u (Update ''SENDALL'' v attempts) = Inr (u\<lparr>sent := sent u @ ?news\<rparr>)"
    by (rule send_all [OF assms(2)])
  have dist: "distinct (map fst ?news)"
    using r by (auto simp: remembers_def comp_def case_prod_unfold distinct_map inj_on_def intro: distinct_map_filter)
  have "(tag, m) \<in> set ?news \<longleftrightarrow> tag \<notin> set nopublishMessages \<and> tag \<in> fst ` set (lastMessages u)
      \<and> m = string_at (lastMessageStrings u) tag" for tag m by force
  then have "set ?news = {(tag, m). tag \<notin> set nopublishMessages \<and> (\<exists>state. last_update es tag = Some state \<and> to_json env state = Some m)}"
    using r json by (fastforce simp: remembers_def string_at_def split: option.splits)
  then show ?thesis using u(1) step dist by blast
qed

subsection \<open>The configuration file\<close>

text \<open>
  C40: saving never loses the configuration: in every state that the disk passes through, also when an
  operation fails or the program dies in between, the old or the new configuration is in its file, or the
  old one is in the backup and the new one complete in the temporary file; when all goes well the new one
  is in its file and the old one is the backup.
\<close>

theorem save_keeps_configuration:
  assumes "replace_first ''.yaml'' ''.tmp.yaml'' mainname = tmpname" "tmpname \<noteq> mainname" "tmpname \<noteq> mainname @ ''.bak''"
    and "fs mainname = Some old"
  shows "list_all (\<lambda>f. f mainname = Some old \<or> f mainname = Some new
      \<or> f mainname = None \<and> f (mainname @ ''.bak'') = Some old \<and> f tmpname = Some new) (save_files se mainname (Some new) fs)
    \<and> (write_ok se \<and> remove_ok se \<and> backup_ok se \<and> rename_ok se \<longrightarrow>
        last (save_files se mainname (Some new) fs) mainname = Some new
        \<and> last (save_files se mainname (Some new) fs) (mainname @ ''.bak'') = Some old)"
  using assms by (simp add: save_files_def Let_def)

text \<open>Every change of a state that is saved is in the settings, or the delay after which they are written runs.\<close>

definition change_known :: "'v updater \<Rightarrow> bool" where
  "change_known u \<longleftrightarrow> distinct (map fst (lastMessages u))
     \<and> (save_armed u \<or> (\<forall>(tag, v)\<in>set (lastMessages u). savable tag \<longrightarrow> map_of (GlobalKoanf u) tag = Some v))"

lemma set_all_keeps: "k \<notin> fst ` set msgs \<Longrightarrow> map_of (set_all conf msgs) k = map_of conf k"
  unfolding set_all_def by (induction msgs arbitrary: conf) (auto simp: update_conv')

lemma set_all_sets:
  assumes "distinct (map fst msgs)" "(k, v) \<in> set msgs" "savable k"
  shows "map_of (set_all conf msgs) k = Some v"
  using assms
proof (induction msgs arbitrary: conf)
  case (Cons a msgs)
  show ?case
  proof (cases "a = (k, v)")
    case True
    then have "map_of (set_all (AList.update k v conf) msgs) k = Some v"
      using set_all_keeps [of k msgs "AList.update k v conf"] Cons.prems(1) by (simp add: update_conv')
    then show ?thesis using True Cons.prems(3) by (simp add: set_all_def)
  next
    case False
    then show ?thesis using Cons.IH Cons.prems by (cases a) (auto simp: set_all_def)
  qed
qed simp

lemma saveState_known:
  assumes "distinct (map fst (lastMessages u))"
  shows "change_known (saveState env se u)"
proof -
  have "distinct (map fst (lastMessages (saveState env se u)))"
    using assms by (simp add: saveState_def Let_def distinct_update)
  moreover have "GlobalKoanf (saveState env se u) = set_all (GlobalKoanf u) (lastMessages (saveState env se u))"
    by (simp add: saveState_def Let_def)
  ultimately show ?thesis using set_all_sets by (fastforce simp: change_known_def)
qed

lemma handle_update_known:
  assumes "change_known u" "handle_update env u tag state attempts = Inr u'"
  shows "change_known u'"
proof -
  have keep: "change_known (u\<lparr>sent := out\<rparr>)" for out using assms(1) by (simp add: change_known_def)
  have new: "change_known (u\<lparr>sent := out, lastMessages := AList.update tag state (lastMessages u),
      lastMessageStrings := m, save_armed := (save_armed u \<or> savable tag)\<rparr>)" for out m
  proof (cases "save_armed u \<or> savable tag")
    case True
    then show ?thesis using assms(1) by (simp add: change_known_def distinct_update)
  next
    case False
    have "(k, v) \<in> set (lastMessages u)" if "(k, v) \<in> set (AList.update tag state (lastMessages u))" "savable k" for k v
    proof -
      have "map_of (AList.update tag state (lastMessages u)) k = Some v"
        using assms(1) that(1) by (simp add: change_known_def distinct_update)
      moreover have "k \<noteq> tag" using that(2) False by auto
      ultimately show ?thesis by (simp add: update_conv' map_of_SomeD)
    qed
    then show ?thesis using assms(1) False by (fastforce simp: change_known_def distinct_update)
  qed
  show ?thesis using assms(2) keep new
    by (auto simp: handle_update_def bind_go_Inr_iff Let_def split: if_splits option.splits)
qed

text \<open>
  no change is forgotten: from the start on, in every state of the loop, the settings hold the present
  value of every kind of message that is saved, or the delay after which they will be written is running.
\<close>

theorem changes_are_saved:
  assumes "RunClientUpdater env (new_updater conf files) es = Inr u"
    and "(tag, v) \<in> set (lastMessages u)" "savable tag"
  shows "save_armed u \<or> map_of (GlobalKoanf u) tag = Some v"
proof -
  have "change_known u"
  proof (rule foldM_go_invariant [where I = change_known])
    show "foldM_go (updater_step env) (new_updater conf files) es = Inr u" using assms(1) by (simp add: RunClientUpdater_def)
    show "change_known (new_updater conf files)" by (simp add: change_known_def new_updater_def)
    fix u1 u2 :: "'a updater" and e
    assume u1: "change_known u1" "updater_step env u1 e = Inr u2"
    then have "distinct (map fst (lastMessages u1))" by (simp add: change_known_def)
    then show "change_known u2" using u1
      by (cases e) (auto simp: updater_step_def handle_update_known saveState_known split: if_splits)
  qed
  then show ?thesis using assms(2,3) by (auto simp: change_known_def)
qed

text \<open>
  A state with a given text that is sent under a tag which the program does not set itself is in the
  settings after the next save, in its own shape or in that of an earlier state with the same text.
\<close>

definition text_known :: "'v updater_env \<Rightarrow> string \<Rightarrow> 'v updater \<Rightarrow> bool" where
  "text_known env tag u \<longleftrightarrow> distinct (map fst (lastMessages u))
     \<and> (string_at (lastMessageStrings u) tag \<noteq> [] \<longrightarrow>
         (\<exists>v. map_of (lastMessages u) tag = Some v \<and> to_json env v = Some (string_at (lastMessageStrings u) tag)))"

definition own_tag :: "string \<Rightarrow> bool" where
  "own_tag tag \<longleftrightarrow> tag \<notin> set nopublishMessages \<and> tag \<noteq> ''SENDALL'' \<and> tag \<noteq> ''NEWDASTARD''"

lemma saveState_messages:
  assumes "own_tag tag"
  shows "map_of (lastMessages (saveState env se u)) tag = map_of (lastMessages u) tag"
    "lastMessageStrings (saveState env se u) = lastMessageStrings u"
    "distinct (map fst (lastMessages u)) \<Longrightarrow> distinct (map fst (lastMessages (saveState env se u)))"
  using assms by (auto simp: saveState_def own_tag_def nopublishMessages_def Let_def update_conv' distinct_update)

lemma handle_update_cases:
  assumes "handle_update env u t state attempts = Inr u'"
  shows "(lastMessages u' = lastMessages u \<and> lastMessageStrings u' = lastMessageStrings u
      \<and> (own_tag t \<longrightarrow> string_at (lastMessageStrings u) t = (case to_json env state of None \<Rightarrow> [] | Some m \<Rightarrow> m)))
    \<or> (lastMessages u' = AList.update t state (lastMessages u)
      \<and> lastMessageStrings u' = AList.update t (case to_json env state of None \<Rightarrow> [] | Some m \<Rightarrow> m) (lastMessageStrings u))"
proof (cases "t = ''SENDALL''")
  case True
  then show ?thesis using assms by (auto simp: handle_update_def own_tag_def bind_go_Inr_iff)
next
  case False
  let ?m = "case to_json env state of None \<Rightarrow> [] | Some m \<Rightarrow> m"
  obtain out where out: "(let u1 = u\<lparr>sent := out\<rparr> in
      if t = ''NEWDASTARD'' \<or> string_at (lastMessageStrings u) t = ?m then Inr u1
      else Inr (u1\<lparr>lastMessages := AList.update t state (lastMessages u),
             lastMessageStrings := AList.update t ?m (lastMessageStrings u),
             save_armed := (save_armed u \<or> savable t)\<rparr>)) = (Inr u' :: 'a updater go)"
    using assms False by (auto simp: handle_update_def bind_go_Inr_iff Let_def)
  show ?thesis
  proof (cases "t = ''NEWDASTARD'' \<or> string_at (lastMessageStrings u) t = ?m")
    case True
    then have "u' = u\<lparr>sent := out\<rparr>" using out by (simp add: Let_def)
    then show ?thesis using True by (auto simp: own_tag_def)
  next
    case change: False
    then show ?thesis using out by (auto simp: Let_def)
  qed
qed

lemma string_at_update: "string_at (AList.update t m ms) tag = (if tag = t then m else string_at ms tag)"
  by (simp add: string_at_def update_conv')

lemma text_known_same:
  assumes "text_known env tag u" "map_of (lastMessages u') tag = map_of (lastMessages u) tag"
    "lastMessageStrings u' = lastMessageStrings u" "distinct (map fst (lastMessages u'))"
  shows "text_known env tag u'"
  using assms(1,4) unfolding text_known_def assms(2,3) by blast

lemma saveState_text:
  assumes "text_known env tag u" "own_tag tag"
  shows "text_known env tag (saveState env se u)"
proof (rule text_known_same [OF assms(1)])
  show "map_of (lastMessages (saveState env se u)) tag = map_of (lastMessages u) tag"
    by (rule saveState_messages(1) [OF assms(2)])
  show "lastMessageStrings (saveState env se u) = lastMessageStrings u" by (rule saveState_messages(2) [OF assms(2)])
  show "distinct (map fst (lastMessages (saveState env se u)))"
    by (rule saveState_messages(3) [OF assms(2)]) (use assms(1) in \<open>simp add: text_known_def\<close>)
qed

lemma handle_update_text:
  assumes "text_known env tag u" "handle_update env u t state attempts = Inr u'"
  shows "text_known env tag u'"
  using handle_update_cases [OF assms(2)]
proof
  assume c: "lastMessages u' = AList.update t state (lastMessages u)
      \<and> lastMessageStrings u' = AList.update t (case to_json env state of None \<Rightarrow> [] | Some m \<Rightarrow> m) (lastMessageStrings u)"
  then show ?thesis
    using assms(1) by (cases "tag = t") (auto simp: text_known_def distinct_update update_conv' string_at_update split: option.splits)
next
  assume c: "lastMessages u' = lastMessages u \<and> lastMessageStrings u' = lastMessageStrings u
      \<and> (own_tag t \<longrightarrow> string_at (lastMessageStrings u) t = (case to_json env state of None \<Rightarrow> [] | Some m \<Rightarrow> m))"
  have "distinct (map fst (lastMessages u))" using assms(1) by (simp add: text_known_def)
  with c show ?thesis by (intro text_known_same [OF assms(1)]) simp_all
qed

lemma updater_step_text:
  assumes "text_known env tag u" "own_tag tag" "updater_step env u e = Inr u'"
  shows "text_known env tag u'"
proof (cases e)
  case (Update t v attempts)
  then show ?thesis using assms(3) handle_update_text [OF assms(1)] by (simp add: updater_step_def)
next
  case (SaveTick se)
  then show ?thesis using assms(3) saveState_text [OF assms(1,2)] by (auto simp: updater_step_def)
next
  case (SaveTimer se)
  have "text_known env tag (u\<lparr>save_armed := False\<rparr>)" 
    by (rule text_known_same [OF assms(1)]) (use assms(1) in \<open>simp_all add: text_known_def\<close>)
  then have "text_known env tag (saveState env se (u\<lparr>save_armed := False\<rparr>))"
    using assms(2) by (rule saveState_text)
  then show ?thesis using assms(1,3) SaveTimer by (auto simp: updater_step_def split: if_splits)
qed

lemma run_text_known:
  assumes "RunClientUpdater env (new_updater conf files) es = Inr u" "own_tag tag"
  shows "text_known env tag u"
proof (rule foldM_go_invariant [where I = "text_known env tag"])
  show "foldM_go (updater_step env) (new_updater conf files) es = Inr u" using assms(1) by (simp add: RunClientUpdater_def)
  show "text_known env tag (new_updater conf files)" by (simp add: text_known_def new_updater_def string_at_def)
qed (use updater_step_text [OF _ assms(2)] in blast)

text \<open>Later messages under other tags, and saves, leave the remembered state of a tag alone.\<close>

fun of_tag :: "string \<Rightarrow> 'v update_event \<Rightarrow> bool" where
  "of_tag tag (Update t v attempts) = (t = tag)"
| "of_tag tag _ = False"

lemma updater_step_others:
  assumes "updater_step env u e = Inr u'" "own_tag tag" "\<not> of_tag tag e" "distinct (map fst (lastMessages u))"
  shows "map_of (lastMessages u') tag = map_of (lastMessages u) tag \<and> distinct (map fst (lastMessages u'))"
proof (cases e)
  case (Update t v attempts)
  then have "handle_update env u t v attempts = Inr u'" "t \<noteq> tag" using assms(1,3) by (simp_all add: updater_step_def)
  from handle_update_cases [OF this(1)] this(2) assms(4) show ?thesis by (auto simp: update_conv' distinct_update)
next
  case (SaveTick se)
  then show ?thesis using assms(1,4) saveState_messages [OF assms(2)] by (auto simp: updater_step_def)
next
  case (SaveTimer se)
  let ?u = "u\<lparr>save_armed := False\<rparr>"
  have "map_of (lastMessages (saveState env se ?u)) tag = map_of (lastMessages u) tag
      \<and> distinct (map fst (lastMessages (saveState env se ?u)))"
    using saveState_messages(1) [OF assms(2), of env se ?u] saveState_messages(3) [OF assms(2), of ?u env se] assms(4)
    by simp
  then show ?thesis using assms(1,4) SaveTimer by (auto simp: updater_step_def split: if_splits)
qed

lemma run_others:
  assumes "RunClientUpdater env u es = Inr u'" "own_tag tag" "\<forall>e\<in>set es. \<not> of_tag tag e" "distinct (map fst (lastMessages u))"
  shows "map_of (lastMessages u') tag = map_of (lastMessages u) tag \<and> distinct (map fst (lastMessages u'))"
  using assms(1,3,4) unfolding RunClientUpdater_def
proof (induction es arbitrary: u)
  case (Cons e es)
  then obtain u1 where u1: "updater_step env u e = Inr u1" "foldM_go (updater_step env) u1 es = Inr u'"
    by (auto simp: bind_go_Inr_iff)
  have s: "map_of (lastMessages u1) tag = map_of (lastMessages u) tag \<and> distinct (map fst (lastMessages u1))"
    by (rule updater_step_others [OF u1(1) assms(2)]) (use Cons.prems in simp_all)
  then show ?case using Cons.IH [OF u1(2)] Cons.prems(2) by simp
qed simp

definition saves_all :: "save_env \<Rightarrow> bool" where
  "saves_all se \<longleftrightarrow> write_ok se \<and> remove_ok se \<and> backup_ok se \<and> rename_ok se"

lemma save_files_new:
  assumes "replace_first ''.yaml'' ''.tmp.yaml'' mainname \<notin> {mainname, mainname @ ''.bak''}" "saves_all se"
  shows "last (save_files se mainname (Some new) fs) mainname = Some new"
  using assms by (auto simp: save_files_def saves_all_def Let_def split: option.split)

lemma saveState_settings: "GlobalKoanf (saveState env se u) = set_all (GlobalKoanf u) (lastMessages (saveState env se u))"
  by (simp add: saveState_def Let_def)

lemma update_is_saved:
  assumes "RunClientUpdater env (new_updater conf files) es = Inr u" "own_tag tag" "savable tag"
    and "to_json env v = Some m" "m \<noteq> []"
    and "updater_step env u (Update tag v attempts) = Inr u1"
    and "RunClientUpdater env u1 es' = Inr u2" "\<forall>e\<in>set es'. \<not> of_tag tag e"
  shows "\<exists>v'. map_of (GlobalKoanf (saveState env se u2)) tag = Some v' \<and> to_json env v' = Some m"
proof -
  have known: "text_known env tag u" by (rule run_text_known [OF assms(1,2)])
  have h: "handle_update env u tag v attempts = Inr u1" using assms(6) by (simp add: updater_step_def)
  have 1: "text_known env tag u1" by (rule handle_update_text [OF known h])
  have s: "string_at (lastMessageStrings u1) tag = m"
    using handle_update_cases [OF h] assms(2,4) by (auto simp: string_at_update)
  have known1: "distinct (map fst (lastMessages u1))"
    "\<exists>v. map_of (lastMessages u1) tag = Some v \<and> to_json env v = Some m"
    using 1 [unfolded text_known_def s] assms(5) by blast+
  obtain v' where v': "map_of (lastMessages u1) tag = Some v'" "to_json env v' = Some m" using known1(2) by blast
  note others = run_others [OF assms(7,2,8) known1(1)]
  let ?s = "saveState env se u2"
  have "map_of (lastMessages ?s) tag = Some v'"
    unfolding saveState_messages(1) [OF assms(2)] using others v'(1) by simp
  moreover have "distinct (map fst (lastMessages ?s))"
    by (rule saveState_messages(3) [OF assms(2)]) (use others in simp)
  ultimately have "map_of (set_all (GlobalKoanf u2) (lastMessages ?s)) tag = Some v'"
    by (intro set_all_sets [OF _ map_of_SomeD assms(3)])
  then have "map_of (GlobalKoanf ?s) tag = Some v'" by (subst saveState_settings)
  then show ?thesis using v'(2) by blast
qed

lemma saved_to_file:
  assumes "replace_first ''.yaml'' ''.tmp.yaml'' (koanf_mainname env) \<notin> {koanf_mainname env, koanf_mainname env @ ''.bak''}"
    and "saves_all se" "to_yaml env (GlobalKoanf (saveState env se u)) = Some y"
  shows "disk (saveState env se u) (koanf_mainname env) = Some y"
  using save_files_new [OF assms(1,2)] assms(3) by (simp add: saveState_def Let_def)

subsection \<open>Witnesses\<close>

definition demo_updater_env :: "string updater_env" where
  "demo_updater_env = \<lparr>to_json = Some, to_yaml = (\<lambda>kvs. Some (concat (map snd kvs))), text_value = id,
     koanf_mainname = ''c.yaml''\<rparr>"

definition demo_save :: save_env where
  "demo_save = \<lparr>clock_text = ''now'', write_part = Some [], write_ok = True, remove_ok = True, backup_ok = True, rename_ok = True\<rparr>"

definition demo_updates :: "string update_event list" where
  "demo_updates = [Update ''STATUS'' ''a'' (\<lambda>_. [False, True]), SaveTick demo_save, Update ''STATUS'' ''b'' (\<lambda>_. [True]),
     Update ''ALIVE'' ''c'' (\<lambda>_. [True]), Update ''NEWDASTARD'' ''d'' (\<lambda>_. [True])]"

lemma demo_healthy: "\<forall>e\<in>set demo_updates. healthy demo_updater_env e"
  by (simp add: demo_updates_def healthy_def demo_updater_env_def goes_out_def maxSendAttempts_def)

lemma demo_last: "last_update demo_updates tag
  = (if tag = ''STATUS'' then Some ''b'' else if tag = ''ALIVE'' then Some ''c'' else None)"
  by (auto simp: demo_updates_def)

theorem sendall_repeats_state_witness:
  "\<exists>u news. RunClientUpdater demo_updater_env (new_updater [] Map.empty) demo_updates = Inr u
    \<and> updater_step demo_updater_env u (Update ''SENDALL'' [] (\<lambda>_. [True])) = Inr (u\<lparr>sent := sent u @ news\<rparr>)
    \<and> distinct (map fst news) \<and> set news = {(''STATUS'', ''b''), (''ALIVE'', ''c'')}"
proof -
  have "\<forall>k. goes_out ((\<lambda>_. [True]) (k :: string))" by (simp add: goes_out_def maxSendAttempts_def)
  from sendall_repeats_state [OF demo_healthy this, of "[]" Map.empty "[]"] obtain u news
    where u: "RunClientUpdater demo_updater_env (new_updater [] Map.empty) demo_updates = Inr u"
      "updater_step demo_updater_env u (Update ''SENDALL'' [] (\<lambda>_. [True])) = Inr (u\<lparr>sent := sent u @ news\<rparr>)"
      "distinct (map fst news)"
      "set news = {(tag, m). tag \<notin> set nopublishMessages
        \<and> (\<exists>state. last_update demo_updates tag = Some state \<and> to_json demo_updater_env state = Some m)}" by blast
  have "set news = {(''STATUS'', ''b''), (''ALIVE'', ''c'')}"
    unfolding u(4) demo_last by (auto simp: nopublishMessages_def demo_updater_env_def split: if_splits)
  then show ?thesis using u(1-3) by blast
qed

theorem save_keeps_configuration_witness:
  "last (save_files demo_save ''c.yaml'' (Some ''new'') [''c.yaml'' \<mapsto> ''old'']) ''c.yaml'' = Some ''new''
    \<and> last (save_files demo_save ''c.yaml'' (Some ''new'') [''c.yaml'' \<mapsto> ''old'']) ''c.yaml.bak'' = Some ''old''"
  using save_keeps_configuration [of "''c.yaml''" "''c.tmp.yaml''" "[''c.yaml'' \<mapsto> ''old'']" "''old''" "''new''" demo_save]
  by (simp add: demo_save_def)

theorem changes_are_saved_witness:
  "\<exists>u. RunClientUpdater demo_updater_env (new_updater [] Map.empty) [Update ''STATUS'' ''a'' (\<lambda>_. [True])] = Inr u
    \<and> (save_armed u \<or> map_of (GlobalKoanf u) ''STATUS'' = Some ''a'')"
proof -
  have r: "RunClientUpdater demo_updater_env (new_updater [] Map.empty) [Update ''STATUS'' ''a'' (\<lambda>_. [True])]
      = Inr \<lparr>lastMessages = [(''STATUS'', ''a'')], lastMessageStrings = [(''STATUS'', ''a'')], save_armed = True, GlobalKoanf = [],
          disk = Map.empty, sent = [(''STATUS'', ''a'')]\<rparr>"
    by (simp add: RunClientUpdater_def updater_step_def handle_update_def demo_updater_env_def new_updater_def string_at_def
        publish_update_def maxSendAttempts_def nopublishMessages_def Let_def)
  have "savable ''STATUS''" by (simp add: savable_def nosaveMessages_def lower_char_def)
  with changes_are_saved [OF r, of "''STATUS''" "''a''"] r show ?thesis by simp
qed

end
