(* ===== verification/Services.thy ===== *)
theory Services
  imports Requests SimSources LanceroControl ResonatorLaws RoachLaws ClientUpdates
begin

text \<open>
  The services of \<open>rpc_server.go\<close> that pass a configuration to one of the sources, and the loading of the
  stored configurations when the program starts.  What the settings file yields for a source is an
  argument: \<open>None\<close> when it cannot be decoded.
\<close>

subsection \<open>Configuring the sources\<close>

record SourceSet =
  setTriangle :: TriangleSource
  setSimPulses :: SimPulseSource
  setLancero :: LanceroSource
  configError :: "lancero_error option"
  setResonator :: ResonatorSource
  setRoach :: RoachSource

datatype config_update =
    UpdTriangleConfig TriangleSourceConfig | UpdSimPulseConfig SimPulseSourceConfig
  | UpdLanceroConfig LanceroSourceConfig LanceroDastardOutputJSON
  | UpdResonatorConfig ResonatorSourceConfig | UpdRoachConfig RoachSourceConfig

text \<open>Each service tells all clients the configuration that it was given, also when the source refuses it.\<close>

definition rpc_ConfigureTriangleSource ::
  "SourceSet \<Rightarrow> TriangleSourceConfig \<Rightarrow> (SourceSet \<times> config_update \<times> sim_error option) go" where
  "rpc_ConfigureTriangleSource s args = bind_go (triangle_Configure (setTriangle s) args) (\<lambda>(ts, err).
     Inr (s\<lparr>setTriangle := ts\<rparr>, UpdTriangleConfig args, err))"

definition rpc_ConfigureSimPulseSource ::
  "SourceSet \<Rightarrow> SimPulseSourceConfig \<Rightarrow> (SourceSet \<times> config_update \<times> sim_error option) go" where
  "rpc_ConfigureSimPulseSource s args = bind_go (simpulse_Configure (setSimPulses s) args) (\<lambda>(sps, err).
     Inr (s\<lparr>setSimPulses := sps\<rparr>, UpdSimPulseConfig args, err))"

definition rpc_ConfigureLanceroSource ::
  "cringeGlobals option \<Rightarrow> SourceSet \<Rightarrow> LanceroSourceConfig \<Rightarrow> SourceSet \<times> config_update \<times> lancero_error option" where
  "rpc_ConfigureLanceroSource globals s args =
     (let (ls, out, err) = lancero_Configure globals (setLancero s) args
      in (s\<lparr>setLancero := ls, configError := err\<rparr>, UpdLanceroConfig args out, err))"

text \<open>\<open>Configure\<close> of the packet source sorts the addresses in the configuration itself.\<close>

definition sorted_hosts :: "ResonatorSourceConfig \<Rightarrow> ResonatorSourceConfig" where
  "sorted_hosts args = (if unwrap_isvalid (rcUnwrapOptions args) = None
     then args\<lparr>HostPortUDP := foldr insert_string (remdups (HostPortUDP args)) []\<rparr> else args)"

definition rpc_ConfigureResonatorSource ::
  "(string \<Rightarrow> bool) \<Rightarrow> SourceSet \<Rightarrow> ResonatorSourceConfig \<Rightarrow> SourceSet \<times> config_update \<times> resonator_error option" where
  "rpc_ConfigureResonatorSource resolves s args =
     (let (rs, err) = resonator_Configure resolves (setResonator s) args
      in (s\<lparr>setResonator := rs\<rparr>, UpdResonatorConfig (sorted_hosts args), err))"

definition rpc_ConfigureRoachSource ::
  "(string \<Rightarrow> bool) \<Rightarrow> (string \<Rightarrow> bool) \<Rightarrow> SourceSet \<Rightarrow> RoachSourceConfig
   \<Rightarrow> (SourceSet \<times> config_update \<times> roach_error option) go" where
  "rpc_ConfigureRoachSource resolves listens s args =
     bind_go (roach_Configure resolves listens (setRoach s) args) (\<lambda>(rs, err).
       Inr (s\<lparr>setRoach := rs\<rparr>, UpdRoachConfig args, err))"

subsection \<open>Starting the program\<close>

record startup_env =
  envGlobals :: "cringeGlobals option"
  envResolves :: "string \<Rightarrow> bool"
  envListens :: "string \<Rightarrow> bool"

record StoredSettings =
  storedSimPulse :: "SimPulseSourceConfig option"
  storedTriangle :: "TriangleSourceConfig option"
  storedLancero :: "LanceroSourceConfig option"
  storedResonator :: "ResonatorSourceConfig option"
  storedRoach :: "RoachSourceConfig option"

definition load_simpulse :: "SourceSet \<Rightarrow> SimPulseSourceConfig option \<Rightarrow> (SourceSet \<times> config_update list) go" where
  "load_simpulse s stored = (case stored of
     None \<Rightarrow> Inr (s, [])
   | Some c \<Rightarrow> bind_go (rpc_ConfigureSimPulseSource s (if scNchan c = 0 then c\<lparr>scNchan := 1\<rparr> else c)) (\<lambda>(s1, u, err).
       if err \<noteq> None then Inl (ExplicitPanic ''ConfigureSimPulseSource'') else Inr (s1, [u])))"

definition load_triangle :: "SourceSet \<Rightarrow> TriangleSourceConfig option \<Rightarrow> (SourceSet \<times> config_update list) go" where
  "load_triangle s stored = (case stored of
     None \<Rightarrow> Inr (s, [])
   | Some c \<Rightarrow> bind_go (rpc_ConfigureTriangleSource s (if tcNchan c = 0 then c\<lparr>tcNchan := 1\<rparr> else c)) (\<lambda>(s1, u, err).
       if err \<noteq> None then Inl (ExplicitPanic ''ConfigureTriangleSource'') else Inr (s1, [u])))"

text \<open>The errors of the other sources are expected where there is no such hardware, and ignored.\<close>

definition load_settings ::
  "startup_env \<Rightarrow> SourceSet \<Rightarrow> StoredSettings \<Rightarrow> (SourceSet \<times> config_update list) go" where
  "load_settings env s st =
     bind_go (load_simpulse s (storedSimPulse st)) (\<lambda>(s1, u1).
     bind_go (load_triangle s1 (storedTriangle st)) (\<lambda>(s2, u2).
       let (s3, u3) = (case storedLancero st of None \<Rightarrow> (s2, [])
             | Some c \<Rightarrow> (let (s3, u, _) = rpc_ConfigureLanceroSource (envGlobals env) s2 c in (s3, [u])));
           (s4, u4) = (case storedResonator st of None \<Rightarrow> (s3, [])
             | Some c \<Rightarrow> (let (s4, u, _) = rpc_ConfigureResonatorSource (envResolves env) s3 c in (s4, [u])))
       in bind_go (case storedRoach st of None \<Rightarrow> Inr (s4, [])
             | Some c \<Rightarrow> bind_go (rpc_ConfigureRoachSource (envResolves env) (envListens env) s4 c) (\<lambda>(s5, u, _). Inr (s5, [u])))
           (\<lambda>(s5, u5). Inr (s5, u1 @ u2 @ u3 @ u4 @ u5))))"

subsection \<open>A refused configuration\<close>

lemma triangle_refusal:
  assumes "triangle_Configure ts config = Inr (ts', Some err)" "err \<noteq> SimNotInactive"
    and "sourceState (tsSource fresh) = Inactive"
  shows "\<exists>fresh'. triangle_Configure fresh config = Inr (fresh', Some err)"
  using assms by (auto simp: triangle_Configure_def Let_def bind_go_Inr_iff split: if_splits)

text \<open>The message that a service sends to the client updater.\<close>

fun update_tag :: "config_update \<Rightarrow> string" where
  "update_tag (UpdTriangleConfig c) = ''TRIANGLE''"
| "update_tag (UpdSimPulseConfig c) = ''SIMPULSE''"
| "update_tag (UpdLanceroConfig c out) = ''LANCERO''"
| "update_tag (UpdResonatorConfig c) = ''RESONATOR''"
| "update_tag (UpdRoachConfig c) = ''ROACH''"

text \<open>
  C8: a refused configuration stops the next start.  Let the triangle source be told a configuration that
  it refuses, for another reason than that it is running, and whose number of channels is not 0 (0 is replaced by
  1 when it is read back).  After any run of the client updater the message of that service reaches it, which
  has a text in JSON; other messages and saves may follow, but no message about the triangle source, and then a save
  that goes well.  Then the settings hold, under the name of the triangle source, a value with just this JSON text,
  and the settings file holds them.  If what is read back from a file that holds such a value is the
  configuration (which is what writing and reading settings is for), a new program that starts with it panics, whatever
  else is stored: in loading the triangle source if not before, in loading the simulated pulses.
\<close>

theorem refused_configuration_stops_next_start:
  fixes json :: "config_update \<Rightarrow> 'v"
  assumes "rpc_ConfigureTriangleSource s config = Inr (s', update, Some err)"
    and "err \<noteq> SimNotInactive" "tcNchan config \<noteq> 0"
    and "RunClientUpdater uenv (new_updater conf files) es = Inr u"
    and "to_json uenv (json update) = Some m" "m \<noteq> []"
    and "updater_step uenv u (Update (update_tag update) (json update) sockets) = Inr u1"
    and "RunClientUpdater uenv u1 es' = Inr u2" "\<forall>e\<in>set es'. \<not> of_tag ''TRIANGLE'' e"
    and "saves_all se" "to_yaml uenv (GlobalKoanf (saveState uenv se u2)) = Some y"
    and "replace_first ''.yaml'' ''.tmp.yaml'' (koanf_mainname uenv) \<notin> {koanf_mainname uenv, koanf_mainname uenv @ ''.bak''}"
    and "\<And>settings v. to_yaml uenv settings = Some y \<Longrightarrow> map_of settings ''TRIANGLE'' = Some v \<Longrightarrow> to_json uenv v = Some m
      \<Longrightarrow> unmarshal y = Some config"
    and "sourceState (tsSource (setTriangle fresh)) = Inactive" "storedTriangle st = unmarshal y"
  shows "disk (saveState uenv se u2) (koanf_mainname uenv) = Some y
    \<and> (\<exists>v. map_of (GlobalKoanf (saveState uenv se u2)) ''TRIANGLE'' = Some v \<and> to_json uenv v = Some m)
    \<and> (\<exists>p. load_settings env fresh st = Inl p
        \<and> (\<forall>r. load_simpulse fresh (storedSimPulse st) = Inr r \<longrightarrow> p = ExplicitPanic ''ConfigureTriangleSource''))"
proof -
  obtain ts where c: "triangle_Configure (setTriangle s) config = Inr (ts, Some err)" "update = UpdTriangleConfig config"
    using assms(1) by (auto simp: rpc_ConfigureTriangleSource_def bind_go_Inr_iff)
  have tag: "own_tag ''TRIANGLE''" "savable ''TRIANGLE''"
    by (simp_all add: own_tag_def nopublishMessages_def savable_def nosaveMessages_def lower_char_def)
  have step: "updater_step uenv u (Update ''TRIANGLE'' (json update) sockets) = Inr u1" using assms(7) c(2) by simp
  obtain v where v: "map_of (GlobalKoanf (saveState uenv se u2)) ''TRIANGLE'' = Some v" "to_json uenv v = Some m"
    using update_is_saved [OF assms(4) tag assms(5,6) step assms(8,9)] by blast
  have stored: "storedTriangle st = Some config" using assms(13) [OF assms(11) v] assms(15) by simp
  have "\<exists>p. load_settings env fresh st = Inl p
      \<and> (\<forall>r. load_simpulse fresh (storedSimPulse st) = Inr r \<longrightarrow> p = ExplicitPanic ''ConfigureTriangleSource'')"
  proof (cases "load_simpulse fresh (storedSimPulse st)")
    case (Inl p)
    then show ?thesis by (simp add: load_settings_def)
  next
    case (Inr r)
    obtain s1 us where r: "r = (s1, us)" by fastforce
    have "setTriangle s1 = setTriangle fresh"
      using Inr r by (auto simp: load_simpulse_def rpc_ConfigureSimPulseSource_def bind_go_Inr_iff split: option.splits if_splits)
    then obtain ts1 where "triangle_Configure (setTriangle s1) config = Inr (ts1, Some err)"
      using triangle_refusal [OF c(1) assms(2,14)] by auto
    then have "load_triangle s1 (Some config) = Inl (ExplicitPanic ''ConfigureTriangleSource'')"
      using assms(3) by (simp add: load_triangle_def rpc_ConfigureTriangleSource_def)
    then show ?thesis using Inr r stored by (simp add: load_settings_def)
  qed
  then show ?thesis using v saved_to_file [OF assms(12,10,11)] by blast
qed

definition demo_sources :: SourceSet where
  "demo_sources = \<lparr>setTriangle = demo_triangle (demo_source\<lparr>sourceState := Inactive\<rparr>),
     setSimPulses = demo_simpulse (demo_source\<lparr>sourceState := Inactive\<rparr>), setLancero = demo_lancero [] 0, configError = None,
     setResonator = demo_resonator, setRoach = demo_boards\<rparr>"

definition bad_triangle :: TriangleSourceConfig where
  "bad_triangle = \<lparr>tcNchan = 1, tcSampleRate = Fin 1000, tcMin = 9, tcMax = 3\<rparr>"

definition bad_settings :: StoredSettings where
  "bad_settings = \<lparr>storedSimPulse = None, storedTriangle = Some bad_triangle, storedLancero = None, storedResonator = None,
     storedRoach = None\<rparr>"

text \<open>Settings whose file is the text of the value under \<open>TRIANGLE\<close>, read back as the configuration that has it.\<close>

definition demo_config_env :: "string updater_env" where
  "demo_config_env = \<lparr>to_json = Some, to_yaml = (\<lambda>kvs. map_of kvs ''TRIANGLE''), text_value = id, koanf_mainname = ''c.yaml''\<rparr>"

theorem refused_configuration_stops_next_start_witness:
  "\<exists>u1. updater_step demo_config_env (new_updater [] Map.empty) (Update ''TRIANGLE'' ''bad'' (\<lambda>_. [True])) = Inr u1
    \<and> disk (saveState demo_config_env demo_save u1) ''c.yaml'' = Some ''bad''
    \<and> load_settings \<lparr>envGlobals = None, envResolves = (\<lambda>_. True), envListens = (\<lambda>_. True)\<rparr> demo_sources bad_settings
      = Inl (ExplicitPanic ''ConfigureTriangleSource'')"
proof -
  have r: "rpc_ConfigureTriangleSource demo_sources bad_triangle
      = Inr (demo_sources, UpdTriangleConfig bad_triangle, Some (MinAboveMax 9 3))"
    by (simp add: rpc_ConfigureTriangleSource_def triangle_Configure_def bad_triangle_def demo_sources_def)
  have run: "RunClientUpdater demo_config_env (new_updater [] Map.empty) [] = Inr (new_updater [] Map.empty)"
    by (simp add: RunClientUpdater_def)
  obtain u1 where u1: "updater_step demo_config_env (new_updater [] Map.empty)
      (Update (update_tag (UpdTriangleConfig bad_triangle)) ''bad'' (\<lambda>_. [True])) = Inr u1"
    "GlobalKoanf u1 = []" "lastMessages u1 = [(''TRIANGLE'', ''bad'')]"
    by (simp add: updater_step_def handle_update_def demo_config_env_def new_updater_def publish_update_def maxSendAttempts_def
      nopublishMessages_def string_at_def Let_def)
  have none: "RunClientUpdater demo_config_env u1 [] = Inr u1" by (simp add: RunClientUpdater_def)
  have "savable ''TRIANGLE''" by (simp add: savable_def nosaveMessages_def lower_char_def)
  then have y: "to_yaml demo_config_env (GlobalKoanf (saveState demo_config_env demo_save u1)) = Some ''bad''"
    by (simp add: saveState_def demo_config_env_def u1(2,3) set_all_def Let_def update_conv')
  have h: "MinAboveMax 9 3 \<noteq> SimNotInactive" "tcNchan bad_triangle \<noteq> 0" "to_json demo_config_env ''bad'' = Some ''bad''" "''bad'' \<noteq> ''''"
    "saves_all demo_save" "sourceState (tsSource (setTriangle demo_sources)) = Inactive"
    "replace_first ''.yaml'' ''.tmp.yaml'' (koanf_mainname demo_config_env) \<notin> {koanf_mainname demo_config_env, koanf_mainname demo_config_env @ ''.bak''}"
    by (simp_all add: bad_triangle_def demo_config_env_def saves_all_def demo_save_def demo_sources_def demo_triangle_def)
  have l: "load_simpulse demo_sources (storedSimPulse bad_settings) = Inr (demo_sources, [])" "storedTriangle bad_settings = Some bad_triangle"
    by (simp_all add: load_simpulse_def bad_settings_def)
  from refused_configuration_stops_next_start [where json = "\<lambda>_. ''bad''" and unmarshal = "\<lambda>_. Some bad_triangle" and st = bad_settings
      and env = "\<lparr>envGlobals = None, envResolves = (\<lambda>_. True), envListens = (\<lambda>_. True)\<rparr>",
      OF r h(1,2) run h(3,4) u1(1) none _ h(5) y h(7) _ h(6) l(2)] l(1)
  have "disk (saveState demo_config_env demo_save u1) (koanf_mainname demo_config_env) = Some ''bad''"
    "load_settings \<lparr>envGlobals = None, envResolves = (\<lambda>_. True), envListens = (\<lambda>_. True)\<rparr> demo_sources bad_settings
      = Inl (ExplicitPanic ''ConfigureTriangleSource'')" by auto
  then show ?thesis using u1(1) by (intro exI [of _ u1]) (simp add: demo_config_env_def)
qed

end
