(* ===== verification/Spec2Isabelle.thy ===== *)
theory Spec2Isabelle
  imports PhaseMix PacketLaws WritingLaws ControlLaws SourceConfig AsyncWriter LanceroControl RunLaws Receiver Services
begin

text \<open>
  Verification library for Dastard, the data acquisition program for microcalorimeter arrays.

  \<^bold>\<open>The program.\<close>  A source (TDM cards, ROACH boards, the Abaco packet hardware, simulations) delivers blocks
  of raw samples, one segment per channel.  \<open>AnySource.ProcessSegments\<close> hands every segment to the
  processor of its channel, which decimates it, appends it to the stream of the channel, searches it for
  triggers, cuts records around them, analyses the records and publishes them to files and subscribers.
  Between the search and the secondary triggers stands the trigger broker, which tells every channel the
  triggers of the channels it is coupled to and counts the triggers of all of them.  \<open>WriteControl\<close> opens,
  pauses and closes the files; the writing state holds the logs of experiment states, external triggers and
  lost data.  Clients reach all this by remote procedure calls.

  \<^bold>\<open>Conventions.\<close>  A Go statement that can panic is a value of \<open>'a go\<close>: \<open>Inl\<close> of the panic or \<open>Inr\<close> of the
  result; an \<open>error\<close> that Go code returns is an ordinary component of the result, of a datatype with one
  constructor per message.  Slices are lists, with the bounds checks of Go written out (\<open>idx\<close>, \<open>slice_go\<close>,
  \<open>put_go\<close>); fixed-width integers are words where the code can wrap, \<open>int\<close> where the type has 64 bits and the
  value counts samples, frames or nanoseconds.  \<open>float64\<close> and \<open>float32\<close> are rationals rounded after every
  operation as IEEE 754 says (\<open>GoFloat\<close>).  Loops that may run forever are \<open>partial_function (option)\<close> and
  \<open>None\<close> means that they do.  Random numbers, clocks, device reads, file-system failures and the functions of
  other packages are arguments of the definitions that use them.

  \<^bold>\<open>Theories and code.\<close>
  \<^item> \<open>Prelude\<close>, \<open>GoFloat\<close>, \<open>Bytes\<close>: panics, slices, integer division; floating point; the byte views of
    \<open>internal/getbytes\<close> and \<open>publish_data_slices.go\<close> with the locale \<open>byte_codec\<close> and its nine instances.
  \<^item> \<open>DataStream\<close>: \<open>DataSegment\<close>, \<open>DataStream\<close>, \<open>DataRecord\<close> of \<open>data_source.go\<close>; the locale \<open>sample_window\<close>
    says that a stream is a window on the samples of the channel.
  \<^item> \<open>EdgeMulti\<close>, \<open>Triggering\<close>, \<open>TriggerPasses\<close>: \<open>edge_multi_trigger.go\<close> and \<open>triggering.go\<close>.  The laws: every
    pass returns, its records are cut out of the stream where it says, edge triggers are complete, level
    triggers are exactly the crossings away from edges, auto triggers leave no gap longer than the delay and
    a record; the edge-multi search never indexes outside the buffer and goes blind after a reset at frame
    numbers beyond \<open>2^31\<close>.
  \<^item> \<open>GroupTrigger\<close>, \<open>GroupLaws\<close>: \<open>group_trigger.go\<close>.  Connections are a relation (locale \<open>link_store\<close>), every
    trigger is counted once, each receiver gets the sorted triggers of its sources.
  \<^item> \<open>PhaseMix\<close>: \<open>phase_unwrap.go\<close> and \<open>mix.go\<close> as instances of the locale \<open>stream_filter\<close>: working on two pieces
    is working on the whole, and so is any cutting of a stream.
  \<^item> \<open>AsyncWriter\<close>: \<open>internal/asyncbufio\<close> as a step relation of caller, goroutine, ticker, buffer and a file whose
    operations may fail: nothing is reordered, and nothing lost before a failure.
  \<^item> \<open>Packets\<close>, \<open>PacketLaws\<close>: \<open>packets/packets.go\<close>, construction, serialisation, parser; every item round trips
    (locale \<open>tlv_codec\<close>), a whole packet does, the parser always returns.
  \<^item> \<open>PulseFiles\<close>, \<open>PulseLaws\<close>: \<open>internal/ljh\<close>, \<open>internal/off\<close>, \<open>publish_data.go\<close>; the locale \<open>record_file\<close> and its
    three instances.
  \<^item> \<open>Baseline\<close>: \<open>baseline_monitor.go\<close>.
  \<^item> \<open>ProcessData\<close>, \<open>ProcessLaws\<close>: \<open>process_data.go\<close>, one channel from the segment to the published record.
  \<^item> \<open>WritingState\<close>, \<open>WritingLaws\<close>: \<open>writing_state.go\<close> and the log handlers of \<open>data_source.go\<close> over a file
    system with failures; the locale \<open>append_only\<close> for the state file and the buffered logs.
  \<^item> \<open>Source\<close>, \<open>SourceLaws\<close>, \<open>ControlLaws\<close>, \<open>SourceConfig\<close>: \<open>AnySource\<close> of \<open>data_source.go\<close>.  A block runs through
    the whole source without a panic and leaves it ready for the next; \<open>WriteControl\<close> refines the step
    relation \<open>control_step\<close> of a session, channel by channel; record lengths, row and column codes, the archive of raw data.
  \<^item> \<open>Lancero\<close>, \<open>LanceroLaws\<close>, \<open>LanceroBlocks\<close>, \<open>LanceroControl\<close>: \<open>lancero_source.go\<close> and \<open>FindFrameBits\<close> of
    \<open>internal/lancero\<close>.  The reader cuts whole frames, the channel order is a permutation, the numbers of
    pixels are unique, a block carries each pixel's samples with the feedback mixed; what goes wrong with
    external triggers and lost data.
  \<^item> \<open>SimSources\<close>: \<open>simulated_data_sources.go\<close>; the locale \<open>block_producer\<close> says what any run of a source that
    makes such blocks guarantees, with the two generators and the packet source as instances.
  \<^item> \<open>Resonator\<close>, \<open>ResonatorLaws\<close>: \<open>resonator.go\<close>.  Gaps in the sequence numbers are filled, except behind packets
    left over from the tick before; the values of a queue reach their channels; blocks follow without a gap.
  \<^item> \<open>Receiver\<close>: the receiver of \<open>resonator.go\<close>.  Requests lose no packet; a bad datagram blocks the reader.
  \<^item> \<open>Roach\<close>, \<open>RoachLaws\<close>: \<open>roach.go\<close>.  Packets are read as the boards write them, a block carries the samples
    of every channel; two boards, or packets of more channels than were sampled, end the program.
  \<^item> \<open>Requests\<close>, \<open>Lifecycle\<close>, \<open>RunLaws\<close>: the services of \<open>rpc_server.go\<close>, each with the closure that the core loop
    runs, \<open>map.go\<close>, and \<open>Start\<close>, \<open>CoreLoop\<close>, \<open>Stop\<close> of \<open>data_source.go\<close> as a step relation of the server's state,
    clients, core loops and producers.  The invariant of reachable states, answers reach those who asked; who
    waits in \<open>Stop\<close> goes on only when the run has ended, and a source that is stopping can always get there, unless a
    comment that cannot be written has blocked its loop; a second \<open>Start\<close> loses the run.
  \<^item> \<open>ClientUpdates\<close>: \<open>client_updater.go\<close>.  A client that asks for everything gets the last text of each message,
    no change is forgotten, saving never loses the configuration.
  \<^item> \<open>Services\<close>: the services of \<open>rpc_server.go\<close> that configure a source, and the loading of the stored settings; a
    configuration that was refused is saved by the client updater and stops the next start.

  \<^bold>\<open>Termination.\<close>  There is no artificial fuel.  Loops over slices are structural; searches have a measure
  (\<open>edge_loop\<close>, \<open>level_loop\<close>, \<open>emt_loop\<close>); \<open>auto_loop\<close>, \<open>advance\<close>, \<open>halve_period\<close> may run forever in the code
  and are partial functions whose returning is part of the properties.  The loops over reads of a device are
  recursive in the list of what the device delivers.

  \<^bold>\<open>Not modelled.\<close>  The drivers and device registers of the TDM cards, sockets and shared memory (input and output),
  the opening of ports and the timers of the readers; the JSON transport of the remote calls; the scanner of LJH
  text headers; the goroutines that save an archive, flush files or forward baselines to a socket; database,
  command line programs and log output.  They are input and output or glue around code of other packages, of
  which a model would only restate assumptions.
\<close>

end
